(* ===== verification/Prelude.thy ===== *)
theory Prelude
  imports Main "HOL-Library.Word"
begin

text \<open>
  Shared vocabulary of the development: Rust's fixed-width integers as words, \<open>Result\<close> as a
  sum type with its \<open>and_then\<close>, and the native byte representation of integers
  (\<open>to_ne_bytes\<close>, \<open>from_ne_bytes\<close>). Both supported targets (x86-64 and AArch64) are
  little-endian, so the native order is least significant byte first.
\<close>

section \<open>Integer types\<close>

type_synonym u8 = "8 word"
type_synonym u16 = "16 word"
type_synonym u32 = "32 word"
type_synonym u64 = "64 word"
type_synonym i32 = "32 word"
type_synonym i64 = "64 word"
type_synonym usize = "64 word"

text \<open>An \<open>f64\<close> is carried as its bit pattern: the sources transfer it, they do not compute with it here.\<close>

type_synonym f64 = "64 word"
type_synonym byte = "8 word"

named_theorems result_simps \<open>rewriting of \<open>and_then\<close> chains\<close>

section \<open>Results\<close>

text \<open>\<open>Result<T, E>\<close>: \<open>Inl\<close> is \<open>Err\<close> and \<open>Inr\<close> is \<open>Ok\<close>; \<open>and_then\<close> is the \<open>?\<close> operator.\<close>

definition and_then :: "'e + 'a \<Rightarrow> ('a \<Rightarrow> 'e + 'b) \<Rightarrow> 'e + 'b" where
  "and_then r f = (case r of Inl e \<Rightarrow> Inl e | Inr x \<Rightarrow> f x)"

lemma and_then_simps [simp, result_simps]:
  "and_then (Inl e) f = Inl e"
  "and_then (Inr x) f = f x"
  by (simp_all add: and_then_def)

lemma and_then_eq_Inr:
  "and_then r f = Inr y \<longleftrightarrow> (\<exists>x. r = Inr x \<and> f x = Inr y)"
  by (cases r) auto

lemma and_then_cong [fundef_cong]:
  "r = r' \<Longrightarrow> (\<And>x. r' = Inr x \<Longrightarrow> f x = f' x) \<Longrightarrow> and_then r f = and_then r' f'"
  by (cases r') auto

text \<open>\<open>option.ok_or(e)\<close>.\<close>

definition ok_or :: "'a option \<Rightarrow> 'e \<Rightarrow> 'e + 'a" where
  "ok_or v e = (case v of None \<Rightarrow> Inl e | Some x \<Rightarrow> Inr x)"

lemma ok_or_simps [simp]: "ok_or None e = Inl e" "ok_or (Some x) e = Inr x"
  by (simp_all add: ok_or_def)

section \<open>Native byte representation\<close>

definition byte_of :: "nat \<Rightarrow> byte" where
  "byte_of n = word_of_nat n"

text \<open>\<open>le_bytes k n\<close>: the \<open>k\<close> low bytes of \<open>n\<close>, least significant first.\<close>

primrec le_bytes :: "nat \<Rightarrow> nat \<Rightarrow> byte list" where
  "le_bytes 0 n = []"
| "le_bytes (Suc k) n = byte_of (n mod 256) # le_bytes k (n div 256)"

primrec le_value :: "byte list \<Rightarrow> nat" where
  "le_value [] = 0"
| "le_value (b # bs) = unat b + 256 * le_value bs"

lemma le_bytes_numeral [simp]:
  "le_bytes (numeral k) n = byte_of (n mod 256) # le_bytes (pred_numeral k) (n div 256)"
  unfolding numeral_eq_Suc [of k] by (rule le_bytes.simps)

lemma length_le_bytes [simp]: "length (le_bytes k n) = k"
  by (induction k arbitrary: n) auto

lemma unat_byte_of [simp]: "n < 256 \<Longrightarrow> unat (byte_of n) = n"
  by (simp add: byte_of_def unat_of_nat)

lemma byte_of_unat [simp]: "byte_of (unat b) = b"
  by (simp add: byte_of_def)

lemma unat_less_pow: "unat (w :: 'a::len word) < 2 ^ LENGTH('a)"
  by (rule unsigned_less)

lemma byte_less_256 [simp]: "unat (b :: byte) < 256"
  using unat_less_pow [of b] by simp

lemma le_value_less: "le_value bs < 256 ^ length bs"
proof (induction bs)
  case Nil
  then show ?case by simp
next
  case (Cons b bs)
  have "unat b + 256 * le_value bs < 256 * (le_value bs + 1)"
    using byte_less_256 [of b] by simp
  also have "\<dots> \<le> 256 * 256 ^ length bs"
    using Cons by (intro mult_le_mono2) simp
  finally show ?case by simp
qed

lemma le_value_le_bytes: "n < 256 ^ k \<Longrightarrow> le_value (le_bytes k n) = n"
proof (induction k arbitrary: n)
  case 0
  then show ?case by simp
next
  case (Suc k)
  have "n div 256 < 256 ^ k"
    using Suc.prems by (simp add: less_mult_imp_div_less mult.commute)
  then have "le_value (le_bytes k (n div 256)) = n div 256"
    by (rule Suc.IH)
  then show ?case by simp
qed

lemma le_bytes_le_value: "le_bytes (length bs) (le_value bs) = bs"
proof (induction bs)
  case Nil
  then show ?case by simp
next
  case (Cons b bs)
  have b: "unat b < 256" by simp
  have "(unat b + 256 * le_value bs) mod 256 = unat b"
    and "(unat b + 256 * le_value bs) div 256 = le_value bs"
    using b by simp_all
  then show ?case using Cons by simp
qed

text \<open>\<open>size_of\<close>, \<open>to_ne_bytes\<close> and \<open>from_ne_bytes\<close> of a \<open>8 * k\<close>-bit integer.\<close>

definition size_of :: "'a::len word itself \<Rightarrow> nat" where
  "size_of _ = LENGTH('a) div 8"

definition to_ne_bytes :: "'a::len word \<Rightarrow> byte list" where
  "to_ne_bytes w = le_bytes (LENGTH('a) div 8) (unat w)"

definition from_ne_bytes :: "byte list \<Rightarrow> 'a::len word" where
  "from_ne_bytes bs = word_of_nat (le_value bs)"

lemma length_to_ne_bytes [simp]: "length (to_ne_bytes (w :: 'a::len word)) = LENGTH('a) div 8"
  by (simp add: to_ne_bytes_def)

lemma pow_256_bytes: "8 dvd n \<Longrightarrow> (256 :: nat) ^ (n div 8) = 2 ^ n"
proof -
  assume "8 dvd n"
  then obtain k where "n = 8 * k" by (auto simp: dvd_def)
  moreover have "(256 :: nat) ^ k = (2 ^ 8) ^ k" by simp
  ultimately show ?thesis by (simp add: power_mult)
qed

lemma from_to_ne_bytes:
  assumes "8 dvd LENGTH('a)"
  shows "from_ne_bytes (to_ne_bytes (w :: 'a::len word)) = w"
proof -
  have "unat w < 256 ^ (LENGTH('a) div 8)"
    using unat_less_pow [of w] by (simp add: pow_256_bytes assms)
  then show ?thesis
    by (simp add: from_ne_bytes_def to_ne_bytes_def le_value_le_bytes)
qed

lemma to_from_ne_bytes:
  assumes "8 dvd LENGTH('a)" and "length bs = LENGTH('a) div 8"
  shows "to_ne_bytes (from_ne_bytes bs :: 'a::len word) = bs"
proof -
  have "le_value bs < 2 ^ LENGTH('a)"
    using le_value_less [of bs] assms by (simp add: pow_256_bytes)
  then have "unat (word_of_nat (le_value bs) :: 'a word) = le_value bs"
    by (simp add: unat_of_nat)
  then show ?thesis
    using assms(2) le_bytes_le_value [of bs] by (simp add: to_ne_bytes_def from_ne_bytes_def)
qed

section \<open>Lists\<close>

lemma take_length_append [simp]: "length xs = n \<Longrightarrow> take n (xs @ ys) = xs"
  by simp

lemma drop_length_append [simp]: "length xs = n \<Longrightarrow> drop n (xs @ ys) = ys"
  by simp

lemma take_eq_append_drop: "n \<le> length d \<Longrightarrow> take n d = bs \<Longrightarrow> d = bs @ drop n d"
  by auto

text \<open>An index search with a single answer.\<close>

lemma filter_upt_single: "filter P [0..<n] = [j] \<longleftrightarrow> {k. k < n \<and> P k} = {j}"
proof
  assume single: "{k. k < n \<and> P k} = {j}"
  have "set (filter P [0..<n]) = set [j]" using single by auto
  then show "filter P [0..<n] = [j]"
    using sorted_distinct_set_unique [of "filter P [0..<n]" "[j]"] sorted_wrt_filter [of "(\<le>)" "[0..<n]" P] by simp
next
  assume "filter P [0..<n] = [j]"
  then have "set (filter P [0..<n]) = {j}" by simp
  then show "{k. k < n \<and> P k} = {j}" by auto
qed

lemma filter_upt_only: "filter P [0..<n] = [j] \<longleftrightarrow> (\<forall>k. k < n \<and> P k \<longleftrightarrow> k = j)"
  unfolding filter_upt_single by auto

end
