(* ===== verification/Rust_String.thy ===== *)
theory Rust_String
  imports Prelude
begin

text \<open>
  Rust's \<open>char\<close> and \<open>String\<close>: Unicode scalar values, the UTF-8 encoding a \<open>String\<close>
  is stored in, and \<open>str::from_utf8\<close>. The two directions of the encoding are proved inverse to
  each other, so that a \<open>String\<close> may be handled as the list of its characters.
\<close>

section \<open>Characters\<close>

definition is_scalar :: "nat \<Rightarrow> bool" where
  "is_scalar n \<longleftrightarrow> n < 0xD800 \<or> 0xE000 \<le> n \<and> n < 0x110000"

typedef uchar = "{n. is_scalar n}"
  morphisms code_point Abs_uchar
  by (rule exI [of _ 0]) (simp add: is_scalar_def)

setup_lifting type_definition_uchar

text \<open>\<open>chr n\<close> is the character with code point \<open>n\<close>; a surrogate or an out-of-range number gives U+FFFD.\<close>

lift_definition chr :: "nat \<Rightarrow> uchar" is "\<lambda>n. if is_scalar n then n else 0xFFFD"
  by (simp add: is_scalar_def)

instantiation uchar :: equal
begin

lift_definition equal_uchar :: "uchar \<Rightarrow> uchar \<Rightarrow> bool" is "\<lambda>a b. a = b" .

instance
  by (standard; transfer) simp

end

lemma code_point_scalar [simp]: "is_scalar (code_point c)"
  using code_point [of c] by simp

lemma code_point_chr [simp]: "is_scalar n \<Longrightarrow> code_point (chr n) = n"
  by transfer simp

lemma chr_code_point [simp]: "chr (code_point c) = c"
  by transfer simp

lemma chr_eq_iff [simp]: "is_scalar m \<Longrightarrow> is_scalar n \<Longrightarrow> chr m = chr n \<longleftrightarrow> m = n"
  by (metis code_point_chr)

lemma is_scalar_ascii [simp]: "n < 256 \<Longrightarrow> is_scalar n"
  by (simp add: is_scalar_def)

type_synonym rstring = "uchar list"

text \<open>A string literal of the source (ASCII).\<close>

definition lit :: "string \<Rightarrow> rstring" where
  "lit s = map (\<lambda>c. chr (of_char c)) s"

section \<open>UTF-8\<close>

definition utf8_char :: "uchar \<Rightarrow> byte list" where
  "utf8_char c = (let n = code_point c in
     if n < 0x80 then [byte_of n]
     else if n < 0x800 then [byte_of (0xC0 + n div 64), byte_of (0x80 + n mod 64)]
     else if n < 0x10000 then
       [byte_of (0xE0 + n div 4096), byte_of (0x80 + (n div 64) mod 64),
        byte_of (0x80 + n mod 64)]
     else
       [byte_of (0xF0 + n div 262144), byte_of (0x80 + (n div 4096) mod 64),
        byte_of (0x80 + (n div 64) mod 64), byte_of (0x80 + n mod 64)])"

text \<open>\<open>String::as_bytes\<close>.\<close>

definition as_bytes :: "rstring \<Rightarrow> byte list" where
  "as_bytes s = concat (map utf8_char s)"

definition continuation :: "byte \<Rightarrow> bool" where
  "continuation b \<longleftrightarrow> 0x80 \<le> unat b \<and> unat b < 0xC0"

text \<open>The code point of a two, three and four byte sequence.\<close>

definition tail_bits :: "byte \<Rightarrow> nat" where
  "tail_bits b = unat b - 0x80"

definition code2 :: "byte \<Rightarrow> byte \<Rightarrow> nat" where
  "code2 b0 b1 = (unat b0 - 0xC0) * 64 + tail_bits b1"

definition code3 :: "byte \<Rightarrow> byte \<Rightarrow> byte \<Rightarrow> nat" where
  "code3 b0 b1 b2 = (unat b0 - 0xE0) * 4096 + tail_bits b1 * 64 + tail_bits b2"

definition code4 :: "byte \<Rightarrow> byte \<Rightarrow> byte \<Rightarrow> byte \<Rightarrow> nat" where
  "code4 b0 b1 b2 b3 =
     (unat b0 - 0xF0) * 262144 + tail_bits b1 * 4096 + tail_bits b2 * 64 + tail_bits b3"

text \<open>
  One character at the front of a byte slice: the code point and the remaining bytes. Overlong
  forms, surrogates, numbers past U+10FFFF and missing continuation bytes are rejected, as
  \<open>str::from_utf8\<close> rejects them.
\<close>

definition utf8_next :: "byte list \<Rightarrow> (nat \<times> byte list) option" where
  "utf8_next d = (case d of
     [] \<Rightarrow> None
   | b0 # d0 \<Rightarrow>
       if unat b0 < 0x80 then Some (unat b0, d0)
       else if unat b0 < 0xC0 then None
       else if unat b0 < 0xE0 then
         (case d0 of
            b1 # d1 \<Rightarrow>
              if continuation b1 \<and> 0x80 \<le> code2 b0 b1 then Some (code2 b0 b1, d1) else None
          | _ \<Rightarrow> None)
       else if unat b0 < 0xF0 then
         (case d0 of
            b1 # b2 # d2 \<Rightarrow>
              if continuation b1 \<and> continuation b2 \<and> 0x800 \<le> code3 b0 b1 b2
                 \<and> is_scalar (code3 b0 b1 b2)
              then Some (code3 b0 b1 b2, d2) else None
          | _ \<Rightarrow> None)
       else
         (case d0 of
            b1 # b2 # b3 # d3 \<Rightarrow>
              if unat b0 < 0xF8 \<and> continuation b1 \<and> continuation b2 \<and> continuation b3
                 \<and> 0x10000 \<le> code4 b0 b1 b2 b3 \<and> is_scalar (code4 b0 b1 b2 b3)
              then Some (code4 b0 b1 b2 b3, d3) else None
          | _ \<Rightarrow> None))"

lemma utf8_next_shorter: "utf8_next d = Some (n, d') \<Longrightarrow> length d' < length d"
  by (auto simp: utf8_next_def Let_def split: list.splits if_splits)

function from_utf8 :: "byte list \<Rightarrow> rstring option" where
  "from_utf8 d =
     (if d = [] then Some []
      else case utf8_next d of
        None \<Rightarrow> None
      | Some (n, d') \<Rightarrow> map_option (\<lambda>s. chr n # s) (from_utf8 d'))"
  by pat_completeness auto
termination
  by (relation "measure length") (auto dest: utf8_next_shorter)

declare from_utf8.simps [simp del]

lemma from_utf8_Nil [simp]: "from_utf8 [] = Some []"
  by (simp add: from_utf8.simps)

lemma utf8_char_nonempty [simp]: "utf8_char c \<noteq> []"
  by (simp add: utf8_char_def Let_def)

lemma digits2: "n div 64 * 64 + n mod 64 = (n::nat)"
  by simp

lemma digits3: "n div 4096 * 4096 + n div 64 mod 64 * 64 + n mod 64 = (n::nat)"
proof -
  have "n div 4096 = n div 64 div 64" by (simp add: div_mult2_eq [symmetric])
  then show ?thesis
    using div_mult_mod_eq [of "n div 64" 64] div_mult_mod_eq [of n 64] by linarith
qed

lemma digits4:
  "n div 262144 * 262144 + n div 4096 mod 64 * 4096 + n div 64 mod 64 * 64 + n mod 64 = (n::nat)"
proof -
  have "n div 262144 = n div 4096 div 64" by (simp add: div_mult2_eq [symmetric])
  then show ?thesis
    using div_mult_mod_eq [of "n div 4096" 64] digits3 [of n] by linarith
qed

lemma digits3_unique:
  assumes "b < 64" and "c < 64"
  shows "(a * 4096 + b * 64 + c) div 4096 = (a::nat)"
    and "(a * 4096 + b * 64 + c) div 64 mod 64 = b"
    and "(a * 4096 + b * 64 + c) mod 64 = c"
proof -
  have eq: "a * 4096 + b * 64 + c = (a * 64 + b) * 64 + c" by simp
  have q: "(a * 4096 + b * 64 + c) div 64 = a * 64 + b"
    unfolding eq using assms by simp
  have "(a * 4096 + b * 64 + c) div 4096 = (a * 4096 + b * 64 + c) div 64 div 64"
    by (simp add: div_mult2_eq [symmetric])
  then show "(a * 4096 + b * 64 + c) div 4096 = a" using assms by (simp add: q)
  show "(a * 4096 + b * 64 + c) div 64 mod 64 = b" using assms by (simp add: q)
  show "(a * 4096 + b * 64 + c) mod 64 = c"
    unfolding eq using assms(2) by (simp only: mod_mult_self3 mod_less)
qed

lemma digits4_unique:
  assumes "b < 64" and "c < 64" and "d < 64"
  shows "(a * 262144 + b * 4096 + c * 64 + d) div 262144 = (a::nat)"
    and "(a * 262144 + b * 4096 + c * 64 + d) div 4096 mod 64 = b"
    and "(a * 262144 + b * 4096 + c * 64 + d) div 64 mod 64 = c"
    and "(a * 262144 + b * 4096 + c * 64 + d) mod 64 = d"
proof -
  have eq: "a * 262144 + b * 4096 + c * 64 + d = (a * 64 + b) * 4096 + c * 64 + d" by simp
  have q: "(a * 262144 + b * 4096 + c * 64 + d) div 4096 = a * 64 + b"
    unfolding eq using assms by (intro digits3_unique)
  have "(a * 262144 + b * 4096 + c * 64 + d) div 262144
        = (a * 262144 + b * 4096 + c * 64 + d) div 4096 div 64"
    by (simp add: div_mult2_eq [symmetric])
  then show "(a * 262144 + b * 4096 + c * 64 + d) div 262144 = a" using assms by (simp add: q)
  show "(a * 262144 + b * 4096 + c * 64 + d) div 4096 mod 64 = b" using assms by (simp add: q)
  show "(a * 262144 + b * 4096 + c * 64 + d) div 64 mod 64 = c"
    and "(a * 262144 + b * 4096 + c * 64 + d) mod 64 = d"
    unfolding eq using assms by (intro digits3_unique; simp)+
qed

lemma tail_byte [simp]:
  "continuation (byte_of (0x80 + n mod 64))"
  "tail_bits (byte_of (0x80 + n mod 64)) = n mod 64"
proof -
  have "0x80 + n mod 64 < 256" by linarith
  then have "unat (byte_of (0x80 + n mod 64)) = 0x80 + n mod 64" by (rule unat_byte_of)
  then show "continuation (byte_of (0x80 + n mod 64))"
    and "tail_bits (byte_of (0x80 + n mod 64)) = n mod 64"
    by (simp_all add: continuation_def tail_bits_def)
qed

lemma continuation_tail: "continuation b \<Longrightarrow> tail_bits b < 64 \<and> byte_of (0x80 + tail_bits b) = b"
  by (auto simp: continuation_def tail_bits_def)

lemma utf8_next_char: "utf8_next (utf8_char c @ d) = Some (code_point c, d)"
proof -
  let ?n = "code_point c"
  have s: "is_scalar ?n" by simp
  then have b: "?n < 0x110000" by (auto simp: is_scalar_def)
  consider "?n < 0x80" | "0x80 \<le> ?n" "?n < 0x800" | "0x800 \<le> ?n" "?n < 0x10000" | "0x10000 \<le> ?n"
    by linarith
  then show ?thesis
  proof cases
    case 1
    then show ?thesis by (simp add: utf8_next_def utf8_char_def)
  next
    case 2
    then have "?n div 64 < 32" by linarith
    then have h: "unat (byte_of (0xC0 + ?n div 64)) = 0xC0 + ?n div 64" by (intro unat_byte_of) simp
    then have "code2 (byte_of (0xC0 + ?n div 64)) (byte_of (0x80 + ?n mod 64)) = ?n"
      by (simp add: code2_def)
    then show ?thesis
      using 2 h \<open>?n div 64 < 32\<close> by (simp add: utf8_next_def utf8_char_def Let_def)
  next
    case 3
    then have "?n div 4096 < 16" by linarith
    then have h: "unat (byte_of (0xE0 + ?n div 4096)) = 0xE0 + ?n div 4096" by (intro unat_byte_of) simp
    then have "code3 (byte_of (0xE0 + ?n div 4096)) (byte_of (0x80 + ?n div 64 mod 64))
                     (byte_of (0x80 + ?n mod 64)) = ?n"
      by (simp add: code3_def digits3)
    then show ?thesis
      using 3 h s \<open>?n div 4096 < 16\<close> by (simp add: utf8_next_def utf8_char_def Let_def)
  next
    case 4
    then have "?n div 262144 < 5" using b by linarith
    then have h: "unat (byte_of (0xF0 + ?n div 262144)) = 0xF0 + ?n div 262144"
      by (intro unat_byte_of) simp
    then have "code4 (byte_of (0xF0 + ?n div 262144)) (byte_of (0x80 + ?n div 4096 mod 64))
                     (byte_of (0x80 + ?n div 64 mod 64)) (byte_of (0x80 + ?n mod 64)) = ?n"
      by (simp add: code4_def digits4)
    then show ?thesis
      using 4 h s \<open>?n div 262144 < 5\<close> by (simp add: utf8_next_def utf8_char_def Let_def)
  qed
qed

lemma utf8_char_ascii: "n < 0x80 \<Longrightarrow> utf8_char (chr n) = [byte_of n]"
  by (simp add: utf8_char_def)

lemma utf8_char_code2:
  assumes "0xC0 \<le> unat b0" "unat b0 < 0xE0" "continuation b1" "0x80 \<le> code2 b0 b1"
  shows "is_scalar (code2 b0 b1) \<and> utf8_char (chr (code2 b0 b1)) = [b0, b1]"
proof -
  have t: "tail_bits b1 < 64" "byte_of (0x80 + tail_bits b1) = b1"
    using continuation_tail [OF assms(3)] by auto
  have "unat b0 - 0xC0 < 32" using assms by simp
  then have l: "code2 b0 b1 < 0x800" using t(1) by (simp add: code2_def)
  then have s: "is_scalar (code2 b0 b1)" by (simp add: is_scalar_def)
  have "code2 b0 b1 div 64 = unat b0 - 0xC0" and "code2 b0 b1 mod 64 = tail_bits b1"
    using t(1) by (simp_all add: code2_def)
  then show ?thesis using l s assms t(2) by (simp add: utf8_char_def Let_def)
qed

lemma utf8_char_code3:
  assumes "0xE0 \<le> unat b0" "unat b0 < 0xF0" "continuation b1" "continuation b2"
    and "0x800 \<le> code3 b0 b1 b2" "is_scalar (code3 b0 b1 b2)"
  shows "utf8_char (chr (code3 b0 b1 b2)) = [b0, b1, b2]"
proof -
  have t: "tail_bits b1 < 64" "byte_of (0x80 + tail_bits b1) = b1"
      "tail_bits b2 < 64" "byte_of (0x80 + tail_bits b2) = b2"
    using continuation_tail [OF assms(3)] continuation_tail [OF assms(4)] by auto
  have "unat b0 - 0xE0 < 16" using assms by simp
  then have l: "code3 b0 b1 b2 < 0x10000" using t(1,3) by (simp add: code3_def)
  have "code3 b0 b1 b2 div 4096 = unat b0 - 0xE0" "code3 b0 b1 b2 div 64 mod 64 = tail_bits b1"
    "code3 b0 b1 b2 mod 64 = tail_bits b2"
    unfolding code3_def using t(1,3) by (rule digits3_unique)+
  then show ?thesis using l assms t(2,4) by (simp add: utf8_char_def Let_def)
qed

lemma utf8_char_code4:
  assumes "0xF0 \<le> unat b0" "continuation b1" "continuation b2" "continuation b3"
    and "0x10000 \<le> code4 b0 b1 b2 b3" "is_scalar (code4 b0 b1 b2 b3)"
  shows "utf8_char (chr (code4 b0 b1 b2 b3)) = [b0, b1, b2, b3]"
proof -
  have t: "tail_bits b1 < 64" "byte_of (0x80 + tail_bits b1) = b1"
      "tail_bits b2 < 64" "byte_of (0x80 + tail_bits b2) = b2"
      "tail_bits b3 < 64" "byte_of (0x80 + tail_bits b3) = b3"
    using continuation_tail [OF assms(2)] continuation_tail [OF assms(3)] continuation_tail [OF assms(4)]
    by auto
  have "code4 b0 b1 b2 b3 div 262144 = unat b0 - 0xF0"
    "code4 b0 b1 b2 b3 div 4096 mod 64 = tail_bits b1"
    "code4 b0 b1 b2 b3 div 64 mod 64 = tail_bits b2" "code4 b0 b1 b2 b3 mod 64 = tail_bits b3"
    unfolding code4_def using t(1,3,5) by (rule digits4_unique)+
  then show ?thesis using assms t(2,4,6) by (simp add: utf8_char_def Let_def)
qed

lemma utf8_char_next:
  assumes "utf8_next d = Some (n, d')"
  shows "is_scalar n \<and> utf8_char (chr n) @ d' = d"
  using assms
  by (auto simp: utf8_next_def utf8_char_code2 utf8_char_code3 utf8_char_code4
      utf8_char_ascii split: list.splits if_splits)

lemma from_utf8_char: "from_utf8 (utf8_char c @ d) = map_option (\<lambda>s. c # s) (from_utf8 d)"
  by (subst from_utf8.simps) (simp add: utf8_next_char)

lemma from_utf8_as_bytes [simp]: "from_utf8 (as_bytes s) = Some s"
  by (induction s) (simp_all add: as_bytes_def from_utf8_char)

lemma as_bytes_from_utf8: "from_utf8 d = Some s \<Longrightarrow> as_bytes s = d"
proof (induction d arbitrary: s rule: from_utf8.induct)
  case (1 d)
  show ?case
  proof (cases "d = []")
    case True
    then show ?thesis using "1.prems" by (simp add: as_bytes_def)
  next
    case False
    with "1.prems" obtain n d' where n: "utf8_next d = Some (n, d')"
      by (subst (asm) from_utf8.simps) (auto split: option.splits)
    with "1.prems" False obtain s' where s': "from_utf8 d' = Some s'" "s = chr n # s'"
      by (subst (asm) from_utf8.simps) auto
    have "as_bytes s' = d'" using "1.IH" [OF False n] s'(1) by simp
    then show ?thesis using s'(2) utf8_char_next [OF n] by (simp add: as_bytes_def)
  qed
qed

end
