(* ===== verification/Codec.thy ===== *)
theory Codec
  imports Rust_String
begin

text \<open>
  The binary codec of the private IPC connection (\<open>src/ipc/codec.rs\<close>): the bounded \<open>Encoder\<close>, the
  \<open>Decoder\<close>, the \<open>Wire\<close> implementations of the standard types and the two macros
  \<open>wire_struct!\<close> and \<open>wire_enum!\<close> as combinators. An implementation of the trait \<open>Wire\<close> is a record of
  its \<open>write\<close> and \<open>read\<close>. The contract every implementation meets is the locale \<open>wire_codec\<close>;
  its laws are established compositionally by the rules collected in \<open>wire_rules\<close>.
\<close>

named_theorems wire_defs \<open>definitions of codecs, to evaluate a codec on a concrete value\<close>

section \<open>Encoder and decoder\<close>

text \<open>The reasons the codec and the hand-written \<open>Wire\<close> implementations give for rejecting a value.\<close>

datatype codec_error =
    LimitExceeded
  | TruncatedValue
  | InvalidCollectionLength
  | TrailingBytes
  | InvalidBoolean
  | InvalidUtf8
  | InvalidArray
  | InvalidOption
  | InvalidResult
  | InvalidIpFamily
  | InvalidEnumTag
  | InvalidRegisterCount
  | FileReadExceedsLimit

record Encoder =
  enc_bytes :: "byte list"
  enc_limit :: nat

text \<open>A \<open>Decoder\<close> is the slice of bytes not yet consumed.\<close>

type_synonym Decoder = "byte list"

definition U32_MAX :: nat where
  "U32_MAX = 2 ^ 32 - 1"

text \<open>The trait \<open>Wire\<close>.\<close>

record 'a wire =
  "write" :: "'a \<Rightarrow> Encoder \<Rightarrow> codec_error + Encoder"
  read :: "Decoder \<Rightarrow> codec_error + 'a \<times> Decoder"

text \<open>\<open>Encoder::append\<close>; subtraction on \<open>nat\<close> is \<open>saturating_sub\<close>.\<close>

definition append_bytes :: "Encoder \<Rightarrow> byte list \<Rightarrow> codec_error + Encoder" where
  "append_bytes out bs =
     (if length bs > enc_limit out - length (enc_bytes out) then Inl LimitExceeded
      else Inr (out\<lparr>enc_bytes := enc_bytes out @ bs\<rparr>))"

text \<open>\<open>Decoder::take\<close>.\<close>

definition take_bytes :: "nat \<Rightarrow> Decoder \<Rightarrow> codec_error + byte list \<times> Decoder" where
  "take_bytes n d = (if n \<le> length d then Inr (take n d, drop n d) else Inl TruncatedValue)"

text \<open>The macro \<open>number!\<close>: one definition for every integer width.\<close>

definition number_wire :: "'a::len word wire" where
  "number_wire = \<lparr>
     write = (\<lambda>x out. append_bytes out (to_ne_bytes x)),
     read = (\<lambda>d. and_then (take_bytes (LENGTH('a) div 8) d)
                   (\<lambda>(bs, d). Inr (from_ne_bytes bs, d)))\<rparr>"

abbreviation u8_wire :: "u8 wire" where "u8_wire \<equiv> number_wire"
abbreviation u16_wire :: "u16 wire" where "u16_wire \<equiv> number_wire"
abbreviation u32_wire :: "u32 wire" where "u32_wire \<equiv> number_wire"
abbreviation u64_wire :: "u64 wire" where "u64_wire \<equiv> number_wire"
abbreviation i32_wire :: "i32 wire" where "i32_wire \<equiv> number_wire"
abbreviation i64_wire :: "i64 wire" where "i64_wire \<equiv> number_wire"
abbreviation f64_wire :: "f64 wire" where "f64_wire \<equiv> number_wire"
abbreviation usize_wire :: "usize wire" where "usize_wire \<equiv> number_wire"

text \<open>\<open>Encoder::length\<close>, \<open>Encoder::blob\<close>, \<open>Decoder::length\<close> and \<open>Decoder::blob\<close>.\<close>

definition write_length :: "nat \<Rightarrow> Encoder \<Rightarrow> codec_error + Encoder" where
  "write_length n out =
     (if n \<le> U32_MAX then write u32_wire (word_of_nat n) out else Inl LimitExceeded)"

definition write_blob :: "byte list \<Rightarrow> Encoder \<Rightarrow> codec_error + Encoder" where
  "write_blob bs out = and_then (write_length (length bs) out) (\<lambda>out. append_bytes out bs)"

definition read_length :: "Decoder \<Rightarrow> codec_error + nat \<times> Decoder" where
  "read_length d = and_then (read u32_wire d) (\<lambda>(n, d).
     if unat n \<le> length d then Inr (unat n, d) else Inl InvalidCollectionLength)"

definition read_blob :: "Decoder \<Rightarrow> codec_error + byte list \<times> Decoder" where
  "read_blob d = and_then (read_length d) (\<lambda>(n, d). take_bytes n d)"

text \<open>The entry points \<open>encode\<close> and \<open>decode\<close>.\<close>

definition encode :: "'a wire \<Rightarrow> 'a \<Rightarrow> nat \<Rightarrow> codec_error + byte list" where
  "encode w x limit =
     and_then (write w x \<lparr>enc_bytes = [], enc_limit = min limit U32_MAX\<rparr>)
       (\<lambda>out. Inr (enc_bytes out))"

definition decode :: "'a wire \<Rightarrow> byte list \<Rightarrow> codec_error + 'a" where
  "decode w bs = and_then (read w bs) (\<lambda>(x, d). if d = [] then Inr x else Inl TrailingBytes)"

section \<open>Standard types\<close>

definition bool_wire :: "bool wire" where
  "bool_wire = \<lparr>
     write = (\<lambda>b out. write u8_wire (if b then 1 else 0) out),
     read = (\<lambda>d. and_then (read u8_wire d) (\<lambda>(n, d).
       if n = 0 then Inr (False, d) else if n = 1 then Inr (True, d) else Inl InvalidBoolean))\<rparr>"

definition string_wire :: "rstring wire" where
  "string_wire = \<lparr>
     write = (\<lambda>s out. write_blob (as_bytes s) out),
     read = (\<lambda>d. and_then (read_blob d) (\<lambda>(bs, d).
       case from_utf8 bs of Some s \<Rightarrow> Inr (s, d) | None \<Rightarrow> Inl InvalidUtf8))\<rparr>"

text \<open>The loops of the collection implementations.\<close>

primrec write_all :: "'a wire \<Rightarrow> 'a list \<Rightarrow> Encoder \<Rightarrow> codec_error + Encoder" where
  "write_all w [] out = Inr out"
| "write_all w (x # xs) out = and_then (write w x out) (write_all w xs)"

primrec read_n :: "'a wire \<Rightarrow> nat \<Rightarrow> Decoder \<Rightarrow> codec_error + 'a list \<times> Decoder" where
  "read_n w 0 d = Inr ([], d)"
| "read_n w (Suc n) d = and_then (read w d) (\<lambda>(x, d).
     and_then (read_n w n d) (\<lambda>(xs, d). Inr (x # xs, d)))"

definition vec_wire :: "'a wire \<Rightarrow> 'a list wire" where
  "vec_wire w = \<lparr>
     write = (\<lambda>xs out. and_then (write_length (length xs) out) (write_all w xs)),
     read = (\<lambda>d. and_then (read_length d) (\<lambda>(n, d). read_n w n d))\<rparr>"

text \<open>A Rust array \<open>[T; N]\<close>: a list whose length is the type's.\<close>

typedef (overloaded) ('a, 'n::len) rarray = "{xs :: 'a list. length xs = LENGTH('n)}"
  morphisms elems Abs_rarray
  by (rule exI [of _ "replicate LENGTH('n) undefined"]) simp

setup_lifting type_definition_rarray

lift_definition array_of :: "'a list \<Rightarrow> ('a, 'n::len) rarray"
  is "\<lambda>xs. if length xs = LENGTH('n) then xs else replicate LENGTH('n) undefined"
  by simp

instantiation rarray :: (equal, len) equal
begin

lift_definition equal_rarray :: "('a, 'b) rarray \<Rightarrow> ('a, 'b) rarray \<Rightarrow> bool" is "HOL.equal" .

instance
  by (standard; transfer) (simp add: equal)

end

text \<open>\<open>Vec<T>::try_into::<[T; N]>()\<close>.\<close>

definition try_into :: "'a list \<Rightarrow> ('a, 'n::len) rarray option" where
  "try_into xs = (if length xs = LENGTH('n) then Some (array_of xs) else None)"

lemma length_elems [simp]: "length (elems (a :: ('a, 'n::len) rarray)) = LENGTH('n)"
  by transfer simp

lemma elems_array_of [simp]: "length xs = LENGTH('n) \<Longrightarrow> elems (array_of xs :: ('a, 'n::len) rarray) = xs"
  by transfer simp

lemma array_of_elems [simp]: "array_of (elems a) = a"
  by transfer simp

definition array_wire :: "'a wire \<Rightarrow> ('a, 'n::len) rarray wire" where
  "array_wire w = \<lparr>
     write = (\<lambda>a out. write_all w (elems a) out),
     read = (\<lambda>d. and_then (read_n w LENGTH('n) d) (\<lambda>(xs, d).
       case try_into xs of Some a \<Rightarrow> Inr (a, d) | None \<Rightarrow> Inl InvalidArray))\<rparr>"

definition option_wire :: "'a wire \<Rightarrow> 'a option wire" where
  "option_wire w = \<lparr>
     write = (\<lambda>v out. case v of
         None \<Rightarrow> write u8_wire 0 out
       | Some x \<Rightarrow> and_then (write u8_wire 1 out) (write w x)),
     read = (\<lambda>d. and_then (read u8_wire d) (\<lambda>(t, d).
       if t = 0 then Inr (None, d)
       else if t = 1 then and_then (read w d) (\<lambda>(x, d). Inr (Some x, d))
       else Inl InvalidOption))\<rparr>"

text \<open>\<open>Result<T, E>\<close>: tag 0 is \<open>Ok\<close>, tag 1 is \<open>Err\<close>; in the model \<open>Inr\<close> is \<open>Ok\<close>.\<close>

definition result_wire :: "'a wire \<Rightarrow> 'e wire \<Rightarrow> ('e + 'a) wire" where
  "result_wire w we = \<lparr>
     write = (\<lambda>v out. case v of
         Inr x \<Rightarrow> and_then (write u8_wire 0 out) (write w x)
       | Inl e \<Rightarrow> and_then (write u8_wire 1 out) (write we e)),
     read = (\<lambda>d. and_then (read u8_wire d) (\<lambda>(t, d).
       if t = 0 then and_then (read w d) (\<lambda>(x, d). Inr (Inr x, d))
       else if t = 1 then and_then (read we d) (\<lambda>(e, d). Inr (Inl e, d))
       else Inl InvalidResult))\<rparr>"

text \<open>\<open>Arc<T>\<close> writes and reads the shared value.\<close>

definition arc_wire :: "'a wire \<Rightarrow> 'a wire" where
  "arc_wire w = \<lparr>write = (\<lambda>x out. write w x out), read = (\<lambda>d. read w d)\<rparr>"

text \<open>The macro \<open>tuple!\<close>; longer tuples are nested pairs, written left to right.\<close>

definition pair_wire :: "'a wire \<Rightarrow> 'b wire \<Rightarrow> ('a \<times> 'b) wire" where
  "pair_wire wa wb = \<lparr>
     write = (\<lambda>(a, b) out. and_then (write wa a out) (write wb b)),
     read = (\<lambda>d. and_then (read wa d) (\<lambda>(a, d).
       and_then (read wb d) (\<lambda>(b, d). Inr ((a, b), d))))\<rparr>"

definition unit_wire :: "unit wire" where
  "unit_wire = \<lparr>write = (\<lambda>_ out. Inr out), read = (\<lambda>d. Inr ((), d))\<rparr>"

text \<open>
  The macro \<open>wire_struct!\<close>: the fields in wire order as nested pairs (\<open>proj\<close>), and the struct
  expression that puts them together (\<open>mk\<close>).
\<close>

definition wire_struct :: "('s \<Rightarrow> 'p) \<Rightarrow> ('p \<Rightarrow> 's) \<Rightarrow> 'p wire \<Rightarrow> 's wire" where
  "wire_struct proj mk w = \<lparr>
     write = (\<lambda>x out. write w (proj x) out),
     read = (\<lambda>d. and_then (read w d) (\<lambda>(p, d). Inr (mk p, d)))\<rparr>"

text \<open>
  The macro \<open>wire_enum!\<close>: a list of arms, each a tag with the payload's pattern (\<open>sel\<close>), its
  constructor (\<open>mk\<close>) and its codec. \<open>write\<close> takes the first arm that matches and writes its tag
  and payload; the match is exhaustive (\<open>arms_cover\<close> below), so the last case is never reached.
\<close>

record 'e arm =
  arm_tag :: u8
  arm_write :: "'e \<Rightarrow> (Encoder \<Rightarrow> codec_error + Encoder) option"
  arm_read :: "Decoder \<Rightarrow> codec_error + 'e \<times> Decoder"

definition arm :: "u8 \<Rightarrow> ('p \<Rightarrow> 'e) \<Rightarrow> ('e \<Rightarrow> 'p option) \<Rightarrow> 'p wire \<Rightarrow> 'e arm" where
  "arm t mk sel w = \<lparr>
     arm_tag = t,
     arm_write = (\<lambda>e. map_option (write w) (sel e)),
     arm_read = (\<lambda>d. and_then (read w d) (\<lambda>(p, d). Inr (mk p, d)))\<rparr>"

definition unit_arm :: "u8 \<Rightarrow> 'e \<Rightarrow> 'e arm" where
  "unit_arm t c = arm t (\<lambda>_. c) (\<lambda>e. if e = c then Some () else None) unit_wire"

primrec enum_write :: "'e arm list \<Rightarrow> 'e \<Rightarrow> Encoder \<Rightarrow> codec_error + Encoder" where
  "enum_write [] e out = Inl InvalidEnumTag"
| "enum_write (a # as) e out = (case arm_write a e of
     Some wr \<Rightarrow> and_then (write u8_wire (arm_tag a) out) wr
   | None \<Rightarrow> enum_write as e out)"

primrec enum_read :: "'e arm list \<Rightarrow> u8 \<Rightarrow> Decoder \<Rightarrow> codec_error + 'e \<times> Decoder" where
  "enum_read [] t d = Inl InvalidEnumTag"
| "enum_read (a # as) t d = (if t = arm_tag a then arm_read a d else enum_read as t d)"

definition wire_enum :: "'e arm list \<Rightarrow> 'e wire" where
  "wire_enum as = \<lparr>
     write = enum_write as,
     read = (\<lambda>d. and_then (read u8_wire d) (\<lambda>(t, d). enum_read as t d))\<rparr>"

section \<open>The format a codec defines\<close>

text \<open>
  An encoder as \<open>encode\<close> creates it and every \<open>write\<close> leaves it: within its limit, and the limit
  within 32 bits.
\<close>

definition enc_wf :: "Encoder \<Rightarrow> bool" where
  "enc_wf out \<longleftrightarrow> length (enc_bytes out) \<le> enc_limit out \<and> enc_limit out \<le> U32_MAX"

text \<open>
  \<open>framed w ok ser\<close>: on the values that satisfy \<open>ok\<close>, the codec \<open>w\<close> is the format \<open>ser\<close>. Writing
  appends \<open>ser x\<close> or exceeds the limit, reading a formatted value gives it back with what follows
  untouched, and only formatted values are accepted.
\<close>

definition framed :: "'a wire \<Rightarrow> ('a \<Rightarrow> bool) \<Rightarrow> ('a \<Rightarrow> byte list) \<Rightarrow> bool" where
  "framed w ok ser \<longleftrightarrow>
     (\<forall>x out. ok x \<longrightarrow> enc_wf out \<longrightarrow> write w x out = append_bytes out (ser x)) \<and>
     (\<forall>x d. ok x \<longrightarrow> length (ser x) \<le> U32_MAX \<longrightarrow> read w (ser x @ d) = Inr (x, d)) \<and>
     (\<forall>d x d'. length d \<le> U32_MAX \<longrightarrow> read w d = Inr (x, d') \<longrightarrow> ok x \<and> d = ser x @ d')"

lemma framedI:
  assumes "\<And>x out. ok x \<Longrightarrow> enc_wf out \<Longrightarrow> write w x out = append_bytes out (ser x)"
    and "\<And>x d. ok x \<Longrightarrow> length (ser x) \<le> U32_MAX \<Longrightarrow> read w (ser x @ d) = Inr (x, d)"
    and "\<And>d x d'. length d \<le> U32_MAX \<Longrightarrow> read w d = Inr (x, d') \<Longrightarrow> ok x \<and> d = ser x @ d'"
  shows "framed w ok ser"
  using assms unfolding framed_def by blast

lemma framed_write: "framed w ok ser \<Longrightarrow> ok x \<Longrightarrow> enc_wf out \<Longrightarrow> write w x out = append_bytes out (ser x)"
  by (simp add: framed_def)

lemma framed_read:
  "framed w ok ser \<Longrightarrow> ok x \<Longrightarrow> length (ser x) \<le> U32_MAX \<Longrightarrow> read w (ser x @ d) = Inr (x, d)"
  by (simp add: framed_def)

lemma framed_only:
  "framed w ok ser \<Longrightarrow> length d \<le> U32_MAX \<Longrightarrow> read w d = Inr (x, d') \<Longrightarrow> ok x \<and> d = ser x @ d'"
  unfolding framed_def by blast

lemma append_bytes_wf:
  "enc_wf out \<Longrightarrow> append_bytes out bs =
     (if length (enc_bytes out) + length bs \<le> enc_limit out
      then Inr (out\<lparr>enc_bytes := enc_bytes out @ bs\<rparr>) else Inl LimitExceeded)"
  by (auto simp: append_bytes_def enc_wf_def)

lemma append_bytes_enc_wf: "enc_wf out \<Longrightarrow> append_bytes out bs = Inr out' \<Longrightarrow> enc_wf out'"
  by (auto simp: append_bytes_wf enc_wf_def split: if_splits)

lemma append_bytes_append:
  assumes "enc_wf out"
  shows "append_bytes out (bs @ cs) = and_then (append_bytes out bs) (\<lambda>out. append_bytes out cs)"
  using assms by (auto simp: append_bytes_def enc_wf_def)

lemma append_bytes_Nil [simp]: "append_bytes out [] = Inr out"
  by (simp add: append_bytes_def)

lemma append_bytes_too_long:
  "enc_wf out \<Longrightarrow> length bs > U32_MAX \<Longrightarrow> append_bytes out bs = Inl LimitExceeded"
  by (auto simp: append_bytes_wf enc_wf_def)

text \<open>Two values written in sequence.\<close>

lemma framed_write_seq:
  assumes w: "framed w ok ser" and x: "ok x" and out: "enc_wf out"
    and next': "\<And>out. enc_wf out \<Longrightarrow> f out = append_bytes out bs"
  shows "and_then (write w x out) f = append_bytes out (ser x @ bs)"
proof -
  have "and_then (write w x out) f = and_then (append_bytes out (ser x)) f"
    by (simp add: framed_write [OF w x out])
  also have "\<dots> = and_then (append_bytes out (ser x)) (\<lambda>out. append_bytes out bs)"
    using append_bytes_enc_wf [OF out] next' by (intro and_then_cong) simp_all
  finally show ?thesis by (simp add: append_bytes_append [OF out])
qed

subsection \<open>Numbers\<close>

lemma framed_number:
  assumes "8 dvd LENGTH('a)"
  shows "framed (number_wire :: 'a::len word wire) (\<lambda>_. True) to_ne_bytes"
proof (rule framedI)
  fix x :: "'a word" and out d
  show "write number_wire x out = append_bytes out (to_ne_bytes x)"
    by (simp add: number_wire_def)
  show "read number_wire (to_ne_bytes x @ d) = Inr (x, d)"
    using assms by (simp add: number_wire_def take_bytes_def from_to_ne_bytes)
next
  fix d d' and x :: "'a word"
  assume "read number_wire d = Inr (x, d')"
  then have len: "LENGTH('a) div 8 \<le> length d"
    and x: "x = from_ne_bytes (take (LENGTH('a) div 8) d)" and d': "d' = drop (LENGTH('a) div 8) d"
    by (auto simp: number_wire_def take_bytes_def split: if_splits)
  have "to_ne_bytes x = take (LENGTH('a) div 8) d"
    unfolding x using assms len by (intro to_from_ne_bytes) simp_all
  then show "True \<and> d = to_ne_bytes x @ d'"
    by (simp add: d')
qed

lemmas framed_u8 = framed_number [where 'a = 8, simplified]
lemmas framed_u32 = framed_number [where 'a = 32, simplified]

definition tag_bytes :: "u8 \<Rightarrow> byte list" where
  "tag_bytes t = to_ne_bytes t"

lemma length_tag_bytes [simp]: "length (tag_bytes t) = 1"
  by (simp add: tag_bytes_def)

lemma framed_tag: "framed u8_wire (\<lambda>_. True) tag_bytes"
  using framed_u8 by (simp add: tag_bytes_def [abs_def])

lemma read_tag [simp]: "read u8_wire (tag_bytes t @ d) = Inr (t, d)"
  by (rule framed_read [OF framed_tag]) (simp_all add: U32_MAX_def)

lemma read_tag_only:
  "length d \<le> U32_MAX \<Longrightarrow> read u8_wire d = Inr (t, d') \<Longrightarrow> d = tag_bytes t @ d'"
  using framed_only [OF framed_tag] by blast

subsection \<open>Lengths, blobs and loops\<close>

definition length_bytes :: "nat \<Rightarrow> byte list" where
  "length_bytes n = to_ne_bytes (word_of_nat n :: u32)"

lemma length_length_bytes [simp]: "length (length_bytes n) = 4"
  by (simp add: length_bytes_def)

lemma write_length_wf:
  assumes "n \<le> U32_MAX" and "enc_wf out"
  shows "write_length n out = append_bytes out (length_bytes n)"
  using framed_write [OF framed_u32 _ assms(2)] assms(1)
  by (simp add: write_length_def length_bytes_def)

lemma read_length_bytes:
  assumes "n \<le> length d" and "n \<le> U32_MAX"
  shows "read_length (length_bytes n @ d) = Inr (n, d)"
proof -
  have "read u32_wire (length_bytes n @ d) = Inr (word_of_nat n, d)"
    unfolding length_bytes_def by (rule framed_read [OF framed_u32]) (simp_all add: U32_MAX_def)
  moreover have "unat (word_of_nat n :: u32) = n"
    using assms(2) by (simp add: unat_of_nat U32_MAX_def)
  ultimately show ?thesis using assms(1) by (simp add: read_length_def)
qed

lemma read_length_only:
  assumes "length d \<le> U32_MAX" and "read_length d = Inr (n, d')"
  shows "d = length_bytes n @ d' \<and> n \<le> length d' \<and> n \<le> U32_MAX"
proof -
  from assms(2) obtain k :: u32 where k: "read u32_wire d = Inr (k, d')" and n: "n = unat k" "n \<le> length d'"
    by (auto simp: read_length_def and_then_eq_Inr split: if_splits)
  have "d = to_ne_bytes k @ d'" using framed_only [OF framed_u32 assms(1) k] by simp
  moreover have "unat k \<le> U32_MAX" using unat_less_pow [of k] by (simp add: U32_MAX_def)
  ultimately show ?thesis using n by (simp add: length_bytes_def)
qed

lemma framed_blob:
  shows write_blob_wf: "enc_wf out \<Longrightarrow> write_blob bs out = append_bytes out (length_bytes (length bs) @ bs)"
    and read_blob_bytes: "length bs \<le> U32_MAX \<Longrightarrow> read_blob (length_bytes (length bs) @ bs @ d) = Inr (bs, d)"
    and read_blob_only:
      "length d \<le> U32_MAX \<Longrightarrow> read_blob d = Inr (bs, d')
       \<Longrightarrow> d = length_bytes (length bs) @ bs @ d' \<and> length bs \<le> U32_MAX"
proof -
  assume out: "enc_wf out"
  show "write_blob bs out = append_bytes out (length_bytes (length bs) @ bs)"
  proof (cases "length bs \<le> U32_MAX")
    case True
    then show ?thesis by (simp add: write_blob_def write_length_wf out append_bytes_append [OF out])
  next
    case False
    then have "append_bytes out (length_bytes (length bs) @ bs) = Inl LimitExceeded"
      by (intro append_bytes_too_long [OF out]) simp
    then show ?thesis using False by (simp add: write_blob_def write_length_def)
  qed
next
  assume "length bs \<le> U32_MAX"
  then show "read_blob (length_bytes (length bs) @ bs @ d) = Inr (bs, d)"
    by (simp add: read_blob_def read_length_bytes take_bytes_def)
next
  assume d: "length d \<le> U32_MAX" and r: "read_blob d = Inr (bs, d')"
  then obtain n d0 where n: "read_length d = Inr (n, d0)" and t: "take_bytes n d0 = Inr (bs, d')"
    by (auto simp: read_blob_def and_then_eq_Inr)
  from t have "n \<le> length d0" "bs = take n d0" "d' = drop n d0"
    by (auto simp: take_bytes_def split: if_splits)
  then have "d0 = bs @ d'" and "length bs = n" by simp_all
  then show "d = length_bytes (length bs) @ bs @ d' \<and> length bs \<le> U32_MAX"
    using read_length_only [OF d n] by simp
qed

lemma write_all_framed:
  assumes w: "framed w ok ser" and "list_all ok xs" and "enc_wf out"
  shows "write_all w xs out = append_bytes out (concat (map ser xs))"
  using assms(2,3)
proof (induction xs arbitrary: out)
  case Nil
  then show ?case by simp
next
  case (Cons x xs)
  have "and_then (write w x out) (write_all w xs) = append_bytes out (ser x @ concat (map ser xs))"
    using Cons by (intro framed_write_seq [OF w]) simp_all
  then show ?case by simp
qed

lemma read_n_framed:
  assumes w: "framed w ok ser" and "list_all ok xs" and "length (concat (map ser xs)) \<le> U32_MAX"
  shows "read_n w (length xs) (concat (map ser xs) @ d) = Inr (xs, d)"
  using assms(2,3)
proof (induction xs)
  case Nil
  then show ?case by simp
next
  case (Cons x xs)
  then have "read_n w (length xs) (concat (map ser xs) @ d) = Inr (xs, d)"
    and "read w (ser x @ concat (map ser xs) @ d) = Inr (x, concat (map ser xs) @ d)"
    by (auto intro: framed_read [OF w])
  then show ?case by simp
qed

lemma read_n_only:
  assumes w: "framed w ok ser" and "length d \<le> U32_MAX" and "read_n w n d = Inr (xs, d')"
  shows "list_all ok xs \<and> length xs = n \<and> d = concat (map ser xs) @ d'"
  using assms(2,3)
proof (induction n arbitrary: d xs)
  case 0
  then show ?case by simp
next
  case (Suc n)
  from Suc.prems(2) obtain x d0 ys where x: "read w d = Inr (x, d0)"
      and ys: "read_n w n d0 = Inr (ys, d')" and xs: "xs = x # ys"
    by (auto simp: and_then_eq_Inr)
  from framed_only [OF w Suc.prems(1) x] have d: "ok x" "d = ser x @ d0" by auto
  then have "length d0 \<le> U32_MAX" using Suc.prems(1) by simp
  from Suc.IH [OF this ys] show ?case using d xs by simp
qed

subsection \<open>Standard types\<close>

lemma framed_bool: "framed bool_wire (\<lambda>_. True) (\<lambda>b. tag_bytes (if b then 1 else 0))"
proof (rule framedI)
  fix b :: bool and out d assume "enc_wf out"
  then show "write bool_wire b out = append_bytes out (tag_bytes (if b then 1 else 0))"
    by (simp add: bool_wire_def framed_write [OF framed_tag])
next
  fix b :: bool and d
  show "read bool_wire (tag_bytes (if b then 1 else 0) @ d) = Inr (b, d)"
    by (simp add: bool_wire_def)
next
  fix d d' and b :: bool
  assume "length d \<le> U32_MAX" "read bool_wire d = Inr (b, d')"
  then show "True \<and> d = tag_bytes (if b then 1 else 0) @ d'"
    by (auto simp: bool_wire_def and_then_eq_Inr dest!: read_tag_only split: if_splits)
qed

lemma framed_string:
  "framed string_wire (\<lambda>_. True) (\<lambda>s. length_bytes (length (as_bytes s)) @ as_bytes s)"
proof (rule framedI)
  fix s :: rstring and out d
  show "enc_wf out \<Longrightarrow> write string_wire s out =
      append_bytes out (length_bytes (length (as_bytes s)) @ as_bytes s)"
    by (simp add: string_wire_def write_blob_wf)
  assume "length (length_bytes (length (as_bytes s)) @ as_bytes s) \<le> U32_MAX"
  then show "read string_wire ((length_bytes (length (as_bytes s)) @ as_bytes s) @ d) = Inr (s, d)"
    by (simp add: string_wire_def read_blob_bytes)
next
  fix d d' and s :: rstring
  assume d: "length d \<le> U32_MAX" and "read string_wire d = Inr (s, d')"
  then obtain bs where bs: "read_blob d = Inr (bs, d')" "from_utf8 bs = Some s"
    by (auto simp: string_wire_def and_then_eq_Inr split: option.splits)
  then show "True \<and> d = (length_bytes (length (as_bytes s)) @ as_bytes s) @ d'"
    using read_blob_only [OF d bs(1)] as_bytes_from_utf8 [OF bs(2)] by simp
qed

lemma length_concat_ge:
  assumes "list_all (\<lambda>x. ser x \<noteq> []) xs"
  shows "length xs \<le> length (concat (map ser xs))"
  using assms
proof (induction xs)
  case (Cons x xs)
  then have "1 \<le> length (ser x)" by (cases "ser x") simp_all
  with Cons show ?case by simp
qed simp

lemma framed_vec:
  assumes w: "framed w ok ser" and ne: "\<And>x. ok x \<Longrightarrow> ser x \<noteq> []"
  shows "framed (vec_wire w) (list_all ok) (\<lambda>xs. length_bytes (length xs) @ concat (map ser xs))"
proof (rule framedI)
  fix xs out assume xs: "list_all ok xs" and out: "enc_wf out"
  have len: "length xs \<le> length (concat (map ser xs))"
    using xs ne by (intro length_concat_ge) (auto simp: list_all_iff)
  show "write (vec_wire w) xs out = append_bytes out (length_bytes (length xs) @ concat (map ser xs))"
  proof (cases "length xs \<le> U32_MAX")
    case True
    have "and_then (append_bytes out (length_bytes (length xs))) (write_all w xs)
          = and_then (append_bytes out (length_bytes (length xs)))
              (\<lambda>out. append_bytes out (concat (map ser xs)))"
      using append_bytes_enc_wf [OF out] write_all_framed [OF w xs] by (intro and_then_cong) simp_all
    then show ?thesis
      using True by (simp add: vec_wire_def write_length_wf out append_bytes_append [OF out])
  next
    case False
    then have "append_bytes out (length_bytes (length xs) @ concat (map ser xs)) = Inl LimitExceeded"
      using len by (intro append_bytes_too_long [OF out]) simp
    then show ?thesis using False by (simp add: vec_wire_def write_length_def)
  qed
next
  fix xs d
  assume xs: "list_all ok xs" and l: "length (length_bytes (length xs) @ concat (map ser xs)) \<le> U32_MAX"
  have "length xs \<le> length (concat (map ser xs))"
    using xs ne by (intro length_concat_ge) (auto simp: list_all_iff)
  then have "read_length (length_bytes (length xs) @ concat (map ser xs) @ d)
      = Inr (length xs, concat (map ser xs) @ d)"
    using l by (intro read_length_bytes) simp_all
  then show "read (vec_wire w) ((length_bytes (length xs) @ concat (map ser xs)) @ d) = Inr (xs, d)"
    using l by (simp add: vec_wire_def read_n_framed [OF w xs])
next
  fix d d' xs
  assume d: "length d \<le> U32_MAX" and "read (vec_wire w) d = Inr (xs, d')"
  then obtain n d0 where n: "read_length d = Inr (n, d0)" and r: "read_n w n d0 = Inr (xs, d')"
    by (auto simp: vec_wire_def and_then_eq_Inr)
  from read_length_only [OF d n] have d0: "d = length_bytes n @ d0" by simp
  then have "length d0 \<le> U32_MAX" using d by simp
  from read_n_only [OF w this r]
  show "list_all ok xs \<and> d = (length_bytes (length xs) @ concat (map ser xs)) @ d'"
    using d0 by simp
qed

lemma framed_array:
  assumes w: "framed w ok ser"
  shows "framed (array_wire w :: ('a, 'n::len) rarray wire) (\<lambda>a. list_all ok (elems a))
           (\<lambda>a. concat (map ser (elems a)))"
proof (rule framedI)
  fix a :: "('a, 'n) rarray" and out d
  assume a: "list_all ok (elems a)"
  show "enc_wf out \<Longrightarrow> write (array_wire w) a out = append_bytes out (concat (map ser (elems a)))"
    by (simp add: array_wire_def write_all_framed [OF w a])
  assume "length (concat (map ser (elems a))) \<le> U32_MAX"
  then show "read (array_wire w) (concat (map ser (elems a)) @ d) = Inr (a, d)"
    using read_n_framed [OF w a] by (simp add: array_wire_def try_into_def)
next
  fix d d' and a :: "('a, 'n) rarray"
  assume d: "length d \<le> U32_MAX" and "read (array_wire w) d = Inr (a, d')"
  then obtain xs where xs: "read_n w LENGTH('n) d = Inr (xs, d')" and a: "a = array_of xs"
    by (auto simp: array_wire_def try_into_def and_then_eq_Inr split: if_splits)
  from read_n_only [OF w d xs] show "list_all ok (elems a) \<and> d = concat (map ser (elems a)) @ d'"
    by (simp add: a)
qed

text \<open>A tag followed by a payload.\<close>

lemma write_tagged:
  assumes "framed w ok ser" and "ok x" and "enc_wf out"
  shows "and_then (write u8_wire t out) (write w x) = append_bytes out (tag_bytes t @ ser x)"
  using assms by (intro framed_write_seq [OF framed_tag]) (simp_all add: framed_write)

lemma framed_option:
  assumes w: "framed w ok ser"
  shows "framed (option_wire w) (pred_option ok)
           (\<lambda>v. case v of None \<Rightarrow> tag_bytes 0 | Some x \<Rightarrow> tag_bytes 1 @ ser x)"
proof (rule framedI)
  fix v out
  assume "pred_option ok v" "enc_wf out"
  then show "write (option_wire w) v out =
      append_bytes out (case v of None \<Rightarrow> tag_bytes 0 | Some x \<Rightarrow> tag_bytes 1 @ ser x)"
    by (cases v) (simp add: option_wire_def framed_write [OF framed_tag],
                  simp add: option_wire_def write_tagged [OF w])
next
  fix v d
  assume "pred_option ok v" "length (case v of None \<Rightarrow> tag_bytes 0 | Some x \<Rightarrow> tag_bytes 1 @ ser x) \<le> U32_MAX"
  then show "read (option_wire w) ((case v of None \<Rightarrow> tag_bytes 0 | Some x \<Rightarrow> tag_bytes 1 @ ser x) @ d) = Inr (v, d)"
    by (cases v) (simp_all add: option_wire_def framed_read [OF w])
next
  fix d d' v
  assume d: "length d \<le> U32_MAX" and "read (option_wire w) d = Inr (v, d')"
  then obtain t d0 where "read u8_wire d = Inr (t, d0)"
    and v: "t = 0 \<and> v = None \<and> d' = d0 \<or> t = 1 \<and> (\<exists>x. read w d0 = Inr (x, d') \<and> v = Some x)"
    by (auto simp: option_wire_def and_then_eq_Inr split: if_splits)
  then have d0: "d = tag_bytes t @ d0" and "length d0 \<le> U32_MAX"
    using read_tag_only [OF d] d by auto
  with v show "pred_option ok v \<and> d = (case v of None \<Rightarrow> tag_bytes 0 | Some x \<Rightarrow> tag_bytes 1 @ ser x) @ d'"
    by (auto dest: framed_only [OF w])
qed

lemma framed_result:
  assumes w: "framed w ok ser" and we: "framed we oke sere"
  shows "framed (result_wire w we) (case_sum oke ok)
           (case_sum (\<lambda>e. tag_bytes 1 @ sere e) (\<lambda>x. tag_bytes 0 @ ser x))"
proof (rule framedI)
  fix v out
  assume "case_sum oke ok v" "enc_wf out"
  then show "write (result_wire w we) v out =
      append_bytes out (case_sum (\<lambda>e. tag_bytes 1 @ sere e) (\<lambda>x. tag_bytes 0 @ ser x) v)"
    by (cases v) (simp_all add: result_wire_def write_tagged [OF w] write_tagged [OF we])
next
  fix v d
  assume "case_sum oke ok v"
    "length (case_sum (\<lambda>e. tag_bytes 1 @ sere e) (\<lambda>x. tag_bytes 0 @ ser x) v) \<le> U32_MAX"
  then show "read (result_wire w we) (case_sum (\<lambda>e. tag_bytes 1 @ sere e) (\<lambda>x. tag_bytes 0 @ ser x) v @ d)
      = Inr (v, d)"
    by (cases v) (simp_all add: result_wire_def framed_read [OF w] framed_read [OF we])
next
  fix d d' v
  assume d: "length d \<le> U32_MAX" and "read (result_wire w we) d = Inr (v, d')"
  then obtain t d0 where "read u8_wire d = Inr (t, d0)"
    and v: "t = 0 \<and> (\<exists>x. read w d0 = Inr (x, d') \<and> v = Inr x)
          \<or> t = 1 \<and> (\<exists>e. read we d0 = Inr (e, d') \<and> v = Inl e)"
    by (auto simp: result_wire_def and_then_eq_Inr split: if_splits)
  then have d0: "d = tag_bytes t @ d0" and "length d0 \<le> U32_MAX"
    using read_tag_only [OF d] d by auto
  with v show "case_sum oke ok v \<and>
      d = case_sum (\<lambda>e. tag_bytes 1 @ sere e) (\<lambda>x. tag_bytes 0 @ ser x) v @ d'"
    by (auto dest: framed_only [OF w] framed_only [OF we])
qed

lemma framed_arc: "framed w ok ser \<Longrightarrow> framed (arc_wire w) ok ser"
  by (simp add: framed_def arc_wire_def)

lemma framed_pair:
  assumes a: "framed wa oka sera" and b: "framed wb okb serb"
  shows "framed (pair_wire wa wb) (\<lambda>(x, y). oka x \<and> okb y) (\<lambda>(x, y). sera x @ serb y)"
proof (rule framedI)
  fix p out
  assume "case p of (x, y) \<Rightarrow> oka x \<and> okb y" "enc_wf out"
  then show "write (pair_wire wa wb) p out = append_bytes out (case p of (x, y) \<Rightarrow> sera x @ serb y)"
    by (cases p) (simp add: pair_wire_def framed_write_seq [OF a] framed_write [OF b])
next
  fix p d
  assume "case p of (x, y) \<Rightarrow> oka x \<and> okb y" "length (case p of (x, y) \<Rightarrow> sera x @ serb y) \<le> U32_MAX"
  then show "read (pair_wire wa wb) ((case p of (x, y) \<Rightarrow> sera x @ serb y) @ d) = Inr (p, d)"
    by (cases p) (simp add: pair_wire_def framed_read [OF a] framed_read [OF b])
next
  fix d d' p
  assume d: "length d \<le> U32_MAX" and "read (pair_wire wa wb) d = Inr (p, d')"
  then obtain x d0 y where x: "read wa d = Inr (x, d0)" and y: "read wb d0 = Inr (y, d')" and p: "p = (x, y)"
    by (auto simp: pair_wire_def and_then_eq_Inr)
  from framed_only [OF a d x] have "oka x" and d0: "d = sera x @ d0" by auto
  then show "(case p of (x, y) \<Rightarrow> oka x \<and> okb y) \<and> d = (case p of (x, y) \<Rightarrow> sera x @ serb y) @ d'"
    using framed_only [OF b _ y] d p by simp
qed

lemma framed_unit: "framed unit_wire (\<lambda>_. True) (\<lambda>_. [])"
  by (simp add: framed_def unit_wire_def)

text \<open>
  A struct: \<open>mk\<close> rebuilds every struct in \<open>keep\<close> from its fields, and what it builds is in \<open>keep\<close>.
  For a struct all of whose fields travel, \<open>keep\<close> is everything.
\<close>

lemma framed_struct:
  assumes w: "framed w ok ser"
    and mk: "\<And>s. keep s \<Longrightarrow> mk (proj s) = s" and proj: "\<And>p. keep (mk p) \<and> proj (mk p) = p"
  shows "framed (wire_struct proj mk w) (\<lambda>s. keep s \<and> ok (proj s)) (\<lambda>s. ser (proj s))"
proof (rule framedI)
  fix s out d
  assume s: "keep s \<and> ok (proj s)"
  show "enc_wf out \<Longrightarrow> write (wire_struct proj mk w) s out = append_bytes out (ser (proj s))"
    using s by (simp add: wire_struct_def framed_write [OF w])
  show "length (ser (proj s)) \<le> U32_MAX \<Longrightarrow> read (wire_struct proj mk w) (ser (proj s) @ d) = Inr (s, d)"
    using s by (simp add: wire_struct_def framed_read [OF w] mk)
next
  fix d d' s
  assume d: "length d \<le> U32_MAX" and "read (wire_struct proj mk w) d = Inr (s, d')"
  then obtain p where "read w d = Inr (p, d')" and s: "s = mk p"
    by (auto simp: wire_struct_def and_then_eq_Inr)
  then have "ok p \<and> d = ser p @ d'" by (intro framed_only [OF w d])
  then show "(keep s \<and> ok (proj s)) \<and> d = ser (proj s) @ d'"
    using proj [of p] s by simp
qed

subsection \<open>Enums\<close>

definition arm_covers :: "'e arm \<Rightarrow> 'e \<Rightarrow> bool" where
  "arm_covers a e \<longleftrightarrow> arm_write a e \<noteq> None"

definition arm_framed :: "'e arm \<Rightarrow> ('e \<Rightarrow> bool) \<Rightarrow> ('e \<Rightarrow> byte list) \<Rightarrow> bool" where
  "arm_framed a ok ser \<longleftrightarrow>
     (\<forall>e wr out. ok e \<longrightarrow> arm_write a e = Some wr \<longrightarrow> enc_wf out \<longrightarrow> wr out = append_bytes out (ser e)) \<and>
     (\<forall>e d. ok e \<longrightarrow> arm_covers a e \<longrightarrow> length (ser e) \<le> U32_MAX \<longrightarrow> arm_read a (ser e @ d) = Inr (e, d)) \<and>
     (\<forall>d e d'. length d \<le> U32_MAX \<longrightarrow> arm_read a d = Inr (e, d') \<longrightarrow>
        arm_covers a e \<and> ok e \<and> d = ser e @ d')"

text \<open>Exactly one arm matches every value, as Rust's exhaustive match on distinct variants.\<close>

definition arms_cover :: "'e arm list \<Rightarrow> bool" where
  "arms_cover as \<longleftrightarrow> (\<forall>e. length (filter (\<lambda>a. arm_covers a e) as) = 1)"

lemma arm_simps [simp]:
  "arm_tag (arm t mk sel w) = t"
  "arm_tag (unit_arm t c) = t"
  "arm_covers (arm t mk sel w) e \<longleftrightarrow> sel e \<noteq> None"
  "arm_covers (unit_arm t c) e \<longleftrightarrow> e = c"
  by (simp_all add: arm_def unit_arm_def arm_covers_def)

lemma arm_framed_arm:
  assumes w: "framed w okp ser" and sel: "\<And>e p. sel e = Some p \<longleftrightarrow> e = mk p"
    and ok: "\<And>p. ok (mk p) \<longleftrightarrow> okp p"
  shows "arm_framed (arm t mk sel w) ok (\<lambda>e. ser (the (sel e)))"
proof -
  have mk: "sel (mk p) = Some p" for p using sel by simp
  show ?thesis
    unfolding arm_framed_def
  proof (intro conjI allI impI)
    fix e wr out
    assume "ok e" "arm_write (arm t mk sel w) e = Some wr" "enc_wf out"
    moreover then obtain p where "e = mk p" by (auto simp: arm_def sel)
    ultimately show "wr out = append_bytes out (ser (the (sel e)))"
      using ok by (auto simp: arm_def mk framed_write [OF w])
  next
    fix e d
    assume "ok e" "arm_covers (arm t mk sel w) e" "length (ser (the (sel e))) \<le> U32_MAX"
    moreover then obtain p where "e = mk p" by (auto simp: sel)
    ultimately show "arm_read (arm t mk sel w) (ser (the (sel e)) @ d) = Inr (e, d)"
      using ok by (simp add: arm_def mk framed_read [OF w])
  next
    fix d e d'
    assume d: "length d \<le> U32_MAX" and "arm_read (arm t mk sel w) d = Inr (e, d')"
    then obtain p where p: "read w d = Inr (p, d')" and e: "e = mk p"
      by (auto simp: arm_def and_then_eq_Inr)
    from framed_only [OF w d p] have "okp p" "d = ser p @ d'" by auto
    then show "arm_covers (arm t mk sel w) e" "ok e" "d = ser (the (sel e)) @ d'"
      using e ok mk by simp_all
  qed
qed

text \<open>The arm a value takes, and the arm a tag takes.\<close>

lemma filter_singleton_find:
  assumes "length (filter P as) = 1" and "a \<in> set as" and "P a"
  shows "filter P as = [a]"
proof -
  obtain b where "filter P as = [b]" using assms(1) by (auto simp: length_Suc_conv)
  moreover have "a \<in> set (filter P as)" using assms(2,3) by simp
  ultimately show ?thesis by simp
qed

lemma enum_write_filter:
  assumes "filter (\<lambda>a. arm_covers a e) as = [a]"
  shows "enum_write as e out = and_then (write u8_wire (arm_tag a) out) (the (arm_write a e))"
  using assms by (induction as) (auto simp: arm_covers_def split: if_splits option.splits)

lemma enum_read_arm:
  assumes "distinct (map arm_tag as)" and "a \<in> set as"
  shows "enum_read as (arm_tag a) d = arm_read a d"
  using assms by (induction as) (auto simp: image_iff)

lemma enum_read_Inr:
  "enum_read as t d = Inr r \<Longrightarrow> \<exists>a \<in> set as. t = arm_tag a \<and> arm_read a d = Inr r"
  by (induction as) (auto split: if_splits)

definition enum_format :: "'e arm list \<Rightarrow> ('e arm \<Rightarrow> 'e \<Rightarrow> byte list) \<Rightarrow> 'e \<Rightarrow> byte list" where
  "enum_format as ser e =
     (let a = hd (filter (\<lambda>a. arm_covers a e) as) in tag_bytes (arm_tag a) @ ser a e)"

lemma framed_enum:
  assumes arms: "\<And>a. a \<in> set as \<Longrightarrow> arm_framed a ok (ser a)"
    and tags: "distinct (map arm_tag as)" and cover: "arms_cover as"
  shows "framed (wire_enum as) ok (enum_format as ser)"
proof -
  have one: "\<exists>a. filter (\<lambda>a. arm_covers a e) as = [a] \<and> a \<in> set as \<and> arm_covers a e" for e
  proof -
    obtain a where a: "filter (\<lambda>a. arm_covers a e) as = [a]"
      using cover by (auto simp: arms_cover_def length_Suc_conv)
    then have "set (filter (\<lambda>a. arm_covers a e) as) = {a}" by simp
    then have "a \<in> set as \<and> arm_covers a e" unfolding set_filter by blast
    with a show ?thesis by blast
  qed
  show ?thesis
  proof (rule framedI)
    fix e out
    assume e: "ok e" and out: "enc_wf out"
    obtain a where a: "filter (\<lambda>a. arm_covers a e) as = [a]" "a \<in> set as" "arm_covers a e"
      using one by blast
    from a(3) obtain wr where wr: "arm_write a e = Some wr" by (auto simp: arm_covers_def)
    have "and_then (write u8_wire (arm_tag a) out) wr = append_bytes out (tag_bytes (arm_tag a) @ ser a e)"
      using arms [OF a(2)] wr e
      by (intro framed_write_seq [OF framed_tag _ out]) (auto simp: arm_framed_def)
    then show "write (wire_enum as) e out = append_bytes out (enum_format as ser e)"
      using a(1) wr by (simp add: wire_enum_def enum_write_filter enum_format_def)
  next
    fix e d
    assume e: "ok e" and l: "length (enum_format as ser e) \<le> U32_MAX"
    obtain a where a: "filter (\<lambda>a. arm_covers a e) as = [a]" "a \<in> set as" "arm_covers a e"
      using one by blast
    have "arm_read a (ser a e @ d) = Inr (e, d)"
      using arms [OF a(2)] a e l by (simp add: arm_framed_def enum_format_def)
    then show "read (wire_enum as) (enum_format as ser e @ d) = Inr (e, d)"
      using a(1) by (simp add: wire_enum_def enum_format_def enum_read_arm [OF tags a(2)])
  next
    fix d e d'
    assume d: "length d \<le> U32_MAX" and "read (wire_enum as) d = Inr (e, d')"
    then obtain t d0 where t: "read u8_wire d = Inr (t, d0)" and "enum_read as t d0 = Inr (e, d')"
      by (auto simp: wire_enum_def and_then_eq_Inr)
    then obtain a where a: "a \<in> set as" "t = arm_tag a" "arm_read a d0 = Inr (e, d')"
      using enum_read_Inr by fast
    from read_tag_only [OF d t] have d0: "d = tag_bytes t @ d0" .
    then have "length d0 \<le> U32_MAX" using d by simp
    with arms [OF a(1)] a(3) have "arm_covers a e" "ok e" "d0 = ser a e @ d'"
      unfolding arm_framed_def by blast+
    moreover from this have "filter (\<lambda>a. arm_covers a e) as = [a]"
      using cover a(1) by (intro filter_singleton_find) (auto simp: arms_cover_def)
    ultimately show "ok e \<and> d = enum_format as ser e @ d'"
      using d0 a(2) by (simp add: enum_format_def)
  qed
qed

section \<open>The contract of the codec\<close>

text \<open>
  What a client of the codec relies on, in terms of \<open>encode\<close> and \<open>decode\<close> alone. \<open>ok\<close> marks the
  values that survive the trip; it is everything except where a hand-written implementation
  validates (\<open>RegisterSet\<close>, \<open>FileChunk\<close>) or drops a field (\<open>LiveSample\<close>). The
  unbounded encoding of a value is the one at the greatest limit.
\<close>

locale wire_codec =
  fixes w :: "'a wire" and ok :: "'a \<Rightarrow> bool"
  assumes encode_limit: "ok x \<Longrightarrow> encode w x limit =
      (case encode w x U32_MAX of
         Inl _ \<Rightarrow> Inl LimitExceeded
       | Inr bs \<Rightarrow> if length bs \<le> limit then Inr bs else Inl LimitExceeded)"
    and encode_nonempty: "ok x \<Longrightarrow> encode w x limit = Inr bs \<Longrightarrow> bs \<noteq> []"
    and encode_bounded: "ok x \<Longrightarrow> encode w x limit = Inr bs \<Longrightarrow> length bs \<le> min limit U32_MAX"
    and read_encoded: "ok x \<Longrightarrow> encode w x limit = Inr bs \<Longrightarrow> read w (bs @ d) = Inr (x, d)"
    and read_only_encoded: "length d \<le> U32_MAX \<Longrightarrow> read w d = Inr (x, d') \<Longrightarrow>
      ok x \<and> (\<exists>bs. encode w x U32_MAX = Inr bs \<and> d = bs @ d')"
begin

lemma roundtrip: "ok x \<Longrightarrow> encode w x limit = Inr bs \<Longrightarrow> decode w bs = Inr x"
  using read_encoded [of x limit bs "[]"] by (simp add: decode_def)

lemma encode_error: "ok x \<Longrightarrow> encode w x limit = Inl e \<Longrightarrow> e = LimitExceeded"
  using encode_limit [of x limit] by (auto split: sum.splits if_splits)

lemma trailing: "ok x \<Longrightarrow> encode w x limit = Inr bs \<Longrightarrow> d \<noteq> [] \<Longrightarrow> decode w (bs @ d) = Inl TrailingBytes"
  by (simp add: decode_def read_encoded)

lemma canonical:
  assumes "length bs \<le> limit" "length bs \<le> U32_MAX" "decode w bs = Inr x"
  shows "ok x \<and> encode w x limit = Inr bs"
proof -
  from assms(3) have "read w bs = Inr (x, [])"
    by (auto simp: decode_def and_then_eq_Inr split: if_splits)
  from read_only_encoded [OF assms(2) this] have "ok x" "encode w x U32_MAX = Inr bs" by auto
  then show ?thesis using assms(1) encode_limit [of x limit] by simp
qed

lemma truncated:
  assumes "ok x" "encode w x limit = Inr (p @ q)" "q \<noteq> []"
  shows "\<exists>e. decode w p = Inl e"
proof (rule ccontr)
  assume "\<not> ?thesis"
  then obtain y where y: "decode w p = Inr y" by (cases "decode w p") auto
  have "length p \<le> U32_MAX" using encode_bounded [OF assms(1,2)] by simp
  from canonical [OF le_refl this y] have "ok y" "encode w y (length p) = Inr p" by auto
  then have "read w (p @ q) = Inr (y, q)" by (rule read_encoded)
  moreover have "read w (p @ q) = Inr (x, [])"
    using read_encoded [OF assms(1,2), of "[]"] by simp
  ultimately show False using assms(3) by simp
qed

lemma injective:
  "ok x \<Longrightarrow> ok y \<Longrightarrow> encode w x limit = Inr bs \<Longrightarrow> encode w y limit' = Inr bs \<Longrightarrow> x = y"
  by (metis roundtrip sum.inject(2))

end

text \<open>
  Codecs are built from codecs. \<open>wire_ok\<close> is the compositional form of the contract: some format,
  never empty, is implemented. A payload (\<open>payload_ok\<close>) may be empty.
\<close>

definition payload_ok :: "'a wire \<Rightarrow> ('a \<Rightarrow> bool) \<Rightarrow> bool" where
  "payload_ok w ok \<longleftrightarrow> (\<exists>ser. framed w ok ser)"

definition wire_ok :: "'a wire \<Rightarrow> ('a \<Rightarrow> bool) \<Rightarrow> bool" where
  "wire_ok w ok \<longleftrightarrow> (\<exists>ser. framed w ok ser \<and> (\<forall>x. ok x \<longrightarrow> ser x \<noteq> []))"

definition arm_ok :: "'e arm \<Rightarrow> ('e \<Rightarrow> bool) \<Rightarrow> bool" where
  "arm_ok a ok \<longleftrightarrow> (\<exists>ser. arm_framed a ok ser)"

lemma wire_okI: "framed w ok ser \<Longrightarrow> (\<And>x. ok x \<Longrightarrow> ser x \<noteq> []) \<Longrightarrow> wire_ok w ok"
  by (auto simp: wire_ok_def)

lemma wire_ok_payload: "wire_ok w ok \<Longrightarrow> payload_ok w ok"
  by (auto simp: wire_ok_def payload_ok_def)

lemma enc_wf_start: "enc_wf \<lparr>enc_bytes = [], enc_limit = min limit U32_MAX\<rparr>"
  by (simp add: enc_wf_def)

lemma encode_framed:
  assumes "framed w ok ser" "ok x"
  shows "encode w x limit = (if length (ser x) \<le> min limit U32_MAX then Inr (ser x) else Inl LimitExceeded)"
  by (auto simp: encode_def framed_write [OF assms enc_wf_start] append_bytes_def)

theorem wire_ok_codec:
  assumes "wire_ok w ok"
  shows "wire_codec w ok"
proof -
  from assms obtain ser where w: "framed w ok ser" and ne: "\<And>x. ok x \<Longrightarrow> ser x \<noteq> []"
    by (auto simp: wire_ok_def)
  note enc = encode_framed [OF w]
  show ?thesis
  proof
    fix x limit bs d d'
    show "ok x \<Longrightarrow> encode w x limit = (case encode w x U32_MAX of Inl _ \<Rightarrow> Inl LimitExceeded
        | Inr bs \<Rightarrow> if length bs \<le> limit then Inr bs else Inl LimitExceeded)"
      by (simp add: enc)
    show "ok x \<Longrightarrow> encode w x limit = Inr bs \<Longrightarrow> bs \<noteq> []"
      using ne by (auto simp: enc split: if_splits)
    show "ok x \<Longrightarrow> encode w x limit = Inr bs \<Longrightarrow> length bs \<le> min limit U32_MAX"
      by (auto simp: enc split: if_splits)
    show "ok x \<Longrightarrow> encode w x limit = Inr bs \<Longrightarrow> read w (bs @ d) = Inr (x, d)"
      by (auto simp: enc framed_read [OF w] split: if_splits)
    assume d: "length d \<le> U32_MAX" and r: "read w d = Inr (x, d')"
    from framed_only [OF w d r] have "ok x" "d = ser x @ d'" by auto
    then show "ok x \<and> (\<exists>bs. encode w x U32_MAX = Inr bs \<and> d = bs @ d')"
      using d by (simp add: enc)
  qed
qed

subsection \<open>Rules\<close>

abbreviation wire_total :: "'a wire \<Rightarrow> bool" where
  "wire_total w \<equiv> wire_ok w (\<lambda>_. True)"

abbreviation payload_total :: "'a wire \<Rightarrow> bool" where
  "payload_total w \<equiv> payload_ok w (\<lambda>_. True)"

abbreviation arm_total :: "'e arm \<Rightarrow> bool" where
  "arm_total a \<equiv> arm_ok a (\<lambda>_. True)"

named_theorems wire_rules \<open>introduction rules for codecs of the whole type\<close>

lemma wire_ok_cong: "wire_ok w ok \<Longrightarrow> (\<And>x. ok x = ok' x) \<Longrightarrow> wire_ok w ok'"
  by (subgoal_tac "ok = ok'") (auto simp: fun_eq_iff)

lemma to_ne_bytes_nonempty: "8 dvd LENGTH('a) \<Longrightarrow> to_ne_bytes (x :: 'a::len word) \<noteq> []"
  using length_to_ne_bytes [of x] len_gt_0 [where 'a = 'a] by (metis dvd_div_eq_0_iff gr_implies_not0 list.size(3))

lemma wire_total_number: "8 dvd LENGTH('a) \<Longrightarrow> wire_total (number_wire :: 'a::len word wire)"
  by (rule wire_okI [OF framed_number]) (simp_all add: to_ne_bytes_nonempty)

lemma wire_total_numbers [wire_rules]:
  "wire_total u8_wire" "wire_total u16_wire" "wire_total u32_wire" "wire_total u64_wire"
  by (simp_all add: wire_total_number)

lemma tag_bytes_nonempty [simp]: "tag_bytes t \<noteq> []"
  using length_tag_bytes [of t] by (metis list.size(3) zero_neq_one)

lemma length_bytes_nonempty [simp]: "length_bytes n \<noteq> []"
  using length_length_bytes [of n] by (metis list.size(3) zero_neq_numeral)

lemma wire_total_bool [wire_rules]: "wire_total bool_wire"
  by (rule wire_okI [OF framed_bool]) simp

lemma wire_total_string [wire_rules]: "wire_total string_wire"
  by (rule wire_okI [OF framed_string]) simp

lemma wire_ok_vec: "wire_ok w ok \<Longrightarrow> wire_ok (vec_wire w) (list_all ok)"
  unfolding wire_ok_def by (fastforce intro: framed_vec)

lemma wire_ok_array:
  "wire_ok w ok \<Longrightarrow> wire_ok (array_wire w :: ('a, 'n::len) rarray wire) (\<lambda>a. list_all ok (elems a))"
  unfolding wire_ok_def
proof (elim exE conjE)
  fix ser assume w: "framed w ok ser" and ne: "\<forall>x. ok x \<longrightarrow> ser x \<noteq> []"
  have "concat (map ser (elems a)) \<noteq> []" if "list_all ok (elems a)" for a :: "('a, 'n) rarray"
    using length_elems [of a] ne that by (cases "elems a") auto
  then show "\<exists>ser. framed (array_wire w) (\<lambda>a. list_all ok (elems a)) ser
      \<and> (\<forall>a :: ('a, 'n) rarray. list_all ok (elems a) \<longrightarrow> ser a \<noteq> [])"
    using framed_array [OF w] by blast
qed

lemma wire_ok_option: "payload_ok w ok \<Longrightarrow> wire_ok (option_wire w) (pred_option ok)"
  unfolding payload_ok_def by (elim exE, rule wire_okI, erule framed_option) (auto split: option.splits)

lemma wire_ok_result: "payload_ok w ok \<Longrightarrow> payload_ok we oke \<Longrightarrow> wire_ok (result_wire w we) (case_sum oke ok)"
  unfolding payload_ok_def by (elim exE, rule wire_okI, erule (1) framed_result) (auto split: sum.splits)

lemma wire_ok_arc: "wire_ok w ok \<Longrightarrow> wire_ok (arc_wire w) ok"
  unfolding wire_ok_def by (blast intro: framed_arc)

lemma wire_ok_pair:
  assumes "wire_ok wa oka" "wire_ok wb okb"
  shows "wire_ok (pair_wire wa wb) (\<lambda>(x, y). oka x \<and> okb y)"
proof -
  from assms obtain sera serb where a: "framed wa oka sera" "\<And>x. oka x \<Longrightarrow> sera x \<noteq> []"
    and b: "framed wb okb serb" by (auto simp: wire_ok_def)
  show ?thesis by (rule wire_okI [OF framed_pair [OF a(1) b]]) (auto dest: a(2))
qed

lemma payload_total_unit [wire_rules]: "payload_total unit_wire"
  unfolding payload_ok_def using framed_unit by blast

lemma wire_ok_struct:
  assumes "wire_ok w ok" "\<And>s. keep s \<Longrightarrow> mk (proj s) = s" "\<And>p. keep (mk p) \<and> proj (mk p) = p"
  shows "wire_ok (wire_struct proj mk w) (\<lambda>s. keep s \<and> ok (proj s))"
proof -
  from assms(1) obtain ser where "framed w ok ser" "\<And>x. ok x \<Longrightarrow> ser x \<noteq> []"
    by (auto simp: wire_ok_def)
  then show ?thesis
    using framed_struct [of w ok ser keep mk proj] assms(2,3) by (intro wire_okI) auto
qed

text \<open>A codec that checks what it reads, and may check what it writes.\<close>

lemma wire_ok_validated:
  assumes "wire_ok w ok" and wr: "\<And>x out. check x \<Longrightarrow> write w' x out = write w x out"
    and rd: "\<And>d. read w' d = and_then (read w d) (\<lambda>(x, d). if check x then Inr (x, d) else Inl e)"
  shows "wire_ok w' (\<lambda>x. ok x \<and> check x)"
proof -
  from assms(1) obtain ser where w: "framed w ok ser" and ne: "\<And>x. ok x \<Longrightarrow> ser x \<noteq> []"
    by (auto simp: wire_ok_def)
  have "framed w' (\<lambda>x. ok x \<and> check x) ser"
    by (rule framedI)
       (auto simp: wr rd framed_write [OF w] framed_read [OF w] and_then_eq_Inr dest: framed_only [OF w]
         split: if_splits)
  then show ?thesis by (rule wire_okI) (simp add: ne)
qed

lemma wire_ok_pairL: "wire_total wa \<Longrightarrow> wire_ok wb okb \<Longrightarrow> wire_ok (pair_wire wa wb) (\<lambda>(x, y). okb y)"
  by (erule (1) wire_ok_cong [OF wire_ok_pair]) auto

lemma wire_ok_pairR: "wire_ok wa oka \<Longrightarrow> wire_total wb \<Longrightarrow> wire_ok (pair_wire wa wb) (\<lambda>(x, y). oka x)"
  by (erule (1) wire_ok_cong [OF wire_ok_pair]) auto

lemma arm_ok_arm:
  assumes "payload_ok w okp" "\<And>e p. sel e = Some p \<longleftrightarrow> e = mk p" "\<And>p. ok (mk p) \<longleftrightarrow> okp p"
  shows "arm_ok (arm t mk sel w) ok"
  using assms unfolding payload_ok_def arm_ok_def by (blast intro: arm_framed_arm)

lemma arm_ok_unit: "ok c \<Longrightarrow> arm_ok (unit_arm t c) ok"
  unfolding unit_arm_def by (rule arm_ok_arm [OF payload_total_unit]) auto

lemma wire_ok_enum:
  assumes "list_all (\<lambda>a. arm_ok a ok) as" "distinct (map arm_tag as)" "arms_cover as"
  shows "wire_ok (wire_enum as) ok"
proof -
  have "\<forall>a \<in> set as. \<exists>ser. arm_framed a ok ser"
    using assms(1) by (simp add: list_all_iff arm_ok_def)
  then obtain ser where "\<And>a. a \<in> set as \<Longrightarrow> arm_framed a ok (ser a)" by metis
  then show ?thesis
    by (intro wire_okI [OF framed_enum [OF _ assms(2,3)]]) (auto simp: enum_format_def Let_def)
qed

text \<open>The same rules for codecs of whole types, in the form the message definitions use.\<close>

lemma wire_total_vec [wire_rules]: "wire_total w \<Longrightarrow> wire_total (vec_wire w)"
  by (erule wire_ok_cong [OF wire_ok_vec]) (simp add: list_all_iff)

lemma wire_total_array [wire_rules]: "wire_total w \<Longrightarrow> wire_total (array_wire w :: ('a, 'n::len) rarray wire)"
  by (erule wire_ok_cong [OF wire_ok_array]) (simp add: list_all_iff)

lemma wire_total_option [wire_rules]: "wire_total w \<Longrightarrow> wire_total (option_wire w)"
  by (drule wire_ok_payload, erule wire_ok_cong [OF wire_ok_option]) (simp add: pred_option_def)

lemma wire_total_arc [wire_rules]: "wire_total w \<Longrightarrow> wire_total (arc_wire w)"
  by (rule wire_ok_arc)

lemma wire_total_pair [wire_rules]: "wire_total wa \<Longrightarrow> wire_total wb \<Longrightarrow> wire_total (pair_wire wa wb)"
  by (erule (1) wire_ok_cong [OF wire_ok_pair]) auto

lemma wire_total_struct:
  assumes "\<And>s. mk (proj s) = s" "\<And>p. proj (mk p) = p" "wire_total w"
  shows "wire_total (wire_struct proj mk w)"
  using wire_ok_struct [where keep = "\<lambda>_. True" and mk = mk and proj = proj, OF assms(3)] assms(1,2)
  by simp

lemma arm_total_arm:
  "(\<And>e p. sel e = Some p \<longleftrightarrow> e = mk p) \<Longrightarrow> wire_total w \<Longrightarrow> arm_total (arm t mk sel w)"
  by (rule arm_ok_arm [OF wire_ok_payload]) simp_all

lemma arm_total_unit: "arm_total (unit_arm t c)"
  by (simp add: arm_ok_unit)

lemmas wire_total_enum = wire_ok_enum [where ok = "\<lambda>_. True"]

section \<open>Evaluation\<close>

text \<open>The byte representation of numbers and the definitions of the combinators, as rewrite rules.\<close>

lemma to_ne_bytes_eval:
  "to_ne_bytes (w8 :: u8) = [w8]"
  "to_ne_bytes (w16 :: u16) = [byte_of (unat w16 mod 256), byte_of (unat w16 div 256 mod 256)]"
  "to_ne_bytes (w32 :: u32) =
     [byte_of (unat w32 mod 256), byte_of (unat w32 div 256 mod 256),
      byte_of (unat w32 div 256 div 256 mod 256), byte_of (unat w32 div 256 div 256 div 256 mod 256)]"
  "to_ne_bytes (w64 :: u64) = map byte_of
     [unat w64 mod 256, unat w64 div 256 mod 256, unat w64 div 256 div 256 mod 256,
      unat w64 div 256 div 256 div 256 mod 256, unat w64 div 256 div 256 div 256 div 256 mod 256,
      unat w64 div 256 div 256 div 256 div 256 div 256 mod 256,
      unat w64 div 256 div 256 div 256 div 256 div 256 div 256 mod 256,
      unat w64 div 256 div 256 div 256 div 256 div 256 div 256 div 256 mod 256]"
  using byte_less_256 [of w8] by (simp_all add: to_ne_bytes_def)

lemmas wire_eval = to_ne_bytes_eval encode_def decode_def U32_MAX_def append_bytes_def take_bytes_def
  number_wire_def write_length_def write_blob_def read_length_def read_blob_def bool_wire_def
  string_wire_def vec_wire_def array_wire_def option_wire_def result_wire_def arc_wire_def
  pair_wire_def unit_wire_def wire_struct_def wire_enum_def arm_def unit_arm_def byte_of_def
  from_ne_bytes_def as_bytes_def utf8_char_def

end
