(* ===== verification/Net_Addr.thy ===== *)
theory Net_Addr
  imports Codec
begin

text \<open>
  \<open>std::net\<close> addresses and their \<open>Wire\<close> implementations (end of \<open>src/ipc/codec.rs\<close>). An address is
  its octets; a \<open>SocketAddrV6\<close> also carries a flow label and a scope.
\<close>

type_synonym Ipv4Addr = "(u8, 4) rarray"
type_synonym Ipv6Addr = "(u8, 16) rarray"

datatype IpAddr = V4 Ipv4Addr | V6 Ipv6Addr

datatype SocketAddr =
    SocketV4 Ipv4Addr u16
  | SocketV6 Ipv6Addr u16 u32 u32

fun socket_ip :: "SocketAddr \<Rightarrow> IpAddr" where
  "socket_ip (SocketV4 ip port) = V4 ip"
| "socket_ip (SocketV6 ip port flow scope) = V6 ip"

fun socket_port :: "SocketAddr \<Rightarrow> u16" where
  "socket_port (SocketV4 ip port) = port"
| "socket_port (SocketV6 ip port flow scope) = port"

text \<open>\<open>IpAddr::is_unspecified\<close>: all octets zero.\<close>

fun is_unspecified :: "IpAddr \<Rightarrow> bool" where
  "is_unspecified (V4 ip) = list_all (\<lambda>b. b = 0) (elems ip)"
| "is_unspecified (V6 ip) = list_all (\<lambda>b. b = 0) (elems ip)"

text \<open>\<open>Ipv6Addr::to_ipv4_mapped\<close>: \<open>::ffff:a.b.c.d\<close>.\<close>

definition to_ipv4_mapped :: "Ipv6Addr \<Rightarrow> Ipv4Addr option" where
  "to_ipv4_mapped ip =
     (if take 12 (elems ip) = replicate 10 0 @ [0xff, 0xff] then try_into (drop 12 (elems ip)) else None)"

definition ip_wire :: "IpAddr wire" where
  [wire_defs]: "ip_wire = \<lparr>
     write = (\<lambda>ip out. case ip of
         V4 ip \<Rightarrow> and_then (write u8_wire 4 out) (write (array_wire u8_wire) ip)
       | V6 ip \<Rightarrow> and_then (write u8_wire 6 out) (write (array_wire u8_wire) ip)),
     read = (\<lambda>d. and_then (read u8_wire d) (\<lambda>(t, d).
       if t = 4 then and_then (read (array_wire u8_wire) d) (\<lambda>(ip, d). Inr (V4 ip, d))
       else if t = 6 then and_then (read (array_wire u8_wire) d) (\<lambda>(ip, d). Inr (V6 ip, d))
       else Inl InvalidIpFamily))\<rparr>"

definition socket_addr_wire :: "SocketAddr wire" where
  [wire_defs]: "socket_addr_wire = \<lparr>
     write = (\<lambda>a out.
       and_then (write ip_wire (socket_ip a) out) (\<lambda>out.
       and_then (write u16_wire (socket_port a) out) (\<lambda>out.
       case a of
         SocketV6 ip port flowinfo scope_id \<Rightarrow>
           and_then (write u32_wire flowinfo out) (write u32_wire scope_id)
       | SocketV4 ip port \<Rightarrow> Inr out))),
     read = (\<lambda>d.
       and_then (read ip_wire d) (\<lambda>(ip, d).
       and_then (read u16_wire d) (\<lambda>(port, d).
       case ip of
         V4 ip \<Rightarrow> Inr (SocketV4 ip port, d)
       | V6 ip \<Rightarrow> and_then (read u32_wire d) (\<lambda>(flowinfo, d).
           and_then (read u32_wire d) (\<lambda>(scope_id, d).
           Inr (SocketV6 ip port flowinfo scope_id, d))))))\<rparr>"

section \<open>The formats\<close>

lemma framed_total: "wire_total w \<Longrightarrow> \<exists>ser. framed w (\<lambda>_. True) ser \<and> (\<forall>x. ser x \<noteq> [])"
  by (simp add: wire_ok_def)

lemma wire_total_ip [wire_rules]: "wire_total ip_wire"
proof -
  obtain s4 :: "Ipv4Addr \<Rightarrow> byte list" where w4: "framed (array_wire u8_wire) (\<lambda>_. True) s4"
    using framed_total [OF wire_total_array [OF wire_total_numbers(1)]] by blast
  obtain s6 :: "Ipv6Addr \<Rightarrow> byte list" where w6: "framed (array_wire u8_wire) (\<lambda>_. True) s6"
    using framed_total [OF wire_total_array [OF wire_total_numbers(1)]] by blast
  define ser where "ser = (\<lambda>ip. case ip of V4 a \<Rightarrow> tag_bytes 4 @ s4 a | V6 a \<Rightarrow> tag_bytes 6 @ s6 a)"
  have "framed ip_wire (\<lambda>_. True) ser"
  proof (rule framedI)
    fix ip out assume "enc_wf out"
    then show "write ip_wire ip out = append_bytes out (ser ip)"
      by (cases ip) (simp_all add: ip_wire_def ser_def write_tagged [OF w4] write_tagged [OF w6])
  next
    fix ip d assume "length (ser ip) \<le> U32_MAX"
    then show "read ip_wire (ser ip @ d) = Inr (ip, d)"
      by (cases ip) (simp_all add: ip_wire_def ser_def framed_read [OF w4] framed_read [OF w6])
  next
    fix d ip d' assume d: "length d \<le> U32_MAX" and "read ip_wire d = Inr (ip, d')"
    then obtain t d0 where "read u8_wire d = Inr (t, d0)"
      and ip: "t = 4 \<and> (\<exists>a. read (array_wire u8_wire) d0 = Inr (a, d') \<and> ip = V4 a)
             \<or> t = 6 \<and> (\<exists>a. read (array_wire u8_wire) d0 = Inr (a, d') \<and> ip = V6 a)"
      by (auto simp: ip_wire_def and_then_eq_Inr split: if_splits)
    then have "d = tag_bytes t @ d0" "length d0 \<le> U32_MAX" using read_tag_only [OF d] d by auto
    with ip show "True \<and> d = ser ip @ d'"
      by (auto simp: ser_def dest: framed_only [OF w4] framed_only [OF w6])
  qed
  then show ?thesis by (rule wire_okI) (simp add: ser_def split: IpAddr.split)
qed

lemma wire_total_socket_addr [wire_rules]: "wire_total socket_addr_wire"
proof -
  obtain si where wi: "framed ip_wire (\<lambda>_. True) si" and ne: "\<And>x. si x \<noteq> []"
    using framed_total [OF wire_total_ip] by blast
  note w16 = framed_number [where 'a = 16, simplified] and w32 = framed_u32
  define tail where "tail = (\<lambda>a. case a of SocketV4 ip port \<Rightarrow> []
    | SocketV6 ip port flow scope \<Rightarrow> to_ne_bytes flow @ to_ne_bytes scope)"
  define ser where "ser = (\<lambda>a. si (socket_ip a) @ to_ne_bytes (socket_port a) @ tail a)"
  have "framed socket_addr_wire (\<lambda>_. True) ser"
  proof (rule framedI)
    fix a out assume out: "enc_wf out"
    have t: "(case a of SocketV6 ip port flow scope \<Rightarrow>
           and_then (write u32_wire flow out) (write u32_wire scope)
         | SocketV4 ip port \<Rightarrow> Inr out) = append_bytes out (tail a)" if "enc_wf out" for out
      using that framed_write_seq [OF w32 TrueI that framed_write [OF w32 TrueI]]
      by (cases a) (simp_all add: tail_def)
    show "write socket_addr_wire a out = append_bytes out (ser a)"
      unfolding socket_addr_wire_def ser_def wire.simps
      by (intro framed_write_seq [OF wi _ out] framed_write_seq [OF w16] t TrueI)
  next
    fix a d assume "length (ser a) \<le> U32_MAX"
    then show "read socket_addr_wire (ser a @ d) = Inr (a, d)"
      by (cases a) (simp_all add: socket_addr_wire_def ser_def tail_def framed_read [OF wi]
          framed_read [OF w16] framed_read [OF w32])
  next
    fix d a d' assume d: "length d \<le> U32_MAX" and r: "read socket_addr_wire d = Inr (a, d')"
    from r obtain ip d1 port d2 where ip: "read ip_wire d = Inr (ip, d1)"
      and port: "read u16_wire d1 = Inr (port, d2)"
      and rest: "(case ip of V4 ip \<Rightarrow> Inr (SocketV4 ip port, d2)
           | V6 ip \<Rightarrow> and_then (read u32_wire d2) (\<lambda>(flow, d). and_then (read u32_wire d)
               (\<lambda>(scope, d). Inr (SocketV6 ip port flow scope, d)))) = Inr (a, d')"
      by (auto simp: socket_addr_wire_def and_then_eq_Inr)
    from framed_only [OF wi d ip] have d1: "d = si ip @ d1" by simp
    then have l1: "length d1 \<le> U32_MAX" using d by simp
    from framed_only [OF w16 l1 port] have d2: "d1 = to_ne_bytes port @ d2" by simp
    then have l2: "length d2 \<le> U32_MAX" using l1 by simp
    show "True \<and> d = ser a @ d'"
    proof (cases ip)
      case (V4 x)
      with rest show ?thesis by (auto simp: d1 d2 ser_def tail_def)
    next
      case (V6 x)
      with rest obtain flow d3 scope where f: "read u32_wire d2 = Inr (flow, d3)"
          and s: "read u32_wire d3 = Inr (scope, d')" and a: "a = SocketV6 x port flow scope"
        by (auto simp: and_then_eq_Inr)
      from framed_only [OF w32 l2 f] have d3: "d2 = to_ne_bytes flow @ d3" by simp
      then have "d3 = to_ne_bytes scope @ d'" using framed_only [OF w32 _ s] l2 by simp
      then show ?thesis using V6 by (simp add: a d1 d2 d3 ser_def tail_def)
    qed
  qed
  then show ?thesis by (rule wire_okI) (simp add: ser_def ne)
qed

end
