(* ===== verification/Ipc_Identity.thy ===== *)
theory Ipc_Identity
  imports Net_Addr
begin

text \<open>
  Identities shared by every message: processes (\<open>src/ipc/schema.rs\<close>), devices, files and IPC
  resources (\<open>src/ipc/model/resource.rs\<close>), with their codecs. A field \<open>f\<close> of a struct is the
  record field \<open>tag_f\<close> with a short tag for the struct.
\<close>

section \<open>Processes\<close>

record ProcessId =
  pid_pid :: i32
  pid_start_time_ticks :: u64

definition ProcessId_wire :: "ProcessId wire" where
  [wire_defs]: "ProcessId_wire = wire_struct
     (\<lambda>x. (pid_pid x, pid_start_time_ticks x))
     (\<lambda>(pid, start_time_ticks).
       \<lparr>pid_pid = pid, pid_start_time_ticks = start_time_ticks\<rparr>)
     (pair_wire i32_wire u64_wire)"

lemma ProcessId_wire_total [wire_rules]: "wire_total ProcessId_wire"
  unfolding ProcessId_wire_def by (rule wire_total_struct) (auto intro!: wire_rules)

record HelperIdentity =
  helper_pid :: u32
  helper_capabilities :: u64

definition HelperIdentity_wire :: "HelperIdentity wire" where
  [wire_defs]: "HelperIdentity_wire = wire_struct
     (\<lambda>x. (helper_pid x, helper_capabilities x))
     (\<lambda>(pid, capabilities).
       \<lparr>helper_pid = pid, helper_capabilities = capabilities\<rparr>)
     (pair_wire u32_wire u64_wire)"

lemma HelperIdentity_wire_total [wire_rules]: "wire_total HelperIdentity_wire"
  unfolding HelperIdentity_wire_def by (rule wire_total_struct) (auto intro!: wire_rules)

section \<open>Devices, files and IPC resources\<close>

record DeviceId =
  dev_major :: u32
  dev_minor :: u32

definition DeviceId_wire :: "DeviceId wire" where
  [wire_defs]: "DeviceId_wire = wire_struct
     (\<lambda>x. (dev_major x, dev_minor x))
     (\<lambda>(major, minor).
       \<lparr>dev_major = major, dev_minor = minor\<rparr>)
     (pair_wire u32_wire u32_wire)"

lemma DeviceId_wire_total [wire_rules]: "wire_total DeviceId_wire"
  unfolding DeviceId_wire_def by (rule wire_total_struct) (auto intro!: wire_rules)

datatype IpcKind =
    Pipe | Socket

definition IpcKind_wire :: "IpcKind wire" where
  [wire_defs]: "IpcKind_wire = wire_enum
     [unit_arm 0 IpcKind.Pipe, unit_arm 1 IpcKind.Socket]"

lemma IpcKind_wire_total [wire_rules]: "wire_total IpcKind_wire"
  unfolding IpcKind_wire_def
  by (rule wire_total_enum)
     (auto simp: arms_cover_def arm_total_unit split: IpcKind.splits, metis IpcKind.exhaust)

record IpcIdentity =
  ipcid_kind :: IpcKind
  ipcid_device :: DeviceId
  ipcid_inode :: u64

definition IpcIdentity_wire :: "IpcIdentity wire" where
  [wire_defs]: "IpcIdentity_wire = wire_struct
     (\<lambda>x. (ipcid_kind x, ipcid_device x, ipcid_inode x))
     (\<lambda>(kind, device, inode).
       \<lparr>ipcid_kind = kind, ipcid_device = device, ipcid_inode = inode\<rparr>)
     (pair_wire IpcKind_wire (pair_wire DeviceId_wire u64_wire))"

lemma IpcIdentity_wire_total [wire_rules]: "wire_total IpcIdentity_wire"
  unfolding IpcIdentity_wire_def by (rule wire_total_struct) (auto intro!: wire_rules)

record FileIdentity =
  fileid_device :: DeviceId
  fileid_inode :: u64
  fileid_generation :: u32

definition FileIdentity_wire :: "FileIdentity wire" where
  [wire_defs]: "FileIdentity_wire = wire_struct
     (\<lambda>x. (fileid_device x, fileid_inode x, fileid_generation x))
     (\<lambda>(device, inode, generation).
       \<lparr>fileid_device = device, fileid_inode = inode, fileid_generation = generation\<rparr>)
     (pair_wire DeviceId_wire (pair_wire u64_wire u32_wire))"

lemma FileIdentity_wire_total [wire_rules]: "wire_total FileIdentity_wire"
  unfolding FileIdentity_wire_def by (rule wire_total_struct) (auto intro!: wire_rules)

end
