(* ===== verification/Ipc_Memory.thy ===== *)
theory Ipc_Memory
  imports Ipc_Identity
begin

text \<open>
  Memory mappings of the IPC model (\<open>src/ipc/model/memory.rs\<close>) and their codecs.
\<close>

datatype MemoryKind =
    Integer | Stack | Heap | SharedLibrary | Executable | File | Anonymous

definition MemoryKind_wire :: "MemoryKind wire" where
  [wire_defs]: "MemoryKind_wire = wire_enum
     [unit_arm 0 MemoryKind.Integer, unit_arm 1 MemoryKind.Stack, unit_arm 2 MemoryKind.Heap,
      unit_arm 3 MemoryKind.SharedLibrary, unit_arm 4 MemoryKind.Executable,
      unit_arm 5 MemoryKind.File, unit_arm 6 MemoryKind.Anonymous]"

lemma MemoryKind_wire_total [wire_rules]: "wire_total MemoryKind_wire"
  unfolding MemoryKind_wire_def
  by (rule wire_total_enum)
     (auto simp: arms_cover_def arm_total_unit split: MemoryKind.splits, metis MemoryKind.exhaust)

record MemoryMap =
  map_start :: u64
  map_end :: u64
  map_readable :: bool
  map_writable :: bool
  map_executable :: bool
  map_private :: bool
  map_file_offset :: u64
  map_device :: DeviceId
  map_inode :: u64
  map_pathname :: "rstring option"

definition MemoryMap_wire :: "MemoryMap wire" where
  [wire_defs]: "MemoryMap_wire = wire_struct
     (\<lambda>x. (map_start x, map_end x, map_readable x, map_writable x, map_executable x, map_private x,
        map_file_offset x, map_device x, map_inode x, map_pathname x))
     (\<lambda>(start, v_end, readable, writable, executable, private, file_offset, device, inode,
        pathname).
       \<lparr>map_start = start, map_end = v_end, map_readable = readable, map_writable = writable,
        map_executable = executable, map_private = private, map_file_offset = file_offset,
        map_device = device, map_inode = inode, map_pathname = pathname\<rparr>)
     (pair_wire u64_wire (pair_wire u64_wire (pair_wire bool_wire (pair_wire bool_wire (pair_wire
      bool_wire (pair_wire bool_wire (pair_wire u64_wire (pair_wire DeviceId_wire (pair_wire
      u64_wire (option_wire string_wire))))))))))"

lemma MemoryMap_wire_total [wire_rules]: "wire_total MemoryMap_wire"
  unfolding MemoryMap_wire_def by (rule wire_total_struct) (auto intro!: wire_rules)

record SmapsEntry =
  smaps_mapping :: MemoryMap
  smaps_rss_bytes :: "u64 option"
  smaps_pss_bytes :: "u64 option"

definition SmapsEntry_wire :: "SmapsEntry wire" where
  [wire_defs]: "SmapsEntry_wire = wire_struct
     (\<lambda>x. (smaps_mapping x, smaps_rss_bytes x, smaps_pss_bytes x))
     (\<lambda>(mapping, rss_bytes, pss_bytes).
       \<lparr>smaps_mapping = mapping, smaps_rss_bytes = rss_bytes, smaps_pss_bytes = pss_bytes\<rparr>)
     (pair_wire MemoryMap_wire (pair_wire (option_wire u64_wire) (option_wire u64_wire)))"

lemma SmapsEntry_wire_total [wire_rules]: "wire_total SmapsEntry_wire"
  unfolding SmapsEntry_wire_def by (rule wire_total_struct) (auto intro!: wire_rules)

record MappingSnapshot =
  ms_epoch :: u64
  ms_maps :: "MemoryMap list"

definition MappingSnapshot_wire :: "MappingSnapshot wire" where
  [wire_defs]: "MappingSnapshot_wire = wire_struct
     (\<lambda>x. (ms_epoch x, ms_maps x))
     (\<lambda>(epoch, maps).
       \<lparr>ms_epoch = epoch, ms_maps = maps\<rparr>)
     (pair_wire u64_wire (vec_wire MemoryMap_wire))"

lemma MappingSnapshot_wire_total [wire_rules]: "wire_total MappingSnapshot_wire"
  unfolding MappingSnapshot_wire_def by (rule wire_total_struct) (auto intro!: wire_rules)

end
