(* ===== verification/Ipc_Registers.thy ===== *)
theory Ipc_Registers
  imports Ipc_Memory
begin

text \<open>
  Registers and stack frames of the IPC model (\<open>src/ipc/registers.rs\<close>, \<open>src/ipc/stack.rs\<close>). The
  codec of a \<open>RegisterSet\<close> is hand-written: it refuses a set whose length is not the architecture's
  \<open>COUNT\<close>, in both directions.
\<close>

section \<open>Register sets\<close>

text \<open>The target architecture selects the layout of a register set at compile time.\<close>

datatype Arch = X86_64 | Aarch64

record RegisterSet =
  regs_values :: "u64 list"
  regs_flags_available :: bool
  regs_code_pac_mask :: "u64 option"

definition COUNT :: "Arch \<Rightarrow> nat" where
  "COUNT arch = (case arch of Aarch64 \<Rightarrow> 34 | X86_64 \<Rightarrow> 24)"

definition PC :: "Arch \<Rightarrow> nat" where
  "PC arch = (case arch of Aarch64 \<Rightarrow> 32 | X86_64 \<Rightarrow> 8)"

definition SP :: "Arch \<Rightarrow> nat" where
  "SP arch = (case arch of Aarch64 \<Rightarrow> 31 | X86_64 \<Rightarrow> 7)"

definition FP :: "Arch \<Rightarrow> nat" where
  "FP arch = (case arch of Aarch64 \<Rightarrow> 29 | X86_64 \<Rightarrow> 6)"

definition validate :: "Arch \<Rightarrow> RegisterSet \<Rightarrow> bool" where
  "validate arch r \<longleftrightarrow> length (regs_values r) = COUNT arch"

text \<open>\<open>self.values[i]\<close>: \<open>None\<close> is the out-of-range panic.\<close>

definition register_at :: "RegisterSet \<Rightarrow> nat \<Rightarrow> u64 option" where
  "register_at r i = (if i < length (regs_values r) then Some (regs_values r ! i) else None)"

definition pc :: "Arch \<Rightarrow> RegisterSet \<Rightarrow> u64 option" where
  "pc arch r = register_at r (PC arch)"

definition sp :: "Arch \<Rightarrow> RegisterSet \<Rightarrow> u64 option" where
  "sp arch r = register_at r (SP arch)"

definition fp :: "Arch \<Rightarrow> RegisterSet \<Rightarrow> u64 option" where
  "fp arch r = register_at r (FP arch)"

definition lr :: "Arch \<Rightarrow> RegisterSet \<Rightarrow> u64 option" where
  "lr arch r = (case arch of Aarch64 \<Rightarrow> register_at r 30 | X86_64 \<Rightarrow> Some 0)"

definition default_registers :: "Arch \<Rightarrow> RegisterSet" where
  "default_registers arch =
     \<lparr>regs_values = replicate (COUNT arch) 0, regs_flags_available = False, regs_code_pac_mask = None\<rparr>"

text \<open>The fields of a register set, without the validation.\<close>

definition RegisterSet_fields :: "RegisterSet wire" where
  [wire_defs]: "RegisterSet_fields = wire_struct
     (\<lambda>x. (regs_values x, regs_flags_available x, regs_code_pac_mask x))
     (\<lambda>(values, flags, mask).
       \<lparr>regs_values = values, regs_flags_available = flags, regs_code_pac_mask = mask\<rparr>)
     (pair_wire (vec_wire u64_wire) (pair_wire bool_wire (option_wire u64_wire)))"

definition RegisterSet_wire :: "Arch \<Rightarrow> RegisterSet wire" where
  [wire_defs]: "RegisterSet_wire arch = \<lparr>
     write = (\<lambda>r out. if validate arch r then write RegisterSet_fields r out else Inl InvalidRegisterCount),
     read = (\<lambda>d. and_then (read RegisterSet_fields d) (\<lambda>(r, d).
       if validate arch r then Inr (r, d) else Inl InvalidRegisterCount))\<rparr>"

lemma RegisterSet_fields_total: "wire_total RegisterSet_fields"
  unfolding RegisterSet_fields_def by (rule wire_total_struct) (auto intro!: wire_rules)

lemma RegisterSet_wire_ok: "wire_ok (RegisterSet_wire arch) (validate arch)"
proof -
  have "wire_ok (RegisterSet_wire arch) (\<lambda>r. True \<and> validate arch r)"
    by (rule wire_ok_validated [OF RegisterSet_fields_total]) (simp_all add: RegisterSet_wire_def)
  then show ?thesis by (rule wire_ok_cong) simp
qed

text \<open>On a validated set no accessor reads out of range.\<close>

lemma validate_accessors:
  assumes "validate arch r"
  shows "pc arch r \<noteq> None" "sp arch r \<noteq> None" "fp arch r \<noteq> None" "lr arch r \<noteq> None"
  using assms
  by (cases arch; simp add: validate_def register_at_def pc_def sp_def fp_def lr_def
      COUNT_def PC_def SP_def FP_def)+

lemma validate_default: "validate arch (default_registers arch)"
  by (simp add: validate_def default_registers_def)

section \<open>Registers and frames\<close>

datatype RegisterRole =
    Pc | Sp | Fp | Lr | Flags | General

definition RegisterRole_wire :: "RegisterRole wire" where
  [wire_defs]: "RegisterRole_wire = wire_enum
     [unit_arm 0 RegisterRole.Pc, unit_arm 1 RegisterRole.Sp, unit_arm 2 RegisterRole.Fp,
      unit_arm 3 RegisterRole.Lr, unit_arm 4 RegisterRole.Flags, unit_arm 5 RegisterRole.General]"

lemma RegisterRole_wire_total [wire_rules]: "wire_total RegisterRole_wire"
  unfolding RegisterRole_wire_def
  by (rule wire_total_enum)
     (auto simp: arms_cover_def arm_total_unit split: RegisterRole.splits, metis RegisterRole.exhaust)

record RegisterMapping =
  regmap_pathname :: "rstring option"
  regmap_readable :: bool
  regmap_writable :: bool
  regmap_executable :: bool
  regmap_private :: bool

definition RegisterMapping_wire :: "RegisterMapping wire" where
  [wire_defs]: "RegisterMapping_wire = wire_struct
     (\<lambda>x. (regmap_pathname x, regmap_readable x, regmap_writable x, regmap_executable x,
        regmap_private x))
     (\<lambda>(pathname, readable, writable, executable, private).
       \<lparr>regmap_pathname = pathname, regmap_readable = readable, regmap_writable = writable,
        regmap_executable = executable, regmap_private = private\<rparr>)
     (pair_wire (option_wire string_wire) (pair_wire bool_wire (pair_wire bool_wire (pair_wire
      bool_wire bool_wire))))"

lemma RegisterMapping_wire_total [wire_rules]: "wire_total RegisterMapping_wire"
  unfolding RegisterMapping_wire_def by (rule wire_total_struct) (auto intro!: wire_rules)

record Register =
  reg_name :: rstring
  reg_role :: RegisterRole
  reg_value :: u64
  reg_decimal :: rstring
  reg_kind :: MemoryKind
  reg_mapping :: "RegisterMapping option"
  reg_offset :: "u64 option"

definition Register_wire :: "Register wire" where
  [wire_defs]: "Register_wire = wire_struct
     (\<lambda>x. (reg_name x, reg_role x, reg_value x, reg_decimal x, reg_kind x, reg_mapping x,
        reg_offset x))
     (\<lambda>(v_name, role, value, decimal, kind, mapping, offset).
       \<lparr>reg_name = v_name, reg_role = role, reg_value = value, reg_decimal = decimal,
        reg_kind = kind, reg_mapping = mapping, reg_offset = offset\<rparr>)
     (pair_wire string_wire (pair_wire RegisterRole_wire (pair_wire u64_wire (pair_wire
      string_wire (pair_wire MemoryKind_wire (pair_wire (option_wire RegisterMapping_wire)
      (option_wire u64_wire)))))))"

lemma Register_wire_total [wire_rules]: "wire_total Register_wire"
  unfolding Register_wire_def by (rule wire_total_struct) (auto intro!: wire_rules)

record SourceFrame =
  srcf_function :: "rstring option"
  srcf_file :: "rstring option"
  srcf_line :: "u32 option"

definition SourceFrame_wire :: "SourceFrame wire" where
  [wire_defs]: "SourceFrame_wire = wire_struct
     (\<lambda>x. (srcf_function x, srcf_file x, srcf_line x))
     (\<lambda>(function, file, line).
       \<lparr>srcf_function = function, srcf_file = file, srcf_line = line\<rparr>)
     (pair_wire (option_wire string_wire) (pair_wire (option_wire string_wire) (option_wire
      u32_wire)))"

lemma SourceFrame_wire_total [wire_rules]: "wire_total SourceFrame_wire"
  unfolding SourceFrame_wire_def by (rule wire_total_struct) (auto intro!: wire_rules)

record StackFrame =
  frame_address :: u64
  frame_symbol :: "rstring option"
  frame_symbol_offset :: "rstring option"
  frame_source_file :: "rstring option"
  frame_line :: "u32 option"
  frame_inline_frames :: "SourceFrame list"

definition StackFrame_wire :: "StackFrame wire" where
  [wire_defs]: "StackFrame_wire = wire_struct
     (\<lambda>x. (frame_address x, frame_symbol x, frame_symbol_offset x, frame_source_file x, frame_line x,
        frame_inline_frames x))
     (\<lambda>(address, symbol, symbol_offset, source_file, line, inline_frames).
       \<lparr>frame_address = address, frame_symbol = symbol, frame_symbol_offset = symbol_offset,
        frame_source_file = source_file, frame_line = line, frame_inline_frames = inline_frames\<rparr>)
     (pair_wire u64_wire (pair_wire (option_wire string_wire) (pair_wire (option_wire string_wire)
      (pair_wire (option_wire string_wire) (pair_wire (option_wire u32_wire) (vec_wire
      SourceFrame_wire))))))"

lemma StackFrame_wire_total [wire_rules]: "wire_total StackFrame_wire"
  unfolding StackFrame_wire_def by (rule wire_total_struct) (auto intro!: wire_rules)

end
