(* ===== verification/Ipc_Process.thy ===== *)
theory Ipc_Process
  imports Ipc_Identity
begin

text \<open>
  Process and thread counters of the IPC model (\<open>src/ipc/model/threads.rs\<close>,
  \<open>src/ipc/model/process.rs\<close>, \<open>src/ipc/history.rs\<close>) and their codecs.
\<close>

section \<open>Threads\<close>

datatype SchedulerPolicy =
    Other | Fifo | Rr | Batch | Idle | Deadline | Ext | Unknown u32

definition SchedulerPolicy_wire :: "SchedulerPolicy wire" where
  [wire_defs]: "SchedulerPolicy_wire = wire_enum
     [unit_arm 0 SchedulerPolicy.Other, unit_arm 1 SchedulerPolicy.Fifo,
      unit_arm 2 SchedulerPolicy.Rr, unit_arm 3 SchedulerPolicy.Batch,
      unit_arm 4 SchedulerPolicy.Idle, unit_arm 5 SchedulerPolicy.Deadline,
      unit_arm 6 SchedulerPolicy.Ext,
      arm 7 SchedulerPolicy.Unknown
         (\<lambda>e. case e of SchedulerPolicy.Unknown value \<Rightarrow> Some value | _ \<Rightarrow> None)
         u32_wire]"

lemma SchedulerPolicy_wire_total [wire_rules]: "wire_total SchedulerPolicy_wire"
  unfolding SchedulerPolicy_wire_def
  by (rule wire_total_enum)
     (auto simp: arms_cover_def arm_total_unit intro!: arm_total_arm wire_rules split: SchedulerPolicy.splits)

record CpuRange =
  range_start :: u32
  range_end :: u32

definition CpuRange_wire :: "CpuRange wire" where
  [wire_defs]: "CpuRange_wire = wire_struct
     (\<lambda>x. (range_start x, range_end x))
     (\<lambda>(start, v_end).
       \<lparr>range_start = start, range_end = v_end\<rparr>)
     (pair_wire u32_wire u32_wire)"

lemma CpuRange_wire_total [wire_rules]: "wire_total CpuRange_wire"
  unfolding CpuRange_wire_def by (rule wire_total_struct) (auto intro!: wire_rules)

record ThreadObservation =
  tobs_tid :: i32
  tobs_name :: rstring
  tobs_state :: rstring
  tobs_cpu :: i32
  tobs_cpu_percent :: "f64 option"
  tobs_priority :: i64
  tobs_nice :: i64
  tobs_scheduler :: SchedulerPolicy
  tobs_affinity :: "CpuRange list option"
  tobs_voluntary_context_switches :: "u64 option"
  tobs_nonvoluntary_context_switches :: "u64 option"

definition ThreadObservation_wire :: "ThreadObservation wire" where
  [wire_defs]: "ThreadObservation_wire = wire_struct
     (\<lambda>x. (tobs_tid x, tobs_name x, tobs_state x, tobs_cpu x, tobs_cpu_percent x, tobs_priority x,
        tobs_nice x, tobs_scheduler x, tobs_affinity x, tobs_voluntary_context_switches x,
        tobs_nonvoluntary_context_switches x))
     (\<lambda>(tid, v_name, state, cpu, cpu_percent, priority, nice, scheduler, affinity,
        voluntary_context_switches, nonvoluntary_context_switches).
       \<lparr>tobs_tid = tid, tobs_name = v_name, tobs_state = state, tobs_cpu = cpu,
        tobs_cpu_percent = cpu_percent, tobs_priority = priority, tobs_nice = nice,
        tobs_scheduler = scheduler, tobs_affinity = affinity,
        tobs_voluntary_context_switches = voluntary_context_switches,
        tobs_nonvoluntary_context_switches = nonvoluntary_context_switches\<rparr>)
     (pair_wire i32_wire (pair_wire string_wire (pair_wire string_wire (pair_wire i32_wire
      (pair_wire (option_wire f64_wire) (pair_wire i64_wire (pair_wire i64_wire (pair_wire
      SchedulerPolicy_wire (pair_wire (option_wire (vec_wire CpuRange_wire)) (pair_wire
      (option_wire u64_wire) (option_wire u64_wire)))))))))))"

lemma ThreadObservation_wire_total [wire_rules]: "wire_total ThreadObservation_wire"
  unfolding ThreadObservation_wire_def by (rule wire_total_struct) (auto intro!: wire_rules)

record ThreadSample =
  ts_tid :: i32
  ts_name :: rstring
  ts_state :: rstring
  ts_cpu :: i32
  ts_priority :: i64
  ts_nice :: i64
  ts_scheduler :: SchedulerPolicy
  ts_affinity :: "CpuRange list option"
  ts_voluntary_context_switches :: "u64 option"
  ts_nonvoluntary_context_switches :: "u64 option"
  ts_ticks :: u64
  ts_start_time :: u64

definition ThreadSample_wire :: "ThreadSample wire" where
  [wire_defs]: "ThreadSample_wire = wire_struct
     (\<lambda>x. (ts_tid x, ts_name x, ts_state x, ts_cpu x, ts_priority x, ts_nice x, ts_scheduler x,
        ts_affinity x, ts_voluntary_context_switches x, ts_nonvoluntary_context_switches x,
        ts_ticks x, ts_start_time x))
     (\<lambda>(tid, v_name, state, cpu, priority, nice, scheduler, affinity, voluntary_context_switches,
        nonvoluntary_context_switches, ticks, start_time).
       \<lparr>ts_tid = tid, ts_name = v_name, ts_state = state, ts_cpu = cpu, ts_priority = priority,
        ts_nice = nice, ts_scheduler = scheduler, ts_affinity = affinity,
        ts_voluntary_context_switches = voluntary_context_switches,
        ts_nonvoluntary_context_switches = nonvoluntary_context_switches, ts_ticks = ticks,
        ts_start_time = start_time\<rparr>)
     (pair_wire i32_wire (pair_wire string_wire (pair_wire string_wire (pair_wire i32_wire
      (pair_wire i64_wire (pair_wire i64_wire (pair_wire SchedulerPolicy_wire (pair_wire
      (option_wire (vec_wire CpuRange_wire)) (pair_wire (option_wire u64_wire) (pair_wire
      (option_wire u64_wire) (pair_wire u64_wire u64_wire)))))))))))"

lemma ThreadSample_wire_total [wire_rules]: "wire_total ThreadSample_wire"
  unfolding ThreadSample_wire_def by (rule wire_total_struct) (auto intro!: wire_rules)

section \<open>Processes\<close>

record IoStats =
  io_read_bytes :: u64
  io_write_bytes :: u64

definition IoStats_wire :: "IoStats wire" where
  [wire_defs]: "IoStats_wire = wire_struct
     (\<lambda>x. (io_read_bytes x, io_write_bytes x))
     (\<lambda>(read_bytes, write_bytes).
       \<lparr>io_read_bytes = read_bytes, io_write_bytes = write_bytes\<rparr>)
     (pair_wire u64_wire u64_wire)"

lemma IoStats_wire_total [wire_rules]: "wire_total IoStats_wire"
  unfolding IoStats_wire_def by (rule wire_total_struct) (auto intro!: wire_rules)

record Rates =
  rate_minor_faults :: "f64 option"
  rate_major_faults :: "f64 option"
  rate_voluntary_context_switches :: "f64 option"
  rate_nonvoluntary_context_switches :: "f64 option"
  rate_read_bytes :: "f64 option"
  rate_write_bytes :: "f64 option"

definition Rates_wire :: "Rates wire" where
  [wire_defs]: "Rates_wire = wire_struct
     (\<lambda>x. (rate_minor_faults x, rate_major_faults x, rate_voluntary_context_switches x,
        rate_nonvoluntary_context_switches x, rate_read_bytes x, rate_write_bytes x))
     (\<lambda>(minor_faults, major_faults, voluntary_context_switches, nonvoluntary_context_switches,
        read_bytes, write_bytes).
       \<lparr>rate_minor_faults = minor_faults, rate_major_faults = major_faults,
        rate_voluntary_context_switches = voluntary_context_switches,
        rate_nonvoluntary_context_switches = nonvoluntary_context_switches,
        rate_read_bytes = read_bytes, rate_write_bytes = write_bytes\<rparr>)
     (pair_wire (option_wire f64_wire) (pair_wire (option_wire f64_wire) (pair_wire (option_wire
      f64_wire) (pair_wire (option_wire f64_wire) (pair_wire (option_wire f64_wire) (option_wire
      f64_wire))))))"

lemma Rates_wire_total [wire_rules]: "wire_total Rates_wire"
  unfolding Rates_wire_def by (rule wire_total_struct) (auto intro!: wire_rules)

record ProcessObservation =
  pobs_timestamp :: u64
  pobs_process_id :: ProcessId
  pobs_cpu_percent :: "f64 option"
  pobs_rss_bytes :: u64
  pobs_vms_bytes :: u64
  pobs_minor_faults :: u64
  pobs_major_faults :: u64
  pobs_voluntary_context_switches :: "u64 option"
  pobs_nonvoluntary_context_switches :: "u64 option"
  pobs_io :: "IoStats option"
  pobs_rates :: Rates
  pobs_threads :: "ThreadObservation list"
  pobs_cpu :: i32
  pobs_nice :: i64
  pobs_priority :: i64

definition ProcessObservation_wire :: "ProcessObservation wire" where
  [wire_defs]: "ProcessObservation_wire = wire_struct
     (\<lambda>x. (pobs_timestamp x, pobs_process_id x, pobs_cpu_percent x, pobs_rss_bytes x,
        pobs_vms_bytes x, pobs_minor_faults x, pobs_major_faults x,
        pobs_voluntary_context_switches x, pobs_nonvoluntary_context_switches x, pobs_io x,
        pobs_rates x, pobs_threads x, pobs_cpu x, pobs_nice x, pobs_priority x))
     (\<lambda>(timestamp, process_id, cpu_percent, rss_bytes, vms_bytes, minor_faults, major_faults,
        voluntary_context_switches, nonvoluntary_context_switches, io, rates, threads, cpu, nice,
        priority).
       \<lparr>pobs_timestamp = timestamp, pobs_process_id = process_id, pobs_cpu_percent = cpu_percent,
        pobs_rss_bytes = rss_bytes, pobs_vms_bytes = vms_bytes, pobs_minor_faults = minor_faults,
        pobs_major_faults = major_faults,
        pobs_voluntary_context_switches = voluntary_context_switches,
        pobs_nonvoluntary_context_switches = nonvoluntary_context_switches, pobs_io = io,
        pobs_rates = rates, pobs_threads = threads, pobs_cpu = cpu, pobs_nice = nice,
        pobs_priority = priority\<rparr>)
     (pair_wire u64_wire (pair_wire ProcessId_wire (pair_wire (option_wire f64_wire) (pair_wire
      u64_wire (pair_wire u64_wire (pair_wire u64_wire (pair_wire u64_wire (pair_wire (option_wire
      u64_wire) (pair_wire (option_wire u64_wire) (pair_wire (option_wire IoStats_wire) (pair_wire
      Rates_wire (pair_wire (vec_wire ThreadObservation_wire) (pair_wire i32_wire (pair_wire
      i64_wire i64_wire))))))))))))))"

lemma ProcessObservation_wire_total [wire_rules]: "wire_total ProcessObservation_wire"
  unfolding ProcessObservation_wire_def by (rule wire_total_struct) (auto intro!: wire_rules)

record ProcessSample =
  psample_timestamp :: u64
  psample_process_id :: ProcessId
  psample_rss_bytes :: u64
  psample_vms_bytes :: u64
  psample_minor_faults :: u64
  psample_major_faults :: u64
  psample_voluntary_context_switches :: "u64 option"
  psample_nonvoluntary_context_switches :: "u64 option"
  psample_io :: "IoStats option"
  psample_threads :: "ThreadSample list"
  psample_cpu :: i32
  psample_nice :: i64
  psample_priority :: i64
  psample_ticks :: u64
  psample_measured_at :: u64

definition ProcessSample_wire :: "ProcessSample wire" where
  [wire_defs]: "ProcessSample_wire = wire_struct
     (\<lambda>x. (psample_timestamp x, psample_process_id x, psample_rss_bytes x, psample_vms_bytes x,
        psample_minor_faults x, psample_major_faults x, psample_voluntary_context_switches x,
        psample_nonvoluntary_context_switches x, psample_io x, psample_threads x, psample_cpu x,
        psample_nice x, psample_priority x, psample_ticks x, psample_measured_at x))
     (\<lambda>(timestamp, process_id, rss_bytes, vms_bytes, minor_faults, major_faults,
        voluntary_context_switches, nonvoluntary_context_switches, io, threads, cpu, nice,
        priority, ticks, measured_at).
       \<lparr>psample_timestamp = timestamp, psample_process_id = process_id,
        psample_rss_bytes = rss_bytes, psample_vms_bytes = vms_bytes,
        psample_minor_faults = minor_faults, psample_major_faults = major_faults,
        psample_voluntary_context_switches = voluntary_context_switches,
        psample_nonvoluntary_context_switches = nonvoluntary_context_switches, psample_io = io,
        psample_threads = threads, psample_cpu = cpu, psample_nice = nice,
        psample_priority = priority, psample_ticks = ticks, psample_measured_at = measured_at\<rparr>)
     (pair_wire u64_wire (pair_wire ProcessId_wire (pair_wire u64_wire (pair_wire u64_wire
      (pair_wire u64_wire (pair_wire u64_wire (pair_wire (option_wire u64_wire) (pair_wire
      (option_wire u64_wire) (pair_wire (option_wire IoStats_wire) (pair_wire (vec_wire
      ThreadSample_wire) (pair_wire i32_wire (pair_wire i64_wire (pair_wire i64_wire (pair_wire
      u64_wire u64_wire))))))))))))))"

lemma ProcessSample_wire_total [wire_rules]: "wire_total ProcessSample_wire"
  unfolding ProcessSample_wire_def by (rule wire_total_struct) (auto intro!: wire_rules)

record HistoryPoint =
  hist_timestamp :: u64
  hist_cpu_percent :: "f64 option"
  hist_rss_bytes :: u64
  hist_vms_bytes :: u64

definition HistoryPoint_wire :: "HistoryPoint wire" where
  [wire_defs]: "HistoryPoint_wire = wire_struct
     (\<lambda>x. (hist_timestamp x, hist_cpu_percent x, hist_rss_bytes x, hist_vms_bytes x))
     (\<lambda>(timestamp, cpu_percent, rss_bytes, vms_bytes).
       \<lparr>hist_timestamp = timestamp, hist_cpu_percent = cpu_percent, hist_rss_bytes = rss_bytes,
        hist_vms_bytes = vms_bytes\<rparr>)
     (pair_wire u64_wire (pair_wire (option_wire f64_wire) (pair_wire u64_wire u64_wire)))"

lemma HistoryPoint_wire_total [wire_rules]: "wire_total HistoryPoint_wire"
  unfolding HistoryPoint_wire_def by (rule wire_total_struct) (auto intro!: wire_rules)

end
