(* ===== verification/Ipc_Activity.thy ===== *)
theory Ipc_Activity
  imports Ipc_Identity
begin

text \<open>
  Kernel event values of the IPC model (\<open>src/ipc/activity.rs\<close>) and their codecs.
\<close>

record ProcessKey =
  key_start :: u64
  key_pid :: u32

definition ProcessKey_wire :: "ProcessKey wire" where
  [wire_defs]: "ProcessKey_wire = wire_struct
     (\<lambda>x. (key_start x, key_pid x))
     (\<lambda>(start, pid).
       \<lparr>key_start = start, key_pid = pid\<rparr>)
     (pair_wire u64_wire u32_wire)"

lemma ProcessKey_wire_total [wire_rules]: "wire_total ProcessKey_wire"
  unfolding ProcessKey_wire_def by (rule wire_total_struct) (auto intro!: wire_rules)

record SignalSample =
  sig_timestamp_ns :: u64
  sig_src_start :: u64
  sig_dst_start :: u64
  sig_src_pid :: u32
  sig_dst_pid :: u32
  sig_signal :: i32

definition SignalSample_wire :: "SignalSample wire" where
  [wire_defs]: "SignalSample_wire = wire_struct
     (\<lambda>x. (sig_timestamp_ns x, sig_src_start x, sig_dst_start x, sig_src_pid x, sig_dst_pid x,
        sig_signal x))
     (\<lambda>(timestamp_ns, src_start, dst_start, src_pid, dst_pid, signal).
       \<lparr>sig_timestamp_ns = timestamp_ns, sig_src_start = src_start, sig_dst_start = dst_start,
        sig_src_pid = src_pid, sig_dst_pid = dst_pid, sig_signal = signal\<rparr>)
     (pair_wire u64_wire (pair_wire u64_wire (pair_wire u64_wire (pair_wire u32_wire (pair_wire
      u32_wire i32_wire)))))"

lemma SignalSample_wire_total [wire_rules]: "wire_total SignalSample_wire"
  unfolding SignalSample_wire_def by (rule wire_total_struct) (auto intro!: wire_rules)

record IpcEvent =
  ie_start :: u64
  ie_inode :: u64
  ie_device :: u64
  ie_bytes :: u64
  ie_pid :: u32
  ie_kind :: u32
  ie_write :: bool
  ie_worker :: bool

definition IpcEvent_wire :: "IpcEvent wire" where
  [wire_defs]: "IpcEvent_wire = wire_struct
     (\<lambda>x. (ie_start x, ie_inode x, ie_device x, ie_bytes x, ie_pid x, ie_kind x, ie_write x,
        ie_worker x))
     (\<lambda>(start, inode, device, bytes, pid, kind, write, worker).
       \<lparr>ie_start = start, ie_inode = inode, ie_device = device, ie_bytes = bytes, ie_pid = pid,
        ie_kind = kind, ie_write = write, ie_worker = worker\<rparr>)
     (pair_wire u64_wire (pair_wire u64_wire (pair_wire u64_wire (pair_wire u64_wire (pair_wire
      u32_wire (pair_wire u32_wire (pair_wire bool_wire bool_wire)))))))"

lemma IpcEvent_wire_total [wire_rules]: "wire_total IpcEvent_wire"
  unfolding IpcEvent_wire_def by (rule wire_total_struct) (auto intro!: wire_rules)

record CpuCounters =
  cc_now :: u64
  cc_current :: "u8 list list"
  cc_totals :: "(u8 list \<times> (u64, 2) rarray list) list"

definition CpuCounters_wire :: "CpuCounters wire" where
  [wire_defs]: "CpuCounters_wire = wire_struct
     (\<lambda>x. (cc_now x, cc_current x, cc_totals x))
     (\<lambda>(now, current, totals).
       \<lparr>cc_now = now, cc_current = current, cc_totals = totals\<rparr>)
     (pair_wire u64_wire (pair_wire (vec_wire (vec_wire u8_wire)) (vec_wire (pair_wire (vec_wire
      u8_wire) (vec_wire (array_wire u64_wire))))))"

lemma CpuCounters_wire_total [wire_rules]: "wire_total CpuCounters_wire"
  unfolding CpuCounters_wire_def by (rule wire_total_struct) (auto intro!: wire_rules)

record FileActivity =
  fa_process_id :: ProcessId
  fa_file :: FileIdentity
  fa_path :: "rstring option"
  fa_write :: bool
  fa_bytes :: u64
  fa_count :: u64

definition FileActivity_wire :: "FileActivity wire" where
  [wire_defs]: "FileActivity_wire = wire_struct
     (\<lambda>x. (fa_process_id x, fa_file x, fa_path x, fa_write x, fa_bytes x, fa_count x))
     (\<lambda>(process_id, file, path, write, bytes, count).
       \<lparr>fa_process_id = process_id, fa_file = file, fa_path = path, fa_write = write,
        fa_bytes = bytes, fa_count = count\<rparr>)
     (pair_wire ProcessId_wire (pair_wire FileIdentity_wire (pair_wire (option_wire string_wire)
      (pair_wire bool_wire (pair_wire u64_wire u64_wire)))))"

lemma FileActivity_wire_total [wire_rules]: "wire_total FileActivity_wire"
  unfolding FileActivity_wire_def by (rule wire_total_struct) (auto intro!: wire_rules)

record RawActivity =
  raw_files :: "FileActivity list"
  raw_ipc :: "IpcEvent list"
  raw_signals :: "SignalSample list"
  raw_cpu :: CpuCounters

definition RawActivity_wire :: "RawActivity wire" where
  [wire_defs]: "RawActivity_wire = wire_struct
     (\<lambda>x. (raw_files x, raw_ipc x, raw_signals x, raw_cpu x))
     (\<lambda>(files, ipc, signals, cpu).
       \<lparr>raw_files = files, raw_ipc = ipc, raw_signals = signals, raw_cpu = cpu\<rparr>)
     (pair_wire (vec_wire FileActivity_wire) (pair_wire (vec_wire IpcEvent_wire) (pair_wire
      (vec_wire SignalSample_wire) CpuCounters_wire)))"

lemma RawActivity_wire_total [wire_rules]: "wire_total RawActivity_wire"
  unfolding RawActivity_wire_def by (rule wire_total_struct) (auto intro!: wire_rules)

record CpuActivity =
  ca_process_id :: ProcessId
  ca_runtime_ns :: u64
  ca_switches :: u64
  ca_running_threads :: usize
  ca_cpus :: "usize list"

definition CpuActivity_wire :: "CpuActivity wire" where
  [wire_defs]: "CpuActivity_wire = wire_struct
     (\<lambda>x. (ca_process_id x, ca_runtime_ns x, ca_switches x, ca_running_threads x, ca_cpus x))
     (\<lambda>(process_id, runtime_ns, switches, running_threads, cpus).
       \<lparr>ca_process_id = process_id, ca_runtime_ns = runtime_ns, ca_switches = switches,
        ca_running_threads = running_threads, ca_cpus = cpus\<rparr>)
     (pair_wire ProcessId_wire (pair_wire u64_wire (pair_wire u64_wire (pair_wire usize_wire
      (vec_wire usize_wire)))))"

lemma CpuActivity_wire_total [wire_rules]: "wire_total CpuActivity_wire"
  unfolding CpuActivity_wire_def by (rule wire_total_struct) (auto intro!: wire_rules)

record IpcActivity =
  ia_process_id :: ProcessId
  ia_resource :: IpcIdentity
  ia_write :: bool
  ia_bytes :: u64
  ia_count :: u64

definition IpcActivity_wire :: "IpcActivity wire" where
  [wire_defs]: "IpcActivity_wire = wire_struct
     (\<lambda>x. (ia_process_id x, ia_resource x, ia_write x, ia_bytes x, ia_count x))
     (\<lambda>(process_id, resource, write, bytes, count).
       \<lparr>ia_process_id = process_id, ia_resource = resource, ia_write = write, ia_bytes = bytes,
        ia_count = count\<rparr>)
     (pair_wire ProcessId_wire (pair_wire IpcIdentity_wire (pair_wire bool_wire (pair_wire
      u64_wire u64_wire))))"

lemma IpcActivity_wire_total [wire_rules]: "wire_total IpcActivity_wire"
  unfolding IpcActivity_wire_def by (rule wire_total_struct) (auto intro!: wire_rules)

record SignalEvent =
  se_timestamp_ns :: u64
  se_src_pid :: u32
  se_dst_pid :: u32
  se_signal :: i32
  se_source_id :: ProcessId
  se_destination_id :: ProcessId

definition SignalEvent_wire :: "SignalEvent wire" where
  [wire_defs]: "SignalEvent_wire = wire_struct
     (\<lambda>x. (se_timestamp_ns x, se_src_pid x, se_dst_pid x, se_signal x, se_source_id x,
        se_destination_id x))
     (\<lambda>(timestamp_ns, src_pid, dst_pid, signal, source_id, destination_id).
       \<lparr>se_timestamp_ns = timestamp_ns, se_src_pid = src_pid, se_dst_pid = dst_pid,
        se_signal = signal, se_source_id = source_id, se_destination_id = destination_id\<rparr>)
     (pair_wire u64_wire (pair_wire u32_wire (pair_wire u32_wire (pair_wire i32_wire (pair_wire
      ProcessId_wire ProcessId_wire)))))"

lemma SignalEvent_wire_total [wire_rules]: "wire_total SignalEvent_wire"
  unfolding SignalEvent_wire_def by (rule wire_total_struct) (auto intro!: wire_rules)

end
