(* ===== verification/Ipc_Sockets.thy ===== *)
theory Ipc_Sockets
  imports Ipc_Identity
begin

text \<open>
  Socket and descriptor metadata of the IPC model (\<open>src/ipc/model/socket_types.rs\<close>,
  \<open>src/ipc/model/sockets.rs\<close>, \<open>src/ipc/descriptors.rs\<close>) and their codecs.
\<close>

section \<open>Socket types\<close>

datatype AddressFamily =
    Ipv4 | Ipv6

definition AddressFamily_wire :: "AddressFamily wire" where
  [wire_defs]: "AddressFamily_wire = wire_enum
     [unit_arm 0 AddressFamily.Ipv4, unit_arm 1 AddressFamily.Ipv6]"

lemma AddressFamily_wire_total [wire_rules]: "wire_total AddressFamily_wire"
  unfolding AddressFamily_wire_def
  by (rule wire_total_enum)
     (auto simp: arms_cover_def arm_total_unit split: AddressFamily.splits, metis AddressFamily.exhaust)

datatype SocketType =
    Stream | Dgram | Raw | Rdm | Seqpacket | Dccp | Packet | Unknown u32

definition SocketType_wire :: "SocketType wire" where
  [wire_defs]: "SocketType_wire = wire_enum
     [unit_arm 0 SocketType.Stream, unit_arm 1 SocketType.Dgram, unit_arm 2 SocketType.Raw,
      unit_arm 3 SocketType.Rdm, unit_arm 4 SocketType.Seqpacket, unit_arm 5 SocketType.Dccp,
      unit_arm 6 SocketType.Packet,
      arm 7 SocketType.Unknown
         (\<lambda>e. case e of SocketType.Unknown value \<Rightarrow> Some value | _ \<Rightarrow> None)
         u32_wire]"

lemma SocketType_wire_total [wire_rules]: "wire_total SocketType_wire"
  unfolding SocketType_wire_def
  by (rule wire_total_enum)
     (auto simp: arms_cover_def arm_total_unit intro!: arm_total_arm wire_rules split: SocketType.splits)

datatype SocketProtocol =
    Tcp AddressFamily | Udp AddressFamily | Unix SocketType | Other u32 "SocketType option" u32

definition SocketProtocol_wire :: "SocketProtocol wire" where
  [wire_defs]: "SocketProtocol_wire = wire_enum
     [arm 0 SocketProtocol.Tcp
         (\<lambda>e. case e of SocketProtocol.Tcp family \<Rightarrow> Some family | _ \<Rightarrow> None)
         AddressFamily_wire,
      arm 1 SocketProtocol.Udp
         (\<lambda>e. case e of SocketProtocol.Udp family \<Rightarrow> Some family | _ \<Rightarrow> None)
         AddressFamily_wire,
      arm 2 SocketProtocol.Unix
         (\<lambda>e. case e of SocketProtocol.Unix socket_type \<Rightarrow> Some socket_type | _ \<Rightarrow> None)
         SocketType_wire,
      arm 3 (\<lambda>(family, socket_type, protocol). SocketProtocol.Other family socket_type protocol)
         (\<lambda>e. case e of SocketProtocol.Other family socket_type protocol \<Rightarrow> Some (family, socket_type, protocol) | _ \<Rightarrow> None)
         (pair_wire u32_wire (pair_wire (option_wire SocketType_wire) u32_wire))]"

lemma SocketProtocol_wire_total [wire_rules]: "wire_total SocketProtocol_wire"
  unfolding SocketProtocol_wire_def
  by (rule wire_total_enum)
     (auto simp: arms_cover_def arm_total_unit intro!: arm_total_arm wire_rules split: SocketProtocol.splits)

datatype SocketConnectionStatus =
    Listening | Unconnected | PeerPresent | Unknown

definition SocketConnectionStatus_wire :: "SocketConnectionStatus wire" where
  [wire_defs]: "SocketConnectionStatus_wire = wire_enum
     [unit_arm 0 SocketConnectionStatus.Listening, unit_arm 1 SocketConnectionStatus.Unconnected,
      unit_arm 2 SocketConnectionStatus.PeerPresent, unit_arm 3 SocketConnectionStatus.Unknown]"

lemma SocketConnectionStatus_wire_total [wire_rules]: "wire_total SocketConnectionStatus_wire"
  unfolding SocketConnectionStatus_wire_def
  by (rule wire_total_enum)
     (auto simp: arms_cover_def arm_total_unit split: SocketConnectionStatus.splits, metis SocketConnectionStatus.exhaust)

datatype SocketState =
    Established | SynSent | SynRecv | FinWait1 | FinWait2 | TimeWait | Close | CloseWait |
    LastAck | Listen | Closing | NewSynRecv | Unconnected | Connecting | Connected |
    Disconnecting | UnknownInet u32 | UnknownUnix u32

definition SocketState_wire :: "SocketState wire" where
  [wire_defs]: "SocketState_wire = wire_enum
     [unit_arm 0 SocketState.Established, unit_arm 1 SocketState.SynSent,
      unit_arm 2 SocketState.SynRecv, unit_arm 3 SocketState.FinWait1,
      unit_arm 4 SocketState.FinWait2, unit_arm 5 SocketState.TimeWait,
      unit_arm 6 SocketState.Close, unit_arm 7 SocketState.CloseWait,
      unit_arm 8 SocketState.LastAck, unit_arm 9 SocketState.Listen,
      unit_arm 10 SocketState.Closing, unit_arm 11 SocketState.NewSynRecv,
      unit_arm 12 SocketState.Unconnected, unit_arm 13 SocketState.Connecting,
      unit_arm 14 SocketState.Connected, unit_arm 15 SocketState.Disconnecting,
      arm 16 SocketState.UnknownInet
         (\<lambda>e. case e of SocketState.UnknownInet value \<Rightarrow> Some value | _ \<Rightarrow> None)
         u32_wire,
      arm 17 SocketState.UnknownUnix
         (\<lambda>e. case e of SocketState.UnknownUnix value \<Rightarrow> Some value | _ \<Rightarrow> None)
         u32_wire]"

lemma SocketState_wire_total [wire_rules]: "wire_total SocketState_wire"
  unfolding SocketState_wire_def
  by (rule wire_total_enum)
     (auto simp: arms_cover_def arm_total_unit intro!: arm_total_arm wire_rules split: SocketState.splits)

datatype FdKind =
    Pipe | Socket | Fifo

definition FdKind_wire :: "FdKind wire" where
  [wire_defs]: "FdKind_wire = wire_enum
     [unit_arm 0 FdKind.Pipe, unit_arm 1 FdKind.Socket, unit_arm 2 FdKind.Fifo]"

lemma FdKind_wire_total [wire_rules]: "wire_total FdKind_wire"
  unfolding FdKind_wire_def
  by (rule wire_total_enum)
     (auto simp: arms_cover_def arm_total_unit split: FdKind.splits, metis FdKind.exhaust)

datatype FdAccess =
    Read | Write | ReadWrite | Unknown

definition FdAccess_wire :: "FdAccess wire" where
  [wire_defs]: "FdAccess_wire = wire_enum
     [unit_arm 0 FdAccess.Read, unit_arm 1 FdAccess.Write, unit_arm 2 FdAccess.ReadWrite,
      unit_arm 3 FdAccess.Unknown]"

lemma FdAccess_wire_total [wire_rules]: "wire_total FdAccess_wire"
  unfolding FdAccess_wire_def
  by (rule wire_total_enum)
     (auto simp: arms_cover_def arm_total_unit split: FdAccess.splits, metis FdAccess.exhaust)

record InetAddress =
  inet_ip :: IpAddr
  inet_port :: u16

definition InetAddress_wire :: "InetAddress wire" where
  [wire_defs]: "InetAddress_wire = wire_struct
     (\<lambda>x. (inet_ip x, inet_port x))
     (\<lambda>(ip, port).
       \<lparr>inet_ip = ip, inet_port = port\<rparr>)
     (pair_wire ip_wire u16_wire)"

lemma InetAddress_wire_total [wire_rules]: "wire_total InetAddress_wire"
  unfolding InetAddress_wire_def by (rule wire_total_struct) (auto intro!: wire_rules)

record SocketInfo =
  si_protocol :: SocketProtocol
  si_state :: "SocketState option"
  si_local :: "SocketAddr option"
  si_remote :: "SocketAddr option"
  si_path :: "rstring option"
  si_peer_inode :: "u64 option"

definition SocketInfo_wire :: "SocketInfo wire" where
  [wire_defs]: "SocketInfo_wire = wire_struct
     (\<lambda>x. (si_protocol x, si_state x, si_local x, si_remote x, si_path x, si_peer_inode x))
     (\<lambda>(protocol, state, local, remote, path, peer_inode).
       \<lparr>si_protocol = protocol, si_state = state, si_local = local, si_remote = remote,
        si_path = path, si_peer_inode = peer_inode\<rparr>)
     (pair_wire SocketProtocol_wire (pair_wire (option_wire SocketState_wire) (pair_wire
      (option_wire socket_addr_wire) (pair_wire (option_wire socket_addr_wire) (pair_wire
      (option_wire string_wire) (option_wire u64_wire))))))"

lemma SocketInfo_wire_total [wire_rules]: "wire_total SocketInfo_wire"
  unfolding SocketInfo_wire_def by (rule wire_total_struct) (auto intro!: wire_rules)

section \<open>Descriptors\<close>

record Key =
  fk_kind :: FdKind
  fk_device :: u64
  fk_inode :: u64

definition Key_wire :: "Key wire" where
  [wire_defs]: "Key_wire = wire_struct
     (\<lambda>x. (fk_kind x, fk_device x, fk_inode x))
     (\<lambda>(kind, device, inode).
       \<lparr>fk_kind = kind, fk_device = device, fk_inode = inode\<rparr>)
     (pair_wire FdKind_wire (pair_wire u64_wire u64_wire))"

lemma Key_wire_total [wire_rules]: "wire_total Key_wire"
  unfolding Key_wire_def by (rule wire_total_struct) (auto intro!: wire_rules)

record Endpoint =
  ep_process_id :: ProcessId
  ep_name :: rstring
  ep_fd :: u32
  ep_access :: FdAccess
  ep_relation :: rstring

definition Endpoint_wire :: "Endpoint wire" where
  [wire_defs]: "Endpoint_wire = wire_struct
     (\<lambda>x. (ep_process_id x, ep_name x, ep_fd x, ep_access x, ep_relation x))
     (\<lambda>(process_id, v_name, fd, access, relation).
       \<lparr>ep_process_id = process_id, ep_name = v_name, ep_fd = fd, ep_access = access,
        ep_relation = relation\<rparr>)
     (pair_wire ProcessId_wire (pair_wire string_wire (pair_wire u32_wire (pair_wire FdAccess_wire
      string_wire))))"

lemma Endpoint_wire_total [wire_rules]: "wire_total Endpoint_wire"
  unfolding Endpoint_wire_def by (rule wire_total_struct) (auto intro!: wire_rules)

record Owner =
  own_endpoint :: Endpoint
  own_mode :: "u32 option"

definition Owner_wire :: "Owner wire" where
  [wire_defs]: "Owner_wire = wire_struct
     (\<lambda>x. (own_endpoint x, own_mode x))
     (\<lambda>(endpoint, mode).
       \<lparr>own_endpoint = endpoint, own_mode = mode\<rparr>)
     (pair_wire Endpoint_wire (option_wire u32_wire))"

lemma Owner_wire_total [wire_rules]: "wire_total Owner_wire"
  unfolding Owner_wire_def by (rule wire_total_struct) (auto intro!: wire_rules)

record FileDescriptorInfo =
  fdi_fd :: u32
  fdi_kind :: FdKind
  fdi_inode :: u64
  fdi_target :: rstring
  fdi_access :: FdAccess
  fdi_protocol :: "SocketProtocol option"
  fdi_state :: "SocketState option"
  fdi_connection_status :: "SocketConnectionStatus option"
  fdi_local :: "InetAddress option"
  fdi_remote :: "InetAddress option"
  fdi_path :: "rstring option"
  fdi_peer_inode :: "u64 option"
  fdi_peers :: "Endpoint list"
  fdi_holders :: "Endpoint list"
  fdi_note :: rstring
  fdi_key :: Key
  fdi_mode :: "u32 option"
  fdi_socket_device :: "u64 option"

definition FileDescriptorInfo_wire :: "FileDescriptorInfo wire" where
  [wire_defs]: "FileDescriptorInfo_wire = wire_struct
     (\<lambda>x. (fdi_fd x, fdi_kind x, fdi_inode x, fdi_target x, fdi_access x, fdi_protocol x,
        fdi_state x, fdi_connection_status x, fdi_local x, fdi_remote x, fdi_path x,
        fdi_peer_inode x, fdi_peers x, fdi_holders x, fdi_note x, fdi_key x, fdi_mode x,
        fdi_socket_device x))
     (\<lambda>(fd, kind, inode, target, access, protocol, state, connection_status, local, remote, path,
        peer_inode, peers, holders, note, key, mode, socket_device).
       \<lparr>fdi_fd = fd, fdi_kind = kind, fdi_inode = inode, fdi_target = target, fdi_access = access,
        fdi_protocol = protocol, fdi_state = state, fdi_connection_status = connection_status,
        fdi_local = local, fdi_remote = remote, fdi_path = path, fdi_peer_inode = peer_inode,
        fdi_peers = peers, fdi_holders = holders, fdi_note = note, fdi_key = key, fdi_mode = mode,
        fdi_socket_device = socket_device\<rparr>)
     (pair_wire u32_wire (pair_wire FdKind_wire (pair_wire u64_wire (pair_wire string_wire
      (pair_wire FdAccess_wire (pair_wire (option_wire SocketProtocol_wire) (pair_wire
      (option_wire SocketState_wire) (pair_wire (option_wire SocketConnectionStatus_wire)
      (pair_wire (option_wire InetAddress_wire) (pair_wire (option_wire InetAddress_wire)
      (pair_wire (option_wire string_wire) (pair_wire (option_wire u64_wire) (pair_wire (vec_wire
      Endpoint_wire) (pair_wire (vec_wire Endpoint_wire) (pair_wire string_wire (pair_wire
      Key_wire (pair_wire (option_wire u32_wire) (option_wire u64_wire))))))))))))))))))"

lemma FileDescriptorInfo_wire_total [wire_rules]: "wire_total FileDescriptorInfo_wire"
  unfolding FileDescriptorInfo_wire_def by (rule wire_total_struct) (auto intro!: wire_rules)

record FileDescriptors =
  fds_process_id :: ProcessId
  fds_captured_at :: u64
  fds_entries :: "FileDescriptorInfo list"
  fds_warnings :: "rstring list"
  fds_raw_fd_owners :: "(Key \<times> Owner list) list"
  fds_raw_peer_keys :: "(u32 \<times> Key list) list"

definition FileDescriptors_wire :: "FileDescriptors wire" where
  [wire_defs]: "FileDescriptors_wire = wire_struct
     (\<lambda>x. (fds_process_id x, fds_captured_at x, fds_entries x, fds_warnings x, fds_raw_fd_owners x,
        fds_raw_peer_keys x))
     (\<lambda>(process_id, captured_at, entries, warnings, raw_fd_owners, raw_peer_keys).
       \<lparr>fds_process_id = process_id, fds_captured_at = captured_at, fds_entries = entries,
        fds_warnings = warnings, fds_raw_fd_owners = raw_fd_owners,
        fds_raw_peer_keys = raw_peer_keys\<rparr>)
     (pair_wire ProcessId_wire (pair_wire u64_wire (pair_wire (vec_wire FileDescriptorInfo_wire)
      (pair_wire (vec_wire string_wire) (pair_wire (vec_wire (pair_wire Key_wire (vec_wire
      Owner_wire))) (vec_wire (pair_wire u32_wire (vec_wire Key_wire))))))))"

lemma FileDescriptors_wire_total [wire_rules]: "wire_total FileDescriptors_wire"
  unfolding FileDescriptors_wire_def by (rule wire_total_struct) (auto intro!: wire_rules)

end
