(* ===== verification/Ipc_Rdma.thy ===== *)
theory Ipc_Rdma
  imports Ipc_Identity
begin

text \<open>
  RDMA codes, addresses, ports and queue pairs of the IPC model (\<open>src/ipc/rdma.rs\<close>) and their codecs.
\<close>

datatype RdmaQpType =
    Smi | Gsi | Rc | Uc | Ud | RawIpv6 | RawEthertype | RawPacket | XrcIni | XrcTgt | Driver |
    Unknown u8

definition RdmaQpType_wire :: "RdmaQpType wire" where
  [wire_defs]: "RdmaQpType_wire = wire_enum
     [unit_arm 0 RdmaQpType.Smi, unit_arm 1 RdmaQpType.Gsi, unit_arm 2 RdmaQpType.Rc,
      unit_arm 3 RdmaQpType.Uc, unit_arm 4 RdmaQpType.Ud, unit_arm 5 RdmaQpType.RawIpv6,
      unit_arm 6 RdmaQpType.RawEthertype, unit_arm 7 RdmaQpType.RawPacket,
      unit_arm 8 RdmaQpType.XrcIni, unit_arm 9 RdmaQpType.XrcTgt, unit_arm 10 RdmaQpType.Driver,
      arm 11 RdmaQpType.Unknown
         (\<lambda>e. case e of RdmaQpType.Unknown value \<Rightarrow> Some value | _ \<Rightarrow> None)
         u8_wire]"

lemma RdmaQpType_wire_total [wire_rules]: "wire_total RdmaQpType_wire"
  unfolding RdmaQpType_wire_def
  by (rule wire_total_enum)
     (auto simp: arms_cover_def arm_total_unit intro!: arm_total_arm wire_rules split: RdmaQpType.splits)

datatype RdmaQpState =
    Reset | Init | Rtr | Rts | Sqd | Sqe | Err | Unknown u8

definition RdmaQpState_wire :: "RdmaQpState wire" where
  [wire_defs]: "RdmaQpState_wire = wire_enum
     [unit_arm 0 RdmaQpState.Reset, unit_arm 1 RdmaQpState.Init, unit_arm 2 RdmaQpState.Rtr,
      unit_arm 3 RdmaQpState.Rts, unit_arm 4 RdmaQpState.Sqd, unit_arm 5 RdmaQpState.Sqe,
      unit_arm 6 RdmaQpState.Err,
      arm 7 RdmaQpState.Unknown
         (\<lambda>e. case e of RdmaQpState.Unknown value \<Rightarrow> Some value | _ \<Rightarrow> None)
         u8_wire]"

lemma RdmaQpState_wire_total [wire_rules]: "wire_total RdmaQpState_wire"
  unfolding RdmaQpState_wire_def
  by (rule wire_total_enum)
     (auto simp: arms_cover_def arm_total_unit intro!: arm_total_arm wire_rules split: RdmaQpState.splits)

datatype RdmaCmState =
    Idle | AddrQuery | AddrResolved | RouteQuery | RouteResolved | Connect | Disconnect |
    AddrBound | Listen | DeviceRemoval | Destroying | Unknown u8

definition RdmaCmState_wire :: "RdmaCmState wire" where
  [wire_defs]: "RdmaCmState_wire = wire_enum
     [unit_arm 0 RdmaCmState.Idle, unit_arm 1 RdmaCmState.AddrQuery,
      unit_arm 2 RdmaCmState.AddrResolved, unit_arm 3 RdmaCmState.RouteQuery,
      unit_arm 4 RdmaCmState.RouteResolved, unit_arm 5 RdmaCmState.Connect,
      unit_arm 6 RdmaCmState.Disconnect, unit_arm 7 RdmaCmState.AddrBound,
      unit_arm 8 RdmaCmState.Listen, unit_arm 9 RdmaCmState.DeviceRemoval,
      unit_arm 10 RdmaCmState.Destroying,
      arm 11 RdmaCmState.Unknown
         (\<lambda>e. case e of RdmaCmState.Unknown value \<Rightarrow> Some value | _ \<Rightarrow> None)
         u8_wire]"

lemma RdmaCmState_wire_total [wire_rules]: "wire_total RdmaCmState_wire"
  unfolding RdmaCmState_wire_def
  by (rule wire_total_enum)
     (auto simp: arms_cover_def arm_total_unit intro!: arm_total_arm wire_rules split: RdmaCmState.splits)

datatype RdmaPortSpace =
    Ipoib | Tcp | Udp | Ib | Unknown u32

definition RdmaPortSpace_wire :: "RdmaPortSpace wire" where
  [wire_defs]: "RdmaPortSpace_wire = wire_enum
     [unit_arm 0 RdmaPortSpace.Ipoib, unit_arm 1 RdmaPortSpace.Tcp, unit_arm 2 RdmaPortSpace.Udp,
      unit_arm 3 RdmaPortSpace.Ib,
      arm 4 RdmaPortSpace.Unknown
         (\<lambda>e. case e of RdmaPortSpace.Unknown value \<Rightarrow> Some value | _ \<Rightarrow> None)
         u32_wire]"

lemma RdmaPortSpace_wire_total [wire_rules]: "wire_total RdmaPortSpace_wire"
  unfolding RdmaPortSpace_wire_def
  by (rule wire_total_enum)
     (auto simp: arms_cover_def arm_total_unit intro!: arm_total_arm wire_rules split: RdmaPortSpace.splits)

text \<open>A GID is a newtype around its sixteen octets.\<close>

datatype IbGid = IbGid (gid_bytes: "(u8, 16) rarray")

definition IbGid_wire :: "IbGid wire" where
  [wire_defs]: "IbGid_wire = wire_struct gid_bytes IbGid (array_wire u8_wire)"

lemma IbGid_wire_total [wire_rules]: "wire_total IbGid_wire"
  unfolding IbGid_wire_def by (rule wire_total_struct) (auto intro!: wire_rules)

datatype RdmaAddress =
    Inet IpAddr u16 | Ib IbGid u64 u16 | Unknown u16

definition RdmaAddress_wire :: "RdmaAddress wire" where
  [wire_defs]: "RdmaAddress_wire = wire_enum
     [arm 0 (\<lambda>(ip, port). RdmaAddress.Inet ip port)
         (\<lambda>e. case e of RdmaAddress.Inet ip port \<Rightarrow> Some (ip, port) | _ \<Rightarrow> None)
         (pair_wire ip_wire u16_wire),
      arm 1 (\<lambda>(gid, service_id, pkey). RdmaAddress.Ib gid service_id pkey)
         (\<lambda>e. case e of RdmaAddress.Ib gid service_id pkey \<Rightarrow> Some (gid, service_id, pkey) | _ \<Rightarrow> None)
         (pair_wire IbGid_wire (pair_wire u64_wire u16_wire)),
      arm 2 RdmaAddress.Unknown
         (\<lambda>e. case e of RdmaAddress.Unknown family \<Rightarrow> Some family | _ \<Rightarrow> None)
         u16_wire]"

lemma RdmaAddress_wire_total [wire_rules]: "wire_total RdmaAddress_wire"
  unfolding RdmaAddress_wire_def
  by (rule wire_total_enum)
     (auto simp: arms_cover_def arm_total_unit intro!: arm_total_arm wire_rules split: RdmaAddress.splits)

record RdmaPortInfo =
  port_device :: rstring
  port_port :: u32
  port_link_layer :: "rstring option"
  port_state :: "rstring option"
  port_lid :: "u32 option"
  port_gid :: "IbGid option"
  port_rate :: "rstring option"

definition RdmaPortInfo_wire :: "RdmaPortInfo wire" where
  [wire_defs]: "RdmaPortInfo_wire = wire_struct
     (\<lambda>x. (port_device x, port_port x, port_link_layer x, port_state x, port_lid x, port_gid x,
        port_rate x))
     (\<lambda>(device, port, link_layer, state, lid, gid, rate).
       \<lparr>port_device = device, port_port = port, port_link_layer = link_layer, port_state = state,
        port_lid = lid, port_gid = gid, port_rate = rate\<rparr>)
     (pair_wire string_wire (pair_wire u32_wire (pair_wire (option_wire string_wire) (pair_wire
      (option_wire string_wire) (pair_wire (option_wire u32_wire) (pair_wire (option_wire
      IbGid_wire) (option_wire string_wire)))))))"

lemma RdmaPortInfo_wire_total [wire_rules]: "wire_total RdmaPortInfo_wire"
  unfolding RdmaPortInfo_wire_def by (rule wire_total_struct) (auto intro!: wire_rules)

datatype RdmaEndpointOwner =
    Process ProcessId | Kernel rstring | Unknown "u32 option"

definition RdmaEndpointOwner_wire :: "RdmaEndpointOwner wire" where
  [wire_defs]: "RdmaEndpointOwner_wire = wire_enum
     [arm 0 RdmaEndpointOwner.Process
         (\<lambda>e. case e of RdmaEndpointOwner.Process process_id \<Rightarrow> Some process_id | _ \<Rightarrow> None)
         ProcessId_wire,
      arm 1 RdmaEndpointOwner.Kernel
         (\<lambda>e. case e of RdmaEndpointOwner.Kernel v_name \<Rightarrow> Some v_name | _ \<Rightarrow> None)
         string_wire,
      arm 2 RdmaEndpointOwner.Unknown
         (\<lambda>e. case e of RdmaEndpointOwner.Unknown pid \<Rightarrow> Some pid | _ \<Rightarrow> None)
         (option_wire u32_wire)]"

lemma RdmaEndpointOwner_wire_total [wire_rules]: "wire_total RdmaEndpointOwner_wire"
  unfolding RdmaEndpointOwner_wire_def
  by (rule wire_total_enum)
     (auto simp: arms_cover_def arm_total_unit intro!: arm_total_arm wire_rules split: RdmaEndpointOwner.splits)

record RdmaEndpoint =
  re_owner :: RdmaEndpointOwner
  re_device :: rstring
  re_port :: "u32 option"
  re_qpn :: u32
  re_qp_type :: RdmaQpType
  re_state :: RdmaQpState

definition RdmaEndpoint_wire :: "RdmaEndpoint wire" where
  [wire_defs]: "RdmaEndpoint_wire = wire_struct
     (\<lambda>x. (re_owner x, re_device x, re_port x, re_qpn x, re_qp_type x, re_state x))
     (\<lambda>(owner, device, port, qpn, qp_type, state).
       \<lparr>re_owner = owner, re_device = device, re_port = port, re_qpn = qpn, re_qp_type = qp_type,
        re_state = state\<rparr>)
     (pair_wire RdmaEndpointOwner_wire (pair_wire string_wire (pair_wire (option_wire u32_wire)
      (pair_wire u32_wire (pair_wire RdmaQpType_wire RdmaQpState_wire)))))"

lemma RdmaEndpoint_wire_total [wire_rules]: "wire_total RdmaEndpoint_wire"
  unfolding RdmaEndpoint_wire_def by (rule wire_total_struct) (auto intro!: wire_rules)

record RdmaCmInfo =
  cm_id :: "u32 option"
  cm_owner :: RdmaEndpointOwner
  cm_state :: RdmaCmState
  cm_port_space :: RdmaPortSpace
  cm_source :: "RdmaAddress option"
  cm_destination :: "RdmaAddress option"

definition RdmaCmInfo_wire :: "RdmaCmInfo wire" where
  [wire_defs]: "RdmaCmInfo_wire = wire_struct
     (\<lambda>x. (cm_id x, cm_owner x, cm_state x, cm_port_space x, cm_source x, cm_destination x))
     (\<lambda>(v_id, owner, state, port_space, source, destination).
       \<lparr>cm_id = v_id, cm_owner = owner, cm_state = state, cm_port_space = port_space,
        cm_source = source, cm_destination = destination\<rparr>)
     (pair_wire (option_wire u32_wire) (pair_wire RdmaEndpointOwner_wire (pair_wire
      RdmaCmState_wire (pair_wire RdmaPortSpace_wire (pair_wire (option_wire RdmaAddress_wire)
      (option_wire RdmaAddress_wire))))))"

lemma RdmaCmInfo_wire_total [wire_rules]: "wire_total RdmaCmInfo_wire"
  unfolding RdmaCmInfo_wire_def by (rule wire_total_struct) (auto intro!: wire_rules)

record RdmaRelation =
  rr_id :: rstring
  rr_endpoint :: RdmaEndpoint
  rr_peer :: "RdmaEndpoint option"
  rr_remote_qpn :: "u32 option"
  rr_cm :: "RdmaCmInfo option"
  rr_remote_gid :: "IbGid option"
  rr_remote_hostname :: "rstring option"
  rr_label :: rstring

definition RdmaRelation_wire :: "RdmaRelation wire" where
  [wire_defs]: "RdmaRelation_wire = wire_struct
     (\<lambda>x. (rr_id x, rr_endpoint x, rr_peer x, rr_remote_qpn x, rr_cm x, rr_remote_gid x,
        rr_remote_hostname x, rr_label x))
     (\<lambda>(v_id, endpoint, peer, remote_qpn, cm, remote_gid, remote_hostname, label).
       \<lparr>rr_id = v_id, rr_endpoint = endpoint, rr_peer = peer, rr_remote_qpn = remote_qpn,
        rr_cm = cm, rr_remote_gid = remote_gid, rr_remote_hostname = remote_hostname,
        rr_label = label\<rparr>)
     (pair_wire string_wire (pair_wire RdmaEndpoint_wire (pair_wire (option_wire
      RdmaEndpoint_wire) (pair_wire (option_wire u32_wire) (pair_wire (option_wire
      RdmaCmInfo_wire) (pair_wire (option_wire IbGid_wire) (pair_wire (option_wire string_wire)
      string_wire)))))))"

lemma RdmaRelation_wire_total [wire_rules]: "wire_total RdmaRelation_wire"
  unfolding RdmaRelation_wire_def by (rule wire_total_struct) (auto intro!: wire_rules)

end
