(* ===== verification/Ipc_Hardware.thy ===== *)
theory Ipc_Hardware
  imports Ipc_Identity
begin

text \<open>
  Hardware attributes of the IPC model (\<open>src/ipc/hardware.rs\<close>) and their codecs.
\<close>

record BarInfo =
  bar_index :: u32
  bar_bytes :: u64
  bar_prefetchable :: bool

definition BarInfo_wire :: "BarInfo wire" where
  [wire_defs]: "BarInfo_wire = wire_struct
     (\<lambda>x. (bar_index x, bar_bytes x, bar_prefetchable x))
     (\<lambda>(index, bytes, prefetchable).
       \<lparr>bar_index = index, bar_bytes = bytes, bar_prefetchable = prefetchable\<rparr>)
     (pair_wire u32_wire (pair_wire u64_wire bool_wire))"

lemma BarInfo_wire_total [wire_rules]: "wire_total BarInfo_wire"
  unfolding BarInfo_wire_def by (rule wire_total_struct) (auto intro!: wire_rules)

record PcieLink =
  link_speed_gts :: f64
  link_width :: u32

definition PcieLink_wire :: "PcieLink wire" where
  [wire_defs]: "PcieLink_wire = wire_struct
     (\<lambda>x. (link_speed_gts x, link_width x))
     (\<lambda>(speed_gts, width).
       \<lparr>link_speed_gts = speed_gts, link_width = width\<rparr>)
     (pair_wire f64_wire u32_wire)"

lemma PcieLink_wire_total [wire_rules]: "wire_total PcieLink_wire"
  unfolding PcieLink_wire_def by (rule wire_total_struct) (auto intro!: wire_rules)

record PcieLinkInfo =
  pli_current :: "PcieLink option"
  pli_max :: "PcieLink option"

definition PcieLinkInfo_wire :: "PcieLinkInfo wire" where
  [wire_defs]: "PcieLinkInfo_wire = wire_struct
     (\<lambda>x. (pli_current x, pli_max x))
     (\<lambda>(current, v_max).
       \<lparr>pli_current = current, pli_max = v_max\<rparr>)
     (pair_wire (option_wire PcieLink_wire) (option_wire PcieLink_wire))"

lemma PcieLinkInfo_wire_total [wire_rules]: "wire_total PcieLinkInfo_wire"
  unfolding PcieLinkInfo_wire_def by (rule wire_total_struct) (auto intro!: wire_rules)

datatype HardwareKind =
    Gpu | Rdma | Accelerator | NvSwitch

definition HardwareKind_wire :: "HardwareKind wire" where
  [wire_defs]: "HardwareKind_wire = wire_enum
     [unit_arm 0 HardwareKind.Gpu, unit_arm 1 HardwareKind.Rdma,
      unit_arm 2 HardwareKind.Accelerator, unit_arm 3 HardwareKind.NvSwitch]"

lemma HardwareKind_wire_total [wire_rules]: "wire_total HardwareKind_wire"
  unfolding HardwareKind_wire_def
  by (rule wire_total_enum)
     (auto simp: arms_cover_def arm_total_unit split: HardwareKind.splits, metis HardwareKind.exhaust)

datatype HardwareRole =
    HostBridge | RootPort | SwitchPort | Endpoint

definition HardwareRole_wire :: "HardwareRole wire" where
  [wire_defs]: "HardwareRole_wire = wire_enum
     [unit_arm 0 HardwareRole.HostBridge, unit_arm 1 HardwareRole.RootPort,
      unit_arm 2 HardwareRole.SwitchPort, unit_arm 3 HardwareRole.Endpoint]"

lemma HardwareRole_wire_total [wire_rules]: "wire_total HardwareRole_wire"
  unfolding HardwareRole_wire_def
  by (rule wire_total_enum)
     (auto simp: arms_cover_def arm_total_unit split: HardwareRole.splits, metis HardwareRole.exhaust)

record RdmaDeviceInfo =
  rdi_name :: rstring
  rdi_hca_type :: "rstring option"
  rdi_fw_ver :: "rstring option"

definition RdmaDeviceInfo_wire :: "RdmaDeviceInfo wire" where
  [wire_defs]: "RdmaDeviceInfo_wire = wire_struct
     (\<lambda>x. (rdi_name x, rdi_hca_type x, rdi_fw_ver x))
     (\<lambda>(v_name, hca_type, fw_ver).
       \<lparr>rdi_name = v_name, rdi_hca_type = hca_type, rdi_fw_ver = fw_ver\<rparr>)
     (pair_wire string_wire (pair_wire (option_wire string_wire) (option_wire string_wire)))"

lemma RdmaDeviceInfo_wire_total [wire_rules]: "wire_total RdmaDeviceInfo_wire"
  unfolding RdmaDeviceInfo_wire_def by (rule wire_total_struct) (auto intro!: wire_rules)

record GpuInfo =
  gpu_vendor :: rstring
  gpu_model :: "rstring option"
  gpu_uuid :: "rstring option"
  gpu_minor :: "u32 option"
  gpu_drm :: "rstring list"

definition GpuInfo_wire :: "GpuInfo wire" where
  [wire_defs]: "GpuInfo_wire = wire_struct
     (\<lambda>x. (gpu_vendor x, gpu_model x, gpu_uuid x, gpu_minor x, gpu_drm x))
     (\<lambda>(vendor, model, uuid, minor, drm).
       \<lparr>gpu_vendor = vendor, gpu_model = model, gpu_uuid = uuid, gpu_minor = minor, gpu_drm = drm\<rparr>)
     (pair_wire string_wire (pair_wire (option_wire string_wire) (pair_wire (option_wire
      string_wire) (pair_wire (option_wire u32_wire) (vec_wire string_wire)))))"

lemma GpuInfo_wire_total [wire_rules]: "wire_total GpuInfo_wire"
  unfolding GpuInfo_wire_def by (rule wire_total_struct) (auto intro!: wire_rules)

record HardwareDevice =
  hw_address :: rstring
  hw_parent :: "rstring option"
  hw_role :: HardwareRole
  hw_kind :: "HardwareKind option"
  hw_label :: rstring
  hw_class :: "rstring option"
  hw_vendor_id :: "rstring option"
  hw_device_id :: "rstring option"
  hw_driver :: "rstring option"
  hw_numa_node :: "u32 option"
  hw_link :: "PcieLinkInfo option"
  hw_power_state :: "rstring option"
  hw_runtime_status :: "rstring option"
  hw_iommu_group :: "u32 option"
  hw_bars :: "BarInfo list"
  hw_gpu :: "GpuInfo option"
  hw_rdma :: "RdmaDeviceInfo list"
  hw_netdevs :: "rstring list"

definition HardwareDevice_wire :: "HardwareDevice wire" where
  [wire_defs]: "HardwareDevice_wire = wire_struct
     (\<lambda>x. (hw_address x, hw_parent x, hw_role x, hw_kind x, hw_label x, hw_class x, hw_vendor_id x,
        hw_device_id x, hw_driver x, hw_numa_node x, hw_link x, hw_power_state x,
        hw_runtime_status x, hw_iommu_group x, hw_bars x, hw_gpu x, hw_rdma x, hw_netdevs x))
     (\<lambda>(address, parent, role, kind, label, v_class, vendor_id, device_id, driver, numa_node,
        link, power_state, runtime_status, iommu_group, bars, gpu, rdma, netdevs).
       \<lparr>hw_address = address, hw_parent = parent, hw_role = role, hw_kind = kind,
        hw_label = label, hw_class = v_class, hw_vendor_id = vendor_id, hw_device_id = device_id,
        hw_driver = driver, hw_numa_node = numa_node, hw_link = link,
        hw_power_state = power_state, hw_runtime_status = runtime_status,
        hw_iommu_group = iommu_group, hw_bars = bars, hw_gpu = gpu, hw_rdma = rdma,
        hw_netdevs = netdevs\<rparr>)
     (pair_wire string_wire (pair_wire (option_wire string_wire) (pair_wire HardwareRole_wire
      (pair_wire (option_wire HardwareKind_wire) (pair_wire string_wire (pair_wire (option_wire
      string_wire) (pair_wire (option_wire string_wire) (pair_wire (option_wire string_wire)
      (pair_wire (option_wire string_wire) (pair_wire (option_wire u32_wire) (pair_wire
      (option_wire PcieLinkInfo_wire) (pair_wire (option_wire string_wire) (pair_wire (option_wire
      string_wire) (pair_wire (option_wire u32_wire) (pair_wire (vec_wire BarInfo_wire) (pair_wire
      (option_wire GpuInfo_wire) (pair_wire (vec_wire RdmaDeviceInfo_wire) (vec_wire
      string_wire))))))))))))))))))"

lemma HardwareDevice_wire_total [wire_rules]: "wire_total HardwareDevice_wire"
  unfolding HardwareDevice_wire_def by (rule wire_total_struct) (auto intro!: wire_rules)

datatype DeviceHandleKind =
    Nvidia | DrmRender | DrmCard | Uverbs | Umad | Accel

definition DeviceHandleKind_wire :: "DeviceHandleKind wire" where
  [wire_defs]: "DeviceHandleKind_wire = wire_enum
     [unit_arm 0 DeviceHandleKind.Nvidia, unit_arm 1 DeviceHandleKind.DrmRender,
      unit_arm 2 DeviceHandleKind.DrmCard, unit_arm 3 DeviceHandleKind.Uverbs,
      unit_arm 4 DeviceHandleKind.Umad, unit_arm 5 DeviceHandleKind.Accel]"

lemma DeviceHandleKind_wire_total [wire_rules]: "wire_total DeviceHandleKind_wire"
  unfolding DeviceHandleKind_wire_def
  by (rule wire_total_enum)
     (auto simp: arms_cover_def arm_total_unit split: DeviceHandleKind.splits, metis DeviceHandleKind.exhaust)

record DeviceHandle =
  dh_id :: rstring
  dh_process_id :: ProcessId
  dh_device :: rstring
  dh_kind :: DeviceHandleKind
  dh_fd :: u32
  dh_fd_count :: usize

definition DeviceHandle_wire :: "DeviceHandle wire" where
  [wire_defs]: "DeviceHandle_wire = wire_struct
     (\<lambda>x. (dh_id x, dh_process_id x, dh_device x, dh_kind x, dh_fd x, dh_fd_count x))
     (\<lambda>(v_id, process_id, device, kind, fd, fd_count).
       \<lparr>dh_id = v_id, dh_process_id = process_id, dh_device = device, dh_kind = kind, dh_fd = fd,
        dh_fd_count = fd_count\<rparr>)
     (pair_wire string_wire (pair_wire ProcessId_wire (pair_wire string_wire (pair_wire
      DeviceHandleKind_wire (pair_wire u32_wire usize_wire)))))"

lemma DeviceHandle_wire_total [wire_rules]: "wire_total DeviceHandle_wire"
  unfolding DeviceHandle_wire_def by (rule wire_total_struct) (auto intro!: wire_rules)

datatype PathClass =
    Pix | Pxb | Phb | Node | Sys

definition PathClass_wire :: "PathClass wire" where
  [wire_defs]: "PathClass_wire = wire_enum
     [unit_arm 0 PathClass.Pix, unit_arm 1 PathClass.Pxb, unit_arm 2 PathClass.Phb,
      unit_arm 3 PathClass.Node, unit_arm 4 PathClass.Sys]"

lemma PathClass_wire_total [wire_rules]: "wire_total PathClass_wire"
  unfolding PathClass_wire_def
  by (rule wire_total_enum)
     (auto simp: arms_cover_def arm_total_unit split: PathClass.splits, metis PathClass.exhaust)

record HardwarePath =
  path_id :: rstring
  path_a :: rstring
  path_b :: rstring
  path_class :: PathClass
  path_via :: "rstring list"
  path_bottleneck :: "PcieLink option"

definition HardwarePath_wire :: "HardwarePath wire" where
  [wire_defs]: "HardwarePath_wire = wire_struct
     (\<lambda>x. (path_id x, path_a x, path_b x, path_class x, path_via x, path_bottleneck x))
     (\<lambda>(v_id, a, b, v_class, via, bottleneck).
       \<lparr>path_id = v_id, path_a = a, path_b = b, path_class = v_class, path_via = via,
        path_bottleneck = bottleneck\<rparr>)
     (pair_wire string_wire (pair_wire string_wire (pair_wire string_wire (pair_wire
      PathClass_wire (pair_wire (vec_wire string_wire) (option_wire PcieLink_wire))))))"

lemma HardwarePath_wire_total [wire_rules]: "wire_total HardwarePath_wire"
  unfolding HardwarePath_wire_def by (rule wire_total_struct) (auto intro!: wire_rules)

record HardwareFiles =
  hwf_truncated :: bool
  hwf_texts :: "(rstring \<times> rstring) list"
  hwf_directories :: "(rstring \<times> rstring list) list"
  hwf_links :: "(rstring \<times> rstring) list"

definition HardwareFiles_wire :: "HardwareFiles wire" where
  [wire_defs]: "HardwareFiles_wire = wire_struct
     (\<lambda>x. (hwf_truncated x, hwf_texts x, hwf_directories x, hwf_links x))
     (\<lambda>(truncated, texts, directories, links).
       \<lparr>hwf_truncated = truncated, hwf_texts = texts, hwf_directories = directories,
        hwf_links = links\<rparr>)
     (pair_wire bool_wire (pair_wire (vec_wire (pair_wire string_wire string_wire)) (pair_wire
      (vec_wire (pair_wire string_wire (vec_wire string_wire))) (vec_wire (pair_wire string_wire
      string_wire)))))"

lemma HardwareFiles_wire_total [wire_rules]: "wire_total HardwareFiles_wire"
  unfolding HardwareFiles_wire_def by (rule wire_total_struct) (auto intro!: wire_rules)

end
