(* ===== verification/Ipc_System.thy ===== *)
theory Ipc_System
  imports Ipc_Memory Ipc_Sockets Ipc_Rdma Ipc_Hardware
begin

text \<open>
  The captured system structure of the IPC model (\<open>src/ipc/model/system.rs\<close>) and its codecs.
\<close>

record ProcessSnapshot =
  psnap_identity :: ProcessId
  psnap_parent_id :: "ProcessId option"
  psnap_name :: rstring
  psnap_command_line :: "rstring list option"
  psnap_uid :: "u32 option"
  psnap_username :: "rstring option"
  psnap_euid :: "u32 option"
  psnap_effective_username :: "rstring option"
  psnap_maps :: "MemoryMap list"
  psnap_maps_epoch :: u64
  psnap_maps_error :: "rstring option"

definition ProcessSnapshot_wire :: "ProcessSnapshot wire" where
  [wire_defs]: "ProcessSnapshot_wire = wire_struct
     (\<lambda>x. (psnap_identity x, psnap_parent_id x, psnap_name x, psnap_command_line x, psnap_uid x,
        psnap_username x, psnap_euid x, psnap_effective_username x, psnap_maps x,
        psnap_maps_epoch x, psnap_maps_error x))
     (\<lambda>(identity, parent_id, v_name, command_line, uid, username, euid, effective_username, maps,
        maps_epoch, maps_error).
       \<lparr>psnap_identity = identity, psnap_parent_id = parent_id, psnap_name = v_name,
        psnap_command_line = command_line, psnap_uid = uid, psnap_username = username,
        psnap_euid = euid, psnap_effective_username = effective_username, psnap_maps = maps,
        psnap_maps_epoch = maps_epoch, psnap_maps_error = maps_error\<rparr>)
     (pair_wire ProcessId_wire (pair_wire (option_wire ProcessId_wire) (pair_wire string_wire
      (pair_wire (option_wire (vec_wire string_wire)) (pair_wire (option_wire u32_wire) (pair_wire
      (option_wire string_wire) (pair_wire (option_wire u32_wire) (pair_wire (option_wire
      string_wire) (pair_wire (vec_wire MemoryMap_wire) (pair_wire u64_wire (option_wire
      string_wire)))))))))))"

lemma ProcessSnapshot_wire_total [wire_rules]: "wire_total ProcessSnapshot_wire"
  unfolding ProcessSnapshot_wire_def by (rule wire_total_struct) (auto intro!: wire_rules)

record FdEndpoint =
  fde_process_id :: ProcessId
  fde_fd :: u32
  fde_fd_count :: usize
  fde_resource :: IpcIdentity
  fde_kind :: FdKind
  fde_access :: FdAccess
  fde_connection_status :: "SocketConnectionStatus option"

definition FdEndpoint_wire :: "FdEndpoint wire" where
  [wire_defs]: "FdEndpoint_wire = wire_struct
     (\<lambda>x. (fde_process_id x, fde_fd x, fde_fd_count x, fde_resource x, fde_kind x, fde_access x,
        fde_connection_status x))
     (\<lambda>(process_id, fd, fd_count, resource, kind, access, connection_status).
       \<lparr>fde_process_id = process_id, fde_fd = fd, fde_fd_count = fd_count,
        fde_resource = resource, fde_kind = kind, fde_access = access,
        fde_connection_status = connection_status\<rparr>)
     (pair_wire ProcessId_wire (pair_wire u32_wire (pair_wire usize_wire (pair_wire
      IpcIdentity_wire (pair_wire FdKind_wire (pair_wire FdAccess_wire (option_wire
      SocketConnectionStatus_wire)))))))"

lemma FdEndpoint_wire_total [wire_rules]: "wire_total FdEndpoint_wire"
  unfolding FdEndpoint_wire_def by (rule wire_total_struct) (auto intro!: wire_rules)

record SocketEndpoint =
  ske_protocol :: SocketProtocol
  ske_state :: "SocketState option"
  ske_local :: "InetAddress option"
  ske_remote :: "InetAddress option"
  ske_path :: "rstring option"
  ske_network_peer :: bool
  ske_remote_hostname :: "rstring option"
  ske_remote_gid :: "rstring option"

definition SocketEndpoint_wire :: "SocketEndpoint wire" where
  [wire_defs]: "SocketEndpoint_wire = wire_struct
     (\<lambda>x. (ske_protocol x, ske_state x, ske_local x, ske_remote x, ske_path x, ske_network_peer x,
        ske_remote_hostname x, ske_remote_gid x))
     (\<lambda>(protocol, state, local, remote, path, network_peer, remote_hostname, remote_gid).
       \<lparr>ske_protocol = protocol, ske_state = state, ske_local = local, ske_remote = remote,
        ske_path = path, ske_network_peer = network_peer, ske_remote_hostname = remote_hostname,
        ske_remote_gid = remote_gid\<rparr>)
     (pair_wire SocketProtocol_wire (pair_wire (option_wire SocketState_wire) (pair_wire
      (option_wire InetAddress_wire) (pair_wire (option_wire InetAddress_wire) (pair_wire
      (option_wire string_wire) (pair_wire bool_wire (pair_wire (option_wire string_wire)
      (option_wire string_wire))))))))"

lemma SocketEndpoint_wire_total [wire_rules]: "wire_total SocketEndpoint_wire"
  unfolding SocketEndpoint_wire_def by (rule wire_total_struct) (auto intro!: wire_rules)

record FdRelation =
  rel_id :: rstring
  rel_endpoint :: FdEndpoint
  rel_peer :: "FdEndpoint option"
  rel_label :: rstring
  rel_socket :: "SocketEndpoint option"
  rel_candidate :: bool
  rel_shared :: bool

definition FdRelation_wire :: "FdRelation wire" where
  [wire_defs]: "FdRelation_wire = wire_struct
     (\<lambda>x. (rel_id x, rel_endpoint x, rel_peer x, rel_label x, rel_socket x, rel_candidate x,
        rel_shared x))
     (\<lambda>(v_id, endpoint, peer, label, socket, candidate, shared).
       \<lparr>rel_id = v_id, rel_endpoint = endpoint, rel_peer = peer, rel_label = label,
        rel_socket = socket, rel_candidate = candidate, rel_shared = shared\<rparr>)
     (pair_wire string_wire (pair_wire FdEndpoint_wire (pair_wire (option_wire FdEndpoint_wire)
      (pair_wire string_wire (pair_wire (option_wire SocketEndpoint_wire) (pair_wire bool_wire
      bool_wire))))))"

lemma FdRelation_wire_total [wire_rules]: "wire_total FdRelation_wire"
  unfolding FdRelation_wire_def by (rule wire_total_struct) (auto intro!: wire_rules)

record NeighborSnapshot =
  nbr_entries :: "(IpAddr \<times> rstring) list"
  nbr_namespace :: "u64 \<times> u64"

definition NeighborSnapshot_wire :: "NeighborSnapshot wire" where
  [wire_defs]: "NeighborSnapshot_wire = wire_struct
     (\<lambda>x. (nbr_entries x, nbr_namespace x))
     (\<lambda>(entries, namespace).
       \<lparr>nbr_entries = entries, nbr_namespace = namespace\<rparr>)
     (pair_wire (vec_wire (pair_wire ip_wire string_wire)) (pair_wire u64_wire u64_wire))"

lemma NeighborSnapshot_wire_total [wire_rules]: "wire_total NeighborSnapshot_wire"
  unfolding NeighborSnapshot_wire_def by (rule wire_total_struct) (auto intro!: wire_rules)

record SystemSnapshot =
  sys_captured_at :: u64
  sys_processes :: "ProcessSnapshot list"
  sys_fd_relations :: "FdRelation list"
  sys_rdma_ports :: "RdmaPortInfo list"
  sys_rdma_relations :: "RdmaRelation list"
  sys_hardware_devices :: "HardwareDevice list"
  sys_hardware_paths :: "HardwarePath list"
  sys_device_handles :: "DeviceHandle list"
  sys_warnings :: "rstring list"
  sys_inspected_processes :: usize
  sys_inspected_fds :: usize
  sys_raw_owners :: "(IpcIdentity \<times> FdEndpoint list) list"
  sys_raw_sockets :: "(u64 \<times> SocketInfo) list"
  sys_raw_namespaces :: "(u64 \<times> u64 \<times> u64) list"
  sys_raw_connections :: "(IpcIdentity \<times> SocketConnectionStatus) list"
  sys_raw_device_handles :: "(ProcessId \<times> u32 \<times> u64) list"
  sys_raw_neighbors :: "NeighborSnapshot option"
  sys_raw_hardware :: HardwareFiles
  sys_raw_hostnames :: "(IpAddr \<times> rstring) list"

definition SystemSnapshot_wire :: "SystemSnapshot wire" where
  [wire_defs]: "SystemSnapshot_wire = wire_struct
     (\<lambda>x. (sys_captured_at x, sys_processes x, sys_fd_relations x, sys_rdma_ports x,
        sys_rdma_relations x, sys_hardware_devices x, sys_hardware_paths x, sys_device_handles x,
        sys_warnings x, sys_inspected_processes x, sys_inspected_fds x, sys_raw_owners x,
        sys_raw_sockets x, sys_raw_namespaces x, sys_raw_connections x, sys_raw_device_handles x,
        sys_raw_neighbors x, sys_raw_hardware x, sys_raw_hostnames x))
     (\<lambda>(captured_at, processes, fd_relations, rdma_ports, rdma_relations, hardware_devices,
        hardware_paths, device_handles, warnings, inspected_processes, inspected_fds, raw_owners,
        raw_sockets, raw_namespaces, raw_connections, raw_device_handles, raw_neighbors,
        raw_hardware, raw_hostnames).
       \<lparr>sys_captured_at = captured_at, sys_processes = processes, sys_fd_relations = fd_relations,
        sys_rdma_ports = rdma_ports, sys_rdma_relations = rdma_relations,
        sys_hardware_devices = hardware_devices, sys_hardware_paths = hardware_paths,
        sys_device_handles = device_handles, sys_warnings = warnings,
        sys_inspected_processes = inspected_processes, sys_inspected_fds = inspected_fds,
        sys_raw_owners = raw_owners, sys_raw_sockets = raw_sockets,
        sys_raw_namespaces = raw_namespaces, sys_raw_connections = raw_connections,
        sys_raw_device_handles = raw_device_handles, sys_raw_neighbors = raw_neighbors,
        sys_raw_hardware = raw_hardware, sys_raw_hostnames = raw_hostnames\<rparr>)
     (pair_wire u64_wire (pair_wire (vec_wire ProcessSnapshot_wire) (pair_wire (vec_wire
      FdRelation_wire) (pair_wire (vec_wire RdmaPortInfo_wire) (pair_wire (vec_wire
      RdmaRelation_wire) (pair_wire (vec_wire HardwareDevice_wire) (pair_wire (vec_wire
      HardwarePath_wire) (pair_wire (vec_wire DeviceHandle_wire) (pair_wire (vec_wire string_wire)
      (pair_wire usize_wire (pair_wire usize_wire (pair_wire (vec_wire (pair_wire IpcIdentity_wire
      (vec_wire FdEndpoint_wire))) (pair_wire (vec_wire (pair_wire u64_wire SocketInfo_wire))
      (pair_wire (vec_wire (pair_wire u64_wire (pair_wire u64_wire u64_wire))) (pair_wire
      (vec_wire (pair_wire IpcIdentity_wire SocketConnectionStatus_wire)) (pair_wire (vec_wire
      (pair_wire ProcessId_wire (pair_wire u32_wire u64_wire))) (pair_wire (option_wire
      NeighborSnapshot_wire) (pair_wire HardwareFiles_wire (vec_wire (pair_wire ip_wire
      string_wire))))))))))))))))))))"

lemma SystemSnapshot_wire_total [wire_rules]: "wire_total SystemSnapshot_wire"
  unfolding SystemSnapshot_wire_def by (rule wire_total_struct) (auto intro!: wire_rules)

end
