(* ===== verification/Ipc_Acquisition.thy ===== *)
theory Ipc_Acquisition
  imports Ipc_Registers Ipc_Process Ipc_Activity Ipc_System
begin

text \<open>
  Acquired process data (\<open>src/ipc/acquisition.rs\<close>) and its codecs. \<open>LiveSample\<close> and
  \<open>ProcessDetailSnapshot\<close> have hand-written codecs.
\<close>

record ProcessSummary =
  psum_identity :: ProcessId
  psum_parent_pid :: i32
  psum_name :: rstring
  psum_executable :: "rstring option"
  psum_command_line :: "rstring list option"
  psum_uid :: "u32 option"
  psum_username :: "rstring option"
  psum_euid :: "u32 option"
  psum_effective_username :: "rstring option"
  psum_state :: rstring
  psum_started_at :: "u64 option"
  psum_cpu_percent :: "f64 option"
  psum_rss_bytes :: u64
  psum_thread_count :: u32
  psum_raw_ticks :: u64
  psum_raw_measured_ns :: u64

definition ProcessSummary_wire :: "ProcessSummary wire" where
  [wire_defs]: "ProcessSummary_wire = wire_struct
     (\<lambda>x. (psum_identity x, psum_parent_pid x, psum_name x, psum_executable x, psum_command_line x,
        psum_uid x, psum_username x, psum_euid x, psum_effective_username x, psum_state x,
        psum_started_at x, psum_cpu_percent x, psum_rss_bytes x, psum_thread_count x,
        psum_raw_ticks x, psum_raw_measured_ns x))
     (\<lambda>(identity, parent_pid, v_name, executable, command_line, uid, username, euid,
        effective_username, state, started_at, cpu_percent, rss_bytes, thread_count, raw_ticks,
        raw_measured_ns).
       \<lparr>psum_identity = identity, psum_parent_pid = parent_pid, psum_name = v_name,
        psum_executable = executable, psum_command_line = command_line, psum_uid = uid,
        psum_username = username, psum_euid = euid, psum_effective_username = effective_username,
        psum_state = state, psum_started_at = started_at, psum_cpu_percent = cpu_percent,
        psum_rss_bytes = rss_bytes, psum_thread_count = thread_count, psum_raw_ticks = raw_ticks,
        psum_raw_measured_ns = raw_measured_ns\<rparr>)
     (pair_wire ProcessId_wire (pair_wire i32_wire (pair_wire string_wire (pair_wire (option_wire
      string_wire) (pair_wire (option_wire (vec_wire string_wire)) (pair_wire (option_wire
      u32_wire) (pair_wire (option_wire string_wire) (pair_wire (option_wire u32_wire) (pair_wire
      (option_wire string_wire) (pair_wire string_wire (pair_wire (option_wire u64_wire)
      (pair_wire (option_wire f64_wire) (pair_wire u64_wire (pair_wire u32_wire (pair_wire
      u64_wire u64_wire)))))))))))))))"

lemma ProcessSummary_wire_total [wire_rules]: "wire_total ProcessSummary_wire"
  unfolding ProcessSummary_wire_def by (rule wire_total_struct) (auto intro!: wire_rules)

record MemoryRollup =
  roll_rss_bytes :: "u64 option"
  roll_pss_bytes :: "u64 option"
  roll_private_bytes :: "u64 option"

definition MemoryRollup_wire :: "MemoryRollup wire" where
  [wire_defs]: "MemoryRollup_wire = wire_struct
     (\<lambda>x. (roll_rss_bytes x, roll_pss_bytes x, roll_private_bytes x))
     (\<lambda>(rss_bytes, pss_bytes, private_bytes).
       \<lparr>roll_rss_bytes = rss_bytes, roll_pss_bytes = pss_bytes, roll_private_bytes = private_bytes\<rparr>)
     (pair_wire (option_wire u64_wire) (pair_wire (option_wire u64_wire) (option_wire u64_wire)))"

lemma MemoryRollup_wire_total [wire_rules]: "wire_total MemoryRollup_wire"
  unfolding MemoryRollup_wire_def by (rule wire_total_struct) (auto intro!: wire_rules)

record MemoryMaps =
  mm_process_id :: ProcessId
  mm_maps :: "SmapsEntry list"
  mm_error :: "rstring option"
  mm_captured_at :: "u64 option"
  mm_rollup :: "MemoryRollup option"

definition MemoryMaps_wire :: "MemoryMaps wire" where
  [wire_defs]: "MemoryMaps_wire = wire_struct
     (\<lambda>x. (mm_process_id x, mm_maps x, mm_error x, mm_captured_at x, mm_rollup x))
     (\<lambda>(process_id, maps, error, captured_at, rollup).
       \<lparr>mm_process_id = process_id, mm_maps = maps, mm_error = error,
        mm_captured_at = captured_at, mm_rollup = rollup\<rparr>)
     (pair_wire ProcessId_wire (pair_wire (vec_wire SmapsEntry_wire) (pair_wire (option_wire
      string_wire) (pair_wire (option_wire u64_wire) (option_wire MemoryRollup_wire)))))"

lemma MemoryMaps_wire_total [wire_rules]: "wire_total MemoryMaps_wire"
  unfolding MemoryMaps_wire_def by (rule wire_total_struct) (auto intro!: wire_rules)

record InstructionBytes =
  ib_address :: u64
  ib_bytes :: "u8 list"
  ib_error :: "rstring option"

definition InstructionBytes_wire :: "InstructionBytes wire" where
  [wire_defs]: "InstructionBytes_wire = wire_struct
     (\<lambda>x. (ib_address x, ib_bytes x, ib_error x))
     (\<lambda>(address, bytes, error).
       \<lparr>ib_address = address, ib_bytes = bytes, ib_error = error\<rparr>)
     (pair_wire u64_wire (pair_wire (vec_wire u8_wire) (option_wire string_wire)))"

lemma InstructionBytes_wire_total [wire_rules]: "wire_total InstructionBytes_wire"
  unfolding InstructionBytes_wire_def by (rule wire_total_struct) (auto intro!: wire_rules)

record LiveSample =
  ls_tid :: i32
  ls_executable_header :: "(u8, 20) rarray option"
  ls_sampled_at :: "u64 option"
  ls_sample_time_ns :: "u64 option"
  ls_sample_age_ms :: "u64 option"
  ls_cpu :: "u32 option"
  ls_lost_samples :: u64
  ls_registers :: "Register list"
  ls_raw_registers :: "RegisterSet option"
  ls_stack_bytes :: "u8 list"
  ls_map_epoch :: "u64 option"
  ls_context :: "MappingSnapshot option"
  ls_call_stack :: "StackFrame list"
  ls_disassembly :: "InstructionBytes option"
  ls_unwind_stop :: rstring
  ls_error :: "rstring option"

definition LiveSample_wire :: "Arch \<Rightarrow> LiveSample wire" where
  [wire_defs]: "LiveSample_wire arch = wire_struct
     (\<lambda>x. ((ls_tid x, ls_executable_header x, ls_sampled_at x, ls_sample_time_ns x,
         ls_sample_age_ms x, ls_cpu x, ls_lost_samples x, ls_registers x),
        ls_raw_registers x,
        (ls_stack_bytes x, ls_map_epoch x, ls_call_stack x, ls_disassembly x, ls_unwind_stop x,
         ls_error x)))
     (\<lambda>((tid, executable_header, sampled_at, sample_time_ns, sample_age_ms, cpu, lost_samples,
         registers),
        raw_registers, (stack_bytes, map_epoch, call_stack, disassembly, unwind_stop, error)).
       \<lparr>ls_tid = tid, ls_executable_header = executable_header, ls_sampled_at = sampled_at,
        ls_sample_time_ns = sample_time_ns, ls_sample_age_ms = sample_age_ms, ls_cpu = cpu,
        ls_lost_samples = lost_samples, ls_registers = registers,
        ls_raw_registers = raw_registers, ls_stack_bytes = stack_bytes, ls_map_epoch = map_epoch,
        ls_context = None, ls_call_stack = call_stack, ls_disassembly = disassembly,
        ls_unwind_stop = unwind_stop, ls_error = error\<rparr>)
     (pair_wire
       (pair_wire i32_wire (pair_wire (option_wire (array_wire u8_wire)) (pair_wire (option_wire
        u64_wire) (pair_wire (option_wire u64_wire) (pair_wire (option_wire u64_wire) (pair_wire
        (option_wire u32_wire) (pair_wire u64_wire (vec_wire Register_wire))))))))
       (pair_wire (option_wire (RegisterSet_wire arch))
         (pair_wire (vec_wire u8_wire) (pair_wire (option_wire u64_wire) (pair_wire (vec_wire
          StackFrame_wire) (pair_wire (option_wire InstructionBytes_wire) (pair_wire string_wire
          (option_wire string_wire))))))))"

text \<open>The mapping context of a sample does not travel: it is absent after decoding.\<close>

definition LiveSample_ok :: "Arch \<Rightarrow> LiveSample \<Rightarrow> bool" where
  "LiveSample_ok arch s \<longleftrightarrow> ls_context s = None \<and> pred_option (validate arch) (ls_raw_registers s)"

lemma LiveSample_wire_ok: "wire_ok (LiveSample_wire arch) (LiveSample_ok arch)"
  unfolding LiveSample_wire_def
  by (rule wire_ok_cong,
      rule wire_ok_struct [where keep = "\<lambda>s. ls_context s = None"],
      rule wire_ok_pairL, (intro wire_rules)[1],
      rule wire_ok_pairR [OF wire_ok_option [OF wire_ok_payload [OF RegisterSet_wire_ok]]], (intro wire_rules)[1])
     (auto simp: LiveSample_ok_def)

text \<open>What a sample looks like after the trip: everything but its context.\<close>

lemma LiveSample_write_context:
  "write (LiveSample_wire arch) s out = write (LiveSample_wire arch) (s\<lparr>ls_context := None\<rparr>) out"
  by (simp add: LiveSample_wire_def wire_struct_def)

record ProcessDetailSnapshot =
  pds_summary :: ProcessSummary
  pds_exited :: bool
  pds_error :: "rstring option"
  pds_process_sample :: ProcessSample
  pds_maps :: "SmapsEntry list"
  pds_maps_error :: "rstring option"
  pds_maps_captured_at :: "u64 option"
  pds_rollup :: "MemoryRollup option"
  pds_live_samples :: "LiveSample list"
  pds_mapping_snapshots :: "MappingSnapshot list"
  pds_sampling_error :: "rstring option"

definition ProcessDetailSnapshot_wire :: "Arch \<Rightarrow> ProcessDetailSnapshot wire" where
  [wire_defs]: "ProcessDetailSnapshot_wire arch = wire_struct
     (\<lambda>x. ((pds_summary x, pds_exited x, pds_error x, pds_process_sample x, pds_maps x,
         pds_maps_error x, pds_maps_captured_at x, pds_rollup x),
        pds_live_samples x,
        (pds_mapping_snapshots x, pds_sampling_error x)))
     (\<lambda>((summary, exited, error, process_sample, maps, maps_error, maps_captured_at, rollup),
        live_samples, (mapping_snapshots, sampling_error)).
       \<lparr>pds_summary = summary, pds_exited = exited, pds_error = error,
        pds_process_sample = process_sample, pds_maps = maps, pds_maps_error = maps_error,
        pds_maps_captured_at = maps_captured_at, pds_rollup = rollup,
        pds_live_samples = live_samples, pds_mapping_snapshots = mapping_snapshots,
        pds_sampling_error = sampling_error\<rparr>)
     (pair_wire
       (pair_wire ProcessSummary_wire (pair_wire bool_wire (pair_wire (option_wire string_wire)
        (pair_wire ProcessSample_wire (pair_wire (vec_wire SmapsEntry_wire) (pair_wire
        (option_wire string_wire) (pair_wire (option_wire u64_wire) (option_wire
        MemoryRollup_wire))))))))
       (pair_wire (vec_wire (LiveSample_wire arch))
         (pair_wire (vec_wire MappingSnapshot_wire) (option_wire string_wire))))"

definition ProcessDetailSnapshot_ok :: "Arch \<Rightarrow> ProcessDetailSnapshot \<Rightarrow> bool" where
  "ProcessDetailSnapshot_ok arch p \<longleftrightarrow> list_all (LiveSample_ok arch) (pds_live_samples p)"

lemma ProcessDetailSnapshot_wire_ok: "wire_ok (ProcessDetailSnapshot_wire arch) (ProcessDetailSnapshot_ok arch)"
  unfolding ProcessDetailSnapshot_wire_def
  by (rule wire_ok_cong,
      rule wire_ok_struct [where keep = "\<lambda>_. True"],
      rule wire_ok_pairL, (intro wire_rules)[1],
      rule wire_ok_pairR [OF wire_ok_vec [OF LiveSample_wire_ok]], (intro wire_rules)[1])
     (auto simp: ProcessDetailSnapshot_ok_def)

datatype SensorState =
    Idle | Observing | Unavailable rstring | Error rstring

definition SensorState_wire :: "SensorState wire" where
  [wire_defs]: "SensorState_wire = wire_enum
     [unit_arm 0 SensorState.Idle, unit_arm 1 SensorState.Observing,
      arm 2 SensorState.Unavailable
         (\<lambda>e. case e of SensorState.Unavailable value \<Rightarrow> Some value | _ \<Rightarrow> None)
         string_wire,
      arm 3 SensorState.Error
         (\<lambda>e. case e of SensorState.Error value \<Rightarrow> Some value | _ \<Rightarrow> None)
         string_wire]"

lemma SensorState_wire_total [wire_rules]: "wire_total SensorState_wire"
  unfolding SensorState_wire_def
  by (rule wire_total_enum)
     (auto simp: arms_cover_def arm_total_unit intro!: arm_total_arm wire_rules split: SensorState.splits)

datatype SampleSource =
    CpuClock | Ptrace | ContextSwitch bool

definition SampleSource_wire :: "SampleSource wire" where
  [wire_defs]: "SampleSource_wire = wire_enum
     [unit_arm 0 SampleSource.CpuClock, unit_arm 1 SampleSource.Ptrace,
      arm 2 SampleSource.ContextSwitch
         (\<lambda>e. case e of SampleSource.ContextSwitch preempted \<Rightarrow> Some preempted | _ \<Rightarrow> None)
         bool_wire]"

lemma SampleSource_wire_total [wire_rules]: "wire_total SampleSource_wire"
  unfolding SampleSource_wire_def
  by (rule wire_total_enum)
     (auto simp: arms_cover_def arm_total_unit intro!: arm_total_arm wire_rules split: SampleSource.splits)

record SystemMonitorStatus =
  sms_active :: bool
  sms_ipc :: SensorState
  sms_cpu :: SensorState
  sms_files :: SensorState
  sms_signals :: SensorState
  sms_signals_lost :: "u64 option"
  sms_coverage :: "rstring option"
  sms_files_coverage :: "rstring option"
  sms_lost :: "u64 option"
  sms_unresolved :: "u64 option"
  sms_files_lost :: "u64 option"

definition SystemMonitorStatus_wire :: "SystemMonitorStatus wire" where
  [wire_defs]: "SystemMonitorStatus_wire = wire_struct
     (\<lambda>x. (sms_active x, sms_ipc x, sms_cpu x, sms_files x, sms_signals x, sms_signals_lost x,
        sms_coverage x, sms_files_coverage x, sms_lost x, sms_unresolved x, sms_files_lost x))
     (\<lambda>(active, ipc, cpu, files, signals, signals_lost, coverage, files_coverage, lost,
        unresolved, files_lost).
       \<lparr>sms_active = active, sms_ipc = ipc, sms_cpu = cpu, sms_files = files,
        sms_signals = signals, sms_signals_lost = signals_lost, sms_coverage = coverage,
        sms_files_coverage = files_coverage, sms_lost = lost, sms_unresolved = unresolved,
        sms_files_lost = files_lost\<rparr>)
     (pair_wire bool_wire (pair_wire SensorState_wire (pair_wire SensorState_wire (pair_wire
      SensorState_wire (pair_wire SensorState_wire (pair_wire (option_wire u64_wire) (pair_wire
      (option_wire string_wire) (pair_wire (option_wire string_wire) (pair_wire (option_wire
      u64_wire) (pair_wire (option_wire u64_wire) (option_wire u64_wire)))))))))))"

lemma SystemMonitorStatus_wire_total [wire_rules]: "wire_total SystemMonitorStatus_wire"
  unfolding SystemMonitorStatus_wire_def by (rule wire_total_struct) (auto intro!: wire_rules)

record SystemActivity =
  sa_captured_at :: u64
  sa_window_ms :: u64
  sa_files :: "FileActivity list"
  sa_ipc :: "IpcActivity list"
  sa_cpu :: "CpuActivity list"
  sa_signals :: "SignalEvent list"
  sa_status :: SystemMonitorStatus
  sa_raw_activity :: "RawActivity option"

definition SystemActivity_wire :: "SystemActivity wire" where
  [wire_defs]: "SystemActivity_wire = wire_struct
     (\<lambda>x. (sa_captured_at x, sa_window_ms x, sa_files x, sa_ipc x, sa_cpu x, sa_signals x,
        sa_status x, sa_raw_activity x))
     (\<lambda>(captured_at, window_ms, files, ipc, cpu, signals, status, raw_activity).
       \<lparr>sa_captured_at = captured_at, sa_window_ms = window_ms, sa_files = files, sa_ipc = ipc,
        sa_cpu = cpu, sa_signals = signals, sa_status = status, sa_raw_activity = raw_activity\<rparr>)
     (pair_wire u64_wire (pair_wire u64_wire (pair_wire (vec_wire FileActivity_wire) (pair_wire
      (vec_wire IpcActivity_wire) (pair_wire (vec_wire CpuActivity_wire) (pair_wire (vec_wire
      SignalEvent_wire) (pair_wire SystemMonitorStatus_wire (option_wire RawActivity_wire))))))))"

lemma SystemActivity_wire_total [wire_rules]: "wire_total SystemActivity_wire"
  unfolding SystemActivity_wire_def by (rule wire_total_struct) (auto intro!: wire_rules)

record ObservationData =
  od_process_sample :: ProcessSample
  od_threads_only :: bool

definition ObservationData_wire :: "ObservationData wire" where
  [wire_defs]: "ObservationData_wire = wire_struct
     (\<lambda>x. (od_process_sample x, od_threads_only x))
     (\<lambda>(process_sample, threads_only).
       \<lparr>od_process_sample = process_sample, od_threads_only = threads_only\<rparr>)
     (pair_wire ProcessSample_wire bool_wire)"

lemma ObservationData_wire_total [wire_rules]: "wire_total ObservationData_wire"
  unfolding ObservationData_wire_def by (rule wire_total_struct) (auto intro!: wire_rules)

record EnvironmentData =
  env_process_id :: ProcessId
  env_captured_at :: u64
  env_raw_environment :: "u8 list"

definition EnvironmentData_wire :: "EnvironmentData wire" where
  [wire_defs]: "EnvironmentData_wire = wire_struct
     (\<lambda>x. (env_process_id x, env_captured_at x, env_raw_environment x))
     (\<lambda>(process_id, captured_at, raw_environment).
       \<lparr>env_process_id = process_id, env_captured_at = captured_at,
        env_raw_environment = raw_environment\<rparr>)
     (pair_wire ProcessId_wire (pair_wire u64_wire (vec_wire u8_wire)))"

lemma EnvironmentData_wire_total [wire_rules]: "wire_total EnvironmentData_wire"
  unfolding EnvironmentData_wire_def by (rule wire_total_struct) (auto intro!: wire_rules)

record AuxData =
  aux_process_id :: ProcessId
  aux_captured_at :: u64
  aux_word_bits :: usize
  aux_raw_auxv :: "u8 list"
  aux_raw_aux_strings :: "(u64 \<times> rstring option \<times> rstring option) list"

definition AuxData_wire :: "AuxData wire" where
  [wire_defs]: "AuxData_wire = wire_struct
     (\<lambda>x. (aux_process_id x, aux_captured_at x, aux_word_bits x, aux_raw_auxv x,
        aux_raw_aux_strings x))
     (\<lambda>(process_id, captured_at, word_bits, raw_auxv, raw_aux_strings).
       \<lparr>aux_process_id = process_id, aux_captured_at = captured_at, aux_word_bits = word_bits,
        aux_raw_auxv = raw_auxv, aux_raw_aux_strings = raw_aux_strings\<rparr>)
     (pair_wire ProcessId_wire (pair_wire u64_wire (pair_wire usize_wire (pair_wire (vec_wire
      u8_wire) (vec_wire (pair_wire u64_wire (pair_wire (option_wire string_wire) (option_wire
      string_wire))))))))"

lemma AuxData_wire_total [wire_rules]: "wire_total AuxData_wire"
  unfolding AuxData_wire_def by (rule wire_total_struct) (auto intro!: wire_rules)

end
