(* ===== verification/Ipc_Elf.thy ===== *)
theory Ipc_Elf
  imports Ipc_Identity
begin

text \<open>
  Ranges of a mapped file (\<open>src/ipc/elf.rs\<close>) and their codecs.
\<close>

type_synonym ElfFileId = "u64 \<times> u64 \<times> u64 \<times> i64 \<times> i64"

abbreviation ElfFileId_wire :: "ElfFileId wire" where
  "ElfFileId_wire \<equiv> pair_wire u64_wire (pair_wire u64_wire (pair_wire u64_wire (pair_wire i64_wire i64_wire)))"

text \<open>The limits are \<open>u64\<close> constants compared with lengths and offsets; here they are numbers.\<close>

definition MAX_FILE_SIZE :: nat where
  "MAX_FILE_SIZE = 128 * 1024 * 1024"

definition MAX_READ_SIZE :: nat where
  "MAX_READ_SIZE = 64 * 1024 * 1024"

definition MAX_RANGES :: nat where
  "MAX_RANGES = 60"

record FileRange =
  frange_offset :: u64
  frange_length :: u64

definition FileRange_wire :: "FileRange wire" where
  [wire_defs]: "FileRange_wire = wire_struct
     (\<lambda>x. (frange_offset x, frange_length x))
     (\<lambda>(offset, length).
       \<lparr>frange_offset = offset, frange_length = length\<rparr>)
     (pair_wire u64_wire u64_wire)"

lemma FileRange_wire_total [wire_rules]: "wire_total FileRange_wire"
  unfolding FileRange_wire_def by (rule wire_total_struct) (auto intro!: wire_rules)

record FileChunk =
  chunk_offset :: u64
  chunk_bytes :: "u8 list"

text \<open>
  A chunk is written without a check and read with one: a chunk longer than \<open>MAX_READ_SIZE\<close> is
  sent and then refused by the receiver.
\<close>

definition FileChunk_wire :: "FileChunk wire" where
  [wire_defs]: "FileChunk_wire = \<lparr>
     write = (\<lambda>c out. and_then (write u64_wire (chunk_offset c) out) (write_blob (chunk_bytes c))),
     read = (\<lambda>d. and_then (read u64_wire d) (\<lambda>(offset, d).
       and_then (read_blob d) (\<lambda>(bytes, d).
       if length bytes \<le> MAX_READ_SIZE
       then Inr (\<lparr>chunk_offset = offset, chunk_bytes = bytes\<rparr>, d)
       else Inl FileReadExceedsLimit)))\<rparr>"

definition FileChunk_ok :: "FileChunk \<Rightarrow> bool" where
  "FileChunk_ok c \<longleftrightarrow> length (chunk_bytes c) \<le> MAX_READ_SIZE"

text \<open>The chunk without the check, as a plain struct of an offset and a blob.\<close>

definition blob_wire :: "byte list wire" where
  "blob_wire = \<lparr>write = write_blob, read = read_blob\<rparr>"

definition FileChunk_fields :: "FileChunk wire" where
  "FileChunk_fields = wire_struct (\<lambda>c. (chunk_offset c, chunk_bytes c))
     (\<lambda>(off, bs). \<lparr>chunk_offset = off, chunk_bytes = bs\<rparr>) (pair_wire u64_wire blob_wire)"

lemma wire_total_blob: "wire_total blob_wire"
proof (rule wire_okI)
  show "framed blob_wire (\<lambda>_. True) (\<lambda>bs. length_bytes (length bs) @ bs)"
    by (rule framedI) (auto simp: blob_wire_def write_blob_wf read_blob_bytes dest: read_blob_only)
qed simp

lemma FileChunk_fields_total: "wire_total FileChunk_fields"
  unfolding FileChunk_fields_def by (rule wire_total_struct) (auto intro!: wire_rules wire_total_blob)

lemma FileChunk_wire_fields:
  "write FileChunk_wire c out = write FileChunk_fields c out"
  "read FileChunk_wire d = and_then (read FileChunk_fields d)
     (\<lambda>(c, d). if FileChunk_ok c then Inr (c, d) else Inl FileReadExceedsLimit)"
  by (auto simp: FileChunk_wire_def FileChunk_fields_def wire_struct_def pair_wire_def blob_wire_def
      FileChunk_ok_def and_then_def split: sum.splits prod.splits)

lemma FileChunk_wire_ok: "wire_ok FileChunk_wire FileChunk_ok"
proof -
  have "wire_ok FileChunk_wire (\<lambda>c. True \<and> FileChunk_ok c)"
    by (rule wire_ok_validated [OF FileChunk_fields_total FileChunk_wire_fields])
  then show ?thesis by (rule wire_ok_cong) simp
qed

record MappedFileData =
  mfd_identity :: ElfFileId
  mfd_chunks :: "FileChunk list"

definition MappedFileData_wire :: "MappedFileData wire" where
  [wire_defs]: "MappedFileData_wire = wire_struct
     (\<lambda>x. (mfd_identity x, mfd_chunks x))
     (\<lambda>(identity, chunks).
       \<lparr>mfd_identity = identity, mfd_chunks = chunks\<rparr>)
     (pair_wire ElfFileId_wire (vec_wire FileChunk_wire))"

definition MappedFileData_ok :: "MappedFileData \<Rightarrow> bool" where
  "MappedFileData_ok f \<longleftrightarrow> list_all FileChunk_ok (mfd_chunks f)"

lemma MappedFileData_wire_ok: "wire_ok MappedFileData_wire MappedFileData_ok"
proof -
  have "wire_ok (pair_wire ElfFileId_wire (vec_wire FileChunk_wire)) (\<lambda>(identity, chunks). list_all FileChunk_ok chunks)"
    by (intro wire_ok_pairL wire_ok_vec FileChunk_wire_ok wire_rules)
  then have "wire_ok MappedFileData_wire
      (\<lambda>f. True \<and> (case (mfd_identity f, mfd_chunks f) of (identity, chunks) \<Rightarrow> list_all FileChunk_ok chunks))"
    unfolding MappedFileData_wire_def by (rule wire_ok_struct) auto
  then show ?thesis by (rule wire_ok_cong) (simp add: MappedFileData_ok_def)
qed

end
