(* ===== verification/Ipc_Schema.thy ===== *)
theory Ipc_Schema
  imports Ipc_Acquisition Ipc_Elf
begin

text \<open>
  The closed set of monitor operations and replies (\<open>src/ipc/schema.rs\<close>) and their codecs. The
  codec contract is interpreted here for the three messages that cross the connection: the
  helper's identity, a request and a response.
\<close>

section \<open>Limits\<close>

definition MAX_REQUEST :: nat where
  "MAX_REQUEST = 1024"

definition MAX_RESPONSE :: nat where
  "MAX_RESPONSE = 1024 * 1024 * 1024"

text \<open>Durations in milliseconds.\<close>

definition TIMEOUT :: nat where
  "TIMEOUT = 30 * 1000"

definition SESSION_LEASE :: nat where
  "SESSION_LEASE = 15 * 1000"

section \<open>Requests\<close>

datatype ProcessResource =
    Observation | Threads | Maps | Environment | Auxv | Fds

definition ProcessResource_wire :: "ProcessResource wire" where
  [wire_defs]: "ProcessResource_wire = wire_enum
     [unit_arm 0 ProcessResource.Observation, unit_arm 1 ProcessResource.Threads,
      unit_arm 2 ProcessResource.Maps, unit_arm 3 ProcessResource.Environment,
      unit_arm 4 ProcessResource.Auxv, unit_arm 5 ProcessResource.Fds]"

lemma ProcessResource_wire_total [wire_rules]: "wire_total ProcessResource_wire"
  unfolding ProcessResource_wire_def
  by (rule wire_total_enum)
     (auto simp: arms_cover_def arm_total_unit split: ProcessResource.splits, metis ProcessResource.exhaust)

datatype MonitorRequest =
    Processes | Process ProcessId ProcessResource | MappedElf ProcessId u64 "FileRange list" |
    ObserveProcess ProcessId | ObserveSystem | Poll u64 | Close u64

definition MonitorRequest_wire :: "MonitorRequest wire" where
  [wire_defs]: "MonitorRequest_wire = wire_enum
     [unit_arm 0 MonitorRequest.Processes,
      arm 1 (\<lambda>(v_id, resource). MonitorRequest.Process v_id resource)
         (\<lambda>e. case e of MonitorRequest.Process v_id resource \<Rightarrow> Some (v_id, resource) | _ \<Rightarrow> None)
         (pair_wire ProcessId_wire ProcessResource_wire),
      arm 2 (\<lambda>(v_id, mapping_start, ranges). MonitorRequest.MappedElf v_id mapping_start ranges)
         (\<lambda>e. case e of MonitorRequest.MappedElf v_id mapping_start ranges \<Rightarrow> Some (v_id, mapping_start, ranges) | _ \<Rightarrow> None)
         (pair_wire ProcessId_wire (pair_wire u64_wire (vec_wire FileRange_wire))),
      arm 3 MonitorRequest.ObserveProcess
         (\<lambda>e. case e of MonitorRequest.ObserveProcess v_id \<Rightarrow> Some v_id | _ \<Rightarrow> None)
         ProcessId_wire,
      unit_arm 4 MonitorRequest.ObserveSystem,
      arm 5 MonitorRequest.Poll
         (\<lambda>e. case e of MonitorRequest.Poll session \<Rightarrow> Some session | _ \<Rightarrow> None)
         u64_wire,
      arm 6 MonitorRequest.Close
         (\<lambda>e. case e of MonitorRequest.Close session \<Rightarrow> Some session | _ \<Rightarrow> None)
         u64_wire]"

lemma MonitorRequest_wire_total [wire_rules]: "wire_total MonitorRequest_wire"
  unfolding MonitorRequest_wire_def
  by (rule wire_total_enum)
     (auto simp: arms_cover_def arm_total_unit intro!: arm_total_arm wire_rules split: MonitorRequest.splits)

section \<open>Replies\<close>

datatype AcquiredData =
    Processes "ProcessSummary list" | Observation ObservationData | Maps MemoryMaps |
    Environment EnvironmentData | Auxv AuxData | Fds FileDescriptors

definition AcquiredData_wire :: "AcquiredData wire" where
  [wire_defs]: "AcquiredData_wire = wire_enum
     [arm 0 AcquiredData.Processes
         (\<lambda>e. case e of AcquiredData.Processes value \<Rightarrow> Some value | _ \<Rightarrow> None)
         (vec_wire ProcessSummary_wire),
      arm 1 AcquiredData.Observation
         (\<lambda>e. case e of AcquiredData.Observation value \<Rightarrow> Some value | _ \<Rightarrow> None)
         ObservationData_wire,
      arm 2 AcquiredData.Maps
         (\<lambda>e. case e of AcquiredData.Maps value \<Rightarrow> Some value | _ \<Rightarrow> None)
         MemoryMaps_wire,
      arm 3 AcquiredData.Environment
         (\<lambda>e. case e of AcquiredData.Environment value \<Rightarrow> Some value | _ \<Rightarrow> None)
         EnvironmentData_wire,
      arm 4 AcquiredData.Auxv
         (\<lambda>e. case e of AcquiredData.Auxv value \<Rightarrow> Some value | _ \<Rightarrow> None)
         AuxData_wire,
      arm 5 AcquiredData.Fds
         (\<lambda>e. case e of AcquiredData.Fds value \<Rightarrow> Some value | _ \<Rightarrow> None)
         FileDescriptors_wire]"

lemma AcquiredData_wire_total [wire_rules]: "wire_total AcquiredData_wire"
  unfolding AcquiredData_wire_def
  by (rule wire_total_enum)
     (auto simp: arms_cover_def arm_total_unit intro!: arm_total_arm wire_rules split: AcquiredData.splits)

datatype MonitorEvent =
    Observation ProcessDetailSnapshot | AcquiredSnapshot SystemSnapshot |
    AcquisitionGap u64 SystemSnapshot | Activity SystemActivity

definition MonitorEvent_wire :: "Arch \<Rightarrow> MonitorEvent wire" where
  [wire_defs]: "MonitorEvent_wire arch = wire_enum
     [arm 0 MonitorEvent.Observation
         (\<lambda>e. case e of MonitorEvent.Observation value \<Rightarrow> Some value | _ \<Rightarrow> None)
         (arc_wire (ProcessDetailSnapshot_wire arch)),
      arm 1 MonitorEvent.AcquiredSnapshot
         (\<lambda>e. case e of MonitorEvent.AcquiredSnapshot value \<Rightarrow> Some value | _ \<Rightarrow> None)
         (arc_wire SystemSnapshot_wire),
      arm 2 (\<lambda>(dropped, snapshot). MonitorEvent.AcquisitionGap dropped snapshot)
         (\<lambda>e. case e of MonitorEvent.AcquisitionGap dropped snapshot \<Rightarrow> Some (dropped, snapshot) | _ \<Rightarrow> None)
         (pair_wire u64_wire (arc_wire SystemSnapshot_wire)),
      arm 3 MonitorEvent.Activity
         (\<lambda>e. case e of MonitorEvent.Activity value \<Rightarrow> Some value | _ \<Rightarrow> None)
         (arc_wire SystemActivity_wire)]"

fun MonitorEvent_ok :: "Arch \<Rightarrow> MonitorEvent \<Rightarrow> bool" where
  "MonitorEvent_ok arch (MonitorEvent.Observation p) = ProcessDetailSnapshot_ok arch p"
| "MonitorEvent_ok arch e = True"

lemma MonitorEvent_wire_ok: "wire_ok (MonitorEvent_wire arch) (MonitorEvent_ok arch)"
proof -
  note observation = arm_ok_arm [OF wire_ok_payload [OF wire_ok_arc [OF ProcessDetailSnapshot_wire_ok]]]
  note other = arm_ok_arm [OF wire_ok_payload [where ok = "\<lambda>_. True"]]
  show ?thesis
    unfolding MonitorEvent_wire_def
    by (rule wire_ok_enum)
       (auto simp: arms_cover_def intro!: observation other wire_rules
         split: MonitorEvent.splits)
qed

datatype MonitorResponse =
    Data AcquiredData | Elf "MappedFileData option" | Started u64 MonitorEvent |
    Event "MonitorEvent option" bool | Closed

definition MonitorResponse_wire :: "Arch \<Rightarrow> MonitorResponse wire" where
  [wire_defs]: "MonitorResponse_wire arch = wire_enum
     [arm 0 MonitorResponse.Data
         (\<lambda>e. case e of MonitorResponse.Data value \<Rightarrow> Some value | _ \<Rightarrow> None)
         AcquiredData_wire,
      arm 1 MonitorResponse.Elf
         (\<lambda>e. case e of MonitorResponse.Elf value \<Rightarrow> Some value | _ \<Rightarrow> None)
         (option_wire MappedFileData_wire),
      arm 3 (\<lambda>(session, initial). MonitorResponse.Started session initial)
         (\<lambda>e. case e of MonitorResponse.Started session initial \<Rightarrow> Some (session, initial) | _ \<Rightarrow> None)
         (pair_wire u64_wire (MonitorEvent_wire arch)),
      arm 4 (\<lambda>(event, closed). MonitorResponse.Event event closed)
         (\<lambda>e. case e of MonitorResponse.Event event closed \<Rightarrow> Some (event, closed) | _ \<Rightarrow> None)
         (pair_wire (option_wire (MonitorEvent_wire arch)) bool_wire),
      unit_arm 5 MonitorResponse.Closed]"

fun MonitorResponse_ok :: "Arch \<Rightarrow> MonitorResponse \<Rightarrow> bool" where
  "MonitorResponse_ok arch (MonitorResponse.Elf f) = pred_option MappedFileData_ok f"
| "MonitorResponse_ok arch (MonitorResponse.Started session initial) = MonitorEvent_ok arch initial"
| "MonitorResponse_ok arch (MonitorResponse.Event event closed) = pred_option (MonitorEvent_ok arch) event"
| "MonitorResponse_ok arch r = True"

lemma MonitorResponse_wire_ok: "wire_ok (MonitorResponse_wire arch) (MonitorResponse_ok arch)"
proof -
  note data = arm_ok_arm [OF wire_ok_payload [OF AcquiredData_wire_total]]
  note elf = arm_ok_arm [OF wire_ok_payload [OF wire_ok_option [OF wire_ok_payload [OF MappedFileData_wire_ok]]]]
  note started = arm_ok_arm [OF wire_ok_payload [OF wire_ok_pairL [OF _ MonitorEvent_wire_ok]]]
  note event = arm_ok_arm [OF wire_ok_payload [OF wire_ok_pairR [OF wire_ok_option [OF wire_ok_payload [OF MonitorEvent_wire_ok]]]]]
  show ?thesis
    unfolding MonitorResponse_wire_def
    by (rule wire_ok_enum)
       (auto simp: arms_cover_def intro!: data elf started event arm_ok_unit wire_rules
         split: MonitorResponse.splits)
qed

type_synonym WireResponse = "rstring + MonitorResponse"

definition WireResponse_wire :: "Arch \<Rightarrow> WireResponse wire" where
  [wire_defs]: "WireResponse_wire arch = result_wire (MonitorResponse_wire arch) string_wire"

definition WireResponse_ok :: "Arch \<Rightarrow> WireResponse \<Rightarrow> bool" where
  "WireResponse_ok arch = case_sum (\<lambda>_. True) (MonitorResponse_ok arch)"

lemma WireResponse_wire_ok: "wire_ok (WireResponse_wire arch) (WireResponse_ok arch)"
  unfolding WireResponse_wire_def WireResponse_ok_def
  by (intro wire_ok_result wire_ok_payload MonitorResponse_wire_ok wire_rules)

section \<open>The contract, for the messages\<close>

interpretation helper_identity: wire_codec HelperIdentity_wire "\<lambda>_. True"
  by (rule wire_ok_codec) (rule wire_rules)

interpretation monitor_request: wire_codec MonitorRequest_wire "\<lambda>_. True"
  by (rule wire_ok_codec) (rule wire_rules)

interpretation wire_response: wire_codec "WireResponse_wire arch" "WireResponse_ok arch" for arch
  by (rule wire_ok_codec) (rule WireResponse_wire_ok)

end
