(* ===== verification/Transport.thy ===== *)
theory Transport
  imports Ipc_Schema
begin

text \<open>
  Framing over the private Unix stream (\<open>src/ipc/transport.rs\<close>). What the kernel answers to each
  system call is a parameter: a list of attempts, each with the time at which it is made and its
  outcome. One attempt is consumed per iteration of the loops \<open>read_until\<close> and
  \<open>write_until\<close>; a loop that has used up the list has not returned yet (\<open>None\<close>). Time is in
  milliseconds.
\<close>

section \<open>Attempts\<close>

datatype io_error = UnexpectedEof | WriteZero | TimedOut | OtherIo nat

datatype outcome =
    Transferred nat   \<comment> \<open>\<open>Ok(n)\<close>\<close>
  | Interrupted       \<comment> \<open>\<open>Err\<close> of kind \<open>Interrupted\<close>\<close>
  | Failed nat        \<comment> \<open>any other \<open>Err\<close>\<close>

record attempt =
  at_time :: nat
  result :: outcome

datatype transport_error =
    Io io_error
  | InvalidFrameLength nat
  | Codec codec_error

text \<open>\<open>remaining_io_timeout\<close>: the deadline has to lie strictly in the future.\<close>

definition remaining_io_timeout :: "nat \<Rightarrow> nat \<Rightarrow> io_error + nat" where
  "remaining_io_timeout deadline now = (if now < deadline then Inr (deadline - now) else Inl TimedOut)"

text \<open>
  \<open>read_until\<close>: \<open>stream\<close> holds the bytes that are in flight, \<open>n\<close> is the number of bytes of the
  buffer still to be filled. A call transfers at most what is asked for and what is there. The
  result carries the bytes read, the stream and the attempts left over.
\<close>

fun read_until ::
  "nat \<Rightarrow> nat \<Rightarrow> byte list \<Rightarrow> attempt list \<Rightarrow> (io_error + byte list \<times> byte list \<times> attempt list) option"
where
  "read_until deadline 0 stream as = Some (Inr ([], stream, as))"
| "read_until deadline (Suc n) stream [] = None"
| "read_until deadline (Suc n) stream (a # as) =
     (case remaining_io_timeout deadline (at_time a) of
        Inl e \<Rightarrow> Some (Inl e)
      | Inr _ \<Rightarrow> (case result a of
          Transferred k \<Rightarrow>
            (let k = min k (min (Suc n) (length stream)) in
             if k = 0 then Some (Inl UnexpectedEof)
             else (case read_until deadline (Suc n - k) (drop k stream) as of
                 Some (Inr (bs, stream', as')) \<Rightarrow> Some (Inr (take k stream @ bs, stream', as'))
               | r \<Rightarrow> r))
        | Interrupted \<Rightarrow> read_until deadline (Suc n) stream as
        | Failed c \<Rightarrow> Some (Inl (OtherIo c))))"

text \<open>\<open>write_until\<close>: the bytes still to be written are appended to the stream.\<close>

fun write_until ::
  "nat \<Rightarrow> byte list \<Rightarrow> byte list \<Rightarrow> attempt list \<Rightarrow> (io_error + byte list \<times> attempt list) option"
where
  "write_until deadline [] stream as = Some (Inr (stream, as))"
| "write_until deadline (b # bs) stream [] = None"
| "write_until deadline (b # bs) stream (a # as) =
     (case remaining_io_timeout deadline (at_time a) of
        Inl e \<Rightarrow> Some (Inl e)
      | Inr _ \<Rightarrow> (case result a of
          Transferred k \<Rightarrow>
            (let k = min k (length (b # bs)) in
             if k = 0 then Some (Inl WriteZero)
             else write_until deadline (drop k (b # bs)) (stream @ take k (b # bs)) as)
        | Interrupted \<Rightarrow> write_until deadline (b # bs) stream as
        | Failed c \<Rightarrow> Some (Inl (OtherIo c))))"

section \<open>Frames\<close>

text \<open>\<open>send\<close>; \<open>now\<close> is the time at which the deadline is taken.\<close>

definition send ::
  "'a wire \<Rightarrow> 'a \<Rightarrow> nat \<Rightarrow> nat \<Rightarrow> byte list \<Rightarrow> attempt list \<Rightarrow> (transport_error + byte list \<times> attempt list) option"
where
  "send w x limit now stream as =
     (case encode w x limit of
        Inl e \<Rightarrow> Some (Inl (Codec e))
      | Inr bs \<Rightarrow>
        (let deadline = now + TIMEOUT in
         case write_until deadline (length_bytes (length bs)) stream as of
           None \<Rightarrow> None
         | Some (Inl e) \<Rightarrow> Some (Inl (Io e))
         | Some (Inr (stream, as)) \<Rightarrow>
           (case write_until deadline bs stream as of
              None \<Rightarrow> None
            | Some (Inl e) \<Rightarrow> Some (Inl (Io e))
            | Some (Inr r) \<Rightarrow> Some (Inr r))))"

definition read_timeout ::
  "'a wire \<Rightarrow> nat \<Rightarrow> nat \<Rightarrow> nat \<Rightarrow> byte list \<Rightarrow> attempt list
   \<Rightarrow> (transport_error + 'a \<times> byte list \<times> attempt list) option"
where
  "read_timeout w limit timeout now stream as =
     (let deadline = now + timeout in
      case read_until deadline 4 stream as of
        None \<Rightarrow> None
      | Some (Inl e) \<Rightarrow> Some (Inl (Io e))
      | Some (Inr (header, stream, as)) \<Rightarrow>
        (let size = unat (from_ne_bytes header :: u32) in
         if 0 < size \<and> size \<le> limit then
           (case read_until deadline size stream as of
              None \<Rightarrow> None
            | Some (Inl e) \<Rightarrow> Some (Inl (Io e))
            | Some (Inr (bs, stream, as)) \<Rightarrow>
              (case decode w bs of
                 Inl e \<Rightarrow> Some (Inl (Codec e))
               | Inr x \<Rightarrow> Some (Inr (x, stream, as))))
         else Some (Inl (InvalidFrameLength size))))"

definition read_message ::
  "'a wire \<Rightarrow> nat \<Rightarrow> nat \<Rightarrow> byte list \<Rightarrow> attempt list
   \<Rightarrow> (transport_error + 'a \<times> byte list \<times> attempt list) option"
where
  "read_message w limit now stream as = read_timeout w limit TIMEOUT now stream as"

section \<open>Loops\<close>

text \<open>
  A schedule makes progress when every attempt happens before the deadline, no call fails, and
  every call that is not interrupted transfers something.
\<close>

definition timely :: "nat \<Rightarrow> attempt list \<Rightarrow> bool" where
  "timely deadline as \<longleftrightarrow>
     list_all (\<lambda>a. at_time a < deadline \<and>
       (case result a of Transferred k \<Rightarrow> 0 < k | Interrupted \<Rightarrow> True | Failed _ \<Rightarrow> False)) as"

text \<open>The calls of a schedule that transfer something.\<close>

definition transfers :: "attempt list \<Rightarrow> nat" where
  "transfers as = length (filter (\<lambda>a. result a \<noteq> Interrupted) as)"

lemma timely_simps [simp]:
  "timely deadline []"
  "timely deadline (a # as) \<longleftrightarrow> at_time a < deadline \<and>
     (case result a of Transferred k \<Rightarrow> 0 < k | Interrupted \<Rightarrow> True | Failed _ \<Rightarrow> False) \<and> timely deadline as"
  by (simp_all add: timely_def)

lemma transfers_simps [simp]:
  "transfers [] = 0"
  "transfers (a # as) = (if result a = Interrupted then 0 else 1) + transfers as"
  by (simp_all add: transfers_def)

text \<open>What \<open>read_until\<close> returns is a prefix of the stream of the requested length.\<close>

lemma read_until_prefix:
  "read_until deadline n stream as = Some (Inr (bs, stream', as'))
   \<Longrightarrow> stream = bs @ stream' \<and> length bs = n"
proof (induction deadline n stream as arbitrary: bs rule: read_until.induct)
  case (3 deadline n stream a as)
  show ?case
  proof (cases "result a")
    case (Transferred k)
    define k' where "k' = min k (min (Suc n) (length stream))"
    from "3.prems" Transferred have pos: "k' \<noteq> 0" and time: "at_time a < deadline"
      by (auto simp: k'_def Let_def remaining_io_timeout_def split: if_splits)
    with "3.prems" Transferred obtain cs where
      cs: "read_until deadline (Suc n - k') (drop k' stream) as = Some (Inr (cs, stream', as'))"
      and bs: "bs = take k' stream @ cs"
      by (auto simp: k'_def [symmetric] Let_def remaining_io_timeout_def split: option.splits sum.splits)
    have "drop k' stream = cs @ stream' \<and> length cs = Suc n - k'"
      using "3.IH"(1) [OF _ Transferred k'_def] pos cs time by (simp add: remaining_io_timeout_def)
    moreover have "k' \<le> Suc n" "k' \<le> length stream" by (simp_all add: k'_def)
    ultimately show ?thesis
      using bs append_take_drop_id [of k' stream] by (simp del: append_take_drop_id)
  next
    case Interrupted
    then show ?thesis using 3 by (auto simp: remaining_io_timeout_def split: if_splits)
  next
    case (Failed c)
    then show ?thesis using "3.prems" by (auto simp: remaining_io_timeout_def split: if_splits)
  qed
qed simp_all

text \<open>With enough progress the buffer is filled, whatever the chunking.\<close>

lemma read_until_progress:
  assumes "timely deadline as" "n \<le> length stream" "n \<le> transfers as"
  shows "\<exists>as'. read_until deadline n stream as = Some (Inr (take n stream, drop n stream, as'))
           \<and> timely deadline as' \<and> transfers as \<le> transfers as' + n"
  using assms
proof (induction deadline n stream as rule: read_until.induct)
  case (3 deadline n stream a as)
  show ?case
  proof (cases "result a")
    case (Transferred k)
    define k' where "k' = min k (min (Suc n) (length stream))"
    have pos: "k' \<noteq> 0" and le: "k' \<le> Suc n" "k' \<le> length stream" and time: "at_time a < deadline"
      using "3.prems" Transferred by (auto simp: k'_def)
    have "\<exists>as'. read_until deadline (Suc n - k') (drop k' stream) as =
        Some (Inr (take (Suc n - k') (drop k' stream), drop (Suc n - k') (drop k' stream), as'))
        \<and> timely deadline as' \<and> transfers as \<le> transfers as' + (Suc n - k')"
      using "3.IH"(1) [OF _ Transferred k'_def] "3.prems" Transferred pos time
      by (simp add: remaining_io_timeout_def diff_le_mono)
    moreover have "take k' stream @ take (Suc n - k') (drop k' stream) = take (Suc n) stream"
      using le by (metis le_add_diff_inverse take_add)
    moreover have "drop (Suc n - k') (drop k' stream) = drop (Suc n) stream"
      using le by simp
    ultimately show ?thesis
      using Transferred pos time le(1)
      by (auto simp: k'_def [symmetric] Let_def remaining_io_timeout_def)
  next
    case Interrupted
    then show ?thesis using 3 by (auto simp: remaining_io_timeout_def)
  next
    case (Failed c)
    then show ?thesis using "3.prems" by simp
  qed
qed simp_all

lemma write_until_appends:
  "write_until deadline bs stream as = Some (Inr (stream', as')) \<Longrightarrow> stream' = stream @ bs"
proof (induction deadline bs stream as rule: write_until.induct)
  case (3 deadline b bs stream a as)
  show ?case
  proof (cases "result a")
    case (Transferred k)
    define k' where "k' = min k (length (b # bs))"
    have ih: "stream' = (stream @ take k' (b # bs)) @ drop k' (b # bs)"
      using "3.IH"(1) [OF _ Transferred k'_def] "3.prems" Transferred
      by (auto simp: k'_def Let_def remaining_io_timeout_def split: if_splits)
    then show ?thesis by (simp only: append_assoc append_take_drop_id)
  next
    case Interrupted
    then show ?thesis using 3 by (auto simp: remaining_io_timeout_def split: if_splits)
  next
    case (Failed c)
    then show ?thesis using "3.prems" by (auto simp: remaining_io_timeout_def split: if_splits)
  qed
qed simp_all

lemma write_until_progress:
  assumes "timely deadline as" "length bs \<le> transfers as"
  shows "\<exists>as'. write_until deadline bs stream as = Some (Inr (stream @ bs, as'))
           \<and> timely deadline as' \<and> transfers as \<le> transfers as' + length bs"
  using assms
proof (induction deadline bs stream as rule: write_until.induct)
  case (3 deadline b bs stream a as)
  show ?case
  proof (cases "result a")
    case (Transferred k)
    define k' where "k' = min k (length (b # bs))"
    have pos: "k' \<noteq> 0" and time: "at_time a < deadline" and le: "k' \<le> length (b # bs)"
      using "3.prems" Transferred by (auto simp: k'_def)
    have k': "min k (Suc (length bs)) = k'" by (simp add: k'_def)
    have "\<exists>as'. write_until deadline (drop k' (b # bs)) (stream @ take k' (b # bs)) as =
        Some (Inr ((stream @ take k' (b # bs)) @ drop k' (b # bs), as'))
        \<and> timely deadline as' \<and> transfers as \<le> transfers as' + length (drop k' (b # bs))"
      using "3.IH"(1) [OF _ Transferred k'_def] "3.prems" Transferred pos time
      by (simp add: remaining_io_timeout_def)
    moreover have "(stream @ take k' (b # bs)) @ drop k' (b # bs) = stream @ b # bs"
      by (simp only: append_assoc append_take_drop_id)
    ultimately show ?thesis
      using Transferred pos time le by (auto simp: k' Let_def remaining_io_timeout_def)
  next
    case Interrupted
    then show ?thesis using 3 by (auto simp: remaining_io_timeout_def)
  next
    case (Failed c)
    then show ?thesis using "3.prems" by simp
  qed
qed simp_all

section \<open>Delivery\<close>

lemma from_length_bytes: "n \<le> U32_MAX \<Longrightarrow> unat (from_ne_bytes (length_bytes n) :: u32) = n"
  by (simp add: length_bytes_def from_to_ne_bytes unat_of_nat U32_MAX_def)

text \<open>The frame of a payload: its length as four bytes, then the payload.\<close>

definition frame :: "byte list \<Rightarrow> byte list" where
  "frame bs = length_bytes (length bs) @ bs"

lemma length_frame [simp]: "length (frame bs) = length bs + 4"
  by (simp add: frame_def)

text \<open>A frame that arrives completely and in time is read and nothing after it is touched.\<close>

lemma frame_prefix:
  assumes "length bs \<le> U32_MAX" "length bs' \<le> U32_MAX" "frame bs @ rest = frame bs' @ rest'"
  shows "bs = bs' \<and> rest = rest'"
proof -
  have "length_bytes (length bs) = length_bytes (length bs')" "bs @ rest = bs' @ rest'"
    using assms(3) by (simp_all add: frame_def)
  then show ?thesis using from_length_bytes assms(1,2) by (metis append_eq_append_conv)
qed

lemma read_timeout_frame:
  assumes as: "timely (now + timeout) as" "length bs + 4 \<le> transfers as"
    and bs: "bs \<noteq> []" "length bs \<le> limit" "length bs \<le> U32_MAX"
  shows "\<exists>as'. read_timeout w limit timeout now (frame bs @ rest) as =
           Some (case decode w bs of Inl e \<Rightarrow> Inl (Codec e) | Inr x \<Rightarrow> Inr (x, rest, as'))"
proof -
  obtain as1 where r1: "read_until (now + timeout) 4 (frame bs @ rest) as =
      Some (Inr (length_bytes (length bs), bs @ rest, as1))"
    and t1: "timely (now + timeout) as1" and c1: "transfers as \<le> transfers as1 + 4"
    using read_until_progress [OF as(1), of 4 "frame bs @ rest"] as(2)
    by (auto simp: frame_def)
  have "length bs \<le> transfers as1" using c1 as(2) by simp
  then obtain as2 where "read_until (now + timeout) (length bs) (bs @ rest) as1 = Some (Inr (bs, rest, as2))"
    using read_until_progress [OF t1, of "length bs" "bs @ rest"] by auto
  then show ?thesis
    using r1 bs by (auto simp: read_timeout_def from_length_bytes Let_def split: sum.splits)
qed

text \<open>A header that announces an empty or an oversized payload is refused before the payload is read.\<close>

lemma read_timeout_bad_length:
  assumes "timely (now + timeout) as" "4 \<le> transfers as" "n \<le> U32_MAX" "n = 0 \<or> limit < n"
  shows "read_timeout w limit timeout now (length_bytes n @ rest) as = Some (Inl (InvalidFrameLength n))"
proof -
  obtain as1 where "read_until (now + timeout) 4 (length_bytes n @ rest) as = Some (Inr (length_bytes n, rest, as1))"
    using read_until_progress [OF assms(1), of 4 "length_bytes n @ rest"] assms(2) by auto
  then show ?thesis using assms(3,4) by (auto simp: read_timeout_def from_length_bytes Let_def)
qed

lemma send_frame:
  assumes "encode w x limit = Inr bs" "timely (now + TIMEOUT) as" "length bs + 4 \<le> transfers as"
  shows "\<exists>as'. send w x limit now stream as = Some (Inr (stream @ frame bs, as'))"
proof -
  obtain as1 where w1: "write_until (now + TIMEOUT) (length_bytes (length bs)) stream as =
      Some (Inr (stream @ length_bytes (length bs), as1))"
    and t1: "timely (now + TIMEOUT) as1" "transfers as \<le> transfers as1 + 4"
    using write_until_progress [OF assms(2), of "length_bytes (length bs)"] assms(3) by auto
  then obtain as2 where "write_until (now + TIMEOUT) bs (stream @ length_bytes (length bs)) as1 =
      Some (Inr (stream @ frame bs, as2))"
    using write_until_progress [OF t1(1), of bs "stream @ length_bytes (length bs)"] assms(3)
    by (auto simp: frame_def)
  then show ?thesis using assms(1) w1 by (simp add: send_def Let_def)
qed

text \<open>Whatever the schedule, a successful \<open>send\<close> has put exactly one frame on the stream.\<close>

lemma send_only_frame:
  assumes "send w x limit now stream as = Some (Inr (stream', as'))"
  shows "\<exists>bs. encode w x limit = Inr bs \<and> stream' = stream @ frame bs"
  using assms
  by (auto simp: send_def Let_def frame_def split: sum.splits option.splits prod.splits
      dest!: write_until_appends)

lemma send_too_large:
  "encode w x limit = Inl e \<Longrightarrow> send w x limit now stream as = Some (Inl (Codec e))"
  by (simp add: send_def)

context wire_codec
begin

text \<open>A message that was sent is received, under any two schedules that make progress in time.\<close>

lemma delivery:
  assumes x: "ok x" "encode w x limit = Inr bs"
    and tx: "timely (now + TIMEOUT) as" "length bs + 4 \<le> transfers as"
    and rx: "timely (now' + TIMEOUT) bs'" "length bs + 4 \<le> transfers bs'"
  shows "\<exists>as' bs''. send w x limit now stream as = Some (Inr (stream @ frame bs, as'))
    \<and> read_message w limit now' (frame bs @ rest) bs' = Some (Inr (x, rest, bs''))"
proof -
  have l: "bs \<noteq> []" "length bs \<le> limit" "length bs \<le> U32_MAX"
    using encode_nonempty [OF x] encode_bounded [OF x] by simp_all
  show ?thesis
    using send_frame [OF x(2) tx, of stream] read_timeout_frame [OF rx l, of w rest] roundtrip [OF x]
    by (auto simp: read_message_def)
qed

text \<open>What was received is what was sent: the bytes consumed are the frame of the message.\<close>

lemma received_frame:
  assumes "read_timeout w limit timeout now stream as = Some (Inr (x, stream', as'))"
  shows "\<exists>bs. encode w x limit = Inr bs \<and> ok x \<and> stream = frame bs @ stream'"
proof -
  from assms obtain header s1 as1 bs size where
    h: "read_until (now + timeout) 4 stream as = Some (Inr (header, s1, as1))"
    and size: "size = unat (from_ne_bytes header :: u32)" "0 < size" "size \<le> limit"
    and b: "read_until (now + timeout) size s1 as1 = Some (Inr (bs, stream', as'))"
    and d: "decode w bs = Inr x"
    by (auto simp: read_timeout_def Let_def split: option.splits sum.splits if_splits prod.splits)
  from read_until_prefix [OF h] have s: "stream = header @ s1" "length header = 4" by simp_all
  from read_until_prefix [OF b] have s1: "s1 = bs @ stream'" "length bs = size" by simp_all
  have "length bs \<le> U32_MAX" using unat_less_pow [of "from_ne_bytes header :: u32"] s1 size by (simp add: U32_MAX_def)
  moreover from this have "header = length_bytes (length bs)"
    using s(2) s1(2) size(1) by (simp add: length_bytes_def to_from_ne_bytes)
  moreover have "ok x \<and> encode w x limit = Inr bs"
    using canonical [OF _ _ d] size(3) s1(2) \<open>length bs \<le> U32_MAX\<close> by simp
  ultimately show ?thesis using s s1 by (auto simp: frame_def)
qed

text \<open>Reading where the frame of a message stands gives that message and what follows it.\<close>

lemma received_message:
  assumes x: "ok x" "encode w x limit = Inr bs"
    and "read_timeout w limit' timeout now (frame bs @ rest) as = Some (Inr (y, stream', as'))"
  shows "y = x \<and> stream' = rest"
proof -
  obtain bs' where y: "encode w y limit' = Inr bs'" "ok y" "frame bs @ rest = frame bs' @ stream'"
    using received_frame [OF assms(3)] by blast
  then have "bs = bs' \<and> rest = stream'"
    using frame_prefix [OF _ _ y(3)] encode_bounded [OF x] encode_bounded [OF y(2,1)] by simp
  then show ?thesis using injective [OF x(1) y(2) x(2)] y(1) by simp
qed

end

text \<open>A schedule that is interrupted once and then moves one byte per call.\<close>

definition byte_attempts :: "nat \<Rightarrow> attempt list" where
  "byte_attempts n = \<lparr>at_time = 1, result = Interrupted\<rparr> # replicate n \<lparr>at_time = 2, result = Transferred 1\<rparr>"

lemma byte_attempts_progress:
  "2 < deadline \<Longrightarrow> timely deadline (byte_attempts n)" "transfers (byte_attempts n) = n"
  by (auto simp: byte_attempts_def timely_def transfers_def list_all_iff)

end
