(* ===== verification/Ipc_Properties.thy ===== *)
theory Ipc_Properties
  imports Transport
begin

text \<open>
  What the codec and the framing guarantee for the messages of the protocol: round trips, canonical
  encodings, size limits, rejection of damaged messages, and delivery over the stream.
\<close>

section \<open>Sample messages\<close>

definition sample_request :: MonitorRequest where
  "sample_request =
     MonitorRequest.Process \<lparr>pid_pid = 42, pid_start_time_ticks = 7\<rparr> ProcessResource.Maps"

definition sample_request_bytes :: "byte list" where
  "sample_request_bytes = [1, 42, 0, 0, 0, 7, 0, 0, 0, 0, 0, 0, 0, 2]"

lemma sample_request_encode: "encode MonitorRequest_wire sample_request MAX_REQUEST = Inr sample_request_bytes"
  by (simp add: wire_eval MonitorRequest_wire_def ProcessId_wire_def ProcessResource_wire_def
      sample_request_def sample_request_bytes_def MAX_REQUEST_def)

definition sample_response :: WireResponse where
  "sample_response = Inr (MonitorResponse.Data (AcquiredData.Environment
     \<lparr>env_process_id = \<lparr>pid_pid = 42, pid_start_time_ticks = 7\<rparr>, env_captured_at = 9,
      env_raw_environment = [65, 61, 66, 0]\<rparr>))"

definition sample_response_bytes :: "byte list" where
  "sample_response_bytes =
     [0, 0, 3, 42, 0, 0, 0, 7, 0, 0, 0, 0, 0, 0, 0, 9, 0, 0, 0, 0, 0, 0, 0, 4, 0, 0, 0, 65, 61, 66, 0]"

lemma sample_response_encode:
  "encode (WireResponse_wire X86_64) sample_response MAX_RESPONSE = Inr sample_response_bytes"
  by (simp add: wire_eval WireResponse_wire_def MonitorResponse_wire_def AcquiredData_wire_def
      EnvironmentData_wire_def ProcessId_wire_def MAX_RESPONSE_def sample_response_def
      sample_response_bytes_def)

lemma sample_response_ok: "WireResponse_ok X86_64 sample_response"
  by (simp add: WireResponse_ok_def sample_response_def)

section \<open>Codec\<close>

text \<open>C1: whatever request the application encodes, the helper decodes the same request; the
  encoding is never empty and stays within the limit it was given.\<close>

theorem request_roundtrip:
  assumes "encode MonitorRequest_wire x limit = Inr bs"
  shows "decode MonitorRequest_wire bs = Inr x \<and> bs \<noteq> [] \<and> length bs \<le> min limit U32_MAX"
  using monitor_request.roundtrip [OF _ assms] monitor_request.encode_nonempty [OF _ assms]
    monitor_request.encode_bounded [OF _ assms]
  by simp

theorem request_roundtrip_witness:
  "decode MonitorRequest_wire sample_request_bytes = Inr sample_request \<and> sample_request_bytes \<noteq> []
   \<and> length sample_request_bytes \<le> min MAX_REQUEST U32_MAX"
  by (rule request_roundtrip [OF sample_request_encode])

text \<open>C2: a response survives the trip unchanged, for every kind of reply, as long as its register
  sets have the architecture's length, its file chunks respect the read limit and its samples carry
  no mapping context.\<close>

theorem response_roundtrip:
  assumes "WireResponse_ok arch x" "encode (WireResponse_wire arch) x limit = Inr bs"
  shows "decode (WireResponse_wire arch) bs = Inr x \<and> bs \<noteq> [] \<and> length bs \<le> min limit U32_MAX"
  using wire_response.roundtrip [OF assms] wire_response.encode_nonempty [OF assms]
    wire_response.encode_bounded [OF assms]
  by simp

theorem response_roundtrip_witness:
  "decode (WireResponse_wire X86_64) sample_response_bytes = Inr sample_response
   \<and> sample_response_bytes \<noteq> [] \<and> length sample_response_bytes \<le> min MAX_RESPONSE U32_MAX"
  by (rule response_roundtrip [OF sample_response_ok sample_response_encode])

text \<open>C3: the encoding is canonical. A response has no second representation: bytes that decode to a
  response are the bytes that encoding that response produces.\<close>

theorem response_canonical:
  assumes "length bs \<le> MAX_RESPONSE" "decode (WireResponse_wire arch) bs = Inr x"
  shows "WireResponse_ok arch x \<and> encode (WireResponse_wire arch) x MAX_RESPONSE = Inr bs"
  using assms by (intro wire_response.canonical) (simp_all add: MAX_RESPONSE_def U32_MAX_def)

theorem response_canonical_witness:
  "WireResponse_ok X86_64 sample_response
   \<and> encode (WireResponse_wire X86_64) sample_response MAX_RESPONSE = Inr sample_response_bytes"
proof (rule response_canonical)
  show "length sample_response_bytes \<le> MAX_RESPONSE"
    by (simp add: sample_response_bytes_def MAX_RESPONSE_def)
  show "decode (WireResponse_wire X86_64) sample_response_bytes = Inr sample_response"
    by (rule wire_response.roundtrip [OF sample_response_ok sample_response_encode])
qed

text \<open>The size limit is the only reason for which encoding a response fails, and it decides
  nothing else: at every limit the result is either the unbounded encoding or \<open>LimitExceeded\<close>.\<close>

theorem response_size_limit:
  assumes "WireResponse_ok arch x"
  shows "encode (WireResponse_wire arch) x limit =
    (case encode (WireResponse_wire arch) x U32_MAX of
       Inl _ \<Rightarrow> Inl LimitExceeded
     | Inr bs \<Rightarrow> if length bs \<le> limit then Inr bs else Inl LimitExceeded)"
  by (rule wire_response.encode_limit [OF assms])

theorem response_size_limit_witness:
  "encode (WireResponse_wire X86_64) sample_response 30 = Inl LimitExceeded"
proof -
  have "encode (WireResponse_wire X86_64) sample_response U32_MAX = Inr sample_response_bytes"
    using response_size_limit [OF sample_response_ok, of MAX_RESPONSE]
    by (auto simp: sample_response_encode split: sum.splits if_splits)
  then show ?thesis
    using response_size_limit [OF sample_response_ok, of 30] by (simp add: sample_response_bytes_def)
qed



section \<open>Hand-written codecs\<close>



text \<open>A live sample loses its mapping context on the wire and nothing else: what is decoded is the
  sample that was encoded, with the context absent.\<close>

theorem live_sample_without_context:
  assumes "pred_option (validate arch) (ls_raw_registers s)" "encode (LiveSample_wire arch) s limit = Inr bs"
  shows "decode (LiveSample_wire arch) bs = Inr (s\<lparr>ls_context := None\<rparr>)"
proof (rule wire_codec.roundtrip [OF wire_ok_codec [OF LiveSample_wire_ok]])
  show "LiveSample_ok arch (s\<lparr>ls_context := None\<rparr>)" using assms(1) by (simp add: LiveSample_ok_def)
  show "encode (LiveSample_wire arch) (s\<lparr>ls_context := None\<rparr>) limit = Inr bs"
    using assms(2) LiveSample_write_context [of arch s] by (simp add: encode_def)
qed

definition sample_live :: LiveSample where
  "sample_live = \<lparr>ls_tid = 5, ls_executable_header = None, ls_sampled_at = Some 1, ls_sample_time_ns = None,
     ls_sample_age_ms = None, ls_cpu = None, ls_lost_samples = 3, ls_registers = [], ls_raw_registers = None,
     ls_stack_bytes = [1, 2], ls_map_epoch = None, ls_context = Some \<lparr>ms_epoch = 1, ms_maps = []\<rparr>,
     ls_call_stack = [], ls_disassembly = None, ls_unwind_stop = [], ls_error = None\<rparr>"

theorem live_sample_without_context_witness:
  "\<exists>bs. encode (LiveSample_wire Aarch64) sample_live 100 = Inr bs
     \<and> decode (LiveSample_wire Aarch64) bs = Inr (sample_live\<lparr>ls_context := None\<rparr>)"
proof -
  have "\<exists>bs. encode (LiveSample_wire Aarch64) sample_live 100 = Inr bs"
    by (simp add: wire_eval LiveSample_wire_def sample_live_def)
  then obtain bs where "encode (LiveSample_wire Aarch64) sample_live 100 = Inr bs" ..
  moreover have "pred_option (validate Aarch64) (ls_raw_registers sample_live)"
    by (simp add: sample_live_def)
  ultimately show ?thesis using live_sample_without_context by blast
qed

text \<open>Every file chunk accepted from the helper respects the read limit. The writer has no such
  check: a longer chunk is encoded, and the receiver then refuses it.\<close>

theorem file_chunk_limit:
  assumes "encode FileChunk_wire c limit = Inr bs"
  shows "decode FileChunk_wire bs =
    (if length (chunk_bytes c) \<le> MAX_READ_SIZE then Inr c else Inl FileReadExceedsLimit)"
proof -
  have "encode FileChunk_fields c limit = Inr bs"
    using assms by (simp add: encode_def FileChunk_wire_fields)
  then have "read FileChunk_fields (bs @ []) = Inr (c, [])"
    by (rule wire_codec.read_encoded [OF wire_ok_codec [OF FileChunk_fields_total] TrueI])
  then show ?thesis by (simp add: decode_def FileChunk_wire_fields FileChunk_ok_def)
qed

theorem file_chunk_limit_witness:
  "decode FileChunk_wire [9, 0, 0, 0, 0, 0, 0, 0, 2, 0, 0, 0, 127, 69] =
    (if length (chunk_bytes \<lparr>chunk_offset = 9, chunk_bytes = [127, 69]\<rparr>) \<le> MAX_READ_SIZE
     then Inr \<lparr>chunk_offset = 9, chunk_bytes = [127, 69]\<rparr> else Inl FileReadExceedsLimit)"
  by (rule file_chunk_limit [where limit = 100]) (simp add: wire_eval FileChunk_wire_def)

section \<open>Delivery over the stream\<close>

text \<open>C4: a request that fits is delivered. If neither side is starved (each call of the two I/O loops
  that is not interrupted moves at least one byte before the deadline), then, however the calls split
  the bytes, \<open>send\<close> returns, \<open>read\<close> returns the same request, and the bytes after the frame stay on the
  stream.\<close>

theorem request_delivery:
  assumes "encode MonitorRequest_wire x MAX_REQUEST = Inr bs"
    and "timely (now + TIMEOUT) as" "length bs + 4 \<le> transfers as"
    and "timely (now' + TIMEOUT) as'" "length bs + 4 \<le> transfers as'"
  shows "\<exists>l l'. send MonitorRequest_wire x MAX_REQUEST now stream as = Some (Inr (stream @ frame bs, l))
    \<and> read_message MonitorRequest_wire MAX_REQUEST now' (frame bs @ rest) as' = Some (Inr (x, rest, l'))"
  by (rule monitor_request.delivery [OF TrueI assms])

theorem request_delivery_witness:
  "\<exists>l l'. send MonitorRequest_wire sample_request MAX_REQUEST 0 [] (byte_attempts 18)
      = Some (Inr ([] @ frame sample_request_bytes, l))
    \<and> read_message MonitorRequest_wire MAX_REQUEST 0 (frame sample_request_bytes @ [99]) (byte_attempts 18)
      = Some (Inr (sample_request, [99], l'))"
  by (rule request_delivery [OF sample_request_encode])
     (simp_all add: byte_attempts_progress TIMEOUT_def sample_request_bytes_def)

text \<open>Whatever the schedule, a response that \<open>read\<close> returns is exactly one frame of the stream: the
  bytes consumed are the length and the canonical encoding of that response, and the next frame
  starts where it stops.\<close>

theorem response_received_frame:
  assumes "read_timeout (WireResponse_wire arch) limit timeout now stream as = Some (Inr (x, stream', as'))"
  shows "\<exists>bs. encode (WireResponse_wire arch) x limit = Inr bs \<and> WireResponse_ok arch x
    \<and> stream = frame bs @ stream'"
  by (rule wire_response.received_frame [OF assms])

theorem response_received_frame_witness:
  "\<exists>bs. encode (WireResponse_wire X86_64) sample_response MAX_RESPONSE = Inr bs
    \<and> WireResponse_ok X86_64 sample_response \<and> frame sample_response_bytes @ [7] = frame bs @ [7]"
proof -
  have "timely (0 + TIMEOUT) (byte_attempts 35)" "length sample_response_bytes + 4 \<le> transfers (byte_attempts 35)"
    by (simp_all add: byte_attempts_progress TIMEOUT_def sample_response_bytes_def)
  from wire_response.delivery [OF sample_response_ok sample_response_encode this this, of "[]" "[7]"]
  obtain l where "read_message (WireResponse_wire X86_64) MAX_RESPONSE 0 (frame sample_response_bytes @ [7])
      (byte_attempts 35) = Some (Inr (sample_response, [7], l))"
    by auto
  then show ?thesis unfolding read_message_def by (rule response_received_frame)
qed

text \<open>A frame that announces an empty payload or one over the limit is refused before any byte of
  the payload is read.\<close>

theorem frame_length_checked:
  assumes "timely (now + timeout) as" "4 \<le> transfers as" "n \<le> U32_MAX" "n = 0 \<or> limit < n"
  shows "read_timeout (WireResponse_wire arch) limit timeout now (length_bytes n @ rest) as =
    Some (Inl (InvalidFrameLength n))"
  by (rule read_timeout_bad_length [OF assms])

theorem frame_length_checked_witness:
  "read_timeout (WireResponse_wire X86_64) MAX_RESPONSE TIMEOUT 0 (length_bytes (MAX_RESPONSE + 1) @ []) (byte_attempts 4)
   = Some (Inl (InvalidFrameLength (MAX_RESPONSE + 1)))"
  by (rule frame_length_checked)
     (simp_all add: byte_attempts_progress TIMEOUT_def MAX_RESPONSE_def U32_MAX_def)

end
