(* ===== verification/Text.thy ===== *)
theory Text
  imports Rust_String "HOL-Library.Sublist"
begin

text \<open>
  The \<open>str\<close> and integer-parsing operations of Rust's standard library that the procfs and sysfs
  readers use: whitespace, trimming, splitting, searching, \<open>parse\<close> and \<open>from_str_radix\<close>, and
  the digits \<open>Display\<close> and \<open>LowerHex\<close> print. A byte index into a string is replaced by the
  corresponding character position; the sources only use indices that \<open>find\<close> or \<open>rfind\<close> returned.
\<close>

named_theorems text_simps \<open>evaluation of the string operations\<close>

section \<open>Characters\<close>

definition ch :: "char \<Rightarrow> uchar" where
  "ch c = chr (of_char c)"

lemma code_point_ch [simp]: "code_point (ch c) = of_char c"
  by (simp add: ch_def)

lemma ch_eq_iff [simp]: "ch a = ch b \<longleftrightarrow> a = b"
  by (simp add: ch_def)

lemma lit_map_ch: "lit s = map ch s"
  by (simp add: lit_def ch_def)

lemma lit_eq_iff: "lit a = lit b \<longleftrightarrow> a = b"
  unfolding lit_map_ch by (simp add: inj_map_eq_map inj_def)

text \<open>\<open>char::is_whitespace\<close>: the \<open>White_Space\<close> property of Unicode.\<close>

definition is_whitespace :: "uchar \<Rightarrow> bool" where
  "is_whitespace c \<longleftrightarrow> (let n = code_point c in
     9 \<le> n \<and> n \<le> 13 \<or> n = 32 \<or> n = 0x85 \<or> n = 0xA0 \<or> n = 0x1680 \<or> 0x2000 \<le> n \<and> n \<le> 0x200A
     \<or> n = 0x2028 \<or> n = 0x2029 \<or> n = 0x202F \<or> n = 0x205F \<or> n = 0x3000)"

lemma is_whitespace_ch [simp]:
  "is_whitespace (ch CHR '' '')" "is_whitespace (ch (CHR 0x0A))"
  "\<not> is_whitespace (ch CHR ''-'')" "\<not> is_whitespace (ch CHR '':'')" "\<not> is_whitespace (ch CHR ''r'')"
  "\<not> is_whitespace (ch CHR ''w'')" "\<not> is_whitespace (ch CHR ''x'')" "\<not> is_whitespace (ch CHR ''p'')"
  "\<not> is_whitespace (ch CHR ''s'')" "\<not> is_whitespace (ch CHR ''('')" "\<not> is_whitespace (ch CHR '')'')"
  by (simp_all add: is_whitespace_def)

section \<open>Slices\<close>

definition trim_start :: "rstring \<Rightarrow> rstring" where
  "trim_start = dropWhile is_whitespace"

definition trim_end :: "rstring \<Rightarrow> rstring" where
  "trim_end s = rev (dropWhile is_whitespace (rev s))"

definition trim :: "rstring \<Rightarrow> rstring" where
  "trim s = trim_end (trim_start s)"

text \<open>\<open>s.split_once(c)\<close>: the text before and after the first \<open>c\<close>.\<close>

fun split_once :: "uchar \<Rightarrow> rstring \<Rightarrow> (rstring \<times> rstring) option" where
  "split_once c [] = None"
| "split_once c (x # xs) =
     (if x = c then Some ([], xs)
      else (case split_once c xs of None \<Rightarrow> None | Some (a, b) \<Rightarrow> Some (x # a, b)))"

text \<open>\<open>s.split(c)\<close>: the pieces between the separators, at least one.\<close>

fun split_char :: "uchar \<Rightarrow> rstring \<Rightarrow> rstring list" where
  "split_char c [] = [[]]"
| "split_char c (x # xs) =
     (if x = c then [] # split_char c xs
      else (case split_char c xs of [] \<Rightarrow> [[x]] | y # ys \<Rightarrow> (x # y) # ys))"

lemma length_dropWhile_less: "xs \<noteq> [] \<Longrightarrow> P (hd xs) \<Longrightarrow> length (dropWhile P xs) < length xs"
  by (cases xs) (auto simp: less_Suc_eq_le length_dropWhile_le)

text \<open>\<open>s.split_whitespace()\<close>: the maximal runs of other characters.\<close>

function split_whitespace :: "rstring \<Rightarrow> rstring list" where
  "split_whitespace s = (let s = trim_start s in
     if s = [] then []
     else takeWhile (\<lambda>c. \<not> is_whitespace c) s # split_whitespace (dropWhile (\<lambda>c. \<not> is_whitespace c) s))"
  by pat_completeness auto

termination
proof (relation "measure length", simp)
  fix s x :: rstring
  assume x: "x = trim_start s" "x \<noteq> []"
  then have "\<not> is_whitespace (hd x)" unfolding trim_start_def by (metis hd_dropWhile)
  then have "length (dropWhile (\<lambda>c. \<not> is_whitespace c) x) < length x"
    using x(2) by (intro length_dropWhile_less)
  also have "\<dots> \<le> length s" unfolding x(1) trim_start_def by (rule length_dropWhile_le)
  finally show "(dropWhile (\<lambda>c. \<not> is_whitespace c) x, s) \<in> measure length" by simp
qed

declare split_whitespace.simps [simp del]

text \<open>\<open>s.lines()\<close>: pieces ending in a line feed, an optional carriage return before it removed.\<close>

definition strip_cr :: "rstring \<Rightarrow> rstring" where
  "strip_cr l = (if l \<noteq> [] \<and> last l = ch (CHR 0x0D) then butlast l else l)"

definition text_lines :: "rstring \<Rightarrow> rstring list" where
  "text_lines s = (let ps = split_char (ch (CHR 0x0A)) s in
     map strip_cr (butlast ps) @ (if last ps = [] then [] else [last ps]))"

text \<open>\<open>s.find(c)\<close> and \<open>s.rfind(c)\<close>, as character positions.\<close>

fun find_index :: "uchar \<Rightarrow> rstring \<Rightarrow> nat option" where
  "find_index c [] = None"
| "find_index c (x # xs) = (if x = c then Some 0 else map_option Suc (find_index c xs))"

definition rfind_index :: "uchar \<Rightarrow> rstring \<Rightarrow> nat option" where
  "rfind_index c s = map_option (\<lambda>i. length s - Suc i) (find_index c (rev s))"

section \<open>Integers\<close>

text \<open>\<open>char::to_digit\<close>.\<close>

definition to_digit :: "nat \<Rightarrow> uchar \<Rightarrow> nat option" where
  "to_digit radix c = (let n = code_point c;
       d = (if 48 \<le> n \<and> n \<le> 57 then n - 48
            else if 97 \<le> n \<and> n \<le> 122 then n - 87
            else if 65 \<le> n \<and> n \<le> 90 then n - 55 else radix)
     in if d < radix then Some d else None)"

fun digits_value :: "nat \<Rightarrow> nat \<Rightarrow> rstring \<Rightarrow> nat option" where
  "digits_value radix acc [] = Some acc"
| "digits_value radix acc (c # cs) =
     (case to_digit radix c of None \<Rightarrow> None | Some d \<Rightarrow> digits_value radix (acc * radix + d) cs)"

text \<open>
  \<open>from_str_radix\<close> for an unsigned type of \<open>w\<close> bits (\<open>parse\<close> is radix 10): a \<open>+\<close> is accepted,
  at least one digit is needed, and a value that does not fit is an error.
\<close>

definition parse_unsigned :: "nat \<Rightarrow> nat \<Rightarrow> rstring \<Rightarrow> nat option" where
  "parse_unsigned w radix s =
     (let ds = (case s of c # d # cs \<Rightarrow> if c = ch CHR ''+'' then d # cs else s | _ \<Rightarrow> s) in
      if ds = [] then None
      else (case digits_value radix 0 ds of None \<Rightarrow> None | Some n \<Rightarrow> if n < 2 ^ w then Some n else None))"

text \<open>For a signed type a \<open>-\<close> is accepted as well.\<close>

definition parse_signed :: "nat \<Rightarrow> nat \<Rightarrow> rstring \<Rightarrow> int option" where
  "parse_signed w radix s =
     (case s of
        c # d # cs \<Rightarrow>
          if c = ch CHR ''-'' then
            (case digits_value radix 0 (d # cs) of
               None \<Rightarrow> None
             | Some n \<Rightarrow> if n \<le> 2 ^ (w - 1) then Some (- int n) else None)
          else map_option int (parse_unsigned (w - 1) radix s)
      | _ \<Rightarrow> map_option int (parse_unsigned (w - 1) radix s))"

definition parse_u64 :: "rstring \<Rightarrow> u64 option" where
  "parse_u64 s = map_option word_of_nat (parse_unsigned 64 10 s)"

definition parse_u32 :: "rstring \<Rightarrow> u32 option" where
  "parse_u32 s = map_option word_of_nat (parse_unsigned 32 10 s)"

definition parse_i64 :: "rstring \<Rightarrow> i64 option" where
  "parse_i64 s = map_option word_of_int (parse_signed 64 10 s)"

definition parse_i32 :: "rstring \<Rightarrow> i32 option" where
  "parse_i32 s = map_option word_of_int (parse_signed 32 10 s)"

definition hex_u64 :: "rstring \<Rightarrow> u64 option" where
  "hex_u64 s = map_option word_of_nat (parse_unsigned 64 16 s)"

definition hex_u32 :: "rstring \<Rightarrow> u32 option" where
  "hex_u32 s = map_option word_of_nat (parse_unsigned 32 16 s)"

section \<open>Printing\<close>

text \<open>\<open>char::from_digit\<close>, for radices up to 36.\<close>

definition from_digit :: "nat \<Rightarrow> uchar" where
  "from_digit d = chr (if d < 10 then 48 + d else 87 + d)"

fun show_radix :: "nat \<Rightarrow> nat \<Rightarrow> rstring" where
  "show_radix radix n =
     (if n < radix \<or> radix < 2 then [from_digit n]
      else show_radix radix (n div radix) @ [from_digit (n mod radix)])"

declare show_radix.simps [simp del]

text \<open>\<open>format!("{n}")\<close> and \<open>format!("{n:x}")\<close>.\<close>

abbreviation show_dec :: "nat \<Rightarrow> rstring" where
  "show_dec \<equiv> show_radix 10"

abbreviation show_hex :: "nat \<Rightarrow> rstring" where
  "show_hex \<equiv> show_radix 16"

definition show_int :: "int \<Rightarrow> rstring" where
  "show_int i = (if i < 0 then ch CHR ''-'' # show_dec (nat (- i)) else show_dec (nat i))"

section \<open>Splitting\<close>

lemma split_once_append [simp]: "c \<notin> set a \<Longrightarrow> split_once c (a @ c # b) = Some (a, b)"
  by (induction a) auto

lemma split_once_absent [simp]: "c \<notin> set a \<Longrightarrow> split_once c a = None"
  by (induction a) auto

lemma split_once_Some: "split_once c s = Some (a, b) \<Longrightarrow> s = a @ c # b \<and> c \<notin> set a"
  by (induction s arbitrary: a b) (auto split: if_splits option.splits)

lemma find_index_append [simp]: "c \<notin> set a \<Longrightarrow> find_index c (a @ c # b) = Some (length a)"
  by (induction a) auto

lemma find_index_absent [simp]: "find_index c a = None \<longleftrightarrow> c \<notin> set a"
  by (induction a) auto

lemma rfind_index_append [simp]: "c \<notin> set b \<Longrightarrow> rfind_index c (a @ c # b) = Some (length a)"
  by (simp add: rfind_index_def)

lemma rfind_index_absent [simp]: "rfind_index c a = None \<longleftrightarrow> c \<notin> set a"
  by (simp add: rfind_index_def)

lemma split_char_nonempty [simp]: "split_char c s \<noteq> []"
  by (induction s) (auto split: list.splits)

lemma split_char_append: "c \<notin> set a \<Longrightarrow> split_char c (a @ c # b) = a # split_char c b"
  by (induction a) auto

lemma split_char_absent: "c \<notin> set a \<Longrightarrow> split_char c a = [a]"
  by (induction a) auto

lemma split_char_concat: "concat (map (\<lambda>p. p @ [c]) (split_char c s)) = s @ [c]"
  by (induction s) (auto split: list.splits)

lemma split_char_pieces: "p \<in> set (split_char c s) \<Longrightarrow> c \<notin> set p"
proof (induction s arbitrary: p)
  case (Cons x xs)
  then show ?case by (cases "split_char c xs") (auto split: if_splits)
qed auto

lemma split_char_unlines:
  "(\<And>l. l \<in> set ls \<Longrightarrow> c \<notin> set l) \<Longrightarrow> split_char c (concat (map (\<lambda>l. l @ [c]) ls)) = ls @ [[]]"
  by (induction ls) (simp_all add: split_char_append)

text \<open>Lines, each terminated by a line feed, are recovered.\<close>

definition is_line :: "rstring \<Rightarrow> bool" where
  "is_line l \<longleftrightarrow> ch (CHR 0x0A) \<notin> set l \<and> (l = [] \<or> last l \<noteq> ch (CHR 0x0D))"

definition unlines :: "rstring list \<Rightarrow> rstring" where
  "unlines ls = concat (map (\<lambda>l. l @ [ch (CHR 0x0A)]) ls)"

lemma text_lines_unlines:
  assumes "list_all is_line ls"
  shows "text_lines (unlines ls) = ls"
proof -
  have "split_char (ch (CHR 0x0A)) (unlines ls) = ls @ [[]]"
    unfolding unlines_def using assms by (intro split_char_unlines) (auto simp: list_all_iff is_line_def)
  moreover have "map strip_cr ls = ls"
    using assms by (auto simp: list_all_iff is_line_def strip_cr_def intro!: map_idI)
  ultimately show ?thesis by (simp add: text_lines_def)
qed

section \<open>Words\<close>

text \<open>A word: what \<open>split_whitespace\<close> yields.\<close>

definition is_word :: "rstring \<Rightarrow> bool" where
  "is_word w \<longleftrightarrow> w \<noteq> [] \<and> list_all (\<lambda>c. \<not> is_whitespace c) w"

lemma takeWhile_word: "list_all (\<lambda>c. \<not> is_whitespace c) w \<Longrightarrow> is_whitespace s \<Longrightarrow>
    takeWhile (\<lambda>c. \<not> is_whitespace c) (w @ s # r) = w \<and> dropWhile (\<lambda>c. \<not> is_whitespace c) (w @ s # r) = s # r"
  by (induction w) auto

lemma takeWhile_all_word: "list_all (\<lambda>c. \<not> is_whitespace c) w \<Longrightarrow>
    takeWhile (\<lambda>c. \<not> is_whitespace c) w = w \<and> dropWhile (\<lambda>c. \<not> is_whitespace c) w = []"
  by (induction w) auto

lemma split_whitespace_Nil [simp]: "split_whitespace [] = []"
  by (simp add: split_whitespace.simps trim_start_def)

lemma split_whitespace_space [simp]: "is_whitespace c \<Longrightarrow> split_whitespace (c # s) = split_whitespace s"
  by (subst (1 2) split_whitespace.simps) (simp add: trim_start_def)

lemma split_whitespace_word:
  assumes "is_word w" "is_whitespace c"
  shows "split_whitespace (w @ c # s) = w # split_whitespace s"
proof -
  obtain x xs where w: "w = x # xs" using assms(1) by (cases w) (auto simp: is_word_def)
  have "trim_start (w @ c # s) = w @ c # s"
    using assms(1) by (simp add: w trim_start_def is_word_def)
  then have "split_whitespace (w @ c # s) =
      takeWhile (\<lambda>c. \<not> is_whitespace c) (w @ c # s)
      # split_whitespace (dropWhile (\<lambda>c. \<not> is_whitespace c) (w @ c # s))"
    by (subst split_whitespace.simps) (simp add: Let_def)
  then show ?thesis using takeWhile_word [of w c s] assms by (simp add: is_word_def)
qed

lemma split_whitespace_last: "is_word w \<Longrightarrow> split_whitespace w = [w]"
  using takeWhile_all_word [of w]
  by (cases w; subst split_whitespace.simps)
     (simp_all add: Let_def trim_start_def is_word_def dropWhile_eq_Nil_conv [THEN iffD2] list_all_iff)

text \<open>Words separated by single spaces are recovered.\<close>

fun unwords :: "rstring list \<Rightarrow> rstring" where
  "unwords [] = []"
| "unwords [w] = w"
| "unwords (w # ws) = w @ ch CHR '' '' # unwords ws"

lemma split_whitespace_unwords: "list_all is_word ws \<Longrightarrow> split_whitespace (unwords ws) = ws"
  by (induction ws rule: unwords.induct) (simp_all add: split_whitespace_word split_whitespace_last)

lemma trim_id:
  assumes "s \<noteq> []" "\<not> is_whitespace (hd s)" "\<not> is_whitespace (last s)"
  shows "trim s = s"
proof -
  have "trim_start s = s" using assms by (cases s) (auto simp: trim_start_def)
  moreover have "trim_end s = s"
    using assms by (cases s rule: rev_cases) (auto simp: trim_end_def)
  ultimately show ?thesis by (simp add: trim_def)
qed

lemma trim_word [simp]: "is_word w \<Longrightarrow> trim w = w"
  by (rule trim_id) (auto simp: is_word_def list_all_iff)

lemma trim_trailing_space [simp]: "is_whitespace c \<Longrightarrow> trim_end (s @ [c]) = trim_end s"
  by (simp add: trim_end_def)

lemma trim_start_space [simp]:
  "is_whitespace c \<Longrightarrow> trim_start (c # s) = trim_start s" "\<not> is_whitespace c \<Longrightarrow> trim_start (c # s) = c # s"
  "trim_start [] = []"
  by (simp_all add: trim_start_def)

section \<open>Numbers\<close>

lemma to_digit_bound: "to_digit radix c = Some d \<Longrightarrow> d < radix"
  by (auto simp: to_digit_def Let_def split: if_splits)

lemma to_digit_from_digit [simp]: "d < radix \<Longrightarrow> radix \<le> 36 \<Longrightarrow> to_digit radix (from_digit d) = Some d"
  by (auto simp: to_digit_def from_digit_def)

text \<open>No digit is a space, a sign or one of the separators of the kernel's tables.\<close>

lemma to_digit_alnum: "to_digit radix c = Some d \<Longrightarrow>
   \<not> is_whitespace c \<and> c \<noteq> ch CHR ''-'' \<and> c \<noteq> ch CHR ''+'' \<and> c \<noteq> ch CHR '':'' \<and> c \<noteq> ch CHR ''('' \<and> c \<noteq> ch CHR '')''
   \<and> c \<noteq> ch CHR '','' \<and> c \<noteq> ch CHR ''.''"
  by (auto simp: to_digit_def Let_def is_whitespace_def split: if_splits)

lemma digits_value_append:
  "digits_value radix acc (xs @ ys) =
     (case digits_value radix acc xs of None \<Rightarrow> None | Some n \<Rightarrow> digits_value radix n ys)"
  by (induction xs arbitrary: acc) (auto split: option.splits)

lemma digits_value_show [simp]: "2 \<le> radix \<Longrightarrow> radix \<le> 36 \<Longrightarrow> digits_value radix 0 (show_radix radix n) = Some n"
proof (induction radix n rule: show_radix.induct)
  case (1 radix n)
  show ?case
  proof (cases "n < radix")
    case True
    then show ?thesis using 1(3) by (simp add: show_radix.simps [of radix n])
  next
    case False
    then have "digits_value radix 0 (show_radix radix (n div radix)) = Some (n div radix)"
      using 1 by simp
    then show ?thesis
      using False 1(2,3) by (simp add: show_radix.simps [of radix n] digits_value_append)
  qed
qed

lemma digits_value_zeros [simp]:
  "2 \<le> radix \<Longrightarrow> radix \<le> 36 \<Longrightarrow> digits_value radix 0 (replicate k (from_digit 0) @ s) = digits_value radix 0 s"
  by (induction k) simp_all

lemma show_radix_nonempty [simp]: "show_radix radix n \<noteq> []"
  by (simp add: show_radix.simps [of radix n])

lemma digits_value_digits: "digits_value radix acc ds = Some n \<Longrightarrow> c \<in> set ds \<Longrightarrow> \<exists>d. to_digit radix c = Some d"
  by (induction ds arbitrary: acc) (auto split: option.splits)

lemma parse_unsigned_digits:
  assumes "ds \<noteq> []" "digits_value radix 0 ds = Some n" "n < 2 ^ w"
  shows "parse_unsigned w radix ds = Some n"
proof -
  have "hd ds \<noteq> ch CHR ''+''"
    using digits_value_digits [OF assms(2), of "hd ds"] assms(1) by (auto dest: to_digit_alnum)
  then show ?thesis using assms
    by (auto simp: parse_unsigned_def Let_def split: list.splits)
qed

lemma parse_unsigned_show [simp]:
  "2 \<le> radix \<Longrightarrow> radix \<le> 36 \<Longrightarrow> n < 2 ^ w \<Longrightarrow> parse_unsigned w radix (show_radix radix n) = Some n"
  by (rule parse_unsigned_digits) simp_all

lemma parse_unsigned_bound: "parse_unsigned w radix s = Some n \<Longrightarrow> n < 2 ^ w"
  by (auto simp: parse_unsigned_def Let_def split: if_splits option.splits list.splits)

lemma show_radix_chars:
  assumes "2 \<le> radix" "radix \<le> 36" "c \<in> set (show_radix radix n)"
  shows "\<exists>d. to_digit radix c = Some d"
  by (rule digits_value_digits [OF digits_value_show [OF assms(1,2)] assms(3)])

lemma show_radix_word: "2 \<le> radix \<Longrightarrow> radix \<le> 36 \<Longrightarrow> is_word (show_radix radix n)"
  using show_radix_chars to_digit_alnum by (fastforce simp: is_word_def list_all_iff)

lemma show_dec_word [simp]: "is_word (show_dec n)"
  by (rule show_radix_word) simp_all

lemma show_radix_separators:
  assumes "2 \<le> radix" "radix \<le> 36"
  shows "ch CHR ''-'' \<notin> set (show_radix radix n)" "ch CHR '':'' \<notin> set (show_radix radix n)"
    "ch CHR ''('' \<notin> set (show_radix radix n)" "ch CHR '')'' \<notin> set (show_radix radix n)"
    "ch CHR '','' \<notin> set (show_radix radix n)" "ch CHR ''.'' \<notin> set (show_radix radix n)"
  using show_radix_chars [OF assms] to_digit_alnum by blast+

lemma show_dec_separators [simp]:
  "ch CHR ''-'' \<notin> set (show_dec n)" "ch CHR '':'' \<notin> set (show_dec n)" "ch CHR ''('' \<notin> set (show_dec n)"
  "ch CHR '')'' \<notin> set (show_dec n)" "ch CHR '','' \<notin> set (show_dec n)" "ch CHR ''.'' \<notin> set (show_dec n)"
  by (simp_all add: show_radix_separators)

lemma parse_u64_show [simp]: "parse_u64 (show_dec (unat x)) = Some x"
  by (simp add: parse_u64_def unat_less_pow [of x, simplified])

lemma parse_u32_show [simp]: "parse_u32 (show_dec (unat x)) = Some x"
  by (simp add: parse_u32_def unat_less_pow [of x, simplified])

lemma show_int_nonempty [simp]: "show_int i \<noteq> []"
  by (simp add: show_int_def)

lemma show_int_word [simp]: "is_word (show_int i)"
  using show_dec_word [of "nat (- i)"] show_dec_word [of "nat i"] by (auto simp: show_int_def is_word_def)

lemma show_int_separators [simp]: "ch CHR '')'' \<notin> set (show_int i)" "ch CHR ''('' \<notin> set (show_int i)"
  by (auto simp: show_int_def)

lemma parse_signed_show:
  assumes "0 < w" "- (2 ^ (w - 1)) \<le> i" "i < 2 ^ (w - 1)"
  shows "parse_signed w 10 (show_int i) = Some i"
proof (cases "i < 0")
  case True
  moreover have n: "nat (- i) \<le> 2 ^ (w - 1)" using assms(2) by (simp add: nat_le_iff)
  obtain d ds where ds: "show_dec (nat (- i)) = d # ds" by (cases "show_dec (nat (- i))") auto
  have "digits_value 10 0 (d # ds) = Some (nat (- i))"
    unfolding ds [symmetric] by (rule digits_value_show) simp_all
  ultimately show ?thesis using n ds by (simp add: show_int_def parse_signed_def del: digits_value.simps)
next
  case False
  let ?s = "show_dec (nat i)"
  have "nat i < 2 ^ (w - 1)" using assms(3) False by (simp add: nat_less_iff)
  then have p: "parse_unsigned (w - 1) 10 ?s = Some (nat i)" by simp
  have "hd ?s \<noteq> ch CHR ''-''" by (metis hd_in_set show_dec_separators(1) show_radix_nonempty)
  then show ?thesis using False p by (auto simp: show_int_def parse_signed_def split: list.splits)
qed

lemma parse_i64_show [simp]: "parse_i64 (show_int (sint x)) = Some x"
  using sint_greater_eq [of x] sint_less [of x] by (simp add: parse_i64_def parse_signed_show)

lemma parse_i32_show [simp]: "parse_i32 (show_int (sint x)) = Some x"
  using sint_greater_eq [of x] sint_less [of x] by (simp add: parse_i32_def parse_signed_show)

end
