(* ===== verification/Memory_Text.thy ===== *)
theory Memory_Text
  imports Ipc_Memory Text
begin

text \<open>
  Mapping classification and the parsers of \<open>/proc/PID/maps\<close> and \<open>/proc/PID/smaps\<close>
  (\<open>src/ipc/model/memory.rs\<close>), with the kernel's line format as the specification they are proved
  against.
\<close>

section \<open>Mappings\<close>

definition contains :: "MemoryMap \<Rightarrow> u64 \<Rightarrow> bool" where
  "contains m address \<longleftrightarrow> map_start m \<le> address \<and> address < map_end m"

definition kind :: "MemoryMap \<Rightarrow> MemoryKind" where
  "kind m = (case map_pathname m of
     Some p \<Rightarrow>
       if prefix (lit ''[stack'') p then MemoryKind.Stack
       else if p = lit ''[heap]'' then MemoryKind.Heap
       else if sublist (lit ''.so'') p then MemoryKind.SharedLibrary
       else if map_executable m then MemoryKind.Executable
       else if prefix (lit ''/'') p then MemoryKind.File
       else MemoryKind.Anonymous
   | None \<Rightarrow> if map_executable m then MemoryKind.Executable else MemoryKind.Anonymous)"

definition SmapsEntry_from :: "MemoryMap \<Rightarrow> SmapsEntry" where
  "SmapsEntry_from m = \<lparr>smaps_mapping = m, smaps_rss_bytes = None, smaps_pss_bytes = None\<rparr>"

section \<open>Parsers\<close>

datatype maps_error = MissingField | InvalidRange | InvalidPermissions | InvalidInteger | EmptyRange | InvalidDevice

text \<open>The loop over the first columns: \<open>n\<close> columns and what follows them.\<close>

fun take_columns :: "nat \<Rightarrow> rstring \<Rightarrow> maps_error + rstring list \<times> rstring" where
  "take_columns 0 rest = Inr ([], rest)"
| "take_columns (Suc n) rest =
     (let column = takeWhile (\<lambda>c. \<not> is_whitespace c) rest in
      if column = [] then Inl MissingField
      else and_then (take_columns n (trim_start (drop (length column) rest)))
        (\<lambda>(columns, rest). Inr (column # columns, rest)))"

definition parse_map :: "rstring \<Rightarrow> maps_error + MemoryMap" where
  "parse_map line =
     and_then (take_columns 5 (trim line)) (\<lambda>(columns, rest).
     and_then (ok_or (split_once (ch CHR ''-'') (columns ! 0)) InvalidRange) (\<lambda>(start, v_end).
     let permissions = as_bytes (columns ! 1) in
     if length permissions \<noteq> 4 then Inl InvalidPermissions else
     and_then (ok_or (hex_u64 start) InvalidInteger) (\<lambda>start.
     and_then (ok_or (hex_u64 v_end) InvalidInteger) (\<lambda>v_end.
     if \<not> start < v_end then Inl EmptyRange else
     and_then (ok_or (hex_u64 (columns ! 2)) InvalidInteger) (\<lambda>file_offset.
     and_then (ok_or (split_once (ch CHR '':'') (columns ! 3)) InvalidDevice) (\<lambda>(major, minor).
     and_then (ok_or (hex_u32 major) InvalidInteger) (\<lambda>major.
     and_then (ok_or (hex_u32 minor) InvalidInteger) (\<lambda>minor.
     and_then (ok_or (parse_u64 (columns ! 4)) InvalidInteger) (\<lambda>inode.
     Inr \<lparr>map_start = start, map_end = v_end,
       map_readable = permissions ! 0 = 0x72,
       map_writable = permissions ! 1 = 0x77,
       map_executable = permissions ! 2 = 0x78,
       map_private = permissions ! 3 = 0x70,
       map_file_offset = file_offset,
       map_device = \<lparr>dev_major = major, dev_minor = minor\<rparr>,
       map_inode = inode,
       map_pathname = (if rest = [] then None else Some rest)\<rparr>)))))))))"

text \<open>\<open>u64::checked_mul(1024)\<close>.\<close>

definition kilobytes :: "u64 \<Rightarrow> u64 option" where
  "kilobytes v = (if unat v * 1024 < 2 ^ 64 then Some (v * 1024) else None)"

text \<open>The bytes an attribute line carries, and what it does to the entry it belongs to.\<close>

definition attribute_bytes :: "rstring \<Rightarrow> u64 option" where
  "attribute_bytes v = (case split_whitespace v of
     [] \<Rightarrow> None
   | w # _ \<Rightarrow> Option.bind (parse_u64 w) kilobytes)"

definition set_attribute :: "rstring \<Rightarrow> u64 option \<Rightarrow> SmapsEntry \<Rightarrow> SmapsEntry" where
  "set_attribute key bytes e =
     (if key = lit ''Rss'' then e\<lparr>smaps_rss_bytes := bytes\<rparr>
      else if key = lit ''Pss'' then e\<lparr>smaps_pss_bytes := bytes\<rparr>
      else e)"

text \<open>The loop over the lines; the last entry of \<open>maps\<close> is the one attribute lines refer to.\<close>

fun smaps_lines :: "rstring list \<Rightarrow> SmapsEntry list \<Rightarrow> maps_error + SmapsEntry list" where
  "smaps_lines [] maps = Inr maps"
| "smaps_lines (line # lines) maps =
     (if (case split_whitespace line of [] \<Rightarrow> False | word # _ \<Rightarrow> ch CHR ''-'' \<in> set word)
      then and_then (parse_map line) (\<lambda>m. smaps_lines lines (maps @ [SmapsEntry_from m]))
      else if maps = [] then smaps_lines lines maps
      else (case split_once (ch CHR '':'') line of
          None \<Rightarrow> smaps_lines lines maps
        | Some (key, v) \<Rightarrow>
            smaps_lines lines (butlast maps @ [set_attribute key (attribute_bytes v) (last maps)])))"

definition parse_smaps :: "rstring \<Rightarrow> maps_error + SmapsEntry list" where
  "parse_smaps text = smaps_lines (text_lines text) []"

section \<open>The kernel's format\<close>

text \<open>
  A line of \<open>/proc/PID/maps\<close>. Hexadecimal numbers are padded with zeros, the path name is separated by
  \<open>Suc gap\<close> spaces, and without a path name the line ends in a space.
\<close>

definition pad_hex :: "nat \<Rightarrow> nat \<Rightarrow> rstring" where
  "pad_hex k n = replicate k (from_digit 0) @ show_hex n"

definition permissions :: "MemoryMap \<Rightarrow> rstring" where
  "permissions m =
     [ch (if map_readable m then CHR ''r'' else CHR ''-''), ch (if map_writable m then CHR ''w'' else CHR ''-''),
      ch (if map_executable m then CHR ''x'' else CHR ''-''), ch (if map_private m then CHR ''p'' else CHR ''s'')]"

definition range_column :: "nat \<Rightarrow> MemoryMap \<Rightarrow> rstring" where
  "range_column k m = pad_hex k (unat (map_start m)) @ ch CHR ''-'' # pad_hex k (unat (map_end m))"

definition device_column :: "nat \<Rightarrow> MemoryMap \<Rightarrow> rstring" where
  "device_column k m =
     pad_hex k (unat (dev_major (map_device m))) @ ch CHR '':'' # pad_hex k (unat (dev_minor (map_device m)))"

definition maps_line :: "nat \<Rightarrow> nat \<Rightarrow> MemoryMap \<Rightarrow> rstring" where
  "maps_line k gap m =
     range_column k m @ ch CHR '' '' # permissions m @ ch CHR '' '' # pad_hex k (unat (map_file_offset m))
     @ ch CHR '' '' # device_column k m @ ch CHR '' '' # show_dec (unat (map_inode m))
     @ (case map_pathname m of None \<Rightarrow> [ch CHR '' '']
        | Some p \<Rightarrow> replicate (Suc gap) (ch CHR '' '') @ p)"

text \<open>Mappings the format can express: a non-empty range and a path name without outer
  whitespace or line feeds (the kernel escapes line feeds).\<close>

definition expressible :: "MemoryMap \<Rightarrow> bool" where
  "expressible m \<longleftrightarrow> map_start m < map_end m \<and>
     (case map_pathname m of None \<Rightarrow> True
      | Some p \<Rightarrow> p \<noteq> [] \<and> \<not> is_whitespace (hd p) \<and> \<not> is_whitespace (last p) \<and> ch (CHR 0x0A) \<notin> set p)"

lemma pad_hex_value [simp]:
  "n < 2 ^ w \<Longrightarrow> parse_unsigned w 16 (pad_hex k n) = Some n"
  by (rule parse_unsigned_digits) (simp_all add: pad_hex_def)

lemma hex_u64_pad [simp]: "hex_u64 (pad_hex k (unat x)) = Some x"
  using unat_less_pow [of x] by (simp add: hex_u64_def)

lemma hex_u32_pad [simp]: "hex_u32 (pad_hex k (unat x)) = Some x"
  using unat_less_pow [of x] by (simp add: hex_u32_def)

lemma pad_hex_digits: "c \<in> set (pad_hex k n) \<Longrightarrow> \<exists>d. to_digit 16 c = Some d"
  by (rule digits_value_digits [where acc = 0 and n = n and ds = "pad_hex k n"]) (simp_all add: pad_hex_def)

lemma pad_hex_word [simp]: "is_word (pad_hex k n)"
proof -
  have "list_all (\<lambda>c. \<not> is_whitespace c) (pad_hex k n)"
    using pad_hex_digits to_digit_alnum unfolding list_all_iff by blast
  then show ?thesis by (simp add: is_word_def) (simp add: pad_hex_def)
qed

lemma pad_hex_separators [simp]: "ch CHR ''-'' \<notin> set (pad_hex k n)" "ch CHR '':'' \<notin> set (pad_hex k n)"
  using pad_hex_digits to_digit_alnum by blast+

lemma is_word_append: "is_word a \<Longrightarrow> is_word b \<Longrightarrow> \<not> is_whitespace c \<Longrightarrow> is_word (a @ c # b)"
  by (simp add: is_word_def)

lemma columns_words [simp]: "is_word (range_column k m)" "is_word (device_column k m)" "is_word (permissions m)"
  by (simp_all add: range_column_def device_column_def is_word_append)
     (simp add: permissions_def is_word_def)

lemma take_columns_word:
  assumes "is_word w" "is_whitespace c"
  shows "take_columns (Suc n) (w @ c # r) =
    and_then (take_columns n (trim_start r)) (\<lambda>(ws, r'). Inr (w # ws, r'))"
  using assms takeWhile_word [of w c r] by (simp add: is_word_def Let_def)

lemma take_columns_last: "is_word w \<Longrightarrow> take_columns (Suc 0) w = Inr ([w], [])"
  by (simp add: is_word_def list_all_iff Let_def takeWhile_eq_all_conv [THEN iffD2])

lemma trim_start_word [simp]: "is_word w \<Longrightarrow> trim_start (w @ s) = w @ s"
  by (cases w) (auto simp: is_word_def)

lemma trim_start_spaces [simp]: "trim_start (replicate n (ch CHR '' '') @ s) = trim_start s"
  by (induction n) simp_all

lemma as_bytes_permissions: "as_bytes (permissions m) =
    [if map_readable m then 0x72 else 0x2D, if map_writable m then 0x77 else 0x2D,
     if map_executable m then 0x78 else 0x2D, if map_private m then 0x70 else 0x73]"
  by (simp add: permissions_def as_bytes_def utf8_char_def byte_of_def)

lemma expressible_path:
  "expressible m \<Longrightarrow> map_pathname m = Some p \<Longrightarrow> p \<noteq> [] \<and> \<not> is_whitespace (hd p) \<and> \<not> is_whitespace (last p)"
  by (simp add: expressible_def)

lemma trim_start_path: "p \<noteq> [] \<Longrightarrow> \<not> is_whitespace (hd p) \<Longrightarrow> trim_start p = p"
  by (cases p) auto

definition columns_text :: "nat \<Rightarrow> MemoryMap \<Rightarrow> rstring" where
  "columns_text k m =
     range_column k m @ ch CHR '' '' # permissions m @ ch CHR '' '' # pad_hex k (unat (map_file_offset m))
     @ ch CHR '' '' # device_column k m @ ch CHR '' '' # show_dec (unat (map_inode m))"

lemma maps_line_columns: "maps_line k gap m = columns_text k m
     @ (case map_pathname m of None \<Rightarrow> [ch CHR '' '']
        | Some p \<Rightarrow> replicate (Suc gap) (ch CHR '' '') @ p)"
  by (simp add: maps_line_def columns_text_def)

lemma columns_text_ends:
  "columns_text k m \<noteq> []" "\<not> is_whitespace (hd (columns_text k m))" "\<not> is_whitespace (last (columns_text k m))"
proof -
  show "columns_text k m \<noteq> []" by (simp add: columns_text_def)
  show "\<not> is_whitespace (hd (columns_text k m))"
    using columns_words(1) [of k m] by (cases "range_column k m") (auto simp: columns_text_def is_word_def)
  have "last (columns_text k m) = last (show_dec (unat (map_inode m)))"
    by (simp add: columns_text_def)
  then show "\<not> is_whitespace (last (columns_text k m))"
    using show_dec_word [of "unat (map_inode m)"] by (simp add: is_word_def list_all_iff)
qed

text \<open>Trimming the line only removes the space that stands for a missing path name.\<close>

lemma trim_maps_line:
  assumes "expressible m"
  shows "trim (maps_line k gap m) = columns_text k m
     @ (case map_pathname m of None \<Rightarrow> [] | Some p \<Rightarrow> replicate (Suc gap) (ch CHR '' '') @ p)"
proof (cases "map_pathname m")
  case None
  have "trim_start (columns_text k m @ [ch CHR '' '']) = columns_text k m @ [ch CHR '' '']"
    using columns_text_ends [of k m] by (intro trim_start_path) auto
  moreover have "trim_start (columns_text k m) = columns_text k m"
    using columns_text_ends [of k m] by (intro trim_start_path) auto
  ultimately show ?thesis
    using trim_id [OF columns_text_ends, of k m] None by (simp add: maps_line_columns trim_def)
next
  case (Some p)
  then show ?thesis
    using columns_text_ends [of k m] expressible_path [OF assms Some]
    by (simp add: maps_line_columns trim_id)
qed

lemma take_columns_text:
  assumes "expressible m"
  shows "take_columns 5 (trim (maps_line k gap m)) =
    Inr ([range_column k m, permissions m, pad_hex k (unat (map_file_offset m)), device_column k m,
          show_dec (unat (map_inode m))], case map_pathname m of None \<Rightarrow> [] | Some p \<Rightarrow> p)"
proof -
  have 5: "(5 :: nat) = Suc (Suc (Suc (Suc (Suc 0))))" by simp
  show ?thesis
  proof (cases "map_pathname m")
    case None
    then show ?thesis using assms
      by (simp add: trim_maps_line columns_text_def 5 take_columns_word take_columns_last
          trim_start_word [where s = "[]", simplified] del: take_columns.simps(2))
  next
    case (Some p)
    then show ?thesis using expressible_path [OF assms Some] assms
      by (simp add: trim_maps_line columns_text_def 5 take_columns_word trim_start_path del: take_columns.simps(2))
  qed
qed

lemma parse_map_line:
  assumes "expressible m"
  shows "parse_map (maps_line k gap m) = Inr m"
proof -
  have "map_start m < map_end m" using assms by (simp add: expressible_def)
  moreover have "(if (case map_pathname m of None \<Rightarrow> [] | Some p \<Rightarrow> p) = [] then None
      else Some (case map_pathname m of None \<Rightarrow> [] | Some p \<Rightarrow> p)) = map_pathname m"
    using expressible_path [OF assms] by (auto split: option.splits)
  ultimately show ?thesis
    by (simp add: parse_map_def take_columns_text [OF assms] as_bytes_permissions
        range_column_def device_column_def)
qed

text \<open>What any accepted line yields.\<close>

lemma parse_map_range: "parse_map line = Inr m \<Longrightarrow> map_start m < map_end m"
  by (auto simp: parse_map_def and_then_eq_Inr Let_def split: if_splits)

section \<open>smaps\<close>

text \<open>An attribute line: a key, a colon and a value set off by whitespace.\<close>

definition is_attribute :: "rstring \<times> rstring \<Rightarrow> bool" where
  "is_attribute = (\<lambda>(key, v). is_word key \<and> ch CHR ''-'' \<notin> set key \<and> ch CHR '':'' \<notin> set key \<and> is_line v
     \<and> v \<noteq> [] \<and> is_whitespace (hd v))"

definition attribute_line :: "rstring \<times> rstring \<Rightarrow> rstring" where
  "attribute_line = (\<lambda>(key, v). key @ ch CHR '':'' # v)"

text \<open>The lines of one entry and the entry they denote.\<close>

definition entry_lines :: "nat \<Rightarrow> nat \<Rightarrow> MemoryMap \<times> (rstring \<times> rstring) list \<Rightarrow> rstring list" where
  "entry_lines k gap = (\<lambda>(m, as). maps_line k gap m # map attribute_line as)"

definition entry_of :: "MemoryMap \<times> (rstring \<times> rstring) list \<Rightarrow> SmapsEntry" where
  "entry_of = (\<lambda>(m, as). fold (\<lambda>(key, v). set_attribute key (attribute_bytes v)) as (SmapsEntry_from m))"

lemma split_once_attribute: "is_attribute (key, v) \<Longrightarrow> split_once (ch CHR '':'') (attribute_line (key, v)) = Some (key, v)"
  by (simp add: is_attribute_def attribute_line_def)

lemma attribute_first_word:
  assumes "is_attribute (key, v)"
  shows "\<exists>ws. split_whitespace (attribute_line (key, v)) = (key @ [ch CHR '':'']) # ws"
proof -
  obtain c cs where v: "v = c # cs" "is_whitespace c" using assms by (cases v) (auto simp: is_attribute_def)
  have "is_word (key @ [ch CHR '':''])" using assms by (simp add: is_attribute_def is_word_def)
  from split_whitespace_word [OF this v(2), of cs] show ?thesis
    by (simp add: attribute_line_def v)
qed

lemma smaps_lines_attributes:
  assumes "list_all is_attribute as"
  shows "smaps_lines (map attribute_line as @ ls) (es @ [e]) =
    smaps_lines ls (es @ [fold (\<lambda>(key, v). set_attribute key (attribute_bytes v)) as e])"
  using assms
proof (induction as arbitrary: e)
  case (Cons a as)
  obtain key v where a: "a = (key, v)" by (cases a)
  then have attr: "is_attribute (key, v)" and dash: "ch CHR ''-'' \<notin> set key"
    using Cons.prems by (auto simp: is_attribute_def)
  obtain ws where "split_whitespace (attribute_line (key, v)) = (key @ [ch CHR '':'']) # ws"
    using attribute_first_word [OF attr] by blast
  then show ?case
    using Cons.IH [of "set_attribute key (attribute_bytes v) e"] Cons.prems dash
    by (simp add: a split_once_attribute [OF attr])
qed simp

lemma maps_line_first_word: "\<exists>ws. split_whitespace (maps_line k gap m) = range_column k m # ws"
  by (simp add: maps_line_def split_whitespace_word)

lemma smaps_lines_entry:
  assumes "expressible m" "list_all is_attribute as"
  shows "smaps_lines (entry_lines k gap (m, as) @ ls) es = smaps_lines ls (es @ [entry_of (m, as)])"
proof -
  obtain ws where w: "split_whitespace (maps_line k gap m) = range_column k m # ws"
    using maps_line_first_word by blast
  have "ch CHR ''-'' \<in> set (range_column k m)" by (simp add: range_column_def)
  then have "smaps_lines (entry_lines k gap (m, as) @ ls) es =
      smaps_lines (map attribute_line as @ ls) (es @ [SmapsEntry_from m])"
    by (simp add: entry_lines_def w parse_map_line [OF assms(1)])
  then show ?thesis by (simp add: smaps_lines_attributes [OF assms(2)] entry_of_def)
qed

lemma smaps_lines_entries:
  "list_all (\<lambda>(m, as). expressible m \<and> list_all is_attribute as) xs \<Longrightarrow>
   smaps_lines (concat (map (entry_lines k gap) xs)) es = Inr (es @ map entry_of xs)"
proof (induction xs arbitrary: es)
  case (Cons x xs)
  then show ?case
    using smaps_lines_entry [of "fst x" "snd x" k gap "concat (map (entry_lines k gap) xs)" es]
    by (auto split: prod.splits)
qed simp

lemma no_line_feed: "list_all (\<lambda>c. \<not> is_whitespace c) w \<Longrightarrow> ch (CHR 0x0A) \<notin> set w"
  by (auto simp: list_all_iff)

lemma is_line_word: "is_word w \<Longrightarrow> ch (CHR 0x0A) \<notin> set w"
  by (simp add: is_word_def no_line_feed)

lemma is_line_maps_line: "expressible m \<Longrightarrow> is_line (maps_line k gap m)"
proof -
  assume m: "expressible m"
  have "ch (CHR 0x0A) \<notin> set (columns_text k m)"
    by (simp add: columns_text_def is_line_word)
  moreover have cr: "is_whitespace (ch (CHR 0x0D))" by (simp add: is_whitespace_def)
  ultimately show ?thesis
    using m by (auto simp: maps_line_columns is_line_def expressible_def split: option.splits)
qed

lemma is_line_attribute: "is_attribute a \<Longrightarrow> is_line (attribute_line a)"
  by (auto simp: is_attribute_def attribute_line_def is_line_def is_line_word split: prod.splits)

lemma parse_smaps_text:
  assumes "list_all (\<lambda>(m, as). expressible m \<and> list_all is_attribute as) xs"
  shows "parse_smaps (unlines (concat (map (entry_lines k gap) xs))) = Inr (map entry_of xs)"
proof -
  have "list_all is_line (concat (map (entry_lines k gap) xs))"
    using assms by (fastforce simp: list_all_iff entry_lines_def is_line_maps_line is_line_attribute)
  then show ?thesis
    by (simp add: parse_smaps_def text_lines_unlines smaps_lines_entries [OF assms])
qed

text \<open>The value the kernel prints for a size.\<close>

definition size_value :: "nat \<Rightarrow> u64 \<Rightarrow> rstring" where
  "size_value gap n = replicate (Suc gap) (ch CHR '' '') @ show_dec (unat n) @ lit '' kB''"

lemma split_whitespace_spaces [simp]: "split_whitespace (replicate n (ch CHR '' '') @ s) = split_whitespace s"
  by (induction n) simp_all

lemma attribute_bytes_size: "attribute_bytes (size_value gap n) = kilobytes n"
  by (simp add: attribute_bytes_def size_value_def lit_map_ch split_whitespace_word)

end
