(* ===== verification/Procfs.thy ===== *)
theory Procfs
  imports Memory_Text
begin

text \<open>
  The procfs readers of the helper (\<open>src/privileged_helper/process/procfs.rs\<close>): \<open>/proc/PID/stat\<close>,
  bounded reads, \<open>key: value\<close> files, and the identity check of
  \<open>src/privileged_helper/process/identity.rs\<close>. The text of a file, or the error the kernel gave for it, is
  an argument.
\<close>

section \<open>Bounded reads\<close>

text \<open>\<open>read_bounded_bytes\<close> takes one byte more than the limit and rejects what still exceeds it.\<close>

definition read_bounded_bytes :: "byte list \<Rightarrow> nat \<Rightarrow> byte list option" where
  "read_bounded_bytes reader limit =
     (let bytes = take (limit + 1) reader in if length bytes \<le> limit then Some bytes else None)"

lemma read_bounded_bytes_eq:
  "read_bounded_bytes r limit = (if length r \<le> limit then Some r else None)"
  by (auto simp: read_bounded_bytes_def Let_def)

definition MAX_TEXT :: nat where
  "MAX_TEXT = 16 * 1024 * 1024"

datatype read_error =
    Os nat rstring       \<comment> \<open>an \<open>io::Error\<close> with its \<open>raw_os_error\<close> and text\<close>
  | NotUtf8
  | TextTooLarge

text \<open>
  \<open>read_procfs_text\<close>: at most \<open>MAX_TEXT + 1\<close> bytes are read, they have to be UTF-8, and the extra
  byte must not be there.
\<close>

definition read_procfs_text :: "read_error + byte list \<Rightarrow> read_error + rstring" where
  "read_procfs_text content = and_then content (\<lambda>bytes.
     case from_utf8 (take (MAX_TEXT + 1) bytes) of
       None \<Rightarrow> Inl NotUtf8
     | Some text \<Rightarrow> if length (as_bytes text) \<le> MAX_TEXT then Inr text else Inl TextTooLarge)"

section \<open>Process status\<close>

record Stat =
  stat_pid :: i32
  stat_parent_pid :: i32
  stat_name :: rstring
  stat_state :: rstring
  stat_ticks :: u64
  stat_start_time :: u64
  stat_minor_faults :: u64
  stat_major_faults :: u64
  stat_priority :: i64
  stat_nice :: i64
  stat_thread_count :: u32
  stat_vms :: u64
  stat_rss :: u64
  stat_cpu :: i32
  stat_policy :: u32

datatype stat_error =
    MissingComm | MissingCommEnd | InvalidComm | MissingStatField | InvalidNumber | InvalidSigned
  | InvalidPid | MissingState | ReadFailed read_error

text \<open>The closures \<open>number\<close> and \<open>signed\<close>.\<close>

definition stat_number :: "rstring list \<Rightarrow> nat \<Rightarrow> stat_error + u64" where
  "stat_number f i = (if i < length f then ok_or (parse_u64 (f ! i)) InvalidNumber else Inl MissingStatField)"

definition stat_signed :: "rstring list \<Rightarrow> nat \<Rightarrow> stat_error + i64" where
  "stat_signed f i = (if i < length f then ok_or (parse_i64 (f ! i)) InvalidSigned else Inl MissingStatField)"

definition saturating_add :: "u64 \<Rightarrow> u64 \<Rightarrow> u64" where
  "saturating_add a b = (if unat a + unat b < 2 ^ 64 then a + b else - 1)"

definition saturating_mul :: "u64 \<Rightarrow> u64 \<Rightarrow> u64" where
  "saturating_mul a b = (if unat a * unat b < 2 ^ 64 then a * b else - 1)"

text \<open>\<open>page_size\<close> is what \<open>sysconf\<close> reports.\<close>

definition parse_process_stat :: "u64 \<Rightarrow> rstring \<Rightarrow> stat_error + Stat" where
  "parse_process_stat page_size text =
     and_then (ok_or (find_index (ch CHR ''('') text) MissingComm) (\<lambda>open.
     and_then (ok_or (rfind_index (ch CHR '')'') text) MissingCommEnd) (\<lambda>close.
     if \<not> open < close then Inl InvalidComm else
     let f = split_whitespace (drop (close + 1) text) in
     and_then (ok_or (parse_i32 (trim (take open text))) InvalidPid) (\<lambda>pid.
     and_then (stat_signed f 1) (\<lambda>parent_pid.
     and_then (if f = [] then Inl MissingState else Inr (hd f)) (\<lambda>state.
     and_then (stat_number f 11) (\<lambda>utime.
     and_then (stat_number f 12) (\<lambda>stime.
     and_then (stat_number f 19) (\<lambda>start_time.
     and_then (stat_number f 7) (\<lambda>minor_faults.
     and_then (stat_number f 9) (\<lambda>major_faults.
     and_then (stat_signed f 15) (\<lambda>priority.
     and_then (stat_signed f 16) (\<lambda>nice.
     and_then (stat_number f 17) (\<lambda>thread_count.
     and_then (stat_number f 20) (\<lambda>vms.
     and_then (stat_signed f 21) (\<lambda>rss.
     and_then (stat_signed f 36) (\<lambda>cpu.
     and_then (stat_number f 38) (\<lambda>policy.
     Inr \<lparr>stat_pid = pid, stat_parent_pid = ucast parent_pid,
       stat_name = take (close - (open + 1)) (drop (open + 1) text), stat_state = state,
       stat_ticks = saturating_add utime stime, stat_start_time = start_time,
       stat_minor_faults = minor_faults, stat_major_faults = major_faults,
       stat_priority = priority, stat_nice = nice, stat_thread_count = ucast thread_count,
       stat_vms = vms, stat_rss = saturating_mul (if 0 \<le> sint rss then rss else 0) page_size,
       stat_cpu = ucast cpu, stat_policy = ucast policy\<rparr>)))))))))))))))))"

definition read_process_stat :: "u64 \<Rightarrow> read_error + byte list \<Rightarrow> stat_error + Stat" where
  "read_process_stat page_size content =
     (case read_procfs_text content of
        Inl e \<Rightarrow> Inl (ReadFailed e)
      | Inr text \<Rightarrow> parse_process_stat page_size text)"

text \<open>
  \<open>read_procfs_fields\<close> collects the lines into a hash map, so that the last line with a key counts;
  \<open>parse_procfs_u64_field\<close> reads the first word of a field.
\<close>

definition procfs_fields :: "rstring \<Rightarrow> rstring \<Rightarrow> rstring option" where
  "procfs_fields text = map_of (rev (map (\<lambda>(k, v). (k, trim v))
     (List.map_filter (split_once (ch CHR '':'')) (text_lines text))))"

definition parse_procfs_u64_field :: "(rstring \<Rightarrow> rstring option) \<Rightarrow> rstring \<Rightarrow> u64 option" where
  "parse_procfs_u64_field fs key = Option.bind (fs key) (\<lambda>v.
     case split_whitespace v of [] \<Rightarrow> None | w # _ \<Rightarrow> parse_u64 w)"

section \<open>Identity\<close>

datatype identity_error =
    PidNotPositive            \<comment> \<open>\<open>"PID must be positive"\<close>\<close>
  | ProcessExited             \<comment> \<open>\<open>"Process exited"\<close>\<close>
  | PidReused                 \<comment> \<open>\<open>"Process exited (or PID was reused)"\<close>\<close>
  | StatFailed stat_error

definition ENOENT :: nat where "ENOENT = 2"
definition ESRCH :: nat where "ESRCH = 3"

text \<open>\<open>validate_process_identity\<close>; \<open>stat\<close> is the outcome of reading \<open>/proc/PID/stat\<close>.\<close>

definition validate_process_identity :: "stat_error + Stat \<Rightarrow> ProcessId \<Rightarrow> identity_error + unit" where
  "validate_process_identity stat pid =
     (if \<not> 0 < sint (pid_pid pid) then Inl PidNotPositive
      else case stat of
        Inl e \<Rightarrow>
          (case e of
             ReadFailed (Os errno text) \<Rightarrow>
               if errno = ENOENT \<or> errno = ESRCH then Inl ProcessExited else Inl (StatFailed e)
           | _ \<Rightarrow> Inl (StatFailed e))
      | Inr stat \<Rightarrow>
          if stat_start_time stat \<noteq> pid_start_time_ticks pid then Inl PidReused
          else if stat_state stat \<in> {lit ''Z'', lit ''X'', lit ''x''} then Inl ProcessExited
          else Inr ())"

text \<open>The message starts with \<open>"Process exited"\<close>, which is how the collector tells an exit apart.\<close>

definition is_exit :: "identity_error \<Rightarrow> bool" where
  "is_exit e \<longleftrightarrow> e = ProcessExited \<or> e = PidReused"

lemma validate_process_identity_iff:
  "validate_process_identity stat pid = Inr () \<longleftrightarrow>
     0 < sint (pid_pid pid) \<and>
     (\<exists>s. stat = Inr s \<and> stat_start_time s = pid_start_time_ticks pid
        \<and> stat_state s \<notin> {lit ''Z'', lit ''X'', lit ''x''})"
  by (auto simp: validate_process_identity_def split: sum.splits stat_error.splits read_error.splits)

section \<open>The kernel's stat line\<close>

text \<open>
  The columns after the command name. \<open>o\<close> gives the columns the program does not read, \<open>pages\<close> is the
  resident set in pages.
\<close>

definition stat_column :: "(nat \<Rightarrow> rstring) \<Rightarrow> Stat \<Rightarrow> u64 \<Rightarrow> u64 \<Rightarrow> i64 \<Rightarrow> nat \<Rightarrow> rstring" where
  "stat_column other s utime stime pages i =
     (if i = 0 then stat_state s
      else if i = 1 then show_int (sint (stat_parent_pid s))
      else if i = 7 then show_dec (unat (stat_minor_faults s))
      else if i = 9 then show_dec (unat (stat_major_faults s))
      else if i = 11 then show_dec (unat utime)
      else if i = 12 then show_dec (unat stime)
      else if i = 15 then show_int (sint (stat_priority s))
      else if i = 16 then show_int (sint (stat_nice s))
      else if i = 17 then show_dec (unat (stat_thread_count s))
      else if i = 19 then show_dec (unat (stat_start_time s))
      else if i = 20 then show_dec (unat (stat_vms s))
      else if i = 21 then show_int (sint pages)
      else if i = 36 then show_int (sint (stat_cpu s))
      else if i = 38 then show_dec (unat (stat_policy s))
      else other i)"

definition stat_columns :: "(nat \<Rightarrow> rstring) \<Rightarrow> Stat \<Rightarrow> u64 \<Rightarrow> u64 \<Rightarrow> i64 \<Rightarrow> rstring list" where
  "stat_columns other s utime stime pages = map (stat_column other s utime stime pages) [0..<50]"

definition stat_text :: "(nat \<Rightarrow> rstring) \<Rightarrow> Stat \<Rightarrow> u64 \<Rightarrow> u64 \<Rightarrow> i64 \<Rightarrow> rstring" where
  "stat_text other s utime stime pages =
     show_int (sint (stat_pid s)) @ ch CHR '' '' # ch CHR ''('' # stat_name s @ ch CHR '')'' # ch CHR '' ''
     # unwords (stat_columns other s utime stime pages)"

text \<open>A column: a word without a closing parenthesis.\<close>

definition is_column :: "rstring \<Rightarrow> bool" where
  "is_column w \<longleftrightarrow> is_word w \<and> ch CHR '')'' \<notin> set w"

lemma is_column_number [simp]: "is_column (show_dec n)" "is_column (show_int i)"
  by (simp_all add: is_column_def)

lemma stat_column_column:
  "is_column (stat_state s) \<Longrightarrow> (\<And>i. is_column (other i)) \<Longrightarrow> is_column (stat_column other s utime stime pages i)"
  by (simp add: stat_column_def)

lemma unwords_absent: "list_all (\<lambda>w. c \<notin> set w) ws \<Longrightarrow> c \<noteq> ch CHR '' '' \<Longrightarrow> c \<notin> set (unwords ws)"
  by (induction ws rule: unwords.induct) auto

lemma stat_columns_words:
  assumes "is_column (stat_state s)" "\<And>i. is_column (other i)"
  shows "split_whitespace (unwords (stat_columns other s utime stime pages)) = stat_columns other s utime stime pages"
    and "ch CHR '')'' \<notin> set (unwords (stat_columns other s utime stime pages))"
proof -
  have c: "is_column (stat_column other s utime stime pages i)" for i
    by (rule stat_column_column [OF assms])
  show "split_whitespace (unwords (stat_columns other s utime stime pages)) = stat_columns other s utime stime pages"
    using c by (intro split_whitespace_unwords) (auto simp: list_all_iff stat_columns_def is_column_def)
  show "ch CHR '')'' \<notin> set (unwords (stat_columns other s utime stime pages))"
    using c by (intro unwords_absent) (auto simp: list_all_iff stat_columns_def is_column_def)
qed

lemma stat_columns_nth:
  "i < 50 \<Longrightarrow> stat_columns other s utime stime pages ! i = stat_column other s utime stime pages i"
  "length (stat_columns other s utime stime pages) = 50"
  "stat_columns other s utime stime pages \<noteq> []"
  by (simp_all add: stat_columns_def)

lemma hd_stat_columns: "hd (stat_columns other s utime stime pages) = stat_state s"
  by (simp add: stat_columns_def upt_conv_Cons stat_column_def)

text \<open>A narrow integer printed, read as a wide one and cast back.\<close>

lemma parse_i64_narrow:
  "parse_i64 (show_int (sint (x :: i32))) = Some (word_of_int (sint x))"
proof -
  have "- (2 ^ 31) \<le> sint x" "sint x < 2 ^ 31" using sint_greater_eq [of x] sint_less [of x] by simp_all
  then have "parse_signed 64 10 (show_int (sint x)) = Some (sint x)" by (intro parse_signed_show) simp_all
  then show ?thesis by (simp add: parse_i64_def)
qed

lemma ucast_narrow:
  "ucast (word_of_int i :: u64) = (word_of_int i :: u32)" "ucast (word_of_nat n :: u64) = (word_of_nat n :: u32)"
  by (transfer; simp add: take_bit_take_bit)+

lemma narrow_i32: "ucast (scast (x :: i32) :: i64) = x"
  using ucast_narrow(1) [of "sint x"] by simp

lemma parse_u64_narrow: "parse_u64 (show_dec (unat (x :: u32))) = Some (word_of_nat (unat x))"
  using unat_less_pow [of x] by (simp add: parse_u64_def)

lemma narrow_u32: "ucast (ucast (x :: u32) :: u64) = x"
  using ucast_narrow(2) [of "unat x"] by simp

lemmas stat_read = stat_number_def stat_signed_def stat_columns_nth stat_column_def parse_i64_narrow narrow_i32
  parse_u64_narrow narrow_u32

lemma drop_prefix: "xs = p @ q \<Longrightarrow> n = length p \<Longrightarrow> drop n xs = q"
  by simp

lemma parse_process_stat_text:
  assumes "is_column (stat_state s)" "\<And>i. is_column (other i)"
    and "stat_ticks s = saturating_add utime stime"
    and "stat_rss s = saturating_mul (if 0 \<le> sint pages then pages else 0) page_size"
  shows "parse_process_stat page_size (stat_text other s utime stime pages) = Inr s"
proof -
  let ?pid = "show_int (sint (stat_pid s)) @ [ch CHR '' '']"
  let ?f = "unwords (stat_columns other s utime stime pages)"
  have line: "stat_text other s utime stime pages = ?pid @ ch CHR ''('' # stat_name s @ ch CHR '')'' # ch CHR '' '' # ?f"
    by (simp add: stat_text_def)
  have open': "find_index (ch CHR ''('') (stat_text other s utime stime pages) = Some (length ?pid)"
    unfolding line by (rule find_index_append) simp
  have close: "rfind_index (ch CHR '')'') (stat_text other s utime stime pages)
      = Some (length ?pid + 1 + length (stat_name s))"
    using rfind_index_append [of "ch CHR '')''" "ch CHR '' '' # ?f" "?pid @ ch CHR ''('' # stat_name s"]
      stat_columns_words(2) [of s other utime stime pages] assms(1,2)
    by (simp add: line)
  have pid: "trim (take (length ?pid) (stat_text other s utime stime pages)) = show_int (sint (stat_pid s))"
  proof -
    have "trim_start (show_int (sint (stat_pid s)) @ [ch CHR '' '']) = show_int (sint (stat_pid s)) @ [ch CHR '' '']"
      by (rule trim_start_word) simp
    then show ?thesis
      using trim_word [OF show_int_word, of "sint (stat_pid s)"]
        trim_start_word [of "show_int (sint (stat_pid s))" "[]"]
      by (simp add: line trim_def)
  qed
  have fields: "split_whitespace (drop (length ?pid + 1 + length (stat_name s) + 1) (stat_text other s utime stime pages))
      = stat_columns other s utime stime pages"
  proof -
    let ?head = "?pid @ ch CHR ''('' # stat_name s @ [ch CHR '')'']"
    have "drop (length ?pid + 1 + length (stat_name s) + 1) (stat_text other s utime stime pages)
        = ch CHR '' '' # ?f"
      by (rule drop_prefix [where p = ?head]) (simp_all add: line)
    then show ?thesis
      using stat_columns_words(1) [of s other utime stime pages] assms(1,2) by simp
  qed
  have name: "take (length (stat_name s)) (drop (length ?pid + 1) (stat_text other s utime stime pages)) = stat_name s"
    by (simp add: line)
  show ?thesis
    using name fields pid
    by (simp add: parse_process_stat_def open' close stat_read hd_stat_columns flip: assms(3,4))
qed

end
