(* ===== verification/Viewer_Slots.thy ===== *)
theory Viewer_Slots
  imports Prelude
begin

text \<open>
  What the two monitors of the helper have in common: a bounded number of viewers, each holding a
  registration that is given back when it is dropped. The locale states the contract once; the process
  monitor (\<open>process/monitoring/service.rs\<close>) and the system monitor (\<open>system/service.rs\<close>)
  both interpret it.
\<close>

datatype SubscribeError = Stopped | TooManySubscribers

definition MAX_VIEWERS :: usize where
  "MAX_VIEWERS = 32"

locale viewer_slots =
  fixes viewers :: "'m \<Rightarrow> usize"
    and stopped :: "'m \<Rightarrow> bool"
    and acquire :: "'m \<Rightarrow> SubscribeError + 'p \<times> 'm"
    and release :: "'p \<Rightarrow> 'm \<Rightarrow> 'm"
  assumes acquire_stopped: "stopped m \<Longrightarrow> acquire m = Inl Stopped"
    and acquire_full: "\<not> stopped m \<Longrightarrow> MAX_VIEWERS \<le> viewers m \<Longrightarrow> acquire m = Inl TooManySubscribers"
    and acquire_free: "\<not> stopped m \<Longrightarrow> viewers m < MAX_VIEWERS \<Longrightarrow>
      \<exists>p m'. acquire m = Inr (p, m') \<and> viewers m' = viewers m + 1 \<and> \<not> stopped m'"
    and release_viewers: "viewers (release p m) = viewers m - 1"
    and release_stopped: "stopped (release p m) = stopped m"
begin

lemma acquired:
  assumes "acquire m = Inr (p, m')"
  shows "\<not> stopped m" "viewers m < MAX_VIEWERS" "viewers m' = viewers m + 1" "\<not> stopped m'"
proof -
  show s: "\<not> stopped m" using assms acquire_stopped by force
  show v: "viewers m < MAX_VIEWERS" using assms acquire_full [OF s]
    by (cases "viewers m < MAX_VIEWERS") (auto simp: not_less)
  show "viewers m' = viewers m + 1" "\<not> stopped m'" using acquire_free [OF s v] assms by auto
qed

text \<open>A registration raises the count by one, without wrap-around and not above the bound.\<close>

lemma acquire_count:
  assumes "acquire m = Inr (p, m')"
  shows "unat (viewers m') = Suc (unat (viewers m))" "unat (viewers m') \<le> unat MAX_VIEWERS"
proof -
  have less: "unat (viewers m) < 32"
    using acquired(2) [OF assms] by (simp add: MAX_VIEWERS_def word_less_nat_alt)
  have "unat (viewers m + 1) = Suc (unat (viewers m))"
    using less by (simp add: unat_word_ariths(1))
  then show "unat (viewers m') = Suc (unat (viewers m))" "unat (viewers m') \<le> unat MAX_VIEWERS"
    using acquired(3) [OF assms] less by (simp_all add: MAX_VIEWERS_def)
qed

lemma release_count:
  assumes "0 < unat (viewers m)"
  shows "unat (viewers (release p m)) = unat (viewers m) - 1"
proof -
  have "viewers m \<noteq> 0" using assms by auto
  then show ?thesis by (simp add: release_viewers unat_minus_one)
qed

lemma release_acquired: "acquire m = Inr (p, m') \<Longrightarrow> viewers (release q m') = viewers m"
  using acquired(3) by (simp add: release_viewers)

end

end
