(* ===== verification/Process_Monitor.thy ===== *)
theory Process_Monitor
  imports Ipc_Schema Procfs Viewer_Slots
begin

text \<open>
  Process observation in the helper (\<open>src/privileged_helper/process/monitoring/service.rs\<close>): permits,
  the collector threads and their cancellation flags, and what a collector publishes. A cancellation flag
  is shared between a permit and its collector (\<open>Arc<AtomicBool>\<close>); the flags live in a store, and a
  permit or collector holds an index into it. Readings of procfs and of the sampler are arguments.
\<close>

section \<open>Memory maps of a target\<close>

record maps_reading =
  mr_smaps :: "rstring + SmapsEntry list"   \<comment> \<open>\<open>maps::read_smaps\<close>\<close>
  mr_valid :: "rstring + unit"              \<comment> \<open>the identity check after it\<close>
  mr_time :: u64                            \<comment> \<open>\<open>timestamp_ms\<close>\<close>
  mr_rollup :: "MemoryRollup option"        \<comment> \<open>\<open>maps::read_memory_rollup\<close>\<close>

definition permission_help :: "rstring \<Rightarrow> rstring \<Rightarrow> rstring" where
  "permission_help operation error =
     operation @ lit '': '' @ error @ lit ''. If access is denied, check the process owner, kernel.yama.ptrace_scope, and CAP_SYS_PTRACE. sudo is never run automatically.''"

definition refresh_maps :: "maps_reading \<Rightarrow> ProcessDetailSnapshot \<Rightarrow> ProcessDetailSnapshot" where
  "refresh_maps r target =
     (case and_then (mr_smaps r) (\<lambda>m. and_then (mr_valid r) (\<lambda>_. Inr m)) of
        Inr maps \<Rightarrow> target\<lparr>pds_maps := maps, pds_maps_error := None,
          pds_maps_captured_at := Some (mr_time r), pds_rollup := mr_rollup r\<rparr>
      | Inl e \<Rightarrow> target\<lparr>pds_maps := [], pds_maps_error := Some (permission_help (lit ''memory maps'') e),
          pds_rollup := None\<rparr>)"

record capture =
  cp_valid :: "rstring + unit"
  cp_summary :: "rstring + ProcessSummary"  \<comment> \<open>\<open>read_process_stat\<close> and \<open>collect_process_summary\<close>\<close>
  cp_sample :: "rstring + ProcessSample"
  cp_maps :: maps_reading
  cp_valid_after :: "rstring + unit"
  cp_bootstrap :: "rstring + unit"          \<comment> \<open>\<open>sampler.bootstrap\<close>\<close>
  cp_latest :: "LiveSample list"            \<comment> \<open>\<open>sampler.latest\<close>\<close>
  cp_mapping_snapshots :: "MappingSnapshot list"

definition capture_target :: "ProcessId \<Rightarrow> capture \<Rightarrow> rstring + ProcessDetailSnapshot" where
  "capture_target pid c =
     and_then (cp_valid c) (\<lambda>_.
     and_then (cp_summary c) (\<lambda>summary.
     if psum_identity summary \<noteq> pid then Inl (lit ''Process exited (PID reused)'') else
     and_then (cp_sample c) (\<lambda>sample.
     let target = refresh_maps (cp_maps c)
       \<lparr>pds_summary = summary, pds_exited = False, pds_error = None, pds_process_sample = sample,
        pds_maps = [], pds_maps_error = None, pds_maps_captured_at = None, pds_rollup = None,
        pds_live_samples = [], pds_mapping_snapshots = [], pds_sampling_error = None\<rparr>
     in and_then (cp_valid_after c) (\<lambda>_. Inr target))))"

text \<open>The first part of \<open>observe\<close>: the target with the samples of the bootstrap.\<close>

definition initial_target :: "ProcessId \<Rightarrow> capture \<Rightarrow> rstring + ProcessDetailSnapshot" where
  "initial_target pid c = and_then (capture_target pid c) (\<lambda>target. Inr (target
     \<lparr>pds_sampling_error := (case cp_bootstrap c of Inl e \<Rightarrow> Some e | Inr _ \<Rightarrow> pds_sampling_error target),
      pds_live_samples := cp_latest c, pds_mapping_snapshots := cp_mapping_snapshots c\<rparr>))"

section \<open>Permits and collectors\<close>

record Worker =
  worker_process :: ProcessId
  worker_cancelled :: nat

record ProcessMonitor =
  pm_interval :: nat
  pm_stopped :: bool
  pm_viewers :: usize
  pm_workers :: "Worker list"
  pm_flags :: "bool list"

record ObservationPermit =
  permit_cancelled :: nat

definition ProcessMonitor_new :: "nat \<Rightarrow> ProcessMonitor" where
  "ProcessMonitor_new interval =
     \<lparr>pm_interval = interval, pm_stopped = False, pm_viewers = 0, pm_workers = [], pm_flags = []\<rparr>"

definition reserve :: "ProcessMonitor \<Rightarrow> SubscribeError + ObservationPermit \<times> ProcessMonitor" where
  "reserve m =
     (if pm_stopped m then Inl Stopped
      else if 32 \<le> pm_viewers m then Inl TooManySubscribers
      else Inr (\<lparr>permit_cancelled = length (pm_flags m)\<rparr>,
        m\<lparr>pm_viewers := pm_viewers m + 1, pm_flags := pm_flags m @ [False]\<rparr>))"

definition drop_permit :: "ObservationPermit \<Rightarrow> ProcessMonitor \<Rightarrow> ProcessMonitor" where
  "drop_permit p m =
     m\<lparr>pm_flags := (pm_flags m)[permit_cancelled p := True], pm_viewers := pm_viewers m - 1\<rparr>"

definition process_stop :: "ProcessMonitor \<Rightarrow> ProcessMonitor" where
  "process_stop m = m\<lparr>pm_stopped := True\<rparr>"

record observing =
  ob_capture :: capture
  ob_stop :: bool                    \<comment> \<open>a stop arrives before the check under the \<open>workers\<close> lock\<close>
  ob_finished :: "Worker \<Rightarrow> bool"    \<comment> \<open>\<open>JoinHandle::is_finished\<close>\<close>
  ob_spawn :: "rstring + unit"       \<comment> \<open>\<open>thread::Builder::spawn\<close>\<close>

text \<open>
  \<open>observe\<close>: the permit moves into the session, or is dropped on every error. Finished collectors are
  reaped before the new one is started.
\<close>

definition observe ::
  "ProcessId \<Rightarrow> ObservationPermit \<Rightarrow> observing \<Rightarrow> ProcessMonitor \<Rightarrow> (rstring + ObservationPermit) \<times> ProcessMonitor"
where
  "observe pid permit o' m =
     (case initial_target pid (ob_capture o') of
        Inl e \<Rightarrow> (Inl e, drop_permit permit m)
      | Inr target \<Rightarrow>
        (let m = (if ob_stop o' then process_stop m else m) in
         if pm_stopped m then (Inl (lit ''Server is stopping''), drop_permit permit m)
         else
           (let m = m\<lparr>pm_workers := filter (\<lambda>w. \<not> ob_finished o' w) (pm_workers m)\<rparr> in
            case ob_spawn o' of
              Inl e \<Rightarrow> (Inl e, drop_permit permit m)
            | Inr _ \<Rightarrow> (Inr permit, m\<lparr>pm_workers := pm_workers m
                @ [\<lparr>worker_process = pid, worker_cancelled = permit_cancelled permit\<rparr>]\<rparr>))))"

interpretation process_slots: viewer_slots pm_viewers pm_stopped reserve drop_permit
proof
  fix m :: ProcessMonitor
  assume "\<not> pm_stopped m" "pm_viewers m < MAX_VIEWERS"
  then show "\<exists>p m'. reserve m = Inr (p, m') \<and> pm_viewers m' = pm_viewers m + 1 \<and> \<not> pm_stopped m'"
    by (auto simp: reserve_def MAX_VIEWERS_def not_less [symmetric])
qed (simp_all add: reserve_def drop_permit_def MAX_VIEWERS_def)

section \<open>A collector\<close>

text \<open>What one round of a collector sees.\<close>

record round =
  rd_polls :: "(rstring + unit) list"       \<comment> \<open>\<open>sampler.poll\<close> during the interval\<close>
  rd_ended :: bool                          \<comment> \<open>stopped, cancelled or without a receiver\<close>
  rd_sample :: "rstring + ProcessSample"    \<comment> \<open>\<open>capture_sample\<close>\<close>
  rd_time :: nat                            \<comment> \<open>the clock when the age of the maps is checked\<close>
  rd_maps :: maps_reading
  rd_maps_time :: nat                       \<comment> \<open>the clock after the maps were read\<close>
  rd_identity :: "identity_error + unit"    \<comment> \<open>the identity check after a failed sample\<close>
  rd_latest :: "LiveSample list"
  rd_mapping_snapshots :: "MappingSnapshot list"

record collector =
  col_target :: ProcessDetailSnapshot
  col_maps_at :: nat
  col_structural :: "MemoryMap list"

definition record_poll :: "rstring + unit \<Rightarrow> ProcessDetailSnapshot \<Rightarrow> ProcessDetailSnapshot" where
  "record_poll r t = t\<lparr>pds_sampling_error := (case r of Inr _ \<Rightarrow> None | Inl e \<Rightarrow> Some e)\<rparr>"

definition collect_sample :: "round \<Rightarrow> collector \<Rightarrow> collector" where
  "collect_sample r c =
     (case rd_sample r of
        Inr current \<Rightarrow>
          (let t = (col_target c)\<lparr>pds_process_sample := current, pds_error := None\<rparr> in
           if 5000 \<le> rd_time r - col_maps_at c then
             (let t = refresh_maps (rd_maps r) t in
              c\<lparr>col_target := t, col_structural := map smaps_mapping (pds_maps t), col_maps_at := rd_maps_time r\<rparr>)
           else c\<lparr>col_target := t\<rparr>)
      | Inl e \<Rightarrow> c\<lparr>col_target := (col_target c)\<lparr>pds_error := Some e,
          pds_exited := (case rd_identity r of Inl e \<Rightarrow> is_exit e | Inr _ \<Rightarrow> False)\<rparr>\<rparr>)"

text \<open>A round up to the value it publishes; \<open>None\<close> when the collector ends without publishing.\<close>

definition collector_round :: "round \<Rightarrow> collector \<Rightarrow> collector option" where
  "collector_round r c =
     (let c = c\<lparr>col_target := fold record_poll (rd_polls r) (col_target c)\<rparr> in
      if rd_ended r then None
      else (let c = collect_sample r c in
        Some (c\<lparr>col_target := (col_target c)\<lparr>pds_live_samples := rd_latest r,
          pds_mapping_snapshots := rd_mapping_snapshots r\<rparr>\<rparr>)))"

text \<open>The values a collector publishes over a sequence of rounds.\<close>

fun collector_run :: "round list \<Rightarrow> collector \<Rightarrow> ProcessDetailSnapshot list" where
  "collector_run [] c = []"
| "collector_run (r # rs) c =
     (case collector_round r c of
        None \<Rightarrow> []
      | Some c \<Rightarrow> col_target c # (if pds_exited (col_target c) then [] else collector_run rs c))"

section \<open>What a collector publishes\<close>

lemma record_poll_exited [simp]: "pds_exited (fold record_poll rs t) = pds_exited t"
  by (induction rs arbitrary: t) (simp_all add: record_poll_def)

lemma refresh_maps_exited [simp]:
  "pds_exited (refresh_maps r t) = pds_exited t" "pds_error (refresh_maps r t) = pds_error t"
  "pds_process_sample (refresh_maps r t) = pds_process_sample t"
  by (simp_all add: refresh_maps_def split: sum.splits)

text \<open>A published target is marked as exited exactly when sampling failed and the identity is gone.\<close>

lemma collector_round_exited:
  assumes "collector_round r c = Some c'" "\<not> pds_exited (col_target c)"
  shows "pds_exited (col_target c') \<longleftrightarrow> (\<exists>e f. rd_sample r = Inl e \<and> rd_identity r = Inl f \<and> is_exit f)"
    and "pds_error (col_target c') = (case rd_sample r of Inl e \<Rightarrow> Some e | Inr _ \<Rightarrow> None)"
  using assms
  by (auto simp: collector_round_def collect_sample_def Let_def split: if_splits sum.splits)

text \<open>Nothing is published after the target was marked as exited.\<close>

lemma collector_run_last:
  assumes "\<not> pds_exited (col_target c)" "Suc i < length (collector_run rs c)"
  shows "\<not> pds_exited (collector_run rs c ! i)"
  using assms
proof (induction rs arbitrary: c i)
  case (Cons r rs)
  then obtain c' where c': "collector_round r c = Some c'"
    by (cases "collector_round r c") auto
  show ?case
  proof (cases i)
    case 0
    then show ?thesis using Cons.prems c' by (auto split: if_splits)
  next
    case (Suc j)
    then show ?thesis using Cons.prems Cons.IH [of c' j] c' by (auto split: if_splits)
  qed
qed simp

text \<open>As long as the identity holds, every round that is not ended publishes a value.\<close>

lemma collector_run_length:
  assumes "\<not> pds_exited (col_target c)" "\<And>r. r \<in> set rs \<Longrightarrow> \<not> rd_ended r \<and> (\<forall>e. rd_identity r = Inl e \<longrightarrow> \<not> is_exit e)"
  shows "length (collector_run rs c) = length rs"
  using assms
proof (induction rs arbitrary: c)
  case (Cons r rs)
  then obtain c' where c': "collector_round r c = Some c'"
    by (cases "collector_round r c") (auto simp: collector_round_def Let_def)
  then have running: "\<not> pds_exited (col_target c')"
    using collector_round_exited(1) [OF c' Cons.prems(1)] Cons.prems(2) [of r] by auto
  then have "length (collector_run rs c') = length rs"
    using Cons.prems(2) by (intro Cons.IH) (auto dest: list.set_intros(2))
  then show ?case using c' running by simp
qed simp

text \<open>The mappings handed to the sampler are the ones last published.\<close>

definition structural_ok :: "collector \<Rightarrow> bool" where
  "structural_ok c \<longleftrightarrow> col_structural c = map smaps_mapping (pds_maps (col_target c))"

lemma record_poll_maps [simp]: "pds_maps (fold record_poll rs t) = pds_maps t"
  by (induction rs arbitrary: t) (simp_all add: record_poll_def)

lemma collector_round_structural:
  "collector_round r c = Some c' \<Longrightarrow> structural_ok c \<Longrightarrow> structural_ok c'"
  by (auto simp: collector_round_def collect_sample_def structural_ok_def Let_def split: if_splits sum.splits)

end
