(* ===== verification/System_Monitor.thy ===== *)
theory System_Monitor
  imports Ipc_Schema Viewer_Slots
begin

text \<open>
  Subscribers, shutdown and published snapshots of the system monitor
  (\<open>src/privileged_helper/system/service.rs\<close>). The broadcast channel belongs to a library: what a
  receiver yields is an argument of the operations that poll it. The sensors the two workers run
  are not modelled; what they publish is.
\<close>

datatype SystemMonitorEvent = Snapshot SystemSnapshot | Activity SystemActivity

record SystemMonitor =
  sm_viewers :: usize
  sm_snapshot :: SystemSnapshot
  sm_stop :: bool
  sm_started :: bool
  sm_workers :: "string list"

text \<open>The registration: \<open>Subscription\<close> with the snapshot that was current when it was made.\<close>

record SystemSubscription =
  sub_initial :: SystemSnapshot

definition SystemSnapshot_default :: SystemSnapshot where
  "SystemSnapshot_default =
     \<lparr>sys_captured_at = 0, sys_processes = [], sys_fd_relations = [], sys_rdma_ports = [], sys_rdma_relations = [],
      sys_hardware_devices = [], sys_hardware_paths = [], sys_device_handles = [], sys_warnings = [],
      sys_inspected_processes = 0, sys_inspected_fds = 0, sys_raw_owners = [], sys_raw_sockets = [],
      sys_raw_namespaces = [], sys_raw_connections = [], sys_raw_device_handles = [], sys_raw_neighbors = None,
      sys_raw_hardware = \<lparr>hwf_truncated = False, hwf_texts = [], hwf_directories = [], hwf_links = []\<rparr>,
      sys_raw_hostnames = []\<rparr>"

definition SystemMonitor_default :: SystemMonitor where
  "SystemMonitor_default =
     \<lparr>sm_viewers = 0, sm_snapshot = SystemSnapshot_default, sm_stop = False, sm_started = False, sm_workers = []\<rparr>"

definition system_stop :: "SystemMonitor \<Rightarrow> SystemMonitor" where
  "system_stop m = m\<lparr>sm_stop := True\<rparr>"

definition active :: "SystemMonitor \<Rightarrow> bool" where
  "active m \<longleftrightarrow> \<not> sm_stop m \<and> 0 < sm_viewers m"

text \<open>\<open>start\<close>: the two workers are spawned once.\<close>

definition system_start :: "SystemMonitor \<Rightarrow> SystemMonitor" where
  "system_start m =
     (if sm_started m then m
      else m\<lparr>sm_started := True, sm_workers := sm_workers m @ [''activity'', ''snapshot'']\<rparr>)"

definition subscribe :: "SystemMonitor \<Rightarrow> SubscribeError + SystemSubscription \<times> SystemMonitor" where
  "subscribe m =
     (if sm_stop m then Inl Stopped
      else if 32 \<le> sm_viewers m then Inl TooManySubscribers
      else Inr (\<lparr>sub_initial = sm_snapshot m\<rparr>, system_start (m\<lparr>sm_viewers := sm_viewers m + 1\<rparr>)))"

definition drop_subscription :: "SystemSubscription \<Rightarrow> SystemMonitor \<Rightarrow> SystemMonitor" where
  "drop_subscription sub m = m\<lparr>sm_viewers := sm_viewers m - 1\<rparr>"

text \<open>
  One round of the snapshot worker: \<open>data\<close> is collected when the monitor is active and the last
  collection is a second old; the result is the event sent and the new state. \<open>full\<close> is the time of the
  last collection, reset ten seconds back while the monitor is idle.
\<close>

definition snapshot_round ::
  "nat \<Rightarrow> SystemSnapshot \<Rightarrow> int \<times> SystemMonitor \<Rightarrow> SystemMonitorEvent option \<times> int \<times> SystemMonitor"
where
  "snapshot_round now data = (\<lambda>(full, m).
     if sm_stop m then (None, full, m)
     else if \<not> active m then (None, int now - 10000, m)
     else if 1000 \<le> int now - full then (Some (Snapshot data), int now, m\<lparr>sm_snapshot := data\<rparr>)
     else (None, full, m))"

interpretation system_slots: viewer_slots sm_viewers sm_stop subscribe drop_subscription
proof
  fix m :: SystemMonitor
  assume "\<not> sm_stop m" "sm_viewers m < MAX_VIEWERS"
  then show "\<exists>p m'. subscribe m = Inr (p, m') \<and> sm_viewers m' = sm_viewers m + 1 \<and> \<not> sm_stop m'"
    by (auto simp: subscribe_def system_start_def MAX_VIEWERS_def not_less [symmetric])
qed (simp_all add: subscribe_def drop_subscription_def MAX_VIEWERS_def)

text \<open>The workers run once, however many viewers come and go.\<close>

lemma subscribe_workers:
  "subscribe m = Inr (sub, m') \<Longrightarrow>
     sm_started m' \<and> sm_workers m' = (if sm_started m then sm_workers m else sm_workers m @ [''activity'', ''snapshot''])"
  by (auto simp: subscribe_def system_start_def split: if_splits)

end
