(* ===== verification/Wire_Size.thy ===== *)
theory Wire_Size
  imports Ipc_Schema
begin

text \<open>
  How many bytes a value takes on the wire. \<open>sized f n\<close> says that the writer \<open>f\<close> adds exactly \<open>n\<close>
  bytes whenever they fit; it is compositional, and with it the sizes of requests and of mapped file
  replies are compared with the limits of the connection.
\<close>

definition sized :: "(Encoder \<Rightarrow> codec_error + Encoder) \<Rightarrow> nat \<Rightarrow> bool" where
  "sized f n \<longleftrightarrow> (\<forall>out. length (enc_bytes out) + n \<le> enc_limit out \<longrightarrow>
     (\<exists>out'. f out = Inr out' \<and> enc_limit out' = enc_limit out
        \<and> length (enc_bytes out') = length (enc_bytes out) + n))"

named_theorems size_rules \<open>sizes of the codecs\<close>

lemma sized_append: "sized (\<lambda>out. append_bytes out bs) (length bs)"
  by (auto simp: sized_def append_bytes_def)

lemma sized_seq: "sized f m \<Longrightarrow> sized g n \<Longrightarrow> sized (\<lambda>out. and_then (f out) g) (m + n)"
  unfolding sized_def by (metis (no_types, lifting) add.assoc add_leD1 and_then_simps(2))

lemma sized_number [size_rules]: "sized (write (number_wire :: 'a::len word wire) x) (LENGTH('a) div 8)"
  using sized_append [of "to_ne_bytes x"] by (simp add: number_wire_def)

lemma sized_pair [size_rules]:
  "sized (write wa a) m \<Longrightarrow> sized (write wb b) n \<Longrightarrow> sized (write (pair_wire wa wb) (a, b)) (m + n)"
  by (simp add: pair_wire_def sized_seq)

lemma sized_struct [size_rules]: "sized (write w (proj x)) n \<Longrightarrow> sized (write (wire_struct proj mk w) x) n"
  by (simp add: wire_struct_def)

lemma sized_length: "n \<le> U32_MAX \<Longrightarrow> sized (write_length n) 4"
  using sized_number [of "word_of_nat n :: u32"] by (simp add: sized_def write_length_def)

lemma sized_blob: "length bs \<le> U32_MAX \<Longrightarrow> sized (write_blob bs) (4 + length bs)"
  using sized_seq [OF sized_length sized_append, of "length bs" bs] by (simp add: sized_def write_blob_def)

lemma sized_write_all:
  "(\<And>x. x \<in> set xs \<Longrightarrow> sized (write w x) (sz x)) \<Longrightarrow> sized (write_all w xs) (sum_list (map sz xs))"
proof (induction xs)
  case (Cons x xs)
  have "sized (write_all w xs) (sum_list (map sz xs))" using Cons by simp
  from sized_seq [OF _ this] Cons.prems [of x]
  have "sized (\<lambda>out. and_then (write w x out) (write_all w xs)) (sz x + sum_list (map sz xs))"
    by simp
  then show ?case by (simp add: sized_def)
qed (simp add: sized_def)

lemma sized_vec:
  assumes "length xs \<le> U32_MAX" "\<And>x. x \<in> set xs \<Longrightarrow> sized (write w x) (sz x)"
  shows "sized (write (vec_wire w) xs) (4 + sum_list (map sz xs))"
  using sized_seq [OF sized_length [OF assms(1)] sized_write_all [OF assms(2)]] by (simp add: vec_wire_def)

lemma sized_tagged: "sized f n \<Longrightarrow> sized (\<lambda>out. and_then (write u8_wire t out) f) (1 + n)"
  using sized_seq [OF sized_number [of t]] by simp

lemma sized_option: "sized (write w x) n \<Longrightarrow> sized (write (option_wire w) (Some x)) (1 + n)"
  using sized_tagged by (simp add: option_wire_def)

lemma sized_ok: "sized (write w x) n \<Longrightarrow> sized (write (result_wire w we) (Inr x)) (1 + n)"
  using sized_tagged by (simp add: result_wire_def)

lemma sized_unit: "sized (write unit_wire ()) 0"
  by (simp add: sized_def unit_wire_def)

text \<open>An arm: the first one that matches decides.\<close>

lemma enum_write_arm:
  "enum_write (arm t mk sel w # as) e =
     (case sel e of Some p \<Rightarrow> (\<lambda>out. and_then (write u8_wire t out) (write w p)) | None \<Rightarrow> enum_write as e)"
  "enum_write (unit_arm t c # as) e =
     (if e = c then (\<lambda>out. and_then (write u8_wire t out) (write unit_wire ())) else enum_write as e)"
  by (rule ext, simp add: arm_def unit_arm_def split: option.splits)+

lemma write_enum: "write (wire_enum as) e = enum_write as e"
  by (simp add: wire_enum_def)

text \<open>A writer that comes down to a tag and a payload.\<close>

lemma sized_tag_payload:
  "f = (\<lambda>out. and_then (write u8_wire t out) g) \<Longrightarrow> sized g n \<Longrightarrow> m = 1 + n \<Longrightarrow> sized f m"
  using sized_tagged by simp

lemmas enum_arms = write_enum enum_write_arm

lemma encode_sized:
  assumes "sized (write w x) n" "n \<le> limit" "n \<le> U32_MAX"
  shows "\<exists>bs. encode w x limit = Inr bs \<and> length bs = n"
proof -
  have "length (enc_bytes \<lparr>enc_bytes = [], enc_limit = min limit U32_MAX\<rparr>) + n
      \<le> enc_limit \<lparr>enc_bytes = [], enc_limit = min limit U32_MAX\<rparr>"
    using assms by simp
  then show ?thesis using assms(1) unfolding sized_def encode_def by fastforce
qed

section \<open>Requests\<close>

lemma sized_ProcessId: "sized (write ProcessId_wire p) 12"
  using sized_pair [OF sized_number sized_number, of "pid_pid p" "pid_start_time_ticks p"]
  by (simp add: ProcessId_wire_def wire_struct_def)

lemma sized_FileRange: "sized (write FileRange_wire r) 16"
  using sized_pair [OF sized_number sized_number, of "frange_offset r" "frange_length r"]
  by (simp add: FileRange_wire_def wire_struct_def)

lemma sized_ProcessResource: "sized (write ProcessResource_wire r) 1"
  by (cases r; rule sized_tag_payload [OF _ sized_unit]; simp add: ProcessResource_wire_def enum_arms)

lemma sized_MappedElf:
  assumes "length ranges \<le> U32_MAX"
  shows "sized (write (pair_wire ProcessId_wire (pair_wire u64_wire (vec_wire FileRange_wire))) (p, start, ranges))
    (24 + 16 * length ranges)"
proof -
  have "sized (write (vec_wire FileRange_wire) ranges) (4 + sum_list (map (\<lambda>_. 16) ranges))"
    using sized_FileRange by (intro sized_vec assms)
  then have "sized (write (vec_wire FileRange_wire) ranges) (4 + 16 * length ranges)"
    by (simp add: sum_list_triv mult.commute)
  from sized_pair [OF sized_ProcessId [of p] sized_pair [OF sized_number [of start] this]]
  show ?thesis by (simp add: add.assoc)
qed

text \<open>The size of a request.\<close>

fun request_size :: "MonitorRequest \<Rightarrow> nat" where
  "request_size MonitorRequest.Processes = 1"
| "request_size (MonitorRequest.Process p r) = 14"
| "request_size (MonitorRequest.MappedElf p start ranges) = 25 + 16 * length ranges"
| "request_size (MonitorRequest.ObserveProcess p) = 13"
| "request_size MonitorRequest.ObserveSystem = 1"
| "request_size (MonitorRequest.Poll s) = 9"
| "request_size (MonitorRequest.Close s) = 9"

definition request_ranges :: "MonitorRequest \<Rightarrow> FileRange list" where
  "request_ranges r = (case r of MonitorRequest.MappedElf p start ranges \<Rightarrow> ranges | _ \<Rightarrow> [])"

lemma sized_request:
  assumes "length (request_ranges r) \<le> U32_MAX"
  shows "sized (write MonitorRequest_wire r) (request_size r)"
proof (cases r)
  case Processes
  show ?thesis
    by (rule sized_tag_payload [OF _ sized_unit]) (simp_all add: Processes MonitorRequest_wire_def enum_arms)
next
  case (Process p res)
  show ?thesis
    by (rule sized_tag_payload [OF _ sized_pair [OF sized_ProcessId sized_ProcessResource]])
       (simp_all add: Process MonitorRequest_wire_def enum_arms)
next
  case (MappedElf p start ranges)
  then have "length ranges \<le> U32_MAX" using assms by (simp add: request_ranges_def)
  then show ?thesis
    by (intro sized_tag_payload [OF _ sized_MappedElf]) (simp_all add: MappedElf MonitorRequest_wire_def enum_arms)
next
  case (ObserveProcess p)
  show ?thesis
    by (rule sized_tag_payload [OF _ sized_ProcessId]) (simp_all add: ObserveProcess MonitorRequest_wire_def enum_arms)
next
  case ObserveSystem
  show ?thesis
    by (rule sized_tag_payload [OF _ sized_unit]) (simp_all add: ObserveSystem MonitorRequest_wire_def enum_arms)
next
  case (Poll s)
  show ?thesis
    by (rule sized_tag_payload [OF _ sized_number [of s]]) (simp_all add: Poll MonitorRequest_wire_def enum_arms)
next
  case (Close s)
  show ?thesis
    by (rule sized_tag_payload [OF _ sized_number [of s]]) (simp_all add: Close MonitorRequest_wire_def enum_arms)
qed

lemma request_encodes:
  assumes "length (request_ranges r) \<le> MAX_RANGES"
  shows "\<exists>bs. encode MonitorRequest_wire r MAX_REQUEST = Inr bs \<and> length bs = request_size r"
proof (rule encode_sized [OF sized_request])
  show "length (request_ranges r) \<le> U32_MAX" using assms by (simp add: MAX_RANGES_def U32_MAX_def)
  show "request_size r \<le> MAX_REQUEST" "request_size r \<le> U32_MAX"
    using assms by (cases r; simp add: request_ranges_def MAX_RANGES_def MAX_REQUEST_def U32_MAX_def)+
qed

end
