(* ===== verification/Mapped_Elf.thy ===== *)
theory Mapped_Elf
  imports Wire_Size Procfs
begin

text \<open>
  Acquisition of byte ranges of a mapped file (\<open>src/privileged_helper/process/elf.rs\<close> and
  \<open>acquire_process_elf_ranges\<close> in \<open>src/privileged_helper/process.rs\<close>). What the file system answers
  is an argument: for a path, the metadata of the pinned inode, of the descriptor opened from it, and
  the file's bytes.
\<close>

record Metadata =
  md_dev :: u64
  md_ino :: u64
  md_len :: u64
  md_mtime :: i64
  md_mtime_nsec :: i64
  md_is_file :: bool

definition file_identity :: "Metadata \<Rightarrow> ElfFileId" where
  "file_identity m = (md_dev m, md_ino m, md_len m, md_mtime m, md_mtime_nsec m)"

text \<open>
  A file found at a path: its metadata through \<open>O_PATH\<close>, and the descriptor opened from it with
  its metadata then and after reading. \<open>fd_content\<close> is the file when a range is read.
\<close>

record descriptor =
  fd_meta :: "Metadata option"
  fd_content :: "FileRange \<Rightarrow> rstring + byte list"
  fd_meta_after :: "rstring + Metadata"

record pinned_file =
  pin_meta :: "Metadata option"
  pin_descriptor :: "descriptor option"

text \<open>\<open>libc::major\<close> and \<open>libc::minor\<close> are arguments.\<close>

definition candidate_paths :: "rstring \<Rightarrow> MemoryMap \<Rightarrow> rstring list" where
  "candidate_paths pid m =
     [lit ''/proc/'' @ pid @ lit ''/map_files/'' @ show_hex (unat (map_start m)) @ lit ''-'' @ show_hex (unat (map_end m)),
      lit ''/proc/'' @ pid @ lit ''/exe'']
     @ (case map_pathname m of
          Some path \<Rightarrow> if prefix (lit ''/'') path \<and> \<not> suffix (lit '' (deleted)'') path
            then [lit ''/proc/'' @ pid @ lit ''/root'' @ path] else []
        | None \<Rightarrow> [])"

definition check_candidate ::
  "(u64 \<Rightarrow> u32) \<Rightarrow> (u64 \<Rightarrow> u32) \<Rightarrow> MemoryMap \<Rightarrow> pinned_file option \<Rightarrow> (descriptor \<times> Metadata) option"
where
  "check_candidate major minor m file =
     Option.bind file (\<lambda>pinned.
     Option.bind (pin_meta pinned) (\<lambda>meta.
     if \<not> md_is_file meta \<or> md_ino meta \<noteq> map_inode m \<or> major (md_dev meta) \<noteq> dev_major (map_device m)
        \<or> minor (md_dev meta) \<noteq> dev_minor (map_device m)
     then None
     else Option.bind (pin_descriptor pinned) (\<lambda>descriptor.
       Option.bind (fd_meta descriptor) (\<lambda>opened.
       if file_identity opened = file_identity meta then Some (descriptor, meta) else None))))"

fun find_first :: "('a \<Rightarrow> 'b option) \<Rightarrow> 'a list \<Rightarrow> 'b option" where
  "find_first f [] = None"
| "find_first f (x # xs) = (case f x of Some y \<Rightarrow> Some y | None \<Rightarrow> find_first f xs)"

definition matching_file ::
  "(u64 \<Rightarrow> u32) \<Rightarrow> (u64 \<Rightarrow> u32) \<Rightarrow> (rstring \<Rightarrow> pinned_file option) \<Rightarrow> i32 \<Rightarrow> MemoryMap
   \<Rightarrow> (descriptor \<times> Metadata) option"
where
  "matching_file major minor open_path pid m =
     find_first (\<lambda>path. check_candidate major minor m (open_path path)) (candidate_paths (show_int (sint pid)) m)"

section \<open>Ranges\<close>

datatype elf_error =
    TooManyRanges | RangeOutOfBounds | ReadOverflow | ReadExceedsLimit | ReadIo rstring

text \<open>The loop that checks the ranges against the file and the total against the limit.\<close>

fun check_ranges :: "u64 \<Rightarrow> FileRange list \<Rightarrow> u64 \<Rightarrow> elf_error + u64" where
  "check_ranges file_length [] sum_so_far = Inr sum_so_far"
| "check_ranges file_length (r # rs) sum_so_far =
     (if \<not> (unat (frange_offset r) + unat (frange_length r) < 2 ^ 64
            \<and> frange_offset r + frange_length r \<le> file_length) then Inl RangeOutOfBounds
      else if \<not> unat sum_so_far + unat (frange_length r) < 2 ^ 64 then Inl ReadOverflow
      else (let sum_so_far = sum_so_far + frange_length r in
        if unat sum_so_far \<le> MAX_READ_SIZE then check_ranges file_length rs sum_so_far else Inl ReadExceedsLimit))"

text \<open>\<open>read_exact_at\<close> into a buffer of the range's length.\<close>

definition read_exact_at :: "FileRange \<Rightarrow> byte list \<Rightarrow> elf_error + byte list" where
  "read_exact_at r content =
     (if unat (frange_offset r) + unat (frange_length r) \<le> length content
      then Inr (take (unat (frange_length r)) (drop (unat (frange_offset r)) content))
      else Inl (ReadIo (lit ''failed to fill whole buffer'')))"

fun read_chunks :: "descriptor \<Rightarrow> FileRange list \<Rightarrow> elf_error + FileChunk list" where
  "read_chunks fd [] = Inr []"
| "read_chunks fd (r # rs) =
     and_then (case fd_content fd r of Inl e \<Rightarrow> Inl (ReadIo e) | Inr content \<Rightarrow> read_exact_at r content) (\<lambda>bytes.
     and_then (read_chunks fd rs) (\<lambda>chunks.
     Inr (\<lparr>chunk_offset = frange_offset r, chunk_bytes = bytes\<rparr> # chunks)))"

definition read_mapped_file_ranges ::
  "(descriptor \<times> Metadata) option \<Rightarrow> FileRange list \<Rightarrow> elf_error + MonitorResponse"
where
  "read_mapped_file_ranges found ranges =
     (case found of
        None \<Rightarrow> Inr (MonitorResponse.Elf None)
      | Some (descriptor, before) \<Rightarrow>
          if unat (md_len before) > MAX_FILE_SIZE then Inr (MonitorResponse.Elf None)
          else if \<not> length ranges \<le> MAX_RANGES then Inl TooManyRanges
          else and_then (check_ranges (md_len before) ranges 0) (\<lambda>_.
            and_then (read_chunks descriptor ranges) (\<lambda>chunks.
            and_then (case fd_meta_after descriptor of Inl e \<Rightarrow> Inl (ReadIo e) | Inr m \<Rightarrow> Inr m) (\<lambda>after'.
            if file_identity before \<noteq> file_identity after' then Inr (MonitorResponse.Elf None)
            else Inr (MonitorResponse.Elf (Some
              \<lparr>mfd_identity = file_identity before, mfd_chunks = chunks\<rparr>))))))"

datatype acquire_error = Identity identity_error | MapsUnreadable rstring | ElfRead elf_error

text \<open>
  \<open>acquire_process_elf_ranges\<close>: the identity is checked before the maps are read and after the file was,
  and the mapping has to be executable and backed by a file.
\<close>

record elf_host =
  eh_valid :: "identity_error + unit"
  eh_maps :: "rstring + MemoryMap list"
  eh_open :: "rstring \<Rightarrow> pinned_file option"
  eh_major :: "u64 \<Rightarrow> u32"
  eh_minor :: "u64 \<Rightarrow> u32"
  eh_valid_after :: "identity_error + unit"

definition acquire_process_elf_ranges ::
  "elf_host \<Rightarrow> ProcessId \<Rightarrow> u64 \<Rightarrow> FileRange list \<Rightarrow> acquire_error + MonitorResponse"
where
  "acquire_process_elf_ranges h pid mapping_start ranges =
     and_then (case eh_valid h of Inl e \<Rightarrow> Inl (Identity e) | Inr _ \<Rightarrow> Inr ()) (\<lambda>_.
     and_then (case eh_maps h of Inl e \<Rightarrow> Inl (MapsUnreadable e) | Inr ms \<Rightarrow> Inr ms) (\<lambda>maps.
     let result =
       (case List.find (\<lambda>m. map_start m = mapping_start \<and> map_executable m \<and> map_inode m \<noteq> 0) maps of
          Some m \<Rightarrow> read_mapped_file_ranges (matching_file (eh_major h) (eh_minor h) (eh_open h) (pid_pid pid) m) ranges
        | None \<Rightarrow> Inr (MonitorResponse.Elf None))
     in and_then (case eh_valid_after h of Inl e \<Rightarrow> Inl (Identity e) | Inr _ \<Rightarrow> Inr ()) (\<lambda>_.
       case result of Inl e \<Rightarrow> Inl (ElfRead e) | Inr r \<Rightarrow> Inr r)))"

section \<open>Bounds\<close>

lemma check_ranges_total:
  "check_ranges len rs sum_so_far = Inr t \<Longrightarrow> unat sum_so_far \<le> MAX_READ_SIZE \<Longrightarrow>
     unat t = unat sum_so_far + sum_list (map (unat \<circ> frange_length) rs) \<and> unat t \<le> MAX_READ_SIZE"
proof (induction rs arbitrary: sum_so_far)
  case (Cons r rs)
  then have small: "unat sum_so_far + unat (frange_length r) < 2 ^ 64"
    and rest: "unat (sum_so_far + frange_length r) \<le> MAX_READ_SIZE"
      "check_ranges len rs (sum_so_far + frange_length r) = Inr t"
    by (auto simp: Let_def split: if_splits)
  have "unat (sum_so_far + frange_length r) = unat sum_so_far + unat (frange_length r)"
    using small by (simp add: unat_word_ariths(1))
  then show ?case using Cons.IH [OF rest(2,1)] by simp
qed simp

lemma check_ranges_bounds:
  "check_ranges len rs sum_so_far = Inr t \<Longrightarrow> r \<in> set rs \<Longrightarrow> unat (frange_offset r) + unat (frange_length r) \<le> unat len"
proof (induction rs arbitrary: sum_so_far)
  case (Cons x xs)
  have "unat (frange_offset x) + unat (frange_length x) \<le> unat len"
    using Cons.prems(1) by (auto simp: Let_def word_le_nat_alt unat_word_ariths(1) split: if_splits)
  then show ?case using Cons by (auto simp: Let_def split: if_splits)
qed simp

text \<open>Every chunk is the requested range of the file.\<close>

lemma read_chunks_ranges:
  "read_chunks fd rs = Inr cs \<Longrightarrow>
     list_all2 (\<lambda>r c. \<exists>content. fd_content fd r = Inr content \<and> chunk_offset c = frange_offset r
        \<and> chunk_bytes c = take (unat (frange_length r)) (drop (unat (frange_offset r)) content)
        \<and> length (chunk_bytes c) = unat (frange_length r)) rs cs"
  by (induction rs arbitrary: cs)
     (auto simp: and_then_eq_Inr read_exact_at_def split: sum.splits if_splits)

lemma chunk_lengths:
  "list_all2 (\<lambda>r c. length (chunk_bytes c) = unat (frange_length r)) rs cs \<Longrightarrow>
     map (length \<circ> chunk_bytes) cs = map (unat \<circ> frange_length) rs"
  by (induction rs cs rule: list_all2_induct) simp_all

text \<open>What a reply with data guarantees.\<close>

lemma read_mapped_file_data:
  assumes "read_mapped_file_ranges found ranges = Inr (MonitorResponse.Elf (Some d))"
  obtains descriptor before t where "found = Some (descriptor, before)" "length ranges \<le> MAX_RANGES"
    "check_ranges (md_len before) ranges 0 = Inr t" "read_chunks descriptor ranges = Inr (mfd_chunks d)"
    "mfd_identity d = file_identity before"
    "\<exists>m. fd_meta_after descriptor = Inr m \<and> file_identity m = file_identity before"
  using assms
  by (auto simp: read_mapped_file_ranges_def and_then_eq_Inr split: option.splits prod.splits if_splits sum.splits)

lemma mapped_file_total:
  assumes "read_mapped_file_ranges found ranges = Inr (MonitorResponse.Elf (Some d))"
  shows "sum_list (map (length \<circ> chunk_bytes) (mfd_chunks d)) \<le> MAX_READ_SIZE" "length (mfd_chunks d) = length ranges"
proof -
  obtain descriptor and before :: Metadata and t where t: "check_ranges (md_len before) ranges 0 = Inr t"
    and c: "read_chunks descriptor ranges = Inr (mfd_chunks d)"
    using assms by (elim read_mapped_file_data) blast
  have "map (length \<circ> chunk_bytes) (mfd_chunks d) = map (unat \<circ> frange_length) ranges"
    using read_chunks_ranges [OF c] by (intro chunk_lengths) (auto elim: list_all2_mono)
  then show "sum_list (map (length \<circ> chunk_bytes) (mfd_chunks d)) \<le> MAX_READ_SIZE"
    using check_ranges_total [OF t] by (simp add: MAX_READ_SIZE_def)
  show "length (mfd_chunks d) = length ranges"
    using list_all2_lengthD [OF read_chunks_ranges [OF c]] by simp
qed

lemma mapped_file_ok:
  assumes "read_mapped_file_ranges found ranges = Inr (MonitorResponse.Elf (Some d))"
  shows "MappedFileData_ok d"
proof -
  have "length (chunk_bytes c) \<le> MAX_READ_SIZE" if "c \<in> set (mfd_chunks d)" for c
  proof -
    have "length (chunk_bytes c) \<le> sum_list (map (length \<circ> chunk_bytes) (mfd_chunks d))"
      using that by (intro member_le_sum_list) auto
    then show ?thesis using mapped_file_total(1) [OF assms] by simp
  qed
  then show ?thesis by (simp add: MappedFileData_ok_def FileChunk_ok_def list_all_iff)
qed

text \<open>Every successful acquisition is an ELF reply, empty or read from a mapping that qualifies.\<close>

lemma acquired_elf:
  assumes "acquire_process_elf_ranges h pid mapping_start ranges = Inr r"
  shows "eh_valid h = Inr () \<and> eh_valid_after h = Inr () \<and>
    (r = MonitorResponse.Elf None \<or>
     (\<exists>maps m. eh_maps h = Inr maps \<and> m \<in> set maps \<and> map_start m = mapping_start \<and> map_executable m \<and> map_inode m \<noteq> 0
        \<and> read_mapped_file_ranges (matching_file (eh_major h) (eh_minor h) (eh_open h) (pid_pid pid) m) ranges = Inr r))"
proof -
  obtain maps where maps: "eh_maps h = Inr maps" and v: "eh_valid h = Inr ()" "eh_valid_after h = Inr ()"
    using assms
    by (cases "eh_valid h"; cases "eh_maps h"; cases "eh_valid_after h") (auto simp: acquire_process_elf_ranges_def Let_def)
  show ?thesis
  proof (cases "List.find (\<lambda>m. map_start m = mapping_start \<and> map_executable m \<and> map_inode m \<noteq> 0) maps")
    case None
    then show ?thesis using assms maps v by (simp add: acquire_process_elf_ranges_def)
  next
    case (Some m)
    then have "m \<in> set maps" "map_start m = mapping_start" "map_executable m" "map_inode m \<noteq> 0"
      by (auto simp: find_Some_iff)
    moreover have "read_mapped_file_ranges (matching_file (eh_major h) (eh_minor h) (eh_open h) (pid_pid pid) m) ranges = Inr r"
      using assms Some maps v by (auto simp: acquire_process_elf_ranges_def split: sum.splits)
    ultimately show ?thesis using maps v by blast
  qed
qed

lemma read_mapped_elf: "read_mapped_file_ranges found ranges = Inr r \<Longrightarrow> \<exists>f. r = MonitorResponse.Elf f"
  by (auto simp: read_mapped_file_ranges_def and_then_eq_Inr split: option.splits prod.splits if_splits)

lemma acquired_elf_reply:
  assumes "acquire_process_elf_ranges h pid mapping_start ranges = Inr r"
  shows "\<exists>f. r = MonitorResponse.Elf f \<and> pred_option MappedFileData_ok f"
proof (cases "r = MonitorResponse.Elf None")
  case False
  then obtain found where read: "read_mapped_file_ranges found ranges = Inr r"
    using acquired_elf [OF assms] by blast
  with False obtain d where d: "r = MonitorResponse.Elf (Some d)"
    using read_mapped_elf [OF read] by (metis not_None_eq)
  then show ?thesis using mapped_file_ok read by auto
qed simp

section \<open>The reply fits\<close>

lemma sized_FileChunk: "length (chunk_bytes c) \<le> U32_MAX \<Longrightarrow> sized (write FileChunk_wire c) (12 + length (chunk_bytes c))"
  using sized_seq [OF sized_number [of "chunk_offset c"] sized_blob [of "chunk_bytes c"]]
  by (simp add: FileChunk_wire_def add.commute)

lemma sized_MappedFileData:
  assumes "sum_list (map (length \<circ> chunk_bytes) (mfd_chunks d)) \<le> MAX_READ_SIZE" "length (mfd_chunks d) \<le> MAX_RANGES"
  shows "sized (write MappedFileData_wire d)
    (44 + 12 * length (mfd_chunks d) + sum_list (map (length \<circ> chunk_bytes) (mfd_chunks d)))"
proof -
  have "length (chunk_bytes c) \<le> U32_MAX" if "c \<in> set (mfd_chunks d)" for c
  proof -
    have "length (chunk_bytes c) \<le> sum_list (map (length \<circ> chunk_bytes) (mfd_chunks d))"
      using that by (intro member_le_sum_list) auto
    then show ?thesis using assms(1) by (simp add: MAX_READ_SIZE_def U32_MAX_def)
  qed
  then have "sized (write (vec_wire FileChunk_wire) (mfd_chunks d))
      (4 + sum_list (map (\<lambda>c. 12 + length (chunk_bytes c)) (mfd_chunks d)))"
    using assms(2) by (intro sized_vec sized_FileChunk) (simp_all add: MAX_RANGES_def U32_MAX_def)
  moreover have "sum_list (map (\<lambda>c. 12 + length (chunk_bytes c)) (mfd_chunks d)) =
      12 * length (mfd_chunks d) + sum_list (map (length \<circ> chunk_bytes) (mfd_chunks d))"
    by (induction "mfd_chunks d" arbitrary: d) (auto simp: sum_list_addf sum_list_triv o_def)
  ultimately have chunks: "sized (write (vec_wire FileChunk_wire) (mfd_chunks d))
      (4 + (12 * length (mfd_chunks d) + sum_list (map (length \<circ> chunk_bytes) (mfd_chunks d))))"
    by simp
  obtain a b c e f where i: "mfd_identity d = (a, b, c, e, f)" by (cases "mfd_identity d")
  have "sized (write ElfFileId_wire (a, b, c, e, f)) 40"
    using sized_pair [OF sized_number [of a] sized_pair [OF sized_number [of b]
      sized_pair [OF sized_number [of c] sized_pair [OF sized_number [of e] sized_number [of f]]]]]
    by simp
  from sized_pair [OF this chunks] show ?thesis
    by (simp add: MappedFileData_wire_def wire_struct_def i add.assoc)
qed

lemma mapped_file_reply_encodes:
  assumes "read_mapped_file_ranges found ranges = Inr (MonitorResponse.Elf (Some d))" "length ranges \<le> MAX_RANGES"
  shows "\<exists>bs. encode (WireResponse_wire arch) (Inr (MonitorResponse.Elf (Some d))) MAX_RESPONSE = Inr bs"
proof -
  let ?n = "44 + 12 * length (mfd_chunks d) + sum_list (map (length \<circ> chunk_bytes) (mfd_chunks d))"
  have len: "length (mfd_chunks d) \<le> MAX_RANGES" using assms mapped_file_total(2) by simp
  have "sized (write MappedFileData_wire d) ?n"
    by (rule sized_MappedFileData [OF mapped_file_total(1) [OF assms(1)] len])
  then have "sized (write (option_wire MappedFileData_wire) (Some d)) (1 + ?n)"
    by (rule sized_option)
  then have "sized (write (MonitorResponse_wire arch) (MonitorResponse.Elf (Some d))) (1 + (1 + ?n))"
    by (rule sized_tag_payload [rotated]) (simp_all add: MonitorResponse_wire_def enum_arms)
  then have "sized (write (WireResponse_wire arch) (Inr (MonitorResponse.Elf (Some d)))) (1 + (1 + (1 + ?n)))"
    unfolding WireResponse_wire_def by (rule sized_ok)
  moreover have "?n \<le> 44 + 12 * 60 + 64 * 1024 * 1024"
    using mapped_file_total(1) [OF assms(1)] len by (simp add: MAX_READ_SIZE_def MAX_RANGES_def)
  ultimately show ?thesis
    using encode_sized [of "WireResponse_wire arch" _ _ MAX_RESPONSE] by (force simp: MAX_RESPONSE_def U32_MAX_def)
qed

end
