(* ===== verification/Helper_Service.thy ===== *)
theory Helper_Service
  imports Transport Process_Monitor System_Monitor Mapped_Elf
begin

text \<open>
  The helper's request service (\<open>src/privileged_helper/helper_service.rs\<close>): observation leases,
  dispatch of every request, and the serving loop. Clocks, collectors, channel receivers and the socket
  are arguments; a stop requested by another thread may arrive between any two of the checks a
  request makes. Time is in milliseconds.
\<close>

section \<open>State\<close>

record CollectorManager =
  cm_system_monitor :: SystemMonitor
  cm_monitoring :: ProcessMonitor

definition CollectorManager_new :: "nat \<Rightarrow> CollectorManager" where
  "CollectorManager_new interval =
     \<lparr>cm_system_monitor = SystemMonitor_default, cm_monitoring = ProcessMonitor_new interval\<rparr>"

definition manager_stop :: "CollectorManager \<Rightarrow> CollectorManager" where
  "manager_stop c = c\<lparr>cm_monitoring := process_stop (cm_monitoring c),
     cm_system_monitor := system_stop (cm_system_monitor c)\<rparr>"

datatype Subscription = Process ObservationPermit | System SystemSubscription

record ObservationLease =
  lease_subscription :: Subscription
  lease_polled :: nat

record HelperIpcService =
  srv_collectors :: CollectorManager
  srv_sessions :: "(u64 \<times> ObservationLease) list"
  srv_next_session :: u64

definition HelperIpcService_new :: "CollectorManager \<Rightarrow> HelperIpcService" where
  "HelperIpcService_new c = \<lparr>srv_collectors = c, srv_sessions = [], srv_next_session = 0\<rparr>"

text \<open>Dropping a subscription gives its registration back.\<close>

definition drop_sub :: "Subscription \<Rightarrow> CollectorManager \<Rightarrow> CollectorManager" where
  "drop_sub sub c =
     (case sub of
        Subscription.Process permit \<Rightarrow> c\<lparr>cm_monitoring := drop_permit permit (cm_monitoring c)\<rparr>
      | Subscription.System s \<Rightarrow> c\<lparr>cm_system_monitor := drop_subscription s (cm_system_monitor c)\<rparr>)"

text \<open>\<open>polled.elapsed() < SESSION_LEASE\<close>; \<open>elapsed\<close> saturates at zero.\<close>

definition leased :: "nat \<Rightarrow> u64 \<times> ObservationLease \<Rightarrow> bool" where
  "leased now = (\<lambda>(_, l). now - lease_polled l < SESSION_LEASE)"

definition drop_leases :: "(u64 \<times> ObservationLease) list \<Rightarrow> CollectorManager \<Rightarrow> CollectorManager" where
  "drop_leases ss c = fold (\<lambda>(_, l). drop_sub (lease_subscription l)) ss c"

definition expire :: "nat \<Rightarrow> HelperIpcService \<Rightarrow> HelperIpcService" where
  "expire now s = s
     \<lparr>srv_sessions := filter (leased now) (srv_sessions s),
      srv_collectors := drop_leases (filter (\<lambda>x. \<not> leased now x) (srv_sessions s)) (srv_collectors s)\<rparr>"

text \<open>\<open>sessions.remove\<close>.\<close>

definition remove_session :: "u64 \<Rightarrow> HelperIpcService \<Rightarrow> HelperIpcService" where
  "remove_session k s = s
     \<lparr>srv_sessions := filter (\<lambda>(k', _). k' \<noteq> k) (srv_sessions s),
      srv_collectors := drop_leases (filter (\<lambda>(k', _). k' = k) (srv_sessions s)) (srv_collectors s)\<rparr>"

section \<open>Requests\<close>

datatype service_error =
    ServerStopping            \<comment> \<open>\<open>"Server is stopping"\<close>\<close>
  | TooManyViewers            \<comment> \<open>\<open>"Too many viewers"\<close>\<close>
  | UnknownSession            \<comment> \<open>\<open>"unknown or expired observation session"\<close>\<close>
  | SessionsExhausted         \<comment> \<open>\<open>"session IDs exhausted"\<close>\<close>
  | InvalidIdentity identity_error
  | AcquireFailed acquire_error
  | CollectFailed rstring

text \<open>\<open>format!("{e:#}")\<close>; the texts of the collectors' errors are an argument.\<close>

definition error_text :: "(service_error \<Rightarrow> rstring) \<Rightarrow> service_error \<Rightarrow> rstring" where
  "error_text describe e =
     (case e of
        ServerStopping \<Rightarrow> lit ''Server is stopping''
      | TooManyViewers \<Rightarrow> lit ''Too many viewers''
      | UnknownSession \<Rightarrow> lit ''unknown or expired observation session''
      | SessionsExhausted \<Rightarrow> lit ''session IDs exhausted''
      | CollectFailed t \<Rightarrow> t
      | _ \<Rightarrow> describe e)"

definition subscribe_error :: "SubscribeError \<Rightarrow> service_error" where
  "subscribe_error e = (case e of Stopped \<Rightarrow> ServerStopping | TooManySubscribers \<Rightarrow> TooManyViewers)"

datatype TryRecvError = Lagged u64 | Empty | Closed

text \<open>What a request meets.\<close>

record host =
  h_expire :: nat                                \<comment> \<open>the clock in \<open>expire\<close>\<close>
  h_now :: nat                                   \<comment> \<open>\<open>Instant::now\<close> for the lease\<close>
  h_stop_process :: bool                         \<comment> \<open>a stop between the first check and \<open>reserve\<close>\<close>
  h_stop_system :: bool                          \<comment> \<open>a stop between the first check and \<open>subscribe\<close>\<close>
  h_stat :: "stat_error + Stat"                  \<comment> \<open>\<open>/proc/PID/stat\<close> for the identity check\<close>
  h_stat_after :: "stat_error + Stat"            \<comment> \<open>and for the one after collection\<close>
  h_processes :: "rstring + ProcessSummary list"
  h_observation :: "rstring + ObservationData"
  h_threads :: "rstring + ObservationData"
  h_maps :: "rstring + MemoryMaps"
  h_environment :: "rstring + EnvironmentData"
  h_auxv :: "rstring + AuxData"
  h_fds :: "rstring + FileDescriptors"
  h_elf :: elf_host
  h_observing :: observing
  h_changed :: "unit + bool"                     \<comment> \<open>\<open>watch::Receiver::has_changed\<close>\<close>
  h_borrow :: ProcessDetailSnapshot              \<comment> \<open>\<open>watch::Receiver::borrow_and_update\<close>\<close>
  h_recv :: "TryRecvError + SystemMonitorEvent"  \<comment> \<open>\<open>broadcast::Receiver::try_recv\<close>\<close>

definition collected :: "rstring + 'a \<Rightarrow> service_error + 'a" where
  "collected r = (case r of Inl e \<Rightarrow> Inl (CollectFailed e) | Inr x \<Rightarrow> Inr x)"

definition validated :: "stat_error + Stat \<Rightarrow> ProcessId \<Rightarrow> service_error + unit" where
  "validated stat pid =
     (case validate_process_identity stat pid of Inl e \<Rightarrow> Inl (InvalidIdentity e) | Inr u \<Rightarrow> Inr u)"

definition start ::
  "Subscription \<Rightarrow> MonitorEvent \<Rightarrow> nat \<Rightarrow> HelperIpcService \<Rightarrow> (service_error + MonitorResponse) \<times> HelperIpcService"
where
  "start sub initial now s =
     (if srv_next_session s = - 1
      then (Inl SessionsExhausted, s\<lparr>srv_collectors := drop_sub sub (srv_collectors s)\<rparr>)
      else
        (let session = srv_next_session s + 1; s = remove_session session s in
         (Inr (MonitorResponse.Started session initial),
          s\<lparr>srv_next_session := session,
            srv_sessions := (session, \<lparr>lease_subscription = sub, lease_polled = now\<rparr>) # srv_sessions s\<rparr>)))"

text \<open>Collection of a process resource.\<close>

definition collect_resource :: "host \<Rightarrow> ProcessResource \<Rightarrow> service_error + AcquiredData" where
  "collect_resource h resource =
     (case resource of
        ProcessResource.Observation \<Rightarrow> and_then (collected (h_observation h)) (\<lambda>d. Inr (AcquiredData.Observation d))
      | ProcessResource.Threads \<Rightarrow> and_then (collected (h_threads h)) (\<lambda>d. Inr (AcquiredData.Observation d))
      | ProcessResource.Maps \<Rightarrow> and_then (collected (h_maps h)) (\<lambda>d. Inr (AcquiredData.Maps d))
      | ProcessResource.Environment \<Rightarrow> and_then (collected (h_environment h)) (\<lambda>d. Inr (AcquiredData.Environment d))
      | ProcessResource.Auxv \<Rightarrow> and_then (collected (h_auxv h)) (\<lambda>d. Inr (AcquiredData.Auxv d))
      | ProcessResource.Fds \<Rightarrow> and_then (collected (h_fds h)) (\<lambda>d. Inr (AcquiredData.Fds d)))"

definition observe_process ::
  "host \<Rightarrow> ProcessId \<Rightarrow> HelperIpcService \<Rightarrow> (service_error + MonitorResponse) \<times> HelperIpcService"
where
  "observe_process h pid s =
     (case validated (h_stat h) pid of
        Inl e \<Rightarrow> (Inl e, s)
      | Inr _ \<Rightarrow>
        (let c = srv_collectors s;
             m = (if h_stop_process h then process_stop (cm_monitoring c) else cm_monitoring c) in
         case reserve m of
           Inl e \<Rightarrow> (Inl (subscribe_error e), s\<lparr>srv_collectors := c\<lparr>cm_monitoring := m\<rparr>\<rparr>)
         | Inr (permit, m) \<Rightarrow>
           (case observe pid permit (h_observing h) m of
              (Inl e, m) \<Rightarrow> (Inl (CollectFailed e), s\<lparr>srv_collectors := c\<lparr>cm_monitoring := m\<rparr>\<rparr>)
            | (Inr permit, m) \<Rightarrow>
              start (Subscription.Process permit) (MonitorEvent.Observation (h_borrow h)) (h_now h)
                (s\<lparr>srv_collectors := c\<lparr>cm_monitoring := m\<rparr>\<rparr>))))"

definition observe_system ::
  "host \<Rightarrow> HelperIpcService \<Rightarrow> (service_error + MonitorResponse) \<times> HelperIpcService"
where
  "observe_system h s =
     (let c = srv_collectors s;
          m = (if h_stop_system h then system_stop (cm_system_monitor c) else cm_system_monitor c) in
      case subscribe m of
        Inl e \<Rightarrow> (Inl (subscribe_error e), s\<lparr>srv_collectors := c\<lparr>cm_system_monitor := m\<rparr>\<rparr>)
      | Inr (sub, m) \<Rightarrow>
        start (Subscription.System sub) (MonitorEvent.AcquiredSnapshot (sub_initial sub)) (h_now h)
          (s\<lparr>srv_collectors := c\<lparr>cm_system_monitor := m\<rparr>\<rparr>))"

text \<open>The event a poll finds, and whether it ends the session.\<close>

definition poll_event :: "host \<Rightarrow> SystemSnapshot \<Rightarrow> Subscription \<Rightarrow> MonitorEvent option \<times> bool" where
  "poll_event h snapshot sub =
     (case sub of
        Subscription.Process _ \<Rightarrow>
          (case h_changed h of
             Inr True \<Rightarrow> (Some (MonitorEvent.Observation (h_borrow h)), pds_exited (h_borrow h))
           | Inr False \<Rightarrow> (None, False)
           | Inl _ \<Rightarrow> (Some (MonitorEvent.Observation (h_borrow h)), True))
      | Subscription.System _ \<Rightarrow>
          (case h_recv h of
             Inr (SystemMonitorEvent.Snapshot data) \<Rightarrow> (Some (MonitorEvent.AcquiredSnapshot data), False)
           | Inr (SystemMonitorEvent.Activity data) \<Rightarrow> (Some (MonitorEvent.Activity data), False)
           | Inl (Lagged dropped) \<Rightarrow> (Some (MonitorEvent.AcquisitionGap dropped snapshot), False)
           | Inl TryRecvError.Empty \<Rightarrow> (None, False)
           | Inl TryRecvError.Closed \<Rightarrow> (None, True)))"

definition poll ::
  "host \<Rightarrow> u64 \<Rightarrow> HelperIpcService \<Rightarrow> (service_error + MonitorResponse) \<times> HelperIpcService"
where
  "poll h session s =
     (case map_of (srv_sessions s) session of
        None \<Rightarrow> (Inl UnknownSession, s)
      | Some lease \<Rightarrow>
        (let s = s\<lparr>srv_sessions := map (\<lambda>(k, l). if k = session then (k, l\<lparr>lease_polled := h_now h\<rparr>) else (k, l))
               (srv_sessions s)\<rparr>;
             (event, closed) = poll_event h (sm_snapshot (cm_system_monitor (srv_collectors s))) (lease_subscription lease)
         in (Inr (MonitorResponse.Event event closed), if closed then remove_session session s else s)))"

definition dispatch ::
  "host \<Rightarrow> MonitorRequest \<Rightarrow> HelperIpcService \<Rightarrow> (service_error + MonitorResponse) \<times> HelperIpcService"
where
  "dispatch h request s0 =
     (let s = expire (h_expire h) s0 in
      case request of
        MonitorRequest.Close session \<Rightarrow> (Inr MonitorResponse.Closed, remove_session session s)
      | _ \<Rightarrow>
        if pm_stopped (cm_monitoring (srv_collectors s)) then (Inl ServerStopping, s)
        else (case request of
          MonitorRequest.MappedElf pid mapping_start ranges \<Rightarrow>
            (case acquire_process_elf_ranges (h_elf h) pid mapping_start ranges of
               Inl e \<Rightarrow> (Inl (AcquireFailed e), s)
             | Inr r \<Rightarrow> (Inr r, s))
        | MonitorRequest.Processes \<Rightarrow>
            (and_then (collected (h_processes h)) (\<lambda>ps. Inr (MonitorResponse.Data (AcquiredData.Processes ps))), s)
        | MonitorRequest.Process pid resource \<Rightarrow>
            (and_then (validated (h_stat h) pid) (\<lambda>_.
             and_then (collect_resource h resource) (\<lambda>data.
             and_then (validated (h_stat_after h) pid) (\<lambda>_.
             Inr (MonitorResponse.Data data)))), s)
        | MonitorRequest.ObserveProcess pid \<Rightarrow> observe_process h pid s
        | MonitorRequest.ObserveSystem \<Rightarrow> observe_system h s
        | MonitorRequest.Poll session \<Rightarrow> poll h session s
        | MonitorRequest.Close session \<Rightarrow> (Inr MonitorResponse.Closed, s)))"

section \<open>The serving loop\<close>

datatype poll_outcome = Ready | TimedOutPoll | PollInterrupted | PollFailed nat

text \<open>
  One iteration of \<open>serve\<close>: what \<open>poll\<close> reported, and the schedules of the calls that read the request
  and write the reply.
\<close>

record iteration =
  it_expire :: nat
  it_poll :: poll_outcome
  it_read_time :: nat
  it_reads :: "attempt list"
  it_host :: host
  it_send_time :: nat
  it_writes :: "attempt list"
  it_resend_time :: nat
  it_rewrites :: "attempt list"

datatype serve_error = PollError nat | TransportError transport_error

text \<open>The socket: bytes still to be read, and bytes written.\<close>

record socket =
  incoming :: "byte list"
  outgoing :: "byte list"

definition size_limit_reply :: WireResponse where
  "size_limit_reply = Inl (lit ''monitor response exceeds size limit'')"

definition wire_reply :: "(service_error \<Rightarrow> rstring) \<Rightarrow> service_error + MonitorResponse \<Rightarrow> WireResponse" where
  "wire_reply describe r = (case r of Inl e \<Rightarrow> Inl (error_text describe e) | Inr x \<Rightarrow> Inr x)"

text \<open>Sending the reply, or the bounded error in its place.\<close>

definition send_reply ::
  "Arch \<Rightarrow> WireResponse \<Rightarrow> iteration \<Rightarrow> byte list \<Rightarrow> (transport_error + byte list) option"
where
  "send_reply arch response it out =
     (case send (WireResponse_wire arch) response MAX_RESPONSE (it_send_time it) out (it_writes it) of
        None \<Rightarrow> None
      | Some (Inr (out, _)) \<Rightarrow> Some (Inr out)
      | Some (Inl e) \<Rightarrow>
          if e = Codec LimitExceeded then
            (case send (WireResponse_wire arch) size_limit_reply MAX_RESPONSE (it_resend_time it) out (it_rewrites it) of
               None \<Rightarrow> None
             | Some (Inr (out, _)) \<Rightarrow> Some (Inr out)
             | Some (Inl e) \<Rightarrow> Some (Inl e))
          else Some (Inl e))"

text \<open>An iteration: \<open>None\<close> while a call has not returned, \<open>Inl\<close> when the loop ends with an error.\<close>

definition serve_step ::
  "Arch \<Rightarrow> (service_error \<Rightarrow> rstring) \<Rightarrow> iteration \<Rightarrow> HelperIpcService \<times> socket
   \<Rightarrow> (serve_error + HelperIpcService \<times> socket) option"
where
  "serve_step arch describe it = (\<lambda>(s, sock).
     let s = expire (it_expire it) s in
     case it_poll it of
       TimedOutPoll \<Rightarrow> Some (Inr (s, sock))
     | PollInterrupted \<Rightarrow> Some (Inr (s, sock))
     | PollFailed n \<Rightarrow> Some (Inl (PollError n))
     | Ready \<Rightarrow>
       (case read_message MonitorRequest_wire MAX_REQUEST (it_read_time it) (incoming sock) (it_reads it) of
          None \<Rightarrow> None
        | Some (Inl e) \<Rightarrow> Some (Inl (TransportError e))
        | Some (Inr (request, rest, _)) \<Rightarrow>
          (case dispatch (it_host it) request s of (res, s) \<Rightarrow>
           (case send_reply arch (wire_reply describe res) it (outgoing sock) of
              None \<Rightarrow> None
            | Some (Inl e) \<Rightarrow> Some (Inl (TransportError e))
            | Some (Inr out) \<Rightarrow> Some (Inr (s, \<lparr>incoming = rest, outgoing = out\<rparr>))))))"

fun serve ::
  "Arch \<Rightarrow> (service_error \<Rightarrow> rstring) \<Rightarrow> iteration list \<Rightarrow> HelperIpcService \<times> socket
   \<Rightarrow> (serve_error + HelperIpcService \<times> socket) option"
where
  "serve arch describe [] st = Some (Inr st)"
| "serve arch describe (it # its) st =
     (case serve_step arch describe it st of
        None \<Rightarrow> None
      | Some (Inl e) \<Rightarrow> Some (Inl e)
      | Some (Inr st) \<Rightarrow> serve arch describe its st)"

end
