(* ===== verification/Helper_Invariants.thy ===== *)
theory Helper_Invariants
  imports Helper_Service
begin

text \<open>
  The invariant of the request service: every registration with a monitor belongs to exactly one live
  session (or is being set up), session identifiers are unique, and collectors that were not told to stop
  belong to live sessions. It is kept by every operation, whatever the clocks, the collectors and
  concurrent stops do.
\<close>

section \<open>Registrations\<close>

text \<open>The cancellation flags held by process sessions and the number of system sessions.\<close>

definition permits :: "(u64 \<times> ObservationLease) list \<Rightarrow> nat list" where
  "permits ss = concat (map (\<lambda>(_, l). case lease_subscription l of
     Subscription.Process p \<Rightarrow> [permit_cancelled p] | Subscription.System _ \<Rightarrow> []) ss)"

definition systems :: "(u64 \<times> ObservationLease) list \<Rightarrow> nat" where
  "systems ss = length (filter (\<lambda>(_, l). case lease_subscription l of
     Subscription.Process _ \<Rightarrow> False | Subscription.System _ \<Rightarrow> True) ss)"

lemma permits_simps [simp]:
  "permits [] = []" "permits (ss @ ts) = permits ss @ permits ts"
  "permits ((k, l) # ss) = (case lease_subscription l of
     Subscription.Process p \<Rightarrow> [permit_cancelled p] | Subscription.System _ \<Rightarrow> []) @ permits ss"
  by (simp_all add: permits_def)

lemma systems_simps [simp]:
  "systems [] = 0" "systems (ss @ ts) = systems ss + systems ts"
  "systems ((k, l) # ss) = (case lease_subscription l of
     Subscription.Process _ \<Rightarrow> 0 | Subscription.System _ \<Rightarrow> 1) + systems ss"
  by (simp_all add: systems_def split: Subscription.splits)

text \<open>
  The process monitor with the set \<open>H\<close> of permits handed out: the viewer count is exact and bounded,
  the flags of the permits are not set, and a collector whose flag is not set belongs to a permit.
\<close>

definition process_ok :: "nat set \<Rightarrow> ProcessMonitor \<Rightarrow> bool" where
  "process_ok H m \<longleftrightarrow>
     finite H \<and> unat (pm_viewers m) = card H \<and> card H \<le> 32
     \<and> (\<forall>a\<in>H. a < length (pm_flags m) \<and> \<not> pm_flags m ! a)
     \<and> distinct (map worker_cancelled (pm_workers m))
     \<and> (\<forall>w\<in>set (pm_workers m). worker_cancelled w < length (pm_flags m)
          \<and> (\<not> pm_flags m ! worker_cancelled w \<longrightarrow> worker_cancelled w \<in> H))"

definition system_ok :: "nat \<Rightarrow> SystemMonitor \<Rightarrow> bool" where
  "system_ok n m \<longleftrightarrow> unat (sm_viewers m) = n \<and> n \<le> 32
     \<and> sm_workers m = (if sm_started m then [''activity'', ''snapshot''] else [])
     \<and> (0 < n \<longrightarrow> sm_started m)"

definition service_ok :: "HelperIpcService \<Rightarrow> bool" where
  "service_ok s \<longleftrightarrow>
     distinct (map fst (srv_sessions s))
     \<and> (\<forall>k\<in>fst ` set (srv_sessions s). k \<le> srv_next_session s)
     \<and> distinct (permits (srv_sessions s))
     \<and> process_ok (set (permits (srv_sessions s))) (cm_monitoring (srv_collectors s))
     \<and> system_ok (systems (srv_sessions s)) (cm_system_monitor (srv_collectors s))"

section \<open>Monitors\<close>

lemma process_ok_stop [simp]: "process_ok H (process_stop m) = process_ok H m"
  by (simp add: process_ok_def process_stop_def)

lemma process_stop_stopped [simp]: "pm_stopped (process_stop m)"
  by (simp add: process_stop_def)

lemma system_ok_stop [simp]: "system_ok n (system_stop m) = system_ok n m"
  by (simp add: system_ok_def system_stop_def)

lemma process_ok_drop:
  assumes "process_ok H m" "permit_cancelled p \<in> H"
  shows "process_ok (H - {permit_cancelled p}) (drop_permit p m)"
proof -
  have "unat (pm_viewers m) = card H" "finite H" "card H > 0"
    using assms by (auto simp: process_ok_def card_gt_0_iff)
  then have "unat (pm_viewers (drop_permit p m)) = card (H - {permit_cancelled p})"
    using assms(2) process_slots.release_count [of m p] by simp
  then show ?thesis using assms
    by (auto simp: process_ok_def drop_permit_def nth_list_update split: if_splits)
qed

lemma process_ok_reserve:
  assumes "process_ok H m" "reserve m = Inr (p, m')"
  shows "process_ok (insert (permit_cancelled p) H) m'" "permit_cancelled p \<notin> H"
    "permit_cancelled p \<notin> worker_cancelled ` set (pm_workers m')"
proof -
  have p: "permit_cancelled p = length (pm_flags m)" "pm_flags m' = pm_flags m @ [False]" "pm_workers m' = pm_workers m"
    using assms(2) by (auto simp: reserve_def split: if_splits)
  show new: "permit_cancelled p \<notin> H" using assms(1) p by (auto simp: process_ok_def)
  show "permit_cancelled p \<notin> worker_cancelled ` set (pm_workers m')" using assms(1) p by (auto simp: process_ok_def)
  have "unat (pm_viewers m') = Suc (card H)" "Suc (card H) \<le> 32"
    using process_slots.acquire_count [OF assms(2)] assms(1) by (simp_all add: process_ok_def MAX_VIEWERS_def)
  then show "process_ok (insert (permit_cancelled p) H) m'"
    using assms(1) new p by (auto simp: process_ok_def nth_append intro: less_SucI)
qed

lemma process_ok_observe:
  assumes "process_ok H m" "permit_cancelled p \<in> H" "permit_cancelled p \<notin> worker_cancelled ` set (pm_workers m)"
    and "observe pid p o' m = (r, m')"
  shows "(\<exists>e. r = Inl e \<and> process_ok (H - {permit_cancelled p}) m') \<or> r = Inr p \<and> process_ok H m'"
proof -
  let ?reaped = "\<lambda>m. m\<lparr>pm_workers := filter (\<lambda>w. \<not> ob_finished o' w) (pm_workers m)\<rparr>"
  have reaped: "process_ok H (?reaped m)"
    using assms(1) by (auto simp: process_ok_def distinct_map_filter)
  have "process_ok (H - {permit_cancelled p}) (drop_permit p m'')" if "process_ok H m''" for m''
    using that assms(2) by (rule process_ok_drop)
  moreover have "process_ok H ((?reaped m)\<lparr>pm_workers := pm_workers (?reaped m)
      @ [\<lparr>worker_process = pid, worker_cancelled = permit_cancelled p\<rparr>]\<rparr>)"
    using reaped assms(2,3) by (auto simp: process_ok_def)
  ultimately show ?thesis
    using assms(1,4) reaped
    by (auto simp: observe_def Let_def split: sum.splits if_splits)
qed

lemma system_ok_drop: "system_ok (Suc n) m \<Longrightarrow> system_ok n (drop_subscription sub m)"
  using system_slots.release_count [of m sub] by (auto simp: system_ok_def drop_subscription_def)

lemma system_ok_subscribe:
  assumes "system_ok n m" "subscribe m = Inr (sub, m')"
  shows "system_ok (Suc n) m'"
  using system_slots.acquire_count [OF assms(2)] subscribe_workers [OF assms(2)] assms(1)
  by (auto simp: system_ok_def MAX_VIEWERS_def)

section \<open>Sessions\<close>

text \<open>Dropping leases gives back exactly their registrations.\<close>

lemma drop_leases_ok:
  assumes "process_ok (H \<union> set (permits ss)) (cm_monitoring c)" "system_ok (n + systems ss) (cm_system_monitor c)"
    and "distinct (permits ss)" "H \<inter> set (permits ss) = {}"
  shows "process_ok H (cm_monitoring (drop_leases ss c)) \<and> system_ok n (cm_system_monitor (drop_leases ss c))"
  using assms
proof (induction ss arbitrary: c)
  case (Cons x ss)
  obtain k l where x: "x = (k, l)" by (cases x)
  let ?c = "drop_sub (lease_subscription l) c"
  have "process_ok (H \<union> set (permits ss)) (cm_monitoring ?c) \<and> system_ok (n + systems ss) (cm_system_monitor ?c)"
  proof (cases "lease_subscription l")
    case (Process p)
    have "H \<union> set (permits (x # ss)) - {permit_cancelled p} = H \<union> set (permits ss)"
      using Cons.prems(3,4) by (auto simp: x Process)
    then show ?thesis
      using process_ok_drop [OF Cons.prems(1), of p] Cons.prems(2) by (simp add: x Process drop_sub_def)
  next
    case (System sub)
    then show ?thesis using Cons.prems(1,2) system_ok_drop by (simp add: x drop_sub_def)
  qed
  then show ?case
    using Cons.IH [of ?c] Cons.prems(3,4) by (auto simp: x drop_leases_def)
qed (simp add: drop_leases_def)

lemma permits_partition:
  "set (permits ss) = set (permits (filter P ss)) \<union> set (permits (filter (\<lambda>x. \<not> P x) ss))"
  "systems ss = systems (filter P ss) + systems (filter (\<lambda>x. \<not> P x) ss)"
  by (induction ss) auto

lemma permits_filter_subset: "set (permits (filter P ss)) \<subseteq> set (permits ss)"
  by (auto simp: permits_def)

lemma permits_filter_distinct:
  assumes "distinct (permits ss)"
  shows "distinct (permits (filter P ss))" "set (permits (filter P ss)) \<inter> set (permits (filter (\<lambda>x. \<not> P x) ss)) = {}"
  using assms
proof (induction ss)
  case (Cons x ss)
  obtain k l where x: "x = (k, l)" by (cases x)
  have sub: "set (permits (filter P ss)) \<subseteq> set (permits ss)" "set (permits (filter (\<lambda>x. \<not> P x) ss)) \<subseteq> set (permits ss)"
    by (rule permits_filter_subset)+
  {
    case 1
    then show ?case using Cons sub by (auto simp: x split: Subscription.splits)
  next
    case 2
    then show ?case using Cons sub by (auto simp: x split: Subscription.splits)
  }
qed simp_all

text \<open>Keeping some sessions and dropping the others: what \<open>expire\<close> and \<open>remove\<close> do.\<close>

lemma service_ok_retain:
  assumes "service_ok s"
  shows "service_ok (s\<lparr>srv_sessions := filter P (srv_sessions s),
    srv_collectors := drop_leases (filter (\<lambda>x. \<not> P x) (srv_sessions s)) (srv_collectors s)\<rparr>)"
proof -
  let ?ss = "srv_sessions s"
  have d: "distinct (permits ?ss)" using assms by (simp add: service_ok_def)
  have "process_ok (set (permits (filter P ?ss)) \<union> set (permits (filter (\<lambda>x. \<not> P x) ?ss))) (cm_monitoring (srv_collectors s))"
    "system_ok (systems (filter P ?ss) + systems (filter (\<lambda>x. \<not> P x) ?ss)) (cm_system_monitor (srv_collectors s))"
    using assms unfolding service_ok_def by (simp_all flip: permits_partition)
  from drop_leases_ok [OF this permits_filter_distinct(1) [OF d] permits_filter_distinct(2) [OF d]]
  show ?thesis
    using assms permits_filter_distinct(1) [OF d] by (auto simp: service_ok_def distinct_map_filter)
qed

lemma service_ok_expire: "service_ok s \<Longrightarrow> service_ok (expire now s)"
  unfolding expire_def by (rule service_ok_retain)

lemma service_ok_remove: "service_ok s \<Longrightarrow> service_ok (remove_session k s)"
  using service_ok_retain [of s "\<lambda>(k', _). k' \<noteq> k"] by (simp add: remove_session_def case_prod_unfold)

lemma remove_session_absent: "k \<notin> fst ` set (srv_sessions s) \<Longrightarrow> remove_session k s = s"
proof -
  assume "k \<notin> fst ` set (srv_sessions s)"
  then have "filter (\<lambda>(k', _). k' \<noteq> k) (srv_sessions s) = srv_sessions s" "filter (\<lambda>(k', _). k' = k) (srv_sessions s) = []"
    by (force simp: filter_id_conv filter_empty_conv)+
  then show ?thesis by (simp add: remove_session_def drop_leases_def)
qed

text \<open>The next identifier is new.\<close>

lemma word_less_succ:
  assumes "(w :: u64) \<noteq> - 1"
  shows "w < w + 1"
proof -
  have "1 + w \<noteq> 0" using assms by (metis add.commute eq_neg_iff_add_eq_0)
  then have "unat (1 + w) = Suc (unat w)" by (rule unatSuc)
  then show ?thesis by (simp add: word_less_nat_alt add.commute)
qed

lemma next_session_new:
  assumes "service_ok s" "srv_next_session s \<noteq> - 1"
  shows "srv_next_session s + 1 \<notin> fst ` set (srv_sessions s)" "srv_next_session s < srv_next_session s + 1"
proof -
  show less: "srv_next_session s < srv_next_session s + 1"
    by (rule word_less_succ [OF assms(2)])
  show "srv_next_session s + 1 \<notin> fst ` set (srv_sessions s)"
    using assms(1) less unfolding service_ok_def by (metis not_less)
qed

text \<open>A registration that is not yet a session, as the lease it will become.\<close>

lemma start_ok:
  fixes sub now
  defines "x \<equiv> \<lambda>k :: u64. (k, \<lparr>lease_subscription = sub, lease_polled = now\<rparr>)"
  assumes shape: "distinct (map fst (srv_sessions s))" "\<forall>k\<in>fst ` set (srv_sessions s). k \<le> srv_next_session s"
    and regs: "distinct (permits (x 0 # srv_sessions s))"
      "process_ok (set (permits (x 0 # srv_sessions s))) (cm_monitoring (srv_collectors s))"
      "system_ok (systems (x 0 # srv_sessions s)) (cm_system_monitor (srv_collectors s))"
  shows "service_ok (snd (start sub initial now s))"
proof (cases "srv_next_session s = - 1")
  case True
  have "process_ok (set (permits (srv_sessions s))) (cm_monitoring (drop_leases [x 0] (srv_collectors s)))
      \<and> system_ok (systems (srv_sessions s)) (cm_system_monitor (drop_leases [x 0] (srv_collectors s)))"
    using regs by (intro drop_leases_ok) (auto simp: x_def Un_commute split: Subscription.splits)
  then show ?thesis
    using True shape regs(1) by (auto simp: start_def service_ok_def drop_leases_def x_def)
next
  case False
  let ?k = "srv_next_session s + 1"
  have less: "srv_next_session s < ?k" using False by (rule word_less_succ)
  then have new: "?k \<notin> fst ` set (srv_sessions s)" using shape(2) by (metis not_less)
  have "permits (x ?k # srv_sessions s) = permits (x 0 # srv_sessions s)"
    "systems (x ?k # srv_sessions s) = systems (x 0 # srv_sessions s)"
    by (simp_all add: x_def)
  moreover have "\<forall>k\<in>fst ` set (srv_sessions s). k \<le> ?k" using shape(2) less by (meson le_less_trans less_imp_le)
  ultimately show ?thesis
    using False new shape regs
    by (simp add: start_def Let_def remove_session_absent service_ok_def x_def)
qed

lemma observe_process_ok:
  assumes "service_ok s"
  shows "service_ok (snd (observe_process h pid s))"
proof -
  let ?c = "srv_collectors s" and ?H = "set (permits (srv_sessions s))"
  let ?m = "if h_stop_process h then process_stop (cm_monitoring ?c) else cm_monitoring ?c"
  have m: "process_ok ?H ?m" using assms by (simp add: service_ok_def)
  show ?thesis
  proof (cases "validated (h_stat h) pid")
    case Inl
    then show ?thesis using assms by (simp add: observe_process_def)
  next
    case valid: Inr
    show ?thesis
    proof (cases "reserve ?m")
      case (Inl e)
      then show ?thesis using assms valid m by (simp add: observe_process_def Let_def service_ok_def)
    next
      case (Inr a)
      obtain p m1 where a: "a = (p, m1)" by (cases a)
      obtain r m2 where o: "observe pid p (h_observing h) m1 = (r, m2)" by fastforce
      note res = process_ok_reserve [OF m Inr [unfolded a]]
      have "(\<exists>e. r = Inl e \<and> process_ok ?H m2) \<or> r = Inr p \<and> process_ok (insert (permit_cancelled p) ?H) m2"
        using process_ok_observe [OF res(1) _ res(3) o] res(2) by simp
      then show ?thesis
      proof (elim disjE exE conjE)
        fix e
        assume "r = Inl e" "process_ok ?H m2"
        then show ?thesis using assms valid Inr a o by (simp add: observe_process_def Let_def service_ok_def)
      next
        assume r: "r = Inr p" and ok: "process_ok (insert (permit_cancelled p) ?H) m2"
        have "service_ok (snd (start (Subscription.Process p) (MonitorEvent.Observation (h_borrow h)) (h_now h)
            (s\<lparr>srv_collectors := ?c\<lparr>cm_monitoring := m2\<rparr>\<rparr>)))"
          using assms ok res(2) by (intro start_ok) (simp_all add: service_ok_def)
        then show ?thesis using valid Inr a o r by (simp add: observe_process_def Let_def)
      qed
    qed
  qed
qed

lemma observe_system_ok:
  assumes "service_ok s"
  shows "service_ok (snd (observe_system h s))"
proof -
  let ?c = "srv_collectors s"
  let ?m = "if h_stop_system h then system_stop (cm_system_monitor ?c) else cm_system_monitor ?c"
  have m: "system_ok (systems (srv_sessions s)) ?m" using assms by (simp add: service_ok_def)
  show ?thesis
  proof (cases "subscribe ?m")
    case (Inl e)
    then show ?thesis using assms m by (simp add: observe_system_def Let_def service_ok_def)
  next
    case (Inr a)
    obtain sub m' where a: "a = (sub, m')" by (cases a)
    have "system_ok (Suc (systems (srv_sessions s))) m'"
      by (rule system_ok_subscribe [OF m Inr [unfolded a]])
    then have "service_ok (snd (start (Subscription.System sub) (MonitorEvent.AcquiredSnapshot (sub_initial sub)) (h_now h)
        (s\<lparr>srv_collectors := ?c\<lparr>cm_system_monitor := m'\<rparr>\<rparr>)))"
      using assms by (intro start_ok) (simp_all add: service_ok_def)
    then show ?thesis using Inr a by (simp add: observe_system_def Let_def)
  qed
qed

text \<open>A poll renews the lease and nothing else of it.\<close>

definition renew :: "u64 \<Rightarrow> nat \<Rightarrow> (u64 \<times> ObservationLease) list \<Rightarrow> (u64 \<times> ObservationLease) list" where
  "renew session now = map (\<lambda>(k, l). if k = session then (k, l\<lparr>lease_polled := now\<rparr>) else (k, l))"

lemma renew_simps [simp]:
  "map fst (renew k now ss) = map fst ss" "permits (renew k now ss) = permits ss" "systems (renew k now ss) = systems ss"
  "fst ` set (renew k now ss) = fst ` set ss"
proof -
  show fsts: "map fst (renew k now ss) = map fst ss" by (induction ss) (auto simp: renew_def)
  show "permits (renew k now ss) = permits ss" "systems (renew k now ss) = systems ss"
    by (induction ss) (auto simp: renew_def)
  show "fst ` set (renew k now ss) = fst ` set ss" using fsts by (metis list.set_map)
qed

lemma poll_ok: "service_ok s \<Longrightarrow> service_ok (snd (poll h session s))"
proof -
  assume s: "service_ok s"
  then have "service_ok (s\<lparr>srv_sessions := renew session (h_now h) (srv_sessions s)\<rparr>)"
    by (simp add: service_ok_def)
  then show ?thesis
    using s service_ok_remove by (simp add: poll_def renew_def Let_def split: option.splits prod.splits)
qed

lemma dispatch_ok: "service_ok s \<Longrightarrow> service_ok (snd (dispatch h r s))"
  using service_ok_expire [of s "h_expire h"]
  by (simp add: dispatch_def Let_def observe_process_ok observe_system_ok poll_ok service_ok_remove
      split: MonitorRequest.split sum.split)

end
