(* ===== verification/Helper_Properties.thy ===== *)
theory Helper_Properties
  imports Helper_Invariants
begin

text \<open>
  The behaviour of the request service over time: the states it can reach while requests, expiry, stops
  and published snapshots interleave, and what the replies guarantee to a client.
\<close>

section \<open>A sample host\<close>

text \<open>A host on which every collector fails, except that process 42 can be observed.\<close>

definition sample_process :: ProcessId where
  "sample_process = \<lparr>pid_pid = 42, pid_start_time_ticks = 7\<rparr>"

definition sample_stat :: Stat where
  "sample_stat = \<lparr>stat_pid = 42, stat_parent_pid = 1, stat_name = lit ''demo'', stat_state = lit ''S'', stat_ticks = 3,
     stat_start_time = 7, stat_minor_faults = 0, stat_major_faults = 0, stat_priority = 20, stat_nice = 0,
     stat_thread_count = 1, stat_vms = 4096, stat_rss = 4096, stat_cpu = 0, stat_policy = 0\<rparr>"

definition sample_summary :: ProcessSummary where
  "sample_summary = \<lparr>psum_identity = sample_process, psum_parent_pid = 1, psum_name = lit ''demo'', psum_executable = None,
     psum_command_line = None, psum_uid = None, psum_username = None, psum_euid = None, psum_effective_username = None,
     psum_state = lit ''S'', psum_started_at = None, psum_cpu_percent = None, psum_rss_bytes = 4096,
     psum_thread_count = 1, psum_raw_ticks = 3, psum_raw_measured_ns = 9\<rparr>"

definition sample_sample :: ProcessSample where
  "sample_sample = \<lparr>psample_timestamp = 5, psample_process_id = sample_process, psample_rss_bytes = 4096,
     psample_vms_bytes = 4096, psample_minor_faults = 0, psample_major_faults = 0,
     psample_voluntary_context_switches = None, psample_nonvoluntary_context_switches = None, psample_io = None,
     psample_threads = [], psample_cpu = 0, psample_nice = 0, psample_priority = 20, psample_ticks = 3,
     psample_measured_at = 9\<rparr>"

definition sample_maps :: maps_reading where
  "sample_maps = \<lparr>mr_smaps = Inr [], mr_valid = Inr (), mr_time = 5, mr_rollup = None\<rparr>"

definition sample_capture :: capture where
  "sample_capture = \<lparr>cp_valid = Inr (), cp_summary = Inr sample_summary, cp_sample = Inr sample_sample, cp_maps = sample_maps,
     cp_valid_after = Inr (), cp_bootstrap = Inr (), cp_latest = [], cp_mapping_snapshots = []\<rparr>"

definition sample_target :: ProcessDetailSnapshot where
  "sample_target = \<lparr>pds_summary = sample_summary, pds_exited = False, pds_error = None, pds_process_sample = sample_sample,
     pds_maps = [], pds_maps_error = None, pds_maps_captured_at = Some 5, pds_rollup = None, pds_live_samples = [],
     pds_mapping_snapshots = [], pds_sampling_error = None\<rparr>"

definition sample_observing :: observing where
  "sample_observing = \<lparr>ob_capture = sample_capture, ob_stop = False, ob_finished = (\<lambda>_. False), ob_spawn = Inr ()\<rparr>"

definition sample_elf :: elf_host where
  "sample_elf = \<lparr>eh_valid = Inr (), eh_maps = Inr [], eh_open = (\<lambda>_. None), eh_major = (\<lambda>_. 0), eh_minor = (\<lambda>_. 0),
     eh_valid_after = Inr ()\<rparr>"

text \<open>The host at a time given in milliseconds; \<open>changed\<close> is the state of the watch channel.\<close>

definition sample_host :: "nat \<Rightarrow> unit + bool \<Rightarrow> host" where
  "sample_host now changed = \<lparr>h_expire = now, h_now = now, h_stop_process = False, h_stop_system = False,
     h_stat = Inr sample_stat, h_stat_after = Inr sample_stat, h_processes = Inr [sample_summary],
     h_observation = Inr \<lparr>od_process_sample = sample_sample, od_threads_only = False\<rparr>, h_threads = Inl [],
     h_maps = Inl [], h_environment = Inl [], h_auxv = Inl [], h_fds = Inl [], h_elf = sample_elf,
     h_observing = sample_observing, h_changed = changed, h_borrow = sample_target, h_recv = Inl TryRecvError.Empty\<rparr>"

definition sample_start :: HelperIpcService where
  "sample_start = HelperIpcService_new (CollectorManager_new 1000)"

text \<open>The service with process 42 observed since time 100.\<close>

definition sample_service :: HelperIpcService where
  "sample_service = snd (dispatch (sample_host 100 (Inr False)) (MonitorRequest.ObserveProcess sample_process) sample_start)"

lemmas sample_defs = sample_process_def sample_stat_def sample_summary_def sample_sample_def sample_maps_def
  sample_capture_def sample_target_def sample_observing_def sample_host_def sample_start_def

lemmas service_defs = dispatch_def expire_def drop_leases_def observe_process_def validated_def
  validate_process_identity_def reserve_def observe_def initial_target_def capture_target_def refresh_maps_def
  start_def remove_session_def HelperIpcService_new_def CollectorManager_new_def ProcessMonitor_new_def

lemma sample_service_eq:
  "sample_service = \<lparr>srv_collectors =
     \<lparr>cm_system_monitor = SystemMonitor_default,
      cm_monitoring = \<lparr>pm_interval = 1000, pm_stopped = False, pm_viewers = 1,
        pm_workers = [\<lparr>worker_process = sample_process, worker_cancelled = 0\<rparr>], pm_flags = [False]\<rparr>\<rparr>,
     srv_sessions = [(1, \<lparr>lease_subscription = Subscription.Process \<lparr>permit_cancelled = 0\<rparr>, lease_polled = 100\<rparr>)],
     srv_next_session = 1\<rparr>"
  by (simp add: sample_service_def service_defs sample_defs Let_def lit_eq_iff)

section \<open>Reachable states\<close>

text \<open>
  A step of the helper: a request, an expiry pass of the serving loop, one half of a stop (the
  two monitors are stopped one after the other), or a round of the snapshot worker.
\<close>

inductive service_step :: "HelperIpcService \<Rightarrow> HelperIpcService \<Rightarrow> bool" where
  request: "service_step s (snd (dispatch h r s))"
| expiry: "service_step s (expire now s)"
| stop_process: "service_step s (s\<lparr>srv_collectors := (srv_collectors s)
    \<lparr>cm_monitoring := process_stop (cm_monitoring (srv_collectors s))\<rparr>\<rparr>)"
| stop_system: "service_step s (s\<lparr>srv_collectors := (srv_collectors s)
    \<lparr>cm_system_monitor := system_stop (cm_system_monitor (srv_collectors s))\<rparr>\<rparr>)"
| snapshot: "snapshot_round now data (full, cm_system_monitor (srv_collectors s)) = (event, full', m) \<Longrightarrow>
    service_step s (s\<lparr>srv_collectors := (srv_collectors s)\<lparr>cm_system_monitor := m\<rparr>\<rparr>)"

inductive reachable :: "nat \<Rightarrow> HelperIpcService \<Rightarrow> bool" for interval where
  initial: "reachable interval (HelperIpcService_new (CollectorManager_new interval))"
| step: "reachable interval s \<Longrightarrow> service_step s s' \<Longrightarrow> reachable interval s'"

inductive_cases service_stepE: "service_step s s'"

lemma system_ok_round: "system_ok n m \<Longrightarrow> snapshot_round now data (full, m) = (event, full', m') \<Longrightarrow> system_ok n m'"
  by (auto simp: snapshot_round_def system_ok_def split: if_splits)

lemma service_ok_initial: "service_ok (HelperIpcService_new (CollectorManager_new interval))"
  by (simp add: service_ok_def HelperIpcService_new_def CollectorManager_new_def ProcessMonitor_new_def
      SystemMonitor_default_def process_ok_def system_ok_def)

lemma service_step_ok: "service_step s s' \<Longrightarrow> service_ok s \<Longrightarrow> service_ok s'"
  by (induction rule: service_step.induct)
     (auto simp: dispatch_ok service_ok_expire, auto simp: service_ok_def system_ok_round)

lemma reachable_ok: "reachable interval s \<Longrightarrow> service_ok s"
  by (induction rule: reachable.induct) (auto simp: service_ok_initial service_step_ok)

lemma dispatch_reachable: "reachable interval s \<Longrightarrow> reachable interval (snd (dispatch h r s))"
  by (rule reachable.step [OF _ request])

lemma sample_service_reachable: "reachable 1000 sample_service"
  unfolding sample_service_def sample_start_def by (intro dispatch_reachable reachable.initial)

text \<open>Sessions that observe a process.\<close>

definition process_sessions :: "HelperIpcService \<Rightarrow> nat" where
  "process_sessions s = length (filter (\<lambda>(_, l). case lease_subscription l of
     Subscription.Process _ \<Rightarrow> True | Subscription.System _ \<Rightarrow> False) (srv_sessions s))"

lemma length_permits: "length (permits ss) = length (filter (\<lambda>(_, l). case lease_subscription l of
     Subscription.Process _ \<Rightarrow> True | Subscription.System _ \<Rightarrow> False) ss)"
  by (induction ss) (auto split: Subscription.splits)

lemma systems_permits: "systems ss + length (permits ss) = length ss"
  by (induction ss) (auto split: Subscription.splits)

text \<open>Collectors that were not told to stop.\<close>

definition running :: "ProcessMonitor \<Rightarrow> Worker list" where
  "running m = filter (\<lambda>w. \<not> pm_flags m ! worker_cancelled w) (pm_workers m)"

lemma running_bound:
  assumes "process_ok H m"
  shows "length (running m) \<le> card H"
proof -
  have "distinct (map worker_cancelled (running m))"
    using assms by (auto simp: process_ok_def running_def distinct_map_filter)
  then have "length (running m) = card (worker_cancelled ` set (running m))"
    by (metis distinct_card length_map list.set_map)
  also have "\<dots> \<le> card H"
    using assms by (intro card_mono) (auto simp: process_ok_def running_def)
  finally show ?thesis .
qed

text \<open>C7: whatever the interleaving of requests, expiry and stops, the viewer counts of the two monitors are
  the numbers of live sessions and stay within 32, session identifiers are distinct, and no more than 32
  collectors run that were not told to stop.\<close>

theorem sessions_accounted:
  assumes "reachable interval s"
  shows "unat (pm_viewers (cm_monitoring (srv_collectors s))) = process_sessions s
    \<and> unat (sm_viewers (cm_system_monitor (srv_collectors s))) = length (srv_sessions s) - process_sessions s
    \<and> process_sessions s \<le> 32 \<and> length (srv_sessions s) - process_sessions s \<le> 32
    \<and> distinct (map fst (srv_sessions s))
    \<and> length (running (cm_monitoring (srv_collectors s))) \<le> process_sessions s"
proof -
  let ?ss = "srv_sessions s"
  have ok: "service_ok s" by (rule reachable_ok [OF assms])
  have card: "card (set (permits ?ss)) = process_sessions s"
    using ok by (simp add: service_ok_def distinct_card length_permits process_sessions_def)
  have "systems ?ss = length ?ss - process_sessions s"
    using systems_permits [of ?ss] by (simp add: length_permits process_sessions_def)
  moreover have p: "process_ok (set (permits ?ss)) (cm_monitoring (srv_collectors s))"
    and "system_ok (systems ?ss) (cm_system_monitor (srv_collectors s))" "distinct (map fst ?ss)"
    using ok by (simp_all add: service_ok_def)
  ultimately show ?thesis
    using running_bound [OF p] by (simp add: card process_ok_def system_ok_def)
qed

theorem sessions_accounted_witness:
  "process_sessions sample_service = 1 \<and> unat (pm_viewers (cm_monitoring (srv_collectors sample_service))) = 1
   \<and> length (running (cm_monitoring (srv_collectors sample_service))) \<le> 1"
proof -
  have "process_sessions sample_service = 1" by (simp add: process_sessions_def sample_service_eq)
  then show ?thesis using sessions_accounted [OF sample_service_reachable] by simp
qed

section \<open>Leases\<close>

lemma expire_lookup:
  assumes "distinct (map fst (srv_sessions s))"
  shows "map_of (srv_sessions (expire now s)) k =
    (case map_of (srv_sessions s) k of
       Some l \<Rightarrow> if now - lease_polled l < SESSION_LEASE then Some l else None
     | None \<Rightarrow> None)"
proof -
  have "map_of (filter (leased now) ss) k =
      (case map_of ss k of Some l \<Rightarrow> if now - lease_polled l < SESSION_LEASE then Some l else None | None \<Rightarrow> None)"
    if "distinct (map fst ss)" for ss :: "(u64 \<times> ObservationLease) list"
    using that
  proof (induction ss)
    case (Cons x ss)
    have "map_of (filter (leased now) ss) (fst x) = None"
      using Cons.prems by (auto simp: map_of_eq_None_iff)
    then show ?case using Cons by (auto simp: leased_def split: option.splits prod.splits)
  qed simp
  from this [OF assms] show ?thesis by (simp add: expire_def)
qed

lemma drop_sub_monitor [simp]:
  "pm_workers (cm_monitoring (drop_sub sub c)) = pm_workers (cm_monitoring c)"
  "pm_stopped (cm_monitoring (drop_sub sub c)) = pm_stopped (cm_monitoring c)"
  by (simp_all add: drop_sub_def drop_permit_def split: Subscription.splits)

lemma drop_leases_workers:
  "pm_workers (cm_monitoring (drop_leases ss c)) = pm_workers (cm_monitoring c)"
  "pm_stopped (cm_monitoring (drop_leases ss c)) = pm_stopped (cm_monitoring c)"
  by (induction ss arbitrary: c) (simp_all add: drop_leases_def case_prod_unfold)

lemma expire_stopped [simp]:
  "pm_stopped (cm_monitoring (srv_collectors (expire now s))) = pm_stopped (cm_monitoring (srv_collectors s))"
  by (simp add: expire_def drop_leases_workers)

lemma dispatch_poll:
  assumes "\<not> pm_stopped (cm_monitoring (srv_collectors s))"
  shows "dispatch h (MonitorRequest.Poll k) s = poll h k (expire (h_expire h) s)"
  using assms by (simp add: dispatch_def Let_def)

lemma remove_session_lookup [simp]: "map_of (srv_sessions (remove_session k s)) k = None"
  by (auto simp: remove_session_def map_of_eq_None_iff)

lemma map_of_renew: "map_of (renew k now ss) k = map_option (\<lambda>l. l\<lparr>lease_polled := now\<rparr>) (map_of ss k)"
  by (induction ss) (auto simp: renew_def)



text \<open>The last observation of a process is not lost. When its collector has ended, the next poll
  delivers the final value, marks the session closed, ends it and tells the collector's flag so; the
  identifier is unknown from then on.\<close>

theorem final_observation_delivered:
  assumes "reachable interval s" "\<not> pm_stopped (cm_monitoring (srv_collectors s))"
    and "map_of (srv_sessions s) k = Some l" "lease_subscription l = Subscription.Process p"
    and "h_expire h < lease_polled l + SESSION_LEASE" "h_changed h = Inl ()"
  shows "case dispatch h (MonitorRequest.Poll k) s of (r, s') \<Rightarrow>
    r = Inr (MonitorResponse.Event (Some (MonitorEvent.Observation (h_borrow h))) True)
    \<and> map_of (srv_sessions s') k = None
    \<and> fst (dispatch h' (MonitorRequest.Poll k) s') \<in> {Inl UnknownSession, Inl ServerStopping}"
proof -
  obtain r s' where d: "dispatch h (MonitorRequest.Poll k) s = (r, s')" by fastforce
  have ok: "service_ok s" by (rule reachable_ok [OF assms(1)])
  have "h_expire h - lease_polled l < SESSION_LEASE" using assms(5) by (simp add: SESSION_LEASE_def)
  then have look: "map_of (srv_sessions (expire (h_expire h) s)) k = Some l"
    using assms(3) ok by (simp add: expire_lookup service_ok_def)
  then have r: "r = Inr (MonitorResponse.Event (Some (MonitorEvent.Observation (h_borrow h))) True)"
    and gone: "map_of (srv_sessions s') k = None"
    using d by (auto simp: dispatch_poll [OF assms(2)] poll_def poll_event_def assms(4,6) Let_def)
  have "service_ok s'" using dispatch_ok [OF ok, of h "MonitorRequest.Poll k"] d by simp
  then have "map_of (srv_sessions (expire (h_expire h') s')) k = None"
    using gone by (simp add: expire_lookup service_ok_def)
  then have "fst (dispatch h' (MonitorRequest.Poll k) s') \<in> {Inl UnknownSession, Inl ServerStopping}"
    by (simp add: dispatch_def poll_def Let_def)
  then show ?thesis using d r gone by simp
qed

theorem final_observation_delivered_witness:
  "fst (dispatch (sample_host 200 (Inl ())) (MonitorRequest.Poll 1) sample_service) =
     Inr (MonitorResponse.Event (Some (MonitorEvent.Observation sample_target)) True)"
proof -
  let ?l = "\<lparr>lease_subscription = Subscription.Process \<lparr>permit_cancelled = 0\<rparr>, lease_polled = 100\<rparr>"
  have "\<not> pm_stopped (cm_monitoring (srv_collectors sample_service))" "map_of (srv_sessions sample_service) 1 = Some ?l"
    "lease_subscription ?l = Subscription.Process \<lparr>permit_cancelled = 0\<rparr>"
    "h_expire (sample_host 200 (Inl ())) < lease_polled ?l + SESSION_LEASE" "h_changed (sample_host 200 (Inl ())) = Inl ()"
    by (simp_all add: sample_service_eq sample_host_def SESSION_LEASE_def)
  from final_observation_delivered [OF sample_service_reachable this, where h' = "sample_host 300 (Inr False)"]
  show ?thesis by (simp add: case_prod_unfold) (simp add: sample_host_def)
qed

section \<open>Sequences of requests\<close>

fun dispatch_all ::
  "(host \<times> MonitorRequest) list \<Rightarrow> HelperIpcService \<Rightarrow> (service_error + MonitorResponse) list \<times> HelperIpcService"
where
  "dispatch_all [] s = ([], s)"
| "dispatch_all ((h, r) # rs) s =
     (case dispatch h r s of (reply, s) \<Rightarrow> (case dispatch_all rs s of (replies, s) \<Rightarrow> (reply # replies, s)))"

text \<open>The identifiers that replies hand out.\<close>

definition started_session :: "service_error + MonitorResponse \<Rightarrow> u64 list" where
  "started_session r = (case r of Inr (MonitorResponse.Started k _) \<Rightarrow> [k] | _ \<Rightarrow> [])"

lemma next_session_simps [simp]:
  "srv_next_session (expire now s) = srv_next_session s"
  "srv_next_session (remove_session k s) = srv_next_session s"
  by (simp_all add: expire_def remove_session_def)

text \<open>A reply hands out the next identifier, or the counter stays.\<close>

definition numbered :: "HelperIpcService \<Rightarrow> (service_error + MonitorResponse) \<times> HelperIpcService \<Rightarrow> bool" where
  "numbered s = (\<lambda>(r, s'). started_session r = [] \<and> srv_next_session s' = srv_next_session s
     \<or> started_session r = [srv_next_session s'] \<and> srv_next_session s < srv_next_session s')"

lemma numbered_start: "numbered s (start sub initial now s)"
  by (auto simp: numbered_def start_def started_session_def Let_def word_less_succ)

lemma numbered_cong: "srv_next_session s = srv_next_session t \<Longrightarrow> numbered s x = numbered t x"
  by (simp add: numbered_def)

lemma numbered_start_update: "numbered s (start sub initial now (s\<lparr>srv_collectors := c\<rparr>))"
  using numbered_start [of "s\<lparr>srv_collectors := c\<rparr>"] by (simp add: numbered_def)

lemma numbered_error: "srv_next_session s' = srv_next_session s \<Longrightarrow> numbered s (Inl e, s')"
  by (simp add: numbered_def started_session_def)

lemma numbered_observe: "numbered s (observe_process h pid s)" "numbered s (observe_system h s)"
  by (simp_all add: observe_process_def observe_system_def Let_def numbered_start_update numbered_error
      split: sum.split prod.split)

lemma numbered_dispatch: "numbered s (dispatch h r s)"
proof -
  have n: "srv_next_session s = srv_next_session (expire (h_expire h) s)" by simp
  have "numbered (expire (h_expire h) s) (dispatch h r s)"
  proof (cases "r")
    case (MappedElf pid mapping ranges)
    then show ?thesis
      using acquired_elf_reply [of "h_elf h" pid mapping ranges]
      by (auto simp: dispatch_def Let_def numbered_def started_session_def split: sum.splits)
  qed (auto simp: dispatch_def Let_def numbered_observe, auto simp: numbered_def started_session_def poll_def Let_def
      and_then_def split: sum.splits option.splits prod.splits)
  then show ?thesis by (simp add: numbered_cong [OF n])
qed

lemma dispatch_all_numbered:
  "sorted_wrt (<) (srv_next_session s # concat (map started_session (fst (dispatch_all rs s))))"
proof (induction rs arbitrary: s)
  case (Cons x rs)
  obtain h r where x: "x = (h, r)" by (cases x)
  obtain reply s1 where d: "dispatch h r s = (reply, s1)" by fastforce
  have "fst (dispatch_all (x # rs) s) = reply # fst (dispatch_all rs s1)"
    by (simp add: x d split: prod.splits)
  then show ?case
    using Cons.IH [of s1] numbered_dispatch [of s h r] by (auto simp: d numbered_def intro: less_trans)
qed simp

text \<open>Session identifiers are never reused. Over any sequence of requests the identifiers handed out
  increase strictly, from the current counter on, also across closed and expired sessions; when the
  counter is exhausted, requests to observe fail instead of wrapping around.\<close>

theorem session_ids_increase:
  "sorted_wrt (<) (srv_next_session s # concat (map started_session (fst (dispatch_all rs s))))"
  by (rule dispatch_all_numbered)

section \<open>Stopping\<close>

lemma dispatch_stopped:
  assumes "pm_stopped (cm_monitoring (srv_collectors s))"
  shows "dispatch h r s =
    (case r of MonitorRequest.Close k \<Rightarrow> (Inr MonitorResponse.Closed, remove_session k (expire (h_expire h) s))
     | _ \<Rightarrow> (Inl ServerStopping, expire (h_expire h) s))"
  using assms by (cases r) (simp_all add: dispatch_def)

lemma dispatch_stopped_state:
  assumes "pm_stopped (cm_monitoring (srv_collectors s))" "dispatch h r s = (reply, s')"
  shows "pm_stopped (cm_monitoring (srv_collectors s')) \<and> set (srv_sessions s') \<subseteq> set (srv_sessions s)
    \<and> pm_workers (cm_monitoring (srv_collectors s')) = pm_workers (cm_monitoring (srv_collectors s))
    \<and> reply \<in> {Inl ServerStopping, Inr MonitorResponse.Closed}"
  using assms
  by (auto simp: dispatch_stopped expire_def remove_session_def drop_leases_workers split: MonitorRequest.splits)



end
