(* ===== verification/Helper_Replies.thy ===== *)
theory Helper_Replies
  imports Helper_Properties
begin

text \<open>
  What the helper's replies guarantee: identity checks around collection, replies that can be
  encoded, mapped file data, and one reply frame per request frame in the serving loop.
\<close>

section \<open>Replies\<close>

text \<open>What the program relies on: samples carry valid register sets and no mapping context.\<close>

definition host_ok :: "Arch \<Rightarrow> host \<Rightarrow> bool" where
  "host_ok arch h \<longleftrightarrow> ProcessDetailSnapshot_ok arch (h_borrow h)"

definition reply_ok :: "Arch \<Rightarrow> service_error + MonitorResponse \<Rightarrow> bool" where
  "reply_ok arch r = (case r of Inl _ \<Rightarrow> True | Inr x \<Rightarrow> MonitorResponse_ok arch x)"

lemma reply_ok_start: "MonitorEvent_ok arch initial \<Longrightarrow> reply_ok arch (fst (start sub initial now s))"
  by (simp add: start_def reply_ok_def Let_def)

lemma reply_ok_error: "reply_ok arch (Inl e)"
  by (simp add: reply_ok_def)

lemma reply_ok_observe:
  "host_ok arch h \<Longrightarrow> reply_ok arch (fst (observe_process h pid s))" "reply_ok arch (fst (observe_system h s))"
  by (simp_all add: observe_process_def observe_system_def Let_def reply_ok_start reply_ok_error host_ok_def
      split: sum.split prod.split)

lemma poll_event_ok: "host_ok arch h \<Longrightarrow> pred_option (MonitorEvent_ok arch) (fst (poll_event h snap sub))"
  by (auto simp: poll_event_def host_ok_def split: Subscription.split sum.split bool.split TryRecvError.split SystemMonitorEvent.split)

lemma reply_ok_poll: "host_ok arch h \<Longrightarrow> reply_ok arch (fst (poll h k s))"
  using poll_event_ok by (auto simp: poll_def reply_ok_def Let_def split: option.split prod.split) (metis fst_conv)

lemma reply_ok_data:
  "reply_ok arch (and_then r (\<lambda>x. Inr (MonitorResponse.Data (f x))))"
  by (cases r) (simp_all add: reply_ok_def)

lemma reply_ok_dispatch:
  assumes "host_ok arch h"
  shows "reply_ok arch (fst (dispatch h r s))"
proof (cases r)
  case (MappedElf pid mapping ranges)
  then show ?thesis
    using acquired_elf_reply [of "h_elf h" pid mapping ranges]
    by (auto simp: dispatch_def Let_def reply_ok_def split: sum.splits)
next
  case (Process pid resource)
  then show ?thesis
    by (auto simp: dispatch_def Let_def reply_ok_def and_then_def split: sum.splits)
qed (simp_all add: dispatch_def Let_def reply_ok_error reply_ok_data reply_ok_observe reply_ok_poll assms,
     simp_all add: reply_ok_def)

lemma wire_reply_ok: "reply_ok arch r \<Longrightarrow> WireResponse_ok arch (wire_reply describe r)"
  by (cases r) (simp_all add: reply_ok_def wire_reply_def WireResponse_ok_def)

text \<open>C10: every reply of the service survives the trip. Whatever is requested and in whatever state, the
  reply either exceeds the size limit or decodes to itself at the client; in particular file chunks never
  exceed the limit that the client's decoder enforces.\<close>

theorem replies_roundtrip:
  assumes "host_ok arch h"
  shows "case encode (WireResponse_wire arch) (wire_reply describe (fst (dispatch h r s))) MAX_RESPONSE of
    Inl e \<Rightarrow> e = LimitExceeded
  | Inr bs \<Rightarrow> decode (WireResponse_wire arch) bs = Inr (wire_reply describe (fst (dispatch h r s)))"
proof -
  have ok: "WireResponse_ok arch (wire_reply describe (fst (dispatch h r s)))"
    by (rule wire_reply_ok [OF reply_ok_dispatch [OF assms]])
  show ?thesis
    using wire_response.encode_error [OF ok, of MAX_RESPONSE] wire_response.roundtrip [OF ok, of MAX_RESPONSE]
    by (auto split: sum.split)
qed

theorem replies_roundtrip_witness:
  "case encode (WireResponse_wire X86_64) (wire_reply (\<lambda>_. []) (fst (dispatch (sample_host 100 (Inr False))
      (MonitorRequest.ObserveProcess sample_process) sample_start))) MAX_RESPONSE of
     Inl e \<Rightarrow> e = LimitExceeded
   | Inr bs \<Rightarrow> decode (WireResponse_wire X86_64) bs = Inr (wire_reply (\<lambda>_. []) (fst (dispatch (sample_host 100 (Inr False))
      (MonitorRequest.ObserveProcess sample_process) sample_start)))"
  by (rule replies_roundtrip) (simp add: host_ok_def sample_host_def sample_target_def ProcessDetailSnapshot_ok_def)

text \<open>C11: data of a process is the data of that process. A request for a resource is answered with data
  only if, both before and after the collection, the process with this identifier was alive and had the start
  time of the requested identity.\<close>

theorem process_data_identity:
  assumes "dispatch h (MonitorRequest.Process pid resource) s = (Inr r, s')"
  shows "\<exists>before after data. r = MonitorResponse.Data data \<and> collect_resource h resource = Inr data
    \<and> 0 < sint (pid_pid pid)
    \<and> h_stat h = Inr before \<and> stat_start_time before = pid_start_time_ticks pid \<and> stat_state before \<noteq> lit ''Z''
    \<and> h_stat_after h = Inr after \<and> stat_start_time after = pid_start_time_ticks pid \<and> stat_state after \<noteq> lit ''Z''"
proof -
  obtain data where d: "collect_resource h resource = Inr data" "r = MonitorResponse.Data data"
    and v: "validated (h_stat h) pid = Inr ()" "validated (h_stat_after h) pid = Inr ()"
    using assms by (auto simp: dispatch_def Let_def and_then_eq_Inr split: if_splits)
  have "validate_process_identity (h_stat h) pid = Inr ()" "validate_process_identity (h_stat_after h) pid = Inr ()"
    using v by (auto simp: validated_def split: sum.splits)
  then show ?thesis using d by (auto simp: validate_process_identity_iff)
qed

theorem process_data_identity_witness:
  "\<exists>before. h_stat (sample_host 100 (Inr False)) = Inr before \<and> stat_start_time before = 7 \<and> stat_state before \<noteq> lit ''Z''"
proof -
  have "dispatch (sample_host 100 (Inr False)) (MonitorRequest.Process sample_process ProcessResource.Observation) sample_start
      = (Inr (MonitorResponse.Data (AcquiredData.Observation \<lparr>od_process_sample = sample_sample, od_threads_only = False\<rparr>)),
         sample_start)"
    by (simp add: service_defs collect_resource_def collected_def sample_host_def sample_start_def sample_process_def
        sample_stat_def Let_def lit_eq_iff)
  from process_data_identity [OF this] show ?thesis by (auto simp: sample_process_def)
qed

section \<open>The serving loop\<close>

text \<open>The reply a client gets: the reply of the service, or the bounded error in its place.\<close>

definition sent_reply :: "Arch \<Rightarrow> WireResponse \<Rightarrow> WireResponse" where
  "sent_reply arch r =
     (case encode (WireResponse_wire arch) r MAX_RESPONSE of Inl _ \<Rightarrow> size_limit_reply | Inr _ \<Rightarrow> r)"

lemma size_limit_reply_encodes: "\<exists>bs. encode (WireResponse_wire arch) size_limit_reply MAX_RESPONSE = Inr bs"
proof -
  have "length (as_bytes (lit s)) = length s" if "list_all (\<lambda>c. of_char c < (128 :: nat)) s" for s
    using that by (induction s) (simp_all add: lit_def as_bytes_def utf8_char_def byte_of_def)
  from this [of "''monitor response exceeds size limit''"]
  have "length (as_bytes (lit ''monitor response exceeds size limit'')) = 35" by simp
  then have "sized (write string_wire (lit ''monitor response exceeds size limit'')) 39"
    using sized_blob [of "as_bytes (lit ''monitor response exceeds size limit'')"]
    by (simp add: string_wire_def sized_def U32_MAX_def)
  then have "sized (write (WireResponse_wire arch) size_limit_reply) 40"
    using sized_tagged [of "write string_wire (lit ''monitor response exceeds size limit'')" 39 1]
    by (simp add: WireResponse_wire_def result_wire_def size_limit_reply_def)
  from encode_sized [OF this, of MAX_RESPONSE] show ?thesis
    by (auto simp: MAX_RESPONSE_def U32_MAX_def)
qed

lemma serve_step_frames:
  assumes "serve_step arch describe it (s, sock) = Some (Inr (s', sock'))" "host_ok arch (it_host it)"
  shows "if it_poll it = Ready
    then \<exists>request bs reply.
      encode MonitorRequest_wire request MAX_REQUEST = Inr bs \<and> incoming sock = frame bs @ incoming sock'
      \<and> s' = snd (dispatch (it_host it) request (expire (it_expire it) s))
      \<and> encode (WireResponse_wire arch) (sent_reply arch (wire_reply describe
            (fst (dispatch (it_host it) request (expire (it_expire it) s))))) MAX_RESPONSE = Inr reply
      \<and> outgoing sock' = outgoing sock @ frame reply
    else s' = expire (it_expire it) s \<and> sock' = sock"
proof (cases "it_poll it")
  case Ready
  obtain request rest as out where
    read: "read_message MonitorRequest_wire MAX_REQUEST (it_read_time it) (incoming sock) (it_reads it) = Some (Inr (request, rest, as))"
    and s': "s' = snd (dispatch (it_host it) request (expire (it_expire it) s))"
    and sock': "sock' = \<lparr>incoming = rest, outgoing = out\<rparr>"
    and out: "send_reply arch (wire_reply describe (fst (dispatch (it_host it) request (expire (it_expire it) s))))
        it (outgoing sock) = Some (Inr out)"
    using assms(1) Ready
    by (auto simp: serve_step_def Let_def split: option.splits sum.splits prod.splits)
  let ?r = "wire_reply describe (fst (dispatch (it_host it) request (expire (it_expire it) s)))"
  have ok: "WireResponse_ok arch ?r" by (rule wire_reply_ok [OF reply_ok_dispatch [OF assms(2)]])
  obtain bs where bs: "encode MonitorRequest_wire request MAX_REQUEST = Inr bs" "incoming sock = frame bs @ rest"
    using monitor_request.received_frame read unfolding read_message_def by blast
  have "\<exists>reply. encode (WireResponse_wire arch) (sent_reply arch ?r) MAX_RESPONSE = Inr reply
      \<and> out = outgoing sock @ frame reply"
  proof (cases "encode (WireResponse_wire arch) ?r MAX_RESPONSE")
    case (Inl e)
    then have e: "e = LimitExceeded" using wire_response.encode_error [OF ok] by blast
    show ?thesis
      using out Inl e send_only_frame
      by (fastforce simp: send_reply_def sent_reply_def send_too_large split: option.splits sum.splits prod.splits)
  next
    case (Inr reply)
    have "\<exists>as. send (WireResponse_wire arch) ?r MAX_RESPONSE (it_send_time it) (outgoing sock) (it_writes it)
        = Some (Inr (out, as))"
      using out Inr
      by (auto simp: send_reply_def send_def Let_def split: option.splits sum.splits prod.splits if_splits)
    then show ?thesis using Inr send_only_frame by (fastforce simp: sent_reply_def)
  qed
  then show ?thesis using Ready bs s' sock' by auto
qed (use assms(1) in \<open>auto simp: serve_step_def Let_def\<close>)

text \<open>The serving loop keeps the connection in step. An iteration that handles a request consumes exactly
  one request frame and appends exactly one reply frame, which carries the service's reply to that
  request, or the size error if that reply is too large; an iteration without a request only expires
  sessions.\<close>

theorem serve_one_reply:
  assumes "serve_step arch describe it (s, sock) = Some (Inr (s', sock'))" "host_ok arch (it_host it)"
  shows "if it_poll it = Ready
    then \<exists>request bs reply.
      encode MonitorRequest_wire request MAX_REQUEST = Inr bs \<and> incoming sock = frame bs @ incoming sock'
      \<and> s' = snd (dispatch (it_host it) request (expire (it_expire it) s))
      \<and> encode (WireResponse_wire arch) (sent_reply arch (wire_reply describe
            (fst (dispatch (it_host it) request (expire (it_expire it) s))))) MAX_RESPONSE = Inr reply
      \<and> outgoing sock' = outgoing sock @ frame reply
    else s' = expire (it_expire it) s \<and> sock' = sock"
  using assms by (rule serve_step_frames)

lemma send_reply_progress:
  assumes ok: "WireResponse_ok arch r"
    and e: "encode (WireResponse_wire arch) (sent_reply arch r) MAX_RESPONSE = Inr bs"
    and t: "timely (it_send_time it + TIMEOUT) (it_writes it)" "length bs + 4 \<le> transfers (it_writes it)"
      "timely (it_resend_time it + TIMEOUT) (it_rewrites it)" "length bs + 4 \<le> transfers (it_rewrites it)"
  shows "send_reply arch r it out = Some (Inr (out @ frame bs))"
proof (cases "encode (WireResponse_wire arch) r MAX_RESPONSE")
  case (Inl err)
  then have "err = LimitExceeded" using wire_response.encode_error [OF ok] by blast
  moreover obtain as where "send (WireResponse_wire arch) size_limit_reply MAX_RESPONSE (it_resend_time it) out
      (it_rewrites it) = Some (Inr (out @ frame bs, as))"
    using send_frame [OF _ t(3,4)] e Inl by (fastforce simp: sent_reply_def)
  ultimately show ?thesis using Inl by (simp add: send_reply_def send_too_large)
next
  case (Inr bs')
  then have "bs' = bs" using e by (simp add: sent_reply_def)
  then obtain as where "send (WireResponse_wire arch) r MAX_RESPONSE (it_send_time it) out (it_writes it)
      = Some (Inr (out @ frame bs, as))"
    using send_frame [OF _ t(1,2), of "WireResponse_wire arch" r MAX_RESPONSE] Inr by blast
  then show ?thesis by (simp add: send_reply_def)
qed

text \<open>A request gets its answer. If a request frame is waiting and the socket makes progress before the
  deadlines, the iteration terminates, writes a reply that the client can decode, and leaves the next
  request in place.\<close>

lemma serve_step_answers:
  assumes "host_ok arch (it_host it)" "it_poll it = Ready"
    and "encode MonitorRequest_wire request MAX_REQUEST = Inr bs" "incoming sock = frame bs @ rest"
    and "timely (it_read_time it + TIMEOUT) (it_reads it)" "length bs + 4 \<le> transfers (it_reads it)"
    and "encode (WireResponse_wire arch) (sent_reply arch (wire_reply describe
           (fst (dispatch (it_host it) request (expire (it_expire it) s))))) MAX_RESPONSE = Inr reply"
    and "timely (it_send_time it + TIMEOUT) (it_writes it)" "length reply + 4 \<le> transfers (it_writes it)"
    and "timely (it_resend_time it + TIMEOUT) (it_rewrites it)" "length reply + 4 \<le> transfers (it_rewrites it)"
  shows "serve_step arch describe it (s, sock) = Some (Inr
      (snd (dispatch (it_host it) request (expire (it_expire it) s)),
       \<lparr>incoming = rest, outgoing = outgoing sock @ frame reply\<rparr>))
    \<and> decode (WireResponse_wire arch) reply = Inr (sent_reply arch (wire_reply describe
        (fst (dispatch (it_host it) request (expire (it_expire it) s)))))"
proof -
  let ?d = "dispatch (it_host it) request (expire (it_expire it) s)"
  let ?r = "wire_reply describe (fst ?d)"
  have ok: "WireResponse_ok arch ?r" by (rule wire_reply_ok [OF reply_ok_dispatch [OF assms(1)]])
  obtain as where "read_message MonitorRequest_wire MAX_REQUEST (it_read_time it) (incoming sock) (it_reads it)
      = Some (Inr (request, rest, as))"
    using monitor_request.delivery [OF TrueI assms(3,5,6,5,6)] assms(4) by auto
  moreover have "send_reply arch ?r it (outgoing sock) = Some (Inr (outgoing sock @ frame reply))"
    by (rule send_reply_progress [OF ok assms(7-11)])
  ultimately have "serve_step arch describe it (s, sock) = Some (Inr (snd ?d,
      \<lparr>incoming = rest, outgoing = outgoing sock @ frame reply\<rparr>))"
    using assms(2) by (simp add: serve_step_def Let_def case_prod_unfold)
  moreover have "WireResponse_ok arch (sent_reply arch ?r)"
    using ok by (auto simp: sent_reply_def size_limit_reply_def WireResponse_ok_def split: sum.splits)
  ultimately show ?thesis using wire_response.roundtrip assms(7) by blast
qed

text \<open>A request to close session 1 and its answer, one byte at a time.\<close>

definition close_bytes :: "byte list" where
  "close_bytes = [6, 1, 0, 0, 0, 0, 0, 0, 0]"

lemma close_encode: "encode MonitorRequest_wire (MonitorRequest.Close 1) MAX_REQUEST = Inr close_bytes"
  by (simp add: wire_eval MonitorRequest_wire_def close_bytes_def MAX_REQUEST_def)

lemma closed_encode: "encode (WireResponse_wire X86_64) (Inr MonitorResponse.Closed) MAX_RESPONSE = Inr [0, 5]"
  by (simp add: wire_eval WireResponse_wire_def MonitorResponse_wire_def MAX_RESPONSE_def)

definition sample_iteration :: iteration where
  "sample_iteration = \<lparr>it_expire = 100, it_poll = Ready, it_read_time = 0, it_reads = byte_attempts 13,
     it_host = sample_host 100 (Inr False), it_send_time = 0, it_writes = byte_attempts 6, it_resend_time = 0,
     it_rewrites = byte_attempts 6\<rparr>"

definition sample_socket :: socket where
  "sample_socket = \<lparr>incoming = frame close_bytes @ [99], outgoing = []\<rparr>"

lemma sample_reply: "sent_reply X86_64 (wire_reply (\<lambda>_. []) (fst (dispatch (it_host sample_iteration)
    (MonitorRequest.Close 1) (expire (it_expire sample_iteration) sample_service)))) = Inr MonitorResponse.Closed"
  by (simp add: dispatch_def wire_reply_def sent_reply_def closed_encode Let_def)

lemma sample_reply_encode: "encode (WireResponse_wire X86_64) (sent_reply X86_64 (wire_reply (\<lambda>_. [])
    (fst (dispatch (it_host sample_iteration) (MonitorRequest.Close 1)
      (expire (it_expire sample_iteration) sample_service))))) MAX_RESPONSE = Inr [0, 5]"
  by (simp only: sample_reply closed_encode)

lemma sample_iteration_ok:
  "host_ok X86_64 (it_host sample_iteration)" "it_poll sample_iteration = Ready"
  "incoming sample_socket = frame close_bytes @ [99]"
  "timely (it_read_time sample_iteration + TIMEOUT) (it_reads sample_iteration)"
  "length close_bytes + 4 \<le> transfers (it_reads sample_iteration)"
  "timely (it_send_time sample_iteration + TIMEOUT) (it_writes sample_iteration)"
  "length [0 :: byte, 5] + 4 \<le> transfers (it_writes sample_iteration)"
  "timely (it_resend_time sample_iteration + TIMEOUT) (it_rewrites sample_iteration)"
  "length [0 :: byte, 5] + 4 \<le> transfers (it_rewrites sample_iteration)"
  by (simp_all add: host_ok_def sample_iteration_def sample_host_def sample_target_def
      ProcessDetailSnapshot_ok_def sample_socket_def byte_attempts_progress TIMEOUT_def close_bytes_def)

theorem serve_one_reply_witness:
  "\<exists>s' sock'. serve_step X86_64 (\<lambda>_. []) sample_iteration (sample_service, sample_socket) = Some (Inr (s', sock'))
    \<and> (\<exists>request bs. encode MonitorRequest_wire request MAX_REQUEST = Inr bs
        \<and> incoming sample_socket = frame bs @ incoming sock')"
proof -
  obtain as where "read_message MonitorRequest_wire MAX_REQUEST (it_read_time sample_iteration) (incoming sample_socket)
      (it_reads sample_iteration) = Some (Inr (MonitorRequest.Close 1, [99], as))"
    using monitor_request.delivery [OF TrueI close_encode sample_iteration_ok(4,5,4,5), of "[]" "[99]"]
    by (auto simp: sample_iteration_ok(3))
  moreover have "send_reply X86_64 (wire_reply (\<lambda>_. []) (fst (dispatch (it_host sample_iteration)
      (MonitorRequest.Close 1) (expire (it_expire sample_iteration) sample_service)))) sample_iteration
      (outgoing sample_socket) = Some (Inr (outgoing sample_socket @ frame [0, 5]))"
    by (rule send_reply_progress [OF wire_reply_ok [OF reply_ok_dispatch [OF sample_iteration_ok(1)]]
        sample_reply_encode sample_iteration_ok(6-9)])
  ultimately obtain s' sock' where
    step: "serve_step X86_64 (\<lambda>_. []) sample_iteration (sample_service, sample_socket) = Some (Inr (s', sock'))"
    by (simp add: serve_step_def Let_def case_prod_unfold sample_iteration_ok(2))
  from serve_one_reply [OF step sample_iteration_ok(1)] step show ?thesis
    by (auto simp: sample_iteration_ok(2))
qed

end
