(* ===== verification/Process_Properties.thy ===== *)
theory Process_Properties
  imports Helper_Properties
begin

text \<open>
  Properties of what the helper reads about a process: the procfs parsers against the kernel's formats,
  byte ranges of mapped files, request sizes and what a collector publishes.
\<close>

section \<open>procfs\<close>

text \<open>The status line of a process is read back field by field, whatever its command name: parentheses,
  spaces and line breaks in the name do not disturb it. User and system time are added and the resident set
  is converted to bytes, saturating; columns the program does not use are irrelevant.\<close>

theorem stat_line_parsed:
  assumes "is_column (stat_state s)" "\<And>i. is_column (other i)"
    and "stat_ticks s = saturating_add utime stime"
    and "stat_rss s = saturating_mul (if 0 \<le> sint pages then pages else 0) page_size"
  shows "parse_process_stat page_size (stat_text other s utime stime pages) = Inr s"
  using assms by (rule parse_process_stat_text)

definition tricky_stat :: Stat where
  "tricky_stat = \<lparr>stat_pid = 42, stat_parent_pid = 7, stat_name = lit ''a ) tricky (name'', stat_state = lit ''S'',
     stat_ticks = 23, stat_start_time = 918, stat_minor_faults = 0, stat_major_faults = 0, stat_priority = - 40,
     stat_nice = 0, stat_thread_count = 1, stat_vms = 0, stat_rss = 0, stat_cpu = 0, stat_policy = 0\<rparr>"

theorem stat_line_parsed_witness:
  "parse_process_stat 4096 (stat_text (\<lambda>_. show_dec 0) tricky_stat 20 3 (- 1)) = Inr tricky_stat"
proof (rule stat_line_parsed)
  show "is_column (stat_state tricky_stat)"
    by (simp add: tricky_stat_def is_column_def is_word_def lit_map_ch is_whitespace_def)
  show "is_column (show_dec 0)" for i :: nat by simp
  show "stat_ticks tricky_stat = saturating_add 20 3" by (simp add: tricky_stat_def saturating_add_def)
  show "stat_rss tricky_stat = saturating_mul (if 0 \<le> sint (- 1 :: i64) then - 1 else 0) 4096"
    by (simp add: tricky_stat_def saturating_mul_def)
qed

text \<open>A line of the mapping table is read back exactly, for any padding of the numbers and of the path
  column, with or without a path; the path may contain spaces. Every accepted line has a non-empty
  address range.\<close>

theorem maps_line_parsed:
  assumes "expressible m"
  shows "parse_map (maps_line k gap m) = Inr m \<and> (\<forall>line n. parse_map line = Inr n \<longrightarrow> map_start n < map_end n)"
  using parse_map_line [OF assms] parse_map_range by blast

definition sample_mapping :: MemoryMap where
  "sample_mapping = \<lparr>map_start = 0x1000, map_end = 0x2000, map_readable = True, map_writable = False,
     map_executable = True, map_private = True, map_file_offset = 0, map_device = \<lparr>dev_major = 8, dev_minor = 1\<rparr>,
     map_inode = 5, map_pathname = Some (lit ''/opt/my app'')\<rparr>"

lemma sample_mapping_expressible: "expressible sample_mapping"
  by (simp add: expressible_def sample_mapping_def lit_map_ch is_whitespace_def)

theorem maps_line_parsed_witness: "parse_map (maps_line 8 10 sample_mapping) = Inr sample_mapping"
  using maps_line_parsed [OF sample_mapping_expressible] by blast

text \<open>A path that ends in whitespace does not survive: the whitespace is cut off, so that two files whose
  names differ only there are reported under the same name.\<close>

theorem maps_trailing_whitespace_lost:
  assumes "expressible m" "map_pathname m = Some p" "is_whitespace c"
  shows "parse_map (maps_line k gap (m\<lparr>map_pathname := Some (p @ [c])\<rparr>)) = Inr m"
proof -
  let ?m = "m\<lparr>map_pathname := Some (p @ [c])\<rparr>"
  have line: "maps_line k gap ?m = maps_line k gap m @ [c]"
    using assms(2) by (simp add: maps_line_def range_column_def device_column_def permissions_def)
  have first: "trim_start (maps_line k gap m @ s) = maps_line k gap m @ s" for s
    using columns_text_ends [of k m] by (intro trim_start_path) (auto simp: maps_line_columns)
  have "trim (maps_line k gap ?m) = trim (maps_line k gap m)"
    using first [of "[c]"] first [of "[]"] assms(3) by (simp add: trim_def line)
  then show ?thesis using parse_map_line [OF assms(1), of k gap] by (simp add: parse_map_def)
qed

theorem maps_trailing_whitespace_lost_witness:
  "parse_map (maps_line 0 0 (sample_mapping\<lparr>map_pathname := Some (lit ''/opt/my app'' @ [ch CHR '' ''])\<rparr>)) = Inr sample_mapping"
  by (rule maps_trailing_whitespace_lost [OF sample_mapping_expressible]) (simp_all add: sample_mapping_def)

text \<open>The detailed mapping table is read entry by entry: each entry gets the attributes printed under its
  own header line and no others, sizes in kilobytes become bytes (or are dropped if they overflow), and
  attributes of any other name are ignored.\<close>

theorem smaps_parsed:
  assumes "list_all (\<lambda>(m, as). expressible m \<and> list_all is_attribute as) xs"
  shows "parse_smaps (unlines (concat (map (entry_lines k gap) xs))) = Inr (map entry_of xs)
    \<and> (\<forall>m n j gap'. entry_of (m, [(lit ''Rss'', size_value gap' n), (lit ''Pss'', size_value gap' j)])
        = \<lparr>smaps_mapping = m, smaps_rss_bytes = kilobytes n, smaps_pss_bytes = kilobytes j\<rparr>)"
  using parse_smaps_text [OF assms]
  by (simp add: entry_of_def set_attribute_def SmapsEntry_from_def attribute_bytes_size lit_eq_iff)

theorem smaps_parsed_witness:
  "parse_smaps (unlines (entry_lines 0 0 (sample_mapping, [(lit ''Rss'', lit '' 12 kB'')]))) =
     Inr [entry_of (sample_mapping, [(lit ''Rss'', lit '' 12 kB'')])]"
proof -
  have "is_attribute (lit ''Rss'', lit '' 12 kB'')"
    by (simp add: is_attribute_def is_word_def is_line_def lit_map_ch is_whitespace_def)
  then show ?thesis
    using smaps_parsed [of "[(sample_mapping, [(lit ''Rss'', lit '' 12 kB'')])]" 0 0]
    by (simp add: sample_mapping_expressible)
qed

section \<open>Mapped files\<close>


definition sample_meta :: Metadata where
  "sample_meta = \<lparr>md_dev = 1, md_ino = 5, md_len = 4, md_mtime = 0, md_mtime_nsec = 0, md_is_file = True\<rparr>"

definition sample_open :: "rstring \<Rightarrow> pinned_file option" where
  "sample_open path = (if path = lit ''/proc/42/exe'' then Some \<lparr>pin_meta = Some sample_meta,
     pin_descriptor = Some \<lparr>fd_meta = Some sample_meta, fd_content = (\<lambda>_. Inr [127, 69, 76, 70]),
       fd_meta_after = Inr sample_meta\<rparr>\<rparr> else None)"

lemma sample_read:
  "read_mapped_file_ranges (matching_file (\<lambda>_. 8) (\<lambda>_. 1) sample_open 42 sample_mapping)
     [\<lparr>frange_offset = 1, frange_length = 2\<rparr>] = Inr (MonitorResponse.Elf (Some
       \<lparr>mfd_identity = (1, 5, 4, 0, 0), mfd_chunks = [\<lparr>chunk_offset = 1, chunk_bytes = [69, 76]\<rparr>]\<rparr>))"
proof -
  have pid: "show_int (sint (42 :: i32)) = lit ''42''"
    by (simp add: show_int_def show_radix.simps [of 10] from_digit_def lit_def)
  have "matching_file (\<lambda>_. 8) (\<lambda>_. 1) sample_open 42 sample_mapping =
      Some (\<lparr>fd_meta = Some sample_meta, fd_content = (\<lambda>_. Inr [127, 69, 76, 70]), fd_meta_after = Inr sample_meta\<rparr>,
        sample_meta)"
    unfolding matching_file_def candidate_paths_def pid
    by (auto simp: sample_open_def check_candidate_def sample_meta_def sample_mapping_def lit_map_ch
        split: option.splits)
  then show ?thesis
    by (simp add: read_mapped_file_ranges_def sample_meta_def MAX_FILE_SIZE_def MAX_RANGES_def MAX_READ_SIZE_def
        read_exact_at_def file_identity_def Let_def)
qed


text \<open>Every request fits its frame. With at most 60 ranges, the limit the helper enforces as well, a
  request is encoded within the 1024 bytes the helper reads; three ranges more would no longer fit.\<close>

theorem request_fits:
  assumes "length (request_ranges r) \<le> MAX_RANGES"
  shows "\<exists>bs. encode MonitorRequest_wire r MAX_REQUEST = Inr bs \<and> length bs = request_size r \<and> length bs \<le> MAX_REQUEST
    \<and> decode MonitorRequest_wire bs = Inr r"
  using request_encodes [OF assms] monitor_request.roundtrip [OF TrueI] monitor_request.encode_bounded [OF TrueI]
  by fastforce

theorem request_fits_witness:
  "\<exists>bs. encode MonitorRequest_wire (MonitorRequest.MappedElf sample_process 4096
      (replicate 60 \<lparr>frange_offset = 0, frange_length = 1\<rparr>)) MAX_REQUEST = Inr bs \<and> length bs = 985"
  using request_fits [of "MonitorRequest.MappedElf sample_process 4096 (replicate 60 \<lparr>frange_offset = 0, frange_length = 1\<rparr>)"]
  by (auto simp: request_ranges_def MAX_RANGES_def)

section \<open>Collectors\<close>

text \<open>The collector of a process reports an exit once and last. While the process lives, every round
  publishes a value that is not marked as exited; a value is marked exactly when sampling failed and the
  identity check says the process is gone, it carries the error, and nothing is published after it.\<close>

theorem exit_published_last:
  assumes "\<not> pds_exited (col_target c)" "i < length (collector_run rs c)"
  shows "(pds_exited (collector_run rs c ! i) \<longrightarrow>
      Suc i = length (collector_run rs c) \<and> pds_error (collector_run rs c ! i) \<noteq> None)
    \<and> (pds_exited (collector_run rs c ! i) \<longleftrightarrow>
        (\<exists>e f. rd_sample (rs ! i) = Inl e \<and> rd_identity (rs ! i) = Inl f \<and> is_exit f))"
  using assms
proof (induction rs arbitrary: c i)
  case (Cons r rs)
  then obtain c' where c': "collector_round r c = Some c'" by (cases "collector_round r c") auto
  note exited = collector_round_exited [OF c' Cons.prems(1)]
  show ?case
  proof (cases i)
    case 0
    then show ?thesis using c' exited by (auto split: sum.splits)
  next
    case (Suc j)
    then have live: "\<not> pds_exited (col_target c')" "j < length (collector_run rs c')"
      using Cons.prems c' by (auto split: if_splits)
    then have "collector_run (r # rs) c ! i = collector_run rs c' ! j"
      "length (collector_run (r # rs) c) = Suc (length (collector_run rs c'))"
      using Suc c' by simp_all
    then show ?thesis using Cons.IH [OF live] by (simp only: Suc nth_Cons_Suc nat.inject) blast
  qed
qed simp

definition sample_round :: "(rstring + ProcessSample) \<Rightarrow> (identity_error + unit) \<Rightarrow> round" where
  "sample_round s identity = \<lparr>rd_polls = [], rd_ended = False, rd_sample = s, rd_time = 0, rd_maps = sample_maps,
     rd_maps_time = 0, rd_identity = identity, rd_latest = [], rd_mapping_snapshots = []\<rparr>"

theorem exit_published_last_witness:
  "let rs = [sample_round (Inr sample_sample) (Inr ()), sample_round (Inl []) (Inl ProcessExited), sample_round (Inr sample_sample) (Inr ())];
       c = \<lparr>col_target = sample_target, col_maps_at = 0, col_structural = []\<rparr>
   in length (collector_run rs c) = 2 \<and> pds_exited (collector_run rs c ! 1)"
proof -
  let ?rs = "[sample_round (Inr sample_sample) (Inr ()), sample_round (Inl []) (Inl ProcessExited), sample_round (Inr sample_sample) (Inr ())]"
  let ?c = "\<lparr>col_target = sample_target, col_maps_at = 0, col_structural = []\<rparr>"
  have len: "length (collector_run ?rs ?c) = 2"
    by (simp add: collector_round_def collect_sample_def sample_round_def sample_target_def is_exit_def Let_def)
  have "\<not> pds_exited (col_target ?c)" by (simp add: sample_target_def)
  from exit_published_last [OF this, of 1 ?rs] len show ?thesis
    by (simp add: Let_def sample_round_def is_exit_def)
qed

end
