(* ===== verification/Delivery.thy ===== *)
theory Delivery
  imports Text "HOL-Library.AList"
begin

text \<open>
  Full and delta snapshots for the browser (\<open>src/http_server/delivery.rs\<close>). JSON values are modelled as
  data; their serialisation belongs to a library and is the argument \<open>show_json\<close>. Operations that panic in the
  source return \<open>None\<close>. What the browser does with a message (\<open>mergeSnapshot\<close> of
  \<open>web/src/space/snapshot-merge.ts\<close>) is the specification against which the encoder is proved.
\<close>

section \<open>JSON values\<close>

text \<open>An object holds its members in key order, so equal objects are equal lists.\<close>

datatype json =
    Null
  | Bool bool
  | Number rstring
  | String rstring
  | Array "json list"
  | Object "(rstring \<times> json) list"

text \<open>\<open>value[field]\<close>: \<open>Null\<close> when there is no such member.\<close>

definition get :: "json \<Rightarrow> rstring \<Rightarrow> json" where
  "get v f = (case v of
     Object ms \<Rightarrow> (case map_of ms f of Some x \<Rightarrow> x | None \<Rightarrow> Null)
   | _ \<Rightarrow> Null)"

text \<open>\<open>value[field] = x\<close>: panics unless the value is an object or \<open>Null\<close>.\<close>

definition set_member :: "rstring \<Rightarrow> json \<Rightarrow> json \<Rightarrow> json option" where
  "set_member f x v = (case v of
     Object ms \<Rightarrow> Some (Object (AList.update f x ms))
   | Null \<Rightarrow> Some (Object [(f, x)])
   | _ \<Rightarrow> None)"

text \<open>\<open>value.as_object_mut().unwrap().remove(field)\<close>.\<close>

definition remove_member :: "rstring \<Rightarrow> json \<Rightarrow> json option" where
  "remove_member f v = (case v of Object ms \<Rightarrow> Some (Object (AList.delete f ms)) | _ \<Rightarrow> None)"

section \<open>Deltas\<close>

definition field_identity_key :: "(json \<Rightarrow> rstring) \<Rightarrow> json \<Rightarrow> rstring \<Rightarrow> rstring" where
  "field_identity_key show_json v f = show_json (get v f)"

text \<open>Collecting entries into a hash map by key: the last entry with a key counts.\<close>

definition keyed :: "(json \<Rightarrow> rstring) \<Rightarrow> rstring \<Rightarrow> json list \<Rightarrow> rstring \<Rightarrow> json option" where
  "keyed show_json f xs = map_of (rev (map (\<lambda>v. (field_identity_key show_json v f, v)) xs))"

definition delta_upsert :: "(json \<Rightarrow> rstring) \<Rightarrow> rstring \<Rightarrow> json list \<Rightarrow> json list \<Rightarrow> json list" where
  "delta_upsert show_json f old current =
     filter (\<lambda>v. keyed show_json f old (field_identity_key show_json v f) \<noteq> Some v) current"

definition delta_remove :: "(json \<Rightarrow> rstring) \<Rightarrow> rstring \<Rightarrow> json list \<Rightarrow> json list \<Rightarrow> json list" where
  "delta_remove show_json f old current =
     map (\<lambda>v. get v f) (filter (\<lambda>v. field_identity_key show_json v f
       \<notin> set (map (\<lambda>v. field_identity_key show_json v f) current)) old)"

definition build_array_delta :: "(json \<Rightarrow> rstring) \<Rightarrow> json list \<Rightarrow> json list \<Rightarrow> rstring \<Rightarrow> json option" where
  "build_array_delta show_json old current f =
     (let delta = Object [(lit ''remove'', Array (delta_remove show_json f old current)),
                          (lit ''upsert'', Array (delta_upsert show_json f old current))] in
      if length (as_bytes (show_json delta)) + 6 < length (as_bytes (show_json (Array current)))
      then Some delta else None)"

definition snapshot_array_entries :: "json \<Rightarrow> json list" where
  "snapshot_array_entries v = (case v of Array xs \<Rightarrow> xs | _ \<Rightarrow> [])"

section \<open>The encoder\<close>

record SnapshotEncoder =
  de_previous :: "json option"
  de_last_full :: "nat option"
  de_epochs :: "rstring \<Rightarrow> json option"
  de_sequence :: u64

definition SnapshotEncoder_default :: SnapshotEncoder where
  "SnapshotEncoder_default = \<lparr>de_previous = None, de_last_full = None, de_epochs = (\<lambda>_. None), de_sequence = 0\<rparr>"

text \<open>A full snapshot is due on request, for the first one, and 60 seconds after the last.\<close>

definition full_due :: "bool \<Rightarrow> nat \<Rightarrow> nat option \<Rightarrow> bool" where
  "full_due force_full now last_full \<longleftrightarrow> force_full \<or>
     (case last_full of None \<Rightarrow> True | Some before \<Rightarrow> 60000 \<le> now - before)"

text \<open>The body of the loop over the processes: the identity and the entry that is sent.\<close>

definition encode_process ::
  "(json \<Rightarrow> rstring) \<Rightarrow> bool \<Rightarrow> (rstring \<Rightarrow> json option) \<Rightarrow> (rstring \<Rightarrow> json option) \<Rightarrow> json \<Rightarrow> (rstring \<times> json) option"
where
  "encode_process show_json full previous epochs p =
     (let key = field_identity_key show_json p (lit ''identity'');
          before = previous key;
          unchanged = (\<not> full \<and> (case before of None \<Rightarrow> False
            | Some old \<Rightarrow> get old (lit ''maps'') = get p (lit ''maps''))) in
      if unchanged then
        Option.bind (epochs key) (\<lambda>epoch.
        Option.bind (set_member (lit ''maps_epoch'') epoch p) (\<lambda>p.
        Option.bind (remove_member (lit ''maps'') p) (\<lambda>p. Some (key, p))))
      else
        (case (if full then None else Option.bind before (\<lambda>before.
             build_array_delta show_json (snapshot_array_entries (get before (lit ''maps'')))
               (snapshot_array_entries (get p (lit ''maps''))) (lit ''start''))) of
           Some change \<Rightarrow>
             Option.bind (remove_member (lit ''maps'') p) (\<lambda>p.
             Option.bind (set_member (lit ''maps_delta'') change p) (\<lambda>p. Some (key, p)))
         | None \<Rightarrow> Some (key, p)))"

fun encode_processes ::
  "(json \<Rightarrow> rstring) \<Rightarrow> bool \<Rightarrow> (rstring \<Rightarrow> json option) \<Rightarrow> (rstring \<Rightarrow> json option) \<Rightarrow> json list
   \<Rightarrow> (rstring \<times> json) list option"
where
  "encode_processes show_json full previous epochs [] = Some []"
| "encode_processes show_json full previous epochs (p # ps) =
     Option.bind (encode_process show_json full previous epochs p) (\<lambda>x.
     Option.bind (encode_processes show_json full previous epochs ps) (\<lambda>xs. Some (x # xs)))"

text \<open>One of the keyed arrays: replaced by its delta when that is shorter.\<close>

definition encode_field :: "(json \<Rightarrow> rstring) \<Rightarrow> bool \<Rightarrow> json \<Rightarrow> rstring \<Rightarrow> json \<Rightarrow> json option" where
  "encode_field show_json full old f output =
     (case (if full then None else build_array_delta show_json (snapshot_array_entries (get old f))
          (snapshot_array_entries (get output f)) (lit ''id'')) of
        Some change \<Rightarrow> Option.bind (remove_member f output) (set_member (f @ lit ''_delta'') change)
      | None \<Rightarrow> Some output)"

definition delta_fields :: "rstring list" where
  "delta_fields = [lit ''fd_relations'', lit ''rdma_relations'', lit ''device_handles'']"

fun encode_fields :: "(json \<Rightarrow> rstring) \<Rightarrow> bool \<Rightarrow> json \<Rightarrow> rstring list \<Rightarrow> json \<Rightarrow> json option" where
  "encode_fields show_json full old [] output = Some output"
| "encode_fields show_json full old (f # fs) output =
     Option.bind (encode_field show_json full old f output) (encode_fields show_json full old fs)"

text \<open>The members that describe the message; \<open>number\<close> is the library's conversion of the sequence number.\<close>

definition set_header :: "(u64 \<Rightarrow> json) \<Rightarrow> bool \<Rightarrow> u64 \<Rightarrow> json \<Rightarrow> json option" where
  "set_header number full sequence output =
     Option.bind (set_member (lit ''kind'') (String (if full then lit ''full'' else lit ''delta'')) output) (\<lambda>output.
     Option.bind (set_member (lit ''sequence'') (number sequence) output) (\<lambda>output.
     if full then Some output else set_member (lit ''base_sequence'') (number (sequence - 1)) output))"

text \<open>The processes of the output; reading them by index adds the member if it is missing.\<close>

definition encode_all_processes ::
  "(json \<Rightarrow> rstring) \<Rightarrow> bool \<Rightarrow> (rstring \<Rightarrow> json option) \<Rightarrow> (rstring \<Rightarrow> json option) \<Rightarrow> json
   \<Rightarrow> ((rstring \<times> json) list \<times> json) option"
where
  "encode_all_processes show_json full previous epochs snapshot =
     (case get snapshot (lit ''processes'') of
        Array ps \<Rightarrow>
          Option.bind (encode_processes show_json full previous epochs ps) (\<lambda>xs.
          Option.bind (set_member (lit ''processes'') (Array (map snd xs)) snapshot) (\<lambda>output.
          Some (xs, output)))
      | v \<Rightarrow> Option.bind (set_member (lit ''processes'') v snapshot) (\<lambda>output. Some ([], output)))"

text \<open>\<open>encode\<close> up to the serialisation: the value that is sent and the new state of the encoder.\<close>

definition encode_snapshot ::
  "(json \<Rightarrow> rstring) \<Rightarrow> (u64 \<Rightarrow> json) \<Rightarrow> json \<Rightarrow> bool \<Rightarrow> nat \<Rightarrow> SnapshotEncoder \<Rightarrow> (json \<times> SnapshotEncoder) option"
where
  "encode_snapshot show_json number snapshot force_full now e =
     (let full = full_due force_full now (de_last_full e);
          old = (case de_previous e of None \<Rightarrow> Null | Some v \<Rightarrow> v);
          previous = keyed show_json (lit ''identity'') (snapshot_array_entries (get old (lit ''processes'')));
          sequence = de_sequence e + 1 in
      Option.bind (encode_all_processes show_json full previous (de_epochs e) snapshot) (\<lambda>(xs, output).
      Option.bind (encode_fields show_json full old delta_fields output) (\<lambda>output.
      Option.bind (set_header number full sequence output) (\<lambda>output.
      Some (output,
        \<lparr>de_previous = Some snapshot,
         de_last_full = (if full then Some now else de_last_full e),
         de_epochs = map_of (rev (map (\<lambda>(key, p). (key, get p (lit ''maps_epoch''))) xs)),
         de_sequence = sequence\<rparr>)))))"

section \<open>The receiving side\<close>

text \<open>Applying a delta to the entries known so far, by key.\<close>

definition apply_delta ::
  "(json \<Rightarrow> rstring) \<Rightarrow> rstring \<Rightarrow> (rstring \<Rightarrow> json option) \<Rightarrow> json \<Rightarrow> rstring \<Rightarrow> json option"
where
  "apply_delta show_json f old delta =
     (\<lambda>k. case keyed show_json f (snapshot_array_entries (get delta (lit ''upsert''))) k of
        Some v \<Rightarrow> Some v
      | None \<Rightarrow> if k \<in> set (map show_json (snapshot_array_entries (get delta (lit ''remove'')))) then None else old k)"

definition has_member :: "rstring \<Rightarrow> json \<Rightarrow> bool" where
  "has_member f v = (case v of Object ms \<Rightarrow> map_of ms f \<noteq> None | _ \<Rightarrow> False)"

text \<open>
  The entries of an array after a message: sent whole, as a delta under \<open>delta_name\<close>, or not at all
  (then they are the ones known before).
\<close>

definition received ::
  "(json \<Rightarrow> rstring) \<Rightarrow> rstring \<Rightarrow> rstring \<Rightarrow> rstring \<Rightarrow> json \<Rightarrow> json \<Rightarrow> rstring \<Rightarrow> json option"
where
  "received show_json name delta_name f before message =
     (if has_member name message then keyed show_json f (snapshot_array_entries (get message name))
      else if has_member delta_name message
      then apply_delta show_json f (keyed show_json f (snapshot_array_entries (get before name))) (get message delta_name)
      else keyed show_json f (snapshot_array_entries (get before name)))"

section \<open>Members\<close>

lemma get_set_member:
  "set_member f x v = Some v' \<Longrightarrow> get v' g = (if g = f then x else get v g)"
  by (auto simp: set_member_def get_def update_conv' split: json.splits)

lemma get_remove_member:
  "remove_member f v = Some v' \<Longrightarrow> get v' g = (if g = f then Null else get v g)"
  by (auto simp: remove_member_def get_def delete_conv' split: json.splits)

lemma has_set_member:
  "set_member f x v = Some v' \<Longrightarrow> has_member g v' \<longleftrightarrow> g = f \<or> has_member g v"
  by (auto simp: set_member_def has_member_def update_conv' split: json.splits if_splits)

lemma has_remove_member:
  "remove_member f v = Some v' \<Longrightarrow> has_member g v' \<longleftrightarrow> g \<noteq> f \<and> has_member g v"
  by (auto simp: remove_member_def has_member_def delete_conv' split: json.splits if_splits)

lemmas member_rules = get_set_member get_remove_member has_set_member has_remove_member

definition is_object :: "json \<Rightarrow> bool" where
  "is_object v \<longleftrightarrow> (\<exists>ms. v = Object ms)"

lemma set_member_object:
  "is_object v \<Longrightarrow> \<exists>v'. set_member f x v = Some v' \<and> is_object v'"
  "is_object v \<Longrightarrow> \<exists>v'. remove_member f v = Some v' \<and> is_object v'"
  by (auto simp: is_object_def set_member_def remove_member_def)

section \<open>Deltas reconstruct\<close>

lemma keyed_Some:
  assumes "distinct (map (\<lambda>v. field_identity_key s v f) xs)"
  shows "keyed s f xs k = Some v \<longleftrightarrow> v \<in> set xs \<and> field_identity_key s v f = k"
proof -
  have "distinct (map fst (rev (map (\<lambda>v. (field_identity_key s v f, v)) xs)))"
    using assms by (simp add: rev_map [symmetric] o_def)
  from map_of_eq_Some_iff [OF this] show ?thesis by (auto simp: keyed_def)
qed

lemma keyed_SomeD: "keyed s f xs k = Some v \<Longrightarrow> v \<in> set xs \<and> field_identity_key s v f = k"
  unfolding keyed_def by (auto dest: map_of_SomeD)

lemma keyed_None: "keyed s f xs k = None \<longleftrightarrow> k \<notin> (\<lambda>v. field_identity_key s v f) ` set xs"
  unfolding keyed_def map_of_eq_None_iff by force

lemma apply_delta_lists:
  assumes "distinct (map (\<lambda>v. field_identity_key s v f) current)"
  shows "(case keyed s f (delta_upsert s f old current) k of Some v \<Rightarrow> Some v
      | None \<Rightarrow> if k \<in> set (map s (delta_remove s f old current)) then None else keyed s f old k) = keyed s f current k"
proof -
  let ?key = "\<lambda>v. field_identity_key s v f"
  have up: "distinct (map ?key (delta_upsert s f old current))"
    using assms by (simp add: delta_upsert_def distinct_map_filter)
  have rem: "k \<in> set (map s (delta_remove s f old current)) \<longleftrightarrow>
      (\<exists>v\<in>set old. ?key v = k) \<and> k \<notin> ?key ` set current"
    by (force simp: delta_remove_def field_identity_key_def)
  show ?thesis
  proof (cases "keyed s f current k")
    case None
    then have "k \<notin> ?key ` set current" by (simp add: keyed_None)
    moreover from this have "keyed s f (delta_upsert s f old current) k = None"
      by (auto simp: keyed_None delta_upsert_def)
    moreover have "keyed s f old k = None" if "\<not> (\<exists>v\<in>set old. ?key v = k)"
      using that by (force simp: keyed_None)
    ultimately show ?thesis using None rem by auto
  next
    case (Some v)
    then have v: "v \<in> set current" "?key v = k" by (simp_all add: keyed_Some [OF assms])
    show ?thesis
    proof (cases "keyed s f old k = Some v")
      case True
      have "keyed s f (delta_upsert s f old current) k = None"
      proof (rule ccontr)
        assume "keyed s f (delta_upsert s f old current) k \<noteq> None"
        then obtain w where "keyed s f (delta_upsert s f old current) k = Some w" by blast
        then have "w \<in> set (delta_upsert s f old current)" "?key w = k" by (auto dest: keyed_SomeD)
        then have "w \<in> set current" "keyed s f old k \<noteq> Some w" "?key w = k" by (auto simp: delta_upsert_def)
        moreover from this have "keyed s f current k = Some w" by (simp add: keyed_Some [OF assms])
        ultimately have "w = v" "keyed s f old k \<noteq> Some w" using Some by simp_all
        then show False using True by simp
      qed
      then show ?thesis using Some True rem v by auto
    next
      case False
      then have "v \<in> set (delta_upsert s f old current)" using v by (simp add: delta_upsert_def)
      then have "keyed s f (delta_upsert s f old current) k = Some v" using v keyed_Some [OF up] by simp
      then show ?thesis using Some by simp
    qed
  qed
qed

lemma array_delta_applies:
  assumes "build_array_delta s old current f = Some delta" "distinct (map (\<lambda>v. field_identity_key s v f) current)"
  shows "apply_delta s f (keyed s f old) delta = keyed s f current"
proof
  fix k
  have "delta = Object [(lit ''remove'', Array (delta_remove s f old current)),
      (lit ''upsert'', Array (delta_upsert s f old current))]"
    using assms(1) by (simp add: build_array_delta_def Let_def split: if_splits)
  then have "snapshot_array_entries (get delta (lit ''upsert'')) = delta_upsert s f old current"
    "snapshot_array_entries (get delta (lit ''remove'')) = delta_remove s f old current"
    by (simp_all add: get_def snapshot_array_entries_def lit_eq_iff)
  then show "apply_delta s f (keyed s f old) delta k = keyed s f current k"
    using apply_delta_lists [OF assms(2), where old = old and k = k] by (simp only: apply_delta_def)
qed

section \<open>Processes\<close>

lemma encode_process_key: "encode_process s full previous epochs p = Some (k, p') \<Longrightarrow> k = field_identity_key s p (lit ''identity'')"
  by (auto simp: encode_process_def Let_def bind_eq_Some_conv split: if_splits option.splits)

text \<open>A process as the application serialises it: an object whose mappings are a list with distinct addresses.\<close>

definition process_value :: "(json \<Rightarrow> rstring) \<Rightarrow> json \<Rightarrow> bool" where
  "process_value s p \<longleftrightarrow> is_object p \<and> has_member (lit ''maps'') p \<and> \<not> has_member (lit ''maps_delta'') p
     \<and> distinct (map (\<lambda>v. field_identity_key s v (lit ''start'')) (snapshot_array_entries (get p (lit ''maps''))))"

text \<open>
  What is sent for a process determines its mappings, given the ones the receiver had for this
  identity; the other members are sent unchanged.
\<close>

lemma encode_process_received:
  assumes p: "process_value s p" and e: "encode_process s full previous epochs p = Some (k, p')"
    and before: "\<not> full \<Longrightarrow> previous k = None \<or> previous k = Some before"
  shows "received s (lit ''maps'') (lit ''maps_delta'') (lit ''start'') before p'
      = keyed s (lit ''start'') (snapshot_array_entries (get p (lit ''maps'')))"
    and "f \<notin> {lit ''maps'', lit ''maps_delta'', lit ''maps_epoch''} \<Longrightarrow> get p' f = get p f"
proof -
  have k: "k = field_identity_key s p (lit ''identity'')" by (rule encode_process_key [OF e])
  consider (unchanged) old epoch q where "\<not> full" "previous k = Some old" "get old (lit ''maps'') = get p (lit ''maps'')"
      "set_member (lit ''maps_epoch'') epoch p = Some q" "remove_member (lit ''maps'') q = Some p'"
    | (changed) old change q where "\<not> full" "previous k = Some old"
      "build_array_delta s (snapshot_array_entries (get old (lit ''maps'')))
         (snapshot_array_entries (get p (lit ''maps''))) (lit ''start'') = Some change"
      "remove_member (lit ''maps'') p = Some q" "set_member (lit ''maps_delta'') change q = Some p'"
    | (whole) "p' = p"
    using e unfolding encode_process_def k by (auto simp: Let_def bind_eq_Some_conv split: if_splits option.splits)
  then have "received s (lit ''maps'') (lit ''maps_delta'') (lit ''start'') before p'
      = keyed s (lit ''start'') (snapshot_array_entries (get p (lit ''maps'')))
    \<and> (f \<notin> {lit ''maps'', lit ''maps_delta'', lit ''maps_epoch''} \<longrightarrow> get p' f = get p f)"
  proof cases
    case unchanged
    then have "before = old" using before by simp
    then show ?thesis using unchanged p by (simp add: member_rules received_def process_value_def lit_eq_iff)
  next
    case changed
    then have "before = old" using before by simp
    then show ?thesis using changed p array_delta_applies [OF changed(3)]
      by (simp add: member_rules received_def process_value_def lit_eq_iff)
  next
    case whole
    then show ?thesis using p by (simp add: received_def process_value_def)
  qed
  then show "received s (lit ''maps'') (lit ''maps_delta'') (lit ''start'') before p'
      = keyed s (lit ''start'') (snapshot_array_entries (get p (lit ''maps'')))"
    "f \<notin> {lit ''maps'', lit ''maps_delta'', lit ''maps_epoch''} \<Longrightarrow> get p' f = get p f"
    by blast+
qed

lemma encode_process_total:
  assumes "is_object p" "previous (field_identity_key s p (lit ''identity'')) \<noteq> None \<Longrightarrow>
      epochs (field_identity_key s p (lit ''identity'')) \<noteq> None"
  shows "\<exists>p'. encode_process s full previous epochs p = Some (field_identity_key s p (lit ''identity''), p')"
proof -
  have steps: "\<exists>q. set_member f x p = Some q \<and> (\<exists>r. remove_member g q = Some r)"
    "\<exists>q. remove_member g p = Some q \<and> (\<exists>r. set_member f x q = Some r)" for f g x
    using assms(1) by (metis set_member_object)+
  show ?thesis
  proof (cases "previous (field_identity_key s p (lit ''identity''))")
    case None
    then show ?thesis by (simp add: encode_process_def Let_def)
  next
    case (Some old)
    then obtain epoch where "epochs (field_identity_key s p (lit ''identity'')) = Some epoch" using assms(2) by auto
    moreover obtain q r where "set_member (lit ''maps_epoch'') epoch p = Some q" "remove_member (lit ''maps'') q = Some r"
      using steps(1) by metis
    moreover have "\<exists>q r. remove_member (lit ''maps'') p = Some q \<and> set_member (lit ''maps_delta'') change q = Some r" for change
      using steps(2) by metis
    ultimately show ?thesis using Some
      by (auto simp: encode_process_def Let_def bind_eq_Some_conv split: option.split) blast
  qed
qed

lemma encode_processes_total:
  assumes "\<And>p. p \<in> set ps \<Longrightarrow> is_object p" "\<And>k. previous k \<noteq> None \<Longrightarrow> epochs k \<noteq> None"
  shows "\<exists>xs. encode_processes s full previous epochs ps = Some xs
    \<and> list_all2 (\<lambda>p x. encode_process s full previous epochs p = Some x) ps xs"
  using assms(1)
proof (induction ps)
  case (Cons p ps)
  obtain p' where "encode_process s full previous epochs p = Some (field_identity_key s p (lit ''identity''), p')"
    using encode_process_total [of p previous s epochs full] Cons.prems assms(2) by auto
  then show ?case using Cons by auto
qed simp

section \<open>Snapshots\<close>

text \<open>The snapshot as the application serialises it.\<close>

definition snapshot_value :: "(json \<Rightarrow> rstring) \<Rightarrow> json \<Rightarrow> bool" where
  "snapshot_value s v \<longleftrightarrow> is_object v \<and> (\<exists>ps. get v (lit ''processes'') = Array ps \<and> list_all (process_value s) ps)
     \<and> list_all (\<lambda>f. has_member f v \<and> \<not> has_member (f @ lit ''_delta'') v
          \<and> distinct (map (\<lambda>x. field_identity_key s x (lit ''id'')) (snapshot_array_entries (get v f)))) delta_fields"

text \<open>The encoder knows an epoch for every process of the previous snapshot.\<close>

definition encoder_ok :: "(json \<Rightarrow> rstring) \<Rightarrow> SnapshotEncoder \<Rightarrow> bool" where
  "encoder_ok s e \<longleftrightarrow>
     (\<forall>v. de_previous e = Some v \<longrightarrow> snapshot_value s v) \<and>
     (de_previous e = None \<longrightarrow> de_last_full e = None) \<and>
     (\<forall>k. keyed s (lit ''identity'') (snapshot_array_entries
            (get (case de_previous e of None \<Rightarrow> Null | Some v \<Rightarrow> v) (lit ''processes''))) k \<noteq> None \<longrightarrow> de_epochs e k \<noteq> None)"

lemma encoder_ok_default: "encoder_ok s SnapshotEncoder_default"
  by (simp add: encoder_ok_def SnapshotEncoder_default_def get_def snapshot_array_entries_def keyed_def)

lemma encode_field_total: "is_object v \<Longrightarrow> \<exists>v'. encode_field s full old f v = Some v' \<and> is_object v'"
proof -
  assume v: "is_object v"
  have "\<exists>r. Option.bind (remove_member f v) (set_member (f @ lit ''_delta'') x) = Some r \<and> is_object r" for x
    using set_member_object(2) [OF v, of f] set_member_object(1) by fastforce
  then show ?thesis using v by (simp add: encode_field_def split: option.split)
qed

lemma encode_fields_total: "is_object v \<Longrightarrow> \<exists>v'. encode_fields s full old fs v = Some v' \<and> is_object v'"
proof (induction fs arbitrary: v)
  case (Cons f fs)
  obtain v1 where "encode_field s full old f v = Some v1" "is_object v1"
    using encode_field_total [OF Cons.prems] by blast
  then show ?case using Cons.IH [of v1] by simp
qed simp

lemma encode_field_other:
  assumes "encode_field s full old f v = Some v'" "g \<noteq> f" "g \<noteq> f @ lit ''_delta''"
  shows "get v' g = get v g" "has_member g v' = has_member g v"
  using assms by (auto simp: encode_field_def bind_eq_Some_conv member_rules split: option.splits)

lemma encode_fields_other:
  assumes "encode_fields s full old fs v = Some v'" "\<And>f. f \<in> set fs \<Longrightarrow> g \<noteq> f \<and> g \<noteq> f @ lit ''_delta''"
  shows "get v' g = get v g \<and> has_member g v' = has_member g v"
  using assms
proof (induction fs arbitrary: v)
  case (Cons f fs)
  then obtain v1 where "encode_field s full old f v = Some v1" "encode_fields s full old fs v1 = Some v'"
    by (auto simp: bind_eq_Some_conv)
  then show ?case using Cons.IH [of v1] Cons.prems(2) encode_field_other [of s full old f v v1 g] by simp
qed simp

text \<open>A keyed array is received as it is, sent whole or as a delta against the previous snapshot.\<close>

lemma encode_field_cases:
  assumes "encode_field s full old f v = Some v'"
  obtains "v' = v" | change q where "build_array_delta s (snapshot_array_entries (get old f)) (snapshot_array_entries (get v f)) (lit ''id'') = Some change"
      "remove_member f v = Some q" "set_member (f @ lit ''_delta'') change q = Some v'"
proof (cases "if full then None else build_array_delta s (snapshot_array_entries (get old f))
          (snapshot_array_entries (get v f)) (lit ''id'')")
  case None
  then show thesis using assms that(1) by (simp add: encode_field_def)
next
  case (Some change)
  then obtain q where "remove_member f v = Some q" "set_member (f @ lit ''_delta'') change q = Some v'"
    using assms by (auto simp: encode_field_def bind_eq_Some_conv)
  then show thesis using Some that(2) by (simp split: if_splits)
qed

lemma encode_field_received:
  assumes "encode_field s full old f v = Some v'" "has_member f v" "\<not> has_member (f @ lit ''_delta'') v"
    and "distinct (map (\<lambda>x. field_identity_key s x (lit ''id'')) (snapshot_array_entries (get v f)))"
  shows "received s f (f @ lit ''_delta'') (lit ''id'') old v' = keyed s (lit ''id'') (snapshot_array_entries (get v f))"
  using assms(1)
proof (cases rule: encode_field_cases)
  case 1
  then show ?thesis using assms(2) by (simp add: received_def)
next
  case (2 change q)
  have ne: "f @ lit ''_delta'' \<noteq> f" "f \<noteq> f @ lit ''_delta''" by (simp_all add: lit_def)
  have "\<not> has_member f v'" "has_member (f @ lit ''_delta'') v'" "get v' (f @ lit ''_delta'') = change"
    using has_set_member [OF 2(3)] has_remove_member [OF 2(2)] get_set_member [OF 2(3)] ne by auto
  then show ?thesis using array_delta_applies [OF 2(1) assms(4)] by (simp add: received_def)
qed

lemma received_cong:
  assumes "get v g = get w g" "has_member g v = has_member g w" "get v h = get w h" "has_member h v = has_member h w"
  shows "received s g h f old v = received s g h f old w"
  using assms by (simp add: received_def)

definition independent :: "rstring \<Rightarrow> rstring list \<Rightarrow> bool" where
  "independent f fs \<longleftrightarrow> list_all (\<lambda>g. g = f \<or> f \<noteq> g @ lit ''_delta'' \<and> f @ lit ''_delta'' \<noteq> g) fs"

lemma lit_append: "lit a @ lit b = lit (a @ b)"
  by (simp add: lit_def)

lemma delta_fields_independent: "distinct delta_fields" "f \<in> set delta_fields \<Longrightarrow> independent f delta_fields"
  by (auto simp: delta_fields_def independent_def lit_append lit_eq_iff)

lemma encode_fields_received:
  assumes "encode_fields s full old fs v = Some v'" "f \<in> set fs" "distinct fs" "independent f fs"
    and "has_member f v" "\<not> has_member (f @ lit ''_delta'') v"
    and "distinct (map (\<lambda>x. field_identity_key s x (lit ''id'')) (snapshot_array_entries (get v f)))"
  shows "received s f (f @ lit ''_delta'') (lit ''id'') old v' = keyed s (lit ''id'') (snapshot_array_entries (get v f))"
  using assms
proof (induction fs arbitrary: v)
  case (Cons g fs)
  obtain v1 where g: "encode_field s full old g v = Some v1" and rest: "encode_fields s full old fs v1 = Some v'"
    using Cons.prems(1) by (auto simp: bind_eq_Some_conv)
  show ?case
  proof (cases "g = f")
    case True
    have other: "f \<noteq> h \<and> f \<noteq> h @ lit ''_delta''" "f @ lit ''_delta'' \<noteq> h \<and> f @ lit ''_delta'' \<noteq> h @ lit ''_delta''"
      if "h \<in> set fs" for h
      using that Cons.prems(3,4) True by (auto simp: independent_def list_all_iff)
    have "received s f (f @ lit ''_delta'') (lit ''id'') old v' = received s f (f @ lit ''_delta'') (lit ''id'') old v1"
      using encode_fields_other [OF rest, of f] encode_fields_other [OF rest, of "f @ lit ''_delta''"] other
      by (intro received_cong) blast+
    then show ?thesis using encode_field_received [OF g [unfolded True] Cons.prems(5-7)] by simp
  next
    case False
    have ne: "f \<noteq> g @ lit ''_delta''" "f @ lit ''_delta'' \<noteq> g" "f @ lit ''_delta'' \<noteq> g @ lit ''_delta''"
      using Cons.prems(4) False by (auto simp: independent_def)
    have "get v1 f = get v f" "has_member f v1" "\<not> has_member (f @ lit ''_delta'') v1"
      using encode_field_other [OF g, of f] encode_field_other [OF g, of "f @ lit ''_delta''"] ne False Cons.prems(5,6)
      by auto
    then show ?thesis
      using Cons.IH [OF rest] Cons.prems False by (auto simp: independent_def)
  qed
qed simp

lemma set_header_steps:
  assumes "set_header number full sequence v = Some v'"
  shows "\<exists>a b. set_member (lit ''kind'') (String (if full then lit ''full'' else lit ''delta'')) v = Some a
    \<and> set_member (lit ''sequence'') (number sequence) a = Some b
    \<and> (if full then Some b else set_member (lit ''base_sequence'') (number (sequence - 1)) b) = Some v'"
  using assms unfolding set_header_def bind_eq_Some_conv by blast

lemma set_base_sequence:
  assumes "(if full then Some b else set_member (lit ''base_sequence'') x b) = Some v'"
  shows "get v' g = (if \<not> full \<and> g = lit ''base_sequence'' then x else get b g)"
    "has_member g v' \<longleftrightarrow> \<not> full \<and> g = lit ''base_sequence'' \<or> has_member g b"
  using assms by (cases full; simp add: get_set_member has_set_member)+

lemma set_header_members:
  assumes "set_header number full sequence v = Some v'"
  shows "g \<notin> {lit ''kind'', lit ''sequence'', lit ''base_sequence''} \<Longrightarrow> get v' g = get v g \<and> has_member g v' = has_member g v"
    and "get v' (lit ''kind'') = String (if full then lit ''full'' else lit ''delta'')"
    and "get v' (lit ''sequence'') = number sequence"
    and "\<not> full \<Longrightarrow> get v' (lit ''base_sequence'') = number (sequence - 1)"
proof -
  obtain a b where a: "set_member (lit ''kind'') (String (if full then lit ''full'' else lit ''delta'')) v = Some a"
    and b: "set_member (lit ''sequence'') (number sequence) a = Some b"
    and c: "(if full then Some b else set_member (lit ''base_sequence'') (number (sequence - 1)) b) = Some v'"
    using set_header_steps [OF assms] by blast
  note members = get_set_member [OF a] get_set_member [OF b] has_set_member [OF a] has_set_member [OF b]
    set_base_sequence [OF c]
  show "get v' g = get v g \<and> has_member g v' = has_member g v" if "g \<notin> {lit ''kind'', lit ''sequence'', lit ''base_sequence''}"
    using that by (simp add: members)
  show "get v' (lit ''kind'') = String (if full then lit ''full'' else lit ''delta'')"
    "get v' (lit ''sequence'') = number sequence"
    by (simp_all add: members lit_eq_iff)
  show "get v' (lit ''base_sequence'') = number (sequence - 1)" if "\<not> full"
    using that by (simp add: members)
qed

lemma set_header_total: "is_object v \<Longrightarrow> \<exists>v'. set_header number full sequence v = Some v'"
proof -
  assume v: "is_object v"
  obtain a where a: "set_member (lit ''kind'') (String (if full then lit ''full'' else lit ''delta'')) v = Some a" "is_object a"
    using set_member_object(1) [OF v] by blast
  obtain b where b: "set_member (lit ''sequence'') (number sequence) a = Some b" "is_object b"
    using set_member_object(1) [OF a(2)] by blast
  moreover obtain c where "set_member (lit ''base_sequence'') (number (sequence - 1)) b = Some c"
    using set_member_object(1) [OF b(2)] by blast
  ultimately show ?thesis using a by (simp add: set_header_def)
qed

text \<open>The parts of a successful call.\<close>

definition previous_value :: "SnapshotEncoder \<Rightarrow> json" where
  "previous_value e = (case de_previous e of None \<Rightarrow> Null | Some v \<Rightarrow> v)"

definition previous_processes :: "(json \<Rightarrow> rstring) \<Rightarrow> SnapshotEncoder \<Rightarrow> rstring \<Rightarrow> json option" where
  "previous_processes s e = keyed s (lit ''identity'') (snapshot_array_entries (get (previous_value e) (lit ''processes'')))"

lemma encode_snapshot_Some:
  assumes "get snapshot (lit ''processes'') = Array ps"
  shows "encode_snapshot s number snapshot force_full now e = Some (output, e') \<longleftrightarrow>
    (\<exists>xs v w. encode_processes s (full_due force_full now (de_last_full e)) (previous_processes s e) (de_epochs e) ps = Some xs
      \<and> set_member (lit ''processes'') (Array (map snd xs)) snapshot = Some v
      \<and> encode_fields s (full_due force_full now (de_last_full e)) (previous_value e) delta_fields v = Some w
      \<and> set_header number (full_due force_full now (de_last_full e)) (de_sequence e + 1) w = Some output
      \<and> e' = \<lparr>de_previous = Some snapshot,
          de_last_full = (if full_due force_full now (de_last_full e) then Some now else de_last_full e),
          de_epochs = map_of (rev (map (\<lambda>(key, p). (key, get p (lit ''maps_epoch''))) xs)),
          de_sequence = de_sequence e + 1\<rparr>)"
  unfolding encode_snapshot_def encode_all_processes_def assms previous_processes_def previous_value_def Let_def
  by (auto simp: bind_eq_Some_conv)

section \<open>Refinement\<close>

text \<open>
  What the browser holds: the entries of the keyed arrays, and for every process the entries of its
  mappings. \<open>view_of\<close> is the abstraction of a snapshot; \<open>receive\<close> updates a view from a message alone.
\<close>

record view =
  view_arrays :: "rstring \<Rightarrow> rstring \<Rightarrow> json option"
  view_maps :: "rstring \<Rightarrow> rstring \<Rightarrow> json option"

definition processes_of :: "(json \<Rightarrow> rstring) \<Rightarrow> json \<Rightarrow> rstring \<Rightarrow> json option" where
  "processes_of s v = keyed s (lit ''identity'') (snapshot_array_entries (get v (lit ''processes'')))"

definition view_of :: "(json \<Rightarrow> rstring) \<Rightarrow> json \<Rightarrow> view" where
  "view_of s v = \<lparr>
     view_arrays = (\<lambda>f. if f \<in> set delta_fields then keyed s (lit ''id'') (snapshot_array_entries (get v f)) else (\<lambda>_. None)),
     view_maps = (\<lambda>k. case processes_of s v k of None \<Rightarrow> (\<lambda>_. None)
       | Some p \<Rightarrow> keyed s (lit ''start'') (snapshot_array_entries (get p (lit ''maps''))))\<rparr>"

definition receive_array ::
  "(json \<Rightarrow> rstring) \<Rightarrow> rstring \<Rightarrow> rstring \<Rightarrow> rstring \<Rightarrow> json \<Rightarrow> (rstring \<Rightarrow> json option) \<Rightarrow> rstring \<Rightarrow> json option"
where
  "receive_array s name delta_name f message known =
     (if has_member name message then keyed s f (snapshot_array_entries (get message name))
      else if has_member delta_name message then apply_delta s f known (get message delta_name)
      else known)"

definition receive :: "(json \<Rightarrow> rstring) \<Rightarrow> json \<Rightarrow> view \<Rightarrow> view" where
  "receive s message w = \<lparr>
     view_arrays = (\<lambda>f. if f \<in> set delta_fields
       then receive_array s f (f @ lit ''_delta'') (lit ''id'') message (view_arrays w f) else (\<lambda>_. None)),
     view_maps = (\<lambda>k. case processes_of s message k of None \<Rightarrow> (\<lambda>_. None)
       | Some q \<Rightarrow> receive_array s (lit ''maps'') (lit ''maps_delta'') (lit ''start'') q (view_maps w k))\<rparr>"

lemma received_receive:
  "received s name delta_name f before message =
     receive_array s name delta_name f message (keyed s f (snapshot_array_entries (get before name)))"
  by (simp add: received_def receive_array_def)

lemma receive_array_whole: "has_member name message \<Longrightarrow> receive_array s name delta_name f message known =
    keyed s f (snapshot_array_entries (get message name))"
  by (simp add: receive_array_def)

lemma map_of_list_all2:
  "list_all2 (\<lambda>x y. fst x = fst y \<and> R (snd x) (snd y)) xs ys \<Longrightarrow> rel_option R (map_of xs k) (map_of ys k)"
  by (induction rule: list_all2_induct) (auto split: prod.splits)

lemma keyed_list_all2:
  assumes "list_all2 (\<lambda>p q. field_identity_key s q f = field_identity_key s p f \<and> R p q) ps qs"
  shows "rel_option R (keyed s f ps k) (keyed s f qs k)"
  unfolding keyed_def
proof (rule map_of_list_all2)
  show "list_all2 (\<lambda>x y. fst x = fst y \<and> R (snd x) (snd y)) (rev (map (\<lambda>v. (field_identity_key s v f, v)) ps))
      (rev (map (\<lambda>v. (field_identity_key s v f, v)) qs))"
    using assms by (simp add: list.rel_map rev_map [symmetric] del: rev_map) (auto elim: list_all2_mono)
qed

lemma entries_Null [simp]: "snapshot_array_entries (get Null f) = []"
  by (simp add: get_def snapshot_array_entries_def)

lemma keyed_Nil [simp]: "keyed s f [] = (\<lambda>_. None)"
  by (simp add: keyed_def)

lemma encode_process_receive:
  assumes p: "process_value s p" and e: "encode_process s full previous epochs p = Some (k, q)"
    and known: "\<not> full \<Longrightarrow> known = (case previous k of None \<Rightarrow> (\<lambda>_. None)
      | Some b \<Rightarrow> keyed s (lit ''start'') (snapshot_array_entries (get b (lit ''maps''))))"
  shows "receive_array s (lit ''maps'') (lit ''maps_delta'') (lit ''start'') q known
    = keyed s (lit ''start'') (snapshot_array_entries (get p (lit ''maps'')))"
proof (cases full)
  case True
  then have "q = p" using e by (simp add: encode_process_def Let_def)
  then show ?thesis using p by (simp add: receive_array_whole process_value_def)
next
  case False
  let ?b = "case previous k of None \<Rightarrow> Null | Some b \<Rightarrow> b"
  have "known = keyed s (lit ''start'') (snapshot_array_entries (get ?b (lit ''maps'')))"
    using known [OF False] by (simp split: option.splits)
  moreover have "previous k = None \<or> previous k = Some ?b" by (cases "previous k") simp_all
  ultimately show ?thesis
    using encode_process_received(1) [OF p e, of ?b] by (simp add: received_receive)
qed

lemma encode_processes_pairs:
  assumes "encode_processes s full previous epochs ps = Some xs"
  shows "list_all2 (\<lambda>p x. encode_process s full previous epochs p = Some x) ps xs"
  using assms by (induction ps arbitrary: xs) (auto simp: bind_eq_Some_conv)

lemma encode_processes_views:
  assumes ps: "list_all (process_value s) ps" and e: "encode_processes s full previous epochs ps = Some xs"
  shows "rel_option (\<lambda>p q. process_value s p \<and> encode_process s full previous epochs p = Some (k, q))
    (keyed s (lit ''identity'') ps k) (keyed s (lit ''identity'') (map snd xs) k)"
proof -
  let ?key = "\<lambda>p. field_identity_key s p (lit ''identity'')"
  have "list_all2 (\<lambda>p q. ?key q = ?key p \<and> (process_value s p \<and> encode_process s full previous epochs p = Some (?key p, q)))
      ps (map snd xs)"
    unfolding list.rel_map
  proof (rule list_all2I)
    show "length ps = length xs" using list_all2_lengthD [OF encode_processes_pairs [OF e]] .
    show "\<forall>x\<in>set (zip ps xs). case x of (p, x) \<Rightarrow>
        ?key (snd x) = ?key p \<and> process_value s p \<and> encode_process s full previous epochs p = Some (?key p, snd x)"
    proof (clarify, intro conjI)
      fix p k q
      assume z: "(p, k, q) \<in> set (zip ps xs)"
      then have enc: "encode_process s full previous epochs p = Some (k, q)"
        using encode_processes_pairs [OF e] by (auto simp: list_all2_iff)
      have v: "process_value s p" using ps set_zip_leftD [OF z] by (auto simp: list_all_iff)
      have "get q (lit ''identity'') = get p (lit ''identity'')"
        using encode_process_received(2) [OF v enc, of "case previous k of None \<Rightarrow> Null | Some b \<Rightarrow> b" "lit ''identity''"]
        by (auto simp: lit_eq_iff split: option.splits)
      then show "?key (snd (k, q)) = ?key p" by (simp add: field_identity_key_def)
      show "process_value s p" by (rule v)
      show "encode_process s full previous epochs p = Some (?key p, snd (k, q))"
        using enc encode_process_key [OF enc] by simp
    qed
  qed
  from keyed_list_all2 [OF this, of k] show ?thesis
    by (rule option.rel_mono_strong) (auto dest!: keyed_SomeD split: option.splits)
qed

lemma encode_fields_full: "encode_fields s True old fs v = Some v"
  by (induction fs) (simp_all add: encode_field_def)

lemma delta_fields_apart:
  assumes "f \<in> set delta_fields"
  shows "f \<notin> {lit ''kind'', lit ''sequence'', lit ''base_sequence''}" "f \<noteq> lit ''processes''"
    "f @ lit ''_delta'' \<notin> {lit ''kind'', lit ''sequence'', lit ''base_sequence''}" "f @ lit ''_delta'' \<noteq> lit ''processes''"
  using assms by (auto simp: delta_fields_def lit_append lit_eq_iff)

lemma processes_apart: "f \<in> set delta_fields \<Longrightarrow> lit ''processes'' \<noteq> f \<and> lit ''processes'' \<noteq> f @ lit ''_delta''"
  by (auto simp: delta_fields_def lit_append lit_eq_iff)

text \<open>The encoder's contract: a message turns the view of the previous snapshot into the view of this one.\<close>

lemma receive_encode:
  assumes e: "encoder_ok s e" and v: "snapshot_value s snapshot"
    and enc: "encode_snapshot s number snapshot force_full now e = Some (output, e')"
    and w: "\<And>old. de_previous e = Some old \<Longrightarrow> w = view_of s old"
  shows "receive s output w = view_of s snapshot"
proof -
  let ?full = "full_due force_full now (de_last_full e)"
  obtain ps where ps: "get snapshot (lit ''processes'') = Array ps" "list_all (process_value s) ps"
    using v by (auto simp: snapshot_value_def)
  obtain xs a b where xs: "encode_processes s ?full (previous_processes s e) (de_epochs e) ps = Some xs"
    and a: "set_member (lit ''processes'') (Array (map snd xs)) snapshot = Some a"
    and b: "encode_fields s ?full (previous_value e) delta_fields a = Some b"
    and out: "set_header number ?full (de_sequence e + 1) b = Some output"
    using enc unfolding encode_snapshot_Some [OF ps(1)] by blast
  have old: "w = view_of s (previous_value e)" if "\<not> ?full"
  proof (cases "de_previous e")
    case None
    then show ?thesis using e that by (simp add: encoder_ok_def full_due_def)
  qed (use w in \<open>simp add: previous_value_def\<close>)
  have arrays: "receive_array s f (f @ lit ''_delta'') (lit ''id'') output (view_arrays w f)
      = keyed s (lit ''id'') (snapshot_array_entries (get snapshot f))" if f: "f \<in> set delta_fields" for f
  proof -
    have snap: "has_member f a" "\<not> has_member (f @ lit ''_delta'') a" "get a f = get snapshot f"
      using v f delta_fields_apart [OF f]
      by (auto simp: snapshot_value_def list_all_iff get_set_member [OF a] has_set_member [OF a])
    have "distinct (map (\<lambda>x. field_identity_key s x (lit ''id'')) (snapshot_array_entries (get a f)))"
      using v f snap(3) by (auto simp: snapshot_value_def list_all_iff)
    note whole = encode_fields_received [OF b f delta_fields_independent(1) delta_fields_independent(2) [OF f] snap(1,2) this]
    have same: "get output g = get b g" "has_member g output = has_member g b" if "g \<in> {f, f @ lit ''_delta''}" for g
      using that set_header_members(1) [OF out, of g] delta_fields_apart [OF f] by auto
    show ?thesis
    proof (cases ?full)
      case True
      then have "b = a" using b by (simp add: encode_fields_full)
      then show ?thesis using same snap by (simp add: receive_array_whole)
    next
      case False
      have "receive_array s f (f @ lit ''_delta'') (lit ''id'') output (view_arrays w f)
          = received s f (f @ lit ''_delta'') (lit ''id'') (previous_value e) b"
        using f same by (simp add: old [OF False] view_of_def received_receive receive_array_def)
      then show ?thesis using whole snap(3) by simp
    qed
  qed
  have sent: "get output (lit ''processes'') = Array (map snd xs)"
    using set_header_members(1) [OF out, of "lit ''processes''"] encode_fields_other [OF b, of "lit ''processes''"] processes_apart
    by (simp add: lit_eq_iff get_set_member [OF a])
  have maps: "view_maps (receive s output w) k = view_maps (view_of s snapshot) k" for k
  proof -
    have known: "view_maps w k = (case previous_processes s e k of None \<Rightarrow> (\<lambda>_. None)
        | Some b \<Rightarrow> keyed s (lit ''start'') (snapshot_array_entries (get b (lit ''maps''))))" if "\<not> ?full"
      by (simp add: old [OF that] view_of_def processes_of_def previous_processes_def)
    have received: "receive_array s (lit ''maps'') (lit ''maps_delta'') (lit ''start'') q (view_maps w k)
        = keyed s (lit ''start'') (snapshot_array_entries (get p (lit ''maps'')))"
      if "process_value s p" "encode_process s ?full (previous_processes s e) (de_epochs e) p = Some (k, q)" for p q
      using that known by (rule encode_process_receive)
    show ?thesis
      using encode_processes_views [OF ps(2) xs, of k]
      by (cases rule: option.rel_cases)
         (auto simp: receive_def view_of_def processes_of_def sent ps(1) snapshot_array_entries_def received)
  qed
  show ?thesis
    using maps by (intro view.equality) (auto simp: receive_def view_of_def arrays)
qed

lemma encode_processes_epochs:
  assumes "encode_processes s full previous epochs ps = Some xs" "keyed s (lit ''identity'') ps k \<noteq> None"
  shows "map_of (rev (map (\<lambda>(key, p). (key, f p)) xs)) k \<noteq> None"
proof -
  have "k \<in> (\<lambda>p. field_identity_key s p (lit ''identity'')) ` set ps"
    using assms(2) by (simp add: keyed_None)
  then have "k \<in> fst ` set xs"
    using assms(1)
  proof (induction ps arbitrary: xs)
    case (Cons p ps)
    from Cons.prems(2) obtain x ys where "encode_process s full previous epochs p = Some x"
      "encode_processes s full previous epochs ps = Some ys" "xs = x # ys"
      by (auto simp: bind_eq_Some_conv)
    then show ?case using Cons.IH Cons.prems(1) encode_process_key [of s full previous epochs p] by (cases x) auto
  qed simp
  then have "k \<in> fst ` set (rev (map (\<lambda>(key, p). (key, f p)) xs))" by force
  then show ?thesis by (simp only: map_of_eq_None_iff not_not)
qed

lemma encoder_ok_next:
  assumes "snapshot_value s snapshot" "get snapshot (lit ''processes'') = Array ps"
    "encode_processes s full previous epochs ps = Some xs"
  shows "encoder_ok s \<lparr>de_previous = Some snapshot, de_last_full = last_full,
      de_epochs = map_of (rev (map (\<lambda>(key, p). (key, get p (lit ''maps_epoch''))) xs)), de_sequence = sequence\<rparr>"
  unfolding encoder_ok_def SnapshotEncoder.simps option.case assms(2)
  using assms(1) encode_processes_epochs [OF assms(3), of _ "\<lambda>p. get p (lit ''maps_epoch'')"]
  by (simp only: snapshot_array_entries_def json.case) simp

text \<open>It succeeds on every snapshot and keeps its invariant.\<close>

lemma encode_snapshot_total:
  assumes e: "encoder_ok s e" and v: "snapshot_value s snapshot"
  shows "\<exists>output e'. encode_snapshot s number snapshot force_full now e = Some (output, e') \<and> encoder_ok s e'
    \<and> de_previous e' = Some snapshot"
proof -
  let ?full = "full_due force_full now (de_last_full e)"
  obtain ps where ps: "get snapshot (lit ''processes'') = Array ps" "list_all (process_value s) ps" and obj: "is_object snapshot"
    using v by (auto simp: snapshot_value_def)
  obtain xs where xs: "encode_processes s ?full (previous_processes s e) (de_epochs e) ps = Some xs"
    using encode_processes_total [of ps "previous_processes s e" "de_epochs e" s ?full] ps(2) e
    by (auto simp: list_all_iff process_value_def encoder_ok_def previous_processes_def previous_value_def)
  obtain a where a: "set_member (lit ''processes'') (Array (map snd xs)) snapshot = Some a" "is_object a"
    using set_member_object(1) [OF obj] by blast
  obtain b where b: "encode_fields s ?full (previous_value e) delta_fields a = Some b" "is_object b"
    using encode_fields_total [OF a(2)] by blast
  obtain msg where out: "set_header number ?full (de_sequence e + 1) b = Some msg"
    using set_header_total [OF b(2)] by blast
  let ?e = "\<lparr>de_previous = Some snapshot, de_last_full = (if ?full then Some now else de_last_full e),
      de_epochs = map_of (rev (map (\<lambda>(key, p). (key, get p (lit ''maps_epoch''))) xs)), de_sequence = de_sequence e + 1\<rparr>"
  have "encode_snapshot s number snapshot force_full now e = Some (msg, ?e)"
    unfolding encode_snapshot_Some [OF ps(1)] using xs a b out by blast
  moreover have "encoder_ok s ?e"
    by (rule encoder_ok_next [OF v ps(1) xs])
  ultimately show ?thesis by (intro exI conjI) (assumption, assumption, simp)
qed

section \<open>Streams\<close>

text \<open>A stream of snapshots, each with the request for a full one and the time.\<close>

fun encode_stream ::
  "(json \<Rightarrow> rstring) \<Rightarrow> (u64 \<Rightarrow> json) \<Rightarrow> (json \<times> bool \<times> nat) list \<Rightarrow> SnapshotEncoder \<Rightarrow> json list option"
where
  "encode_stream s number [] e = Some []"
| "encode_stream s number ((snapshot, force_full, now) # rest) e =
     Option.bind (encode_snapshot s number snapshot force_full now e) (\<lambda>(output, e).
     Option.bind (encode_stream s number rest e) (\<lambda>outputs. Some (output # outputs)))"

lemma encode_stream_views:
  assumes "encoder_ok s e" "list_all (snapshot_value s \<circ> fst) rest"
    and "\<And>old. de_previous e = Some old \<Longrightarrow> w = view_of s old"
  shows "\<exists>outputs. encode_stream s number rest e = Some outputs \<and> length outputs = length rest
    \<and> (\<forall>i < length rest. fold (receive s) (take (Suc i) outputs) w = view_of s (fst (rest ! i)))"
  using assms
proof (induction rest arbitrary: e w)
  case (Cons x rest)
  obtain snapshot force_full now where x: "x = (snapshot, force_full, now)" by (cases x)
  then have v: "snapshot_value s snapshot" using Cons.prems(2) by simp
  obtain msg e' where enc: "encode_snapshot s number snapshot force_full now e = Some (msg, e')"
    and e': "encoder_ok s e'" "de_previous e' = Some snapshot"
    using encode_snapshot_total [OF Cons.prems(1) v] by blast
  have r: "receive s msg w = view_of s snapshot"
    by (rule receive_encode [OF Cons.prems(1) v enc Cons.prems(3)])
  obtain outputs where o: "encode_stream s number rest e' = Some outputs" "length outputs = length rest"
    "\<forall>i < length rest. fold (receive s) (take (Suc i) outputs) (view_of s snapshot) = view_of s (fst (rest ! i))"
    using Cons.IH [OF e'(1), of "view_of s snapshot"] Cons.prems(2) e'(2) by auto
  have "fold (receive s) (take (Suc i) (msg # outputs)) w = view_of s (fst ((x # rest) ! i))" if "i < length (x # rest)" for i
    using that o(3) r by (cases i) (simp_all add: x)
  then show ?case using o enc by (auto simp: x)
qed simp

text \<open>C12: the browser sees every snapshot. Starting from a new encoder, a stream of snapshots is encoded
  without a panic into one message each; a receiver that applies the messages in order, from whatever it held
  before, has after every message exactly the descriptor, RDMA and device relations and the memory mappings
  of the snapshot that was encoded, whether they were sent whole, as deltas or left out.\<close>

theorem delta_stream_reconstructs:
  assumes "list_all (snapshot_value show_json \<circ> fst) snapshots"
  shows "\<exists>outputs. encode_stream show_json number snapshots SnapshotEncoder_default = Some outputs
    \<and> length outputs = length snapshots
    \<and> (\<forall>i < length snapshots.
        fold (receive show_json) (take (Suc i) outputs) w = view_of show_json (fst (snapshots ! i)))"
  using assms
  by (intro encode_stream_views encoder_ok_default) (simp_all add: SnapshotEncoder_default_def)

text \<open>Every message carries its number; a delta names the message before it as its base.\<close>

lemma encode_snapshot_header:
  assumes "encode_snapshot s number snapshot force_full now e = Some (msg, e')"
  shows "de_sequence e' = de_sequence e + 1" "get msg (lit ''sequence'') = number (de_sequence e + 1)"
    "get msg (lit ''kind'') = String (if full_due force_full now (de_last_full e) then lit ''full'' else lit ''delta'')"
    "\<not> full_due force_full now (de_last_full e) \<Longrightarrow> get msg (lit ''base_sequence'') = number (de_sequence e)"
    "de_last_full e' = (if full_due force_full now (de_last_full e) then Some now else de_last_full e)"
proof -
  obtain b where out: "set_header number (full_due force_full now (de_last_full e)) (de_sequence e + 1) b = Some msg"
    and e': "de_sequence e' = de_sequence e + 1"
      "de_last_full e' = (if full_due force_full now (de_last_full e) then Some now else de_last_full e)"
    using assms unfolding encode_snapshot_def Let_def by (auto simp: bind_eq_Some_conv)
  show "de_sequence e' = de_sequence e + 1"
    "de_last_full e' = (if full_due force_full now (de_last_full e) then Some now else de_last_full e)"
    by (fact e')+
  show "get msg (lit ''sequence'') = number (de_sequence e + 1)"
    "get msg (lit ''kind'') = String (if full_due force_full now (de_last_full e) then lit ''full'' else lit ''delta'')"
    using set_header_members(2,3) [OF out] by simp_all
  show "get msg (lit ''base_sequence'') = number (de_sequence e)" if "\<not> full_due force_full now (de_last_full e)"
    using set_header_members(4) [OF out that] by simp
qed

text \<open>When the last full snapshot before the \<open>i\<close>-th one of a stream was encoded.\<close>

fun last_full_before :: "(json \<times> bool \<times> nat) list \<Rightarrow> nat option \<Rightarrow> nat option" where
  "last_full_before [] last_full = last_full"
| "last_full_before ((snapshot, force_full, now) # rest) last_full =
     last_full_before rest (if full_due force_full now last_full then Some now else last_full)"

lemma encode_stream_headers:
  assumes "encode_stream s number rest e = Some outputs" "i < length rest"
  shows "get (outputs ! i) (lit ''sequence'') = number (de_sequence e + word_of_nat i + 1)
    \<and> (case rest ! i of (_, force_full, now) \<Rightarrow>
        if full_due force_full now (last_full_before (take i rest) (de_last_full e))
        then get (outputs ! i) (lit ''kind'') = String (lit ''full'')
        else get (outputs ! i) (lit ''kind'') = String (lit ''delta'')
          \<and> get (outputs ! i) (lit ''base_sequence'') = number (de_sequence e + word_of_nat i))"
  using assms
proof (induction rest arbitrary: e outputs i)
  case (Cons x rest)
  obtain snapshot force_full now where x: "x = (snapshot, force_full, now)" by (cases x)
  obtain msg e' msgs where enc: "encode_snapshot s number snapshot force_full now e = Some (msg, e')"
    and rest: "encode_stream s number rest e' = Some msgs" and outputs: "outputs = msg # msgs"
    using Cons.prems(1) unfolding x by (auto simp: bind_eq_Some_conv)
  note header = encode_snapshot_header [OF enc]
  show ?case
  proof (cases i)
    case 0
    then show ?thesis using header by (simp add: x outputs)
  next
    case (Suc j)
    have "de_sequence e' + word_of_nat j = de_sequence e + word_of_nat i" using header(1) Suc by simp
    then show ?thesis using Cons.IH [OF rest, of j] Cons.prems(2) Suc
      by (simp only: x outputs header(5)) (simp add: split: prod.splits)
  qed
qed simp

text \<open>The headers of a stream are what the browser checks before it merges a message. The \<open>i\<close>-th message has
  number \<open>i + 1\<close>; it is a full snapshot exactly when one was asked for, none was sent before, or the last
  one is 60 seconds old; otherwise it is a delta whose base is the message just before it. So the first message is
  full and no delta is ever refused for its baseline.\<close>

theorem delta_stream_headers:
  assumes "encode_stream show_json number snapshots SnapshotEncoder_default = Some outputs" "i < length snapshots"
  shows "get (outputs ! i) (lit ''sequence'') = number (word_of_nat (Suc i))
    \<and> get (outputs ! i) (lit ''kind'') = String (if i = 0 \<or> full_due (fst (snd (snapshots ! i))) (snd (snd (snapshots ! i)))
        (last_full_before (take i snapshots) None) then lit ''full'' else lit ''delta'')
    \<and> (get (outputs ! i) (lit ''kind'') \<noteq> String (lit ''full'') \<longrightarrow>
        0 < i \<and> get (outputs ! i) (lit ''base_sequence'') = get (outputs ! (i - 1)) (lit ''sequence''))"
proof -
  let ?full = "\<lambda>j. full_due (fst (snd (snapshots ! j))) (snd (snd (snapshots ! j))) (last_full_before (take j snapshots) None)"
  have header: "get (outputs ! j) (lit ''sequence'') = number (word_of_nat (Suc j))
    \<and> (if ?full j then get (outputs ! j) (lit ''kind'') = String (lit ''full'')
       else get (outputs ! j) (lit ''kind'') = String (lit ''delta'')
          \<and> get (outputs ! j) (lit ''base_sequence'') = number (word_of_nat j))" if "j < length snapshots" for j
    using encode_stream_headers [OF assms(1) that]
    by (simp add: SnapshotEncoder_default_def add.commute split: prod.splits)
  have first: "?full 0" by (simp add: full_due_def)
  show ?thesis
  proof (cases "?full i")
    case True
    then show ?thesis using header [OF assms(2)] by simp
  next
    case False
    then have "i \<noteq> 0" using first by metis
    then show ?thesis using False header [OF assms(2)] header [of "i - 1"] assms(2) by (simp add: lit_eq_iff)
  qed
qed

section \<open>A sample stream\<close>

text \<open>A serialisation for the samples: compact text without escapes.\<close>

fun sample_show_json :: "json \<Rightarrow> rstring" where
  "sample_show_json Null = lit ''null''"
| "sample_show_json (Bool b) = (if b then lit ''true'' else lit ''false'')"
| "sample_show_json (Number n) = n"
| "sample_show_json (String t) = lit ''\"'' @ t @ lit ''\"''"
| "sample_show_json (Array xs) = lit ''['' @ concat (map (\<lambda>x. sample_show_json x @ lit '','') xs) @ lit '']''"
| "sample_show_json (Object ms) =
     lit ''{'' @ concat (map (\<lambda>m. lit ''\"'' @ fst m @ lit ''\":'' @ sample_show_json (snd m) @ lit '','') ms) @ lit ''}''"

definition sample_map :: "string \<Rightarrow> json" where
  "sample_map start = Object [(lit ''start'', String (lit start))]"

definition sample_snapshot :: "string list \<Rightarrow> json" where
  "sample_snapshot starts = Object
     [(lit ''processes'', Array [Object [(lit ''identity'', String (lit ''7:100'')),
         (lit ''maps'', Array (map sample_map starts)), (lit ''maps_epoch'', Number (lit ''1''))]]),
      (lit ''fd_relations'', Array [Object [(lit ''id'', String (lit ''socket:5''))]]),
      (lit ''rdma_relations'', Array []),
      (lit ''device_handles'', Array [])]"

definition sample_snapshots :: "(json \<times> bool \<times> nat) list" where
  "sample_snapshots = [(sample_snapshot [''4096'', ''8192''], False, 0),
     (sample_snapshot [''4096'', ''8192'', ''65536''], False, 1000), (sample_snapshot [''4096'', ''65536''], False, 2000)]"

lemma sample_snapshot_value:
  "list_all (snapshot_value sample_show_json \<circ> fst) sample_snapshots"
  by (simp add: sample_snapshots_def sample_snapshot_def snapshot_value_def process_value_def is_object_def get_def has_member_def
      sample_map_def field_identity_key_def snapshot_array_entries_def delta_fields_def lit_append lit_eq_iff)

theorem delta_stream_reconstructs_witness:
  "list_all (snapshot_value sample_show_json \<circ> fst) sample_snapshots
   \<and> (\<exists>outputs. encode_stream sample_show_json (\<lambda>n. Number (show_dec (unat n))) sample_snapshots SnapshotEncoder_default = Some outputs
    \<and> length outputs = 3
    \<and> fold (receive sample_show_json) (take 3 outputs) (view_of sample_show_json Null)
      = view_of sample_show_json (sample_snapshot [''4096'', ''65536'']))"
proof -
  obtain outputs where o: "encode_stream sample_show_json (\<lambda>n. Number (show_dec (unat n))) sample_snapshots
      SnapshotEncoder_default = Some outputs" "length outputs = length sample_snapshots"
    "\<forall>i < length sample_snapshots. fold (receive sample_show_json) (take (Suc i) outputs) (view_of sample_show_json Null)
      = view_of sample_show_json (fst (sample_snapshots ! i))"
    using delta_stream_reconstructs [OF sample_snapshot_value, of "\<lambda>n. Number (show_dec (unat n))" "view_of sample_show_json Null"]
    by blast
  have n: "length sample_snapshots = 3" "fst (sample_snapshots ! 2) = sample_snapshot [''4096'', ''65536'']"
    by (simp_all add: sample_snapshots_def)
  have "fold (receive sample_show_json) (take 3 outputs) (view_of sample_show_json Null)
      = view_of sample_show_json (sample_snapshot [''4096'', ''65536''])"
    using o(3) [rule_format, of 2] by (simp only: n) simp
  then show ?thesis using o(1,2) n(1) sample_snapshot_value by auto
qed

theorem delta_stream_headers_witness:
  "\<exists>outputs. encode_stream sample_show_json (\<lambda>n. Number (show_dec (unat n))) sample_snapshots SnapshotEncoder_default = Some outputs
    \<and> 2 < length sample_snapshots
    \<and> get (outputs ! 2) (lit ''sequence'') = Number (show_dec 3)
    \<and> get (outputs ! 2) (lit ''kind'') = String (lit ''delta'')
    \<and> get (outputs ! 2) (lit ''base_sequence'') = get (outputs ! 1) (lit ''sequence'')"
proof -
  obtain outputs where o: "encode_stream sample_show_json (\<lambda>n. Number (show_dec (unat n))) sample_snapshots
      SnapshotEncoder_default = Some outputs"
    using encode_stream_views [OF encoder_ok_default sample_snapshot_value, of "view_of sample_show_json Null"]
    by (simp add: SnapshotEncoder_default_def) blast
  have n: "2 < length sample_snapshots" by (simp add: sample_snapshots_def)
  note header = delta_stream_headers [OF o n]
  have "\<not> full_due (fst (snd (sample_snapshots ! 2))) (snd (snd (sample_snapshots ! 2))) (last_full_before (take 2 sample_snapshots) None)"
    by (simp add: sample_snapshots_def full_due_def)
  then have k: "get (outputs ! 2) (lit ''kind'') = String (lit ''delta'')" using header by simp
  moreover have "get (outputs ! 2) (lit ''base_sequence'') = get (outputs ! 1) (lit ''sequence'')"
    using header by (simp add: k lit_eq_iff)
  moreover have "get (outputs ! 2) (lit ''sequence'') = Number (show_dec 3)"
    using header by simp
  ultimately show ?thesis using o n by blast
qed

end
