(* ===== verification/Bytes.thy ===== *)
theory Bytes
  imports Prelude
begin

text \<open>
  Reading integers out of byte slices: \<open>bytes[a..b]\<close> and \<open>uN::from_ne_bytes\<close> at an offset, as the
  netlink, BPF and stack readers use them, and the alignment arithmetic of netlink.
\<close>

unbundle bit_operations_syntax

definition slice :: "nat \<Rightarrow> nat \<Rightarrow> byte list \<Rightarrow> byte list" where
  "slice a b bytes = take (b - a) (drop a bytes)"

definition word_at :: "byte list \<Rightarrow> nat \<Rightarrow> 'a::len word" where
  "word_at bytes offset = from_ne_bytes (slice offset (offset + LENGTH('a) div 8) bytes)"

text \<open>\<open>bytes.get(a..b)\<close>.\<close>

definition get_slice :: "nat \<Rightarrow> nat \<Rightarrow> byte list \<Rightarrow> byte list option" where
  "get_slice a b bytes = (if a \<le> b \<and> b \<le> length bytes then Some (slice a b bytes) else None)"

lemma length_slice [simp]: "b \<le> length bytes \<Longrightarrow> length (slice a b bytes) = b - a"
  by (simp add: slice_def)

lemma slice_append [simp]:
  "slice (length pre + a) (length pre + b) (pre @ bytes) = slice a b bytes"
  by (simp add: slice_def)

lemma slice_prefix: "b \<le> length bytes \<Longrightarrow> slice a b (bytes @ rest) = slice a b bytes"
  by (cases "a \<le> length bytes") (simp_all add: slice_def)

lemma slice_take: "b \<le> k \<Longrightarrow> slice a b (take k bytes) = slice a b bytes"
  by (simp add: slice_def drop_take min_def)

lemma slice_split: "a \<le> b \<Longrightarrow> b \<le> length bytes \<Longrightarrow> bytes = take a bytes @ slice a b bytes @ drop b bytes"
proof -
  assume "a \<le> b" "b \<le> length bytes"
  then have "slice a b bytes @ drop b bytes = drop a bytes"
    by (metis append_take_drop_id drop_drop le_add_diff_inverse2 slice_def)
  then show ?thesis by simp
qed

lemma word_at_append [simp]: "word_at (pre @ bytes) (length pre + a) = word_at bytes a"
  by (simp add: word_at_def add.assoc)

lemma word_at_take: "offset + LENGTH('a::len) div 8 \<le> k \<Longrightarrow> (word_at (take k bytes) offset :: 'a word) = word_at bytes offset"
  by (simp add: word_at_def slice_take)

lemma word_at_here:
  "8 dvd LENGTH('a) \<Longrightarrow> length pre = offset \<Longrightarrow> word_at (pre @ to_ne_bytes (w :: 'a::len word) @ post) offset = w"
  by (simp add: word_at_def slice_def from_to_ne_bytes)

lemma unat_word_of_nat: "n < 2 ^ LENGTH('a::len) \<Longrightarrow> unat (word_of_nat n :: 'a word) = n"
  by (simp add: unat_of_nat)

section \<open>Saturating arithmetic\<close>

definition saturating_sub :: "'a::len word \<Rightarrow> 'a word \<Rightarrow> 'a word" where
  "saturating_sub a b = (if b \<le> a then a - b else 0)"

definition saturating_add :: "'a::len word \<Rightarrow> 'a word \<Rightarrow> 'a word" where
  "saturating_add a b = (if unat a + unat b < 2 ^ LENGTH('a) then a + b else - 1)"

lemma unat_saturating_sub: "unat (saturating_sub a b) = unat a - unat b"
  by (simp add: saturating_sub_def unat_sub word_le_nat_alt)

lemma unat_saturating_add:
  "unat (saturating_add a b) = min (2 ^ LENGTH('a) - 1) (unat a + unat (b :: 'a::len word))"
proof (cases "unat a + unat b < 2 ^ LENGTH('a)")
  case True
  then show ?thesis by (simp add: saturating_add_def unat_word_ariths)
next
  case False
  then show ?thesis by (simp add: saturating_add_def unsigned_minus_1_eq_mask mask_eq_exp_minus_1)
qed

section \<open>Alignment\<close>

text \<open>\<open>(length + 3) & !3\<close> on \<open>usize\<close>.\<close>

definition align4 :: "nat \<Rightarrow> nat" where
  "align4 n = unat ((word_of_nat n + 3 :: usize) AND NOT 3)"

lemma and_not_mask: "(w :: 'a::len word) AND NOT (mask n) = push_bit n (drop_bit n w)"
proof (rule bit_eqI)
  fix k
  show "bit (w AND NOT (mask n)) k = bit (push_bit n (drop_bit n w)) k"
    by (cases "n \<le> k") (auto simp: bit_simps)
qed

lemma align4_eq:
  assumes "n < 2 ^ 63"
  shows "align4 n = 4 * ((n + 3) div 4)"
proof -
  have n: "unat (word_of_nat n + 3 :: usize) = n + 3"
    using assms by (simp add: unat_word_ariths unat_of_nat)
  have three: "(3 :: usize) = mask 2" by (simp add: mask_eq_exp_minus_1)
  have q: "unat (drop_bit 2 (word_of_nat n + 3 :: usize)) = (n + 3) div 4"
    unfolding drop_bit_eq_div unat_div_distrib n by simp
  have "(n + 3) div 4 * 4 \<le> n + 3" by simp
  also have "n + 3 < 2 ^ 64" using assms by simp
  finally have less: "(n + 3) div 4 * 4 < 2 ^ 64" .
  have "unat (push_bit 2 (drop_bit 2 (word_of_nat n + 3 :: usize))) = (n + 3) div 4 * 4"
    unfolding push_bit_eq_mult unat_word_ariths(2) q using less by simp
  then show ?thesis unfolding align4_def three and_not_mask by simp
qed

lemma align4_bounds: "n < 2 ^ 63 \<Longrightarrow> n \<le> align4 n \<and> align4 n < n + 4"
  unfolding align4_eq by presburger

lemma align4_unat: "LENGTH('a::len) < 64 \<Longrightarrow> unat (w :: 'a word) \<le> align4 (unat w) \<and> align4 (unat w) < unat w + 4"
proof (rule align4_bounds)
  assume "LENGTH('a) < 64"
  then have "(2 :: nat) ^ LENGTH('a) \<le> 2 ^ 63" by (intro power_increasing) simp_all
  then show "unat w < 2 ^ 63" using unat_less_pow [of w] by linarith
qed

end
