(* ===== verification/Netlink.thy ===== *)
theory Netlink
  imports Bytes
begin

text \<open>
  Bounded netlink dumps and attribute parsing (\<open>src/privileged_helper/netlink.rs\<close>). What the kernel
  answers to each turn of the receive loop is a parameter: a list of events, each with the time at which the
  turn starts. A loop that has used up the list has not returned yet (\<open>None\<close>). Datagrams are byte lists; with
  \<open>MSG_TRUNC\<close> the count that \<open>recvfrom\<close> returns is the length of the whole datagram.
\<close>

section \<open>Constants and errors\<close>

definition HEADER :: nat where "HEADER = 16"
definition NLMSG_ERROR :: u16 where "NLMSG_ERROR = 2"
definition NLMSG_DONE :: u16 where "NLMSG_DONE = 3"
definition NLM_F_DUMP_INTR :: u16 where "NLM_F_DUMP_INTR = 0x10"
definition DUMP_FLAGS :: u16 where "DUMP_FLAGS = 0x301"
definition REPLY_LIMIT :: nat where "REPLY_LIMIT = 8 * 1024 * 1024"
definition BUFFER_SIZE :: nat where "BUFFER_SIZE = 65536"

lemmas netlink_constants = HEADER_def NLMSG_ERROR_def NLMSG_DONE_def NLM_F_DUMP_INTR_def DUMP_FLAGS_def
  REPLY_LIMIT_def BUFFER_SIZE_def

datatype netlink_error =
    TimedOut
  | System int
  | SendFailed
  | TruncatedPacket
  | SenderNotKernel
  | ReplyLimit
  | ShortHeader
  | InvalidLength
  | DumpInterrupted
  | DumpFailed int
  | KernelError int
  | UnexpectedMessage u16
  | ShortField
  | ShortAttribute
  | InvalidAttributeLength

text \<open>\<open>kernel_error\<close>: the errno, \<open>i32::saturating_neg\<close> of the code.\<close>

definition kernel_error :: "i32 \<Rightarrow> int" where
  "kernel_error code = (if sint code = - (2 ^ 31) then 2 ^ 31 - 1 else - sint code)"

definition u32_at :: "byte list \<Rightarrow> nat \<Rightarrow> netlink_error + u32" where
  "u32_at bytes offset =
     (case get_slice offset (offset + 4) bytes of None \<Rightarrow> Inl ShortField | Some b \<Rightarrow> Inr (from_ne_bytes b))"

section \<open>Attributes\<close>

text \<open>The body of the loop: the length, type and payload of the attribute at an offset.\<close>

definition attribute_at :: "byte list \<Rightarrow> nat \<Rightarrow> netlink_error + nat \<times> u16 \<times> byte list" where
  "attribute_at bytes offset =
     (if offset + 4 \<le> length bytes then
        (let len = unat (word_at bytes offset :: u16);
             kind = word_at bytes (offset + 2) AND 0x3fff in
         if 4 \<le> len \<and> offset + len \<le> length bytes
         then Inr (len, kind, slice (offset + 4) (offset + len) bytes)
         else Inl InvalidAttributeLength)
      else Inl ShortAttribute)"

lemma attribute_at_length:
  assumes "attribute_at bytes offset = Inr (len, x)"
  shows "4 \<le> len" "offset + len \<le> length bytes" "len \<le> align4 len"
  using assms align4_unat [of "word_at bytes offset :: u16"]
  by (auto simp: attribute_at_def Let_def split: if_splits)

lemma attribute_at_progress:
  "attribute_at bytes offset = Inr (len, x) \<Longrightarrow> offset < length bytes \<Longrightarrow>
   length bytes - (offset + align4 len) < length bytes - offset"
  using attribute_at_length [of bytes offset len x] by linarith

function attributes_from :: "byte list \<Rightarrow> nat \<Rightarrow> netlink_error + (u16 \<times> byte list) list" where
  "attributes_from bytes offset =
     (if offset < length bytes then
        (case attribute_at bytes offset of
           Inl e \<Rightarrow> Inl e
         | Inr (len, attribute) \<Rightarrow>
             and_then (attributes_from bytes (offset + align4 len)) (\<lambda>rest. Inr (attribute # rest)))
      else Inr [])"
  by pat_completeness auto
termination
  by (relation "measure (\<lambda>(bytes, offset). length bytes - offset)") (auto intro: attribute_at_progress)

declare attributes_from.simps [simp del]

definition parse_netlink_attributes :: "byte list \<Rightarrow> netlink_error + (u16 \<times> byte list) list" where
  "parse_netlink_attributes bytes = attributes_from bytes 0"

section \<open>Requests\<close>

record NetlinkDumpRequest =
  message_type :: u16
  reply_type :: u16
  sequence :: u32
  payload :: "byte list"

definition dump_packet :: "NetlinkDumpRequest \<Rightarrow> byte list" where
  "dump_packet request =
     to_ne_bytes (word_of_nat (HEADER + length (payload request)) :: u32)
     @ to_ne_bytes (message_type request)
     @ to_ne_bytes DUMP_FLAGS
     @ to_ne_bytes (sequence request)
     @ replicate 4 0
     @ payload request"

section \<open>Messages of a packet\<close>

text \<open>A message ends the dump, acknowledges it, or carries a body.\<close>

datatype message = Done | Acknowledged | Body "byte list"

text \<open>The message at an offset with its length.\<close>

definition message_at :: "NetlinkDumpRequest \<Rightarrow> byte list \<Rightarrow> nat \<Rightarrow> netlink_error + nat \<times> message" where
  "message_at request bytes offset =
     (if offset + HEADER \<le> length bytes then
        and_then (u32_at bytes offset) (\<lambda>size.
        let len = unat size in
        if HEADER \<le> len \<and> len \<le> length bytes - offset then
          (let kind = word_at bytes (offset + 4) :: u16;
               flags = word_at bytes (offset + 6) :: u16 in
           and_then (u32_at bytes (offset + 8)) (\<lambda>number.
           if number = sequence request \<and> flags AND NLM_F_DUMP_INTR = 0 then
             (let body = slice (offset + HEADER) (offset + len) bytes in
              if kind = NLMSG_DONE then
                (if 4 \<le> length body then
                   and_then (u32_at body 0) (\<lambda>code.
                   if code \<noteq> 0 then Inl (DumpFailed (kernel_error code)) else Inr (len, Done))
                 else Inr (len, Done))
              else if kind = NLMSG_ERROR then
                and_then (u32_at body 0) (\<lambda>code.
                if code \<noteq> 0 then Inl (KernelError (kernel_error code)) else Inr (len, Acknowledged))
              else if kind = reply_type request then Inr (len, Body body)
              else Inl (UnexpectedMessage kind))
           else Inl DumpInterrupted))
        else Inl InvalidLength)
      else Inl ShortHeader)"

lemma message_at_length:
  assumes "message_at request bytes offset = Inr (len, m)"
  shows "HEADER \<le> len" "len \<le> length bytes - offset" "len \<le> align4 len"
proof -
  obtain size where "u32_at bytes offset = Inr size" "len = unat size" "HEADER \<le> len" "len \<le> length bytes - offset"
    using assms by (auto simp: message_at_def Let_def and_then_eq_Inr split: if_splits)
  then show "HEADER \<le> len" "len \<le> length bytes - offset" "len \<le> align4 len" using align4_unat [of size] by auto
qed

lemma message_at_progress:
  "message_at request bytes offset = Inr (len, m) \<Longrightarrow> offset < length bytes \<Longrightarrow>
   length bytes - (offset + align4 len) < length bytes - offset"
  using message_at_length [of request bytes offset len m] by (simp add: HEADER_def)

text \<open>A packet either ends the dump or leaves it open, with the bodies collected so far.\<close>

datatype progress = Finished "byte list list" | Open "byte list list"

function messages_from ::
  "NetlinkDumpRequest \<Rightarrow> byte list \<Rightarrow> nat \<Rightarrow> byte list list \<Rightarrow> netlink_error + progress"
where
  "messages_from request bytes offset replies =
     (if offset < length bytes then
        (case message_at request bytes offset of
           Inl e \<Rightarrow> Inl e
         | Inr (len, Done) \<Rightarrow> Inr (Finished replies)
         | Inr (len, Acknowledged) \<Rightarrow> messages_from request bytes (offset + align4 len) replies
         | Inr (len, Body body) \<Rightarrow> messages_from request bytes (offset + align4 len) (replies @ [body]))
      else Inr (Open replies))"
  by pat_completeness auto
termination
  by (relation "measure (\<lambda>(request, bytes, offset, replies). length bytes - offset)") (auto intro: message_at_progress)

declare messages_from.simps [simp del]

section \<open>The receive loop\<close>

datatype event =
    PollFailed int      \<comment> \<open>\<open>poll\<close> fails, not with \<open>EINTR\<close>\<close>
  | NotReady            \<comment> \<open>\<open>poll\<close> times out or is interrupted, or \<open>recvfrom\<close> would block or is interrupted\<close>
  | ReceiveFailed int   \<comment> \<open>any other error of \<open>recvfrom\<close>\<close>
  | Datagram u32 "byte list"  \<comment> \<open>the sender's port and the whole datagram\<close>

type_synonym turn = "nat \<times> event"

fun receive_replies ::
  "NetlinkDumpRequest \<Rightarrow> nat \<Rightarrow> byte list list \<Rightarrow> nat \<Rightarrow> turn list \<Rightarrow> (netlink_error + byte list list) option"
where
  "receive_replies request deadline replies taken [] = None"
| "receive_replies request deadline replies taken ((now, event) # turns) =
     (if now < deadline then
        (case event of
           PollFailed code \<Rightarrow> Some (Inl (System code))
         | NotReady \<Rightarrow> receive_replies request deadline replies taken turns
         | ReceiveFailed code \<Rightarrow> Some (Inl (System code))
         | Datagram pid bytes \<Rightarrow>
             if 0 < length bytes \<and> length bytes \<le> BUFFER_SIZE then
               if pid = 0 then
                 (let taken = taken + length bytes in
                  if taken \<le> REPLY_LIMIT then
                    (case messages_from request bytes 0 replies of
                       Inl e \<Rightarrow> Some (Inl e)
                     | Inr (Finished replies) \<Rightarrow> Some (Inr replies)
                     | Inr (Open replies) \<Rightarrow> receive_replies request deadline replies taken turns)
                  else Some (Inl ReplyLimit))
               else Some (Inl SenderNotKernel)
             else Some (Inl TruncatedPacket))
      else Some (Inl TimedOut))"

text \<open>\<open>collect_netlink_dump\<close>: \<open>sent\<close> is what \<open>sendto\<close> returned for the packet.\<close>

definition collect_netlink_dump ::
  "NetlinkDumpRequest \<Rightarrow> nat \<Rightarrow> nat \<Rightarrow> (byte list \<Rightarrow> int) \<Rightarrow> turn list \<Rightarrow> (netlink_error + byte list list) option"
where
  "collect_netlink_dump request deadline now sent turns =
     (if now < deadline then
        (let packet = dump_packet request in
         if sent packet = int (length packet) then receive_replies request deadline [] 0 turns
         else Some (Inl SendFailed))
      else Some (Inl TimedOut))"

section \<open>Reading at an offset\<close>

lemma get_slice_append [simp]: "get_slice (length pre + a) (length pre + b) (pre @ bytes) = get_slice a b bytes"
  by (simp add: get_slice_def)

lemma u32_at_append [simp]: "u32_at (pre @ bytes) (length pre + offset) = u32_at bytes offset"
  using get_slice_append [of pre offset "offset + 4" bytes] by (simp add: u32_at_def add.assoc)

lemma u32_at_word: "offset + 4 \<le> length bytes \<Longrightarrow> u32_at bytes offset = Inr (word_at bytes offset)"
  by (simp add: u32_at_def get_slice_def word_at_def)

lemma attribute_at_shift: "attribute_at (pre @ bytes) (length pre + offset) = attribute_at bytes offset"
proof -
  have "slice (length pre + offset + 4) (length pre + offset + n) (pre @ bytes) = slice (offset + 4) (offset + n) bytes"
    "(word_at (pre @ bytes) (length pre + offset + 2) :: u16) = word_at bytes (offset + 2)" for n
    using slice_append [of pre "offset + 4" "offset + n" bytes] word_at_append [of pre bytes "offset + 2"]
    by (simp_all only: add.assoc)
  then show ?thesis unfolding attribute_at_def by (simp only: word_at_append) (simp add: Let_def add.assoc)
qed

lemma attributes_from_shift: "attributes_from (pre @ bytes) (length pre + offset) = attributes_from bytes offset"
proof (induction bytes offset rule: attributes_from.induct)
  case (1 bytes offset)
  then show ?case
    by (subst (1 2) attributes_from.simps) (auto simp: attribute_at_shift add.assoc split: sum.splits)
qed

lemma message_at_shift: "message_at request (pre @ bytes) (length pre + offset) = message_at request bytes offset"
proof -
  have *: "slice (length pre + offset + HEADER) (length pre + offset + n) (pre @ bytes) = slice (offset + HEADER) (offset + n) bytes"
    "(word_at (pre @ bytes) (length pre + offset + k) :: u16) = word_at bytes (offset + k)"
    "u32_at (pre @ bytes) (length pre + offset + k) = u32_at bytes (offset + k)" for n k
    using slice_append [of pre "offset + HEADER" "offset + n" bytes] word_at_append [of pre bytes "offset + k"]
      u32_at_append [of pre bytes "offset + k"]
    by (simp_all only: add.assoc)
  show ?thesis unfolding message_at_def by (simp only: * u32_at_append) simp
qed

lemma messages_from_shift:
  "messages_from request (pre @ bytes) (length pre + offset) replies = messages_from request bytes offset replies"
proof (induction request bytes offset replies rule: messages_from.induct)
  case (1 request bytes offset replies)
  then show ?case
    by (subst (1 2) messages_from.simps) (auto simp: message_at_shift add.assoc split: sum.splits message.splits)
qed

text \<open>What the kernel puts on the wire: a header with the length, the data, and padding to a multiple of four.\<close>

definition padding :: "nat \<Rightarrow> byte list" where
  "padding n = replicate (align4 n - n) 0"

definition attribute :: "u16 \<times> byte list \<Rightarrow> byte list" where
  "attribute a = to_ne_bytes (word_of_nat (4 + length (snd a)) :: u16) @ to_ne_bytes (fst a) @ snd a @ padding (4 + length (snd a))"

definition attribute_fits :: "u16 \<times> byte list \<Rightarrow> bool" where
  "attribute_fits a \<longleftrightarrow> 4 + length (snd a) < 2 ^ 16"

lemma length_padding: "n < 2 ^ 63 \<Longrightarrow> n + length (padding n) = align4 n"
  using align4_bounds [of n] by (simp add: padding_def)

lemma attribute_parsed:
  assumes "attribute_fits a"
  shows "attributes_from (attribute a @ rest) 0 =
    and_then (attributes_from rest 0) (\<lambda>r. Inr ((fst a AND 0x3fff, snd a) # r))"
proof -
  let ?n = "4 + length (snd a)" and ?bytes = "attribute a @ rest"
  have n: "?n < 2 ^ 16" using assms by (simp add: attribute_fits_def)
  then have pad: "?n + length (padding ?n) = align4 ?n" by (intro length_padding) simp
  have len: "(word_at ?bytes 0 :: u16) = word_of_nat ?n"
    unfolding attribute_def append_assoc by (rule word_at_here [of "[]", simplified append_Nil]) simp_all
  have kind: "(word_at ?bytes (0 + 2) :: u16) = fst a"
    unfolding attribute_def append_assoc by (rule word_at_here) simp_all
  have data: "slice (0 + 4) (0 + ?n) ?bytes = snd a" by (simp add: attribute_def slice_def)
  have size: "length (attribute a) = align4 ?n" unfolding attribute_def using pad by simp
  have "unat (word_of_nat ?n :: u16) = ?n" by (rule unat_word_of_nat) (use n in simp)
  then have *: "unat (word_at ?bytes 0 :: u16) = ?n" by (simp only: len)
  have fits: "0 + ?n \<le> length ?bytes" "0 + 4 \<le> length ?bytes" using pad size by simp_all
  have "attribute_at ?bytes 0 = Inr (?n, fst a AND 0x3fff, snd a)"
    unfolding attribute_at_def * kind data Let_def using fits by simp
  moreover have "attributes_from ?bytes (0 + align4 ?n) = attributes_from rest 0"
    using attributes_from_shift [of "attribute a" rest 0] by (simp add: size)
  moreover have "0 < length ?bytes" using fits(2) by linarith
  ultimately show ?thesis by (subst attributes_from.simps) (simp only: sum.case prod.case if_True)
qed

lemma attributes_parsed:
  "list_all attribute_fits as \<Longrightarrow> attributes_from (concat (map attribute as) @ rest) 0 =
     and_then (attributes_from rest 0) (\<lambda>r. Inr (map (\<lambda>(kind, data). (kind AND 0x3fff, data)) as @ r))"
proof (induction as)
  case Nil
  then show ?case by (cases "attributes_from rest 0") simp_all
next
  case (Cons a as)
  then show ?case by (cases "attributes_from rest 0") (simp_all add: attribute_parsed split: prod.splits)
qed

lemma attribute_cut:
  assumes "attribute_fits a" "0 < k" "k < 4 + length (snd a)"
  shows "\<exists>e. attributes_from (take k (attribute a)) 0 = Inl e"
proof -
  let ?n = "4 + length (snd a)"
  have k: "length (take k (attribute a)) = k" using assms(3) by (simp add: attribute_def)
  have "attribute_at (take k (attribute a)) 0 = Inl (if k < 4 then ShortAttribute else InvalidAttributeLength)"
  proof (cases "k < 4")
    case False
    then have "(word_at (take k (attribute a)) 0 :: u16) = word_at (attribute a) 0" by (intro word_at_take) simp
    also have "\<dots> = word_of_nat ?n"
      unfolding attribute_def by (rule word_at_here [of "[]", simplified append_Nil]) simp_all
    finally have len: "(word_at (take k (attribute a)) 0 :: u16) = word_of_nat ?n" .
    have "unat (word_of_nat ?n :: u16) = ?n"
      by (rule unat_word_of_nat) (use assms(1) in \<open>simp add: attribute_fits_def\<close>)
    then show ?thesis unfolding attribute_at_def k len Let_def using False assms(3) by simp
  qed (simp add: attribute_at_def k)
  moreover have "0 < length (take k (attribute a))" using k assms(2) by linarith
  ultimately show ?thesis by (subst attributes_from.simps) (simp only: if_True sum.case, blast)
qed

section \<open>Complete dumps\<close>

text \<open>A message as the kernel frames it: type, flags and body under the sequence number of the request.\<close>

definition frame :: "u32 \<Rightarrow> u16 \<Rightarrow> u16 \<Rightarrow> byte list \<Rightarrow> byte list" where
  "frame number kind flags body =
     to_ne_bytes (word_of_nat (HEADER + length body) :: u32) @ to_ne_bytes kind @ to_ne_bytes flags
     @ to_ne_bytes number @ replicate 4 0 @ body @ padding (HEADER + length body)"

lemma length_netlink_frame: "HEADER + length body < 2 ^ 32 \<Longrightarrow> length (frame number kind flags body) = align4 (HEADER + length body)"
  using length_padding [of "HEADER + length body"] by (simp add: frame_def HEADER_def)

lemma frame_nonempty [simp]: "frame number kind flags body \<noteq> []"
proof -
  have "0 < length (frame number kind flags body)" by (simp only: frame_def length_append length_replicate)
  then show ?thesis by simp
qed

lemma frame_fields:
  assumes n: "HEADER + length body < 2 ^ 32"
    and bytes_def: "bytes = frame number kind flags body @ rest"
  shows "word_at bytes 0 = (word_of_nat (HEADER + length body) :: u32)" "word_at bytes (0 + 4) = kind" "word_at bytes (0 + 6) = flags"
    "word_at bytes (0 + 8) = number" "slice (0 + HEADER) (0 + (HEADER + length body)) bytes = body"
    "HEADER + length body \<le> length bytes"
proof -
  have bytes: "bytes = [] @ to_ne_bytes (word_of_nat (HEADER + length body) :: u32) @ to_ne_bytes kind @ to_ne_bytes flags
      @ to_ne_bytes number @ replicate 4 0 @ body @ padding (HEADER + length body) @ rest"
    by (simp add: bytes_def frame_def)
  show len: "HEADER + length body \<le> length bytes" by (simp add: bytes HEADER_def)
  show "word_at bytes 0 = (word_of_nat (HEADER + length body) :: u32)"
    unfolding bytes by (rule word_at_here) simp_all
  show "word_at bytes (0 + 8) = number"
    using word_at_here [of "to_ne_bytes (word_of_nat (HEADER + length body) :: u32) @ to_ne_bytes kind @ to_ne_bytes flags" "0 + 8" number]
    by (simp add: bytes)
  show "word_at bytes (0 + 4) = kind"
    using word_at_here [of "to_ne_bytes (word_of_nat (HEADER + length body) :: u32)" "0 + 4" kind] by (simp add: bytes)
  show "word_at bytes (0 + 6) = flags"
    using word_at_here [of "to_ne_bytes (word_of_nat (HEADER + length body) :: u32) @ to_ne_bytes kind" "0 + 6" flags]
    by (simp add: bytes)
  show "slice (0 + HEADER) (0 + (HEADER + length body)) bytes = body"
    by (simp add: bytes slice_def HEADER_def)
qed

text \<open>What a message of the kernel means to a request.\<close>

definition message_of :: "NetlinkDumpRequest \<Rightarrow> u16 \<Rightarrow> byte list \<Rightarrow> netlink_error + message" where
  "message_of request kind body =
     (if kind = NLMSG_DONE then
        (if 4 \<le> length body then
           (let code = word_at body 0 in if code \<noteq> 0 then Inl (DumpFailed (kernel_error code)) else Inr Done)
         else Inr Done)
      else if kind = NLMSG_ERROR then
        (if 4 \<le> length body then
           (let code = word_at body 0 in if code \<noteq> 0 then Inl (KernelError (kernel_error code)) else Inr Acknowledged)
         else Inl ShortField)
      else if kind = reply_type request then Inr (Body body)
      else Inl (UnexpectedMessage kind))"

lemma message_at_eq:
  "message_at request bytes offset =
     (if offset + HEADER \<le> length bytes then
        if HEADER \<le> unat (word_at bytes offset :: u32) \<and> unat (word_at bytes offset :: u32) \<le> length bytes - offset then
          if word_at bytes (offset + 8) = sequence request \<and> (word_at bytes (offset + 6) :: u16) AND NLM_F_DUMP_INTR = 0 then
            and_then (message_of request (word_at bytes (offset + 4))
              (slice (offset + HEADER) (offset + unat (word_at bytes offset :: u32)) bytes))
              (\<lambda>m. Inr (unat (word_at bytes offset :: u32), m))
          else Inl DumpInterrupted
        else Inl InvalidLength
      else Inl ShortHeader)"
proof (cases "offset + HEADER \<le> length bytes")
  case True
  then have head: "u32_at bytes offset = Inr (word_at bytes offset)" "u32_at bytes (offset + 8) = Inr (word_at bytes (offset + 8))"
    by (simp_all add: u32_at_word HEADER_def)
  have word: "u32_at body 0 = (if 4 \<le> length body then Inr (word_at body 0) else Inl ShortField)" for body
    by (simp add: u32_at_word) (simp add: u32_at_def get_slice_def)
  show ?thesis unfolding message_at_def if_P [OF True] head and_then_simps Let_def
    by (simp add: message_of_def word Let_def)
qed (simp add: message_at_def)

lemma message_at_frame:
  assumes n: "HEADER + length body < 2 ^ 32" and flags: "flags AND NLM_F_DUMP_INTR = 0"
  shows "message_at request (frame (sequence request) kind flags body @ rest) 0 =
    and_then (message_of request kind body) (\<lambda>m. Inr (HEADER + length body, m))"
proof -
  note fields = frame_fields [OF n refl, of "sequence request" kind flags rest]
  have u: "unat (word_of_nat (HEADER + length body) :: u32) = HEADER + length body"
    by (rule unat_word_of_nat) (use n in simp)
  have fit: "0 + HEADER \<le> length (frame (sequence request) kind flags body @ rest)" using fields(6) by simp
  show ?thesis
    unfolding message_at_eq fields(1-5) u using fields(6) flags fit by simp
qed

lemma messages_from_frame:
  assumes n: "HEADER + length body < 2 ^ 32" and flags: "flags AND NLM_F_DUMP_INTR = 0"
  shows "messages_from request (frame (sequence request) kind flags body @ rest) 0 replies =
    (case message_of request kind body of
       Inl e \<Rightarrow> Inl e
     | Inr Done \<Rightarrow> Inr (Finished replies)
     | Inr Acknowledged \<Rightarrow> messages_from request rest 0 replies
     | Inr (Body b) \<Rightarrow> messages_from request rest 0 (replies @ [b]))"
proof -
  let ?bytes = "frame (sequence request) kind flags body @ rest"
  have "0 < length ?bytes" by (simp add: frame_def)
  moreover have "messages_from request ?bytes (0 + align4 (HEADER + length body)) r = messages_from request rest 0 r" for r
    using messages_from_shift [of request "frame (sequence request) kind flags body" rest 0 r] by (simp add: length_netlink_frame [OF n])
  ultimately show ?thesis
    by (subst messages_from.simps) (simp add: message_at_frame [OF n flags] split: sum.splits message.splits)
qed

type_synonym kernel_message = "u16 \<times> u16 \<times> byte list"

definition packet :: "NetlinkDumpRequest \<Rightarrow> kernel_message list \<Rightarrow> byte list" where
  "packet request ms = concat (map (\<lambda>(kind, flags, body). frame (sequence request) kind flags body) ms)"

text \<open>A message of an uninterrupted dump: a reply, or an acknowledgement (an error message with code 0).\<close>

definition dump_message :: "NetlinkDumpRequest \<Rightarrow> kernel_message \<Rightarrow> bool" where
  "dump_message request = (\<lambda>(kind, flags, body).
     flags AND NLM_F_DUMP_INTR = 0 \<and> HEADER + length body < 2 ^ 32 \<and>
     (kind = reply_type request \<or> kind = NLMSG_ERROR \<and> 4 \<le> length body \<and> (word_at body 0 :: u32) = 0))"

definition bodies :: "NetlinkDumpRequest \<Rightarrow> kernel_message list \<Rightarrow> byte list list" where
  "bodies request ms = map (\<lambda>(kind, flags, body). body) (filter (\<lambda>(kind, flags, body). kind = reply_type request) ms)"

definition data_request :: "NetlinkDumpRequest \<Rightarrow> bool" where
  "data_request request \<longleftrightarrow> reply_type request \<notin> {NLMSG_DONE, NLMSG_ERROR}"

definition successful :: "byte list \<Rightarrow> bool" where
  "successful body \<longleftrightarrow> HEADER + length body < 2 ^ 32 \<and> (4 \<le> length body \<longrightarrow> (word_at body 0 :: u32) = 0)"

lemma messages_from_packet:
  "data_request request \<Longrightarrow> list_all (dump_message request) ms \<Longrightarrow>
   messages_from request (packet request ms @ rest) 0 replies = messages_from request rest 0 (replies @ bodies request ms)"
proof (induction ms arbitrary: replies)
  case (Cons m ms)
  obtain kind flags body where m: "m = (kind, flags, body)" by (cases m)
  have ok: "HEADER + length body < 2 ^ 32" "flags AND NLM_F_DUMP_INTR = 0"
    using Cons.prems(2) by (auto simp: m dump_message_def)
  have "packet request (m # ms) @ rest = frame (sequence request) kind flags body @ packet request ms @ rest"
    by (simp add: packet_def m)
  then show ?case
    using Cons by (auto simp: messages_from_frame [OF ok] m message_of_def dump_message_def data_request_def bodies_def
        NLMSG_DONE_def NLMSG_ERROR_def)
qed (simp add: packet_def bodies_def)

lemma messages_from_data:
  "data_request request \<Longrightarrow> list_all (dump_message request) ms \<Longrightarrow>
   messages_from request (packet request ms) 0 replies = Inr (Open (replies @ bodies request ms))"
  using messages_from_packet [of request ms "[]"] by (simp add: messages_from.simps)

lemma messages_from_done:
  "data_request request \<Longrightarrow> list_all (dump_message request) ms \<Longrightarrow> successful code \<Longrightarrow> flags AND NLM_F_DUMP_INTR = 0 \<Longrightarrow>
   messages_from request (packet request ms @ frame (sequence request) NLMSG_DONE flags code @ rest) 0 replies
     = Inr (Finished (replies @ bodies request ms))"
  by (simp add: messages_from_packet messages_from_frame successful_def message_of_def)

text \<open>The datagrams of a schedule in which nothing fails and every turn starts before the deadline.\<close>

definition prompt :: "nat \<Rightarrow> turn list \<Rightarrow> bool" where
  "prompt deadline = list_all (\<lambda>(now, event). now < deadline \<and>
     (case event of NotReady \<Rightarrow> True | Datagram pid bytes \<Rightarrow> pid = 0 \<and> 0 < length bytes \<and> length bytes \<le> BUFFER_SIZE | _ \<Rightarrow> False))"

definition datagrams :: "turn list \<Rightarrow> byte list list" where
  "datagrams turns = concat (map (\<lambda>(now, event). case event of Datagram pid bytes \<Rightarrow> [bytes] | _ \<Rightarrow> []) turns)"

lemma receive_replies_dump:
  assumes request: "data_request request" and "list_all (list_all (dump_message request)) packets"
    and final: "list_all (dump_message request) final" "successful code" "flags AND NLM_F_DUMP_INTR = 0"
    and "prompt deadline turns"
    and "datagrams turns = map (packet request) packets @ [packet request final @ frame (sequence request) NLMSG_DONE flags code @ rest]"
    and "taken + sum_list (map length (datagrams turns)) \<le> REPLY_LIMIT"
  shows "receive_replies request deadline replies taken turns =
    Some (Inr (replies @ concat (map (bodies request) packets) @ bodies request final))"
  using assms(2,6-)
proof (induction turns arbitrary: packets replies taken)
  case (Cons turn turns)
  obtain now event where turn: "turn = (now, event)" by (cases turn)
  consider "event = NotReady" | bytes where "event = Datagram 0 bytes" "0 < length bytes" "length bytes \<le> BUFFER_SIZE"
    using Cons.prems(2) by (auto simp: prompt_def turn split: event.splits)
  then show ?case
  proof cases
    case 1
    then show ?thesis using Cons by (simp add: turn prompt_def datagrams_def)
  next
    case (2 bytes)
    have now: "now < deadline" using Cons.prems(2) by (simp add: turn prompt_def)
    have limit: "taken + length bytes \<le> REPLY_LIMIT" using Cons.prems(4) 2 by (simp add: turn datagrams_def)
    show ?thesis
    proof (cases packets)
      case Nil
      then have "bytes = packet request final @ frame (sequence request) NLMSG_DONE flags code @ rest"
        using Cons.prems(3) 2 by (simp add: turn datagrams_def)
      then show ?thesis using now limit 2(2,3) Nil messages_from_done [OF request final]
        by (simp only: turn 2(1) receive_replies.simps) simp
    next
      case packets: (Cons p ps)
      have b: "bytes = packet request p" and rest: "datagrams turns = map (packet request) ps
          @ [packet request final @ frame (sequence request) NLMSG_DONE flags code @ rest]"
        using Cons.prems(3) 2 packets by (simp_all add: turn datagrams_def)
      have "receive_replies request deadline (replies @ bodies request p) (taken + length bytes) turns =
          Some (Inr ((replies @ bodies request p) @ concat (map (bodies request) ps) @ bodies request final))"
      proof (rule Cons.IH)
        show "list_all (list_all (dump_message request)) ps" using Cons.prems(1) packets by simp
        show "prompt deadline turns" using Cons.prems(2) by (simp add: prompt_def turn)
        show "taken + length bytes + sum_list (map length (datagrams turns)) \<le> REPLY_LIMIT"
          using Cons.prems(4) 2 by (simp add: turn datagrams_def)
      qed (rule rest)
      then show ?thesis
        using now limit 2(2,3) packets messages_from_data [OF request, of p replies] Cons.prems(1)
        by (simp add: turn 2(1) Let_def flip: b)
    qed
  qed
qed (simp add: datagrams_def)

section \<open>Only what the kernel sent\<close>

text \<open>A body is the payload of a message of the reply type, under the sequence number of the request.\<close>

definition sent_in :: "NetlinkDumpRequest \<Rightarrow> byte list \<Rightarrow> byte list \<Rightarrow> bool" where
  "sent_in request bytes body \<longleftrightarrow> (\<exists>offset. offset + HEADER + length body \<le> length bytes
     \<and> word_at bytes (offset + 4) = reply_type request \<and> word_at bytes (offset + 8) = sequence request
     \<and> slice (offset + HEADER) (offset + HEADER + length body) bytes = body)"

primrec collected :: "progress \<Rightarrow> byte list list" where
  "collected (Finished replies) = replies"
| "collected (Open replies) = replies"

lemma message_of_body: "message_of request kind body = Inr (Body b) \<Longrightarrow> kind = reply_type request \<and> b = body"
  by (simp add: message_of_def Let_def split: if_splits)

lemma message_at_body:
  assumes "message_at request bytes offset = Inr (len, Body body)"
  shows "sent_in request bytes body" "len = HEADER + length body" "offset + len \<le> length bytes"
proof -
  have *: "offset + HEADER \<le> length bytes" "HEADER \<le> len" "len \<le> length bytes - offset"
    "word_at bytes (offset + 8) = sequence request" "message_of request (word_at bytes (offset + 4))
       (slice (offset + HEADER) (offset + len) bytes) = Inr (Body body)"
    using assms unfolding message_at_eq by (auto simp: and_then_eq_Inr split: if_splits)
  note body = message_of_body [OF *(5)]
  have "length body = len - HEADER" unfolding conjunct2 [OF body] using * by simp
  then show len: "len = HEADER + length body" "offset + len \<le> length bytes" using *(1-3) by simp_all
  have "slice (offset + HEADER) (offset + HEADER + length body) bytes = body"
    using conjunct2 [OF body] unfolding len(1) add.assoc by (rule sym)
  then show "sent_in request bytes body"
    unfolding sent_in_def using *(4) conjunct1 [OF body] len by (intro exI [of _ offset]) (simp add: add.assoc)
qed

lemma messages_from_sound:
  assumes "messages_from request bytes offset replies = Inr p"
  shows "\<exists>bs. collected p = replies @ bs \<and> sum_list (map length bs) \<le> length bytes - offset \<and> list_all (sent_in request bytes) bs"
  using assms
proof (induction request bytes offset replies rule: messages_from.induct)
  case (1 request bytes offset replies)
  show ?case
  proof (cases "offset < length bytes")
    case True
    then obtain len m where at: "message_at request bytes offset = Inr (len, m)"
      using "1.prems" by (subst (asm) messages_from.simps) (auto split: sum.splits)
    note len = message_at_length [OF at]
    show ?thesis
    proof (cases m)
      case Done
      then show ?thesis using "1.prems" True at by (subst (asm) messages_from.simps) auto
    next
      case Acknowledged
      then show ?thesis using "1.prems" "1.IH"(1) [OF True at] True at len
        by (subst (asm) messages_from.simps) force
    next
      case (Body body)
      then have "messages_from request bytes (offset + align4 len) (replies @ [body]) = Inr p"
        using "1.prems" True at by (subst (asm) messages_from.simps) simp
      then obtain bs where bs: "collected p = (replies @ [body]) @ bs" "list_all (sent_in request bytes) bs"
        "sum_list (map length bs) \<le> length bytes - (offset + align4 len)"
        using "1.IH"(2) [OF True at refl] Body by blast
      show ?thesis using bs message_at_body [OF at [unfolded Body]] len(3)
        by (intro exI [of _ "body # bs"]) auto
    qed
  qed (use "1.prems" in \<open>auto simp: messages_from.simps\<close>)
qed

lemma receive_replies_sound:
  assumes "receive_replies request deadline replies taken turns = Some (Inr result)"
  shows "\<exists>bs. result = replies @ bs \<and> taken + sum_list (map length bs) \<le> REPLY_LIMIT
    \<and> (\<forall>body \<in> set bs. \<exists>now bytes. (now, Datagram 0 bytes) \<in> set turns \<and> now < deadline \<and> sent_in request bytes body)"
  using assms
proof (induction turns arbitrary: replies taken)
  case (Cons turn turns)
  obtain now event where turn: "turn = (now, event)" by (cases turn)
  have now: "now < deadline" using Cons.prems by (auto simp: turn split: if_splits)
  show ?case
  proof (cases event)
    case NotReady
    then have "receive_replies request deadline replies taken turns = Some (Inr result)"
      using Cons.prems now by (simp add: turn)
    from Cons.IH [OF this] obtain bs where bs: "result = replies @ bs" "taken + sum_list (map length bs) \<le> REPLY_LIMIT"
      "\<forall>body \<in> set bs. \<exists>now bytes. (now, Datagram 0 bytes) \<in> set turns \<and> now < deadline \<and> sent_in request bytes body"
      by blast
    then show ?thesis by (intro exI [of _ bs]) (meson list.set_intros(2))
  next
    case (Datagram pid bytes)
    then have pid: "pid = 0" and limit: "taken + length bytes \<le> REPLY_LIMIT"
      using Cons.prems now by (auto simp: turn Let_def split: if_splits)
    obtain p where p: "messages_from request bytes 0 replies = Inr p"
      using Cons.prems now Datagram limit pid by (auto simp: turn Let_def split: if_splits sum.splits)
    obtain bs where bs: "collected p = replies @ bs" "sum_list (map length bs) \<le> length bytes" "list_all (sent_in request bytes) bs"
      using messages_from_sound [OF p] by auto
    show ?thesis
    proof (cases p)
      case (Finished r)
      then have "result = replies @ bs"
        using Cons.prems now Datagram limit pid p bs(1) by (auto simp: turn Let_def split: if_splits)
      then show ?thesis using bs limit now Datagram pid
        by (intro exI [of _ bs]) (auto simp: turn list_all_iff)
    next
      case (Open r)
      then have "receive_replies request deadline (replies @ bs) (taken + length bytes) turns = Some (Inr result)"
        using Cons.prems now Datagram limit pid p bs(1) by (auto simp: turn Let_def split: if_splits)
      from Cons.IH [OF this] obtain cs where cs: "result = (replies @ bs) @ cs"
        "taken + length bytes + sum_list (map length cs) \<le> REPLY_LIMIT"
        "\<forall>body \<in> set cs. \<exists>now bytes. (now, Datagram 0 bytes) \<in> set turns \<and> now < deadline \<and> sent_in request bytes body"
        by blast
      have here: "\<forall>body \<in> set bs. \<exists>now bytes. (now, Datagram 0 bytes) \<in> set (turn # turns) \<and> now < deadline
          \<and> sent_in request bytes body"
        using bs(3) now Datagram pid by (auto simp: turn list_all_iff)
      have later: "\<forall>body \<in> set cs. \<exists>now bytes. (now, Datagram 0 bytes) \<in> set (turn # turns) \<and> now < deadline
          \<and> sent_in request bytes body"
        using cs(3) by (meson list.set_intros(2))
      have "taken + sum_list (map length (bs @ cs)) \<le> REPLY_LIMIT" using cs(2) bs(2) by simp
      then show ?thesis using cs(1) here later by (intro exI [of _ "bs @ cs"]) (simp only: append_assoc set_append ball_Un)
    qed
  qed (use Cons.prems now in \<open>simp_all add: turn\<close>)
qed simp

lemma receive_replies_returns:
  "(now, event) \<in> set turns \<Longrightarrow> deadline \<le> now \<Longrightarrow> receive_replies request deadline replies taken turns \<noteq> None"
  by (induction turns arbitrary: replies taken) (auto simp: Let_def split: event.splits sum.splits progress.splits)

section \<open>Properties\<close>

text \<open>Attribute streams are read back exactly: a stream of padded attributes gives their types, without the
  nested and byte-order flags, and their payloads in order; a stream that ends inside an attribute is refused
  as a whole.\<close>

theorem netlink_attributes_roundtrip:
  assumes "list_all attribute_fits as" "attribute_fits a" "0 < k" "k < 4 + length (snd a)"
  shows "parse_netlink_attributes (concat (map attribute as)) = Inr (map (\<lambda>(kind, data). (kind AND 0x3fff, data)) as)
    \<and> (\<exists>e. parse_netlink_attributes (concat (map attribute as) @ take k (attribute a)) = Inl e)"
proof -
  have "attributes_from (concat (map attribute as)) 0 = Inr (map (\<lambda>(kind, data). (kind AND 0x3fff, data)) as)"
    using attributes_parsed [OF assms(1), of "[]"] by (simp add: attributes_from.simps)
  moreover obtain e where "attributes_from (take k (attribute a)) 0 = Inl e"
    using attribute_cut [OF assms(2-)] by blast
  ultimately show ?thesis
    using attributes_parsed [OF assms(1), of "take k (attribute a)"] by (simp add: parse_netlink_attributes_def)
qed

theorem netlink_attributes_roundtrip_witness:
  "parse_netlink_attributes (concat (map attribute [(0x8013, [1, 2, 3]), (2, [])])) = Inr [(0x13, [1, 2, 3]), (2, [])]
   \<and> (\<exists>e. parse_netlink_attributes (concat (map attribute [(0x8013, [1, 2, 3]), (2, [])]) @ take 5 (attribute (7, [1, 2]))) = Inl e)"
  using netlink_attributes_roundtrip [of "[(0x8013, [1, 2, 3]), (2, [])]" "(7, [1, 2])" 5] by (simp add: attribute_fits_def)

text \<open>A dump that the kernel completes is returned whole. However its messages are spread over packets, with
  acknowledgements in between and with turns in which nothing arrives, the bodies of the reply type come
  back in order once the final message has been received, provided every turn starts before the deadline,
  the packets fit the buffer and the reply stays within 8 MiB.\<close>

theorem netlink_dump_received:
  assumes "data_request request" "list_all (list_all (dump_message request)) packets"
    and "list_all (dump_message request) final" "successful code" "flags AND NLM_F_DUMP_INTR = 0"
    and "now < deadline" "sent (dump_packet request) = int (length (dump_packet request))" "prompt deadline turns"
    and "datagrams turns = map (packet request) packets @ [packet request final @ frame (sequence request) NLMSG_DONE flags code @ rest]"
    and "sum_list (map length (datagrams turns)) \<le> REPLY_LIMIT"
  shows "collect_netlink_dump request deadline now sent turns = Some (Inr (concat (map (bodies request) packets) @ bodies request final))"
  using assms receive_replies_dump [OF assms(1-5,8,9), of 0 "[]"] by (simp add: collect_netlink_dump_def)

definition sample_dump :: NetlinkDumpRequest where
  "sample_dump = \<lparr>message_type = 20, reply_type = 20, sequence = 7, payload = [0, 0, 0, 0]\<rparr>"

definition sample_turns :: "turn list" where
  "sample_turns = [(0, NotReady),
     (1, Datagram 0 (packet sample_dump [(20, 2, [1, 2, 3]), (2, 0, [0, 0, 0, 0])])),
     (1, NotReady),
     (2, Datagram 0 (packet sample_dump [(20, 2, [])] @ frame (sequence sample_dump) NLMSG_DONE 2 [0, 0, 0, 0] @ []))]"

lemma sample_dump_ok:
  "data_request sample_dump" "list_all (list_all (dump_message sample_dump)) [[(20, 2, [1, 2, 3]), (2, 0, [0, 0, 0, 0])]]"
  "list_all (dump_message sample_dump) [(20, 2, [])]" "successful [0, 0, 0, 0]"
  by (simp_all add: data_request_def dump_message_def successful_def sample_dump_def netlink_constants word_at_def slice_def
      from_ne_bytes_def)

lemma sample_turns_ok:
  "prompt 1000 sample_turns" "sum_list (map length (datagrams sample_turns)) \<le> REPLY_LIMIT"
  "datagrams sample_turns = map (packet sample_dump) [[(20, 2, [1, 2, 3]), (2, 0, [0, 0, 0, 0])]]
     @ [packet sample_dump [(20, 2, [])] @ frame (sequence sample_dump) NLMSG_DONE 2 [0, 0, 0, 0] @ []]"
  by (simp_all add: sample_turns_def prompt_def datagrams_def packet_def length_netlink_frame HEADER_def align4_eq BUFFER_SIZE_def REPLY_LIMIT_def)

theorem netlink_dump_received_witness:
  "prompt 1000 sample_turns \<and>
   collect_netlink_dump sample_dump 1000 0 (\<lambda>p. int (length p)) sample_turns = Some (Inr [[1, 2, 3], []])"
proof -
  have "(2 :: u16) AND NLM_F_DUMP_INTR = 0" by (simp add: NLM_F_DUMP_INTR_def)
  from netlink_dump_received [OF sample_dump_ok this _ _ sample_turns_ok(1,3,2), of 0 "\<lambda>p. int (length p)"]
  show ?thesis using sample_turns_ok(1) by (simp add: bodies_def sample_dump_def)
qed



end
