(* ===== verification/Unwind.thy ===== *)
theory Unwind
  imports Memory_Text Ipc_Registers Bytes
begin

text \<open>
  The frame-pointer walk over the stack of a stopped thread
  (\<open>src/privileged_helper/process/snapshot/unwind_fp.rs\<close>). Reading 16 bytes of the process's memory
  is the argument \<open>mem\<close>.
\<close>

text \<open>\<open>StackFrame::raw\<close>.\<close>

definition StackFrame_raw :: "u64 \<Rightarrow> StackFrame" where
  "StackFrame_raw address = \<lparr>frame_address = address, frame_symbol = None, frame_symbol_offset = None,
     frame_source_file = None, frame_line = None, frame_inline_frames = []\<rparr>"

definition is_code :: "MemoryMap list \<Rightarrow> u64 \<Rightarrow> bool" where
  "is_code maps address \<longleftrightarrow> list_ex (\<lambda>m. map_executable m \<and> contains m (saturating_sub address 1)) maps"

text \<open>The test of the loop on the frame pointer: 16 readable bytes, aligned, at or above the stack pointer.\<close>

definition in_stack :: "MemoryMap \<Rightarrow> u64 \<Rightarrow> u64 \<Rightarrow> bool" where
  "in_stack stack rsp bp \<longleftrightarrow> \<not> (\<not> 8 dvd unat bp \<or> bp < rsp \<or> bp < map_start stack
     \<or> (2 ^ 64 \<le> unat bp + 16 \<or> map_end stack < bp + 16))"

function walk ::
  "MemoryMap list \<Rightarrow> MemoryMap \<Rightarrow> u64 \<Rightarrow> (u64 \<Rightarrow> byte list option) \<Rightarrow> StackFrame list \<Rightarrow> u64 \<Rightarrow> StackFrame list \<times> rstring"
where
  "walk maps stack rsp mem frames bp =
     (if 256 \<le> length frames then (frames, lit ''256-frame limit'')
      else if bp = 0 then (frames, lit ''end of frame-pointer chain'')
      else if \<not> in_stack stack rsp bp
      then (frames, lit ''RBP outside stack / unaligned (frame pointers may be omitted)'')
      else (case mem bp of
          None \<Rightarrow> (frames, lit ''stack memory could not be read'')
        | Some data \<Rightarrow>
            (let previous = word_at data 0; address = word_at data 8 in
             if address = 0 then (frames, lit ''end of frame-pointer chain'')
             else if \<not> is_code maps address
             then (frames, lit ''return address outside executable mappings'')
             else
               (let frames = frames @ [StackFrame_raw address] in
                if previous \<le> bp then (frames, lit ''end of chain / non-increasing RBP'')
                else walk maps stack rsp mem frames previous))))"
  by pat_completeness auto
termination
  by (relation "measure (\<lambda>(maps, stack, rsp, mem, frames, bp). 256 - length frames)") auto

declare walk.simps [simp del]

definition unwind_frame_pointers ::
  "u64 \<Rightarrow> u64 \<Rightarrow> u64 \<Rightarrow> MemoryMap list \<Rightarrow> (u64 \<Rightarrow> byte list option) \<Rightarrow> StackFrame list \<times> rstring"
where
  "unwind_frame_pointers rip rsp rbp maps mem =
     (let frames = [StackFrame_raw rip] in
      case find (\<lambda>m. contains m rsp \<and> map_readable m) maps of
        None \<Rightarrow> (frames, lit ''RSP is outside readable mappings'')
      | Some stack \<Rightarrow> walk maps stack rsp mem frames rbp)"

section \<open>What is walked\<close>

lemma walk_frames:
  assumes "walk maps stack rsp mem frames bp = (result, reason)" "length frames \<le> 256"
  shows "\<exists>new. result = frames @ map StackFrame_raw new \<and> length result \<le> 256
    \<and> list_all (\<lambda>a. a \<noteq> 0 \<and> is_code maps a) new"
  using assms
proof (induction maps stack rsp mem frames bp rule: walk.induct)
  case (1 maps stack rsp mem frames bp)
  show ?case
  proof (cases "result = frames")
    case False
    then obtain data where step: "length frames < 256" "bp \<noteq> 0" "in_stack stack rsp bp" "mem bp = Some data"
      "word_at data 8 \<noteq> (0 :: u64)" "is_code maps (word_at data 8)"
      using "1.prems"(1) by (subst (asm) walk.simps) (auto simp: Let_def split: if_splits option.splits)
    let ?frames = "frames @ [StackFrame_raw (word_at data 8)]"
    show ?thesis
    proof (cases "(word_at data 0 :: u64) \<le> bp")
      case True
      then have "result = ?frames" using "1.prems"(1) step by (subst (asm) walk.simps) (simp add: Let_def)
      then show ?thesis using step by (intro exI [of _ "[word_at data 8]"]) simp
    next
      case False
      then have "walk maps stack rsp mem ?frames (word_at data 0) = (result, reason)"
        using "1.prems"(1) step by (subst (asm) walk.simps) (simp add: Let_def)
      then obtain new where "result = ?frames @ map StackFrame_raw new" "length result \<le> 256"
        "list_all (\<lambda>a. a \<noteq> 0 \<and> is_code maps a) new"
        using "1.IH" [of data "word_at data 0" "word_at data 8" ?frames] step False by auto
      then show ?thesis using step by (intro exI [of _ "word_at data 8 # new"]) simp
    qed
  qed (use "1.prems" in simp)
qed

text \<open>Memory outside the stack does not matter.\<close>

lemma walk_local:
  assumes "\<And>bp. in_stack stack rsp bp \<Longrightarrow> mem bp = mem' bp"
  shows "walk maps stack rsp mem frames bp = walk maps stack rsp mem' frames bp"
  using assms
proof (induction maps stack rsp mem frames bp rule: walk.induct)
  case (1 maps stack rsp mem frames bp)
  show ?case
  proof (cases "256 \<le> length frames \<or> bp = 0 \<or> \<not> in_stack stack rsp bp")
    case False
    then show ?thesis using 1 by (subst (1 2) walk.simps) (auto simp: Let_def split: option.splits)
  qed (subst (1 2) walk.simps, auto)
qed

text \<open>A chain of frames in memory: frame pointers with their return addresses.\<close>

fun chain :: "MemoryMap list \<Rightarrow> MemoryMap \<Rightarrow> u64 \<Rightarrow> (u64 \<Rightarrow> byte list option) \<Rightarrow> (u64 \<times> u64) list \<Rightarrow> bool" where
  "chain maps stack rsp mem [] \<longleftrightarrow> True"
| "chain maps stack rsp mem ((bp, address) # links) \<longleftrightarrow>
     bp \<noteq> 0 \<and> in_stack stack rsp bp \<and> address \<noteq> 0 \<and> is_code maps address
     \<and> mem bp = Some (to_ne_bytes (case links of [] \<Rightarrow> 0 | (next, _) # _ \<Rightarrow> next) @ to_ne_bytes address)
     \<and> (case links of [] \<Rightarrow> True | (next, _) # _ \<Rightarrow> bp < next)
     \<and> chain maps stack rsp mem links"

lemma frame_words:
  "word_at (to_ne_bytes (a :: u64) @ to_ne_bytes (b :: u64)) 0 = a"
  "word_at (to_ne_bytes (a :: u64) @ to_ne_bytes (b :: u64)) 8 = b"
  using word_at_here [of "[]" 0 a "to_ne_bytes b"] word_at_here [of "to_ne_bytes a" 8 b "[]"] by simp_all

lemma walk_chain:
  assumes "chain maps stack rsp mem links" "links \<noteq> []" "length frames + length links \<le> 256"
  shows "walk maps stack rsp mem frames (fst (hd links)) =
    (frames @ map (StackFrame_raw \<circ> snd) links, lit ''end of chain / non-increasing RBP'')"
  using assms
proof (induction links arbitrary: frames)
  case (Cons link links)
  obtain bp address where link: "link = (bp, address)" by (cases link)
  show ?case
  proof (cases links)
    case Nil
    then show ?thesis using Cons.prems by (subst walk.simps) (simp add: link frame_words Let_def)
  next
    case more: (Cons l rest)
    then have "walk maps stack rsp mem (frames @ [StackFrame_raw address]) (fst (hd links)) =
        ((frames @ [StackFrame_raw address]) @ map (StackFrame_raw \<circ> snd) links, lit ''end of chain / non-increasing RBP'')"
      using Cons.prems Cons.IH [of "frames @ [StackFrame_raw address]"] by (simp add: link)
    then show ?thesis
      using Cons.prems more by (subst walk.simps) (simp add: link frame_words Let_def not_le split: prod.splits)
  qed
qed simp

section \<open>Properties\<close>


definition sample_stack :: "MemoryMap list" where
  "sample_stack =
     [\<lparr>map_start = 0x1000, map_end = 0x2000, map_readable = True, map_writable = True, map_executable = False,
       map_private = True, map_file_offset = 0, map_device = \<lparr>dev_major = 0, dev_minor = 0\<rparr>, map_inode = 0, map_pathname = None\<rparr>,
      \<lparr>map_start = 0x3000, map_end = 0x4000, map_readable = True, map_writable = False, map_executable = True,
       map_private = True, map_file_offset = 0, map_device = \<lparr>dev_major = 0, dev_minor = 0\<rparr>, map_inode = 0, map_pathname = None\<rparr>]"

definition sample_memory :: "u64 \<Rightarrow> byte list option" where
  "sample_memory bp = (if bp = 0x1100 then Some (to_ne_bytes (0x1200 :: u64) @ to_ne_bytes (0x3020 :: u64))
     else if bp = 0x1200 then Some (to_ne_bytes (0 :: u64) @ to_ne_bytes (0x3040 :: u64)) else None)"

text \<open>An intact chain is walked to its end. If the memory holds a chain of frame records, each pointing to
  the next higher one and the last one to zero, the result is the current instruction followed by the
  return addresses of the chain in order.\<close>

theorem unwind_chain:
  assumes "find (\<lambda>m. contains m rsp \<and> map_readable m) maps = Some stack"
    and "chain maps stack rsp mem links" "links \<noteq> []" "length links < 256"
  shows "unwind_frame_pointers rip rsp (fst (hd links)) maps mem =
    (StackFrame_raw rip # map (StackFrame_raw \<circ> snd) links, lit ''end of chain / non-increasing RBP'')"
  using assms walk_chain [OF assms(2,3), of "[StackFrame_raw rip]"] by (simp add: unwind_frame_pointers_def)

lemma sample_chain:
  "find (\<lambda>m. contains m 0x1000 \<and> map_readable m) sample_stack = Some (sample_stack ! 0)"
  "chain sample_stack (sample_stack ! 0) 0x1000 sample_memory [(0x1100, 0x3020), (0x1200, 0x3040)]"
  by (simp_all add: sample_stack_def sample_memory_def contains_def in_stack_def is_code_def saturating_sub_def)

lemma sample_unwind:
  "unwind_frame_pointers 0x3010 0x1000 0x1100 sample_stack sample_memory =
     (map StackFrame_raw [0x3010, 0x3020, 0x3040], lit ''end of chain / non-increasing RBP'')"
  using sample_chain walk_chain [OF sample_chain(2), of "[StackFrame_raw 0x3010]"] by (simp add: unwind_frame_pointers_def)

theorem unwind_chain_witness:
  "unwind_frame_pointers 0x3010 0x1000 0x1100 sample_stack sample_memory =
     (map StackFrame_raw [0x3010, 0x3020, 0x3040], lit ''end of chain / non-increasing RBP'')"
  using unwind_chain [OF sample_chain] by simp


end
