(* ===== verification/Host_Wire.thy ===== *)
theory Host_Wire
  imports Ipc_Schema Delivery Bytes
begin

text \<open>
  Values served over HTTP and agent links (\<open>src/http_server/protocol.rs\<close>) and the framing of agent links
  (\<open>src/http_server/hosts/wire.rs\<close>). JSON and gzip belong to libraries: the conversions
  \<open>to_json\<close>, \<open>of_json\<close>, \<open>gzip\<close> and \<open>gunzip\<close> are arguments, \<open>gunzip n\<close> reading at most \<open>n\<close> bytes
  of the decompressed stream. A stream is the list of the bytes it delivers before its end.
\<close>

section \<open>Served values\<close>

datatype HttpEvent =
    Observation json
  | Snapshot json
  | Activity json
  | Gap u64 json
  | AcquiredSnapshot SystemSnapshot
  | AcquisitionGap u64 SystemSnapshot

datatype HttpResponse =
    Data json
  | Started u64 HttpEvent
  | Event "HttpEvent option" bool
  | Closed

text \<open>\<open>serde_json::to_value\<close> of the acquired values, which may fail.\<close>

record value_json =
  json_observation :: "ProcessDetailSnapshot \<Rightarrow> json option"
  json_activity :: "SystemActivity \<Rightarrow> json option"
  json_data :: "AcquiredData \<Rightarrow> json option"

definition convert_monitor_event :: "value_json \<Rightarrow> MonitorEvent \<Rightarrow> HttpEvent option" where
  "convert_monitor_event j raw =
     (case raw of
        MonitorEvent.Observation v \<Rightarrow> map_option HttpEvent.Observation (json_observation j v)
      | MonitorEvent.Activity v \<Rightarrow> map_option HttpEvent.Activity (json_activity j v)
      | MonitorEvent.AcquiredSnapshot v \<Rightarrow> Some (HttpEvent.AcquiredSnapshot v)
      | MonitorEvent.AcquisitionGap dropped v \<Rightarrow> Some (HttpEvent.AcquisitionGap dropped v))"

definition convert_monitor_response :: "value_json \<Rightarrow> MonitorResponse \<Rightarrow> HttpResponse option" where
  "convert_monitor_response j raw =
     (case raw of
        MonitorResponse.Data v \<Rightarrow> map_option HttpResponse.Data (json_data j v)
      | MonitorResponse.Elf _ \<Rightarrow> None
      | MonitorResponse.Started session initial \<Rightarrow>
          map_option (HttpResponse.Started session) (convert_monitor_event j initial)
      | MonitorResponse.Event event closed \<Rightarrow>
          (case event of
             None \<Rightarrow> Some (HttpResponse.Event None closed)
           | Some e \<Rightarrow> map_option (\<lambda>e. HttpResponse.Event (Some e) closed) (convert_monitor_event j e))
      | MonitorResponse.Closed \<Rightarrow> Some HttpResponse.Closed)"

section \<open>Messages\<close>

type_synonym AgentResponse = "rstring + HttpResponse"

definition PROTOCOL :: u32 where "PROTOCOL = 2"
definition MAX_FRAME_BYTES :: nat where "MAX_FRAME_BYTES = MAX_RESPONSE + 64 * 1024"
definition COMPRESS_ABOVE :: nat where "COMPRESS_ABOVE = 1024"
definition PLAIN :: u8 where "PLAIN = 1"
definition GZIP :: u8 where "GZIP = 2"

record Hello =
  hello_protocol :: u32
  hello_host :: rstring
  hello_machine_id :: rstring
  hello_version :: rstring
  hello_kernel :: "rstring option"
  hello_arch :: rstring
  hello_token :: "rstring option"

datatype Message =
    HelloMessage Hello
  | Welcome u32 rstring
  | Reject rstring
  | Request u64 MonitorRequest
  | Response u64 AgentResponse
  | Ping
  | Pong

datatype host_wire_error =
    Json
  | Compression
  | TooLarge
  | UnknownEncoding u8
  | FrameLength nat
  | EndOfStream

text \<open>The libraries' conversions.\<close>

record host_codec =
  to_json :: "Message \<Rightarrow> byte list option"
  of_json :: "byte list \<Rightarrow> Message option"
  gzip :: "byte list \<Rightarrow> byte list option"
  gunzip :: "nat \<Rightarrow> byte list \<Rightarrow> byte list option"

definition encode_host_message :: "host_codec \<Rightarrow> Message \<Rightarrow> host_wire_error + u8 \<times> byte list" where
  "encode_host_message c message =
     and_then (ok_or (to_json c message) Json) (\<lambda>json.
     if length json \<le> COMPRESS_ABOVE then Inr (PLAIN, json)
     else and_then (ok_or (gzip c json) Compression) (\<lambda>data. Inr (GZIP, data)))"

definition decode_host_message :: "host_codec \<Rightarrow> u8 \<Rightarrow> byte list \<Rightarrow> host_wire_error + Message" where
  "decode_host_message c encoding payload =
     (if encoding = PLAIN then ok_or (of_json c payload) Json
      else if encoding = GZIP then
        and_then (ok_or (gunzip c (MAX_FRAME_BYTES + 1) payload) Compression) (\<lambda>json.
        if length json \<le> MAX_FRAME_BYTES then ok_or (of_json c json) Json else Inl TooLarge)
      else Inl (UnknownEncoding encoding))"

text \<open>\<open>write_u32\<close> and \<open>read_u32\<close>: big-endian.\<close>

definition to_be_bytes :: "u32 \<Rightarrow> byte list" where
  "to_be_bytes w = rev (to_ne_bytes w)"

definition from_be_bytes :: "byte list \<Rightarrow> u32" where
  "from_be_bytes bs = from_ne_bytes (rev bs)"

definition take_exact :: "nat \<Rightarrow> byte list \<Rightarrow> host_wire_error + byte list \<times> byte list" where
  "take_exact n stream = (if n \<le> length stream then Inr (take n stream, drop n stream) else Inl EndOfStream)"

definition read_host_message :: "host_codec \<Rightarrow> byte list \<Rightarrow> host_wire_error + Message \<times> byte list" where
  "read_host_message c stream =
     and_then (take_exact 4 stream) (\<lambda>(header, stream).
     let len = unat (from_be_bytes header) in
     if 2 \<le> len \<and> len \<le> MAX_FRAME_BYTES then
       and_then (take_exact 1 stream) (\<lambda>(encoding, stream).
       and_then (take_exact (len - 1) stream) (\<lambda>(payload, stream).
       and_then (decode_host_message c (hd encoding) payload) (\<lambda>message. Inr (message, stream))))
     else Inl (FrameLength len))"

text \<open>The bytes that are written.\<close>

definition write_host_message :: "host_codec \<Rightarrow> Message \<Rightarrow> host_wire_error + byte list" where
  "write_host_message c message =
     and_then (encode_host_message c message) (\<lambda>(encoding, payload).
     if length payload < MAX_FRAME_BYTES
     then Inr (to_be_bytes (word_of_nat (length payload) + 1) @ [encoding] @ payload)
     else Inl TooLarge)"

definition same_secret :: "rstring \<Rightarrow> rstring \<Rightarrow> bool" where
  "same_secret expected actual =
     (let expected = as_bytes expected; actual = as_bytes actual in
      length expected = length actual \<and>
      fold (\<lambda>(a, b) difference. difference OR (a XOR b)) (zip expected actual) (0 :: u8) = 0)"

section \<open>Frames\<close>

lemma take_exact_append: "length bs = n \<Longrightarrow> take_exact n (bs @ rest) = Inr (bs, rest)"
  by (simp add: take_exact_def)

lemma from_to_be_bytes [simp]: "from_be_bytes (to_be_bytes w) = w"
  by (simp add: from_be_bytes_def to_be_bytes_def from_to_ne_bytes)

lemma length_to_be_bytes [simp]: "length (to_be_bytes w) = 4"
  by (simp add: to_be_bytes_def)

lemma read_frame:
  assumes "0 < length payload" "length payload < MAX_FRAME_BYTES"
  shows "read_host_message c (to_be_bytes (word_of_nat (length payload) + 1) @ [encoding] @ payload @ rest) =
    and_then (decode_host_message c encoding payload) (\<lambda>message. Inr (message, rest))"
proof -
  have "Suc (length payload) < 2 ^ 32" using assms(2) by (simp add: MAX_FRAME_BYTES_def MAX_RESPONSE_def)
  then have "unat (word_of_nat (Suc (length payload)) :: u32) = Suc (length payload)" by (intro unat_word_of_nat) simp
  then have len: "unat (word_of_nat (length payload) + 1 :: u32) = Suc (length payload)" by (simp add: add.commute)
  have one: "take_exact 1 ([encoding] @ payload @ rest) = Inr ([encoding], payload @ rest)"
    by (rule take_exact_append) simp
  show ?thesis
    using assms unfolding read_host_message_def
    by (simp only: take_exact_append [OF length_to_be_bytes] and_then_simps prod.case from_to_be_bytes Let_def len one)
       (auto simp: take_exact_append Suc_le_eq)
qed

section \<open>Secrets\<close>

lemma xor_zero_iff: "a XOR b = 0 \<longleftrightarrow> a = b" for a b :: u8
proof
  assume "a XOR b = 0"
  then have "(a XOR b) XOR b = b" by simp
  then show "a = b" by (simp add: xor.assoc)
qed simp

lemma fold_or_zero:
  "fold (\<lambda>(a, b) difference. difference OR (a XOR b)) xs (d :: u8) = 0 \<longleftrightarrow> d = 0 \<and> list_all (\<lambda>(a, b). a = b) xs"
proof (induction xs arbitrary: d)
  case (Cons x xs)
  obtain a b where x: "x = (a, b)" by (cases x)
  have "d OR (a XOR b) = 0 \<longleftrightarrow> d = 0 \<and> a = b" by (simp add: or_eq_0_iff xor_zero_iff)
  then show ?case using Cons [of "d OR (a XOR b)"] by (auto simp: x)
qed simp

lemma as_bytes_eq_iff: "as_bytes a = as_bytes b \<longleftrightarrow> a = b"
  by (metis from_utf8_as_bytes option.inject)

lemma zip_all_equal: "length xs = length ys \<Longrightarrow> list_all (\<lambda>(a, b). a = b) (zip xs ys) \<longleftrightarrow> xs = ys"
  by (induction xs ys rule: list_induct2) auto

section \<open>Properties\<close>

text \<open>A message that is written is delivered: whatever follows it in the stream, the reader returns the
  message and the rest of the stream, if the libraries' conversions are inverse on it. The exception is a
  compressed message whose JSON is longer than the frame limit: the writer accepts it, since only the compressed
  size is checked, and the reader refuses it.\<close>

theorem host_message_delivery:
  assumes "to_json c message = Some json" "of_json c json = Some message" "json \<noteq> []"
    and "\<And>data. gzip c json = Some data \<Longrightarrow> data \<noteq> [] \<and> gunzip c (MAX_FRAME_BYTES + 1) data = Some (take (MAX_FRAME_BYTES + 1) json)"
    and "write_host_message c message = Inr bytes"
  shows "read_host_message c (bytes @ rest) = (if length json \<le> MAX_FRAME_BYTES then Inr (message, rest) else Inl TooLarge)"
proof -
  obtain encoding payload where e: "encode_host_message c message = Inr (encoding, payload)" "length payload < MAX_FRAME_BYTES"
    and bytes: "bytes = to_be_bytes (word_of_nat (length payload) + 1) @ [encoding] @ payload"
    using assms(5) by (auto simp: write_host_message_def and_then_eq_Inr split: if_splits)
  have small: "COMPRESS_ABOVE < MAX_FRAME_BYTES" by (simp add: COMPRESS_ABOVE_def MAX_FRAME_BYTES_def MAX_RESPONSE_def)
  have "payload \<noteq> [] \<and> decode_host_message c encoding payload = (if length json \<le> MAX_FRAME_BYTES then Inr message else Inl TooLarge)"
  proof (cases "length json \<le> COMPRESS_ABOVE")
    case True
    then show ?thesis using e(1) assms(1-3) small by (auto simp: encode_host_message_def decode_host_message_def)
  next
    case False
    then obtain data where data: "gzip c json = Some data" "encoding = GZIP" "payload = data"
      using e(1) assms(1) by (cases "gzip c json") (simp_all add: encode_host_message_def)
    then show ?thesis using assms(4) [OF data(1)] assms(2)
      by (simp add: decode_host_message_def PLAIN_def GZIP_def)
  qed
  then show ?thesis using read_frame [of payload c encoding rest] e(2) by (simp add: bytes)
qed

definition sample_codec :: host_codec where
  "sample_codec = \<lparr>to_json = (\<lambda>m. if m = Ping then Some (as_bytes (lit ''ping'')) else None),
     of_json = (\<lambda>bs. if bs = as_bytes (lit ''ping'') then Some Ping else None),
     gzip = Some, gunzip = (\<lambda>n bs. Some (take n bs))\<rparr>"

lemma sample_ping: "length (as_bytes (lit ''ping'')) = 4"
  by (simp add: lit_map_ch as_bytes_def utf8_char_def Let_def)

theorem host_message_delivery_witness:
  "\<exists>bytes. write_host_message sample_codec Ping = Inr bytes \<and> read_host_message sample_codec (bytes @ [9]) = Inr (Ping, [9])"
proof -
  let ?json = "as_bytes (lit ''ping'')"
  have ne: "?json \<noteq> []" using sample_ping by (metis list.size(3) zero_neq_numeral)
  obtain bytes where b: "write_host_message sample_codec Ping = Inr bytes"
    by (simp add: write_host_message_def encode_host_message_def sample_codec_def sample_ping COMPRESS_ABOVE_def
        MAX_FRAME_BYTES_def MAX_RESPONSE_def)
  have "read_host_message sample_codec (bytes @ [9]) = (if length ?json \<le> MAX_FRAME_BYTES then Inr (Ping, [9]) else Inl TooLarge)"
    by (rule host_message_delivery [OF _ _ ne _ b]) (auto simp: sample_codec_def ne)
  then show ?thesis using b by (simp add: sample_ping MAX_FRAME_BYTES_def MAX_RESPONSE_def)
qed

text \<open>The comparison of secrets, which looks at every byte, accepts exactly equal tokens.\<close>

theorem same_secret_equality: "same_secret expected actual \<longleftrightarrow> expected = actual"
proof (cases "length (as_bytes expected) = length (as_bytes actual)")
  case True
  then show ?thesis by (simp add: same_secret_def fold_or_zero zip_all_equal as_bytes_eq_iff)
next
  case False
  then show ?thesis by (auto simp: same_secret_def)
qed

end
