(* ===== verification/Agent_Link.thy ===== *)
theory Agent_Link
  imports Host_Wire "HOL-Library.AList"
begin

text \<open>
  The hub's handle on one connected agent (\<open>src/http_server/hosts/link.rs\<close>). The one-shot channel of
  a request is a number: a request waits on its channel, \<open>al_replies\<close> holds what has been sent into
  one, and a channel whose sender is neither pending nor used has been dropped. The queue to the agent is bounded;
  \<open>al_receiver\<close> tells whether its reading end still exists.
\<close>

section \<open>State and operations\<close>

definition PENDING_LIMIT :: nat where "PENDING_LIMIT = 64"

record AgentLink =
  al_outgoing :: "Message list"
  al_receiver :: bool
  al_pending :: "(u64 \<times> nat) list option"
  al_next :: u64
  al_channels :: nat
  al_replies :: "nat \<Rightarrow> AgentResponse option"

datatype link_error = LinkClosed | QueueFull | ClosedOrFull | RequestTimedOut | Remote rstring

definition AgentLink_new :: AgentLink where
  "AgentLink_new = \<lparr>al_outgoing = [], al_receiver = True, al_pending = Some [], al_next = 0, al_channels = 0,
     al_replies = (\<lambda>_. None)\<rparr>"

text \<open>\<open>outgoing.try_send\<close>: fails when the queue is full or its receiver is gone.\<close>

definition try_send :: "Message \<Rightarrow> AgentLink \<Rightarrow> AgentLink option" where
  "try_send message l =
     (if al_receiver l \<and> length (al_outgoing l) < PENDING_LIMIT + 8
      then Some (l\<lparr>al_outgoing := al_outgoing l @ [message]\<rparr>) else None)"

definition forget :: "u64 \<Rightarrow> AgentLink \<Rightarrow> AgentLink" where
  "forget rid l = l\<lparr>al_pending := map_option (AList.delete rid) (al_pending l)\<rparr>"

text \<open>\<open>request\<close> up to the point where it waits: the request's number and channel.\<close>

definition begin_request :: "MonitorRequest \<Rightarrow> AgentLink \<Rightarrow> (link_error + u64 \<times> nat) \<times> AgentLink" where
  "begin_request request l =
     (let rid = al_next l; l = l\<lparr>al_next := rid + 1\<rparr> in
      case al_pending l of
        None \<Rightarrow> (Inl LinkClosed, l)
      | Some pending \<Rightarrow>
          if PENDING_LIMIT \<le> length pending then (Inl QueueFull, l)
          else
            (let channel = al_channels l;
                 l = l\<lparr>al_pending := Some (AList.update rid channel pending), al_channels := channel + 1\<rparr> in
             case try_send (Request rid request) l of
               Some l \<Rightarrow> (Inr (rid, channel), l)
             | None \<Rightarrow> (Inl ClosedOrFull, forget rid l)))"

text \<open>What a waiting request finds in its channel; \<open>None\<close> while it has to wait.\<close>

definition request_result :: "nat \<Rightarrow> AgentLink \<Rightarrow> (link_error + HttpResponse) option" where
  "request_result channel l =
     (case al_replies l channel of
        Some (Inr response) \<Rightarrow> Some (Inr response)
      | Some (Inl message) \<Rightarrow> Some (Inl (Remote message))
      | None \<Rightarrow>
          (case al_pending l of
             Some pending \<Rightarrow> if channel \<in> snd ` set pending then None else Some (Inl LinkClosed)
           | None \<Rightarrow> Some (Inl LinkClosed)))"

text \<open>The end of the wait; a response that is there is preferred to the timeout.\<close>

definition end_request :: "u64 \<Rightarrow> nat \<Rightarrow> bool \<Rightarrow> AgentLink \<Rightarrow> (link_error + HttpResponse) option \<times> AgentLink" where
  "end_request rid channel timed_out l =
     (case request_result channel l of
        Some r \<Rightarrow> (Some r, l)
      | None \<Rightarrow> if timed_out then (Some (Inl RequestTimedOut), forget rid l) else (None, l))"

definition close_session :: "u64 \<Rightarrow> AgentLink \<Rightarrow> AgentLink" where
  "close_session session l =
     (let rid = al_next l; l = l\<lparr>al_next := rid + 1\<rparr> in
      case try_send (Request rid (MonitorRequest.Close session)) l of Some l \<Rightarrow> l | None \<Rightarrow> l)"

definition link_send :: "Message \<Rightarrow> AgentLink \<Rightarrow> AgentLink" where
  "link_send message l = (case try_send message l of Some l \<Rightarrow> l | None \<Rightarrow> l)"

definition complete :: "u64 \<Rightarrow> AgentResponse \<Rightarrow> AgentLink \<Rightarrow> AgentLink" where
  "complete rid response l =
     (case al_pending l of
        None \<Rightarrow> l
      | Some pending \<Rightarrow>
          (case map_of pending rid of
             None \<Rightarrow> l
           | Some channel \<Rightarrow> l\<lparr>al_pending := Some (AList.delete rid pending),
               al_replies := (al_replies l)(channel \<mapsto> response)\<rparr>))"

definition link_close :: "AgentLink \<Rightarrow> AgentLink" where
  "link_close l = l\<lparr>al_pending := None\<rparr>"

section \<open>Events\<close>

text \<open>What may happen to a link, in any order.\<close>

datatype link_event =
    Begin MonitorRequest
  | TimeOut u64 nat
  | CloseSession u64
  | Send Message
  | Complete u64 AgentResponse
  | CloseLink
  | Written       \<comment> \<open>the writer takes a message from the queue\<close>
  | WriterGone    \<comment> \<open>the writer ends\<close>

definition link_step :: "link_event \<Rightarrow> AgentLink \<Rightarrow> AgentLink" where
  "link_step event l =
     (case event of
        Begin request \<Rightarrow> snd (begin_request request l)
      | TimeOut rid channel \<Rightarrow> snd (end_request rid channel True l)
      | CloseSession session \<Rightarrow> close_session session l
      | Send message \<Rightarrow> link_send message l
      | Complete rid response \<Rightarrow> complete rid response l
      | CloseLink \<Rightarrow> link_close l
      | Written \<Rightarrow> l\<lparr>al_outgoing := tl (al_outgoing l)\<rparr>
      | WriterGone \<Rightarrow> l\<lparr>al_receiver := False\<rparr>)"

definition link_run :: "link_event list \<Rightarrow> AgentLink \<Rightarrow> AgentLink" where
  "link_run events l = fold link_step events l"

text \<open>
  The invariant: no request number and no channel is pending twice, at most \<open>PENDING_LIMIT\<close> requests are
  pending, the queue keeps its bound, and pending channels have been created and not been answered.
\<close>

definition pending_ok :: "nat \<Rightarrow> (nat \<Rightarrow> AgentResponse option) \<Rightarrow> (u64 \<times> nat) list \<Rightarrow> bool" where
  "pending_ok channels replies pending \<longleftrightarrow>
     length pending \<le> PENDING_LIMIT \<and> distinct (map fst pending) \<and> distinct (map snd pending)
     \<and> (\<forall>channel \<in> snd ` set pending. channel < channels \<and> replies channel = None)"

definition link_ok :: "AgentLink \<Rightarrow> bool" where
  "link_ok l \<longleftrightarrow> length (al_outgoing l) \<le> PENDING_LIMIT + 8
     \<and> (\<forall>channel. al_channels l \<le> channel \<longrightarrow> al_replies l channel = None)
     \<and> (\<forall>pending. al_pending l = Some pending \<longrightarrow> pending_ok (al_channels l) (al_replies l) pending)"

lemma try_send_Some:
  "try_send message l = Some l' \<longleftrightarrow> al_receiver l \<and> length (al_outgoing l) < PENDING_LIMIT + 8 \<and> l' = l\<lparr>al_outgoing := al_outgoing l @ [message]\<rparr>"
  by (auto simp: try_send_def)

lemma link_ok_try_send: "link_ok l \<Longrightarrow> try_send message l = Some l' \<Longrightarrow> link_ok l'"
  by (auto simp: try_send_Some link_ok_def)

lemma link_ok_simps [simp]:
  "link_ok (l\<lparr>al_next := n\<rparr>) = link_ok l" "link_ok (l\<lparr>al_receiver := b\<rparr>) = link_ok l"
  "link_ok l \<Longrightarrow> link_ok (l\<lparr>al_outgoing := tl (al_outgoing l)\<rparr>)" "link_ok l \<Longrightarrow> link_ok (link_close l)"
  by (auto simp: link_ok_def link_close_def)

lemma pending_ok_delete: "pending_ok channels replies pending \<Longrightarrow> pending_ok channels replies (AList.delete k pending)"
  by (auto simp: pending_ok_def AList.delete_eq distinct_map_filter intro: order_trans [OF length_filter_le])

lemma pending_ok_update:
  assumes "pending_ok channels replies pending" "length pending < PENDING_LIMIT" "replies channels = None"
  shows "pending_ok (channels + 1) replies (AList.update k channels pending)"
proof -
  have snd: "snd ` set (AList.update k channels pending) \<subseteq> insert channels (snd ` set pending)" for k
    by (induction pending) auto
  have "distinct (map snd (AList.update k channels pending))"
    using assms(1) unfolding pending_ok_def
  proof (induction pending)
    case (Cons x xs)
    have "snd x \<notin> snd ` set (AList.update k channels xs)" if "fst x \<noteq> k"
    proof -
      have "snd ` set (AList.update k channels xs) \<subseteq> insert channels (snd ` set xs)" by (induction xs) auto
      then show ?thesis using Cons.prems by auto
    qed
    moreover have "channels \<notin> snd ` set xs" using Cons.prems by auto
    ultimately show ?case using Cons by (cases x) (auto simp: image_iff)
  qed simp
  moreover have "length (AList.update k channels pending) \<le> Suc (length pending)" by (induction pending) auto
  ultimately show ?thesis
    using assms snd [of k] by (auto simp: pending_ok_def AList.distinct_update image_subset_iff) force+
qed

lemma link_ok_forget: "link_ok l \<Longrightarrow> link_ok (forget rid l)"
  by (auto simp: link_ok_def forget_def pending_ok_delete)

lemma link_ok_send: "link_ok l \<Longrightarrow> link_ok (link_send message l)"
  by (auto simp: link_send_def link_ok_try_send split: option.splits)

lemma link_ok_close_session: "link_ok l \<Longrightarrow> link_ok (close_session session l)"
  by (auto simp: close_session_def Let_def dest: link_ok_try_send [rotated] split: option.splits)

lemma link_ok_begin: "link_ok l \<Longrightarrow> link_ok (snd (begin_request request l))"
proof -
  assume l: "link_ok l"
  have "link_ok (l\<lparr>al_next := al_next l + 1, al_pending := Some (AList.update (al_next l) (al_channels l) pending),
      al_channels := al_channels l + 1\<rparr>)" if "al_pending l = Some pending" "length pending < PENDING_LIMIT" for pending
    using l that pending_ok_update [of "al_channels l" "al_replies l" pending] by (simp add: link_ok_def)
  then show ?thesis using l
    by (auto simp: begin_request_def Let_def not_le intro: link_ok_try_send link_ok_forget split: option.splits)
qed

lemma link_ok_complete: "link_ok l \<Longrightarrow> link_ok (complete rid response l)"
proof (cases "al_pending l")
  case (Some pending)
  assume l: "link_ok l"
  show ?thesis
  proof (cases "map_of pending rid")
    case channel: (Some channel)
    then have member: "(rid, channel) \<in> set pending" by (rule map_of_SomeD)
    have ok: "pending_ok (al_channels l) (al_replies l) pending" using l Some by (simp add: link_ok_def)
    have "channel \<notin> snd ` set (AList.delete rid pending)"
    proof
      assume "channel \<in> snd ` set (AList.delete rid pending)"
      then obtain k where "(k, channel) \<in> set pending" "k \<noteq> rid" by (auto simp: AList.delete_eq)
      moreover have "inj_on snd (set pending)" using ok by (simp add: pending_ok_def distinct_map)
      ultimately have "(k, channel) = (rid, channel)" using member by (metis inj_onD snd_conv)
      then show False using \<open>k \<noteq> rid\<close> by simp
    qed
    then have "pending_ok (al_channels l) ((al_replies l)(channel \<mapsto> response)) (AList.delete rid pending)"
      using pending_ok_delete [OF ok, of rid] by (auto simp: pending_ok_def)
    moreover have "channel < al_channels l" using member ok by (auto simp: pending_ok_def)
    ultimately show ?thesis using l by (auto simp: link_ok_def complete_def Some channel)
  qed (use l Some in \<open>simp add: complete_def\<close>)
qed (simp add: complete_def)

lemma link_ok_step: "link_ok l \<Longrightarrow> link_ok (link_step event l)"
  by (cases event)
     (simp_all add: link_step_def link_ok_begin link_ok_close_session link_ok_send link_ok_complete end_request_def
       link_ok_forget split: option.split)

lemma link_ok_run: "link_ok l \<Longrightarrow> link_ok (link_run events l)"
  by (induction events arbitrary: l) (simp_all add: link_run_def link_ok_step)

lemma link_ok_new: "link_ok AgentLink_new"
  by (simp add: link_ok_def AgentLink_new_def pending_ok_def)

section \<open>The outcome of a request\<close>

text \<open>What decides a request: the first response under its number, or the end of the link, whichever comes first.\<close>

fun outcome :: "u64 \<Rightarrow> link_event list \<Rightarrow> (link_error + HttpResponse) option" where
  "outcome rid [] = None"
| "outcome rid (Complete i response # events) =
     (if i = rid then Some (case response of Inl message \<Rightarrow> Inl (Remote message) | Inr r \<Rightarrow> Inr r) else outcome rid events)"
| "outcome rid (CloseLink # events) = Some (Inl LinkClosed)"
| "outcome rid (_ # events) = outcome rid events"

text \<open>A request that is waiting, \<open>m\<close> numbers after its own having been drawn.\<close>

definition waiting :: "u64 \<Rightarrow> nat \<Rightarrow> nat \<Rightarrow> AgentLink \<Rightarrow> bool" where
  "waiting rid channel m l \<longleftrightarrow> link_ok l \<and> al_next l = rid + 1 + word_of_nat m
     \<and> (\<exists>pending. al_pending l = Some pending \<and> map_of pending rid = Some channel)"

lemma next_fresh: "m + 1 < 2 ^ 64 \<Longrightarrow> (rid :: u64) + 1 + word_of_nat m \<noteq> rid"
proof
  assume m: "m + 1 < 2 ^ 64" and "rid + 1 + word_of_nat m = rid"
  then have "(1 + word_of_nat m :: u64) = 0" by (simp add: add.assoc)
  then have "unat (word_of_nat (m + 1) :: u64) = 0" by (simp add: add.commute)
  then show False using unat_word_of_nat [where 'a = 64, of "m + 1"] m by simp
qed

lemma waiting_result: "waiting rid channel m l \<Longrightarrow> request_result channel l = None"
  by (force simp: waiting_def request_result_def link_ok_def pending_ok_def dest: map_of_SomeD)

lemma map_of_update_other: "k \<noteq> rid \<Longrightarrow> map_of (AList.update k v xs) rid = map_of xs rid"
  by (simp add: AList.update_conv')

lemma map_of_delete_other: "k \<noteq> rid \<Longrightarrow> map_of (AList.delete k xs) rid = map_of xs rid"
  by (simp add: AList.delete_conv')

lemma begin_pending:
  assumes "al_pending l = Some pending" "map_of pending rid = Some channel" "al_next l \<noteq> rid"
  shows "al_next (snd (begin_request request l)) = al_next l + 1"
    "\<exists>pending. al_pending (snd (begin_request request l)) = Some pending \<and> map_of pending rid = Some channel"
  using assms
  by (auto simp: begin_request_def Let_def try_send_def forget_def map_of_update_other map_of_delete_other split: option.splits)

lemma waiting_begin:
  assumes "waiting rid channel m l" "m + 1 < 2 ^ 64"
  shows "waiting rid channel (Suc m) (snd (begin_request request l))"
  using assms begin_pending [of l _ rid channel request] next_fresh [OF assms(2), of rid] link_ok_begin [of l request]
  by (auto simp: waiting_def)

lemma waiting_same:
  assumes "waiting rid channel m l" "link_ok l'" "al_next l' = al_next l" "al_pending l' = al_pending l"
  shows "waiting rid channel m l'"
  using assms by (simp add: waiting_def)

lemma try_send_same: "try_send message l = Some l' \<Longrightarrow> al_next l' = al_next l \<and> al_pending l' = al_pending l"
  by (auto simp: try_send_Some)

lemma waiting_close_session:
  assumes "waiting rid channel m l"
  shows "waiting rid channel (Suc m) (close_session session l)"
proof -
  have "al_next (close_session session l) = al_next l + 1 \<and> al_pending (close_session session l) = al_pending l"
    by (auto simp: close_session_def Let_def dest: try_send_same split: option.splits)
  then show ?thesis using assms link_ok_close_session by (auto simp: waiting_def)
qed

lemma waiting_forget: "waiting rid channel m l \<Longrightarrow> i \<noteq> rid \<Longrightarrow> waiting rid channel m (forget i l)"
  using link_ok_forget [of l i] by (auto simp: waiting_def forget_def map_of_delete_other)

lemma waiting_complete: "waiting rid channel m l \<Longrightarrow> i \<noteq> rid \<Longrightarrow> waiting rid channel m (complete i response l)"
  using link_ok_complete [of l i response]
  by (auto simp: waiting_def complete_def map_of_delete_other split: option.splits)

text \<open>An event that does not decide the request leaves it waiting.\<close>

lemma waiting_step:
  assumes "waiting rid channel m l" "m + 1 < 2 ^ 64" "outcome rid [event] = None" "\<forall>c. event \<noteq> TimeOut rid c"
  shows "\<exists>k \<le> Suc m. waiting rid channel k (link_step event l)"
proof (cases event)
  case (Begin request)
  then show ?thesis using waiting_begin [OF assms(1,2)] by (auto simp: link_step_def)
next
  case (TimeOut i c)
  then have "waiting rid channel m (link_step event l)"
    using assms(1,4) waiting_forget [OF assms(1), of i] by (auto simp: link_step_def end_request_def split: option.splits)
  then show ?thesis by (intro exI [of _ m]) simp
next
  case (CloseSession session)
  then show ?thesis using waiting_close_session [OF assms(1)] by (auto simp: link_step_def)
next
  case (Send message)
  have "al_next (link_send message l) = al_next l \<and> al_pending (link_send message l) = al_pending l"
    by (auto simp: link_send_def dest: try_send_same split: option.splits)
  then have "waiting rid channel m (link_step event l)"
    using assms(1) link_ok_send [of l message] Send by (simp add: link_step_def waiting_def)
  then show ?thesis by (intro exI [of _ m]) simp
next
  case (Complete i response)
  then have "waiting rid channel m (link_step event l)"
    using waiting_complete [OF assms(1), of i response] assms(3) by (auto simp: link_step_def split: if_splits)
  then show ?thesis by (intro exI [of _ m]) simp
next
  case CloseLink
  then show ?thesis using assms(3) by simp
next
  case Written
  then have "waiting rid channel m (link_step event l)" using assms(1) by (auto simp: link_step_def waiting_def)
  then show ?thesis by (intro exI [of _ m]) simp
next
  case WriterGone
  then have "waiting rid channel m (link_step event l)" using assms(1) by (auto simp: link_step_def waiting_def)
  then show ?thesis by (intro exI [of _ m]) simp
qed

text \<open>Once decided, a request stays decided.\<close>

lemma begin_replies: "al_replies (snd (begin_request request l)) = al_replies l"
  by (auto simp: begin_request_def Let_def try_send_def forget_def split: option.splits)

lemma close_session_replies: "al_replies (close_session session l) = al_replies l"
  by (auto simp: close_session_def Let_def try_send_def)

lemma link_send_replies: "al_replies (link_send message l) = al_replies l"
  by (auto simp: link_send_def try_send_def)

lemma complete_replies:
  "link_ok l \<Longrightarrow> al_replies l channel = Some r \<Longrightarrow> al_replies (complete i response l) channel = Some r"
  by (force simp: complete_def link_ok_def pending_ok_def dest: map_of_SomeD split: option.splits)

lemma replies_step:
  assumes "link_ok l" "al_replies l channel = Some r"
  shows "al_replies (link_step event l) channel = Some r"
  using assms
  by (cases event)
     (simp_all add: link_step_def begin_replies close_session_replies link_send_replies complete_replies end_request_def
       forget_def link_close_def split: option.split)

lemma replies_run:
  "link_ok l \<Longrightarrow> al_replies l channel = Some r \<Longrightarrow> al_replies (link_run events l) channel = Some r"
  by (induction events arbitrary: l) (simp_all add: link_run_def link_ok_step replies_step)

lemma closed_step:
  assumes "al_pending l = None"
  shows "al_pending (link_step event l) = None \<and> al_replies (link_step event l) = al_replies l"
  using assms
  by (cases event)
     (auto simp: link_step_def begin_request_def Let_def close_session_def link_send_def try_send_def complete_def
       end_request_def forget_def link_close_def split: option.split)

lemma closed_run:
  "al_pending l = None \<Longrightarrow> al_pending (link_run events l) = None \<and> al_replies (link_run events l) = al_replies l"
  by (induction events arbitrary: l) (simp_all add: link_run_def closed_step)

lemma outcome_run:
  assumes "waiting rid channel m l" "m + length events + 1 < 2 ^ 64" "\<forall>c. TimeOut rid c \<notin> set events"
  shows "request_result channel (link_run events l) = outcome rid events"
  using assms
proof (induction events arbitrary: m l)
  case Nil
  then show ?case by (simp add: link_run_def waiting_result)
next
  case (Cons event events)
  obtain pending where p: "al_pending l = Some pending" "map_of pending rid = Some channel" "link_ok l"
    using Cons.prems(1) by (auto simp: waiting_def)
  have run: "link_run (event # events) l = link_run events (link_step event l)" by (simp add: link_run_def)
  show ?case
  proof (cases "outcome rid [event]")
    case None
    then have "outcome rid (event # events) = outcome rid events" by (cases event) (auto split: if_splits)
    moreover obtain k where "k \<le> Suc m" "waiting rid channel k (link_step event l)"
      using waiting_step [OF Cons.prems(1) _ None] Cons.prems(2,3) by auto
    ultimately show ?thesis using Cons.IH [of k "link_step event l"] Cons.prems(2,3) run by simp
  next
    case (Some r)
    then consider response where "event = Complete rid response" | "event = CloseLink"
      by (cases event) (auto split: if_splits)
    then show ?thesis
    proof cases
      case (1 response)
      then have "al_replies (link_step event l) channel = Some response" by (simp add: link_step_def complete_def p)
      from replies_run [OF link_ok_step [OF p(3)] this, of events] show ?thesis
        unfolding run by (simp add: request_result_def 1 split: sum.split)
    next
      case 2
      then have "al_pending (link_step event l) = None" "al_replies (link_step event l) channel = None"
        using waiting_result [OF Cons.prems(1)] by (auto simp: link_step_def link_close_def request_result_def split: option.splits sum.splits)
      then show ?thesis using closed_run [of "link_step event l" events] unfolding run by (simp add: request_result_def 2)
    qed
  qed
qed

lemma begin_waiting:
  assumes "link_ok l" "begin_request request l = (Inr (rid, channel), l')"
  shows "waiting rid channel 0 l'"
proof -
  have "link_ok l'" using link_ok_begin [OF assms(1), of request] assms(2) by simp
  then show ?thesis using assms(2)
    by (auto simp: waiting_def begin_request_def Let_def try_send_Some AList.update_conv' split: option.splits if_splits)
qed

section \<open>Properties\<close>



end
