(* ===== verification/Btree_Map.thy ===== *)
theory Btree_Map
  imports Main
begin

text \<open>
  \<open>BTreeMap\<close>: an association list in strict key order. The locale states what the clients rely on, in terms of
  the map that a table represents; the ordered list is its interpretation.
\<close>

locale key_table =
  fixes get :: "'t \<Rightarrow> 'k \<Rightarrow> 'v option"
    and insert :: "'k \<Rightarrow> 'v \<Rightarrow> 't \<Rightarrow> 't"
    and retain :: "('k \<Rightarrow> 'v \<Rightarrow> bool) \<Rightarrow> 't \<Rightarrow> 't"
    and size_of_table :: "'t \<Rightarrow> nat"
    and valid :: "'t \<Rightarrow> bool"
  assumes get_insert: "valid t \<Longrightarrow> get (insert k v t) = (get t)(k \<mapsto> v)"
    and get_retain: "valid t \<Longrightarrow> get (retain P t) k = (case get t k of Some v \<Rightarrow> if P k v then Some v else None | None \<Rightarrow> None)"
    and size_get: "valid t \<Longrightarrow> size_of_table t = card (dom (get t)) \<and> finite (dom (get t))"
    and valid_insert: "valid t \<Longrightarrow> valid (insert k v t)"
    and valid_retain: "valid t \<Longrightarrow> valid (retain P t)"
begin

lemma size_insert:
  assumes "valid t"
  shows "size_of_table (insert k v t) = (if get t k = None then Suc (size_of_table t) else size_of_table t)"
  using assms size_get [OF assms] size_get [OF valid_insert [OF assms, of k v]]
  by (auto simp: get_insert insert_absorb domI card_insert_if domIff)

lemma dom_retain: "valid t \<Longrightarrow> dom (get (retain P t)) \<subseteq> dom (get t)"
  by (auto simp: get_retain split: option.splits if_splits)

lemma size_retain: "valid t \<Longrightarrow> size_of_table (retain P t) \<le> size_of_table t"
  using size_get [of t] size_get [OF valid_retain, of t P] dom_retain [of t P] by (simp add: card_mono)

text \<open>A table whose size does not change under \<open>retain\<close> has lost nothing.\<close>

lemma retain_same_size:
  assumes "valid t" "size_of_table (retain P t) = size_of_table t"
  shows "get (retain P t) = get t"
proof -
  have "dom (get (retain P t)) = dom (get t)"
    using assms size_get [OF assms(1)] size_get [OF valid_retain [OF assms(1)], of P] dom_retain [OF assms(1), of P]
    by (intro card_subset_eq) simp_all
  then have same: "get (retain P t) k = None \<longleftrightarrow> get t k = None" for k by (metis domIff)
  show ?thesis
  proof
    fix k
    show "get (retain P t) k = get t k"
      using same [of k] get_retain [OF assms(1), of P k] by (cases "get t k") (simp_all split: if_splits)
  qed
qed

end

section \<open>Ordered lists\<close>

fun bt_insert :: "'k::linorder \<Rightarrow> 'v \<Rightarrow> ('k \<times> 'v) list \<Rightarrow> ('k \<times> 'v) list" where
  "bt_insert k v [] = [(k, v)]"
| "bt_insert k v ((k', v') # t) =
     (if k < k' then (k, v) # (k', v') # t
      else if k = k' then (k, v) # t
      else (k', v') # bt_insert k v t)"

definition bt_retain :: "('k \<Rightarrow> 'v \<Rightarrow> bool) \<Rightarrow> ('k \<times> 'v) list \<Rightarrow> ('k \<times> 'v) list" where
  "bt_retain P t = filter (\<lambda>(k, v). P k v) t"

definition bt_ok :: "('k::linorder \<times> 'v) list \<Rightarrow> bool" where
  "bt_ok t \<longleftrightarrow> sorted_wrt (<) (map fst t)"

lemma bt_ok_distinct: "bt_ok t \<Longrightarrow> distinct (map fst t)"
  by (simp add: bt_ok_def strict_sorted_iff)

lemma set_bt_insert: "fst ` set (bt_insert k v t) = insert k (fst ` set t)"
  by (induction t) force+

lemma bt_ok_insert: "bt_ok t \<Longrightarrow> bt_ok (bt_insert k v t)"
proof (induction t)
  case (Cons x t)
  then show ?case using set_bt_insert [of k v t] by (cases x) (auto simp: bt_ok_def)
qed (simp add: bt_ok_def)

lemma map_of_bt_insert: "bt_ok t \<Longrightarrow> map_of (bt_insert k v t) = (map_of t)(k \<mapsto> v)"
proof (induction t)
  case (Cons x t)
  then show ?case by (cases x) (auto simp: bt_ok_def fun_upd_twist)
qed simp

lemma map_of_filter_distinct:
  "distinct (map fst t) \<Longrightarrow>
   map_of (filter (\<lambda>(k, v). P k v) t) k = (case map_of t k of Some v \<Rightarrow> if P k v then Some v else None | None \<Rightarrow> None)"
proof (induction t)
  case (Cons x t)
  obtain k' v' where x: "x = (k', v')" by (cases x)
  have "map_of t k' = None" using Cons.prems by (simp add: x map_of_eq_None_iff)
  then show ?case using Cons by (auto simp: x)
qed simp

interpretation bt: key_table map_of bt_insert bt_retain length bt_ok
proof
  fix t :: "('k::linorder \<times> 'v) list" and k v P
  assume t: "bt_ok t"
  show "map_of (bt_insert k v t) = (map_of t)(k \<mapsto> v)" using t by (rule map_of_bt_insert)
  show "map_of (bt_retain P t) k = (case map_of t k of Some v \<Rightarrow> if P k v then Some v else None | None \<Rightarrow> None)"
    unfolding bt_retain_def using bt_ok_distinct [OF t] by (rule map_of_filter_distinct)
  show "length t = card (dom (map_of t)) \<and> finite (dom (map_of t))"
    using bt_ok_distinct [OF t] by (metis distinct_card dom_map_of_conv_image_fst finite_dom_map_of length_map set_map)
  show "bt_ok (bt_insert k v t)" using t by (rule bt_ok_insert)
  show "bt_ok (bt_retain P t)"
    using t by (auto simp: bt_ok_def bt_retain_def sorted_wrt_map intro: sorted_wrt_filter)
qed

end
