(* ===== verification/Str_Order.thy ===== *)
theory Str_Order
  imports Rust_String "HOL-Library.List_Lexorder"
begin

text \<open>
  The order of \<open>String\<close>: lexicographic by code point, which is the order of the UTF-8 bytes. With the library's
  lexicographic order on lists it makes strings keys of ordered maps.
\<close>

instantiation uchar :: linorder
begin

lift_definition less_eq_uchar :: "uchar \<Rightarrow> uchar \<Rightarrow> bool" is "\<lambda>a b. a \<le> b" .

lift_definition less_uchar :: "uchar \<Rightarrow> uchar \<Rightarrow> bool" is "\<lambda>a b. a < b" .

instance
  by (standard; transfer) auto

end

lemma less_uchar_code_point: "a < b \<longleftrightarrow> code_point a < code_point b" for a b :: uchar
  by transfer simp

lemma less_eq_uchar_code_point: "a \<le> b \<longleftrightarrow> code_point a \<le> code_point b" for a b :: uchar
  by transfer simp

end
