(* ===== verification/Host_Registry.thy ===== *)
theory Host_Registry
  imports Agent_Link Btree_Map Str_Order
begin

text \<open>
  The hosts a hub knows (\<open>src/http_server/hosts/registry.rs\<close>), the identity a host advertises
  (\<open>identity.rs\<close>) and the admission of an agent (\<open>listener.rs\<close>). The table is an ordered map under
  a lock; every operation between two acquisitions of the lock is a step, and steps of several connections may
  interleave. Links are references into a store of \<open>AgentLink\<close>s. Times are the wall clock in milliseconds.
\<close>

section \<open>Identity\<close>

record HostInfo =
  info_name :: rstring
  info_machine_id :: rstring
  info_version :: rstring
  info_kernel :: "rstring option"
  info_arch :: rstring

definition ALL_HOSTS :: rstring where "ALL_HOSTS = lit ''all''"

text \<open>\<open>u8::is_ascii_alphanumeric\<close>.\<close>

definition ascii_alphanumeric :: "u8 \<Rightarrow> bool" where
  "ascii_alphanumeric b \<longleftrightarrow> 48 \<le> b \<and> b \<le> 57 \<or> 65 \<le> b \<and> b \<le> 90 \<or> 97 \<le> b \<and> b \<le> 122"

definition valid_host_name :: "rstring \<Rightarrow> bool" where
  "valid_host_name name \<longleftrightarrow>
     1 \<le> length (as_bytes name) \<and> length (as_bytes name) \<le> 63
     \<and> list_all (\<lambda>b. ascii_alphanumeric b \<or> b = 46 \<or> b = 95 \<or> b = 45) (as_bytes name)
     \<and> name \<noteq> ALL_HOSTS"

text \<open>\<open>read_identity_text\<close>; the content of the files is the argument.\<close>

definition read_identity_text :: "(rstring \<Rightarrow> rstring option) \<Rightarrow> rstring \<Rightarrow> rstring option" where
  "read_identity_text files path =
     (case files path of
        None \<Rightarrow> None
      | Some value \<Rightarrow> (let value = trim value in if value \<noteq> [] then Some value else None))"

text \<open>\<open>replace('\<close>U+2591\<open>', "")\<close>.\<close>

definition without_mask :: "rstring \<Rightarrow> rstring" where
  "without_mask = filter (\<lambda>c. c \<noteq> chr 0x2591)"

definition mask_identity :: "(rstring \<Rightarrow> rstring) \<Rightarrow> HostInfo \<Rightarrow> HostInfo" where
  "mask_identity conceal info = info
     \<lparr>info_name := lit ''host-'' @ without_mask (conceal (info_name info)),
      info_machine_id := without_mask (conceal (info_machine_id info))\<rparr>"

text \<open>\<open>privacy\<close> holds the pseudonym function in privacy mode.\<close>

definition protect_remote :: "(rstring \<Rightarrow> rstring) option \<Rightarrow> HostInfo \<Rightarrow> HostInfo" where
  "protect_remote privacy info = (case privacy of Some pseudonym \<Rightarrow> mask_identity pseudonym info | None \<Rightarrow> info)"

definition local_info ::
  "(rstring \<Rightarrow> rstring option) \<Rightarrow> (rstring \<Rightarrow> rstring) option \<Rightarrow> rstring \<Rightarrow> rstring \<Rightarrow> rstring option \<Rightarrow> HostInfo"
where
  "local_info files privacy version arch name =
     (let machine_id = (case read_identity_text files (lit ''/etc/machine-id'') of
            Some v \<Rightarrow> v
          | None \<Rightarrow> (case read_identity_text files (lit ''/proc/sys/kernel/random/boot_id'') of Some v \<Rightarrow> v | None \<Rightarrow> []));
          fallback = (case privacy of
            Some pseudonym \<Rightarrow> Some (lit ''host-'' @ without_mask (pseudonym machine_id))
          | None \<Rightarrow> read_identity_text files (lit ''/proc/sys/kernel/hostname'')) in
      \<lparr>info_name = (case name of Some v \<Rightarrow> v
         | None \<Rightarrow> (case fallback of Some v \<Rightarrow> v | None \<Rightarrow> lit ''localhost'')),
       info_machine_id = (case privacy of Some pseudonym \<Rightarrow> without_mask (pseudonym machine_id) | None \<Rightarrow> machine_id),
       info_version = version,
       info_kernel = read_identity_text files (lit ''/proc/sys/kernel/osrelease''),
       info_arch = arch\<rparr>)"

section \<open>The table\<close>

definition HOST_LIMIT :: nat where "HOST_LIMIT = 64"
definition OFFLINE_RETENTION_MS :: nat where "OFFLINE_RETENTION_MS = 10 * 60 * 1000"

datatype HostStatus = Online nat | Offline nat

record HostSummary =
  sum_name :: rstring
  sum_local :: bool
  sum_status :: HostStatus
  sum_machine_id :: rstring
  sum_version :: rstring
  sum_kernel :: "rstring option"
  sum_arch :: rstring

record Remote =
  rem_info :: HostInfo
  rem_status :: HostStatus
  rem_link :: "(u64 \<times> nat) option"

datatype RemoteHost = OnlineHost nat | OfflineHost | UnknownHost

record HostRegistry =
  reg_local :: HostInfo
  reg_started :: nat
  reg_hosts :: "(rstring \<times> Remote) list"
  reg_links :: u64
  reg_changes :: u64

datatype admit_error = InvalidName | OwnName | AnotherMachine | TooManyHosts

definition HostRegistry_new :: "HostInfo \<Rightarrow> nat \<Rightarrow> HostRegistry" where
  "HostRegistry_new local_host now =
     \<lparr>reg_local = local_host, reg_started = now, reg_hosts = [], reg_links = 0, reg_changes = 0\<rparr>"

definition notify_change :: "HostRegistry \<Rightarrow> HostRegistry" where
  "notify_change r = r\<lparr>reg_changes := reg_changes r + 1\<rparr>"

definition remote :: "HostRegistry \<Rightarrow> rstring \<Rightarrow> RemoteHost" where
  "remote r name =
     (case map_of (reg_hosts r) name of
        Some host \<Rightarrow> (case rem_link host of Some (_, link) \<Rightarrow> OnlineHost link | None \<Rightarrow> OfflineHost)
      | None \<Rightarrow> UnknownHost)"

definition online :: "HostRegistry \<Rightarrow> (rstring \<times> nat) list" where
  "online r = List.map_filter (\<lambda>(name, host). map_option (\<lambda>(_, link). (name, link)) (rem_link host)) (reg_hosts r)"

definition retained :: "nat \<Rightarrow> Remote \<Rightarrow> bool" where
  "retained now host = (case rem_status host of
     Offline since \<Rightarrow> now - since < OFFLINE_RETENTION_MS
   | Online _ \<Rightarrow> True)"

definition prune :: "nat \<Rightarrow> HostRegistry \<Rightarrow> HostRegistry" where
  "prune now r =
     (let hosts = bt_retain (\<lambda>_. retained now) (reg_hosts r); r' = r\<lparr>reg_hosts := hosts\<rparr> in
      if length hosts \<noteq> length (reg_hosts r) then notify_change r' else r')"

definition summary :: "HostInfo \<Rightarrow> bool \<Rightarrow> HostStatus \<Rightarrow> HostSummary" where
  "summary info is_local status = \<lparr>sum_name = info_name info, sum_local = is_local, sum_status = status,
     sum_machine_id = info_machine_id info, sum_version = info_version info, sum_kernel = info_kernel info,
     sum_arch = info_arch info\<rparr>"

definition summaries :: "nat \<Rightarrow> HostRegistry \<Rightarrow> HostSummary list \<times> HostRegistry" where
  "summaries now r =
     (let r = prune now r in
      (summary (reg_local r) True (Online (reg_started r))
         # map (\<lambda>(_, host). summary (rem_info host) False (rem_status host)) (reg_hosts r), r))"

text \<open>\<open>admit\<close> in the parts between which other connections may run: the checks that need no lock, the pruning,
  drawing a link number, and the insertion, which closes the link it replaces.\<close>

definition admit_checks :: "HostInfo \<Rightarrow> HostRegistry \<Rightarrow> admit_error + unit" where
  "admit_checks info r =
     (if \<not> valid_host_name (info_name info) then Inl InvalidName
      else if info_name info = info_name (reg_local r) then Inl OwnName
      else Inr ())"

definition draw_link :: "HostRegistry \<Rightarrow> u64 \<times> HostRegistry" where
  "draw_link r = (reg_links r + 1, r\<lparr>reg_links := reg_links r + 1\<rparr>)"

type_synonym link_store = "nat \<Rightarrow> AgentLink"

definition close_link :: "nat option \<Rightarrow> link_store \<Rightarrow> link_store" where
  "close_link link store = (case link of Some l \<Rightarrow> store(l := link_close (store l)) | None \<Rightarrow> store)"

definition admit_insert ::
  "nat \<Rightarrow> u64 \<Rightarrow> HostInfo \<Rightarrow> nat \<Rightarrow> HostRegistry \<times> link_store \<Rightarrow> (admit_error + u64) \<times> HostRegistry \<times> link_store"
where
  "admit_insert now lid info link = (\<lambda>(r, store).
     let name = info_name info; before = map_of (reg_hosts r) name;
         refused = (case before of
           Some host \<Rightarrow> if rem_link host \<noteq> None \<and> info_machine_id (rem_info host) \<noteq> info_machine_id info
             then Some AnotherMachine else None
         | None \<Rightarrow> if HOST_LIMIT \<le> length (reg_hosts r) then Some TooManyHosts else None) in
     case refused of
       Some e \<Rightarrow> (Inl e, r, store)
     | None \<Rightarrow>
         (let r = r\<lparr>reg_hosts := bt_insert name \<lparr>rem_info = info, rem_status = Online now, rem_link = Some (lid, link)\<rparr> (reg_hosts r)\<rparr>;
              store = close_link (map_option snd (Option.bind before rem_link)) store in
          (Inr lid, notify_change r, store)))"

definition admit ::
  "nat \<Rightarrow> nat \<Rightarrow> HostInfo \<Rightarrow> nat \<Rightarrow> HostRegistry \<times> link_store \<Rightarrow> (admit_error + u64) \<times> HostRegistry \<times> link_store"
where
  "admit now_pruned now info link = (\<lambda>(r, store).
     case admit_checks info r of
       Inl e \<Rightarrow> (Inl e, r, store)
     | Inr _ \<Rightarrow>
         (let (lid, r) = draw_link (prune now_pruned r) in admit_insert now lid info link (r, store)))"

definition disconnected :: "nat \<Rightarrow> rstring \<Rightarrow> u64 \<Rightarrow> HostRegistry \<times> link_store \<Rightarrow> HostRegistry \<times> link_store" where
  "disconnected now name lid = (\<lambda>(r, store).
     case map_of (reg_hosts r) name of
       None \<Rightarrow> (r, store)
     | Some host \<Rightarrow>
         (case rem_link host of
            None \<Rightarrow> (r, store)
          | Some (current, link) \<Rightarrow>
              if current \<noteq> lid then (r, store)
              else
                (notify_change (r\<lparr>reg_hosts := bt_insert name (host\<lparr>rem_link := None, rem_status := Offline now\<rparr>) (reg_hosts r)\<rparr>),
                 close_link (Some link) store)))"

definition is_current :: "HostRegistry \<Rightarrow> rstring \<Rightarrow> u64 \<Rightarrow> bool" where
  "is_current r name lid \<longleftrightarrow>
     (case map_of (reg_hosts r) name of
        None \<Rightarrow> False
      | Some host \<Rightarrow> (case rem_link host of None \<Rightarrow> False | Some (current, _) \<Rightarrow> current = lid))"

section \<open>Serving an agent\<close>

datatype handshake_error = HelloFailed | NotHello | UnsupportedProtocol u32 | TokenMismatch | InvalidAgentName
  | NotAdmitted admit_error | WelcomeFailed

text \<open>
  \<open>accept_agent_handshake\<close>: \<open>hello\<close> is the first message, if one arrived in time; \<open>written\<close> tells whether
  writing the answer succeeded.
\<close>

definition accept_agent_handshake ::
  "(rstring \<Rightarrow> rstring) option \<Rightarrow> rstring option \<Rightarrow> nat \<Rightarrow> nat \<Rightarrow> Message option \<Rightarrow> bool \<Rightarrow> nat
   \<Rightarrow> HostRegistry \<times> link_store \<Rightarrow> (handshake_error + rstring \<times> u64) \<times> HostRegistry \<times> link_store"
where
  "accept_agent_handshake privacy token now_pruned now hello written link s =
     (case hello of
        None \<Rightarrow> (Inl HelloFailed, s)
      | Some (HelloMessage h) \<Rightarrow>
          (let info = \<lparr>info_name = hello_host h, info_machine_id = hello_machine_id h, info_version = hello_version h,
                 info_kernel = hello_kernel h, info_arch = hello_arch h\<rparr> in
           if hello_protocol h \<noteq> PROTOCOL then (Inl (UnsupportedProtocol (hello_protocol h)), s)
           else if (case token of None \<Rightarrow> False
               | Some expected \<Rightarrow> \<not> same_secret expected (case hello_token h of Some t \<Rightarrow> t | None \<Rightarrow> []))
           then (Inl TokenMismatch, s)
           else if \<not> valid_host_name (info_name info) then (Inl InvalidAgentName, s)
           else
             (let info = protect_remote privacy info; (admitted, s) = admit now_pruned now info link s in
              case admitted of
                Inl e \<Rightarrow> (Inl (NotAdmitted e), s)
              | Inr lid \<Rightarrow> if written then (Inr (info_name info, lid), s) else (Inl WelcomeFailed, s)))
      | Some _ \<Rightarrow> (Inl NotHello, s))"

text \<open>
  \<open>serve_agent\<close>: \<open>relay\<close> stands for what happens to the registry and the links while messages are relayed.
  When it returns, the reading end of the link's queue is gone.
\<close>

definition drop_receiver :: "nat \<Rightarrow> link_store \<Rightarrow> link_store" where
  "drop_receiver link store = store(link := (store link)\<lparr>al_receiver := False\<rparr>)"

definition serve_agent ::
  "(rstring \<Rightarrow> rstring) option \<Rightarrow> rstring option \<Rightarrow> nat \<Rightarrow> nat \<Rightarrow> Message option \<Rightarrow> bool \<Rightarrow> nat
   \<Rightarrow> (HostRegistry \<times> link_store \<Rightarrow> HostRegistry \<times> link_store) \<Rightarrow> nat
   \<Rightarrow> HostRegistry \<times> link_store \<Rightarrow> (handshake_error + unit) \<times> HostRegistry \<times> link_store"
where
  "serve_agent privacy token now_pruned now hello written link relay later s =
     (let (r, store) = s; s = (r, store(link := AgentLink_new)) in
      case accept_agent_handshake privacy token now_pruned now hello written link s of
        (Inl e, r, store) \<Rightarrow> (Inl e, r, drop_receiver link store)
      | (Inr (name, lid), s) \<Rightarrow>
          (let (r, store) = relay s; (r, store) = disconnected later name lid (r, drop_receiver link store) in
           (Inr (), r, close_link (Some link) store)))"

section \<open>Interleaved connections\<close>

record hub =
  hub_registry :: HostRegistry
  hub_store :: link_store
  hub_drawn :: "u64 set"

inductive hub_step :: "hub \<Rightarrow> hub \<Rightarrow> bool" where
  pruning: "hub_step h (h\<lparr>hub_registry := prune now (hub_registry h)\<rparr>)"
| drawing: "draw_link (hub_registry h) = (lid, r) \<Longrightarrow>
    hub_step h (h\<lparr>hub_registry := r, hub_drawn := insert lid (hub_drawn h)\<rparr>)"
| inserting: "lid \<in> hub_drawn h \<Longrightarrow> admit_checks info (hub_registry h) = Inr () \<Longrightarrow>
    admit_insert now lid info link (hub_registry h, hub_store h) = (res, r, store) \<Longrightarrow>
    hub_step h (h\<lparr>hub_registry := r, hub_store := store, hub_drawn := hub_drawn h - {lid}\<rparr>)"
| leaving: "disconnected now name lid (hub_registry h, hub_store h) = (r, store) \<Longrightarrow>
    hub_step h (h\<lparr>hub_registry := r, hub_store := store\<rparr>)"
| link_event: "hub_step h (h\<lparr>hub_store := (hub_store h)(link := link_step event (hub_store h link))\<rparr>)"
| new_link: "hub_step h (h\<lparr>hub_store := (hub_store h)(link := AgentLink_new)\<rparr>)"

inductive reaches :: "nat \<Rightarrow> hub \<Rightarrow> bool" where
  start: "reaches 0 \<lparr>hub_registry = HostRegistry_new local_host now, hub_store = store, hub_drawn = {}\<rparr>"
| step: "reaches n h \<Longrightarrow> hub_step h h' \<Longrightarrow> reaches (Suc n) h'"

section \<open>The invariant\<close>

definition host_ok :: "HostRegistry \<Rightarrow> rstring \<Rightarrow> Remote \<Rightarrow> bool" where
  "host_ok r name host \<longleftrightarrow> info_name (rem_info host) = name \<and> valid_host_name name \<and> name \<noteq> info_name (reg_local r)
     \<and> (rem_link host \<noteq> None \<longleftrightarrow> (\<exists>since. rem_status host = Online since))"

definition registry_ok :: "HostRegistry \<Rightarrow> bool" where
  "registry_ok r \<longleftrightarrow> bt_ok (reg_hosts r) \<and> length (reg_hosts r) \<le> HOST_LIMIT
     \<and> (\<forall>name host. map_of (reg_hosts r) name = Some host \<longrightarrow> host_ok r name host)"

text \<open>The link numbers in the table.\<close>

definition link_number :: "HostRegistry \<Rightarrow> rstring \<Rightarrow> u64 option" where
  "link_number r name = Option.bind (map_of (reg_hosts r) name) (\<lambda>host. map_option fst (rem_link host))"

definition numbers_ok :: "nat \<Rightarrow> hub \<Rightarrow> bool" where
  "numbers_ok n h \<longleftrightarrow> unat (reg_links (hub_registry h)) \<le> n
     \<and> (\<forall>lid \<in> hub_drawn h. unat lid \<le> unat (reg_links (hub_registry h)))
     \<and> (\<forall>name lid. link_number (hub_registry h) name = Some lid \<longrightarrow> unat lid \<le> unat (reg_links (hub_registry h)) \<and> lid \<notin> hub_drawn h)
     \<and> (\<forall>name name' lid. link_number (hub_registry h) name = Some lid \<and> link_number (hub_registry h) name' = Some lid \<longrightarrow> name = name')"

lemma notify_simps [simp]:
  "reg_hosts (notify_change r) = reg_hosts r" "reg_local (notify_change r) = reg_local r"
  "reg_links (notify_change r) = reg_links r"
  by (simp_all add: notify_change_def)

lemma registry_ok_cong: "reg_hosts r' = reg_hosts r \<Longrightarrow> reg_local r' = reg_local r \<Longrightarrow> registry_ok r' = registry_ok r"
  by (simp add: registry_ok_def host_ok_def)

lemma prune_simps [simp]:
  "reg_hosts (prune now r) = bt_retain (\<lambda>_. retained now) (reg_hosts r)" "reg_local (prune now r) = reg_local r"
  "reg_links (prune now r) = reg_links r"
  by (simp_all add: prune_def Let_def)

lemma map_of_prune:
  assumes "bt_ok (reg_hosts r)"
  shows "map_of (reg_hosts (prune now r)) k =
    (case map_of (reg_hosts r) k of Some v \<Rightarrow> if retained now v then Some v else None | None \<Rightarrow> None)"
  using bt.get_retain [OF assms, of "\<lambda>_. retained now" k] by simp

lemma registry_ok_prune:
  assumes "registry_ok r"
  shows "registry_ok (prune now r)"
proof -
  have ok: "bt_ok (reg_hosts r)" and limit: "length (reg_hosts r) \<le> HOST_LIMIT"
    and hosts: "map_of (reg_hosts r) k = Some v \<Longrightarrow> host_ok r k v" for k v
    using assms by (simp_all add: registry_ok_def)
  have "bt_ok (reg_hosts (prune now r))" using bt.valid_retain [OF ok] by simp
  moreover have "length (reg_hosts (prune now r)) \<le> HOST_LIMIT"
    using bt.size_retain [OF ok, of "\<lambda>_. retained now"] limit by simp
  moreover have "host_ok (prune now r) k v" if "map_of (reg_hosts (prune now r)) k = Some v" for k v
    using that hosts [of k v] by (simp only: map_of_prune [OF ok]) (simp add: host_ok_def split: option.splits if_splits)
  ultimately show ?thesis by (simp only: registry_ok_def) blast
qed

lemma registry_ok_insert:
  assumes "registry_ok r" "host_ok r name host" "map_of (reg_hosts r) name = None \<Longrightarrow> length (reg_hosts r) < HOST_LIMIT"
  shows "registry_ok (r\<lparr>reg_hosts := bt_insert name host (reg_hosts r)\<rparr>)"
proof -
  have ok: "bt_ok (reg_hosts r)" and limit: "length (reg_hosts r) \<le> HOST_LIMIT"
    and hosts: "map_of (reg_hosts r) k = Some v \<Longrightarrow> host_ok r k v" for k v
    using assms(1) by (simp_all add: registry_ok_def)
  let ?r = "r\<lparr>reg_hosts := bt_insert name host (reg_hosts r)\<rparr>"
  have "bt_ok (reg_hosts ?r)" using bt.valid_insert [OF ok] by simp
  moreover have "length (reg_hosts ?r) \<le> HOST_LIMIT" using bt.size_insert [OF ok, of name host] limit assms(3) by (simp add: Suc_le_eq)
  moreover have "host_ok ?r k v" if "map_of (reg_hosts ?r) k = Some v" for k v
    using that hosts [of k v] assms(2) bt.get_insert [OF ok, of name host] by (simp add: host_ok_def split: if_splits)
  ultimately show ?thesis by (simp only: registry_ok_def) blast
qed

lemma link_number_insert:
  assumes "bt_ok (reg_hosts r)"
  shows "link_number (r\<lparr>reg_hosts := bt_insert name host (reg_hosts r)\<rparr>) k =
    (if k = name then map_option fst (rem_link host) else link_number r k)"
  by (simp add: link_number_def bt.get_insert [OF assms])

lemma link_number_notify [simp]: "link_number (notify_change r) = link_number r"
  by (simp add: link_number_def fun_eq_iff)

lemma link_number_prune:
  assumes "bt_ok (reg_hosts r)" "link_number (prune now r) k = Some lid"
  shows "link_number r k = Some lid"
proof -
  show ?thesis using assms(2) unfolding link_number_def map_of_prune [OF assms(1)]
    by (simp split: option.splits if_splits)
qed

text \<open>What the insertion does, by cases.\<close>

lemma admit_insert_cases:
  assumes "admit_insert now lid info link (r, store) = (res, r', store')"
  obtains (refused) e where "res = Inl e" "r' = r" "store' = store"
  | (admitted) "res = Inr lid"
      "r' = notify_change (r\<lparr>reg_hosts := bt_insert (info_name info) \<lparr>rem_info = info, rem_status = Online now, rem_link = Some (lid, link)\<rparr> (reg_hosts r)\<rparr>)"
      "store' = close_link (map_option snd (Option.bind (map_of (reg_hosts r) (info_name info)) rem_link)) store"
      "map_of (reg_hosts r) (info_name info) = None \<Longrightarrow> length (reg_hosts r) < HOST_LIMIT"
  using assms by (auto simp: admit_insert_def Let_def split: option.splits if_splits)

lemma disconnected_cases:
  assumes "disconnected now name lid (r, store) = (r', store')"
  obtains (ignored) "r' = r" "store' = store"
  | (offline) host link where "map_of (reg_hosts r) name = Some host" "rem_link host = Some (lid, link)"
      "r' = notify_change (r\<lparr>reg_hosts := bt_insert name (host\<lparr>rem_link := None, rem_status := Offline now\<rparr>) (reg_hosts r)\<rparr>)"
      "store' = close_link (Some link) store"
  using assms by (auto simp: disconnected_def split: option.splits if_splits)

lemma registry_ok_admit:
  assumes "registry_ok r" "admit_checks info r = Inr ()" "admit_insert now lid info link (r, store) = (res, r', store')"
  shows "registry_ok r'"
  using assms(3)
proof (cases rule: admit_insert_cases)
  case admitted
  have "host_ok r (info_name info) \<lparr>rem_info = info, rem_status = Online now, rem_link = Some (lid, link)\<rparr>"
    using assms(2) by (auto simp: host_ok_def admit_checks_def split: if_splits)
  from registry_ok_insert [OF assms(1) this admitted(4)] show ?thesis
    unfolding admitted(2) by (subst registry_ok_cong) simp_all
qed (use assms(1) in simp)

lemma registry_ok_disconnected:
  assumes "registry_ok r" "disconnected now name lid (r, store) = (r', store')"
  shows "registry_ok r'"
  using assms(2)
proof (cases rule: disconnected_cases)
  case (offline host link)
  have "host_ok r name host" using assms(1) offline(1) by (simp add: registry_ok_def)
  then have "host_ok r name (host\<lparr>rem_link := None, rem_status := Offline now\<rparr>)" by (simp add: host_ok_def)
  from registry_ok_insert [OF assms(1) this] show ?thesis
    unfolding offline(3) using offline(1) by (subst registry_ok_cong) simp_all
qed (use assms(1) in simp)

lemma registry_ok_step:
  assumes "hub_step h h'" "registry_ok (hub_registry h)"
  shows "registry_ok (hub_registry h')"
  using assms
proof (induction rule: hub_step.induct)
  case (drawing h lid r)
  then show ?case by (subst registry_ok_cong [of _ "hub_registry h"]) (auto simp: draw_link_def)
qed (auto simp: registry_ok_prune intro: registry_ok_admit registry_ok_disconnected)

lemma registry_ok_new: "registry_ok (HostRegistry_new local_host now)"
  by (simp add: registry_ok_def HostRegistry_new_def bt_ok_def)

lemma registry_ok_reaches: "reaches n h \<Longrightarrow> registry_ok (hub_registry h)"
  by (induction rule: reaches.induct) (auto simp: registry_ok_new intro: registry_ok_step)

lemma numbers_ok_mono:
  assumes "numbers_ok n h" "reg_links (hub_registry h') = reg_links (hub_registry h)" "hub_drawn h' = hub_drawn h"
    and "\<And>name lid. link_number (hub_registry h') name = Some lid \<Longrightarrow> link_number (hub_registry h) name = Some lid"
  shows "numbers_ok (Suc n) h'"
  unfolding numbers_ok_def assms(2,3)
proof (intro conjI)
  show "unat (reg_links (hub_registry h)) \<le> Suc n" using assms(1) by (simp add: numbers_ok_def)
  show "\<forall>lid\<in>hub_drawn h. unat lid \<le> unat (reg_links (hub_registry h))" using assms(1) by (simp add: numbers_ok_def)
  show "\<forall>name lid. link_number (hub_registry h') name = Some lid \<longrightarrow> unat lid \<le> unat (reg_links (hub_registry h)) \<and> lid \<notin> hub_drawn h"
    using assms(1,4) unfolding numbers_ok_def by blast
  show "\<forall>name name' lid. link_number (hub_registry h') name = Some lid \<and> link_number (hub_registry h') name' = Some lid \<longrightarrow> name = name'"
    using assms(1,4) unfolding numbers_ok_def by blast
qed

lemma numbers_ok_draw:
  assumes "numbers_ok n h" "n + 1 < 2 ^ 64" "draw_link (hub_registry h) = (lid, r)"
  shows "numbers_ok (Suc n) (h\<lparr>hub_registry := r, hub_drawn := insert lid (hub_drawn h)\<rparr>)"
proof -
  have r: "lid = reg_links (hub_registry h) + 1" "reg_links r = lid" "link_number r = link_number (hub_registry h)"
    using assms(3) by (auto simp: draw_link_def link_number_def fun_eq_iff)
  have "unat (reg_links (hub_registry h)) + 1 < 2 ^ 64" using assms(1,2) by (simp add: numbers_ok_def)
  then have u: "unat lid = Suc (unat (reg_links (hub_registry h)))" unfolding r(1) by (simp add: unat_word_ariths)
  have old: "unat k < unat lid" if "link_number (hub_registry h) name = Some k" for name k
    using assms(1) that by (auto simp: numbers_ok_def u less_Suc_eq_le)
  have fresh: "link_number (hub_registry h) name \<noteq> Some lid" for name using old by blast
  show ?thesis unfolding numbers_ok_def
  proof (simp add: r(2,3) u, intro conjI)
    show "unat (reg_links (hub_registry h)) \<le> n" using assms(1) by (simp add: numbers_ok_def)
    show "\<forall>k\<in>hub_drawn h. unat k \<le> Suc (unat (reg_links (hub_registry h)))"
      using assms(1) by (auto simp: numbers_ok_def le_SucI)
    show "\<forall>name k. link_number (hub_registry h) name = Some k \<longrightarrow>
        unat k \<le> Suc (unat (reg_links (hub_registry h))) \<and> k \<noteq> lid \<and> k \<notin> hub_drawn h"
      using assms(1) fresh unfolding numbers_ok_def by (metis le_SucI)
    show "\<forall>name name'. (\<exists>k. link_number (hub_registry h) name = Some k \<and> link_number (hub_registry h) name' = Some k) \<longrightarrow> name = name'"
      using assms(1) unfolding numbers_ok_def by blast
  qed
qed

lemma numbers_ok_admit:
  assumes "numbers_ok n h" "registry_ok (hub_registry h)" "lid \<in> hub_drawn h"
    and "admit_insert now lid info link (hub_registry h, hub_store h) = (res, r, store)"
  shows "numbers_ok (Suc n) (h\<lparr>hub_registry := r, hub_store := store, hub_drawn := hub_drawn h - {lid}\<rparr>)"
proof -
  have ok: "bt_ok (reg_hosts (hub_registry h))" using assms(2) by (simp add: registry_ok_def)
  have n: "unat lid \<le> unat (reg_links (hub_registry h))" "unat (reg_links (hub_registry h)) \<le> n"
    "\<forall>k\<in>hub_drawn h. unat k \<le> unat (reg_links (hub_registry h))"
    using assms(1,3) unfolding numbers_ok_def by blast+
  have old: "unat m \<le> unat (reg_links (hub_registry h)) \<and> m \<notin> hub_drawn h" if "link_number (hub_registry h) k = Some m" for k m
    using assms(1) that unfolding numbers_ok_def by blast
  have inj: "k = k'" if "link_number (hub_registry h) k = Some m" "link_number (hub_registry h) k' = Some m" for k k' m
    using assms(1) that unfolding numbers_ok_def by blast
  have fresh: "link_number (hub_registry h) k \<noteq> Some lid" for k using old assms(3) by blast
  from assms(4) show ?thesis
  proof (cases rule: admit_insert_cases)
    case (refused e)
    then show ?thesis using n old inj unfolding numbers_ok_def by auto
  next
    case admitted
    have "link_number r k = (if k = info_name info then Some lid else link_number (hub_registry h) k)" for k
      unfolding admitted(2) link_number_notify by (subst link_number_insert [OF ok]) simp
    moreover have "reg_links r = reg_links (hub_registry h)" by (simp add: admitted(2))
    ultimately show ?thesis
      using n old inj fresh unfolding numbers_ok_def by (auto split: if_splits)
  qed
qed

lemma numbers_ok_step:
  assumes "hub_step h h'" "numbers_ok n h" "registry_ok (hub_registry h)" "n + 1 < 2 ^ 64"
  shows "numbers_ok (Suc n) h'"
  using assms
proof (induction rule: hub_step.induct)
  case (pruning h now)
  then have "bt_ok (reg_hosts (hub_registry h))" by (simp add: registry_ok_def)
  then show ?case by (intro numbers_ok_mono [OF pruning(1)]) (auto dest: link_number_prune)
next
  case (drawing h lid r)
  then show ?case by (intro numbers_ok_draw)
next
  case (inserting lid h info now link res r store)
  then show ?case by (intro numbers_ok_admit)
next
  case (leaving now name lid h r store)
  have ok: "bt_ok (reg_hosts (hub_registry h))" using leaving(3) by (simp add: registry_ok_def)
  from leaving(1) have "reg_links r = reg_links (hub_registry h) \<and>
      (\<forall>k m. link_number r k = Some m \<longrightarrow> link_number (hub_registry h) k = Some m)"
  proof (cases rule: disconnected_cases)
    case (offline host link)
    then show ?thesis by (auto simp: link_number_insert [OF ok] split: if_splits)
  qed simp
  then show ?case by (intro numbers_ok_mono [OF leaving(2)]) auto
next
  case (link_event h link event)
  then show ?case by (intro numbers_ok_mono [OF link_event(1)]) auto
next
  case (new_link h link)
  then show ?case by (intro numbers_ok_mono [OF new_link(1)]) auto
qed

lemma numbers_ok_reaches: "reaches n h \<Longrightarrow> n < 2 ^ 64 \<Longrightarrow> numbers_ok n h"
proof (induction rule: reaches.induct)
  case (start local_host now store)
  then show ?case by (simp add: numbers_ok_def HostRegistry_new_def link_number_def)
next
  case (step n h h')
  then show ?case using registry_ok_reaches [OF step(1)] by (intro numbers_ok_step [OF step(2)]) auto
qed

section \<open>Properties\<close>

text \<open>C23: however the operations of concurrent connections interleave, the host table stays consistent: at most 64
  hosts in strict name order, each under its own valid name, which is not the hub's; a host is online exactly when it
  has a link; and (within the first 2^64 steps) no link number serves two hosts, is still to be inserted or
  exceeds the counter, so that numbers identify connections.\<close>

theorem host_registry_invariant:
  assumes "reaches n h" "n < 2 ^ 64"
  shows "sorted_wrt (<) (map fst (reg_hosts (hub_registry h))) \<and> length (reg_hosts (hub_registry h)) \<le> 64
    \<and> (\<forall>name host. map_of (reg_hosts (hub_registry h)) name = Some host \<longrightarrow>
        info_name (rem_info host) = name \<and> valid_host_name name \<and> name \<noteq> info_name (reg_local (hub_registry h))
        \<and> (rem_link host \<noteq> None \<longleftrightarrow> (\<exists>since. rem_status host = Online since)))
    \<and> (\<forall>name lid. link_number (hub_registry h) name = Some lid \<longrightarrow>
        lid \<notin> hub_drawn h \<and> unat lid \<le> unat (reg_links (hub_registry h))
        \<and> (\<forall>name'. link_number (hub_registry h) name' = Some lid \<longrightarrow> name = name'))"
proof -
  have "registry_ok (hub_registry h)" using assms(1) by (rule registry_ok_reaches)
  moreover have "numbers_ok n h" using assms by (rule numbers_ok_reaches)
  ultimately show ?thesis unfolding registry_ok_def numbers_ok_def bt_ok_def host_ok_def HOST_LIMIT_def by blast
qed

definition sample_host :: "string \<Rightarrow> string \<Rightarrow> HostInfo" where
  "sample_host name machine = \<lparr>info_name = lit name, info_machine_id = lit machine, info_version = [], info_kernel = None,
     info_arch = lit ''x86_64''\<rparr>"

definition sample_hub :: hub where
  "sample_hub = \<lparr>hub_registry = \<lparr>reg_local = sample_host ''hub'' ''h'', reg_started = 0,
       reg_hosts = [(lit ''b'', \<lparr>rem_info = sample_host ''b'' ''m1'', rem_status = Online 5, rem_link = Some (1, 0)\<rparr>)],
       reg_links = 2, reg_changes = 1\<rparr>,
     hub_store = (\<lambda>_. AgentLink_new), hub_drawn = {2}\<rparr>"

lemma sample_name: "valid_host_name (lit ''b'')"
  by (simp add: valid_host_name_def lit_map_ch as_bytes_def utf8_char_def ascii_alphanumeric_def ALL_HOSTS_def byte_of_def)

lemma sample_hub_reached: "reaches 3 sample_hub"
proof -
  let ?r0 = "HostRegistry_new (sample_host ''hub'' ''h'') 0"
  let ?h0 = "\<lparr>hub_registry = ?r0, hub_store = \<lambda>_. AgentLink_new, hub_drawn = {}\<rparr>"
  let ?h1 = "?h0\<lparr>hub_registry := ?r0\<lparr>reg_links := 1\<rparr>, hub_drawn := {1}\<rparr>"
  let ?h2 = "?h1\<lparr>hub_registry := (hub_registry sample_hub)\<lparr>reg_links := 1\<rparr>, hub_drawn := {}\<rparr>"
  have names: "lit ''b'' \<noteq> lit ''hub''" by (simp add: lit_eq_iff)
  have 0: "reaches 0 ?h0" by (rule reaches.start)
  have 1: "hub_step ?h0 ?h1" using hub_step.drawing [of ?h0 1 "?r0\<lparr>reg_links := 1\<rparr>"] by (simp add: draw_link_def HostRegistry_new_def)
  have 2: "hub_step ?h1 ?h2"
    using hub_step.inserting [of 1 ?h1 "sample_host ''b'' ''m1''" 5 0 "Inr 1" "(hub_registry sample_hub)\<lparr>reg_links := 1\<rparr>" "\<lambda>_. AgentLink_new"]
      sample_name names
    by (simp add: admit_checks_def admit_insert_def HostRegistry_new_def sample_host_def sample_hub_def HOST_LIMIT_def
        notify_change_def close_link_def Let_def)
  have 3: "hub_step ?h2 sample_hub"
    using hub_step.drawing [of ?h2 2 "hub_registry sample_hub"] by (simp add: draw_link_def sample_hub_def)
  have "reaches (Suc (Suc (Suc 0))) sample_hub"
    by (rule reaches.step [OF reaches.step [OF reaches.step [OF 0 1] 2] 3])
  then show ?thesis by (simp add: numeral_3_eq_3)
qed

theorem host_registry_invariant_witness:
  "reaches 3 sample_hub \<and> length (reg_hosts (hub_registry sample_hub)) \<le> 64 \<and> valid_host_name (lit ''b'')"
  using host_registry_invariant [OF sample_hub_reached] sample_hub_reached
  by (auto simp: sample_hub_def)

text \<open>C22: a connected host keeps its name. While a host is connected, a connection from another machine under its name is
  refused and changes nothing. A connection from the same machine replaces it: the new link serves the name, the old
  one is closed, so that its waiting requests fail, and the later end of the old connection no longer affects the
  host.\<close>

theorem host_names_protected:
  assumes "reaches n h" "n < 2 ^ 64" "lid \<in> hub_drawn h"
    and "map_of (reg_hosts (hub_registry h)) (info_name info) = Some host" "rem_link host = Some (old, l)"
    and "admit_insert now lid info link (hub_registry h, hub_store h) = (res, r, store)"
  shows "if info_machine_id info = info_machine_id (rem_info host)
    then res = Inr lid \<and> remote r (info_name info) = OnlineHost link \<and> is_current r (info_name info) lid
      \<and> \<not> is_current r (info_name info) old \<and> al_pending (store l) = None
      \<and> disconnected later (info_name info) old (r, store) = (r, store)
    else res = Inl AnotherMachine \<and> r = hub_registry h \<and> store = hub_store h"
proof (cases "info_machine_id info = info_machine_id (rem_info host)")
  case False
  then show ?thesis using assms(4-6) by (auto simp: admit_insert_def Let_def)
next
  case True
  have ok: "bt_ok (reg_hosts (hub_registry h))"
    using registry_ok_reaches [OF assms(1)] by (simp add: registry_ok_def)
  have "link_number (hub_registry h) (info_name info) = Some old" by (simp add: link_number_def assms(4,5))
  then have "old \<notin> hub_drawn h" using numbers_ok_reaches [OF assms(1,2)] unfolding numbers_ok_def by blast
  then have new: "lid \<noteq> old" using assms(3) by blast
  have r: "res = Inr lid"
    "r = notify_change ((hub_registry h)\<lparr>reg_hosts := bt_insert (info_name info)
       \<lparr>rem_info = info, rem_status = Online now, rem_link = Some (lid, link)\<rparr> (reg_hosts (hub_registry h))\<rparr>)"
    "store = close_link (Some l) (hub_store h)"
    using assms(4-6) True by (auto simp: admit_insert_def Let_def)
  have "map_of (reg_hosts r) (info_name info) = Some \<lparr>rem_info = info, rem_status = Online now, rem_link = Some (lid, link)\<rparr>"
    by (simp add: r(2) bt.get_insert [OF ok])
  then show ?thesis using True r(1,3) new
    by (simp add: remote_def is_current_def disconnected_def close_link_def link_close_def)
qed

theorem host_names_protected_witness:
  "reaches 3 sample_hub \<and> fst (admit_insert 9 2 (sample_host ''b'' ''m2'') 1 (hub_registry sample_hub, hub_store sample_hub)) = Inl AnotherMachine"
proof -
  obtain res r store where a: "admit_insert 9 2 (sample_host ''b'' ''m2'') 1 (hub_registry sample_hub, hub_store sample_hub) = (res, r, store)"
    by (metis prod_cases3)
  have "map_of (reg_hosts (hub_registry sample_hub)) (info_name (sample_host ''b'' ''m2'')) =
      Some \<lparr>rem_info = sample_host ''b'' ''m1'', rem_status = Online 5, rem_link = Some (1, 0)\<rparr>" "2 \<in> hub_drawn sample_hub"
    by (simp_all add: sample_hub_def sample_host_def)
  from host_names_protected [OF sample_hub_reached _ this(2,1) _ a, of 1 0 0] have "res = Inl AnotherMachine"
    by (simp add: sample_host_def lit_eq_iff)
  then show ?thesis using sample_hub_reached by (simp only: a fst_conv simp_thms)
qed

text \<open>The stale entry a failed welcome leaves behind.\<close>

lemma admit_Inr:
  assumes "bt_ok (reg_hosts r)" "admit now_pruned now info link (r, store) = (Inr lid, r', store')"
  shows "map_of (reg_hosts r') (info_name info) = Some \<lparr>rem_info = info, rem_status = Online now, rem_link = Some (lid, link)\<rparr>"
    "bt_ok (reg_hosts r')"
proof -
  let ?r = "snd (draw_link (prune now_pruned r))"
  have hosts: "reg_hosts ?r = reg_hosts (prune now_pruned r)" by (simp add: draw_link_def)
  have ok: "bt_ok (reg_hosts ?r)" unfolding hosts using bt.valid_retain [OF assms(1)] by simp
  have ins: "admit_insert now (fst (draw_link (prune now_pruned r))) info link (?r, store) = (Inr lid, r', store')"
    using assms(2) by (auto simp: admit_def Let_def split: sum.splits prod.splits)
  from ins have "map_of (reg_hosts r') (info_name info) = Some \<lparr>rem_info = info, rem_status = Online now, rem_link = Some (lid, link)\<rparr>
      \<and> bt_ok (reg_hosts r')"
  proof (cases rule: admit_insert_cases)
    case admitted
    then show ?thesis by (simp add: bt.get_insert [OF ok] bt.valid_insert [OF ok])
  qed simp
  then show "map_of (reg_hosts r') (info_name info) = Some \<lparr>rem_info = info, rem_status = Online now, rem_link = Some (lid, link)\<rparr>"
    "bt_ok (reg_hosts r')" by simp_all
qed

lemma begin_request_gone: "\<not> al_receiver l \<Longrightarrow> \<exists>e. fst (begin_request request l) = Inl e"
  by (auto simp: begin_request_def Let_def try_send_def split: option.splits)

text \<open>If writing the welcome fails after an agent was admitted, the connection ends without leaving the registry.
  The host stays listed as online, pruning never removes it, every request to it fails at once, and other
  machines are refused the name.\<close>

theorem failed_welcome_stays_online:
  assumes "registry_ok r" "hello_protocol hello = PROTOCOL" "valid_host_name (hello_host hello)"
    and "token = None \<or> hello_token hello = token"
    and "admit now_pruned now \<lparr>info_name = hello_host hello, info_machine_id = hello_machine_id hello, info_version = hello_version hello,
        info_kernel = hello_kernel hello, info_arch = hello_arch hello\<rparr> link (r, store(link := AgentLink_new)) = (Inr lid, r', store')"
  shows "\<exists>after. serve_agent None token now_pruned now (Some (HelloMessage hello)) False link relay later (r, store) = (Inl WelcomeFailed, r', after)
    \<and> (\<forall>time. remote (prune time r') (hello_host hello) = OnlineHost link)
    \<and> (\<forall>request. \<exists>e. fst (begin_request request (after link)) = Inl e)
    \<and> (\<forall>time number info new s. info_name info = hello_host hello \<and> info_machine_id info \<noteq> hello_machine_id hello \<longrightarrow>
        fst (admit_insert time number info new (r', s)) = Inl AnotherMachine)"
proof -
  have ok: "bt_ok (reg_hosts r)" using assms(1) by (simp add: registry_ok_def)
  note host = admit_Inr [OF ok assms(5), simplified]
  have "same_secret t t" for t by (simp add: same_secret_def fold_or_zero zip_all_equal)
  then have "accept_agent_handshake None token now_pruned now (Some (HelloMessage hello)) False link (r, store(link := AgentLink_new))
      = (Inl WelcomeFailed, r', store')"
    using assms(2-5) by (auto simp: accept_agent_handshake_def protect_remote_def Let_def split: option.splits)
  then have served: "serve_agent None token now_pruned now (Some (HelloMessage hello)) False link relay later (r, store)
      = (Inl WelcomeFailed, r', drop_receiver link store')"
    by (simp add: serve_agent_def)
  have "remote (prune time r') (hello_host hello) = OnlineHost link" for time
    unfolding remote_def map_of_prune [OF host(2)] host(1) by (simp add: retained_def)
  moreover have "\<exists>e. fst (begin_request request (drop_receiver link store' link)) = Inl e" for request
    by (rule begin_request_gone) (simp add: drop_receiver_def)
  moreover have "fst (admit_insert time number info new (r', s)) = Inl AnotherMachine"
    if "info_name info = hello_host hello" "info_machine_id info \<noteq> hello_machine_id hello" for time number info new s
    using that host(1) by (simp add: admit_insert_def Let_def)
  ultimately show ?thesis using served by blast
qed

definition sample_hello :: Hello where
  "sample_hello = \<lparr>hello_protocol = PROTOCOL, hello_host = lit ''b'', hello_machine_id = lit ''m1'', hello_version = [],
     hello_kernel = None, hello_arch = lit ''x86_64'', hello_token = Some (lit ''t'')\<rparr>"

theorem failed_welcome_stays_online_witness:
  "\<exists>r after. serve_agent None (Some (lit ''t'')) 0 0 (Some (HelloMessage sample_hello)) False 0 (\<lambda>s. s) 1
      (HostRegistry_new (sample_host ''hub'' ''h'') 0, \<lambda>_. AgentLink_new) = (Inl WelcomeFailed, r, after)
    \<and> remote (prune 1000000 r) (lit ''b'') = OnlineHost 0"
proof -
  let ?r = "HostRegistry_new (sample_host ''hub'' ''h'') 0" and ?store = "\<lambda>_. AgentLink_new"
  have "lit ''b'' \<noteq> lit ''hub''" by (simp add: lit_eq_iff)
  then obtain lid r' store' where "admit 0 0 \<lparr>info_name = hello_host sample_hello, info_machine_id = hello_machine_id sample_hello,
      info_version = hello_version sample_hello, info_kernel = hello_kernel sample_hello, info_arch = hello_arch sample_hello\<rparr> 0
      (?r, ?store(0 := AgentLink_new)) = (Inr lid, r', store')"
    using sample_name
    by (simp add: admit_def admit_checks_def sample_hello_def sample_host_def HostRegistry_new_def draw_link_def prune_def bt_retain_def
        admit_insert_def HOST_LIMIT_def Let_def)
  from failed_welcome_stays_online [OF registry_ok_new _ _ _ this, of "Some (lit ''t'')" "\<lambda>s. s" 1] sample_name
  show ?thesis by (auto simp: sample_hello_def)
qed

end
