(* ===== verification/Kernel_Records.thy ===== *)
theory Kernel_Records
  imports Ipc_Activity Ipc_Process Bytes Text
begin

text \<open>
  Values in the kernel's own representation: device numbers (\<open>src/ipc/model/resource.rs\<close>), scheduler policies
  and CPU lists (\<open>src/ipc/model/threads.rs\<close>), the keys of CPU counters (\<open>src/ipc/activity.rs\<close>) and the
  fixed-layout records of the BPF programs (\<open>src/privileged_helper/bpf_records.rs\<close>). The clock ticks per second,
  which the system configures, are the argument \<open>ticks\<close>.
\<close>

section \<open>Strings from bytes\<close>

text \<open>
  \<open>String::from_utf8_lossy\<close>: every maximal prefix of a character that is not completed, and every other
  invalid byte, becomes U+FFFD.
\<close>

definition second_ok :: "byte \<Rightarrow> byte \<Rightarrow> bool" where
  "second_ok b0 b1 \<longleftrightarrow>
     (if unat b0 = 0xE0 then 0xA0 \<le> unat b1 \<and> unat b1 \<le> 0xBF
      else if unat b0 = 0xED then 0x80 \<le> unat b1 \<and> unat b1 \<le> 0x9F
      else if unat b0 = 0xF0 then 0x90 \<le> unat b1 \<and> unat b1 \<le> 0xBF
      else if unat b0 = 0xF4 then 0x80 \<le> unat b1 \<and> unat b1 \<le> 0x8F
      else 0xE0 \<le> unat b0 \<and> unat b0 < 0xF4 \<and> continuation b1)"

definition invalid_length :: "byte list \<Rightarrow> nat" where
  "invalid_length d = (case d of
     b0 # b1 # rest \<Rightarrow>
       if second_ok b0 b1 then
         (case rest of b2 # _ \<Rightarrow> if 0xF0 \<le> unat b0 \<and> continuation b2 then 3 else 2 | [] \<Rightarrow> 2)
       else 1
   | _ \<Rightarrow> 1)"

lemma invalid_length_pos: "0 < invalid_length d"
  by (auto simp: invalid_length_def split: list.splits)

function from_utf8_lossy :: "byte list \<Rightarrow> rstring" where
  "from_utf8_lossy d =
     (if d = [] then []
      else case utf8_next d of
        Some (n, d') \<Rightarrow> chr n # from_utf8_lossy d'
      | None \<Rightarrow> chr 0xFFFD # from_utf8_lossy (drop (invalid_length d) d))"
  by pat_completeness auto
termination
  by (relation "measure length") (auto dest: utf8_next_shorter simp: invalid_length_pos)

declare from_utf8_lossy.simps [simp del]

lemma from_utf8_lossy_valid: "from_utf8 d = Some s \<Longrightarrow> from_utf8_lossy d = s"
proof (induction d arbitrary: s rule: from_utf8.induct)
  case (1 d)
  show ?case
  proof (cases "d = []")
    case False
    then obtain n d' t where "utf8_next d = Some (n, d')" "from_utf8 d' = Some t" "s = chr n # t"
      using "1.prems" by (subst (asm) from_utf8.simps) (auto split: option.splits)
    then show ?thesis using "1.IH" [of "(n, d')" n d' t] False by (subst from_utf8_lossy.simps) simp
  qed (use "1.prems" in \<open>simp add: from_utf8.simps from_utf8_lossy.simps\<close>)
qed

lemma from_utf8_lossy_as_bytes [simp]: "from_utf8_lossy (as_bytes s) = s"
  by (rule from_utf8_lossy_valid) simp

section \<open>Devices, policies and CPU lists\<close>

definition DeviceId_from_kernel :: "u64 \<Rightarrow> DeviceId" where
  "DeviceId_from_kernel device =
     \<lparr>dev_major = ucast (drop_bit 20 device), dev_minor = ucast (device AND (push_bit 20 1 - 1))\<rparr>"

definition SchedulerPolicy_from_code :: "u32 \<Rightarrow> SchedulerPolicy" where
  "SchedulerPolicy_from_code code =
     (if code = 0 then SchedulerPolicy.Other
      else if code = 1 then SchedulerPolicy.Fifo
      else if code = 2 then SchedulerPolicy.Rr
      else if code = 3 then SchedulerPolicy.Batch
      else if code = 5 then SchedulerPolicy.Idle
      else if code = 6 then SchedulerPolicy.Deadline
      else if code = 7 then SchedulerPolicy.Ext
      else SchedulerPolicy.Unknown code)"

definition parse_cpu_range :: "rstring \<Rightarrow> CpuRange option" where
  "parse_cpu_range item =
     (let (start, stop) = (case split_once (ch CHR ''-'') item of Some p \<Rightarrow> p | None \<Rightarrow> (item, item)) in
      Option.bind (parse_u32 start) (\<lambda>start.
      Option.bind (parse_u32 stop) (\<lambda>stop.
      if start \<le> stop then Some \<lparr>range_start = start, range_end = stop\<rparr> else None)))"

definition parse_cpu_affinity :: "rstring \<Rightarrow> CpuRange list option" where
  "parse_cpu_affinity text = those (map parse_cpu_range (split_char (ch CHR '','') text))"

text \<open>The kernel's list format.\<close>

definition cpu_range_text :: "CpuRange \<Rightarrow> rstring" where
  "cpu_range_text r = (if range_start r = range_end r then show_dec (unat (range_start r))
     else show_dec (unat (range_start r)) @ [ch CHR ''-''] @ show_dec (unat (range_end r)))"

fun cpu_list_text :: "CpuRange list \<Rightarrow> rstring" where
  "cpu_list_text [] = []"
| "cpu_list_text [r] = cpu_range_text r"
| "cpu_list_text (r # rs) = cpu_range_text r @ [ch CHR '',''] @ cpu_list_text rs"

lemma show_dec_char: "c \<in> set (show_dec n) \<Longrightarrow> c \<noteq> ch CHR ''-'' \<and> c \<noteq> ch CHR '',''"
  using show_dec_separators by blast

lemma parse_cpu_range_text:
  assumes "range_start r \<le> range_end r"
  shows "parse_cpu_range (cpu_range_text r) = Some r"
  using assms show_dec_char [of "ch CHR ''-''"]
  by (cases r) (auto simp: parse_cpu_range_def cpu_range_text_def split_once_append split_once_absent)

lemma cpu_range_text_no_comma: "ch CHR '','' \<notin> set (cpu_range_text r)"
  using show_dec_char [of "ch CHR '',''"] by (auto simp: cpu_range_text_def)

lemma parse_cpu_list_text:
  assumes "rs \<noteq> []" "list_all (\<lambda>r. range_start r \<le> range_end r) rs"
  shows "parse_cpu_affinity (cpu_list_text rs) = Some rs"
  using assms
proof (induction rs rule: cpu_list_text.induct)
  case (2 r)
  then show ?case by (simp add: parse_cpu_affinity_def split_char_absent cpu_range_text_no_comma parse_cpu_range_text)
next
  case (3 r r' rs)
  then show ?case
    by (simp add: parse_cpu_affinity_def split_char_append cpu_range_text_no_comma parse_cpu_range_text)
qed simp

section \<open>Records\<close>

definition start_ticks :: "nat \<Rightarrow> u64 \<Rightarrow> u64" where
  "start_ticks ticks start = word_of_nat (unat start * ticks div 1000000000)"

definition decode_file :: "nat \<Rightarrow> byte list \<Rightarrow> FileActivity option" where
  "decode_file ticks data =
     (if length data \<noteq> 4144 then None
      else
        (let bytes = word_at data 24 in
         if bytes = 0 \<or> (word_at data 36 :: u32) > 1 then None
         else
           (let len = unat (word_at data 40 :: u32);
                path = (if 2 \<le> len \<and> len \<le> 4096 \<and> data ! (48 + len - 1) = 0
                  then Some (from_utf8_lossy (slice 48 (48 + len - 1) data)) else None) in
            Some \<lparr>fa_process_id = \<lparr>pid_pid = word_at data 32, pid_start_time_ticks = start_ticks ticks (word_at data 0)\<rparr>,
              fa_file = \<lparr>fileid_device = DeviceId_from_kernel (word_at data 16), fileid_inode = word_at data 8,
                fileid_generation = word_at data 44\<rparr>,
              fa_path = path, fa_write = ((word_at data 36 :: u32) \<noteq> 0), fa_bytes = bytes, fa_count = 1\<rparr>)))"

definition decode_ipc :: "byte list \<Rightarrow> IpcEvent option" where
  "decode_ipc bytes =
     (if length bytes \<noteq> 56 then None
      else Some \<lparr>ie_start = word_at bytes 8, ie_inode = word_at bytes 16, ie_device = word_at bytes 24,
        ie_bytes = word_at bytes 32, ie_pid = word_at bytes 40, ie_kind = word_at bytes 44,
        ie_write = ((word_at bytes 48 :: u32) \<noteq> 0), ie_worker = ((word_at bytes 52 :: u32) \<noteq> 0)\<rparr>)"

definition decode_signal :: "byte list \<Rightarrow> SignalSample option" where
  "decode_signal bytes =
     (if length bytes \<noteq> 40 then None
      else Some \<lparr>sig_timestamp_ns = word_at bytes 0, sig_src_start = word_at bytes 8, sig_dst_start = word_at bytes 16,
        sig_src_pid = word_at bytes 24, sig_dst_pid = word_at bytes 28, sig_signal = word_at bytes 32\<rparr>)"

section \<open>Keys of CPU counters\<close>

definition u32_at :: "byte list \<Rightarrow> nat \<Rightarrow> u32 option" where
  "u32_at bytes offset = map_option from_ne_bytes (get_slice offset (offset + 4) bytes)"

definition u64_at :: "byte list \<Rightarrow> nat \<Rightarrow> u64 option" where
  "u64_at bytes offset = map_option from_ne_bytes (get_slice offset (offset + 8) bytes)"

definition process_key :: "byte list \<Rightarrow> ProcessKey option" where
  "process_key bytes =
     Option.bind (u64_at bytes 0) (\<lambda>start.
     Option.bind (u32_at bytes 8) (\<lambda>pid.
     Some \<lparr>key_start = start, key_pid = pid\<rparr>))"

section \<open>The layout of the records\<close>

definition file_record :: "u64 \<Rightarrow> u64 \<Rightarrow> u64 \<Rightarrow> u64 \<Rightarrow> u32 \<Rightarrow> u32 \<Rightarrow> u32 \<Rightarrow> u32 \<Rightarrow> byte list \<Rightarrow> byte list" where
  "file_record start inode device bytes pid rw len generation path =
     to_ne_bytes start @ to_ne_bytes inode @ to_ne_bytes device @ to_ne_bytes bytes
     @ to_ne_bytes pid @ to_ne_bytes rw @ to_ne_bytes len @ to_ne_bytes generation @ path"

definition ipc_record :: "u64 \<Rightarrow> IpcEvent \<Rightarrow> byte list" where
  "ipc_record timestamp e =
     to_ne_bytes timestamp @ to_ne_bytes (ie_start e) @ to_ne_bytes (ie_inode e) @ to_ne_bytes (ie_device e)
     @ to_ne_bytes (ie_bytes e) @ to_ne_bytes (ie_pid e) @ to_ne_bytes (ie_kind e)
     @ to_ne_bytes (if ie_write e then 1 else 0 :: u32) @ to_ne_bytes (if ie_worker e then 1 else 0 :: u32)"

definition signal_record :: "u32 \<Rightarrow> SignalSample \<Rightarrow> byte list" where
  "signal_record unused s =
     to_ne_bytes (sig_timestamp_ns s) @ to_ne_bytes (sig_src_start s) @ to_ne_bytes (sig_dst_start s)
     @ to_ne_bytes (sig_src_pid s) @ to_ne_bytes (sig_dst_pid s) @ to_ne_bytes (sig_signal s) @ to_ne_bytes unused"

lemma word_at_skip:
  "length pre \<le> offset \<Longrightarrow> word_at (pre @ rest) offset = word_at rest (offset - length pre)"
  using word_at_append [of pre rest "offset - length pre"] by simp

lemma word_at_first:
  "8 dvd LENGTH('a) \<Longrightarrow> word_at (to_ne_bytes (w :: 'a::len word) @ rest) 0 = w"
  "8 dvd LENGTH('a) \<Longrightarrow> word_at (to_ne_bytes (w :: 'a::len word)) 0 = w"
  using word_at_here [of "[]" 0 w rest] word_at_here [of "[]" 0 w "[]"] by simp_all

lemmas layout = word_at_skip word_at_first

lemma decode_ipc_record: "decode_ipc (ipc_record timestamp e) = Some e"
  by (cases e) (simp add: decode_ipc_def ipc_record_def layout)

lemma decode_signal_record: "decode_signal (signal_record unused s) = Some s"
  by (cases s) (simp add: decode_signal_def signal_record_def layout)

lemma decode_file_record:
  assumes "bytes \<noteq> 0" "rw \<le> 1" "length path = 4096"
  shows "decode_file ticks (file_record start inode device bytes pid rw len generation path) =
    Some \<lparr>fa_process_id = \<lparr>pid_pid = pid, pid_start_time_ticks = start_ticks ticks start\<rparr>,
      fa_file = \<lparr>fileid_device = DeviceId_from_kernel device, fileid_inode = inode, fileid_generation = generation\<rparr>,
      fa_path = (if 2 \<le> unat len \<and> unat len \<le> 4096 \<and> path ! (unat len - 1) = 0
        then Some (from_utf8_lossy (take (unat len - 1) path)) else None),
      fa_write = (rw = 1), fa_bytes = bytes, fa_count = 1\<rparr>"
proof -
  let ?head = "to_ne_bytes start @ to_ne_bytes inode @ to_ne_bytes device @ to_ne_bytes bytes
     @ to_ne_bytes pid @ to_ne_bytes rw @ to_ne_bytes len @ to_ne_bytes generation"
  let ?data = "file_record start inode device bytes pid rw len generation path"
  have data: "?data = ?head @ path" by (simp add: file_record_def)
  have head: "length ?head = 48" by simp
  have words: "word_at ?data 0 = start" "word_at ?data 8 = inode" "word_at ?data 16 = device" "word_at ?data 24 = bytes"
    "word_at ?data 32 = pid" "word_at ?data 36 = rw" "word_at ?data 40 = len" "word_at ?data 44 = generation"
    by (simp_all add: file_record_def layout)
  have path: "?data ! (48 + n - 1) = path ! (n - 1)" "slice 48 (48 + n - 1) ?data = take (n - 1) path" if "2 \<le> n" for n
  proof -
    have n: "48 + n - 1 = 48 + (n - 1)" using that by simp
    show "?data ! (48 + n - 1) = path ! (n - 1)"
      using nth_append_length_plus [of ?head path "n - 1"] by (simp only: n data head)
    show "slice 48 (48 + n - 1) ?data = take (n - 1) path"
      using slice_append [of ?head 0 "n - 1" path] by (simp only: n data head) (simp add: slice_def)
  qed
  have "rw = 0 \<or> rw = 1"
  proof -
    have "unat rw \<le> 1" using assms(2) by (simp add: word_le_nat_alt)
    then have "unat rw = 0 \<or> unat rw = 1" by linarith
    then show ?thesis by (simp add: word_unat_eq_iff)
  qed
  moreover have "length ?data = 4144" by (simp add: data assms(3))
  ultimately show ?thesis
    unfolding decode_file_def Let_def words using assms(1,2) path [of "unat len"] by auto
qed

lemma decode_size:
  "length data \<noteq> 4144 \<Longrightarrow> decode_file ticks data = None" "length data \<noteq> 56 \<Longrightarrow> decode_ipc data = None"
  "length data \<noteq> 40 \<Longrightarrow> decode_signal data = None"
  by (simp_all add: decode_file_def decode_ipc_def decode_signal_def)

section \<open>Properties\<close>

text \<open>The records of the BPF programs are decoded field by field. IPC and signal records of the documented layout
  give back the event; a file record gives the process, file, direction and size, and its path exactly when the
  path fits the buffer and ends in a NUL byte; records of any other size are refused.\<close>

theorem bpf_records_decoded:
  assumes "bytes \<noteq> 0" "rw \<le> 1" "path \<noteq> []" "length (as_bytes path) < 4096"
    and "unat len = length (as_bytes path) + 1" "length (as_bytes path @ 0 # fill) = 4096"
  shows "decode_file ticks (file_record start inode device bytes pid rw len generation (as_bytes path @ 0 # fill)) =
      Some \<lparr>fa_process_id = \<lparr>pid_pid = pid, pid_start_time_ticks = start_ticks ticks start\<rparr>,
        fa_file = \<lparr>fileid_device = DeviceId_from_kernel device, fileid_inode = inode, fileid_generation = generation\<rparr>,
        fa_path = Some path, fa_write = (rw = 1), fa_bytes = bytes, fa_count = 1\<rparr>
    \<and> decode_ipc (ipc_record timestamp e) = Some e \<and> decode_signal (signal_record unused s) = Some s
    \<and> (\<forall>data. length data \<noteq> 4144 \<longrightarrow> decode_file ticks data = None)
    \<and> (\<forall>data. length data \<noteq> 56 \<longrightarrow> decode_ipc data = None) \<and> (\<forall>data. length data \<noteq> 40 \<longrightarrow> decode_signal data = None)"
proof -
  obtain c cs where "path = c # cs" using assms(3) by (cases path) auto
  then have "1 \<le> length (as_bytes path)" using utf8_char_nonempty [of c] by (simp add: as_bytes_def Suc_le_eq)
  then show ?thesis
    using assms decode_file_record [OF assms(1,2,6), of ticks start inode device pid len generation]
    by (simp add: decode_ipc_record decode_signal_record decode_size)
qed

theorem bpf_records_decoded_witness:
  "\<exists>fill. fa_path (the (decode_file 100 (file_record 5000000000 7 0x800001 512 42 1 3 9 (as_bytes (lit ''/a'') @ 0 # fill))))
     = Some (lit ''/a'')"
proof -
  have n: "length (as_bytes (lit ''/a'')) = 2" by (simp add: lit_map_ch as_bytes_def utf8_char_def)
  have "lit ''/a'' \<noteq> []" by (simp add: lit_map_ch)
  from bpf_records_decoded [OF _ _ this, of 512 1 3 "replicate 4093 0" 100 5000000000 7 "0x800001" 42 9]
  show ?thesis by (intro exI [of _ "replicate 4093 0"]) (simp add: n)
qed

end
