(* ===== verification/Activity.thy ===== *)
theory Activity
  imports Kernel_Records "HOL-Library.AList"
begin

text \<open>
  Activity derived from kernel observations (\<open>src/http_server/analysis/activity.rs\<close>). A \<open>HashMap\<close> is an
  association list with distinct keys; the order in which it is iterated is not specified, and the theorems speak of
  entries by key. \<open>known\<close> is the map of the known processes by pid.
\<close>

section \<open>Files\<close>

type_synonym file_key = "ProcessId \<times> FileIdentity \<times> bool"

definition MAX_AGGREGATES :: nat where "MAX_AGGREGATES = 8192"

record FileBatch =
  fb_events :: "(file_key \<times> FileActivity) list"
  fb_dropped :: u64

definition FileBatch_default :: FileBatch where
  "FileBatch_default = \<lparr>fb_events = [], fb_dropped = 0\<rparr>"

definition file_key :: "FileActivity \<Rightarrow> file_key" where
  "file_key e = (fa_process_id e, fa_file e, fa_write e)"

definition FileBatch_add :: "FileActivity \<Rightarrow> FileBatch \<Rightarrow> FileBatch" where
  "FileBatch_add e b =
     (case map_of (fb_events b) (file_key e) of
        Some prior \<Rightarrow> b\<lparr>fb_events := AList.update (file_key e) (prior
          \<lparr>fa_bytes := saturating_add (fa_bytes prior) (fa_bytes e),
           fa_count := saturating_add (fa_count prior) (fa_count e),
           fa_path := (if fa_path e \<noteq> None then fa_path e else fa_path prior)\<rparr>) (fb_events b)\<rparr>
      | None \<Rightarrow>
          if length (fb_events b) < MAX_AGGREGATES then b\<lparr>fb_events := AList.update (file_key e) e (fb_events b)\<rparr>
          else b\<lparr>fb_dropped := fb_dropped b + 1\<rparr>)"

section \<open>Signals\<close>

type_synonym known_processes = "i32 \<Rightarrow> ProcessId option"

definition resolve_signal :: "nat \<Rightarrow> SignalSample \<Rightarrow> known_processes \<Rightarrow> SignalEvent option" where
  "resolve_signal ticks sample known =
     Option.bind (known (sig_src_pid sample)) (\<lambda>source_id.
     Option.bind (known (sig_dst_pid sample)) (\<lambda>destination_id.
     if sint (sig_signal sample) \<le> 0 \<or> sint (sig_signal sample) > 64
       \<or> start_ticks ticks (sig_src_start sample) \<noteq> pid_start_time_ticks source_id
       \<or> start_ticks ticks (sig_dst_start sample) \<noteq> pid_start_time_ticks destination_id
     then None
     else Some \<lparr>se_timestamp_ns = sig_timestamp_ns sample, se_src_pid = sig_src_pid sample, se_dst_pid = sig_dst_pid sample,
       se_signal = sig_signal sample, se_source_id = source_id, se_destination_id = destination_id\<rparr>))"

section \<open>The processor\<close>

record ActivityBatch =
  ab_files :: "FileActivity list"
  ab_ipc :: "IpcActivity list"
  ab_signals :: "SignalEvent list"
  ab_cpu :: "CpuActivity list"
  ab_unresolved :: u64
  ab_files_dropped :: u64

type_synonym counters = "u64 \<times> u64"

record ActivityProcessor =
  ap_previous_cpu :: "ProcessKey \<Rightarrow> counters option"
  ap_previous_running :: "ProcessKey set"
  ap_unresolved :: u64

definition ActivityProcessor_default :: ActivityProcessor where
  "ActivityProcessor_default = \<lparr>ap_previous_cpu = (\<lambda>_. None), ap_previous_running = {}, ap_unresolved = 0\<rparr>"

text \<open>The loop over the IPC events: totals by process, resource and direction.\<close>

type_synonym ipc_key = "ProcessId \<times> IpcIdentity \<times> bool"

definition ipc_event ::
  "nat \<Rightarrow> known_processes \<Rightarrow> IpcEvent \<Rightarrow> (ipc_key \<times> counters) list \<times> u64 \<Rightarrow> (ipc_key \<times> counters) list \<times> u64"
where
  "ipc_event ticks known e = (\<lambda>(pending, unresolved).
     case known (ie_pid e) of
       Some pid \<Rightarrow>
         if \<not> ie_worker e \<and> start_ticks ticks (ie_start e) = pid_start_time_ticks pid then
           (let resource = \<lparr>ipcid_kind = (if ie_kind e = 1 then IpcKind.Pipe else IpcKind.Socket),
                  ipcid_device = DeviceId_from_kernel (ie_device e), ipcid_inode = ie_inode e\<rparr> in
            if 8192 \<le> length pending then (pending, unresolved + 1)
            else
              (let key = (pid, resource, ie_write e);
                   (bytes, count) = (case map_of pending key of Some c \<Rightarrow> c | None \<Rightarrow> (0, 0)) in
               (AList.update key (saturating_add bytes (ie_bytes e), count + 1) pending, unresolved)))
         else (pending, unresolved + 1)
     | None \<Rightarrow> (pending, unresolved + 1))"

text \<open>The CPUs a process runs on now, and the time since it was scheduled there.\<close>

definition slot_key :: "u64 \<Rightarrow> byte list \<Rightarrow> (ProcessKey \<times> u64) option" where
  "slot_key now slot =
     (case process_key slot of
        None \<Rightarrow> None
      | Some key \<Rightarrow>
          (let since = (case u64_at slot 16 of Some v \<Rightarrow> v | None \<Rightarrow> now) in
           if key_pid key = 0 \<or> since > now then None else Some (key, now - since)))"

fun running_slots ::
  "u64 \<Rightarrow> usize \<Rightarrow> byte list list \<Rightarrow> (ProcessKey \<times> usize list) list \<times> (ProcessKey \<times> u64) list
   \<Rightarrow> (ProcessKey \<times> usize list) list \<times> (ProcessKey \<times> u64) list"
where
  "running_slots now cpu [] (running, ongoing) = (running, ongoing)"
| "running_slots now cpu (slot # slots) (running, ongoing) =
     running_slots now (cpu + 1) slots
       (case slot_key now slot of
          None \<Rightarrow> (running, ongoing)
        | Some (key, time) \<Rightarrow>
            (AList.update key ((case map_of running key of Some cpus \<Rightarrow> cpus | None \<Rightarrow> []) @ [cpu]) running,
             AList.update key ((case map_of ongoing key of Some t \<Rightarrow> t | None \<Rightarrow> 0) + time) ongoing))"

text \<open>The cumulative counters of a process, over all CPUs and with the time of what runs now.\<close>

definition add_counters :: "counters \<Rightarrow> (u64, 2) rarray \<Rightarrow> counters" where
  "add_counters = (\<lambda>(runtime, switches) per_cpu.
     (saturating_add runtime (elems per_cpu ! 0), saturating_add switches (elems per_cpu ! 1)))"

definition add_total ::
  "byte list \<times> (u64, 2) rarray list \<Rightarrow> (ProcessKey \<times> counters) list \<Rightarrow> (ProcessKey \<times> counters) list"
where
  "add_total = (\<lambda>(key_bytes, values) cumulative.
     case process_key key_bytes of
       None \<Rightarrow> cumulative
     | Some key \<Rightarrow>
         AList.update key (foldl add_counters (case map_of cumulative key of Some c \<Rightarrow> c | None \<Rightarrow> (0, 0)) values) cumulative)"

definition add_ongoing :: "ProcessKey \<times> u64 \<Rightarrow> (ProcessKey \<times> counters) list \<Rightarrow> (ProcessKey \<times> counters) list" where
  "add_ongoing = (\<lambda>(key, runtime) cumulative.
     AList.update key (case map_of cumulative key of
        Some (sum_ns, switches) \<Rightarrow> (saturating_add sum_ns runtime, switches)
      | None \<Rightarrow> (runtime, 0)) cumulative)"

definition cumulative_counters :: "CpuCounters \<Rightarrow> (ProcessKey \<times> counters) list" where
  "cumulative_counters raw =
     (let ongoing = snd (running_slots (cc_now raw) 0 (cc_current raw) ([], [])) in
      fold add_ongoing ongoing (fold add_total (cc_totals raw) []))"

definition running_cpus :: "CpuCounters \<Rightarrow> ProcessKey \<Rightarrow> usize list" where
  "running_cpus raw key =
     (case map_of (fst (running_slots (cc_now raw) 0 (cc_current raw) ([], []))) key of Some cpus \<Rightarrow> cpus | None \<Rightarrow> [])"

definition key_identity :: "nat \<Rightarrow> ProcessKey \<Rightarrow> ProcessId" where
  "key_identity ticks key = \<lparr>pid_pid = key_pid key, pid_start_time_ticks = start_ticks ticks (key_start key)\<rparr>"

text \<open>The report on one key: the counters' growth since the previous round.\<close>

definition cpu_entry ::
  "nat \<Rightarrow> CpuCounters \<Rightarrow> known_processes \<Rightarrow> ActivityProcessor \<Rightarrow> ProcessKey \<times> counters \<Rightarrow> CpuActivity option"
where
  "cpu_entry ticks raw known p = (\<lambda>(key, sums).
     let identity = key_identity ticks key in
     if identity \<notin> ran known then None
     else
       (let previous = (case ap_previous_cpu p key of Some c \<Rightarrow> c | None \<Rightarrow> sums);
            runtime = saturating_sub (fst sums) (fst previous);
            switches = saturating_sub (snd sums) (snd previous);
            cpus = running_cpus raw key in
        if runtime > 0 \<or> switches > 0 \<or> cpus \<noteq> [] \<or> key \<in> ap_previous_running p
        then Some \<lparr>ca_process_id = identity, ca_runtime_ns = runtime, ca_switches = switches,
          ca_running_threads = word_of_nat (length cpus), ca_cpus = cpus\<rparr>
        else None))"

definition cpu :: "nat \<Rightarrow> CpuCounters \<Rightarrow> known_processes \<Rightarrow> ActivityProcessor \<Rightarrow> CpuActivity list \<times> ActivityProcessor" where
  "cpu ticks raw known p =
     (let cumulative = cumulative_counters raw;
          kept = filter (\<lambda>(key, sums). key_identity ticks key \<in> ran known) cumulative in
      (List.map_filter (cpu_entry ticks raw known p) cumulative,
       p\<lparr>ap_previous_cpu := map_of kept,
         ap_previous_running := {key \<in> fst ` set kept. running_cpus raw key \<noteq> []}\<rparr>))"

definition process ::
  "nat \<Rightarrow> RawActivity \<Rightarrow> known_processes \<Rightarrow> ActivityProcessor \<Rightarrow> ActivityBatch \<times> ActivityProcessor"
where
  "process ticks raw known p =
     (let files = fold FileBatch_add (raw_files raw) FileBatch_default;
          (pending, unresolved) = fold (ipc_event ticks known) (raw_ipc raw) ([], ap_unresolved p);
          ipc = map (\<lambda>((pid, resource, rw), (bytes, count)).
            \<lparr>ia_process_id = pid, ia_resource = resource, ia_write = rw, ia_bytes = bytes, ia_count = count\<rparr>) pending;
          signals = List.map_filter (\<lambda>sample. resolve_signal ticks sample known) (raw_signals raw);
          (activity, p) = cpu ticks (raw_cpu raw) known (p\<lparr>ap_unresolved := unresolved\<rparr>) in
      (\<lparr>ab_files = map snd (fb_events files), ab_ipc = ipc, ab_signals = signals, ab_cpu = activity,
        ab_unresolved = ap_unresolved p, ab_files_dropped = fb_dropped files\<rparr>, p))"

section \<open>Aggregation of files\<close>

text \<open>The keys in the order of their first events, and the specification of an aggregate: the events of a key
  summed up, with saturation, under the last path that was given.\<close>

definition first_keys :: "FileActivity list \<Rightarrow> file_key list" where
  "first_keys es = rev (remdups (rev (map file_key es)))"

definition kept_keys :: "FileActivity list \<Rightarrow> file_key list" where
  "kept_keys es = take MAX_AGGREGATES (first_keys es)"

definition saturated :: "nat list \<Rightarrow> u64" where
  "saturated ns = word_of_nat (min (2 ^ 64 - 1) (sum_list ns))"

definition last_path :: "FileActivity list \<Rightarrow> rstring option" where
  "last_path es = (let ps = filter (\<lambda>p. p \<noteq> None) (map fa_path es) in if ps = [] then None else last ps)"

definition aggregate :: "file_key \<Rightarrow> FileActivity list \<Rightarrow> FileActivity" where
  "aggregate = (\<lambda>(pid, file, rw) es.
     let own = filter (\<lambda>e. file_key e = (pid, file, rw)) es in
     \<lparr>fa_process_id = pid, fa_file = file, fa_path = last_path own, fa_write = rw,
      fa_bytes = saturated (map (unat \<circ> fa_bytes) own), fa_count = saturated (map (unat \<circ> fa_count) own)\<rparr>)"

lemma saturated_single: "saturated [unat (n :: u64)] = n"
proof -
  have "unat n \<le> 2 ^ 64 - 1" using unat_less_pow [of n] by simp
  then show ?thesis by (simp add: saturated_def min_absorb2)
qed

lemma saturated_snoc: "saturated (ns @ [unat n]) = saturating_add (saturated ns) n"
proof (rule word_unat_eq_iff [THEN iffD2])
  have u: "unat (saturated ms) = min (2 ^ 64 - 1) (sum_list ms)" for ms
    unfolding saturated_def by (rule unat_word_of_nat) (simp add: min_def)
  show "unat (saturated (ns @ [unat n])) = unat (saturating_add (saturated ns) n)"
    unfolding u unat_saturating_add by (simp add: min_def)
qed

lemma last_path_snoc: "last_path (es @ [e]) = (if fa_path e \<noteq> None then fa_path e else last_path es)"
  by (simp add: last_path_def)

lemma first_keys_snoc:
  "first_keys (es @ [e]) = (if file_key e \<in> file_key ` set es then first_keys es else first_keys es @ [file_key e])"
  by (simp add: first_keys_def)

lemma set_first_keys: "set (first_keys es) = file_key ` set es"
  by (simp add: first_keys_def)

lemma aggregate_other: "file_key e \<noteq> key \<Longrightarrow> aggregate key (es @ [e]) = aggregate key es"
  by (cases key) (simp add: aggregate_def)

lemma aggregate_first: "file_key e \<notin> file_key ` set es \<Longrightarrow> aggregate (file_key e) (es @ [e]) = e"
proof -
  assume "file_key e \<notin> file_key ` set es"
  then have "filter (\<lambda>x. file_key x = file_key e) es = []" by (auto simp: filter_empty_conv) (metis image_eqI)
  then show ?thesis using saturated_single [of "fa_bytes e"] saturated_single [of "fa_count e"]
    by (cases e) (simp add: aggregate_def file_key_def last_path_def)
qed

lemma aggregate_again:
  "aggregate (file_key e) (es @ [e]) = (aggregate (file_key e) es)
    \<lparr>fa_bytes := saturating_add (fa_bytes (aggregate (file_key e) es)) (fa_bytes e),
     fa_count := saturating_add (fa_count (aggregate (file_key e) es)) (fa_count e),
     fa_path := (if fa_path e \<noteq> None then fa_path e else fa_path (aggregate (file_key e) es))\<rparr>"
  by (cases "file_key e") (simp add: aggregate_def Let_def saturated_snoc last_path_snoc)

definition batch_of :: "FileActivity list \<Rightarrow> FileBatch" where
  "batch_of es = fold FileBatch_add es FileBatch_default"

definition lost_events :: "FileActivity list \<Rightarrow> FileActivity list" where
  "lost_events es = filter (\<lambda>e. file_key e \<notin> set (kept_keys es)) es"

lemma map_fst_update: "map fst (AList.update k v xs) = (if k \<in> fst ` set xs then map fst xs else map fst xs @ [k])"
  by (induction xs) auto

lemma batch_of_spec:
  "map fst (fb_events (batch_of es)) = kept_keys es
   \<and> (\<forall>key \<in> set (kept_keys es). map_of (fb_events (batch_of es)) key = Some (aggregate key es))
   \<and> fb_dropped (batch_of es) = word_of_nat (length (lost_events es))"
proof (induction es rule: rev_induct)
  case Nil
  then show ?case by (simp add: batch_of_def FileBatch_default_def kept_keys_def first_keys_def lost_events_def)
next
  case (snoc e es)
  let ?b = "batch_of es" and ?k = "file_key e"
  have b: "batch_of (es @ [e]) = FileBatch_add e ?b" by (simp add: batch_of_def)
  have keys: "map fst (fb_events ?b) = kept_keys es" using snoc by simp
  then have dom: "map_of (fb_events ?b) k = None \<longleftrightarrow> k \<notin> set (kept_keys es)" for k
    by (metis map_of_eq_None_iff set_map)
  have len: "length (fb_events ?b) = length (kept_keys es)" by (metis keys length_map)
  have sub: "set (kept_keys es) \<subseteq> file_key ` set es" using set_take_subset [of MAX_AGGREGATES "first_keys es"]
    by (simp add: kept_keys_def set_first_keys)
  consider (again) "?k \<in> set (kept_keys es)" | (new) "?k \<notin> file_key ` set es" "length (kept_keys es) < MAX_AGGREGATES"
    | (lost) "?k \<notin> set (kept_keys es)" "\<not> length (kept_keys es) < MAX_AGGREGATES"
  proof (cases "?k \<in> set (kept_keys es)")
    case False
    have "?k \<notin> file_key ` set es" if "length (kept_keys es) < MAX_AGGREGATES"
      using False that by (simp add: kept_keys_def flip: set_first_keys)
    then show ?thesis using False that by blast
  qed (use that in blast)
  then show ?case
  proof cases
    case again
    then have kept: "kept_keys (es @ [e]) = kept_keys es" using sub by (auto simp: kept_keys_def first_keys_snoc)
    obtain prior where prior: "map_of (fb_events ?b) ?k = Some prior" "prior = aggregate ?k es"
      using again snoc by auto
    have key: "?k \<in> fst ` set (fb_events ?b)" using prior(1) by (metis domI dom_map_of_conv_image_fst)
    show ?thesis
      unfolding b FileBatch_add_def prior(1) kept
      using snoc again prior(2) key
      by (auto simp: map_fst_update AList.update_conv' aggregate_again aggregate_other lost_events_def kept)
  next
    case new
    then have none: "map_of (fb_events ?b) ?k = None" using dom sub by auto
    then have key: "?k \<notin> fst ` set (fb_events ?b)" by (simp add: map_of_eq_None_iff)
    have kept: "kept_keys (es @ [e]) = kept_keys es @ [?k]"
      using new by (simp add: kept_keys_def first_keys_snoc)
    have "lost_events (es @ [e]) = lost_events es" using new sub by (auto simp: lost_events_def kept intro!: filter_cong) (metis image_eqI)
    then show ?thesis
      unfolding b FileBatch_add_def none kept
      using snoc new len key sub
      by (auto simp: map_fst_update AList.update_conv' aggregate_first aggregate_other)
  next
    case lost
    then have none: "map_of (fb_events ?b) ?k = None" using dom by auto
    have kept: "kept_keys (es @ [e]) = kept_keys es" using lost by (auto simp: kept_keys_def first_keys_snoc)
    have other: "aggregate key (es @ [e]) = aggregate key es" if "key \<in> set (kept_keys es)" for key
      using lost that by (intro aggregate_other) auto
    have "length (lost_events (es @ [e])) = Suc (length (lost_events es))" using lost by (simp add: lost_events_def kept)
    then show ?thesis
      unfolding b FileBatch_add_def none kept
      using snoc lost len by (auto simp: other add.commute)
  qed
qed

lemma map_snd_by_key:
  "distinct (map fst xs) \<Longrightarrow> (\<forall>k \<in> fst ` set xs. map_of xs k = Some (f k)) \<Longrightarrow> map snd xs = map f (map fst xs)"
proof (induction xs)
  case (Cons x xs)
  then have "\<forall>k \<in> fst ` set xs. map_of xs k = Some (f k)" by (auto split: if_splits) (metis fst_conv image_eqI)
  then show ?case using Cons by simp
qed simp

lemma process_files:
  "ab_files (fst (process ticks raw known p)) = map snd (fb_events (batch_of (raw_files raw)))"
  "ab_files_dropped (fst (process ticks raw known p)) = fb_dropped (batch_of (raw_files raw))"
  by (simp_all add: process_def batch_of_def Let_def split: prod.split)

section \<open>CPU time\<close>

text \<open>The runtime a round reports for a key.\<close>

definition reported :: "nat \<Rightarrow> CpuCounters \<Rightarrow> known_processes \<Rightarrow> ActivityProcessor \<Rightarrow> ProcessKey \<Rightarrow> nat" where
  "reported ticks raw known p key =
     (case map_of (cumulative_counters raw) key of
        None \<Rightarrow> 0
      | Some sums \<Rightarrow> (case cpu_entry ticks raw known p (key, sums) of None \<Rightarrow> 0 | Some a \<Rightarrow> unat (ca_runtime_ns a)))"

fun total_reported :: "nat \<Rightarrow> ProcessKey \<Rightarrow> (CpuCounters \<times> known_processes) list \<Rightarrow> ActivityProcessor \<Rightarrow> nat" where
  "total_reported ticks key [] p = 0"
| "total_reported ticks key ((raw, known) # rounds) p =
     reported ticks raw known p key + total_reported ticks key rounds (snd (cpu ticks raw known p))"

text \<open>The runtime of a key after some rounds, if it is counted and known in all of them and never decreases.\<close>

fun runtime_after :: "nat \<Rightarrow> ProcessKey \<Rightarrow> u64 \<Rightarrow> (CpuCounters \<times> known_processes) list \<Rightarrow> u64 option" where
  "runtime_after ticks key r [] = Some r"
| "runtime_after ticks key r ((raw, known) # rounds) =
     (case map_of (cumulative_counters raw) key of
        None \<Rightarrow> None
      | Some (runtime, switches) \<Rightarrow>
          if key_identity ticks key \<in> ran known \<and> r \<le> runtime then runtime_after ticks key runtime rounds else None)"

lemma map_of_filter_key: "map_of (filter (\<lambda>(k, v). P k) xs) key = (if P key then map_of xs key else None)"
  by (induction xs) auto

lemma cpu_previous:
  "ap_previous_cpu (snd (cpu ticks raw known p)) key =
     (if key_identity ticks key \<in> ran known then map_of (cumulative_counters raw) key else None)"
  by (simp add: cpu_def Let_def map_of_filter_key)

lemma reported_delta:
  assumes "map_of (cumulative_counters raw) key = Some (runtime, switches)" "key_identity ticks key \<in> ran known"
  shows "reported ticks raw known p key =
    unat runtime - unat (fst (case ap_previous_cpu p key of Some c \<Rightarrow> c | None \<Rightarrow> (runtime, switches)))"
proof -
  let ?before = "case ap_previous_cpu p key of Some c \<Rightarrow> c | None \<Rightarrow> (runtime, switches)"
  have "unat (saturating_sub runtime (fst ?before)) = 0" if "\<not> saturating_sub runtime (fst ?before) > 0"
    using that by (simp add: word_gt_0)
  then show ?thesis
    using assms unat_saturating_sub [of runtime "fst ?before"]
    by (simp add: reported_def cpu_entry_def Let_def)
qed

lemma runtime_after_mono: "runtime_after ticks key r rounds = Some r' \<Longrightarrow> unat r \<le> unat r'"
  by (induction ticks key r rounds rule: runtime_after.induct)
     (force simp: word_le_nat_alt split: option.splits prod.splits if_splits)+

lemma total_reported_known:
  assumes "ap_previous_cpu p key = Some (r, s)" "runtime_after ticks key r rounds = Some r'"
  shows "total_reported ticks key rounds p = unat r' - unat r"
  using assms
proof (induction rounds arbitrary: p r s)
  case (Cons x rounds)
  obtain raw known where x: "x = (raw, known)" by (cases x)
  obtain runtime switches where m: "map_of (cumulative_counters raw) key = Some (runtime, switches)"
    and k: "key_identity ticks key \<in> ran known" and le: "r \<le> runtime" and rest: "runtime_after ticks key runtime rounds = Some r'"
    using Cons.prems(2) by (auto simp: x split: option.splits if_splits)
  have "total_reported ticks key rounds (snd (cpu ticks raw known p)) = unat r' - unat runtime"
    using rest by (intro Cons.IH) (simp_all add: cpu_previous k m)
  moreover have "reported ticks raw known p key = unat runtime - unat r"
    using reported_delta [OF m k, of p] Cons.prems(1) by simp
  ultimately show ?case using runtime_after_mono [OF rest] le by (simp add: x word_le_nat_alt)
qed simp

lemma cpu_output: "cpu_entry ticks raw known p (key, sums) = Some a \<Longrightarrow> map_of (cumulative_counters raw) key = Some sums \<Longrightarrow>
    a \<in> set (fst (cpu ticks raw known p))"
  by (force simp: cpu_def Let_def List.map_filter_def dest: map_of_SomeD)

section \<open>Properties\<close>


text \<open>CPU time is reported exactly once. Over any number of rounds in which a process is known and its counters do not
  decrease, the reported runtimes of the process add up to the growth of its cumulative runtime since the first round, which only sets
  the baseline; a round that reports nothing for it had nothing to report.\<close>

theorem cpu_time_conserved:
  assumes "map_of (cumulative_counters raw) key = Some (r, s)" "key_identity ticks key \<in> ran known"
    and "runtime_after ticks key r rounds = Some r'"
  shows "total_reported ticks key ((raw, known) # rounds) ActivityProcessor_default = unat r' - unat r"
  using total_reported_known [OF _ assms(3), of "snd (cpu ticks raw known ActivityProcessor_default)" s]
    reported_delta [OF assms(1,2), of ActivityProcessor_default] assms(1,2)
  by (simp add: cpu_previous) (simp add: ActivityProcessor_default_def)

definition sample_counters :: "u64 \<Rightarrow> CpuCounters" where
  "sample_counters runtime = \<lparr>cc_now = 2000000000, cc_current = [],
     cc_totals = [(to_ne_bytes (1000000000 :: u64) @ to_ne_bytes (42 :: u32), [array_of [runtime, 2]])]\<rparr>"

definition sample_key :: ProcessKey where
  "sample_key = \<lparr>key_start = 1000000000, key_pid = 42\<rparr>"

definition sample_known :: known_processes where
  "sample_known = [42 \<mapsto> \<lparr>pid_pid = 42, pid_start_time_ticks = 100\<rparr>]"

lemma sample_cumulative: "map_of (cumulative_counters (sample_counters runtime)) sample_key = Some (runtime, 2)"
proof -
  let ?k = "to_ne_bytes (1000000000 :: u64) @ to_ne_bytes (42 :: u32)"
  have "u64_at ?k 0 = Some 1000000000" "u32_at ?k 8 = Some 42"
    using word_at_first(1) [of "1000000000 :: u64" "to_ne_bytes (42 :: u32)"] word_at_here [of "to_ne_bytes (1000000000 :: u64)" 8 "42 :: u32" "[]"]
    by (simp_all add: u64_at_def u32_at_def get_slice_def word_at_def)
  then have "process_key ?k = Some sample_key" by (simp add: process_key_def sample_key_def)
  moreover have "elems (array_of [runtime, 2] :: (u64, 2) rarray) = [runtime, 2]" by transfer simp
  moreover have "saturating_add 0 v = v" for v :: u64
    using unat_less_pow [of v] by (simp add: saturating_add_def)
  ultimately show ?thesis
    by (simp add: cumulative_counters_def sample_counters_def add_total_def add_counters_def)
qed

theorem cpu_time_conserved_witness:
  "total_reported 100 sample_key [(sample_counters 5, sample_known), (sample_counters 12, sample_known), (sample_counters 12, sample_known)]
     ActivityProcessor_default = 7"
proof -
  have "key_identity 100 sample_key = \<lparr>pid_pid = 42, pid_start_time_ticks = 100\<rparr>"
    by (simp add: key_identity_def sample_key_def start_ticks_def)
  then have known: "key_identity 100 sample_key \<in> ran sample_known" by (simp add: sample_known_def)
  have "runtime_after 100 sample_key 5 [(sample_counters 12, sample_known), (sample_counters 12, sample_known)] = Some 12"
    by (simp add: sample_cumulative known)
  from cpu_time_conserved [OF sample_cumulative known this] show ?thesis by simp
qed

end
