(* ===== verification/Correlate.thy ===== *)
theory Correlate
  imports Delivery Net_Addr Str_Order "HOL-Library.Product_Lexorder" "HOL-Library.Multiset"
begin

text \<open>
  Links between the sockets and RDMA queue pairs of different hosts
  (\<open>src/http_server/hosts/correlate.rs\<close>). Reading an entry of a snapshot into its type is the library's
  \<open>Deserialize\<close>: the readers are arguments. The iteration order of the hash maps does not matter, since the links are
  sorted; it is the order of first occurrence here.
\<close>

section \<open>Types\<close>

datatype LinkEnd = LinkEnd (le_host: rstring) (le_relation: rstring)

instantiation LinkEnd :: linorder
begin

definition less_eq_LinkEnd :: "LinkEnd \<Rightarrow> LinkEnd \<Rightarrow> bool" where
  "a \<le> b \<longleftrightarrow> (le_host a, le_relation a) \<le> (le_host b, le_relation b)"

definition less_LinkEnd :: "LinkEnd \<Rightarrow> LinkEnd \<Rightarrow> bool" where
  "a < b \<longleftrightarrow> (le_host a, le_relation a) < (le_host b, le_relation b)"

instance
  by standard (auto simp: less_eq_LinkEnd_def less_LinkEnd_def LinkEnd.expand)

end

record SocketLink =
  sl_a :: LinkEnd
  sl_b :: LinkEnd

record RdmaEvidence =
  ev_gid :: bool
  ev_cm :: bool

record RdmaLink =
  rl_a :: LinkEnd
  rl_b :: LinkEnd
  rl_evidence :: RdmaEvidence

record CrossHostLinks =
  chl_sockets :: "SocketLink list"
  chl_rdma :: "RdmaLink list"

record Address =
  addr_ip :: IpAddr
  addr_port :: u16

record Socket =
  sock_protocol :: rstring
  sock_local :: "Address option"
  sock_remote :: "Address option"
  sock_network_peer :: bool

record FdRelation =
  fd_id :: rstring
  fd_peer :: "json option"
  fd_shared :: bool
  fd_socket :: "Socket option"

record RdmaEndpoint =
  ep_device :: rstring
  ep_port :: "u32 option"
  ep_qpn :: u32
  ep_qp_type :: rstring

record CmInfo =
  cm_source :: "json option"
  cm_destination :: "json option"

record RdmaRelation =
  rd_id :: rstring
  rd_endpoint :: RdmaEndpoint
  rd_peer :: "json option"
  rd_remote_qpn :: "u32 option"
  rd_cm :: "CmInfo option"
  rd_remote_gid :: "rstring option"

record RdmaPort =
  port_device :: rstring
  port_port :: u32
  port_link_layer :: "rstring option"
  port_gid :: "rstring option"

record readers =
  read_fd :: "json \<Rightarrow> FdRelation option"
  read_rdma :: "json \<Rightarrow> RdmaRelation option"
  read_port :: "json \<Rightarrow> RdmaPort option"

type_synonym hosts = "(rstring \<times> json) list"

section \<open>Sockets\<close>

definition entries :: "(json \<Rightarrow> 'a option) \<Rightarrow> json \<Rightarrow> rstring \<Rightarrow> 'a list" where
  "entries reader snapshot name = List.map_filter reader (snapshot_array_entries (get snapshot name))"

text \<open>\<open>IpAddr::is_loopback\<close>.\<close>

fun is_loopback :: "IpAddr \<Rightarrow> bool" where
  "is_loopback (V4 ip) \<longleftrightarrow> hd (elems ip) = 127"
| "is_loopback (V6 ip) \<longleftrightarrow> elems ip = replicate 15 0 @ [1]"

definition is_routable_address :: "Address \<Rightarrow> bool" where
  "is_routable_address a \<longleftrightarrow> addr_port a \<noteq> 0 \<and> \<not> is_unspecified (addr_ip a) \<and> \<not> is_loopback (addr_ip a)"

type_synonym tuple = "rstring \<times> Address \<times> Address"

definition reverse_tuple :: "tuple \<Rightarrow> tuple" where
  "reverse_tuple = (\<lambda>(kind, local, remote). (kind, remote, local))"

text \<open>The body of the loop over the descriptors of a host: the tuple under which an end is entered.\<close>

definition socket_tuple :: "FdRelation \<Rightarrow> tuple option" where
  "socket_tuple relation =
     (case fd_socket relation of
        None \<Rightarrow> None
      | Some socket \<Rightarrow>
          if fd_peer relation \<noteq> None \<or> fd_shared relation \<or> \<not> sock_network_peer socket then None
          else (case (sock_local socket, sock_remote socket) of
              (Some local, Some remote) \<Rightarrow>
                if is_routable_address local \<and> is_routable_address remote
                then Some (sock_protocol socket, local, remote) else None
            | _ \<Rightarrow> None))"

definition socket_ends :: "readers \<Rightarrow> hosts \<Rightarrow> (tuple \<times> LinkEnd) list" where
  "socket_ends rs hosts = concat (map (\<lambda>(host, snapshot).
     List.map_filter (\<lambda>relation. map_option (\<lambda>t. (t, LinkEnd host (fd_id relation))) (socket_tuple relation))
       (entries (read_fd rs) snapshot (lit ''fd_relations''))) hosts)"

text \<open>\<open>by_tuple\<close>.\<close>

definition ends_of :: "(tuple \<times> LinkEnd) list \<Rightarrow> tuple \<Rightarrow> LinkEnd list" where
  "ends_of es t = map snd (filter (\<lambda>e. fst e = t) es)"

definition tuple_link :: "(tuple \<times> LinkEnd) list \<Rightarrow> tuple \<Rightarrow> SocketLink option" where
  "tuple_link es t =
     (case (ends_of es t, ends_of es (reverse_tuple t)) of
        ([a], [b]) \<Rightarrow> if a < b \<and> le_host a \<noteq> le_host b then Some \<lparr>sl_a = a, sl_b = b\<rparr> else None
      | _ \<Rightarrow> None)"

definition socket_links :: "readers \<Rightarrow> hosts \<Rightarrow> SocketLink list" where
  "socket_links rs hosts =
     (let es = socket_ends rs hosts in
      sort_key (\<lambda>l. (sl_a l, sl_b l)) (List.map_filter (tuple_link es) (remdups (map fst es))))"

section \<open>RDMA\<close>

record Qp =
  qp_end :: LinkEnd
  qp_relation :: RdmaRelation
  qp_gid :: "rstring option"
  qp_link_layer :: "rstring option"

definition connected_type :: "rstring \<Rightarrow> bool" where
  "connected_type kind \<longleftrightarrow> kind \<in> {lit ''rc'', lit ''uc'', lit ''xrc_ini'', lit ''xrc_tgt''}"

definition host_qp :: "rstring \<Rightarrow> RdmaPort list \<Rightarrow> RdmaRelation \<Rightarrow> Qp option" where
  "host_qp host ports relation =
     (if rd_peer relation \<noteq> None \<or> \<not> connected_type (ep_qp_type (rd_endpoint relation)) \<or> rd_remote_qpn relation = None then None
      else
        (let port = find (\<lambda>p. port_device p = ep_device (rd_endpoint relation) \<and> Some (port_port p) = ep_port (rd_endpoint relation)) ports in
         Some \<lparr>qp_end = LinkEnd host (rd_id relation), qp_relation = relation,
           qp_gid = Option.bind port port_gid, qp_link_layer = Option.bind port port_link_layer\<rparr>))"

definition rdma_qps :: "readers \<Rightarrow> hosts \<Rightarrow> Qp list" where
  "rdma_qps rs hosts = concat (map (\<lambda>(host, snapshot).
     List.map_filter (host_qp host (entries (read_port rs) snapshot (lit ''rdma_ports'')))
       (entries (read_rdma rs) snapshot (lit ''rdma_relations''))) hosts)"

abbreviation qpn :: "Qp \<Rightarrow> u32" where
  "qpn q \<equiv> ep_qpn (rd_endpoint (qp_relation q))"

abbreviation remote_qpn :: "Qp \<Rightarrow> u32 option" where
  "remote_qpn q \<equiv> rd_remote_qpn (qp_relation q)"

definition gid_evidence :: "Qp \<Rightarrow> Qp \<Rightarrow> bool option" where
  "gid_evidence from_qp to_qp =
     (case (rd_remote_gid (qp_relation from_qp), qp_gid to_qp) of
        (Some remote, Some local) \<Rightarrow> Some (remote = local)
      | _ \<Rightarrow> None)"

definition cm_evidence :: "Qp \<Rightarrow> Qp \<Rightarrow> bool option" where
  "cm_evidence a b =
     (case (rd_cm (qp_relation a), rd_cm (qp_relation b)) of
        (Some x, Some y) \<Rightarrow>
          (case (cm_source x, cm_destination x, cm_source y, cm_destination y) of
             (Some xs, Some xd, Some ys, Some yd) \<Rightarrow> Some (xs = yd \<and> xd = ys)
           | _ \<Rightarrow> None)
      | _ \<Rightarrow> None)"

definition evidence :: "Qp \<Rightarrow> Qp \<Rightarrow> RdmaEvidence option" where
  "evidence a b =
     (let gids = [gid_evidence a b, gid_evidence b a]; cm = cm_evidence a b in
      if Some False \<in> set gids \<or> cm = Some False then None
      else Some \<lparr>ev_gid = (Some True \<in> set gids), ev_cm = (cm = Some True)\<rparr>)"

definition candidates :: "Qp list \<Rightarrow> nat \<Rightarrow> (nat \<times> RdmaEvidence) list" where
  "candidates qps i =
     (let a = qps ! i;
          by_qpn = filter (\<lambda>b. Some (qpn (qps ! b)) = remote_qpn a) [0..<length qps] in
      List.map_filter (\<lambda>b. map_option (\<lambda>e. (b, e)) (evidence a (qps ! b)))
        (filter (\<lambda>b. le_host (qp_end (qps ! b)) \<noteq> le_host (qp_end a) \<and> remote_qpn (qps ! b) = Some (qpn a)) by_qpn))"

text \<open>The link that the loop pushes for an index: the other index and the evidence.\<close>

definition rdma_pair :: "Qp list \<Rightarrow> nat \<Rightarrow> (nat \<times> nat \<times> RdmaEvidence) option" where
  "rdma_pair qps i =
     (case candidates qps i of
        [(j, e)] \<Rightarrow>
          (let a = qps ! i; b = qps ! j;
               unique = (case candidates qps j of [(back, _)] \<Rightarrow> back = i | _ \<Rightarrow> False);
               addressed = (ev_gid e \<or> ev_cm e) in
           if qp_end a \<ge> qp_end b \<or> \<not> unique \<or> \<not> addressed \<and> qp_link_layer a \<noteq> qp_link_layer b then None
           else Some (i, j, e))
      | _ \<Rightarrow> None)"

definition rdma_pairs :: "Qp list \<Rightarrow> (nat \<times> nat \<times> RdmaEvidence) list" where
  "rdma_pairs qps = List.map_filter (rdma_pair qps) [0..<length qps]"

definition rdma_links :: "readers \<Rightarrow> hosts \<Rightarrow> RdmaLink list" where
  "rdma_links rs hosts =
     (let qps = rdma_qps rs hosts in
      sort_key (\<lambda>l. (rl_a l, rl_b l))
        (map (\<lambda>(i, j, e). \<lparr>rl_a = qp_end (qps ! i), rl_b = qp_end (qps ! j), rl_evidence = e\<rparr>) (rdma_pairs qps)))"

definition correlate_host_connections :: "readers \<Rightarrow> hosts \<Rightarrow> CrossHostLinks" where
  "correlate_host_connections rs hosts = \<lparr>chl_sockets = socket_links rs hosts, chl_rdma = rdma_links rs hosts\<rparr>"

section \<open>Socket links are exactly the unique reversed tuples\<close>

lemma set_map_filter_iff: "y \<in> set (List.map_filter f xs) \<longleftrightarrow> (\<exists>x\<in>set xs. f x = Some y)"
  by (force simp: List.map_filter_def)

lemma mset_map_filter: "mset (List.map_filter f xs) = image_mset (the \<circ> f) (filter_mset (\<lambda>x. f x \<noteq> None) (mset xs))"
  by (simp add: List.map_filter_def)

lemma mset_concat_map_cong:
  assumes "mset xs = mset ys"
  shows "mset (concat (map f xs)) = mset (concat (map f ys))"
proof -
  have "mset (concat (map f zs)) = sum_mset (image_mset (\<lambda>x. mset (f x)) (mset zs))" for zs
    by (induction zs) auto
  then show ?thesis using assms by simp
qed

lemma ends_of_single_mset:
  assumes "mset es = mset es'"
  shows "ends_of es t = [a] \<longleftrightarrow> ends_of es' t = [a]"
proof -
  have "mset (ends_of es t) = mset (ends_of es' t)"
    using assms by (simp add: ends_of_def)
  then show ?thesis by (metis mset_single_iff_right)
qed

lemma tuple_link_Some:
  "tuple_link es t = Some l \<longleftrightarrow>
     ends_of es t = [sl_a l] \<and> ends_of es (reverse_tuple t) = [sl_b l] \<and> sl_a l < sl_b l \<and> le_host (sl_a l) \<noteq> le_host (sl_b l)"
  by (cases l) (auto simp: tuple_link_def split: list.splits)

lemma tuple_link_mset:
  assumes "mset es = mset es'"
  shows "tuple_link es t = tuple_link es' t"
proof -
  have "tuple_link es t = Some l \<longleftrightarrow> tuple_link es' t = Some l" for l
    unfolding tuple_link_Some ends_of_single_mset [OF assms] ..
  then show ?thesis by (metis not_None_eq)
qed

lemma mset_remdups_cong: "set xs = set ys \<Longrightarrow> mset (remdups xs) = mset (remdups ys)"
  by (metis distinct_remdups set_eq_iff_mset_eq_distinct set_remdups)

lemma sort_key_mset_cong:
  assumes "mset xs = mset ys" and "inj k"
  shows "sort_key k xs = sort_key k ys"
  using assms by (intro sort_key_inj_key_eq) (auto intro: inj_on_subset)

lemma inj_socket_link_key: "inj (\<lambda>l::SocketLink. (sl_a l, sl_b l))"
  by (rule injI) simp

lemma socket_ends_mset: "mset hosts = mset hosts' \<Longrightarrow> mset (socket_ends rs hosts) = mset (socket_ends rs hosts')"
  unfolding socket_ends_def by (rule mset_concat_map_cong)

lemma socket_links_mset:
  assumes "mset hosts = mset hosts'"
  shows "socket_links rs hosts = socket_links rs hosts'"
proof -
  let ?es = "socket_ends rs hosts" and ?es' = "socket_ends rs hosts'"
  have es: "mset ?es = mset ?es'" using assms by (rule socket_ends_mset)
  have links: "tuple_link ?es = tuple_link ?es'" using tuple_link_mset [OF es] by blast
  have "set (map fst ?es) = set (map fst ?es')"
    using mset_eq_setD [OF es] by simp
  then have "mset (remdups (map fst ?es)) = mset (remdups (map fst ?es'))"
    by (rule mset_remdups_cong)
  then have "mset (List.map_filter (tuple_link ?es) (remdups (map fst ?es)))
     = mset (List.map_filter (tuple_link ?es') (remdups (map fst ?es')))"
    unfolding mset_map_filter links by simp
  then show ?thesis
    unfolding socket_links_def Let_def by (rule sort_key_mset_cong [OF _ inj_socket_link_key])
qed

lemma ends_of_nonempty: "ends_of es t = a # as \<Longrightarrow> t \<in> set (map fst es)"
  by (auto simp: ends_of_def filter_eq_Cons_iff)

lemma socket_links_member:
  "l \<in> set (socket_links rs hosts) \<longleftrightarrow> (\<exists>t. tuple_link (socket_ends rs hosts) t = Some l)"
proof -
  have "tuple_link es t = Some l \<Longrightarrow> t \<in> set (map fst es)" for es t
    using ends_of_nonempty by (auto simp: tuple_link_Some)
  then show ?thesis
    by (auto simp: socket_links_def Let_def set_map_filter_iff simp del: set_map)
qed

text \<open>C27: the socket links between hosts do not depend on the order in which the hosts are given and are sorted by their ends. A pair
  of ends is linked exactly if the first is the smaller one, they are on different hosts, and some address tuple has
  the first as its only end while the reversed tuple has the second as its only end, over the sockets of all hosts.\<close>

theorem socket_links_unique_reversed:
  assumes "mset hosts' = mset hosts"
  shows "socket_links rs hosts' = socket_links rs hosts
    \<and> sorted (map (\<lambda>l. (sl_a l, sl_b l)) (socket_links rs hosts))
    \<and> (\<forall>a b. \<lparr>sl_a = a, sl_b = b\<rparr> \<in> set (socket_links rs hosts) \<longleftrightarrow>
         a < b \<and> le_host a \<noteq> le_host b
         \<and> (\<exists>t. {e \<in> set (socket_ends rs hosts). fst e = t} = {(t, a)}
              \<and> {e \<in> set (socket_ends rs hosts). fst e = reverse_tuple t} = {(reverse_tuple t, b)}
              \<and> length (filter (\<lambda>e. fst e = t) (socket_ends rs hosts)) = 1
              \<and> length (filter (\<lambda>e. fst e = reverse_tuple t) (socket_ends rs hosts)) = 1))"
proof (intro conjI allI)
  show "socket_links rs hosts' = socket_links rs hosts" using assms by (rule socket_links_mset)
  show "sorted (map (\<lambda>l. (sl_a l, sl_b l)) (socket_links rs hosts))"
    by (simp add: socket_links_def Let_def)
  have single: "ends_of es t = [x] \<longleftrightarrow> {e \<in> set es. fst e = t} = {(t, x)} \<and> length (filter (\<lambda>e. fst e = t) es) = 1"
    for es :: "(tuple \<times> LinkEnd) list" and t x
  proof -
    have "set (filter (\<lambda>e. fst e = t) es) = {e \<in> set es. fst e = t}" by auto
    moreover have "fst e = t" if "filter (\<lambda>e. fst e = t) es = [e]" for e
      using that by (auto simp: filter_eq_Cons_iff)
    then have "ends_of es t = [x] \<longleftrightarrow> filter (\<lambda>e. fst e = t) es = [(t, x)]"
      unfolding ends_of_def map_eq_Cons_conv by (metis map_is_Nil_conv prod.collapse snd_conv)
    ultimately show ?thesis
      by (cases "filter (\<lambda>e. fst e = t) es") auto
  qed
  show "\<lparr>sl_a = a, sl_b = b\<rparr> \<in> set (socket_links rs hosts) \<longleftrightarrow>
         a < b \<and> le_host a \<noteq> le_host b
         \<and> (\<exists>t. {e \<in> set (socket_ends rs hosts). fst e = t} = {(t, a)}
              \<and> {e \<in> set (socket_ends rs hosts). fst e = reverse_tuple t} = {(reverse_tuple t, b)}
              \<and> length (filter (\<lambda>e. fst e = t) (socket_ends rs hosts)) = 1
              \<and> length (filter (\<lambda>e. fst e = reverse_tuple t) (socket_ends rs hosts)) = 1)" for a b
    unfolding socket_links_member tuple_link_Some by (auto simp: single)
qed

text \<open>Two hosts, each with one end of a connection.\<close>

definition sample_address :: "u8 \<Rightarrow> u16 \<Rightarrow> Address" where
  "sample_address x port = \<lparr>addr_ip = V4 (array_of [10, 0, 0, x]), addr_port = port\<rparr>"

definition sample_socket :: "json \<Rightarrow> FdRelation option" where
  "sample_socket v =
     (case v of
        Bool outgoing \<Rightarrow>
          (let client = sample_address 1 5000; server = sample_address 2 443 in
           Some \<lparr>fd_id = lit ''fd'', fd_peer = None, fd_shared = False, fd_socket = Some \<lparr>sock_protocol = lit ''tcp'',
             sock_local = Some (if outgoing then client else server),
             sock_remote = Some (if outgoing then server else client), sock_network_peer = True\<rparr>\<rparr>)
      | _ \<Rightarrow> None)"

definition sample_readers :: readers where
  "sample_readers = \<lparr>read_fd = sample_socket, read_rdma = (\<lambda>_. None), read_port = (\<lambda>_. None)\<rparr>"

definition sample_snapshot :: "bool \<Rightarrow> json" where
  "sample_snapshot outgoing = Object [(lit ''fd_relations'', Array [Null, Bool outgoing])]"

lemma sample_address_routable: "is_routable_address (sample_address x port) \<longleftrightarrow> port \<noteq> 0"
  by (simp add: is_routable_address_def sample_address_def)

lemma sample_ends:
  "socket_ends sample_readers [(lit ''ab'', sample_snapshot False), (lit ''a'', sample_snapshot True)] =
     [((lit ''tcp'', sample_address 2 443, sample_address 1 5000), LinkEnd (lit ''ab'') (lit ''fd'')),
      ((lit ''tcp'', sample_address 1 5000, sample_address 2 443), LinkEnd (lit ''a'') (lit ''fd''))]"
  by (simp add: socket_ends_def entries_def sample_readers_def sample_snapshot_def sample_socket_def Let_def get_def
      snapshot_array_entries_def List.map_filter_simps socket_tuple_def sample_address_routable)

theorem socket_links_unique_reversed_witness:
  "\<lparr>sl_a = LinkEnd (lit ''a'') (lit ''fd''), sl_b = LinkEnd (lit ''ab'') (lit ''fd'')\<rparr> \<in> set (socket_links sample_readers
     [(lit ''a'', sample_snapshot True), (lit ''ab'', sample_snapshot False)])"
proof -
  let ?hosts = "[(lit ''ab'', sample_snapshot False), (lit ''a'', sample_snapshot True)]"
  let ?t = "(lit ''tcp'', sample_address 1 5000, sample_address 2 443)"
  have less: "LinkEnd (lit ''a'') (lit ''fd'') < LinkEnd (lit ''ab'') (lit ''fd'')" "lit ''a'' \<noteq> lit ''ab''"
    by (simp_all add: less_LinkEnd_def lit_def)
  have address: "sample_address 1 5000 \<noteq> sample_address 2 443" by (simp add: sample_address_def)
  have "\<exists>t. {e \<in> set (socket_ends sample_readers ?hosts). fst e = t} = {(t, LinkEnd (lit ''a'') (lit ''fd''))}
      \<and> {e \<in> set (socket_ends sample_readers ?hosts). fst e = reverse_tuple t} = {(reverse_tuple t, LinkEnd (lit ''ab'') (lit ''fd''))}
      \<and> length (filter (\<lambda>e. fst e = t) (socket_ends sample_readers ?hosts)) = 1
      \<and> length (filter (\<lambda>e. fst e = reverse_tuple t) (socket_ends sample_readers ?hosts)) = 1"
    unfolding sample_ends by (rule exI [of _ ?t]) (use address in \<open>auto simp: reverse_tuple_def\<close>)
  then show ?thesis
    using socket_links_unique_reversed [of "[(lit ''a'', sample_snapshot True), (lit ''ab'', sample_snapshot False)]" ?hosts sample_readers] less
    by (simp add: add_mset_commute)
qed

section \<open>RDMA links pair queue pairs one to one\<close>

lemma evidence_sym: "evidence a b = evidence b a"
proof -
  have "cm_evidence a b = cm_evidence b a"
    by (auto simp: cm_evidence_def split: option.splits)
  then show ?thesis by (auto simp: evidence_def Let_def)
qed

text \<open>Two queue pairs of different hosts that name each other's numbers and that no address contradicts.\<close>

definition compatible :: "Qp \<Rightarrow> Qp \<Rightarrow> bool" where
  "compatible a b \<longleftrightarrow> le_host (qp_end a) \<noteq> le_host (qp_end b) \<and> remote_qpn a = Some (qpn b) \<and> remote_qpn b = Some (qpn a)
     \<and> evidence a b \<noteq> None"

definition partners :: "Qp list \<Rightarrow> nat \<Rightarrow> nat set" where
  "partners qps i = {k. k < length qps \<and> compatible (qps ! i) (qps ! k)}"

lemma map_filter_option_filter:
  "List.map_filter (\<lambda>b. map_option (\<lambda>e. (b, e)) (f b)) (filter P xs) = map (\<lambda>b. (b, the (f b))) (filter (\<lambda>b. P b \<and> f b \<noteq> None) xs)"
  by (induction xs) (auto simp: List.map_filter_simps)

lemma candidates_partners:
  "candidates qps i = map (\<lambda>b. (b, the (evidence (qps ! i) (qps ! b)))) (filter (\<lambda>k. compatible (qps ! i) (qps ! k)) [0..<length qps])"
proof -
  have "filter (\<lambda>b. (le_host (qp_end (qps ! b)) \<noteq> le_host (qp_end (qps ! i)) \<and> remote_qpn (qps ! b) = Some (qpn (qps ! i)))
        \<and> evidence (qps ! i) (qps ! b) \<noteq> None)
      (filter (\<lambda>b. Some (qpn (qps ! b)) = remote_qpn (qps ! i)) [0..<length qps])
    = filter (\<lambda>k. compatible (qps ! i) (qps ! k)) [0..<length qps]"
    unfolding filter_filter by (rule filter_cong) (auto simp: compatible_def)
  then show ?thesis by (simp only: candidates_def Let_def map_filter_option_filter)
qed

lemma partners_bound: "partners qps i = {j} \<Longrightarrow> j < length qps \<and> compatible (qps ! i) (qps ! j)"
  by (auto simp: partners_def)

lemma candidates_single:
  "candidates qps i = [(j, e)] \<longleftrightarrow> partners qps i = {j} \<and> evidence (qps ! i) (qps ! j) = Some e"
proof -
  let ?ks = "filter (\<lambda>k. compatible (qps ! i) (qps ! k)) [0..<length qps]"
  have "candidates qps i = [(j, e)] \<longleftrightarrow> ?ks = [j] \<and> the (evidence (qps ! i) (qps ! j)) = e"
    unfolding candidates_partners map_eq_Cons_conv by auto
  moreover have "?ks = [j] \<longleftrightarrow> partners qps i = {j}" unfolding filter_upt_single partners_def ..
  moreover have "evidence (qps ! i) (qps ! j) \<noteq> None" if "partners qps i = {j}"
    using partners_bound [OF that] by (simp add: compatible_def)
  ultimately show ?thesis by auto
qed

lemma rdma_pair_Some:
  "rdma_pair qps i = Some (i', j, e) \<longleftrightarrow>
     i' = i \<and> partners qps i = {j} \<and> partners qps j = {i} \<and> evidence (qps ! i) (qps ! j) = Some e
     \<and> qp_end (qps ! i) < qp_end (qps ! j) \<and> (ev_gid e \<or> ev_cm e \<or> qp_link_layer (qps ! i) = qp_link_layer (qps ! j))"
  (is "_ \<longleftrightarrow> ?pair i' j e")
proof -
  have unique: "(case candidates qps j of [(back, _)] \<Rightarrow> back = i | _ \<Rightarrow> False) \<longleftrightarrow> partners qps j = {i}" for j
  proof -
    have "(case candidates qps j of [(back, _)] \<Rightarrow> back = i | _ \<Rightarrow> False) \<longleftrightarrow> (\<exists>e. candidates qps j = [(i, e)])"
      by (auto split: list.splits)
    also have "\<dots> \<longleftrightarrow> partners qps j = {i}"
      unfolding candidates_single using partners_bound [of qps j i] by (auto simp: compatible_def)
    finally show ?thesis .
  qed
  show ?thesis
  proof (cases "\<exists>k d. candidates qps i = [(k, d)]")
    case True
    then obtain k d where found: "candidates qps i = [(k, d)]" by blast
    then have "partners qps i = {k}" "evidence (qps ! i) (qps ! k) = Some d" by (simp_all add: candidates_single)
    then show ?thesis by (auto simp: rdma_pair_def found Let_def unique not_le)
  next
    case False
    then have "rdma_pair qps i = None"
      by (auto simp: rdma_pair_def split: list.splits)
    moreover have "\<not> ?pair i' j e" using False candidates_single by blast
    ultimately show ?thesis by simp
  qed
qed

lemma distinct_concat_map:
  assumes "distinct xs" and "\<And>x. x \<in> set xs \<Longrightarrow> distinct (f x)"
    and "\<And>x y. x \<in> set xs \<Longrightarrow> y \<in> set xs \<Longrightarrow> x \<noteq> y \<Longrightarrow> set (f x) \<inter> set (f y) = {}"
  shows "distinct (concat (map f xs))"
  using assms by (induction xs) fastforce+

lemma distinct_map_filter:
  assumes "distinct xs" and "\<And>x y z. f x = Some z \<Longrightarrow> f y = Some z \<Longrightarrow> x = y"
  shows "distinct (List.map_filter f xs)"
  using assms by (induction xs) (auto simp: List.map_filter_simps set_map_filter_iff split: option.split)

text \<open>What the code demands of a pair: each is the only partner of the other.\<close>

definition linked :: "Qp list \<Rightarrow> nat \<Rightarrow> nat \<Rightarrow> RdmaEvidence \<Rightarrow> bool" where
  "linked qps i j e \<longleftrightarrow> partners qps i = {j} \<and> partners qps j = {i} \<and> evidence (qps ! i) (qps ! j) = Some e
     \<and> qp_end (qps ! i) < qp_end (qps ! j) \<and> (ev_gid e \<or> ev_cm e \<or> qp_link_layer (qps ! i) = qp_link_layer (qps ! j))"

lemma rdma_pair_linked: "rdma_pair qps i = Some p \<longleftrightarrow> (\<exists>j e. p = (i, j, e) \<and> linked qps i j e)"
  by (cases p) (auto simp: rdma_pair_Some linked_def)

lemma linked_bound: "linked qps i j e \<Longrightarrow> i < length qps"
  unfolding linked_def using partners_bound by blast

lemma rdma_pairs_member: "(i, j, e) \<in> set (rdma_pairs qps) \<longleftrightarrow> linked qps i j e"
  unfolding rdma_pairs_def set_map_filter_iff rdma_pair_linked using linked_bound by auto

lemma linked_disjoint:
  assumes "linked qps i j e" "linked qps i' j' e'" and "{i, j} \<inter> {i', j'} \<noteq> {}"
  shows "i = i' \<and> j = j' \<and> e = e'"
proof -
  have e: "partners qps i = {j}" "partners qps j = {i}" "qp_end (qps ! i) < qp_end (qps ! j)"
    "evidence (qps ! i) (qps ! j) = Some e"
    "partners qps i' = {j'}" "partners qps j' = {i'}" "qp_end (qps ! i') < qp_end (qps ! j')"
    "evidence (qps ! i') (qps ! j') = Some e'"
    using assms(1,2) by (simp_all add: linked_def)
  consider "i = i'" | "j = j'" | "i = j'" | "j = i'" using assms(3) by blast
  then have "i = i' \<and> j = j'"
  proof cases
    case 3
    then have "j = i'" using e by simp
    then show ?thesis using 3 e by (metis less_asym)
  next
    case 4
    then have "i = j'" using e by simp
    then show ?thesis using 4 e by (metis less_asym)
  qed (use e in simp_all)
  then show ?thesis using e by simp
qed

lemma rdma_pairs_disjoint: "distinct (concat (map (\<lambda>(i, j, e). [i, j]) (rdma_pairs qps)))"
proof (rule distinct_concat_map)
  show "distinct (rdma_pairs qps)"
    unfolding rdma_pairs_def by (rule distinct_map_filter) (auto simp: rdma_pair_linked)
  fix p assume p: "p \<in> set (rdma_pairs qps)"
  obtain i j e where [simp]: "p = (i, j, e)" by (cases p)
  have link: "linked qps i j e" using p by (simp add: rdma_pairs_member)
  then have "i \<noteq> j" by (auto simp: linked_def)
  then show "distinct (case p of (i, j, e) \<Rightarrow> [i, j])" by simp
  fix q assume q: "q \<in> set (rdma_pairs qps)" and "p \<noteq> q"
  obtain i' j' e' where [simp]: "q = (i', j', e')" by (cases q)
  have "linked qps i' j' e'" using q by (simp add: rdma_pairs_member)
  then have "{i, j} \<inter> {i', j'} = {}" using linked_disjoint [OF link] \<open>p \<noteq> q\<close> by auto
  then show "set (case p of (i, j, e) \<Rightarrow> [i, j]) \<inter> set (case q of (i, j, e) \<Rightarrow> [i, j]) = {}" by simp
qed

text \<open>C29: two queue pairs of the hosts are linked exactly if each is the only compatible partner of the other: on different hosts, each naming the
  other's number, with no remote GID and no connection manager address that contradicts it. The smaller end comes first, the evidence
  is that of the pair, and without address evidence both ports have the same link layer. No queue pair is in two links.\<close>

theorem rdma_links_one_to_one:
  "set (rdma_links rs hosts) =
       {\<lparr>rl_a = qp_end (rdma_qps rs hosts ! i), rl_b = qp_end (rdma_qps rs hosts ! j), rl_evidence = e\<rparr> | i j e.
          linked (rdma_qps rs hosts) i j e}
   \<and> sorted (map (\<lambda>l. (rl_a l, rl_b l)) (rdma_links rs hosts))
   \<and> distinct (concat (map (\<lambda>(i, j, e). [i, j]) (rdma_pairs (rdma_qps rs hosts))))"
proof (intro conjI rdma_pairs_disjoint)
  let ?qps = "rdma_qps rs hosts"
  let ?link = "\<lambda>(i, j, e). \<lparr>rl_a = qp_end (?qps ! i), rl_b = qp_end (?qps ! j), rl_evidence = e\<rparr>"
  have "set (rdma_links rs hosts) = ?link ` set (rdma_pairs ?qps)" by (simp add: rdma_links_def Let_def)
  also have "set (rdma_pairs ?qps) = {(i, j, e) | i j e. linked ?qps i j e}"
    using rdma_pairs_member by auto
  finally show "set (rdma_links rs hosts) =
       {\<lparr>rl_a = qp_end (?qps ! i), rl_b = qp_end (?qps ! j), rl_evidence = e\<rparr> | i j e. linked ?qps i j e}"
    by (simp add: image_def) blast
  show "sorted (map (\<lambda>l. (rl_a l, rl_b l)) (rdma_links rs hosts))"
    by (simp add: rdma_links_def Let_def)
qed

end
