(* ===== verification/Monitor_Client.thy ===== *)
theory Monitor_Client
  imports Helper_Replies Agent_Link
begin

text \<open>
  The HTTP server's handle on a monitor (\<open>src/http_server/client.rs\<close>). A bounded queue feeds one worker that writes a request
  and reads its reply before it takes the next one. As in \<open>Agent_Link\<close>, the one-shot channel of a request is a number. The
  processing of the replies of a local helper is left out here.
\<close>

section \<open>State\<close>

record PendingRequest =
  pend_request :: MonitorRequest
  pend_reply :: nat

text \<open>The worker waits for a request, waits for the reply to one, or has left its loop.\<close>

datatype worker = Idle | Waiting PendingRequest | Ended

text \<open>\<open>Backend::Remote\<close>: the queue, the worker, and the channels: those made so far, those whose receiver is gone,
  and what has been sent into them. \<open>cl_shutdown\<close> tells whether the socket was shut down.\<close>

record remote_backend =
  cl_queue :: "PendingRequest list"
  cl_worker :: worker
  cl_channels :: nat
  cl_gone :: "nat list"
  cl_replies :: "nat \<Rightarrow> WireResponse option"
  cl_shutdown :: bool

datatype Backend =
    Unavailable
  | RemoteBackend remote_backend
  | AgentBackend AgentLink

datatype client_error =
    HelperUnavailable
  | RawThroughAgent
  | QueueUnavailable      \<comment> \<open>the worker has ended or the queue is full\<close>
  | Disconnected
  | ExchangeTimedOut
  | HelperError rstring
  | UnexpectedResponse

definition REQUEST_QUEUE :: nat where "REQUEST_QUEUE = 64"

definition MonitorClient_new :: remote_backend where
  "MonitorClient_new = \<lparr>cl_queue = [], cl_worker = Idle, cl_channels = 0, cl_gone = [], cl_replies = (\<lambda>_. None),
     cl_shutdown = False\<rparr>"

section \<open>Callers\<close>

text \<open>\<open>sender.try_send\<close> with a new channel.\<close>

definition queue_request :: "MonitorRequest \<Rightarrow> remote_backend \<Rightarrow> (nat \<times> remote_backend) option" where
  "queue_request request c =
     (if cl_worker c \<noteq> Ended \<and> length (cl_queue c) < REQUEST_QUEUE then
        Some (cl_channels c, c\<lparr>cl_queue := cl_queue c @ [\<lparr>pend_request = request, pend_reply = cl_channels c\<rparr>],
          cl_channels := cl_channels c + 1\<rparr>)
      else None)"

definition drop_reply :: "nat \<Rightarrow> remote_backend \<Rightarrow> remote_backend" where
  "drop_reply channel c = c\<lparr>cl_gone := channel # cl_gone c\<rparr>"

text \<open>\<open>exchange\<close> up to the point where it waits.\<close>

definition exchange_begin :: "MonitorRequest \<Rightarrow> Backend \<Rightarrow> (client_error + nat) \<times> Backend" where
  "exchange_begin request b =
     (case b of
        Unavailable \<Rightarrow> (Inl HelperUnavailable, b)
      | AgentBackend _ \<Rightarrow> (Inl RawThroughAgent, b)
      | RemoteBackend c \<Rightarrow>
          (case queue_request request c of
             None \<Rightarrow> (Inl QueueUnavailable, b)
           | Some (channel, c) \<Rightarrow> (Inr channel, RemoteBackend c)))"

text \<open>Whether the sending end of a channel still exists.\<close>

definition in_flight :: "nat \<Rightarrow> remote_backend \<Rightarrow> bool" where
  "in_flight channel c \<longleftrightarrow> channel \<in> pend_reply ` set (cl_queue c)
     \<or> (case cl_worker c of Waiting p \<Rightarrow> pend_reply p = channel | _ \<Rightarrow> False)"

text \<open>The end of the wait; \<open>None\<close> while it lasts. The channel's receiver is dropped when the call returns.\<close>

definition exchange_end :: "nat \<Rightarrow> bool \<Rightarrow> remote_backend \<Rightarrow> ((client_error + MonitorResponse) \<times> remote_backend) option" where
  "exchange_end channel timed_out c =
     (case cl_replies c channel of
        Some (Inr response) \<Rightarrow> Some (Inr response, drop_reply channel c)
      | Some (Inl message) \<Rightarrow> Some (Inl (HelperError message), drop_reply channel c)
      | None \<Rightarrow>
          if \<not> in_flight channel c then Some (Inl Disconnected, drop_reply channel c)
          else if timed_out then Some (Inl ExchangeTimedOut, drop_reply channel (c\<lparr>cl_shutdown := True\<rparr>))
          else None)"

text \<open>\<open>close\<close>: the receiver is gone as soon as the request is queued.\<close>

definition client_close :: "u64 \<Rightarrow> Backend \<Rightarrow> Backend" where
  "client_close session b =
     (case b of
        Unavailable \<Rightarrow> b
      | AgentBackend l \<Rightarrow> AgentBackend (close_session session l)
      | RemoteBackend c \<Rightarrow>
          (case queue_request (MonitorRequest.Close session) c of
             None \<Rightarrow> b
           | Some (channel, c) \<Rightarrow> RemoteBackend (drop_reply channel c)))"

text \<open>\<open>observe\<close> and \<open>ObservationSession::poll\<close>: what they make of a response.\<close>

definition observe_response :: "HttpResponse \<Rightarrow> client_error + u64 \<times> HttpEvent" where
  "observe_response r =
     (case r of HttpResponse.Started session initial \<Rightarrow> Inr (session, initial) | _ \<Rightarrow> Inl UnexpectedResponse)"

definition poll_response :: "HttpResponse \<Rightarrow> client_error + HttpEvent option \<times> bool" where
  "poll_response r =
     (case r of HttpResponse.Event event closed \<Rightarrow> Inr (event, closed) | _ \<Rightarrow> Inl UnexpectedResponse)"

section \<open>The worker\<close>

definition is_close :: "MonitorRequest \<Rightarrow> bool" where
  "is_close request = (case request of MonitorRequest.Close _ \<Rightarrow> True | _ \<Rightarrow> False)"

text \<open>The failure branch: the error is sent, the socket is shut down, and leaving the loop drops the queue.\<close>

definition worker_fail :: "(transport_error \<Rightarrow> rstring) \<Rightarrow> PendingRequest \<Rightarrow> transport_error \<Rightarrow> remote_backend \<Rightarrow> remote_backend" where
  "worker_fail show_error p e c = c\<lparr>cl_queue := [], cl_worker := Ended, cl_shutdown := True,
     cl_replies := (cl_replies c)(pend_reply p \<mapsto> Inl (lit ''monitor IPC unavailable: '' @ show_error e))\<rparr>"

text \<open>One iteration up to the end of the write. A cancelled request is skipped unless it closes a session.\<close>

definition worker_send ::
  "(transport_error \<Rightarrow> rstring) \<Rightarrow> nat \<Rightarrow> attempt list \<Rightarrow> remote_backend \<times> byte list \<Rightarrow> (remote_backend \<times> byte list) option"
where
  "worker_send show_error now as = (\<lambda>(c, out).
     case cl_queue c of
       [] \<Rightarrow> None
     | p # ps \<Rightarrow>
         (let c = c\<lparr>cl_queue := ps\<rparr> in
          if pend_reply p \<in> set (cl_gone c) \<and> \<not> is_close (pend_request p) then Some (c, out)
          else (case send MonitorRequest_wire (pend_request p) MAX_REQUEST now out as of
              None \<Rightarrow> None
            | Some (Inr (out, _)) \<Rightarrow> Some (c\<lparr>cl_worker := Waiting p\<rparr>, out)
            | Some (Inl e) \<Rightarrow> Some (worker_fail show_error p e c, out))))"

text \<open>The rest of the iteration: reading the reply and handing it over.\<close>

definition worker_receive ::
  "Arch \<Rightarrow> (transport_error \<Rightarrow> rstring) \<Rightarrow> nat \<Rightarrow> attempt list \<Rightarrow> PendingRequest \<Rightarrow> remote_backend \<times> byte list
   \<Rightarrow> (WireResponse option \<times> remote_backend \<times> byte list) option"
where
  "worker_receive arch show_error now as p = (\<lambda>(c, inp).
     case read_message (WireResponse_wire arch) MAX_RESPONSE now inp as of
       None \<Rightarrow> None
     | Some (Inr (response, inp, _)) \<Rightarrow>
         Some (Some response, c\<lparr>cl_worker := Idle, cl_replies := (cl_replies c)(pend_reply p \<mapsto> response)\<rparr>, inp)
     | Some (Inl e) \<Rightarrow> Some (None, worker_fail show_error p e c, inp))"

section \<open>The connection\<close>

text \<open>
  The client, the helper at the other end and the bytes between them, with the exchanges that each side has completed: the
  helper's requests with the replies it sent, and the client's requests, channels and the replies read for them.
\<close>

record connection =
  con_client :: remote_backend
  con_service :: HelperIpcService
  con_requests :: "byte list"      \<comment> \<open>to the helper\<close>
  con_replies :: "byte list"       \<comment> \<open>to the client\<close>
  con_handled :: "(MonitorRequest \<times> WireResponse) list"
  con_delivered :: "(MonitorRequest \<times> nat \<times> WireResponse) list"

text \<open>
  What may happen, in any order: callers start and end exchanges, give up, and close sessions; the worker writes and
  reads; the helper serves. A failed write may leave any bytes behind.
\<close>

inductive conn_step :: "Arch \<Rightarrow> (service_error \<Rightarrow> rstring) \<Rightarrow> (transport_error \<Rightarrow> rstring) \<Rightarrow> connection \<Rightarrow> connection \<Rightarrow> bool"
  for arch describe show_error
where
  Exchange: "exchange_begin request (RemoteBackend (con_client k)) = (r, RemoteBackend c)
    \<Longrightarrow> conn_step arch describe show_error k (k\<lparr>con_client := c\<rparr>)"
| Finish: "channel < cl_channels (con_client k) \<Longrightarrow> exchange_end channel timed_out (con_client k) = Some (r, c)
    \<Longrightarrow> conn_step arch describe show_error k (k\<lparr>con_client := c\<rparr>)"
| Cancel: "channel < cl_channels (con_client k) \<Longrightarrow> conn_step arch describe show_error k (k\<lparr>con_client := drop_reply channel (con_client k)\<rparr>)"
| CloseSession: "client_close session (RemoteBackend (con_client k)) = RemoteBackend c
    \<Longrightarrow> conn_step arch describe show_error k (k\<lparr>con_client := c\<rparr>)"
| Write: "cl_worker (con_client k) = Idle
    \<Longrightarrow> worker_send show_error now as (con_client k, con_requests k) = Some (c, out)
    \<Longrightarrow> junk = [] \<or> cl_worker c = Ended
    \<Longrightarrow> conn_step arch describe show_error k (k\<lparr>con_client := c, con_requests := out @ junk\<rparr>)"
| Deliver: "cl_worker (con_client k) = Waiting p
    \<Longrightarrow> worker_receive arch show_error now as p (con_client k, con_replies k) = Some (Some response, c, inp)
    \<Longrightarrow> conn_step arch describe show_error k (k\<lparr>con_client := c, con_replies := inp,
          con_delivered := con_delivered k @ [(pend_request p, pend_reply p, response)]\<rparr>)"
| Fail: "cl_worker (con_client k) = Waiting p
    \<Longrightarrow> worker_receive arch show_error now as p (con_client k, con_replies k) = Some (None, c, inp)
    \<Longrightarrow> conn_step arch describe show_error k (k\<lparr>con_client := c, con_replies := inp\<rparr>)"
| Expire: "it_poll it \<noteq> Ready
    \<Longrightarrow> serve_step arch describe it (con_service k, \<lparr>incoming = con_requests k, outgoing = con_replies k\<rparr>) = Some (Inr (s, sock))
    \<Longrightarrow> conn_step arch describe show_error k (k\<lparr>con_service := s\<rparr>)"
| Serve: "it_poll it = Ready \<Longrightarrow> host_ok arch (it_host it)
    \<Longrightarrow> read_message MonitorRequest_wire MAX_REQUEST (it_read_time it) (con_requests k) (it_reads it) = Some (Inr (request, rest, as))
    \<Longrightarrow> serve_step arch describe it (con_service k, \<lparr>incoming = con_requests k, outgoing = con_replies k\<rparr>) = Some (Inr (s, sock))
    \<Longrightarrow> conn_step arch describe show_error k (k\<lparr>con_service := s, con_requests := incoming sock, con_replies := outgoing sock,
          con_handled := con_handled k @ [(request, sent_reply arch (wire_reply describe
            (fst (dispatch (it_host it) request (expire (it_expire it) (con_service k))))))]\<rparr>)"

definition connected :: "HelperIpcService \<Rightarrow> connection" where
  "connected s = \<lparr>con_client = MonitorClient_new, con_service = s, con_requests = [], con_replies = [], con_handled = [],
     con_delivered = []\<rparr>"

section \<open>Replies and requests stay in step\<close>

abbreviation stripped :: "connection \<Rightarrow> (MonitorRequest \<times> WireResponse) list" where
  "stripped k \<equiv> map (\<lambda>(q, _, r). (q, r)) (con_delivered k)"

definition pending :: "remote_backend \<Rightarrow> PendingRequest set" where
  "pending c = set (cl_queue c) \<union> (case cl_worker c of Waiting p \<Rightarrow> {p} | _ \<Rightarrow> {})"

text \<open>The bytes in flight hold at most the request the worker waits for, or the helper's reply to it.\<close>

definition in_step :: "Arch \<Rightarrow> connection \<Rightarrow> bool" where
  "in_step arch k \<longleftrightarrow>
     (case cl_worker (con_client k) of
        Idle \<Rightarrow> con_requests k = [] \<and> con_replies k = [] \<and> con_handled k = stripped k
      | Waiting p \<Rightarrow>
          (\<exists>bs. encode MonitorRequest_wire (pend_request p) MAX_REQUEST = Inr bs \<and> con_requests k = frame bs
             \<and> con_replies k = [] \<and> con_handled k = stripped k)
        \<or> (\<exists>r bs. encode (WireResponse_wire arch) r MAX_RESPONSE = Inr bs \<and> WireResponse_ok arch r \<and> con_requests k = []
             \<and> con_replies k = frame bs \<and> con_handled k = stripped k @ [(pend_request p, r)])
      | Ended \<Rightarrow> \<exists>rest. con_handled k = stripped k @ rest)"

text \<open>Channels are numbered as they are made, and a success in a channel was read by the worker.\<close>

definition channels_ok :: "connection \<Rightarrow> bool" where
  "channels_ok k \<longleftrightarrow> (\<forall>p\<in>pending (con_client k). pend_reply p < cl_channels (con_client k))
     \<and> (\<forall>(q, channel, r)\<in>set (con_delivered k). channel < cl_channels (con_client k))
     \<and> (\<forall>channel r. cl_replies (con_client k) channel = Some (Inr r) \<longrightarrow> (\<exists>q. (q, channel, Inr r) \<in> set (con_delivered k)))"

lemma stripped_snoc: "con_delivered k = xs @ [(q, c, r)] \<Longrightarrow> stripped k = map (\<lambda>(q, _, r). (q, r)) xs @ [(q, r)]"
  by simp

lemma in_step_queue: "cl_worker c = cl_worker (con_client k) \<Longrightarrow> in_step arch (k\<lparr>con_client := c\<rparr>) = in_step arch k"
  by (cases "cl_worker (con_client k)") (simp_all add: in_step_def)

lemma exchange_begin_cases:
  assumes "exchange_begin request (RemoteBackend c) = (r, RemoteBackend c')"
  shows "(r = Inl QueueUnavailable \<and> c' = c) \<or> (r = Inr (cl_channels c) \<and> queue_request request c = Some (cl_channels c, c'))"
  using assms by (auto simp: exchange_begin_def queue_request_def split: option.splits if_splits)

lemma queue_request_Some:
  assumes "queue_request request c = Some (channel, c')"
  shows "channel = cl_channels c \<and> cl_worker c \<noteq> Ended \<and> cl_worker c' = cl_worker c \<and> cl_channels c' = cl_channels c + 1
    \<and> cl_replies c' = cl_replies c
    \<and> cl_queue c' = cl_queue c @ [\<lparr>pend_request = request, pend_reply = cl_channels c\<rparr>]"
  using assms by (auto simp: queue_request_def split: if_splits)

lemma drop_reply_simps [simp]:
  "cl_worker (drop_reply channel c) = cl_worker c" "cl_channels (drop_reply channel c) = cl_channels c"
  "cl_replies (drop_reply channel c) = cl_replies c" "cl_queue (drop_reply channel c) = cl_queue c"
  by (simp_all add: drop_reply_def)

lemma exchange_end_simps:
  assumes "exchange_end channel timed_out c = Some (r, c')"
  shows "cl_worker c' = cl_worker c" "cl_channels c' = cl_channels c" "cl_replies c' = cl_replies c" "cl_queue c' = cl_queue c"
  using assms by (auto simp: exchange_end_def split: option.splits sum.splits if_splits)

lemma client_close_cases:
  assumes "client_close session (RemoteBackend c) = RemoteBackend c'"
  shows "c' = c \<or> (\<exists>channel d. queue_request (MonitorRequest.Close session) c = Some (channel, d) \<and> c' = drop_reply channel d)"
  using assms by (auto simp: client_close_def split: option.splits)

text \<open>What a step of the worker does to the queue and the channels.\<close>

lemma worker_send_cases:
  assumes "worker_send show_error now as (c, out) = Some (c', out')"
  obtains (skip) p where "cl_queue c = p # cl_queue c'" "cl_worker c' = cl_worker c" "out' = out" "cl_replies c' = cl_replies c"
      "cl_channels c' = cl_channels c"
  | (sent) p bs where "cl_queue c = p # cl_queue c'" "cl_worker c' = Waiting p" "cl_replies c' = cl_replies c"
      "cl_channels c' = cl_channels c" "encode MonitorRequest_wire (pend_request p) MAX_REQUEST = Inr bs" "out' = out @ frame bs"
  | (failed) p :: PendingRequest and e where "cl_queue c' = []" "cl_worker c' = Ended" "cl_channels c' = cl_channels c"
      "cl_replies c' = (cl_replies c)(pend_reply p \<mapsto> Inl e)"
proof -
  obtain p ps where q: "cl_queue c = p # ps" using assms by (auto simp: worker_send_def split: list.splits)
  let ?c = "c\<lparr>cl_queue := ps\<rparr>"
  show thesis
  proof (cases "pend_reply p \<in> set (cl_gone c) \<and> \<not> is_close (pend_request p)")
    case True
    then have "c' = ?c" "out' = out" using assms q by (simp_all add: worker_send_def Let_def)
    then show thesis using q by (intro skip) simp_all
  next
    case False
    then have "(case send MonitorRequest_wire (pend_request p) MAX_REQUEST now out as of
              None \<Rightarrow> None
            | Some (Inr (out, _)) \<Rightarrow> Some (?c\<lparr>cl_worker := Waiting p\<rparr>, out)
            | Some (Inl e) \<Rightarrow> Some (worker_fail show_error p e ?c, out)) = Some (c', out')"
      using assms q by (simp add: worker_send_def Let_def split: if_split_asm)
    then consider (ok) as' where "send MonitorRequest_wire (pend_request p) MAX_REQUEST now out as = Some (Inr (out', as'))"
        "c' = ?c\<lparr>cl_worker := Waiting p\<rparr>"
      | (err) e where "c' = worker_fail show_error p e ?c"
      by (auto split: option.splits sum.splits)
    then show thesis
    proof cases
      case ok
      then obtain bs where "encode MonitorRequest_wire (pend_request p) MAX_REQUEST = Inr bs" "out' = out @ frame bs"
        using send_only_frame [OF ok(1)] by blast
      then show thesis using q ok by (intro sent [of p bs]) simp_all
    next
      case (err e)
      then show thesis
        by (intro failed [of p "lit ''monitor IPC unavailable: '' @ show_error e"]) (simp_all add: worker_fail_def)
    qed
  qed
qed

lemma worker_receive_cases:
  assumes "worker_receive arch show_error now as p (c, inp) = Some (res, c', inp')"
  obtains (reply) r bs where "res = Some r" "encode (WireResponse_wire arch) r MAX_RESPONSE = Inr bs" "WireResponse_ok arch r"
      "inp = frame bs @ inp'" "cl_worker c' = Idle" "cl_queue c' = cl_queue c" "cl_channels c' = cl_channels c"
      "cl_replies c' = (cl_replies c)(pend_reply p \<mapsto> r)"
  | (failed) e where "res = None" "cl_queue c' = []" "cl_worker c' = Ended" "cl_channels c' = cl_channels c"
      "cl_replies c' = (cl_replies c)(pend_reply p \<mapsto> Inl e)"
proof -
  consider (ok) r as' where "read_message (WireResponse_wire arch) MAX_RESPONSE now inp as = Some (Inr (r, inp', as'))" "res = Some r"
      "c' = c\<lparr>cl_worker := Idle, cl_replies := (cl_replies c)(pend_reply p \<mapsto> r)\<rparr>"
    | (err) e where "res = None" "c' = worker_fail show_error p e c"
    using assms by (auto simp: worker_receive_def split: option.splits sum.splits)
  then show thesis
  proof cases
    case ok
    then obtain bs where "encode (WireResponse_wire arch) r MAX_RESPONSE = Inr bs" "WireResponse_ok arch r" "inp = frame bs @ inp'"
      using wire_response.received_frame unfolding read_message_def by blast
    then show thesis using ok by (intro reply [of r bs]) simp_all
  qed (auto simp: worker_fail_def intro: failed)
qed

lemma wire_frame_nonempty [simp]: "frame bs \<noteq> []"
  using length_frame [of bs] by fastforce

lemma sent_reply_ok:
  assumes "host_ok arch h"
  shows "WireResponse_ok arch (sent_reply arch (wire_reply describe (fst (dispatch h request s))))"
proof -
  have "WireResponse_ok arch (wire_reply describe (fst (dispatch h request s)))"
    by (rule wire_reply_ok [OF reply_ok_dispatch [OF assms]])
  then show ?thesis
    by (auto simp: sent_reply_def size_limit_reply_def WireResponse_ok_def split: sum.splits)
qed

lemma serve_in_step:
  assumes ok: "in_step arch k" and it: "it_poll it = Ready" "host_ok arch (it_host it)"
    and read: "read_message MonitorRequest_wire MAX_REQUEST (it_read_time it) (con_requests k) (it_reads it) = Some (Inr (request, rest, as))"
    and step: "serve_step arch describe it (con_service k, \<lparr>incoming = con_requests k, outgoing = con_replies k\<rparr>) = Some (Inr (s, sock))"
  shows "in_step arch (k\<lparr>con_service := s, con_requests := incoming sock, con_replies := outgoing sock,
          con_handled := con_handled k @ [(request, sent_reply arch (wire_reply describe
            (fst (dispatch (it_host it) request (expire (it_expire it) (con_service k))))))]\<rparr>)"
    (is "in_step arch ?k")
proof (cases "cl_worker (con_client k)")
  case Idle
  then have "con_requests k = []" using ok by (simp add: in_step_def)
  then show ?thesis using monitor_request.received_frame [of _ _ _ "[]"] read unfolding read_message_def by fastforce
next
  case Ended
  then show ?thesis using ok by (auto simp: in_step_def)
next
  case (Waiting p)
  obtain request' bs' reply where f: "encode MonitorRequest_wire request' MAX_REQUEST = Inr bs'" "con_requests k = frame bs' @ incoming sock"
      "encode (WireResponse_wire arch) (sent_reply arch (wire_reply describe
            (fst (dispatch (it_host it) request' (expire (it_expire it) (con_service k)))))) MAX_RESPONSE = Inr reply"
      "outgoing sock = con_replies k @ frame reply"
    using serve_step_frames [OF step it(2)] it(1) by auto
  have req: "request = request'"
    using monitor_request.received_message [OF TrueI f(1)] read f(2) unfolding read_message_def by simp
  consider (asked) bs where "encode MonitorRequest_wire (pend_request p) MAX_REQUEST = Inr bs" "con_requests k = frame bs"
      "con_replies k = []" "con_handled k = stripped k"
    | (answered) "con_requests k = []"
    using ok Waiting by (auto simp: in_step_def)
  then show ?thesis
  proof cases
    case asked
    have "request = pend_request p \<and> rest = []"
      using monitor_request.received_message [OF TrueI asked(1), of _ _ _ "[]"] read asked(2) unfolding read_message_def by simp
    moreover have "incoming sock = []"
      using frame_prefix [of bs bs' "[]" "incoming sock"] f(2) asked(1,2) monitor_request.encode_bounded [OF TrueI f(1)]
        monitor_request.encode_bounded [OF TrueI asked(1)] by simp
    moreover have "WireResponse_ok arch (sent_reply arch (wire_reply describe
            (fst (dispatch (it_host it) request (expire (it_expire it) (con_service k))))))"
      by (rule sent_reply_ok [OF it(2)])
    ultimately show ?thesis using Waiting asked f(3,4) req by (auto simp: in_step_def)
  next
    case answered
    then show ?thesis using f(2) by simp
  qed
qed

lemma in_step_step:
  assumes "conn_step arch describe show_error k k'" "in_step arch k"
  shows "in_step arch k'"
  using assms
proof cases
  case (Exchange request r c)
  then have "cl_worker c = cl_worker (con_client k)" using exchange_begin_cases queue_request_Some by blast
  then show ?thesis using Exchange(1) assms(2) by (simp add: in_step_queue)
next
  case (Finish channel timed_out r c)
  then show ?thesis using assms(2) exchange_end_simps(1) [OF Finish(3)] by (simp add: in_step_queue)
next
  case (Cancel channel)
  then show ?thesis using assms(2) by (simp add: in_step_queue)
next
  case (CloseSession session c)
  then have "cl_worker c = cl_worker (con_client k)" using client_close_cases queue_request_Some by fastforce
  then show ?thesis using CloseSession(1) assms(2) by (simp add: in_step_queue)
next
  case (Write now as c out junk)
  have idle: "con_requests k = []" "con_replies k = []" "con_handled k = stripped k" using Write(2) assms(2) by (simp_all add: in_step_def)
  from Write(3) show ?thesis
    by (cases rule: worker_send_cases) (use idle Write in \<open>auto simp: in_step_def\<close>)
next
  case (Deliver p now as response c inp)
  from Deliver(3) obtain bs where d: "encode (WireResponse_wire arch) response MAX_RESPONSE = Inr bs" "WireResponse_ok arch response"
      "con_replies k = frame bs @ inp" "cl_worker c = Idle"
    by (cases rule: worker_receive_cases) auto
  then obtain r bs' where w: "encode (WireResponse_wire arch) r MAX_RESPONSE = Inr bs'" "WireResponse_ok arch r" "con_requests k = []"
      "con_replies k = frame bs'" "con_handled k = stripped k @ [(pend_request p, r)]"
    using assms(2) Deliver(2) by (auto simp: in_step_def)
  have "bs = bs' \<and> inp = []"
    using frame_prefix [of bs bs' inp "[]"] d w wire_response.encode_bounded [OF d(2,1)] wire_response.encode_bounded [OF w(2,1)] by simp
  moreover from this have "r = response" using wire_response.injective [OF w(2) d(2) w(1)] d(1) by simp
  ultimately show ?thesis using Deliver(1) d w by (simp add: in_step_def)
next
  case (Fail p now as c inp)
  then have "cl_worker c = Ended" by (cases rule: worker_receive_cases [OF Fail(3)]) auto
  moreover have "\<exists>rest. con_handled k = stripped k @ rest" using assms(2) Fail(2) by (auto simp: in_step_def)
  ultimately show ?thesis using Fail(1) by (simp add: in_step_def)
next
  case (Expire it s sock)
  then show ?thesis using assms(2) by (cases "cl_worker (con_client k)") (simp_all add: in_step_def)
next
  case (Serve it request rest as s sock)
  show ?thesis unfolding Serve(1) by (rule serve_in_step [OF assms(2) Serve(2-5)])
qed

lemma pending_simps [simp]: "pending (drop_reply channel c) = pending c"
  by (simp add: pending_def)

lemma pending_queue:
  "queue_request request c = Some (channel, c') \<Longrightarrow> pending c' = insert \<lparr>pend_request = request, pend_reply = cl_channels c\<rparr> (pending c)"
  by (auto simp: pending_def dest: queue_request_Some)

lemma pending_end: "exchange_end channel timed_out c = Some (r, c') \<Longrightarrow> pending c' = pending c"
  by (simp add: pending_def exchange_end_simps)

lemma pending_send:
  "worker_send show_error now as (c, out) = Some (c', out') \<Longrightarrow> cl_worker c = Idle \<Longrightarrow> pending c' \<subseteq> pending c"
  by (erule worker_send_cases) (auto simp: pending_def)

lemma pending_receive:
  "worker_receive arch show_error now as p (c, inp) = Some (r, c', inp') \<Longrightarrow> cl_worker c = Waiting p \<Longrightarrow> pending c' \<subseteq> pending c"
  by (erule worker_receive_cases) (auto simp: pending_def)

text \<open>
  A request and its channel: whoever carries the channel carries the request, and a reply under it is at position
  \<open>n\<close> or later of the client's exchanges.
\<close>

definition later :: "nat \<Rightarrow> nat \<Rightarrow> worker \<Rightarrow> nat \<Rightarrow> bool" where
  "later n channel w d = (case w of
      Idle \<Rightarrow> n \<le> d
    | Waiting p \<Rightarrow> n \<le> d + (if pend_reply p = channel then 0 else 1)
    | Ended \<Rightarrow> True)"

definition traced :: "nat \<Rightarrow> nat \<Rightarrow> MonitorRequest \<Rightarrow> connection \<Rightarrow> bool" where
  "traced n channel request k \<longleftrightarrow> channel < cl_channels (con_client k)
     \<and> (\<forall>p\<in>pending (con_client k). pend_reply p = channel \<longrightarrow> pend_request p = request)
     \<and> (\<forall>i<length (con_delivered k). fst (snd (con_delivered k ! i)) = channel \<longrightarrow> fst (con_delivered k ! i) = request \<and> n \<le> i)
     \<and> later n channel (cl_worker (con_client k)) (length (con_delivered k))"

lemma later_simps [simp]:
  "later n channel Idle d \<longleftrightarrow> n \<le> d" "later n channel Ended d"
  "later n channel (Waiting p) d \<longleftrightarrow> n \<le> d + (if pend_reply p = channel then 0 else 1)"
  by (simp_all add: later_def)

lemma channels_ok_new: "channels_ok (connected s)"
  by (simp add: channels_ok_def connected_def MonitorClient_new_def pending_def)

lemma in_step_new: "in_step arch (connected s)"
  by (simp add: in_step_def connected_def MonitorClient_new_def)

lemma channels_ok_client:
  assumes "channels_ok k" "cl_replies c = cl_replies (con_client k)" "cl_channels (con_client k) \<le> cl_channels c"
    and "\<And>p. p \<in> pending c \<Longrightarrow> p \<in> pending (con_client k) \<or> pend_reply p < cl_channels c"
  shows "channels_ok (k\<lparr>con_client := c\<rparr>)"
  using assms unfolding channels_ok_def by simp (fastforce dest: order.strict_trans2)

lemma channels_ok_queue:
  assumes "channels_ok k" "queue_request request (con_client k) = Some (channel, c)"
  shows "channels_ok (k\<lparr>con_client := c\<rparr>)"
  using pending_queue [OF assms(2)] queue_request_Some [OF assms(2)] by (intro channels_ok_client [OF assms(1)]) auto

lemma channels_ok_cong:
  "channels_ok (k\<lparr>con_client := c\<rparr>) \<Longrightarrow> con_client k' = c \<Longrightarrow> con_delivered k' = con_delivered k \<Longrightarrow> channels_ok k'"
  by (simp add: channels_ok_def)

lemma channels_ok_drop: "channels_ok (k\<lparr>con_client := c\<rparr>) \<Longrightarrow> channels_ok (k\<lparr>con_client := drop_reply channel c\<rparr>)"
  by (simp add: channels_ok_def)

lemma channels_ok_step:
  assumes "conn_step arch describe show_error k k'" "channels_ok k"
  shows "channels_ok k'"
  using assms
proof cases
  case (Exchange request r c)
  then show ?thesis using exchange_begin_cases [OF Exchange(2)] assms(2) channels_ok_queue by auto
next
  case (Finish channel timed_out r c)
  then show ?thesis
    using exchange_end_simps [OF Finish(3)] pending_end [OF Finish(3)] unfolding Finish(1) by (intro channels_ok_client [OF assms(2)]) simp_all
next
  case (Cancel channel)
  show ?thesis unfolding Cancel(1) by (intro channels_ok_client [OF assms(2)]) simp_all
next
  case (CloseSession session c)
  then show ?thesis
    using client_close_cases [OF CloseSession(2)] channels_ok_queue [OF assms(2)] channels_ok_drop assms(2) by fastforce
next
  case (Write now as c out junk)
  have "channels_ok (k\<lparr>con_client := c\<rparr>)"
    using Write(3) by (cases rule: worker_send_cases)
      (use pending_send [OF Write(3,2)] assms(2) in \<open>auto simp: channels_ok_def\<close>)
  then show ?thesis using Write(1) by (auto intro: channels_ok_cong)
next
  case (Deliver p now as response c inp)
  have p: "p \<in> pending (con_client k)" using Deliver(2) by (simp add: pending_def)
  show ?thesis
    using Deliver(3) by (cases rule: worker_receive_cases)
      (use p Deliver(1) pending_receive [OF Deliver(3,2)] assms(2) in \<open>auto simp: channels_ok_def split: if_splits\<close>)
next
  case (Fail p now as c inp)
  have "channels_ok (k\<lparr>con_client := c\<rparr>)"
    using Fail(3) by (cases rule: worker_receive_cases)
      (use pending_receive [OF Fail(3,2)] assms(2) in \<open>auto simp: channels_ok_def\<close>)
  then show ?thesis using Fail(1) by (auto intro: channels_ok_cong)
qed (use assms(2) in \<open>simp_all add: channels_ok_def\<close>)

definition gone_ok :: "remote_backend \<Rightarrow> bool" where
  "gone_ok c \<longleftrightarrow> (\<forall>channel\<in>set (cl_gone c). channel < cl_channels c)"

lemma gone_ok_queue: "queue_request request c = Some (channel, c') \<Longrightarrow> gone_ok c \<Longrightarrow> gone_ok c' \<and> gone_ok (drop_reply channel c')"
  by (auto simp: queue_request_def gone_ok_def drop_reply_def less_Suc_eq split: if_splits)

lemma gone_ok_end: "exchange_end channel timed_out c = Some (r, c') \<Longrightarrow> channel < cl_channels c \<Longrightarrow> gone_ok c \<Longrightarrow> gone_ok c'"
  by (auto simp: exchange_end_def gone_ok_def drop_reply_def split: option.splits sum.splits if_splits)

lemma gone_ok_send: "worker_send show_error now as (c, out) = Some (c', out') \<Longrightarrow> gone_ok c \<Longrightarrow> gone_ok c'"
  by (auto simp: worker_send_def worker_fail_def gone_ok_def Let_def split: list.splits option.splits sum.splits if_splits)

lemma gone_ok_receive: "worker_receive arch show_error now as p (c, inp) = Some (r, c', inp') \<Longrightarrow> gone_ok c \<Longrightarrow> gone_ok c'"
  by (auto simp: worker_receive_def worker_fail_def gone_ok_def split: option.splits sum.splits)

lemma gone_ok_step:
  assumes "conn_step arch describe show_error k k'" "gone_ok (con_client k)"
  shows "gone_ok (con_client k')"
  using assms
proof cases
  case (Exchange request r c)
  then show ?thesis using exchange_begin_cases [OF Exchange(2)] gone_ok_queue assms(2) by auto
next
  case (CloseSession session c)
  then show ?thesis using client_close_cases [OF CloseSession(2)] gone_ok_queue assms(2) by auto
next
  case (Cancel channel)
  then show ?thesis using assms(2) by (simp add: gone_ok_def drop_reply_def)
qed (use assms(2) in \<open>auto intro: gone_ok_end gone_ok_send gone_ok_receive\<close>)

lemma traced_client:
  assumes "traced n channel request k" "cl_worker c = cl_worker (con_client k)" "cl_channels (con_client k) \<le> cl_channels c"
    and "\<And>p. p \<in> pending c \<Longrightarrow> p \<in> pending (con_client k) \<or> cl_channels (con_client k) \<le> pend_reply p"
  shows "traced n channel request (k\<lparr>con_client := c\<rparr>)"
proof -
  have "pend_request p = request" if "p \<in> pending c" "pend_reply p = channel" for p
    using assms(4) [OF that(1)] that(2) assms(1) by (auto simp: traced_def)
  then show ?thesis using assms(1-3) by (simp add: traced_def)
qed

lemma traced_queue:
  assumes "traced n channel request k" "queue_request q (con_client k) = Some (channel', c)"
  shows "traced n channel request (k\<lparr>con_client := c\<rparr>)"
  using pending_queue [OF assms(2)] queue_request_Some [OF assms(2)] by (intro traced_client [OF assms(1)]) auto

lemma traced_cong:
  "traced n channel request (k\<lparr>con_client := c\<rparr>) \<Longrightarrow> con_client k' = c \<Longrightarrow> con_delivered k' = con_delivered k
    \<Longrightarrow> traced n channel request k'"
  by (simp add: traced_def)

lemma traced_step:
  assumes "conn_step arch describe show_error k k'" "traced n channel request k"
  shows "traced n channel request k'"
  using assms
proof cases
  case (Exchange q r c)
  then show ?thesis using exchange_begin_cases [OF Exchange(2)] assms(2) traced_queue by auto
next
  case (Finish channel' timed_out r c)
  then show ?thesis
    using exchange_end_simps [OF Finish(3)] pending_end [OF Finish(3)] unfolding Finish(1) by (intro traced_client [OF assms(2)]) simp_all
next
  case (Cancel channel')
  show ?thesis unfolding Cancel(1) by (intro traced_client [OF assms(2)]) simp_all
next
  case (CloseSession session c)
  then show ?thesis
    using client_close_cases [OF CloseSession(2)] traced_queue [OF assms(2)] assms(2) by (auto simp: traced_def)
next
  case (Write now as c out junk)
  have "traced n channel request (k\<lparr>con_client := c\<rparr>)"
    using Write(3) by (cases rule: worker_send_cases)
      (use pending_send [OF Write(3,2)] Write(2) assms(2) in \<open>auto simp: traced_def pending_def\<close>)
  then show ?thesis using Write(1) by (auto intro: traced_cong)
next
  case (Deliver p now as response c inp)
  have p: "p \<in> pending (con_client k)" using Deliver(2) by (simp add: pending_def)
  show ?thesis
    using Deliver(3) by (cases rule: worker_receive_cases)
      (use Deliver(1,2) p pending_receive [OF Deliver(3,2)] assms(2) in
        \<open>auto simp: traced_def nth_append less_Suc_eq split: if_splits\<close>)
next
  case (Fail p now as c inp)
  have "traced n channel request (k\<lparr>con_client := c\<rparr>)"
    using Fail(3) by (cases rule: worker_receive_cases)
      (use pending_receive [OF Fail(3,2)] assms(2) in \<open>auto simp: traced_def\<close>)
  then show ?thesis using Fail(1) by (auto intro: traced_cong)
qed (use assms(2) in \<open>simp_all add: traced_def\<close>)

lemma steps_preserve:
  assumes "(conn_step arch describe show_error)\<^sup>*\<^sup>* k k'"
  shows "in_step arch k \<Longrightarrow> in_step arch k'" "channels_ok k \<Longrightarrow> channels_ok k'"
    "traced n channel request k \<Longrightarrow> traced n channel request k'" "gone_ok (con_client k) \<Longrightarrow> gone_ok (con_client k')"
  using assms by (induction rule: rtranclp_induct) (auto intro: in_step_step channels_ok_step traced_step gone_ok_step)

lemma in_step_prefix:
  assumes "in_step arch k"
  shows "take (length (con_delivered k)) (con_handled k) = stripped k" "length (con_delivered k) \<le> length (con_handled k)"
  using assms by (auto simp: in_step_def split: worker.splits)

lemma traced_begin:
  assumes "in_step arch k" "channels_ok k" "queue_request request (con_client k) = Some (channel, c)"
  shows "traced (length (con_handled k)) channel request (k\<lparr>con_client := c\<rparr>)"
proof -
  note q = queue_request_Some [OF assms(3)]
  have new: "channel' \<noteq> channel" if "(r, channel', x) \<in> set (con_delivered k)" for r channel' x
    using assms(2) that q by (auto simp: channels_ok_def)
  have "fst (snd (con_delivered k ! i)) \<noteq> channel" if "i < length (con_delivered k)" for i
    using new nth_mem [OF that] by (metis prod.collapse)
  moreover have "pend_reply p \<noteq> channel" if "p \<in> pending (con_client k)" for p
    using assms(2) that q by (auto simp: channels_ok_def)
  ultimately show ?thesis
    using q pending_queue [OF assms(3)] assms(1)
    by (cases "cl_worker (con_client k)") (auto simp: traced_def in_step_def pending_def)
qed

section \<open>A request is answered\<close>

lemma worker_send_progress:
  assumes "cl_queue c = [p]" "pend_reply p \<notin> set (cl_gone c)"
    and "encode MonitorRequest_wire (pend_request p) MAX_REQUEST = Inr bs"
    and "timely (now + TIMEOUT) as" "length bs + 4 \<le> transfers as"
  shows "worker_send show_error now as (c, out) = Some (c\<lparr>cl_queue := [], cl_worker := Waiting p\<rparr>, out @ frame bs)"
proof -
  obtain as' where "send MonitorRequest_wire (pend_request p) MAX_REQUEST now out as = Some (Inr (out @ frame bs, as'))"
    using send_frame [OF assms(3-5)] by blast
  then show ?thesis using assms(1,2) by (simp add: worker_send_def Let_def)
qed

lemma worker_receive_progress:
  assumes "WireResponse_ok arch r" "encode (WireResponse_wire arch) r MAX_RESPONSE = Inr bs"
    and "timely (now + TIMEOUT) as" "length bs + 4 \<le> transfers as"
  shows "worker_receive arch show_error now as p (c, frame bs) =
    Some (Some r, c\<lparr>cl_worker := Idle, cl_replies := (cl_replies c)(pend_reply p \<mapsto> r)\<rparr>, [])"
proof -
  obtain as' where "read_message (WireResponse_wire arch) MAX_RESPONSE now (frame bs @ []) as = Some (Inr (r, [], as'))"
    using wire_response.delivery [OF assms(1-4,3,4)] by blast
  then show ?thesis by (simp add: worker_receive_def)
qed

lemma exchange_run:
  assumes idle: "in_step arch k" "channels_ok k" "cl_worker (con_client k) = Idle" "cl_queue (con_client k) = []"
      "gone_ok (con_client k)"
    and it: "host_ok arch (it_host it)" "it_poll (it :: iteration) = Ready"
    and enc: "encode MonitorRequest_wire request MAX_REQUEST = Inr bs"
    and res: "sent_reply arch (wire_reply describe (fst (dispatch (it_host it) request (expire (it_expire it) (con_service k))))) = response"
      "encode (WireResponse_wire arch) response MAX_RESPONSE = Inr reply"
    and tx: "timely (t1 + TIMEOUT) as1" "length bs + 4 \<le> transfers as1"
    and rx: "timely (it_read_time it + TIMEOUT) (it_reads it)" "length bs + 4 \<le> transfers (it_reads it)"
    and tx': "timely (it_send_time it + TIMEOUT) (it_writes it)" "length reply + 4 \<le> transfers (it_writes it)"
      "timely (it_resend_time it + TIMEOUT) (it_rewrites it)" "length reply + 4 \<le> transfers (it_rewrites it)"
    and rx': "timely (t2 + TIMEOUT) as2" "length reply + 4 \<le> transfers as2"
  shows "\<exists>c k' c'. exchange_begin request (RemoteBackend (con_client k)) = (Inr (cl_channels (con_client k)), RemoteBackend c)
    \<and> (conn_step arch describe show_error)\<^sup>*\<^sup>* (k\<lparr>con_client := c\<rparr>) k'
    \<and> exchange_end (cl_channels (con_client k)) False (con_client k') = Some (map_sum HelperError id response, c')"
proof -
  let ?ch = "cl_channels (con_client k)" and ?cl = "con_client k"
  let ?p = "\<lparr>pend_request = request, pend_reply = ?ch\<rparr>"
  define c where "c = ?cl\<lparr>cl_queue := [?p], cl_channels := ?ch + 1\<rparr>"
  define k1 where "k1 = k\<lparr>con_client := c\<lparr>cl_queue := [], cl_worker := Waiting ?p\<rparr>, con_requests := frame bs\<rparr>"
  have empty: "con_requests k = []" "con_replies k = []" using idle(1,3) by (simp_all add: in_step_def)
  have started: "exchange_begin request (RemoteBackend ?cl) = (Inr ?ch, RemoteBackend c)"
    using idle(3,4) by (simp add: exchange_begin_def queue_request_def REQUEST_QUEUE_def c_def)
  have "worker_send show_error t1 as1 (c, []) = Some (c\<lparr>cl_queue := [], cl_worker := Waiting ?p\<rparr>, [] @ frame bs)"
    by (rule worker_send_progress [of c ?p]) (use idle(5) enc tx in \<open>auto simp: c_def gone_ok_def\<close>)
  from conn_step.Write [of "k\<lparr>con_client := c\<rparr>" show_error t1 as1 _ _ "[]"] this
  have s1: "conn_step arch describe show_error (k\<lparr>con_client := c\<rparr>) k1"
    using idle(3) empty by (simp add: c_def k1_def)
  have ok: "WireResponse_ok arch response" unfolding res(1) [symmetric] by (rule sent_reply_ok [OF it(1)])
  obtain s where serve: "serve_step arch describe it (con_service k1, \<lparr>incoming = con_requests k1, outgoing = con_replies k1\<rparr>)
      = Some (Inr (s, \<lparr>incoming = [], outgoing = frame reply\<rparr>))"
    using serve_step_answers [OF it enc _ rx, of "\<lparr>incoming = con_requests k1, outgoing = con_replies k1\<rparr>" "[]"] res tx' empty
    by (auto simp: k1_def)
  obtain as where read: "read_message MonitorRequest_wire MAX_REQUEST (it_read_time it) (con_requests k1) (it_reads it) = Some (Inr (request, [], as))"
    using monitor_request.delivery [OF TrueI enc rx rx, of "[]" "[]"] by (auto simp: k1_def)
  define k2 where "k2 = k1\<lparr>con_service := s, con_requests := [], con_replies := frame reply,
      con_handled := con_handled k1 @ [(request, response)]\<rparr>"
  have s2: "conn_step arch describe show_error k1 k2"
    using conn_step.Serve [OF it(2,1) read serve] res(1) by (simp add: k1_def k2_def)
  define c3 where "c3 = (con_client k2)\<lparr>cl_worker := Idle, cl_replies := (cl_replies (con_client k2))(?ch \<mapsto> response)\<rparr>"
  have s3: "conn_step arch describe show_error k2 (k2\<lparr>con_client := c3, con_replies := [],
      con_delivered := con_delivered k2 @ [(request, ?ch, response)]\<rparr>)"
    using conn_step.Deliver [of k2 ?p arch show_error t2 as2 response c3 "[]"] worker_receive_progress [OF ok res(2) rx']
    by (simp add: k1_def k2_def c3_def)
  have "exchange_end ?ch False c3 = Some (map_sum HelperError id response, drop_reply ?ch c3)"
    by (cases response) (simp_all add: exchange_end_def c3_def)
  moreover have "(conn_step arch describe show_error)\<^sup>*\<^sup>* (k\<lparr>con_client := c\<rparr>) (k2\<lparr>con_client := c3, con_replies := [],
      con_delivered := con_delivered k2 @ [(request, ?ch, response)]\<rparr>)"
    using s1 s2 s3 by (meson rtranclp.rtrancl_into_rtrancl rtranclp.rtrancl_refl)
  ultimately show ?thesis using started by (intro exI [of _ c]) fastforce
qed

section \<open>Properties\<close>

text \<open>C13: replies never match another request. However callers, cancellations, timeouts, the worker and the helper interleave, an exchange
  that returns a response returns the helper's reply to its own request, handled after the exchange had started; and the
  replies read by the client are the helper's replies from the beginning, one for each request, in order.\<close>

theorem replies_answer_requests:
  assumes "(conn_step arch describe show_error)\<^sup>*\<^sup>* (connected s) k"
    and "exchange_begin request (RemoteBackend (con_client k)) = (Inr channel, RemoteBackend c)"
    and "(conn_step arch describe show_error)\<^sup>*\<^sup>* (k\<lparr>con_client := c\<rparr>) k'"
    and "exchange_end channel timed_out (con_client k') = Some (Inr response, c')"
  shows "(\<exists>i. length (con_handled k) \<le> i \<and> i < length (con_handled k') \<and> con_handled k' ! i = (request, Inr response))
    \<and> map (\<lambda>(q, _, r). (q, r)) (con_delivered k') = take (length (con_delivered k')) (con_handled k')"
proof -
  have q: "queue_request request (con_client k) = Some (channel, c)"
    using exchange_begin_cases [OF assms(2)] by auto
  have k: "in_step arch k" "channels_ok k"
    using steps_preserve [OF assms(1)] in_step_new channels_ok_new by blast+
  have start: "in_step arch (k\<lparr>con_client := c\<rparr>)" "channels_ok (k\<lparr>con_client := c\<rparr>)"
      "traced (length (con_handled k)) channel request (k\<lparr>con_client := c\<rparr>)"
    using k queue_request_Some [OF q] in_step_queue channels_ok_queue [OF k(2) q] traced_begin [OF k q] by simp_all
  note k' = steps_preserve(1) [OF assms(3) start(1)] steps_preserve(2) [OF assms(3) start(2)] steps_preserve(3) [OF assms(3) start(3)]
  have "cl_replies (con_client k') channel = Some (Inr response)"
    using assms(4) by (auto simp: exchange_end_def split: option.splits sum.splits if_splits)
  then obtain r where "(r, channel, Inr response) \<in> set (con_delivered k')"
    using k'(2) unfolding channels_ok_def by blast
  then obtain i where i: "i < length (con_delivered k')" "con_delivered k' ! i = (r, channel, Inr response)"
    by (auto simp: in_set_conv_nth)
  moreover have "r = request" "length (con_handled k) \<le> i" using k'(3) i unfolding traced_def by force+
  moreover have "con_handled k' ! i = (r, Inr response)"
    using in_step_prefix [OF k'(1)] i by (metis (mono_tags, lifting) nth_take nth_map prod.case)
  ultimately show ?thesis using in_step_prefix [OF k'(1)] by (auto intro!: exI [of _ i])
qed


lemma sample_exchange:
  "\<exists>c k' c'. exchange_begin (MonitorRequest.Close 1) (RemoteBackend (con_client (connected sample_service))) = (Inr 0, RemoteBackend c)
    \<and> (conn_step X86_64 (\<lambda>_. []) (\<lambda>_. []))\<^sup>*\<^sup>* ((connected sample_service)\<lparr>con_client := c\<rparr>) k'
    \<and> exchange_end 0 False (con_client k') = Some (Inr MonitorResponse.Closed, c')"
proof -
  have idle: "cl_worker (con_client (connected sample_service)) = Idle" "cl_queue (con_client (connected sample_service)) = []"
      "gone_ok (con_client (connected sample_service))" "cl_channels (con_client (connected sample_service)) = 0"
      "con_service (connected sample_service) = sample_service"
    by (simp_all add: connected_def MonitorClient_new_def gone_ok_def)
  have t: "timely (0 + TIMEOUT) (byte_attempts 13)" "length close_bytes + 4 \<le> transfers (byte_attempts 13)"
      "timely (0 + TIMEOUT) (byte_attempts 6)" "length [0 :: byte, 5] + 4 \<le> transfers (byte_attempts 6)"
    by (simp_all add: byte_attempts_progress TIMEOUT_def close_bytes_def)
  from exchange_run [OF in_step_new channels_ok_new idle(1-3) sample_iteration_ok(1,2) close_encode _ closed_encode t(1,2)
      sample_iteration_ok(4-9) t(3,4), of "\<lambda>_. []" "\<lambda>_. []"]
  show ?thesis using sample_reply idle by simp
qed

theorem replies_answer_requests_witness:
  "\<exists>k' :: connection. \<exists>i. 0 \<le> i \<and> i < length (con_handled k') \<and> con_handled k' ! i = (MonitorRequest.Close 1, Inr MonitorResponse.Closed)"
proof -
  obtain c k' c' where run: "exchange_begin (MonitorRequest.Close 1) (RemoteBackend (con_client (connected sample_service))) = (Inr 0, RemoteBackend c)"
      "(conn_step X86_64 (\<lambda>_. []) (\<lambda>_. []))\<^sup>*\<^sup>* ((connected sample_service)\<lparr>con_client := c\<rparr>) k'"
      "exchange_end 0 False (con_client k') = Some (Inr MonitorResponse.Closed, c')"
    using sample_exchange by blast
  from replies_answer_requests [OF rtranclp.rtrancl_refl run] show ?thesis
    by (auto simp: connected_def)
qed


end
