(* ===== verification/Socket_Names.thy ===== *)
theory Socket_Names
  imports Text Ipc_System
begin

text \<open>
  Kernel codes of sockets and descriptors and their texts (\<open>src/ipc/model/socket_types.rs\<close>), what a socket table entry says of a
  connection (\<open>src/ipc/model/sockets.rs\<close>), its public form (\<open>src/ipc/model/system.rs\<close>), and the texts of
  the standard library's addresses. The numbers of address families, socket types and protocols are Linux's.
\<close>

unbundle bit_operations_syntax

section \<open>Codes\<close>

definition SocketType_from_code :: "u32 \<Rightarrow> SocketType" where
  "SocketType_from_code code =
     (if code = 1 then SocketType.Stream
      else if code = 2 then SocketType.Dgram
      else if code = 3 then SocketType.Raw
      else if code = 4 then SocketType.Rdm
      else if code = 5 then SocketType.Seqpacket
      else if code = 6 then SocketType.Dccp
      else if code = 10 then SocketType.Packet
      else SocketType.Unknown code)"

definition AF_UNIX :: u32 where "AF_UNIX = 1"
definition AF_INET :: u32 where "AF_INET = 2"
definition AF_INET6 :: u32 where "AF_INET6 = 10"
definition AF_NETLINK :: u32 where "AF_NETLINK = 16"
definition AF_PACKET :: u32 where "AF_PACKET = 17"
definition AF_CAN :: u32 where "AF_CAN = 29"
definition AF_BLUETOOTH :: u32 where "AF_BLUETOOTH = 31"
definition AF_ALG :: u32 where "AF_ALG = 38"
definition AF_VSOCK :: u32 where "AF_VSOCK = 40"
definition AF_XDP :: u32 where "AF_XDP = 44"
definition SOCK_STREAM :: u32 where "SOCK_STREAM = 1"
definition SOCK_DGRAM :: u32 where "SOCK_DGRAM = 2"
definition IPPROTO_TCP :: u32 where "IPPROTO_TCP = 6"
definition IPPROTO_UDP :: u32 where "IPPROTO_UDP = 17"
definition O_PATH :: u32 where "O_PATH = 0x200000"
definition O_ACCMODE :: u32 where "O_ACCMODE = 3"

definition is_tcp :: "SocketProtocol \<Rightarrow> bool" where
  "is_tcp p = (case p of SocketProtocol.Tcp _ \<Rightarrow> True | _ \<Rightarrow> False)"

definition is_tcp_or_udp :: "SocketProtocol \<Rightarrow> bool" where
  "is_tcp_or_udp p = (case p of SocketProtocol.Tcp _ \<Rightarrow> True | SocketProtocol.Udp _ \<Rightarrow> True | _ \<Rightarrow> False)"

definition SocketProtocol_from_codes :: "u32 \<Rightarrow> u32 \<Rightarrow> u32 \<Rightarrow> SocketProtocol" where
  "SocketProtocol_from_codes family socket_type protocol =
     (let inet = (if family = AF_INET then Some AddressFamily.Ipv4
          else if family = AF_INET6 then Some AddressFamily.Ipv6 else None) in
      case inet of
        Some f \<Rightarrow>
          if socket_type = SOCK_STREAM \<and> protocol = IPPROTO_TCP then SocketProtocol.Tcp f
          else if socket_type = SOCK_DGRAM \<and> protocol = IPPROTO_UDP then SocketProtocol.Udp f
          else SocketProtocol.Other family (Some (SocketType_from_code socket_type)) protocol
      | None \<Rightarrow>
          if family = AF_UNIX then SocketProtocol.Unix (SocketType_from_code socket_type)
          else SocketProtocol.Other family (Some (SocketType_from_code socket_type)) protocol)"

definition SocketState_inet :: "u32 \<Rightarrow> SocketState" where
  "SocketState_inet code =
     (if code = 1 then SocketState.Established
      else if code = 2 then SocketState.SynSent
      else if code = 3 then SocketState.SynRecv
      else if code = 4 then SocketState.FinWait1
      else if code = 5 then SocketState.FinWait2
      else if code = 6 then SocketState.TimeWait
      else if code = 7 then SocketState.Close
      else if code = 8 then SocketState.CloseWait
      else if code = 9 then SocketState.LastAck
      else if code = 10 then SocketState.Listen
      else if code = 11 then SocketState.Closing
      else if code = 12 then SocketState.NewSynRecv
      else SocketState.UnknownInet code)"

definition SocketState_unix_proc :: "u32 \<Rightarrow> bool \<Rightarrow> SocketState" where
  "SocketState_unix_proc code is_listening =
     (if is_listening then SocketState.Listen
      else if code = 1 then SocketState.Unconnected
      else if code = 2 then SocketState.Connecting
      else if code = 3 then SocketState.Connected
      else if code = 4 then SocketState.Disconnecting
      else SocketState.UnknownUnix code)"

definition SocketState_unix_diag :: "u32 \<Rightarrow> SocketState" where
  "SocketState_unix_diag code =
     (if code = 1 then SocketState.Connected
      else if code = 10 then SocketState.Listen
      else if code = 7 then SocketState.Unconnected
      else SocketState.UnknownUnix code)"

definition FdAccess_from_mode :: "u32 option \<Rightarrow> FdAccess" where
  "FdAccess_from_mode mode =
     (if mode = Some 0 then FdAccess.Read
      else if mode = Some 1 then FdAccess.Write
      else if mode = Some 2 then FdAccess.ReadWrite
      else FdAccess.Unknown)"

definition FdAccess_from_flags :: "u32 \<Rightarrow> FdAccess" where
  "FdAccess_from_flags flags =
     (if flags = - 1 \<or> flags AND O_PATH \<noteq> 0 then FdAccess.Unknown
      else FdAccess_from_mode (Some (flags AND O_ACCMODE)))"

definition opposite :: "FdAccess \<Rightarrow> FdAccess \<Rightarrow> bool" where
  "opposite a b =
     (case a of
        FdAccess.Read \<Rightarrow> b = FdAccess.Write \<or> b = FdAccess.ReadWrite
      | FdAccess.Write \<Rightarrow> b = FdAccess.Read \<or> b = FdAccess.ReadWrite
      | FdAccess.ReadWrite \<Rightarrow> b = FdAccess.Read \<or> b = FdAccess.Write \<or> b = FdAccess.ReadWrite
      | FdAccess.Unknown \<Rightarrow> False)"

section \<open>Texts\<close>

definition SocketType_text :: "SocketType \<Rightarrow> rstring" where
  "SocketType_text t =
     (case t of
        SocketType.Stream \<Rightarrow> lit ''STREAM''
      | SocketType.Dgram \<Rightarrow> lit ''DGRAM''
      | SocketType.Raw \<Rightarrow> lit ''RAW''
      | SocketType.Rdm \<Rightarrow> lit ''RDM''
      | SocketType.Seqpacket \<Rightarrow> lit ''SEQPACKET''
      | SocketType.Dccp \<Rightarrow> lit ''DCCP''
      | SocketType.Packet \<Rightarrow> lit ''PACKET''
      | SocketType.Unknown code \<Rightarrow> lit ''TYPE '' @ show_dec (unat code))"

definition netlink_name :: "u32 \<Rightarrow> rstring option" where
  "netlink_name protocol = map_option lit (map_of
     [(0, ''ROUTE''), (1, ''UNUSED''), (2, ''USERSOCK''), (3, ''FIREWALL''), (4, ''SOCK_DIAG''), (5, ''NFLOG''), (6, ''XFRM''),
      (7, ''SELINUX''), (8, ''ISCSI''), (9, ''AUDIT''), (10, ''FIB_LOOKUP''), (11, ''CONNECTOR''), (12, ''NETFILTER''),
      (13, ''IP6_FW''), (14, ''DNRTMSG''), (15, ''KOBJECT_UEVENT''), (16, ''GENERIC''), (18, ''SCSITRANSPORT''),
      (19, ''ECRYPTFS''), (20, ''RDMA''), (21, ''CRYPTO''), (22, ''SMC'')] protocol)"

definition protocol_text :: "u32 \<Rightarrow> rstring" where
  "protocol_text protocol = lit ''PROTOCOL '' @ show_dec (unat protocol)"

definition raw_protocol_text :: "u32 \<Rightarrow> rstring" where
  "raw_protocol_text protocol =
     (if protocol = 1 then lit ''ICMP''
      else if protocol = 2 then lit ''IGMP''
      else if protocol = 6 then lit ''TCP''
      else if protocol = 17 then lit ''UDP''
      else if protocol = 58 then lit ''ICMPV6''
      else protocol_text protocol)"

definition family_text :: "u32 \<Rightarrow> rstring" where
  "family_text family =
     (if family = AF_INET then lit ''INET''
      else if family = AF_INET6 then lit ''INET6''
      else if family = AF_PACKET then lit ''PACKET''
      else if family = AF_VSOCK then lit ''VSOCK''
      else if family = AF_BLUETOOTH then lit ''BLUETOOTH''
      else if family = AF_CAN then lit ''CAN''
      else if family = AF_ALG then lit ''ALG''
      else if family = AF_XDP then lit ''XDP''
      else lit ''AF '' @ show_dec (unat family))"

definition SocketProtocol_text :: "SocketProtocol \<Rightarrow> rstring" where
  "SocketProtocol_text p =
     (case p of
        SocketProtocol.Tcp family \<Rightarrow> if family = AddressFamily.Ipv6 then lit ''TCP6'' else lit ''TCP''
      | SocketProtocol.Udp family \<Rightarrow> if family = AddressFamily.Ipv6 then lit ''UDP6'' else lit ''UDP''
      | SocketProtocol.Unix socket_type \<Rightarrow> lit ''UNIX '' @ SocketType_text socket_type
      | SocketProtocol.Other family socket_type protocol \<Rightarrow>
          if family = AF_NETLINK then
            lit ''NETLINK '' @ (case netlink_name protocol of Some name \<Rightarrow> name | None \<Rightarrow> protocol_text protocol)
            @ (case socket_type of Some (SocketType.Unknown code) \<Rightarrow> lit '' TYPE '' @ show_dec (unat code) | _ \<Rightarrow> [])
          else if (family = AF_INET \<or> family = AF_INET6) \<and> socket_type = Some SocketType.Raw then
            lit ''RAW'' @ (if family = AF_INET6 then lit ''6'' else []) @ lit '' '' @ raw_protocol_text protocol
          else
            family_text family
            @ (case socket_type of Some t \<Rightarrow> lit '' '' @ SocketType_text t | None \<Rightarrow> [])
            @ (if \<not> (family = AF_PACKET \<or> family = AF_VSOCK) \<or> protocol \<noteq> 0 then lit '' '' @ protocol_text protocol else []))"

text \<open>\<open>{n:02X}\<close>.\<close>

definition upper_hex2 :: "u32 \<Rightarrow> rstring" where
  "upper_hex2 n =
     (let digits = map (\<lambda>c. if code_point c \<ge> 97 then chr (code_point c - 32) else c) (show_hex (unat n)) in
      replicate (2 - length digits) (ch CHR ''0'') @ digits)"

definition SocketState_text :: "SocketState \<Rightarrow> rstring" where
  "SocketState_text s =
     (case s of
        SocketState.Established \<Rightarrow> lit ''ESTABLISHED''
      | SocketState.SynSent \<Rightarrow> lit ''SYN_SENT''
      | SocketState.SynRecv \<Rightarrow> lit ''SYN_RECV''
      | SocketState.FinWait1 \<Rightarrow> lit ''FIN_WAIT1''
      | SocketState.FinWait2 \<Rightarrow> lit ''FIN_WAIT2''
      | SocketState.TimeWait \<Rightarrow> lit ''TIME_WAIT''
      | SocketState.Close \<Rightarrow> lit ''CLOSE''
      | SocketState.CloseWait \<Rightarrow> lit ''CLOSE_WAIT''
      | SocketState.LastAck \<Rightarrow> lit ''LAST_ACK''
      | SocketState.Listen \<Rightarrow> lit ''LISTEN''
      | SocketState.Closing \<Rightarrow> lit ''CLOSING''
      | SocketState.NewSynRecv \<Rightarrow> lit ''NEW_SYN_RECV''
      | SocketState.Unconnected \<Rightarrow> lit ''UNCONNECTED''
      | SocketState.Connecting \<Rightarrow> lit ''CONNECTING''
      | SocketState.Connected \<Rightarrow> lit ''CONNECTED''
      | SocketState.Disconnecting \<Rightarrow> lit ''DISCONNECTING''
      | SocketState.UnknownInet n \<Rightarrow> upper_hex2 n
      | SocketState.UnknownUnix n \<Rightarrow> upper_hex2 n)"

definition FdKind_text :: "FdKind \<Rightarrow> rstring" where
  "FdKind_text k = (case k of FdKind.Pipe \<Rightarrow> lit ''pipe'' | FdKind.Socket \<Rightarrow> lit ''socket'' | FdKind.Fifo \<Rightarrow> lit ''fifo'')"

definition FdAccess_text :: "FdAccess \<Rightarrow> rstring" where
  "FdAccess_text a =
     (case a of
        FdAccess.Read \<Rightarrow> lit ''read''
      | FdAccess.Write \<Rightarrow> lit ''write''
      | FdAccess.ReadWrite \<Rightarrow> lit ''read/write''
      | FdAccess.Unknown \<Rightarrow> lit ''N/A'')"

section \<open>Addresses\<close>

fun joined :: "rstring \<Rightarrow> rstring list \<Rightarrow> rstring" where
  "joined sep [] = []"
| "joined sep [s] = s"
| "joined sep (s # t # ss) = s @ sep @ joined sep (t # ss)"

definition Ipv4Addr_text :: "Ipv4Addr \<Rightarrow> rstring" where
  "Ipv4Addr_text ip = joined (lit ''.'') (map (\<lambda>b. show_dec (unat b)) (elems ip))"

fun segments :: "byte list \<Rightarrow> nat list" where
  "segments (a # b # bs) = (256 * unat a + unat b) # segments bs"
| "segments _ = []"

text \<open>The first longest run of zero segments: start and length.\<close>

fun longest_zeros :: "nat \<Rightarrow> nat \<times> nat \<Rightarrow> nat \<times> nat \<Rightarrow> nat list \<Rightarrow> nat \<times> nat" where
  "longest_zeros i current longest [] = longest"
| "longest_zeros i current longest (s # ss) =
     (if s = 0 then
        (let current = (if snd current = 0 then (i, 1) else (fst current, snd current + 1)) in
         longest_zeros (i + 1) current (if snd longest < snd current then current else longest) ss)
      else longest_zeros (i + 1) (0, 0) longest ss)"

definition Ipv6Addr_text :: "Ipv6Addr \<Rightarrow> rstring" where
  "Ipv6Addr_text ip =
     (case to_ipv4_mapped ip of
        Some v4 \<Rightarrow> lit ''::ffff:'' @ Ipv4Addr_text v4
      | None \<Rightarrow>
          (let ss = segments (elems ip); (start, len) = longest_zeros 0 (0, 0) (0, 0) ss;
               text = (\<lambda>ss. joined (lit '':'') (map show_hex ss)) in
           if 1 < len then text (take start ss) @ lit ''::'' @ text (drop (start + len) ss) else text ss))"

fun SocketAddr_text :: "SocketAddr \<Rightarrow> rstring" where
  "SocketAddr_text (SocketV4 ip port) = Ipv4Addr_text ip @ lit '':'' @ show_dec (unat port)"
| "SocketAddr_text (SocketV6 ip port flow scope) =
     lit ''['' @ Ipv6Addr_text ip @ (if scope = 0 then [] else lit ''%'' @ show_dec (unat scope)) @ lit '']:'' @ show_dec (unat port)"

section \<open>Connections\<close>

definition InetAddress_from :: "SocketAddr \<Rightarrow> InetAddress" where
  "InetAddress_from a = \<lparr>inet_ip = socket_ip a, inet_port = socket_port a\<rparr>"

text \<open>An address that a peer can have.\<close>

definition peer_address :: "SocketAddr \<Rightarrow> bool" where
  "peer_address a \<longleftrightarrow> socket_port a \<noteq> 0 \<and> \<not> is_unspecified (socket_ip a)"

definition connection_status :: "SocketInfo \<Rightarrow> SocketConnectionStatus \<Rightarrow> SocketConnectionStatus" where
  "connection_status info observed =
     (if observed \<noteq> SocketConnectionStatus.Unknown then observed
      else if si_state info = Some SocketState.Listen then SocketConnectionStatus.Listening
      else if si_peer_inode info \<noteq> None 
        \<or> is_tcp_or_udp (si_protocol info) \<and> (case si_remote info of Some remote \<Rightarrow> peer_address remote | None \<Rightarrow> False)
      then SocketConnectionStatus.PeerPresent
      else SocketConnectionStatus.Unknown)"

definition SocketEndpoint_from :: "SocketInfo \<Rightarrow> SocketEndpoint" where
  "SocketEndpoint_from info = \<lparr>ske_protocol = si_protocol info, ske_state = si_state info,
     ske_local = map_option InetAddress_from (si_local info), ske_remote = map_option InetAddress_from (si_remote info),
     ske_path = si_path info,
     ske_network_peer = (is_tcp_or_udp (si_protocol info) \<and> si_state info \<noteq> Some SocketState.Listen
       \<and> (case si_remote info of Some remote \<Rightarrow> peer_address remote | None \<Rightarrow> False)),
     ske_remote_hostname = None, ske_remote_gid = None\<rparr>"

end
