(* ===== verification/Hash_Map.thy ===== *)
theory Hash_Map
  imports "HOL-Library.AList" "HOL-Library.Multiset"
begin

text \<open>
  Hash maps of the standard library: association lists with distinct keys. The order in which one is iterated is not
  specified; a definition that iterates a map takes that order as an argument.
\<close>

section \<open>Maps\<close>

text \<open>\<open>collect\<close> into a map: later entries of a key replace earlier ones.\<close>

definition hash_map :: "('k \<times> 'v) list \<Rightarrow> ('k \<times> 'v) list" where
  "hash_map kvs = fold (\<lambda>(k, v) m. AList.update k v m) kvs []"

definition reordered :: "('k list \<Rightarrow> 'k list) \<Rightarrow> ('k \<times> 'v) list \<Rightarrow> ('k \<times> 'v) list" where
  "reordered order m = List.map_filter (\<lambda>k. map_option (\<lambda>v. (k, v)) (map_of m k)) (order (map fst m))"

section \<open>Contents\<close>

lemma hash_map_lookup: "map_of (hash_map kvs) = map_of (rev kvs)"
proof -
  have "map_of (fold (\<lambda>(k, v) m. AList.update k v m) kvs m) = map_of m ++ map_of (rev kvs)" for m
    by (induction kvs arbitrary: m) (auto simp: update_conv' fun_eq_iff map_add_def split: option.splits)
  then show ?thesis by (simp add: hash_map_def)
qed

lemma hash_map_keys: "distinct (map fst (hash_map kvs))"
proof -
  have "distinct (map fst (fold (\<lambda>(k, v) m. AList.update k v m) kvs m))" if "distinct (map fst m)" for m
    using that by (induction kvs arbitrary: m) (auto simp: distinct_update)
  then show ?thesis by (simp add: hash_map_def)
qed

lemma hash_map_distinct:
  assumes "distinct (map fst kvs)"
  shows "hash_map kvs = kvs"
proof -
  have new: "AList.update k v m = m @ [(k, v)]" if "k \<notin> set (map fst m)" for k v and m :: "('a \<times> 'b) list"
    using that by (induction m) auto
  have "fold (\<lambda>(k, v) m. AList.update k v m) kvs m = m @ kvs" if "distinct (map fst (m @ kvs))" for m
    using that assms
  proof (induction kvs arbitrary: m)
    case (Cons kv kvs)
    obtain k v where "kv = (k, v)" by (cases kv)
    then show ?case using Cons.prems Cons.IH [of "m @ [(k, v)]"] new [of k m v] by simp
  qed simp
  from this [of "[]"] show ?thesis using assms by (simp add: hash_map_def)
qed

lemma reordered_mset:
  assumes "distinct (map fst m)" "mset (order (map fst m)) = mset (map fst m)"
  shows "mset (reordered order m) = mset m"
proof -
  let ?g = "\<lambda>k. (k, the (map_of m k))"
  have "\<forall>k\<in>set (order (map fst m)). map_of m k \<noteq> None"
    using mset_eq_setD [OF assms(2)] by (auto simp: map_of_eq_None_iff)
  moreover have "List.map_filter (\<lambda>k. map_option (\<lambda>v. (k, v)) (map_of m k)) ks = map ?g ks" if "\<forall>k\<in>set ks. map_of m k \<noteq> None" for ks
    using that by (induction ks) (auto simp: map_filter_simps)
  ultimately have "reordered order m = map ?g (order (map fst m))" unfolding reordered_def by blast
  then have "mset (reordered order m) = mset (map ?g (map fst m))" by (metis assms(2) mset_map)
  moreover have "map ?g (map fst m) = m"
    unfolding map_map by (rule map_idI) (use assms(1) in auto)
  ultimately show ?thesis by (simp only:)
qed

lemma reordered_map_of:
  assumes "distinct (map fst m)" "mset (order (map fst m)) = mset (map fst m)"
  shows "map_of (reordered order m) = map_of m" "distinct (map fst (reordered order m))"
    "set (reordered order m) = set m"
proof -
  note same = reordered_mset [of m order, OF assms]
  have "mset (map fst (reordered order m)) = mset (map fst m)" using same by (metis mset_map)
  then show d: "distinct (map fst (reordered order m))" using assms(1) by (metis mset_eq_imp_distinct_iff)
  show e: "set (reordered order m) = set m" using same by (rule mset_eq_setD)
  show "map_of (reordered order m) = map_of m" using d e assms(1) by (metis map_of_inject_set)
qed

end
