(* ===== verification/Fd_Relations.thy ===== *)
theory Fd_Relations
  imports Socket_Names Hash_Map Str_Order System_Monitor "HOL-Library.Product_Lexorder"
begin

text \<open>
  The relations between file descriptors of a captured system (\<open>src/http_server/analysis/relations.rs\<close>). A hash map is an
  association list with distinct keys. The order in which one is iterated is not specified: \<open>by_owner\<close> and \<open>by_socket\<close>
  put the keys of the two maps that are iterated into an order, and what is proved holds for every such order.
\<close>

type_synonym owners = "(IpcIdentity \<times> FdEndpoint list) list"
type_synonym namespace = "u64 \<times> u64"

section \<open>Connection status\<close>

definition endpoint_status ::
  "(u64 \<times> SocketInfo) list \<Rightarrow> (IpcIdentity \<times> SocketConnectionStatus) list \<Rightarrow> IpcIdentity \<Rightarrow> SocketConnectionStatus"
where
  "endpoint_status infos metadata resource =
     (let observed = (case map_of metadata resource of Some s \<Rightarrow> s | None \<Rightarrow> SocketConnectionStatus.Unknown) in
      case map_of infos (ipcid_inode resource) of Some info \<Rightarrow> connection_status info observed | None \<Rightarrow> observed)"

definition set_status ::
  "(u64 \<times> SocketInfo) list \<Rightarrow> (IpcIdentity \<times> SocketConnectionStatus) list \<Rightarrow> IpcIdentity \<times> FdEndpoint list
   \<Rightarrow> IpcIdentity \<times> FdEndpoint list"
where
  "set_status infos metadata = (\<lambda>(resource, endpoints).
     if ipcid_kind resource \<noteq> IpcKind.Socket then (resource, endpoints)
     else (resource, map (\<lambda>e. e\<lparr>fde_connection_status := Some (endpoint_status infos metadata resource)\<rparr>) endpoints))"

text \<open>The descriptors counted in the two warnings.\<close>

definition unknown_socket_types :: "(u64 \<times> SocketInfo) list \<Rightarrow> owners \<Rightarrow> usize" where
  "unknown_socket_types infos owners =
     sum_list (map fde_fd_count (concat (map snd (filter (\<lambda>(resource, _).
       ipcid_kind resource = IpcKind.Socket \<and> map_of infos (ipcid_inode resource) = None) owners))))"

definition unknown_connection_statuses ::
  "(u64 \<times> SocketInfo) list \<Rightarrow> (IpcIdentity \<times> SocketConnectionStatus) list \<Rightarrow> owners \<Rightarrow> usize"
where
  "unknown_connection_statuses infos metadata owners =
     sum_list (map fde_fd_count (concat (map snd (filter (\<lambda>(resource, _).
       ipcid_kind resource = IpcKind.Socket \<and> endpoint_status infos metadata resource = SocketConnectionStatus.Unknown) owners))))"

section \<open>Address tuples\<close>

type_synonym tuple_key = "namespace option \<times> bool \<times> SocketAddr \<times> SocketAddr"

definition tuple_key :: "(u64 \<times> namespace) list \<Rightarrow> u64 \<Rightarrow> SocketInfo \<Rightarrow> tuple_key option" where
  "tuple_key inode_ns inode info =
     (case (si_local info, si_remote info) of
        (Some local, Some remote) \<Rightarrow>
          if is_tcp_or_udp (si_protocol info) \<and> peer_address remote \<and> si_state info \<noteq> Some SocketState.Listen
          then Some (map_of inode_ns inode, is_tcp (si_protocol info), local, remote) else None
      | _ \<Rightarrow> None)"

text \<open>The entry of \<open>reverse\<close> under a key: the inodes with that tuple.\<close>

definition with_tuple :: "(u64 \<times> SocketInfo) list \<Rightarrow> (u64 \<times> namespace) list \<Rightarrow> tuple_key \<Rightarrow> u64 list" where
  "with_tuple infos inode_ns key = map fst (filter (\<lambda>(inode, info). tuple_key inode_ns inode info = Some key) infos)"

text \<open>\<open>by_inode\<close>: the last resource with a socket inode.\<close>

definition by_inode :: "owners \<Rightarrow> u64 \<Rightarrow> IpcIdentity option" where
  "by_inode owners inode = find (\<lambda>k. ipcid_kind k = IpcKind.Socket \<and> ipcid_inode k = inode) (rev (map fst owners))"

section \<open>Matches of an endpoint\<close>

record fd_match =
  ma_peer :: FdEndpoint
  ma_candidate :: bool
  ma_shared :: bool
  ma_label :: rstring

text \<open>The other endpoints of the same resource; \<open>i\<close> and \<open>j\<close> are positions in its list.\<close>

definition own_match :: "FdEndpoint list \<Rightarrow> nat \<Rightarrow> nat \<Rightarrow> fd_match option" where
  "own_match endpoints i j =
     (let e = endpoints ! i; peer = endpoints ! j;
          is_shared = (fde_kind e = FdKind.Socket \<or> \<not> opposite (fde_access e) (fde_access peer)) in
      if fde_process_id e = fde_process_id peer \<and> fde_fd e = fde_fd peer then None
      else if is_shared \<and> i \<noteq> 0 \<and> j \<noteq> 0 then None
      else Some \<lparr>ma_peer = peer, ma_candidate = False, ma_shared = is_shared, ma_label = FdKind_text (fde_kind e)\<rparr>)"

definition own_matches :: "FdEndpoint list \<Rightarrow> nat \<Rightarrow> fd_match list" where
  "own_matches endpoints i = List.map_filter (own_match endpoints i) [0..<length endpoints]"

text \<open>The inodes at the other end of a socket, with the mark of a candidate.\<close>

definition peer_inodes :: "(u64 \<times> SocketInfo) list \<Rightarrow> (u64 \<times> namespace) list \<Rightarrow> u64 \<Rightarrow> SocketInfo \<Rightarrow> (u64 \<times> bool) list" where
  "peer_inodes infos inode_ns inode info =
     (case si_peer_inode info of
        Some peer \<Rightarrow> [(peer, False)]
      | None \<Rightarrow>
          (case (si_local info, si_remote info) of
             (Some local, Some remote) \<Rightarrow>
               if is_tcp_or_udp (si_protocol info) then
                 map (\<lambda>v. (v, True)) (filter (\<lambda>v. v \<noteq> inode)
                   (with_tuple infos inode_ns (map_of inode_ns inode, is_tcp (si_protocol info), remote, local)))
               else []
           | _ \<Rightarrow> []))"

definition socket_matches ::
  "owners \<Rightarrow> (u64 \<times> SocketInfo) list \<Rightarrow> (u64 \<times> namespace) list \<Rightarrow> u64 \<Rightarrow> SocketInfo \<Rightarrow> fd_match list"
where
  "socket_matches owners infos inode_ns inode info =
     concat (map (\<lambda>(peer, is_candidate).
       case Option.bind (by_inode owners peer) (map_of owners) of
         None \<Rightarrow> []
       | Some peers \<Rightarrow> map (\<lambda>p. \<lparr>ma_peer = p, ma_candidate = is_candidate, ma_shared = False,
           ma_label = SocketProtocol_text (si_protocol info)\<rparr>) peers)
       (peer_inodes infos inode_ns inode info))"

definition endpoint_info :: "(u64 \<times> SocketInfo) list \<Rightarrow> IpcIdentity \<Rightarrow> FdEndpoint \<Rightarrow> SocketInfo option" where
  "endpoint_info infos key e = (if fde_kind e = FdKind.Socket then map_of infos (ipcid_inode key) else None)"

definition endpoint_matches ::
  "owners \<Rightarrow> (u64 \<times> SocketInfo) list \<Rightarrow> (u64 \<times> namespace) list \<Rightarrow> IpcIdentity \<Rightarrow> FdEndpoint list \<Rightarrow> nat \<Rightarrow> fd_match list"
where
  "endpoint_matches owners infos inode_ns key endpoints i =
     own_matches endpoints i
     @ (case endpoint_info infos key (endpoints ! i) of
          None \<Rightarrow> []
        | Some info \<Rightarrow> socket_matches owners infos inode_ns (ipcid_inode key) info)"

section \<open>Relations of an endpoint\<close>

definition end_text :: "FdEndpoint \<Rightarrow> rstring" where
  "end_text e = show_int (sint (pid_pid (fde_process_id e))) @ lit '':'' @ show_dec (unat (pid_start_time_ticks (fde_process_id e)))
     @ lit '':'' @ show_dec (unat (fde_fd e))"

definition type_unavailable :: rstring where
  "type_unavailable = lit ''Socket '' @ [chr 0xB7] @ lit '' Type unavailable''"

definition external_label :: "SocketInfo option \<Rightarrow> FdEndpoint \<Rightarrow> rstring" where
  "external_label info e =
     (case info of
        Some i \<Rightarrow> trim (SocketProtocol_text (si_protocol i) @ lit '' ''
          @ (case si_state i of Some s \<Rightarrow> SocketState_text s | None \<Rightarrow> []) @ lit '' ''
          @ (case si_remote i of
               Some v \<Rightarrow> SocketAddr_text v
             | None \<Rightarrow> (case si_path i of Some path \<Rightarrow> path | None \<Rightarrow> [])))
      | None \<Rightarrow> if fde_kind e = FdKind.Socket then type_unavailable else lit ''Unknown peer'')"

definition external_relation :: "SocketInfo option \<Rightarrow> FdEndpoint \<Rightarrow> FdRelation" where
  "external_relation info e = \<lparr>rel_id = end_text e @ lit '':external'', rel_endpoint = e, rel_peer = None,
     rel_label = external_label info e, rel_socket = map_option SocketEndpoint_from info, rel_candidate = False,
     rel_shared = False\<rparr>"

text \<open>The identifier of a pair: its two ends in order.\<close>

definition pair_id :: "FdEndpoint \<Rightarrow> FdEndpoint \<Rightarrow> rstring" where
  "pair_id e peer =
     (let a = end_text e; b = end_text peer in if a \<le> b then a @ lit ''/'' @ b else b @ lit ''/'' @ a)"

definition pair_relation :: "SocketInfo option \<Rightarrow> FdEndpoint \<Rightarrow> fd_match \<Rightarrow> FdRelation" where
  "pair_relation info e m = \<lparr>rel_id = pair_id e (ma_peer m), rel_endpoint = e, rel_peer = Some (ma_peer m),
     rel_label = (if fde_kind e = FdKind.Socket
       then (case info of Some i \<Rightarrow> SocketProtocol_text (si_protocol i) | None \<Rightarrow> type_unavailable) else ma_label m),
     rel_socket = map_option SocketEndpoint_from info, rel_candidate = ma_candidate m, rel_shared = ma_shared m\<rparr>"

definition needs_external :: "SocketInfo option \<Rightarrow> fd_match list \<Rightarrow> bool" where
  "needs_external info matches \<longleftrightarrow> matches = []
     \<or> (case info of Some i \<Rightarrow> ske_network_peer (SocketEndpoint_from i) | None \<Rightarrow> False) \<and> list_all ma_shared matches"

text \<open>The relations that are pushed, and the identifiers seen.\<close>

fun push_pairs :: "SocketInfo option \<Rightarrow> FdEndpoint \<Rightarrow> fd_match list \<Rightarrow> rstring list \<times> FdRelation list \<Rightarrow> rstring list \<times> FdRelation list" where
  "push_pairs info e [] st = st"
| "push_pairs info e (m # ms) (seen, relations) =
     (let r = pair_relation info e m in
      push_pairs info e ms
        (if rel_id r \<in> set seen then (seen, relations) else (rel_id r # seen, relations @ [r])))"

definition MATCH_LIMIT :: nat where "MATCH_LIMIT = 64"
definition RELATION_LIMIT :: nat where "RELATION_LIMIT = 20000"

record build =
  bu_seen :: "rstring list"
  bu_relations :: "FdRelation list"
  bu_truncated :: bool

definition relate_endpoint :: "SocketInfo option \<Rightarrow> FdEndpoint \<Rightarrow> fd_match list \<Rightarrow> build \<Rightarrow> build" where
  "relate_endpoint info e matches b =
     (let relations = bu_relations b @ (if needs_external info matches then [external_relation info e] else []);
          sorted = sort_key ma_shared matches;
          (seen, relations) = push_pairs info e (take MATCH_LIMIT sorted) (bu_seen b, relations) in
      \<lparr>bu_seen = seen, bu_relations = relations, bu_truncated = (bu_truncated b \<or> MATCH_LIMIT < length matches)\<rparr>)"

definition full :: "build \<Rightarrow> bool" where
  "full b \<longleftrightarrow> RELATION_LIMIT \<le> length (bu_relations b)"

text \<open>The inner loop over the endpoints of a resource from position \<open>i\<close>, and the loop over the resources.\<close>

fun relate_endpoints ::
  "owners \<Rightarrow> (u64 \<times> SocketInfo) list \<Rightarrow> (u64 \<times> namespace) list \<Rightarrow> IpcIdentity \<Rightarrow> FdEndpoint list \<Rightarrow> nat list \<Rightarrow> build \<Rightarrow> build"
where
  "relate_endpoints owners infos inode_ns key endpoints [] b = b"
| "relate_endpoints owners infos inode_ns key endpoints (i # is) b =
     (let b = relate_endpoint (endpoint_info infos key (endpoints ! i)) (endpoints ! i)
            (endpoint_matches owners infos inode_ns key endpoints i) b in
      if full b then b\<lparr>bu_truncated := True\<rparr> else relate_endpoints owners infos inode_ns key endpoints is b)"

fun relate_owners :: "owners \<Rightarrow> (u64 \<times> SocketInfo) list \<Rightarrow> (u64 \<times> namespace) list \<Rightarrow> owners \<Rightarrow> build \<Rightarrow> build" where
  "relate_owners owners infos inode_ns [] b = b"
| "relate_owners owners infos inode_ns ((key, endpoints) # rest) b =
     (let b = relate_endpoints owners infos inode_ns key endpoints [0..<length endpoints] b in
      if full b then b else relate_owners owners infos inode_ns rest b)"

section \<open>The snapshot\<close>

definition endpoint_order :: "FdEndpoint \<Rightarrow> int \<times> u64 \<times> u32" where
  "endpoint_order e = (sint (pid_pid (fde_process_id e)), pid_start_time_ticks (fde_process_id e), fde_fd e)"

text \<open>The owners as the main loop finds them: with their status and sorted.\<close>

definition prepared_owners ::
  "(IpcIdentity list \<Rightarrow> IpcIdentity list) \<Rightarrow> (u64 \<times> SocketInfo) list \<Rightarrow> (IpcIdentity \<times> SocketConnectionStatus) list \<Rightarrow> owners \<Rightarrow> owners"
where
  "prepared_owners by_owner infos metadata raw =
     map (\<lambda>(k, es). (k, sort_key endpoint_order es)) (map (set_status infos metadata) (reordered by_owner (hash_map raw)))"

definition count_warning :: "string \<Rightarrow> usize \<Rightarrow> rstring list" where
  "count_warning subject n = (if 0 < n then
     [lit subject @ lit '' unavailable for '' @ show_dec (unat n)
        @ lit '' FDs (closed, unobserved, unsupported, or access denied).''] else [])"

definition add_gid :: "(u64 \<times> namespace) list \<Rightarrow> NeighborSnapshot \<Rightarrow> FdRelation \<Rightarrow> FdRelation" where
  "add_gid inode_ns captured r =
     (case rel_socket r of
        Some s \<Rightarrow>
          if map_of inode_ns (ipcid_inode (fde_resource (rel_endpoint r))) = Some (nbr_namespace captured) \<and> ske_network_peer s then
            r\<lparr>rel_socket := Some (s\<lparr>ske_remote_gid :=
              Option.bind (ske_remote s) (\<lambda>a. map_of (hash_map (nbr_entries captured)) (inet_ip a))\<rparr>)\<rparr>
          else r
      | None \<Rightarrow> r)"

definition build_ipc_relations ::
  "(IpcIdentity list \<Rightarrow> IpcIdentity list) \<Rightarrow> (u64 list \<Rightarrow> u64 list) \<Rightarrow> SystemSnapshot \<Rightarrow> bool \<times> SystemSnapshot"
where
  "build_ipc_relations by_owner by_socket s =
     (let infos = reordered by_socket (hash_map (sys_raw_sockets s));
          inode_ns = hash_map (sys_raw_namespaces s);
          metadata = hash_map (sys_raw_connections s);
          owners = prepared_owners by_owner infos metadata (sys_raw_owners s);
          b = relate_owners owners infos inode_ns owners
            \<lparr>bu_seen = [], bu_relations = sys_fd_relations s, bu_truncated = False\<rparr>;
          relations = (case sys_raw_neighbors s of
              Some captured \<Rightarrow> map (add_gid inode_ns captured) (bu_relations b)
            | None \<Rightarrow> bu_relations b) in
      (bu_truncated b, s\<lparr>sys_fd_relations := relations,
         sys_warnings := sys_warnings s
           @ count_warning ''Socket type'' (unknown_socket_types infos owners)
           @ count_warning ''Socket connection status'' (unknown_connection_statuses infos metadata owners),
         sys_raw_owners := [], sys_raw_sockets := [], sys_raw_namespaces := [], sys_raw_connections := [],
         sys_raw_neighbors := None\<rparr>))"

section \<open>Identifiers name their ends\<close>

lemma show_dec_inj:
  assumes "show_dec m = show_dec n"
  shows "m = n"
proof -
  have "digits_value 10 0 (show_dec k) = Some k" for k by (rule digits_value_show) simp_all
  from this [of m] this [of n] show ?thesis unfolding assms by simp
qed

lemma show_dec_slash [simp]: "ch CHR ''/'' \<notin> set (show_dec n)"
proof
  assume "ch CHR ''/'' \<in> set (show_dec n)"
  then have "\<exists>d. to_digit 10 (ch CHR ''/'') = Some d" by (intro show_radix_chars) simp_all
  then show False by (auto simp: to_digit_def Let_def split: if_splits)
qed

lemma show_int_inj:
  assumes "show_int i = show_int j"
  shows "i = j"
proof -
  have minus: "show_dec n \<noteq> ch CHR ''-'' # xs" for n xs using show_dec_separators(1) [of n] by (metis list.set_intros(1))
  consider "i < 0" "j < 0" "show_dec (nat (- i)) = show_dec (nat (- j))"
    | "0 \<le> i" "0 \<le> j" "show_dec (nat i) = show_dec (nat j)"
    using assms minus [symmetric] minus by (cases "i < 0"; cases "j < 0") (simp_all add: show_int_def)
  then show ?thesis
  proof cases
    case 1
    then show ?thesis using show_dec_inj [OF 1(3)] by simp
  next
    case 2
    then show ?thesis using show_dec_inj [OF 2(3)] by simp
  qed
qed

lemma show_int_ends [simp]: "ch CHR ''/'' \<notin> set (show_int i)" "ch CHR '':'' \<notin> set (show_int i)"
  by (auto simp: show_int_def)

lemma append_separator_eq:
  assumes "c \<notin> set xs" "c \<notin> set ys" "xs @ c # as = ys @ c # bs"
  shows "xs = ys \<and> as = bs"
proof -
  have before: "takeWhile (\<lambda>x. x \<noteq> c) (zs @ c # cs) = zs" if "c \<notin> set zs" for zs cs
    using that by (subst takeWhile_append2) auto
  have "xs = ys" using before [OF assms(1), of as] before [OF assms(2), of bs] assms(3) by simp
  then show ?thesis using assms(3) by simp
qed

definition end_key :: "FdEndpoint \<Rightarrow> ProcessId \<times> u32" where
  "end_key e = (fde_process_id e, fde_fd e)"

lemma end_text_slash [simp]: "ch CHR ''/'' \<notin> set (end_text e)"
  by (simp add: end_text_def lit_map_ch)

lemma end_text_inj:
  assumes "end_text a = end_text b"
  shows "end_key a = end_key b"
proof -
  let ?p = "\<lambda>e. show_int (sint (pid_pid (fde_process_id e)))" and ?s = "\<lambda>e. show_dec (unat (pid_start_time_ticks (fde_process_id e)))"
    and ?f = "\<lambda>e. show_dec (unat (fde_fd e))"
  have eq: "?p a @ ch CHR '':'' # ?s a @ ch CHR '':'' # ?f a = ?p b @ ch CHR '':'' # ?s b @ ch CHR '':'' # ?f b"
    using assms by (simp add: end_text_def lit_map_ch)
  have "?p a = ?p b \<and> ?s a @ ch CHR '':'' # ?f a = ?s b @ ch CHR '':'' # ?f b"
    by (rule append_separator_eq [OF _ _ eq]) simp_all
  moreover from this have "?s a = ?s b \<and> ?f a = ?f b"
    by (intro append_separator_eq [of "ch CHR '':''"]) simp_all
  ultimately have "sint (pid_pid (fde_process_id a)) = sint (pid_pid (fde_process_id b))"
      "unat (pid_start_time_ticks (fde_process_id a)) = unat (pid_start_time_ticks (fde_process_id b))"
      "unat (fde_fd a) = unat (fde_fd b)"
    using show_int_inj show_dec_inj by blast+
  then have "pid_pid (fde_process_id a) = pid_pid (fde_process_id b)" "fde_fd a = fde_fd b"
      "pid_start_time_ticks (fde_process_id a) = pid_start_time_ticks (fde_process_id b)"
    by (simp_all add: signed_word_eqI flip: word_unat_eq_iff)
  then show ?thesis by (simp add: end_key_def)
qed

lemma end_text_key: "end_key a = end_key b \<Longrightarrow> end_text a = end_text b"
  by (simp add: end_key_def end_text_def)

lemma slash: "lit ''/'' = [ch CHR ''/'']"
  by (simp add: lit_map_ch)

lemma pair_id_cases:
  obtains "pair_id a b = end_text a @ ch CHR ''/'' # end_text b" | "pair_id a b = end_text b @ ch CHR ''/'' # end_text a"
  unfolding pair_id_def Let_def slash by (cases "end_text a \<le> end_text b") auto

lemma pair_id_slash: "ch CHR ''/'' \<in> set (pair_id a b)"
  by (cases rule: pair_id_cases [of a b]) simp_all

lemma pair_id_ends:
  assumes "pair_id a b = pair_id c d"
  shows "end_key a = end_key c \<or> end_key a = end_key d"
proof -
  have split: "end_key x = end_key x' \<and> end_key y = end_key y'"
    if "end_text x @ ch CHR ''/'' # end_text y = end_text x' @ ch CHR ''/'' # end_text y'" for x x' y y'
    using append_separator_eq [OF end_text_slash end_text_slash that] end_text_inj by blast
  obtain u v where ab: "pair_id a b = end_text u @ ch CHR ''/'' # end_text v" "u = a \<and> v = b \<or> u = b \<and> v = a"
    by (rule pair_id_cases [of a b]) blast+
  obtain x y where cd: "pair_id c d = end_text x @ ch CHR ''/'' # end_text y" "x = c \<and> y = d \<or> x = d \<and> y = c"
    by (rule pair_id_cases [of c d]) blast+
  have "end_key u = end_key x \<and> end_key v = end_key y"
    by (rule split) (simp only: assms ab(1) [symmetric] cd(1) [symmetric])
  then show ?thesis using ab(2) cd(2) by auto
qed

lemma external_id: "rel_id (external_relation info e) = end_text e @ lit '':external''"
  by (simp add: external_relation_def)

lemma external_id_slash: "ch CHR ''/'' \<notin> set (rel_id (external_relation info e))"
proof -
  have "ch CHR ''/'' \<notin> set (lit '':external'')" by (simp add: lit_map_ch)
  then show ?thesis by (simp only: external_id set_append Un_iff end_text_slash simp_thms)
qed

lemma external_id_inj: "rel_id (external_relation info e) = rel_id (external_relation info' e') \<Longrightarrow> end_key e = end_key e'"
  unfolding external_id by (rule end_text_inj) (simp only: append_same_eq)

section \<open>What an endpoint adds\<close>

lemma push_pairs_spec:
  "push_pairs info e ms (seen, rs) = (seen', rs') \<Longrightarrow>
   \<exists>new. rs' = rs @ new \<and> length new \<le> length ms \<and> (\<forall>r\<in>set new. \<exists>m\<in>set ms. r = pair_relation info e m)
     \<and> distinct (map rel_id new) \<and> (\<forall>r\<in>set new. rel_id r \<notin> set seen)
     \<and> set seen' = set seen \<union> rel_id ` set new \<and> (\<forall>m\<in>set ms. rel_id (pair_relation info e m) \<in> set seen')"
proof (induction ms arbitrary: seen rs)
  case (Cons m ms)
  let ?r = "pair_relation info e m"
  show ?case
  proof (cases "rel_id ?r \<in> set seen")
    case True
    then have "push_pairs info e ms (seen, rs) = (seen', rs')" using Cons.prems by (simp add: Let_def)
    from Cons.IH [OF this] show ?thesis using True by fastforce
  next
    case False
    then have "push_pairs info e ms (rel_id ?r # seen, rs @ [?r]) = (seen', rs')" using Cons.prems by (simp add: Let_def)
    from Cons.IH [OF this] obtain new where "rs' = (rs @ [?r]) @ new" "length new \<le> length ms"
        "\<forall>r\<in>set new. \<exists>m\<in>set ms. r = pair_relation info e m" "distinct (map rel_id new)"
        "\<forall>r\<in>set new. rel_id r \<notin> set (rel_id ?r # seen)" "set seen' = set (rel_id ?r # seen) \<union> rel_id ` set new"
        "\<forall>m\<in>set ms. rel_id (pair_relation info e m) \<in> set seen'"
      by blast
    then show ?thesis using False by (intro exI [of _ "?r # new"]) auto
  qed
qed simp

lemma relate_endpoint_spec:
  obtains external new where
    "bu_relations (relate_endpoint info e matches b) = bu_relations b @ external @ new"
    "external = (if needs_external info matches then [external_relation info e] else [])"
    "length new \<le> MATCH_LIMIT" "\<forall>r\<in>set new. \<exists>m\<in>set matches. r = pair_relation info e m"
    "distinct (map rel_id new)" "\<forall>r\<in>set new. rel_id r \<notin> set (bu_seen b)"
    "set (bu_seen (relate_endpoint info e matches b)) = set (bu_seen b) \<union> rel_id ` set new"
    "\<forall>m\<in>set (take MATCH_LIMIT (sort_key ma_shared matches)). rel_id (pair_relation info e m) \<in> set (bu_seen (relate_endpoint info e matches b))"
    "bu_truncated (relate_endpoint info e matches b) \<longleftrightarrow> bu_truncated b \<or> MATCH_LIMIT < length matches"
proof -
  let ?ms = "take MATCH_LIMIT (sort_key ma_shared matches)"
  let ?external = "if needs_external info matches then [external_relation info e] else []"
  obtain seen rs where p: "push_pairs info e ?ms (bu_seen b, bu_relations b @ ?external) = (seen, rs)" by force
  have sub: "set ?ms \<subseteq> set matches" using set_take_subset [of MATCH_LIMIT "sort_key ma_shared matches"] by simp
  from push_pairs_spec [OF p] obtain new where new: "rs = (bu_relations b @ ?external) @ new" "length new \<le> length ?ms"
      "\<forall>r\<in>set new. \<exists>m\<in>set ?ms. r = pair_relation info e m" "distinct (map rel_id new)"
      "\<forall>r\<in>set new. rel_id r \<notin> set (bu_seen b)" "set seen = set (bu_seen b) \<union> rel_id ` set new"
      "\<forall>m\<in>set ?ms. rel_id (pair_relation info e m) \<in> set seen"
    by blast
  have new3: "\<forall>r\<in>set new. \<exists>m\<in>set matches. r = pair_relation info e m" using new(3) sub by blast
  have r: "relate_endpoint info e matches b = \<lparr>bu_seen = seen, bu_relations = rs,
      bu_truncated = (bu_truncated b \<or> MATCH_LIMIT < length matches)\<rparr>"
    using p by (simp add: relate_endpoint_def Let_def)
  show thesis
    by (rule that [of ?external new]) (use new new3 in \<open>auto simp: r\<close>)
qed

text \<open>
  The relations of the endpoints in \<open>S\<close>: identifiers are distinct, an external relation belongs to one of these endpoints,
  and a pair is recorded as seen.
\<close>

definition build_ok :: "(ProcessId \<times> u32) set \<Rightarrow> build \<Rightarrow> bool" where
  "build_ok S b \<longleftrightarrow> distinct (map rel_id (bu_relations b))
     \<and> (\<forall>r\<in>set (bu_relations b). (\<exists>info e. end_key e \<in> S \<and> r = external_relation info e)
          \<or> (\<exists>info e m. r = pair_relation info e m \<and> rel_id r \<in> set (bu_seen b)))
     \<and> (\<forall>i\<in>set (bu_seen b). \<exists>r\<in>set (bu_relations b). \<exists>info e m. r = pair_relation info e m \<and> rel_id r = i)"

definition covered :: "build \<Rightarrow> ProcessId \<times> u32 \<Rightarrow> bool" where
  "covered b k \<longleftrightarrow> (\<exists>r\<in>set (bu_relations b). end_key (rel_endpoint r) = k \<or> (\<exists>p. rel_peer r = Some p \<and> end_key p = k))"

lemma pair_relation_simps [simp]:
  "rel_id (pair_relation info e m) = pair_id e (ma_peer m)" "rel_endpoint (pair_relation info e m) = e"
  "rel_peer (pair_relation info e m) = Some (ma_peer m)"
  by (simp_all add: pair_relation_def)

lemma external_relation_simps [simp]: "rel_endpoint (external_relation info e) = e" "rel_peer (external_relation info e) = None"
  by (simp_all add: external_relation_def)

lemma external_not_pair: "rel_id (external_relation info e) \<noteq> pair_id a b"
  using external_id_slash pair_id_slash by metis

lemma build_ok_endpoint:
  assumes "build_ok S b" "end_key e \<notin> S"
  shows "build_ok (insert (end_key e) S) (relate_endpoint info e matches b)"
proof (rule relate_endpoint_spec [of info e matches b])
  fix external new
  assume n: "bu_relations (relate_endpoint info e matches b) = bu_relations b @ external @ new"
    "external = (if needs_external info matches then [external_relation info e] else [])"
    "\<forall>r\<in>set new. \<exists>m\<in>set matches. r = pair_relation info e m"
    "distinct (map rel_id new)" "\<forall>r\<in>set new. rel_id r \<notin> set (bu_seen b)"
    "set (bu_seen (relate_endpoint info e matches b)) = set (bu_seen b) \<union> rel_id ` set new"
  have old: "rel_id r \<noteq> rel_id (external_relation info e)" if r: "r \<in> set (bu_relations b)" for r
  proof -
    consider info' e' where "end_key e' \<in> S" "r = external_relation info' e'"
      | info' e' m where "r = pair_relation info' e' m"
      using assms(1) r unfolding build_ok_def by blast
    then show ?thesis
    proof cases
      case 1
      then show ?thesis using external_id_inj assms(2) by metis
    next
      case 2
      then show ?thesis using external_not_pair by (metis pair_relation_simps(1))
    qed
  qed
  have apart: "rel_id r \<noteq> rel_id r'" if r: "r \<in> set (bu_relations b)" "r' \<in> set new" for r r'
  proof -
    obtain m where r': "r' = pair_relation info e m" using n(3) r(2) by blast
    consider info' e' where "r = external_relation info' e'" | "rel_id r \<in> set (bu_seen b)"
      using assms(1) r(1) unfolding build_ok_def by blast
    then show ?thesis
    proof cases
      case 1
      then show ?thesis using external_not_pair r' by simp
    next
      case 2
      then show ?thesis using n(5) r(2) by metis
    qed
  qed
  have ext: "rel_id (external_relation info e) \<noteq> rel_id r" if r: "r \<in> set new" for r
    using n(3) r external_not_pair by fastforce
  have "distinct (map rel_id (bu_relations (relate_endpoint info e matches b)))"
    using assms(1) n(1,2,4) old [symmetric] apart ext unfolding build_ok_def by (fastforce split: if_splits)
  moreover have "(\<exists>info' e'. end_key e' \<in> insert (end_key e) S \<and> r = external_relation info' e')
      \<or> (\<exists>info' e' m. r = pair_relation info' e' m \<and> rel_id r \<in> set (bu_seen (relate_endpoint info e matches b)))"
    if r: "r \<in> set (bu_relations (relate_endpoint info e matches b))" for r
  proof -
    consider "r \<in> set (bu_relations b)" | "r \<in> set external" | "r \<in> set new" using r n(1) by auto
    then show ?thesis
    proof cases
      case 1
      then show ?thesis using assms(1) n(6) unfolding build_ok_def by blast
    next
      case 2
      then have "r = external_relation info e" using n(2) by (auto split: if_splits)
      then show ?thesis by blast
    next
      case 3
      then show ?thesis using n(3,6) by blast
    qed
  qed
  moreover have "\<exists>r\<in>set (bu_relations (relate_endpoint info e matches b)). \<exists>info' e' m. r = pair_relation info' e' m \<and> rel_id r = i"
    if i: "i \<in> set (bu_seen (relate_endpoint info e matches b))" for i
  proof -
    consider "i \<in> set (bu_seen b)" | r where "r \<in> set new" "i = rel_id r" using i n(6) by auto
    then show ?thesis
    proof cases
      case 1
      then show ?thesis using assms(1) n(1) unfolding build_ok_def by fastforce
    next
      case 2
      then show ?thesis using n(1,3) by (metis Un_iff set_append)
    qed
  qed
  ultimately show ?thesis unfolding build_ok_def by blast
qed

lemma covered_endpoint:
  assumes "build_ok S b" "end_key e \<notin> S"
  shows "covered (relate_endpoint info e matches b) (end_key e)"
proof (cases "matches = []")
  case True
  then have "needs_external info matches" by (simp add: needs_external_def)
  then have "external_relation info e \<in> set (bu_relations (relate_endpoint info e matches b))"
    by (rule_tac relate_endpoint_spec [of info e matches b]) simp
  then show ?thesis unfolding covered_def by force
next
  case False
  let ?b = "relate_endpoint info e matches b" and ?m = "hd (sort_key ma_shared matches)"
  have "sort_key ma_shared matches \<noteq> []" using False by (metis length_0_conv length_sort)
  then have "?m \<in> set (take MATCH_LIMIT (sort_key ma_shared matches))"
    by (cases "sort_key ma_shared matches") (simp_all add: MATCH_LIMIT_def)
  then have "rel_id (pair_relation info e ?m) \<in> set (bu_seen ?b)"
    by (rule_tac relate_endpoint_spec [of info e matches b]) blast
  then obtain r info' e' m' where r: "r \<in> set (bu_relations ?b)" "r = pair_relation info' e' m'" "rel_id r = rel_id (pair_relation info e ?m)"
    using build_ok_endpoint [OF assms, of info matches] unfolding build_ok_def by blast
  then have "end_key e = end_key e' \<or> end_key e = end_key (ma_peer m')"
    using pair_id_ends [of e "ma_peer ?m" e' "ma_peer m'"] by simp
  then show ?thesis using r(1,2) unfolding covered_def by (metis pair_relation_simps(2,3))
qed

section \<open>The loops\<close>

lemma build_ok_mono: "build_ok S b \<Longrightarrow> S \<subseteq> S' \<Longrightarrow> build_ok S' b"
  unfolding build_ok_def by blast

lemma build_ok_truncated [simp]:
  "build_ok S (b\<lparr>bu_truncated := t\<rparr>) = build_ok S b" "covered (b\<lparr>bu_truncated := t\<rparr>) = covered b"
  by (simp_all add: build_ok_def covered_def fun_eq_iff)

lemma relate_endpoint_grows:
  "length (bu_relations (relate_endpoint info e matches b)) \<le> length (bu_relations b) + 65"
  "covered b k \<Longrightarrow> covered (relate_endpoint info e matches b) k"
  "bu_truncated b \<Longrightarrow> bu_truncated (relate_endpoint info e matches b)"
  by (rule relate_endpoint_spec [of info e matches b]; force simp: covered_def MATCH_LIMIT_def split: if_splits)+

lemma relate_endpoints_spec:
  assumes "build_ok S b" "distinct (map (\<lambda>i. end_key (endpoints ! i)) is)" "\<forall>i\<in>set is. end_key (endpoints ! i) \<notin> S"
    and result: "b' = relate_endpoints owners infos inode_ns key endpoints is b"
  shows "build_ok (S \<union> (\<lambda>i. end_key (endpoints ! i)) ` set is) b' \<and> (\<forall>k. covered b k \<longrightarrow> covered b' k)
    \<and> (bu_truncated b \<longrightarrow> bu_truncated b') \<and> (\<not> bu_truncated b' \<longrightarrow> (\<forall>i\<in>set is. covered b' (end_key (endpoints ! i))) \<and> (\<not> full b \<longrightarrow> \<not> full b'))
    \<and> (\<not> full b \<longrightarrow> length (bu_relations b') \<le> 20064)"
  using assms(1-3) unfolding result
proof (induction "is" arbitrary: S b)
  case Nil
  then show ?case by (simp add: full_def RELATION_LIMIT_def)
next
  case (Cons i "is")
  let ?k = "\<lambda>i. end_key (endpoints ! i)"
  define b1 where "b1 = relate_endpoint (endpoint_info infos key (endpoints ! i)) (endpoints ! i)
      (endpoint_matches owners infos inode_ns key endpoints i) b"
  have ok: "build_ok (insert (?k i) S) b1" and cov: "covered b1 (?k i)"
    unfolding b1_def using Cons.prems by (auto intro: build_ok_endpoint covered_endpoint)
  have grow: "length (bu_relations b1) \<le> length (bu_relations b) + 65" "\<And>k. covered b k \<Longrightarrow> covered b1 k"
      "bu_truncated b \<Longrightarrow> bu_truncated b1"
    unfolding b1_def by (rule relate_endpoint_grows; assumption?)+
  show ?case
  proof (cases "full b1")
    case True
    then have "relate_endpoints owners infos inode_ns key endpoints (i # is) b = b1\<lparr>bu_truncated := True\<rparr>"
      by (simp add: b1_def Let_def)
    moreover have "build_ok (S \<union> ?k ` set (i # is)) b1" using ok by (rule build_ok_mono) auto
    ultimately show ?thesis using grow by (simp add: full_def RELATION_LIMIT_def)
  next
    case False
    then have eq: "relate_endpoints owners infos inode_ns key endpoints (i # is) b = relate_endpoints owners infos inode_ns key endpoints is b1"
      by (simp add: b1_def Let_def)
    have d: "distinct (map ?k is)" using Cons.prems(2) by simp
    have n: "\<forall>j\<in>set is. ?k j \<notin> insert (?k i) S" using Cons.prems(2,3) by (simp add: image_iff) metis
    have "insert (?k i) S \<union> ?k ` set is = S \<union> ?k ` set (i # is)" by auto
    then show ?thesis using Cons.IH [OF ok d n] False grow cov unfolding eq by (simp del: split_paired_All)
  qed
qed

definition owner_keys :: "owners \<Rightarrow> (ProcessId \<times> u32) list" where
  "owner_keys owners = map end_key (concat (map snd owners))"

lemma relate_owners_spec:
  assumes "build_ok S b" "distinct (owner_keys rest)" "S \<inter> set (owner_keys rest) = {}" "\<not> full b"
    and result: "b' = relate_owners owners infos inode_ns rest b"
  shows "build_ok (S \<union> set (owner_keys rest)) b' \<and> (\<forall>k. covered b k \<longrightarrow> covered b' k) \<and> (bu_truncated b \<longrightarrow> bu_truncated b')
    \<and> (\<not> bu_truncated b' \<longrightarrow> (\<forall>k\<in>set (owner_keys rest). covered b' k)) \<and> length (bu_relations b') \<le> 20064"
  using assms(1-4) unfolding result
proof (induction rest arbitrary: S b)
  case Nil
  then show ?case by (simp add: owner_keys_def full_def RELATION_LIMIT_def)
next
  case (Cons entry rest)
  obtain key endpoints where entry: "entry = (key, endpoints)" by (cases entry)
  define b1 where "b1 = relate_endpoints owners infos inode_ns key endpoints [0..<length endpoints] b"
  have keys: "owner_keys (entry # rest) = map end_key endpoints @ owner_keys rest"
    by (simp add: owner_keys_def entry)
  have idx: "map (\<lambda>i. end_key (endpoints ! i)) [0..<length endpoints] = map end_key endpoints"
    by (rule nth_equalityI) simp_all
  then have set_idx: "(\<lambda>i. end_key (endpoints ! i)) ` set [0..<length endpoints] = set (map end_key endpoints)"
    by (metis set_map)
  have "\<forall>i\<in>set [0..<length endpoints]. end_key (endpoints ! i) \<notin> S" using Cons.prems(3) by (auto simp: keys)
  with relate_endpoints_spec [OF Cons.prems(1) _ _ b1_def] Cons.prems
  have b1: "build_ok (S \<union> set (map end_key endpoints)) b1" "\<forall>k. covered b k \<longrightarrow> covered b1 k" "bu_truncated b \<longrightarrow> bu_truncated b1"
      "\<not> bu_truncated b1 \<longrightarrow> (\<forall>k\<in>set (map end_key endpoints). covered b1 k) \<and> \<not> full b1" "length (bu_relations b1) \<le> 20064"
    unfolding idx set_idx by (auto simp: keys in_set_conv_nth)
  show ?case
  proof (cases "full b1")
    case True
    then have "relate_owners owners infos inode_ns (entry # rest) b = b1" by (simp add: entry b1_def Let_def)
    moreover have "bu_truncated b1" using b1(4) True by blast
    moreover have "build_ok (S \<union> set (owner_keys (entry # rest))) b1" using b1(1) by (rule build_ok_mono) (auto simp: keys)
    ultimately show ?thesis using b1 by simp
  next
    case False
    then have eq: "relate_owners owners infos inode_ns (entry # rest) b = relate_owners owners infos inode_ns rest b1"
      by (simp add: entry b1_def Let_def)
    have "(S \<union> set (map end_key endpoints)) \<inter> set (owner_keys rest) = {}" "distinct (owner_keys rest)"
      using Cons.prems(2,3) by (auto simp: keys)
    from Cons.IH [OF b1(1) this(2,1) False] b1(2-4) show ?thesis unfolding eq keys set_append Un_assoc by blast
  qed
qed

text \<open>What holds of every relation that may be pushed holds of the result.\<close>

lemma relate_endpoints_all:
  assumes "\<forall>r\<in>set (bu_relations b). P r"
    and "\<And>i info. i \<in> set is \<Longrightarrow> info = endpoint_info infos key (endpoints ! i) \<Longrightarrow> P (external_relation info (endpoints ! i))"
    and "\<And>i info m. i \<in> set is \<Longrightarrow> info = endpoint_info infos key (endpoints ! i)
      \<Longrightarrow> m \<in> set (endpoint_matches owners infos inode_ns key endpoints i) \<Longrightarrow> P (pair_relation info (endpoints ! i) m)"
  shows "\<forall>r\<in>set (bu_relations (relate_endpoints owners infos inode_ns key endpoints is b)). P r"
  using assms
proof (induction "is" arbitrary: b)
  case (Cons i "is")
  let ?info = "endpoint_info infos key (endpoints ! i)" and ?ms = "endpoint_matches owners infos inode_ns key endpoints i"
  have first: "\<forall>r\<in>set (bu_relations (relate_endpoint ?info (endpoints ! i) ?ms b)). P r"
  proof (rule relate_endpoint_spec [of ?info "endpoints ! i" ?ms b])
    fix external new
    assume n: "bu_relations (relate_endpoint ?info (endpoints ! i) ?ms b) = bu_relations b @ external @ new"
      "external = (if needs_external ?info ?ms then [external_relation ?info (endpoints ! i)] else [])"
      "\<forall>r\<in>set new. \<exists>m\<in>set ?ms. r = pair_relation ?info (endpoints ! i) m"
    have "\<forall>r\<in>set external. P r" using n(2) Cons.prems(2) by (simp split: if_split)
    moreover have "\<forall>r\<in>set new. P r" using n(3) Cons.prems(3) by (metis list.set_intros(1))
    ultimately show ?thesis using Cons.prems(1) by (simp add: n(1) ball_Un)
  qed
  have rest: "\<forall>r\<in>set (bu_relations (relate_endpoints owners infos inode_ns key endpoints is (relate_endpoint ?info (endpoints ! i) ?ms b))). P r"
    using Cons.prems(2,3) by (intro Cons.IH first) simp_all
  show ?case using first rest by (simp add: Let_def)
qed simp

lemma relate_owners_all:
  assumes "\<forall>r\<in>set (bu_relations b). P r"
    and "\<And>key endpoints i info. (key, endpoints) \<in> set rest \<Longrightarrow> i < length endpoints \<Longrightarrow> info = endpoint_info infos key (endpoints ! i)
      \<Longrightarrow> P (external_relation info (endpoints ! i))"
    and "\<And>key endpoints i info m. (key, endpoints) \<in> set rest \<Longrightarrow> i < length endpoints \<Longrightarrow> info = endpoint_info infos key (endpoints ! i)
      \<Longrightarrow> m \<in> set (endpoint_matches owners infos inode_ns key endpoints i) \<Longrightarrow> P (pair_relation info (endpoints ! i) m)"
  shows "\<forall>r\<in>set (bu_relations (relate_owners owners infos inode_ns rest b)). P r"
  using assms
proof (induction rest arbitrary: b)
  case (Cons entry rest)
  obtain key endpoints where entry: "entry = (key, endpoints)" by (cases entry)
  have "\<forall>r\<in>set (bu_relations (relate_endpoints owners infos inode_ns key endpoints [0..<length endpoints] b)). P r"
    using Cons.prems entry by (intro relate_endpoints_all) auto
  moreover from this have "\<forall>r\<in>set (bu_relations (relate_owners owners infos inode_ns rest
      (relate_endpoints owners infos inode_ns key endpoints [0..<length endpoints] b))). P r"
    using Cons.prems(2,3) by (intro Cons.IH) simp_all
  ultimately show ?case by (simp add: entry Let_def)
qed simp

section \<open>Orders of the maps\<close>

text \<open>Preparing the owners changes neither the resources nor the ends.\<close>

lemma set_status_simps [simp]:
  "fst (set_status infos metadata entry) = fst entry"
  "map end_key (snd (set_status infos metadata entry)) = map end_key (snd entry)"
  "map fde_kind (snd (set_status infos metadata entry)) = map fde_kind (snd entry)"
  "map fde_access (snd (set_status infos metadata entry)) = map fde_access (snd entry)"
  by (cases entry; simp add: set_status_def end_key_def)+

lemma prepared_owner_keys:
  assumes "distinct (map fst raw)" "\<And>ks. mset (by_owner ks) = mset ks"
  shows "mset (owner_keys (prepared_owners by_owner infos metadata raw)) = mset (owner_keys raw)"
proof -
  have keys: "mset (owner_keys xs) = (\<Sum>x\<in>#mset xs. mset (map end_key (snd x)))" for xs
    unfolding owner_keys_def by (induction xs) simp_all
  have one: "mset (map end_key (sort_key endpoint_order (snd (set_status infos metadata x)))) = mset (map end_key (snd x))" for x
  proof -
    have "mset (map end_key (sort_key endpoint_order (snd (set_status infos metadata x))))
        = mset (map end_key (snd (set_status infos metadata x)))"
      by (metis mset_map mset_sort)
    then show ?thesis by simp
  qed
  have "mset (owner_keys (prepared_owners by_owner infos metadata raw))
      = (\<Sum>x\<in>#mset (reordered by_owner (hash_map raw)). mset (map end_key (snd x)))"
    unfolding keys prepared_owners_def by (simp add: multiset.map_comp comp_def split_beta one del: set_status_simps mset_map image_mset.identity flip: mset_map)
  then show ?thesis
    unfolding keys hash_map_distinct [OF assms(1)] using reordered_mset [OF assms(1), of by_owner] assms(2) by simp
qed

section \<open>What the relations say\<close>

lemma add_gid_simps [simp]:
  "rel_id (add_gid inode_ns captured r) = rel_id r" "rel_endpoint (add_gid inode_ns captured r) = rel_endpoint r"
  "rel_peer (add_gid inode_ns captured r) = rel_peer r" "rel_candidate (add_gid inode_ns captured r) = rel_candidate r"
  "rel_shared (add_gid inode_ns captured r) = rel_shared r"
  by (simp_all add: add_gid_def split: option.split)

lemma build_ipc_relations_result:
  assumes "build_ipc_relations by_owner by_socket s = (truncated, s')" "sys_fd_relations s = []"
  obtains infos inode_ns owners b g where "infos = reordered by_socket (hash_map (sys_raw_sockets s))"
    "inode_ns = hash_map (sys_raw_namespaces s)"
    "owners = prepared_owners by_owner infos (hash_map (sys_raw_connections s)) (sys_raw_owners s)"
    "b = relate_owners owners infos inode_ns owners \<lparr>bu_seen = [], bu_relations = [], bu_truncated = False\<rparr>"
    "truncated = bu_truncated b" "sys_fd_relations s' = map g (bu_relations b)" "g = id \<or> (\<exists>captured. g = add_gid inode_ns captured)"
proof -
  define infos where "infos = reordered by_socket (hash_map (sys_raw_sockets s))"
  define inode_ns where "inode_ns = hash_map (sys_raw_namespaces s)"
  define owners where "owners = prepared_owners by_owner infos (hash_map (sys_raw_connections s)) (sys_raw_owners s)"
  define b where "b = relate_owners owners infos inode_ns owners \<lparr>bu_seen = [], bu_relations = [], bu_truncated = False\<rparr>"
  define g where "g = (case sys_raw_neighbors s of Some captured \<Rightarrow> add_gid inode_ns captured | None \<Rightarrow> id)"
  note defs = infos_def [symmetric] inode_ns_def [symmetric] owners_def [symmetric] b_def [symmetric]
  have "truncated = bu_truncated b" "sys_fd_relations s' = map g (bu_relations b)"
    using assms unfolding build_ipc_relations_def Let_def assms(2) defs
    by (cases "sys_raw_neighbors s"; auto simp: g_def)+
  moreover have "g = id \<or> (\<exists>captured. g = add_gid inode_ns captured)" by (simp add: g_def split: option.split) blast
  ultimately show thesis using that infos_def inode_ns_def owners_def b_def by blast
qed

lemma relations_numbered:
  assumes "distinct (map fst (sys_raw_owners s))" "distinct (owner_keys (sys_raw_owners s))" "sys_fd_relations s = []"
    and "\<And>ks. mset (by_owner ks) = mset ks" and "build_ipc_relations by_owner by_socket s = (truncated, s')"
  shows "distinct (map rel_id (sys_fd_relations s')) \<and> length (sys_fd_relations s') \<le> 20064
    \<and> (\<not> truncated \<longrightarrow> (\<forall>k\<in>set (owner_keys (sys_raw_owners s)). \<exists>r\<in>set (sys_fd_relations s').
         end_key (rel_endpoint r) = k \<or> (\<exists>p. rel_peer r = Some p \<and> end_key p = k)))"
proof (rule build_ipc_relations_result [OF assms(5,3)])
  fix infos inode_ns owners b g
  assume b: "owners = prepared_owners by_owner infos (hash_map (sys_raw_connections s)) (sys_raw_owners s)"
      "b = relate_owners owners infos inode_ns owners \<lparr>bu_seen = [], bu_relations = [], bu_truncated = False\<rparr>"
      "truncated = bu_truncated b" "sys_fd_relations s' = map g (bu_relations b)" "g = id \<or> (\<exists>captured. g = add_gid inode_ns captured)"
  have keys: "mset (owner_keys owners) = mset (owner_keys (sys_raw_owners s))"
    unfolding b(1) by (rule prepared_owner_keys [OF assms(1,4)])
  then have d: "distinct (owner_keys owners)" using assms(2) by (metis mset_eq_imp_distinct_iff)
  from keys have same: "set (owner_keys owners) = set (owner_keys (sys_raw_owners s))" by (rule mset_eq_setD)
  have "build_ok {} \<lparr>bu_seen = [], bu_relations = [], bu_truncated = False\<rparr>" by (simp add: build_ok_def)
  from relate_owners_spec [OF this d _ _ b(2)] have r: "build_ok (set (owner_keys owners)) b"
      "\<not> bu_truncated b \<longrightarrow> (\<forall>k\<in>set (owner_keys owners). covered b k)" "length (bu_relations b) \<le> 20064"
    by (simp_all add: full_def RELATION_LIMIT_def)
  have g: "rel_id (g x) = rel_id x \<and> rel_endpoint (g x) = rel_endpoint x \<and> rel_peer (g x) = rel_peer x" for x
    using b(5) by auto
  have "map rel_id (sys_fd_relations s') = map rel_id (bu_relations b)" unfolding b(4) map_map by (rule map_cong) (simp_all add: g)
  then have "distinct (map rel_id (sys_fd_relations s'))" using r(1) unfolding build_ok_def by metis
  moreover have "length (sys_fd_relations s') \<le> 20064" using r(3) b(4) by simp
  moreover have "\<exists>x\<in>set (sys_fd_relations s'). end_key (rel_endpoint x) = k \<or> (\<exists>p. rel_peer x = Some p \<and> end_key p = k)"
    if k: "\<not> truncated" "k \<in> set (owner_keys (sys_raw_owners s))" for k
    using k r(2) g unfolding b(3,4) same covered_def by fastforce
  ultimately show ?thesis by blast
qed

text \<open>
  Whatever the iteration order of the hash maps, the relations built for a snapshot have distinct identifiers, there are
  at most 20064 of them, and unless the result is reported as truncated every captured endpoint is an end of some relation.
\<close>

theorem relations_identified:
  assumes "distinct (map fst (sys_raw_owners s))" "distinct (owner_keys (sys_raw_owners s))" "sys_fd_relations s = []"
    and "\<And>ks. mset (by_owner ks) = mset ks" and "build_ipc_relations by_owner by_socket s = (truncated, s')"
  shows "distinct (map rel_id (sys_fd_relations s')) \<and> length (sys_fd_relations s') \<le> 20064
    \<and> (\<not> truncated \<longrightarrow> (\<forall>k\<in>set (owner_keys (sys_raw_owners s)). \<exists>r\<in>set (sys_fd_relations s').
         end_key (rel_endpoint r) = k \<or> (\<exists>p. rel_peer r = Some p \<and> end_key p = k)))"
  by (rule relations_numbered [OF assms])

section \<open>What a pair means\<close>

definition same_end :: "FdEndpoint \<Rightarrow> FdEndpoint \<Rightarrow> bool" where
  "same_end e e' \<longleftrightarrow> end_key e = end_key e' \<and> fde_kind e = fde_kind e' \<and> fde_access e = fde_access e'"

text \<open>The two ends hold the same resource: shared, or the two directions of a pipe.\<close>

definition same_resource :: "FdEndpoint \<Rightarrow> FdEndpoint list \<Rightarrow> FdEndpoint \<Rightarrow> FdRelation \<Rightarrow> bool" where
  "same_resource e es p r \<longleftrightarrow> (\<exists>p'\<in>set es. same_end p p' \<and> end_key p' \<noteq> end_key e \<and> \<not> rel_candidate r
     \<and> (rel_shared r \<longleftrightarrow> fde_kind e = FdKind.Socket \<or> \<not> opposite (fde_access e) (fde_access p')))"

text \<open>
  The ends hold two sockets: the kernel named the second as the peer of the first, or, as a candidate, the first has no
  known peer and the second has its address tuple reversed in the same network namespace.
\<close>

definition socket_pair :: "(u64 \<rightharpoonup> SocketInfo) \<Rightarrow> (u64 \<rightharpoonup> namespace) \<Rightarrow> owners \<Rightarrow> u64 \<Rightarrow> FdEndpoint \<Rightarrow> FdRelation \<Rightarrow> bool" where
  "socket_pair infos ns owners inode p r \<longleftrightarrow> (\<exists>info key' es'. infos inode = Some info \<and> (key', es') \<in> set owners
     \<and> ipcid_kind key' = IpcKind.Socket \<and> (\<exists>p'\<in>set es'. same_end p p') \<and> \<not> rel_shared r
     \<and> (if rel_candidate r then si_peer_inode info = None \<and> ipcid_inode key' \<noteq> inode \<and> ns (ipcid_inode key') = ns inode
          \<and> (\<exists>info'. infos (ipcid_inode key') = Some info' \<and> si_local info' = si_remote info \<and> si_remote info' = si_local info
               \<and> si_local info \<noteq> None \<and> si_remote info \<noteq> None \<and> is_tcp (si_protocol info') = is_tcp (si_protocol info)
               \<and> si_state info' \<noteq> Some SocketState.Listen)
        else si_peer_inode info = Some (ipcid_inode key')))"

definition relation_sound :: "(u64 \<rightharpoonup> SocketInfo) \<Rightarrow> (u64 \<rightharpoonup> namespace) \<Rightarrow> owners \<Rightarrow> FdRelation \<Rightarrow> bool" where
  "relation_sound infos ns owners r \<longleftrightarrow> (\<exists>key es e. (key, es) \<in> set owners \<and> e \<in> set es \<and> same_end (rel_endpoint r) e
     \<and> (\<forall>p. rel_peer r = Some p \<longrightarrow> same_resource e es p r \<or> fde_kind e = FdKind.Socket \<and> socket_pair infos ns owners (ipcid_inode key) p r))"

lemma own_match_sound:
  assumes "m \<in> set (own_matches es i)" "i < length es"
  shows "same_resource (es ! i) es (ma_peer m) (pair_relation info (es ! i) m)"
proof -
  obtain j where "j < length es" "own_match es i j = Some m"
    using assms(1) by (auto simp: own_matches_def List.map_filter_def)
  then show ?thesis
    by (auto simp: own_match_def same_resource_def same_end_def end_key_def pair_relation_def Let_def split: if_splits intro!: bexI [of _ "es ! j"])
qed

lemma with_tuple_sound:
  assumes "v \<in> set (with_tuple infos inode_ns (ns, tcp, a, b))" "distinct (map fst infos)"
  obtains info where "map_of infos v = Some info" "si_local info = Some a" "si_remote info = Some b" "map_of inode_ns v = ns"
    "is_tcp (si_protocol info) = tcp" "si_state info \<noteq> Some SocketState.Listen"
proof -
  obtain info where "(v, info) \<in> set infos" "tuple_key inode_ns v info = Some (ns, tcp, a, b)"
    using assms(1) by (auto simp: with_tuple_def)
  then show thesis using that [of info] assms(2) by (auto simp: tuple_key_def split: option.splits if_splits)
qed

lemma socket_match_sound:
  assumes "m \<in> set (socket_matches owners infos inode_ns inode info)" "map_of infos inode = Some info" "distinct (map fst infos)"
  shows "socket_pair (map_of infos) (map_of inode_ns) owners inode (ma_peer m) (pair_relation info' e m)"
proof -
  obtain peer c peers where pc: "(peer, c) \<in> set (peer_inodes infos inode_ns inode info)"
      "Option.bind (by_inode owners peer) (map_of owners) = Some peers" "ma_peer m \<in> set peers" "ma_candidate m = c" "\<not> ma_shared m"
    using assms(1) unfolding socket_matches_def by (force split: option.splits)
  then obtain key' where p: "(peer, c) \<in> set (peer_inodes infos inode_ns inode info)" "by_inode owners peer = Some key'"
      "map_of owners key' = Some peers" "ma_peer m \<in> set peers" "ma_candidate m = c" "\<not> ma_shared m"
    by (auto simp: bind_eq_Some_conv)
  then have key': "ipcid_kind key' = IpcKind.Socket" "ipcid_inode key' = peer" "(key', peers) \<in> set owners"
    by (auto simp: by_inode_def find_Some_iff map_of_SomeD)
  have "if c then si_peer_inode info = None \<and> peer \<noteq> inode \<and> map_of inode_ns peer = map_of inode_ns inode
          \<and> (\<exists>info'. map_of infos peer = Some info' \<and> si_local info' = si_remote info \<and> si_remote info' = si_local info
               \<and> si_local info \<noteq> None \<and> si_remote info \<noteq> None \<and> is_tcp (si_protocol info') = is_tcp (si_protocol info)
               \<and> si_state info' \<noteq> Some SocketState.Listen)
        else si_peer_inode info = Some peer"
    using p(1) unfolding peer_inodes_def
    by (cases "si_local info"; cases "si_remote info")
      (auto split: option.splits if_splits elim!: with_tuple_sound [OF _ assms(3)])
  then show ?thesis using assms(2) key' p(4-6) unfolding socket_pair_def pair_relation_def
    by (intro exI [of _ info] exI [of _ key'] exI [of _ peers]) (auto simp: same_end_def)
qed

lemma prepared_ends:
  assumes "(key, es) \<in> set (prepared_owners by_owner infos metadata raw)" "distinct (map fst raw)" "\<And>ks. mset (by_owner ks) = mset ks"
  obtains es0 where "(key, es0) \<in> set raw" "\<And>e. e \<in> set es \<Longrightarrow> \<exists>e'\<in>set es0. same_end e e'"
proof -
  obtain es0 where es0: "(key, es0) \<in> set (reordered by_owner (hash_map raw))" "es = sort_key endpoint_order (snd (set_status infos metadata (key, es0)))"
    using assms(1) by (force simp: prepared_owners_def set_status_def split: if_splits)
  have "(key, es0) \<in> set raw"
    using es0(1) reordered_map_of(3) [of raw by_owner] assms(2,3) by (simp add: hash_map_distinct)
  moreover have "\<exists>e'\<in>set es0. same_end e e'" if "e \<in> set es" for e
    using that unfolding es0(2) by (auto simp: set_status_def same_end_def end_key_def split: if_splits)
  ultimately show thesis by (rule that)
qed

lemma same_end_trans: "same_end a b \<Longrightarrow> same_end b c \<Longrightarrow> same_end a c"
  by (simp add: same_end_def)

lemma socket_pair_prepared:
  assumes "socket_pair infos ns (prepared_owners by_owner infos' metadata raw) inode p r" "distinct (map fst raw)" "\<And>ks. mset (by_owner ks) = mset ks"
  shows "socket_pair infos ns raw inode p r"
proof -
  from assms(1) obtain info key' es' p' where s: "infos inode = Some info" "(key', es') \<in> set (prepared_owners by_owner infos' metadata raw)"
      "p' \<in> set es'" "same_end p p'"
    and rest: "\<And>es''. (key', es'') \<in> set raw \<Longrightarrow> \<exists>p'\<in>set es''. same_end p p' \<Longrightarrow> socket_pair infos ns raw inode p r"
    unfolding socket_pair_def by blast
  from prepared_ends [OF s(2) assms(2,3)] obtain es0 where "(key', es0) \<in> set raw" "\<exists>e'\<in>set es0. same_end p' e'" using s(3) by metis
  then show ?thesis using rest s(4) same_end_trans by blast
qed

lemma relation_sound_prepared:
  assumes "(key, es) \<in> set (prepared_owners by_owner infos' metadata raw)" "e \<in> set es" "rel_endpoint r = e"
    and "\<And>p. rel_peer r = Some p \<Longrightarrow> same_resource e es p r
      \<or> fde_kind e = FdKind.Socket \<and> socket_pair infos ns (prepared_owners by_owner infos' metadata raw) (ipcid_inode key) p r"
    and raw: "distinct (map fst raw)" "\<And>ks. mset (by_owner ks) = mset ks"
  shows "relation_sound infos ns raw r"
proof (rule prepared_ends [OF assms(1) raw])
  fix es0
  assume es0: "(key, es0) \<in> set raw" "\<And>e. e \<in> set es \<Longrightarrow> \<exists>e'\<in>set es0. same_end e e'"
  obtain e' where e': "e' \<in> set es0" "same_end e e'" using es0(2) assms(2) by blast
  have "same_resource e' es0 p r" if p: "same_resource e es p r" for p
  proof -
    obtain p' where p': "p' \<in> set es" "same_end p p'" "end_key p' \<noteq> end_key e" "\<not> rel_candidate r"
        "rel_shared r \<longleftrightarrow> fde_kind e = FdKind.Socket \<or> \<not> opposite (fde_access e) (fde_access p')"
      using p unfolding same_resource_def by blast
    obtain q where "q \<in> set es0" "same_end p' q" using es0(2) p'(1) by blast
    then show ?thesis using p' e'(2) unfolding same_resource_def same_end_def by (intro bexI [of _ q]) auto
  qed
  then show ?thesis
    using assms(3,4) e' es0(1) socket_pair_prepared [OF _ raw] unfolding relation_sound_def same_end_def by metis
qed

lemma add_gid_sound: "relation_sound infos ns owners (add_gid inode_ns captured r) = relation_sound infos ns owners r"
  by (simp only: relation_sound_def same_resource_def socket_pair_def add_gid_simps)

text \<open>
  C28: Every relation has an end that was captured. Where it names a second end, that end holds the same resource, marked
  as shared unless the two are the opposite directions of a pipe, or holds the socket that the kernel named as the peer, or,
  marked as a candidate, a socket of the same namespace whose address tuple is the reverse.
\<close>

theorem relations_sound:
  assumes "distinct (map fst (sys_raw_owners s))" "distinct (map fst (sys_raw_sockets s))" "distinct (map fst (sys_raw_namespaces s))"
    and "\<And>ks. mset (by_owner ks) = mset ks" "\<And>ks. mset (by_socket ks) = mset ks" "sys_fd_relations s = []"
    and "r \<in> set (sys_fd_relations (snd (build_ipc_relations by_owner by_socket s)))"
  shows "relation_sound (map_of (sys_raw_sockets s)) (map_of (sys_raw_namespaces s)) (sys_raw_owners s) r"
proof -
  obtain truncated s' where built: "build_ipc_relations by_owner by_socket s = (truncated, s')" by (cases "build_ipc_relations by_owner by_socket s")
  show ?thesis
  proof (rule build_ipc_relations_result [OF built assms(6)])
    fix infos inode_ns owners b g
    assume b: "infos = reordered by_socket (hash_map (sys_raw_sockets s))" "inode_ns = hash_map (sys_raw_namespaces s)"
        "owners = prepared_owners by_owner infos (hash_map (sys_raw_connections s)) (sys_raw_owners s)"
        "b = relate_owners owners infos inode_ns owners \<lparr>bu_seen = [], bu_relations = [], bu_truncated = False\<rparr>"
        "sys_fd_relations s' = map g (bu_relations b)" "g = id \<or> (\<exists>captured. g = add_gid inode_ns captured)"
    have infos: "map_of infos = map_of (sys_raw_sockets s)" "distinct (map fst infos)"
      using reordered_map_of [of "sys_raw_sockets s" by_socket] assms(2,5) by (simp_all add: b(1) hash_map_distinct)
    have ns: "inode_ns = sys_raw_namespaces s" using assms(3) by (simp add: b(2) hash_map_distinct)
    let ?sound = "relation_sound (map_of infos) (map_of inode_ns) (sys_raw_owners s)"
    have "\<forall>r\<in>set (bu_relations b). ?sound r" unfolding b(4)
    proof (rule relate_owners_all)
      fix key es i info
      assume e: "(key, es) \<in> set owners" "i < length es" "info = endpoint_info infos key (es ! i)"
      show "?sound (external_relation info (es ! i))"
        by (rule relation_sound_prepared [OF e(1) [unfolded b(3)] nth_mem [OF e(2)] _ _ assms(1,4)]) simp_all
      fix m
      assume m: "m \<in> set (endpoint_matches owners infos inode_ns key es i)"
      have "same_resource (es ! i) es (ma_peer m) (pair_relation info (es ! i) m)
          \<or> fde_kind (es ! i) = FdKind.Socket \<and> socket_pair (map_of infos) (map_of inode_ns) owners (ipcid_inode key) (ma_peer m) (pair_relation info (es ! i) m)"
        using m own_match_sound [OF _ e(2)] socket_match_sound [OF _ _ infos(2)]
        by (auto simp: endpoint_matches_def endpoint_info_def split: option.splits if_splits)
      then show "?sound (pair_relation info (es ! i) m)"
        by (intro relation_sound_prepared [OF e(1) [unfolded b(3)] nth_mem [OF e(2)] _ _ assms(1,4)]) (simp_all add: b(3))
    qed simp
    moreover obtain r' where "r' \<in> set (bu_relations b)" "r = g r'" using assms(7) built b(5) by auto
    ultimately have "?sound r' \<and> (r = r' \<or> (\<exists>captured. r = add_gid inode_ns captured r'))" using b(6) by auto
    then show ?thesis unfolding infos(1) ns using add_gid_sound by metis
  qed
qed

section \<open>A pipe between two processes\<close>

definition pipe_end :: "i32 \<Rightarrow> u32 \<Rightarrow> FdAccess \<Rightarrow> FdEndpoint" where
  "pipe_end pid fd access = \<lparr>fde_process_id = \<lparr>pid_pid = pid, pid_start_time_ticks = 7\<rparr>, fde_fd = fd, fde_fd_count = 1,
     fde_resource = \<lparr>ipcid_kind = IpcKind.Pipe, ipcid_device = \<lparr>dev_major = 0, dev_minor = 14\<rparr>, ipcid_inode = 99\<rparr>,
     fde_kind = FdKind.Pipe, fde_access = access, fde_connection_status = None\<rparr>"

definition pipe_snapshot :: SystemSnapshot where
  "pipe_snapshot = SystemSnapshot_default\<lparr>sys_raw_owners :=
     [(fde_resource (pipe_end 10 1 FdAccess.Write), [pipe_end 11 0 FdAccess.Read, pipe_end 10 1 FdAccess.Write])]\<rparr>"

lemma pipe_snapshot_captured [simp]:
  "sys_raw_owners pipe_snapshot = [(fde_resource (pipe_end 10 1 FdAccess.Write), [pipe_end 11 0 FdAccess.Read, pipe_end 10 1 FdAccess.Write])]"
  "sys_raw_sockets pipe_snapshot = []" "sys_raw_namespaces pipe_snapshot = []" "sys_fd_relations pipe_snapshot = []"
  by (simp_all add: pipe_snapshot_def SystemSnapshot_default_def)

lemma pair_id_commute: "pair_id a b = pair_id b a"
  unfolding pair_id_def Let_def by (cases "end_text a \<le> end_text b"; cases "end_text b \<le> end_text a") auto

lemma pipe_end_simps [simp]:
  "fde_resource (pipe_end pid fd a) = \<lparr>ipcid_kind = IpcKind.Pipe, ipcid_device = \<lparr>dev_major = 0, dev_minor = 14\<rparr>, ipcid_inode = 99\<rparr>"
  "fde_kind (pipe_end pid fd a) = FdKind.Pipe" "fde_access (pipe_end pid fd a) = a" "fde_fd (pipe_end pid fd a) = fd"
  "fde_process_id (pipe_end pid fd a) = \<lparr>pid_pid = pid, pid_start_time_ticks = 7\<rparr>"
  by (simp_all add: pipe_end_def)

text \<open>The writer comes first, is paired with the reader, and the reader adds nothing.\<close>

definition pipe_match :: fd_match where
  "pipe_match = \<lparr>ma_peer = pipe_end 11 0 FdAccess.Read, ma_candidate = False, ma_shared = False, ma_label = lit ''pipe''\<rparr>"

lemma pipe_owners:
  "prepared_owners id (reordered id (hash_map [])) metadata (sys_raw_owners pipe_snapshot) =
     [(fde_resource (pipe_end 10 1 FdAccess.Write), [pipe_end 10 1 FdAccess.Write, pipe_end 11 0 FdAccess.Read])]"
  by (simp add: prepared_owners_def hash_map_def reordered_def set_status_def endpoint_order_def less_eq_prod_def map_filter_simps)

lemma pipe_matches:
  "endpoint_matches owners infos inode_ns key [pipe_end 10 1 FdAccess.Write, pipe_end 11 0 FdAccess.Read] 0 = [pipe_match]"
  "endpoint_matches owners infos inode_ns key [pipe_end 10 1 FdAccess.Write, pipe_end 11 0 FdAccess.Read] (Suc 0) =
     [pipe_match\<lparr>ma_peer := pipe_end 10 1 FdAccess.Write\<rparr>]"
  by (simp_all add: endpoint_matches_def own_matches_def own_match_def endpoint_info_def opposite_def FdKind_text_def
      pipe_match_def map_filter_simps)

lemma pipe_relate_owners:
  "relate_owners owners infos inode_ns [(key, [pipe_end 10 1 FdAccess.Write, pipe_end 11 0 FdAccess.Read])]
      \<lparr>bu_seen = [], bu_relations = [], bu_truncated = False\<rparr>
    = \<lparr>bu_seen = [pair_id (pipe_end 10 1 FdAccess.Write) (pipe_end 11 0 FdAccess.Read)],
       bu_relations = [pair_relation None (pipe_end 10 1 FdAccess.Write) pipe_match], bu_truncated = False\<rparr>"
  using pair_id_commute [of "pipe_end 11 0 FdAccess.Read"]
  by (simp add: relate_endpoint_def needs_external_def endpoint_info_def MATCH_LIMIT_def RELATION_LIMIT_def full_def pipe_matches
      upt_rec [of _ 2] pipe_match_def numeral_2_eq_2 Let_def)

lemma pipe_relations:
  "sys_fd_relations (snd (build_ipc_relations id id pipe_snapshot)) = [pair_relation None (pipe_end 10 1 FdAccess.Write) pipe_match]"
  "\<not> fst (build_ipc_relations id id pipe_snapshot)"
proof -
  have "sys_raw_neighbors pipe_snapshot = None" by (simp add: pipe_snapshot_def SystemSnapshot_default_def)
  with pipe_relate_owners
  show "sys_fd_relations (snd (build_ipc_relations id id pipe_snapshot)) = [pair_relation None (pipe_end 10 1 FdAccess.Write) pipe_match]"
      "\<not> fst (build_ipc_relations id id pipe_snapshot)"
    unfolding build_ipc_relations_def Let_def pipe_snapshot_captured(2-4) pipe_owners by simp_all
qed

text \<open>The pipe is reported as one relation with a distinct identifier that covers both ends.\<close>

theorem relations_identified_witness:
  "distinct (map rel_id (sys_fd_relations (snd (build_ipc_relations id id pipe_snapshot))))
   \<and> (\<exists>r\<in>set (sys_fd_relations (snd (build_ipc_relations id id pipe_snapshot))).
        end_key (rel_endpoint r) = end_key (pipe_end 11 0 FdAccess.Read)
        \<or> (\<exists>p. rel_peer r = Some p \<and> end_key p = end_key (pipe_end 11 0 FdAccess.Read)))"
  using relations_identified [of pipe_snapshot id id False "snd (build_ipc_relations id id pipe_snapshot)"] pipe_relations(2)
  by (auto simp: owner_keys_def end_key_def prod_eq_iff)

theorem relations_sound_witness:
  "relation_sound (map_of []) (map_of []) (sys_raw_owners pipe_snapshot) (pair_relation None (pipe_end 10 1 FdAccess.Write) pipe_match)"
  using relations_sound [of pipe_snapshot id id "pair_relation None (pipe_end 10 1 FdAccess.Write) pipe_match"] pipe_relations(1)
  by simp

end
