(* ===== verification/Perf_Ring.thy ===== *)
theory Perf_Ring
  imports Ipc_Acquisition Bytes
begin

text \<open>
  Samples from a perf event ring (\<open>src/privileged_helper/process/snapshot/perf.rs\<close>, \<open>sample.rs\<close> and the register masks of
  \<open>arch/\<close>). The mapping that the kernel shares is a list of bytes; what the system calls of \<open>open_attr\<close> return is an
  argument. A read outside the mapping has no value: \<open>drain\<close> is then \<open>None\<close>.
\<close>

section \<open>Events\<close>

definition PERF_REGS_MASK :: "Arch \<Rightarrow> u64" where
  "PERF_REGS_MASK arch = (case arch of Aarch64 \<Rightarrow> push_bit 33 1 - 1 | X86_64 \<Rightarrow> 0x3FF OR push_bit 16 0xFF)"

definition SAMPLE_TYPE :: u64 where
  "SAMPLE_TYPE = push_bit 1 1 OR push_bit 2 1 OR push_bit 7 1 OR push_bit 12 1 OR push_bit 13 1"

definition PERF_EVENT_HEADER_SIZE :: nat where "PERF_EVENT_HEADER_SIZE = 8"
definition PERF_RECORD_LOST :: u32 where "PERF_RECORD_LOST = 2"
definition PERF_RECORD_THROTTLE :: u32 where "PERF_RECORD_THROTTLE = 5"
definition PERF_RECORD_UNTHROTTLE :: u32 where "PERF_RECORD_UNTHROTTLE = 6"
definition PERF_RECORD_SAMPLE :: u32 where "PERF_RECORD_SAMPLE = 9"
definition PERF_RECORD_SWITCH :: u32 where "PERF_RECORD_SWITCH = 14"
definition PERF_RECORD_MISC_SWITCH_OUT :: u16 where "PERF_RECORD_MISC_SWITCH_OUT = push_bit 13 1"
definition PERF_RECORD_MISC_SWITCH_OUT_PREEMPT :: u16 where "PERF_RECORD_MISC_SWITCH_OUT_PREEMPT = push_bit 14 1"

record Attr =
  at_kind :: u32
  at_size :: u32
  at_config :: u64
  at_period :: u64
  at_sample_type :: u64
  at_read_format :: u64
  at_flags :: u64
  at_wakeup :: u32
  at_bp_type :: u32
  at_config1 :: u64
  at_config2 :: u64
  at_branch :: u64
  at_regs :: u64
  at_stack :: u32
  at_clock :: i32

definition Attr_default :: Attr where
  "Attr_default = \<lparr>at_kind = 0, at_size = 0, at_config = 0, at_period = 0, at_sample_type = 0, at_read_format = 0, at_flags = 0,
     at_wakeup = 0, at_bp_type = 0, at_config1 = 0, at_config2 = 0, at_branch = 0, at_regs = 0, at_stack = 0, at_clock = 0\<rparr>"

definition user_stack_bytes :: "bool \<Rightarrow> u32" where
  "user_stack_bytes privacy = (if privacy then 0 else 16384)"

definition CLOCK_MONOTONIC :: i32 where "CLOCK_MONOTONIC = 1"

text \<open>\<open>size_of::<Attr>()\<close> is 96: the fields have no padding between them.\<close>

definition open_attributes :: "Arch \<Rightarrow> bool \<Rightarrow> Attr" where
  "open_attributes arch privacy = Attr_default
     \<lparr>at_kind := 1, at_size := 96, at_config := 0, at_period := 10000000, at_sample_type := SAMPLE_TYPE,
      at_flags := push_bit 5 1 OR push_bit 6 1 OR push_bit 25 1, at_wakeup := 1, at_regs := PERF_REGS_MASK arch,
      at_stack := user_stack_bytes privacy, at_clock := CLOCK_MONOTONIC\<rparr>"

definition context_switch_attributes :: "Arch \<Rightarrow> bool \<Rightarrow> Attr" where
  "context_switch_attributes arch privacy = Attr_default
     \<lparr>at_kind := 1, at_size := 96, at_config := 3, at_period := 1, at_sample_type := SAMPLE_TYPE,
      at_flags := push_bit 18 1 OR push_bit 25 1 OR push_bit 26 1, at_wakeup := 1, at_regs := PERF_REGS_MASK arch,
      at_stack := user_stack_bytes privacy, at_clock := CLOCK_MONOTONIC\<rparr>"

record RawSample =
  rs_source :: SampleSource
  rs_tid :: i32
  rs_time_ns :: u64
  rs_cpu :: "u32 option"
  rs_registers :: RegisterSet
  rs_stack :: "byte list"

datatype perf_error = PerfEventOpen | PerfMmap | InvalidRingLayout | RingOverrun | TruncatedHeader | InvalidRecordSize
  | TruncatedSample | Not64Bit | InvalidStackSize

record PerfEventReader =
  pe_length :: nat
  pe_offset :: nat
  pe_capacity :: nat
  pe_tail :: u64
  pe_lost :: u64
  pe_context_switch :: bool
  pe_pending :: "RawSample option"

text \<open>
  \<open>fd\<close> is whether \<open>perf_event_open\<close> succeeded with the attributes, \<open>mapped\<close> the mapping if \<open>mmap\<close> of 17 pages did.
\<close>

definition open_attr :: "bool \<Rightarrow> nat \<Rightarrow> byte list option \<Rightarrow> bool \<Rightarrow> perf_error + PerfEventReader" where
  "open_attr fd page mapped cs =
     (if \<not> fd then Inl PerfEventOpen
      else case mapped of
        None \<Rightarrow> Inl PerfMmap
      | Some mapping \<Rightarrow>
          (let offset = unat (word_at mapping 1040 :: u64); capacity = unat (word_at mapping 1048 :: u64) in
           if offset < page \<or> capacity = 0 \<or> 2 ^ 64 \<le> offset + capacity \<or> page * 17 < offset + capacity then Inl InvalidRingLayout
           else Inr \<lparr>pe_length = page * 17, pe_offset = offset, pe_capacity = capacity, pe_tail = 0, pe_lost = 0,
             pe_context_switch = cs, pe_pending = None\<rparr>))"

section \<open>Samples\<close>

text \<open>\<open>Cursor::take\<close> and \<open>Cursor::u64\<close>.\<close>

definition cursor_take :: "nat \<Rightarrow> byte list \<Rightarrow> perf_error + (byte list \<times> byte list)" where
  "cursor_take n bytes = (if n \<le> length bytes then Inr (take n bytes, drop n bytes) else Inl TruncatedSample)"

definition cursor_u64 :: "byte list \<Rightarrow> perf_error + (u64 \<times> byte list)" where
  "cursor_u64 bytes = and_then (cursor_take 8 bytes) (\<lambda>(value, rest). Inr (from_ne_bytes value, rest))"

text \<open>The registers from index \<open>i\<close>, \<open>n\<close> of them: those in the mask are read, the others are zero.\<close>

primrec read_masked_registers :: "u64 \<Rightarrow> nat \<Rightarrow> nat \<Rightarrow> byte list \<Rightarrow> perf_error + (u64 list \<times> byte list)" where
  "read_masked_registers regs i 0 bytes = Inr ([], bytes)"
| "read_masked_registers regs i (Suc n) bytes =
     and_then (if regs AND push_bit i 1 \<noteq> 0 then cursor_u64 bytes else Inr (0, bytes)) (\<lambda>(value, bytes).
     and_then (read_masked_registers regs (Suc i) n bytes) (\<lambda>(values, bytes). Inr (value # values, bytes)))"

text \<open>The leading \<open>TID\<close>, \<open>TIME\<close> and \<open>CPU\<close> words of a sample and of a \<open>sample_id_all\<close> trailer.\<close>

definition read_identity :: "byte list \<Rightarrow> perf_error + (i32 \<times> u64 \<times> u32 \<times> byte list)" where
  "read_identity bytes =
     and_then (cursor_take 8 bytes) (\<lambda>(tids, bytes).
     and_then (cursor_u64 bytes) (\<lambda>(time, bytes).
     and_then (cursor_u64 bytes) (\<lambda>(cpu, bytes). Inr (from_ne_bytes (drop 4 tids), time, ucast cpu, bytes))))"

definition parse_perf_sample :: "Arch \<Rightarrow> byte list \<Rightarrow> perf_error + RawSample option" where
  "parse_perf_sample arch bytes =
     and_then (read_identity bytes) (\<lambda>(tid, time_ns, cpu, bytes).
     and_then (cursor_u64 bytes) (\<lambda>(abi, bytes).
     if abi = 0 then Inr None
     else if abi \<noteq> 2 then Inl Not64Bit
     else
       and_then (read_masked_registers (PERF_REGS_MASK arch) 0 (COUNT arch) bytes) (\<lambda>(values, bytes).
       and_then (cursor_u64 bytes) (\<lambda>(len, bytes).
       and_then (cursor_take (unat len) bytes) (\<lambda>(stack, bytes).
       and_then (if len = 0 then Inr 0 else and_then (cursor_u64 bytes) (\<lambda>(used, _). Inr (unat used))) (\<lambda>used.
       if unat len < used then Inl InvalidStackSize
       else Inr (Some \<lparr>rs_source = CpuClock, rs_tid = tid, rs_time_ns = time_ns, rs_cpu = Some cpu,
         rs_registers = \<lparr>regs_values = values, regs_flags_available = (arch = X86_64), regs_code_pac_mask = None\<rparr>,
         rs_stack = take used stack\<rparr>)))))))"

section \<open>Draining the ring\<close>

definition read_volatile :: "byte list \<Rightarrow> nat \<Rightarrow> byte option" where
  "read_volatile mapping i = (if i < length mapping then Some (mapping ! i) else None)"

definition copy :: "byte list \<Rightarrow> PerfEventReader \<Rightarrow> u64 \<Rightarrow> nat \<Rightarrow> byte list option" where
  "copy mapping r position n =
     those (map (\<lambda>i. read_volatile mapping (pe_offset r + unat ((position + word_of_nat i) mod word_of_nat (pe_capacity r)))) [0..<n])"

text \<open>One record: the updated reader, and the latest sample or the error that ends the loop.\<close>

definition sample_record ::
  "Arch \<Rightarrow> byte list \<Rightarrow> PerfEventReader \<Rightarrow> RawSample option \<Rightarrow> (perf_error + RawSample option) \<times> PerfEventReader"
where
  "sample_record arch bytes r latest =
     (case parse_perf_sample arch bytes of
        Inl e \<Rightarrow> (Inl e, r)
      | Inr sample \<Rightarrow>
          if pe_context_switch r then (Inr latest, r\<lparr>pe_pending := sample\<rparr>)
          else (Inr (if sample \<noteq> None then sample else latest), r))"

definition switched_out :: "u16 \<Rightarrow> i32 \<Rightarrow> u64 \<Rightarrow> u32 \<Rightarrow> RawSample \<Rightarrow> bool" where
  "switched_out misc tid time cpu sample \<longleftrightarrow> misc AND PERF_RECORD_MISC_SWITCH_OUT \<noteq> 0 \<and> rs_tid sample = tid
     \<and> rs_time_ns sample \<le> time \<and> rs_cpu sample = Some cpu"

definition switch_record ::
  "u16 \<Rightarrow> byte list \<Rightarrow> PerfEventReader \<Rightarrow> RawSample option \<Rightarrow> (perf_error + RawSample option) \<times> PerfEventReader"
where
  "switch_record misc bytes r latest =
     (case read_identity bytes of
        Inl e \<Rightarrow> (Inl e, r)
      | Inr (tid, time, cpu, _) \<Rightarrow>
          (Inr (case pe_pending r of
              Some sample \<Rightarrow>
                if switched_out misc tid time cpu sample
                then Some (sample\<lparr>rs_source := ContextSwitch (misc AND PERF_RECORD_MISC_SWITCH_OUT_PREEMPT \<noteq> 0)\<rparr>) else latest
            | None \<Rightarrow> latest),
           r\<lparr>pe_pending := None\<rparr>))"

definition lost_record :: "byte list \<Rightarrow> PerfEventReader \<Rightarrow> RawSample option \<Rightarrow> (perf_error + RawSample option) \<times> PerfEventReader" where
  "lost_record bytes r latest =
     (let r = r\<lparr>pe_pending := None\<rparr> in
      case and_then (cursor_u64 bytes) (\<lambda>(_, bytes). cursor_u64 bytes) of
        Inl e \<Rightarrow> (Inl e, r)
      | Inr (lost, _) \<Rightarrow> (Inr latest, r\<lparr>pe_lost := saturating_add (pe_lost r) lost\<rparr>))"

definition handle_record ::
  "Arch \<Rightarrow> u32 \<Rightarrow> u16 \<Rightarrow> byte list \<Rightarrow> PerfEventReader \<Rightarrow> RawSample option \<Rightarrow> (perf_error + RawSample option) \<times> PerfEventReader"
where
  "handle_record arch kind misc bytes r latest =
     (if kind = PERF_RECORD_SAMPLE then sample_record arch bytes r latest
      else if kind = PERF_RECORD_SWITCH \<and> pe_context_switch r then switch_record misc bytes r latest
      else if (kind = PERF_RECORD_THROTTLE \<or> kind = PERF_RECORD_UNTHROTTLE) \<and> pe_context_switch r
      then (Inr latest, r\<lparr>pe_pending := None\<rparr>)
      else if kind = PERF_RECORD_LOST then lost_record bytes r latest
      else (Inr latest, r))"

text \<open>The loop up to \<open>head\<close>.\<close>

function (sequential) drain_loop ::
  "Arch \<Rightarrow> byte list \<Rightarrow> u64 \<Rightarrow> PerfEventReader \<Rightarrow> RawSample option \<Rightarrow> ((perf_error + RawSample option) \<times> PerfEventReader) option"
where
  "drain_loop arch mapping head r latest =
     (if pe_tail r = head then Some (Inr latest, r)
      else if unat (head - pe_tail r) < PERF_EVENT_HEADER_SIZE then Some (Inl TruncatedHeader, r)
      else case copy mapping r (pe_tail r) PERF_EVENT_HEADER_SIZE of
        None \<Rightarrow> None
      | Some header \<Rightarrow>
          (let kind = from_ne_bytes (take 4 header); size = unat (from_ne_bytes (drop 6 header) :: u16) in
           if size < PERF_EVENT_HEADER_SIZE \<or> pe_capacity r < size \<or> unat (head - pe_tail r) < size then Some (Inl InvalidRecordSize, r)
           else case copy mapping r (pe_tail r + word_of_nat PERF_EVENT_HEADER_SIZE) (size - PERF_EVENT_HEADER_SIZE) of
             None \<Rightarrow> None
           | Some bytes \<Rightarrow>
               (case handle_record arch kind (from_ne_bytes (slice 4 6 header)) bytes (r\<lparr>pe_tail := pe_tail r + word_of_nat size\<rparr>) latest of
                  (Inl e, r) \<Rightarrow> Some (Inl e, r)
                | (Inr latest, r) \<Rightarrow> drain_loop arch mapping head r latest)))"
  by pat_completeness auto

lemma handle_record_keeps:
  assumes "handle_record arch kind misc bytes r latest = (res, r')"
  shows "pe_tail r' = pe_tail r" "pe_offset r' = pe_offset r" "pe_capacity r' = pe_capacity r" "pe_length r' = pe_length r"
    "pe_context_switch r' = pe_context_switch r"
  using assms
  by (auto simp: handle_record_def sample_record_def switch_record_def lost_record_def Let_def split: if_splits sum.splits prod.splits)

lemma unat_diff_of_nat: "n \<le> unat (a :: u64) \<Longrightarrow> unat (a - word_of_nat n) = unat a - n"
proof -
  assume n: "n \<le> unat a"
  then have "unat (word_of_nat n :: u64) = n" using unat_less_pow [of a] by (simp add: unat_of_nat)
  then show ?thesis using n by (simp add: unat_sub word_le_nat_alt)
qed

lemma advance: "n \<le> unat (head - tail) \<Longrightarrow> unat (head - (tail + word_of_nat n)) = unat (head - tail) - n" for head tail :: u64
  using unat_diff_of_nat [of n "head - tail"] by (simp add: diff_diff_eq)

termination drain_loop
proof (relation "measure (\<lambda>(_, _, head, r, _). unat (head - pe_tail r))", goal_cases)
  case (2 arch mapping head r latest header kind size bytes res r' latest')
  then have size: "PERF_EVENT_HEADER_SIZE \<le> size" "size \<le> unat (head - pe_tail r)" by simp_all
  moreover have "pe_tail r' = pe_tail r + word_of_nat size"
    using handle_record_keeps(1) 2 by (metis PerfEventReader.select_convs(4) PerfEventReader.surjective PerfEventReader.update_convs(4))
  ultimately show ?case using advance [OF size(2)] by (simp add: PERF_EVENT_HEADER_SIZE_def)
qed simp

declare drain_loop.simps [simp del]

definition drain :: "Arch \<Rightarrow> byte list \<Rightarrow> PerfEventReader \<Rightarrow> ((perf_error + RawSample option) \<times> PerfEventReader \<times> u64) option" where
  "drain arch mapping r =
     (let head = word_at mapping 1024 in
      map_option (\<lambda>(result, r).
        let r = (case result of
            Inl _ \<Rightarrow> r\<lparr>pe_lost := saturating_add (pe_lost r) 1, pe_tail := head, pe_pending := None\<rparr>
          | Inr _ \<Rightarrow> r) in (result, r, pe_tail r))
        (if pe_capacity r < unat (head - pe_tail r) then Some (Inl RingOverrun, r)
         else drain_loop arch mapping head r None))"

section \<open>Every byte is inside the mapping\<close>

definition ring_ok :: "byte list \<Rightarrow> PerfEventReader \<Rightarrow> bool" where
  "ring_ok mapping r \<longleftrightarrow> length mapping = pe_length r \<and> 0 < pe_capacity r \<and> pe_offset r + pe_capacity r \<le> pe_length r
     \<and> pe_offset r + pe_capacity r < 2 ^ 64"

definition ring_byte :: "byte list \<Rightarrow> PerfEventReader \<Rightarrow> u64 \<Rightarrow> byte" where
  "ring_byte mapping r position = mapping ! (pe_offset r + unat position mod pe_capacity r)"

lemma those_map_Some: "\<forall>x\<in>set xs. f x = Some (g x) \<Longrightarrow> those (map f xs) = Some (map g xs)"
  by (induction xs) auto

lemma copy_ring:
  assumes "ring_ok mapping r"
  shows "copy mapping r position n = Some (map (\<lambda>i. ring_byte mapping r (position + word_of_nat i)) [0..<n])"
  unfolding copy_def
proof (rule those_map_Some, rule ballI)
  fix i
  have "unat (word_of_nat (pe_capacity r) :: u64) = pe_capacity r" using assms by (simp add: ring_ok_def unat_of_nat)
  then have "unat ((position + word_of_nat i) mod word_of_nat (pe_capacity r) :: u64) = unat (position + word_of_nat i) mod pe_capacity r"
    by (simp add: unat_mod_distrib)
  moreover have "unat (position + word_of_nat i) mod pe_capacity r < pe_capacity r" using assms by (simp add: ring_ok_def)
  then have "pe_offset r + unat (position + word_of_nat i) mod pe_capacity r < length mapping" using assms unfolding ring_ok_def by linarith
  ultimately show "read_volatile mapping (pe_offset r + unat ((position + word_of_nat i) mod word_of_nat (pe_capacity r)))
      = Some (ring_byte mapping r (position + word_of_nat i))"
    by (simp add: read_volatile_def ring_byte_def)
qed

text \<open>What every step keeps: the layout, and the count of lost records, which never falls.\<close>

definition same_ring :: "PerfEventReader \<Rightarrow> PerfEventReader \<Rightarrow> bool" where
  "same_ring r r' \<longleftrightarrow> pe_offset r' = pe_offset r \<and> pe_capacity r' = pe_capacity r \<and> pe_length r' = pe_length r
     \<and> pe_context_switch r' = pe_context_switch r \<and> pe_lost r \<le> pe_lost r'"

lemma saturating_add_mono: "(a :: u64) \<le> saturating_add a b"
  using unat_saturating_add [of a b] unat_less_pow [of a] by (simp add: word_le_nat_alt)

lemma same_ring_trans: "same_ring a b \<Longrightarrow> same_ring b c \<Longrightarrow> same_ring a c"
  by (auto simp: same_ring_def)

lemma same_ring_ok: "same_ring r r' \<Longrightarrow> ring_ok mapping r' = ring_ok mapping r"
  by (simp add: same_ring_def ring_ok_def)

lemma handle_record_same_ring:
  assumes "handle_record arch kind misc bytes r latest = (res, r')"
  shows "same_ring r r'"
proof -
  have "pe_lost r \<le> pe_lost r'"
    using assms by (auto simp: handle_record_def sample_record_def switch_record_def lost_record_def Let_def saturating_add_mono
        split: if_splits sum.splits prod.splits)
  then show ?thesis using handle_record_keeps [OF assms] by (simp add: same_ring_def)
qed

lemma drain_loop_safe:
  "ring_ok mapping r \<Longrightarrow> \<exists>result r'. drain_loop arch mapping head r latest = Some (result, r') \<and> same_ring r r'
     \<and> (\<forall>l. result = Inr l \<longrightarrow> pe_tail r' = head)"
proof (induction arch mapping head r latest rule: drain_loop.induct)
  case (1 arch mapping head r latest)
  define header where "header = map (\<lambda>i. ring_byte mapping r (pe_tail r + word_of_nat i)) [0..<PERF_EVENT_HEADER_SIZE]"
  define size where "size = unat (from_ne_bytes (drop 6 header) :: u16)"
  define bytes where "bytes = map (\<lambda>i. ring_byte mapping r (pe_tail r + word_of_nat PERF_EVENT_HEADER_SIZE + word_of_nat i))
    [0..<size - PERF_EVENT_HEADER_SIZE]"
  define r1 where "r1 = r\<lparr>pe_tail := pe_tail r + word_of_nat size\<rparr>"
  have refl: "same_ring r r" "same_ring r r1" by (simp_all add: same_ring_def r1_def)
  show ?case
  proof (cases "pe_tail r = head \<or> unat (head - pe_tail r) < PERF_EVENT_HEADER_SIZE
      \<or> size < PERF_EVENT_HEADER_SIZE \<or> pe_capacity r < size \<or> unat (head - pe_tail r) < size")
    case True
    then show ?thesis
      by (subst drain_loop.simps) (auto simp: copy_ring [OF "1.prems"] Let_def refl simp flip: header_def size_def)
  next
    case False
    obtain res r2 where h: "handle_record arch (from_ne_bytes (take 4 header)) (from_ne_bytes (slice 4 6 header)) bytes r1 latest = (res, r2)"
      by force
    note unfold = copy_ring [OF "1.prems"] Let_def
    have step: "drain_loop arch mapping head r latest = (case res of Inl e \<Rightarrow> Some (Inl e, r2) | Inr latest \<Rightarrow> drain_loop arch mapping head r2 latest)"
      using False h by (subst drain_loop.simps)
        (simp add: unfold flip: header_def size_def bytes_def r1_def split: sum.split)
    have ring: "same_ring r r2" using same_ring_trans [OF refl(2) handle_record_same_ring [OF h]] .
    show ?thesis
    proof (cases res)
      case (Inl e)
      then show ?thesis using step ring by simp
    next
      case (Inr l)
      have "ring_ok mapping r2" using same_ring_ok [OF ring] "1.prems" by simp
      have "\<exists>result r'. drain_loop arch mapping head r2 l = Some (result, r') \<and> same_ring r2 r' \<and> (\<forall>l. result = Inr l \<longrightarrow> pe_tail r' = head)"
        by (rule "1.IH" [of header "from_ne_bytes (take 4 header)" size bytes])
          (use False h Inr \<open>ring_ok mapping r2\<close> in \<open>simp_all add: unfold flip: header_def size_def bytes_def r1_def\<close>)
      then show ?thesis using step Inr same_ring_trans [OF ring] by auto
    qed
  qed
qed

lemma drain_safe:
  assumes "ring_ok mapping r"
  obtains result r' where "drain arch mapping r = Some (result, r', word_at mapping 1024)" "pe_tail r' = word_at mapping 1024" "same_ring r r'"
    "\<And>e. result = Inl e \<Longrightarrow> pe_pending r' = None \<and> (pe_lost r < - 1 \<longrightarrow> pe_lost r < pe_lost r')"
proof -
  let ?head = "word_at mapping 1024 :: u64"
  let ?loop = "if pe_capacity r < unat (?head - pe_tail r) then Some (Inl RingOverrun, r) else drain_loop arch mapping ?head r None"
  have "same_ring r r" by (simp add: same_ring_def)
  then have "\<exists>result r1. ?loop = Some (result, r1) \<and> same_ring r r1 \<and> (\<forall>l. result = Inr l \<longrightarrow> pe_tail r1 = ?head)"
    using drain_loop_safe [OF assms, of arch ?head None] by (cases "pe_capacity r < unat (?head - pe_tail r)") (simp_all del: split_paired_Ex)
  then obtain result r1 where l: "?loop = Some (result, r1)" "same_ring r r1" "\<forall>l. result = Inr l \<longrightarrow> pe_tail r1 = ?head" by blast
  define r' where "r' = (case result of
      Inl _ \<Rightarrow> r1\<lparr>pe_lost := saturating_add (pe_lost r1) 1, pe_tail := ?head, pe_pending := None\<rparr> | Inr _ \<Rightarrow> r1)"
  have tail: "pe_tail r' = ?head" using l(3) by (cases result) (simp_all add: r'_def)
  have "drain arch mapping r = Some (result, r', pe_tail r')"
    unfolding drain_def Let_def l(1) by (simp add: r'_def)
  moreover have "same_ring r r'"
    using l(2) saturating_add_mono [of "pe_lost r1" 1] by (cases result) (auto simp: r'_def same_ring_def)
  moreover have "pe_pending r' = None \<and> (pe_lost r < - 1 \<longrightarrow> pe_lost r < pe_lost r')" if "result = Inl e" for e
  proof -
    have "pe_lost r' = saturating_add (pe_lost r1) 1" "pe_lost r \<le> pe_lost r1" using that l(2) by (simp_all add: r'_def same_ring_def)
    then have "pe_lost r < pe_lost r'" if "pe_lost r < - 1"
      using that unat_saturating_add [of "pe_lost r1" 1] by (simp add: word_le_nat_alt word_less_nat_alt unsigned_minus_1_eq_mask mask_eq_exp_minus_1)
    then show ?thesis using that by (simp add: r'_def)
  qed
  ultimately show thesis using that tail by metis
qed

section \<open>The records in the ring\<close>

text \<open>
  A record as the kernel writes it. \<open>ring_holds mapping r p bytes\<close>: the \<open>bytes\<close> were written from position \<open>p\<close> on, counted
  from the creation of the ring.
\<close>

type_synonym perf_record = "u32 \<times> u16 \<times> byte list"

definition record_bytes :: "perf_record \<Rightarrow> byte list" where
  "record_bytes = (\<lambda>(kind, misc, payload).
     to_ne_bytes kind @ to_ne_bytes misc @ to_ne_bytes (word_of_nat (8 + length payload) :: u16) @ payload)"

definition record_ok :: "perf_record \<Rightarrow> bool" where
  "record_ok = (\<lambda>(_, _, payload). 8 + length payload < 2 ^ 16)"

definition ring_holds :: "byte list \<Rightarrow> PerfEventReader \<Rightarrow> nat \<Rightarrow> byte list \<Rightarrow> bool" where
  "ring_holds mapping r p bytes \<longleftrightarrow> (\<forall>i<length bytes. mapping ! (pe_offset r + (p + i) mod pe_capacity r) = bytes ! i)"

text \<open>Draining a list of records: the records in order up to the first that cannot be read, which discards the rest.\<close>

fun handle_all :: "Arch \<Rightarrow> perf_record list \<Rightarrow> PerfEventReader \<Rightarrow> RawSample option \<Rightarrow> (perf_error + RawSample option) \<times> PerfEventReader" where
  "handle_all arch [] r latest = (Inr latest, r)"
| "handle_all arch ((kind, misc, bytes) # recs) r latest =
     (case handle_record arch kind misc bytes r latest of
        (Inl e, r) \<Rightarrow> (Inl e, r)
      | (Inr latest, r) \<Rightarrow> handle_all arch recs r latest)"

definition drain_batch :: "Arch \<Rightarrow> perf_record list \<Rightarrow> PerfEventReader \<Rightarrow> (perf_error + RawSample option) \<times> PerfEventReader" where
  "drain_batch arch recs r =
     (case handle_all arch recs r None of
        (Inl e, r) \<Rightarrow> (Inl e, r\<lparr>pe_lost := saturating_add (pe_lost r) 1, pe_pending := None\<rparr>)
      | (Inr latest, r) \<Rightarrow> (Inr latest, r))"

lemma ring_holds_append:
  assumes "ring_holds mapping r p (as @ bs)"
  shows "ring_holds mapping r p as" "ring_holds mapping r (p + length as) bs"
proof -
  show "ring_holds mapping r p as" using assms by (auto simp: ring_holds_def nth_append split: if_splits)
  show "ring_holds mapping r (p + length as) bs"
    unfolding ring_holds_def
  proof (intro allI impI)
    fix i
    assume "i < length bs"
    then show "mapping ! (pe_offset r + (p + length as + i) mod pe_capacity r) = bs ! i"
      using assms [unfolded ring_holds_def, rule_format, of "length as + i"] by (simp add: add.assoc)
  qed
qed

lemma ring_holds_bytes:
  assumes "ring_holds mapping r p bytes" "pe_capacity r dvd 2 ^ 64" "n = length bytes"
  shows "map (\<lambda>i. ring_byte mapping r (word_of_nat p + word_of_nat i)) [0..<n] = bytes"
proof (rule nth_equalityI)
  fix i
  assume i: "i < length (map (\<lambda>i. ring_byte mapping r (word_of_nat p + word_of_nat i)) [0..<n])"
  have "unat (word_of_nat p + word_of_nat i :: u64) mod pe_capacity r = (p + i) mod pe_capacity r"
    using assms(2) by (simp add: unat_of_nat mod_mod_cancel flip: of_nat_add)
  then show "map (\<lambda>i. ring_byte mapping r (word_of_nat p + word_of_nat i)) [0..<n] ! i = bytes ! i"
    using i assms(1,3) by (simp add: ring_byte_def ring_holds_def)
qed (use assms(3) in simp)

lemma handle_record_tail:
  "handle_record arch kind misc bytes (r\<lparr>pe_tail := t\<rparr>) latest = map_prod id (pe_tail_update (\<lambda>_. t)) (handle_record arch kind misc bytes r latest)"
  by (auto simp: handle_record_def sample_record_def switch_record_def lost_record_def Let_def split: sum.splits)

lemma handle_all_tail: "handle_all arch recs (r\<lparr>pe_tail := t\<rparr>) latest = map_prod id (pe_tail_update (\<lambda>_. t)) (handle_all arch recs r latest)"
  by (induction arch recs r latest rule: handle_all.induct) (auto simp: handle_record_tail split: prod.splits sum.splits)

lemma ring_holds_tail [simp]: "ring_holds mapping (r\<lparr>pe_tail := t\<rparr>) p bytes = ring_holds mapping r p bytes"
  by (simp add: ring_holds_def)

lemma head_distance:
  assumes "n < 2 ^ 64"
  shows "unat (word_of_nat (p + n) - word_of_nat p :: u64) = n"
  using assms by (simp add: unat_of_nat)

lemma record_header:
  assumes "record_ok (kind, misc, payload)" "header = take 8 (record_bytes (kind, misc, payload))"
  shows "from_ne_bytes (take 4 header) = kind" "from_ne_bytes (slice 4 6 header) = misc"
    "unat (from_ne_bytes (drop 6 header) :: u16) = 8 + length payload"
    "record_bytes (kind, misc, payload) = header @ payload" "length header = 8"
proof -
  let ?size = "word_of_nat (8 + length payload) :: u16"
  have h: "header = to_ne_bytes kind @ to_ne_bytes misc @ to_ne_bytes ?size"
    unfolding assms(2) by (simp add: record_bytes_def)
  show "from_ne_bytes (take 4 header) = kind" "from_ne_bytes (slice 4 6 header) = misc" "length header = 8"
      "record_bytes (kind, misc, payload) = header @ payload"
    unfolding h by (simp_all add: slice_def from_to_ne_bytes record_bytes_def)
  have "from_ne_bytes (drop 6 header) = ?size" unfolding h by (simp add: from_to_ne_bytes)
  then show "unat (from_ne_bytes (drop 6 header) :: u16) = 8 + length payload"
    using assms(1) by (simp add: record_ok_def unat_of_nat del: of_nat_add)
qed

lemma drain_loop_record:
  assumes "ring_ok mapping r" "pe_capacity r dvd 2 ^ 64" "pe_tail r = word_of_nat p" "record_ok (kind, misc, payload)"
    and "ring_holds mapping r p (record_bytes (kind, misc, payload) @ rest)"
    and "length (record_bytes (kind, misc, payload) @ rest) \<le> pe_capacity r"
    and head: "head = word_of_nat (p + length (record_bytes (kind, misc, payload) @ rest))"
  shows "drain_loop arch mapping head r latest =
    (case handle_record arch kind misc payload (r\<lparr>pe_tail := word_of_nat (p + 8 + length payload)\<rparr>) latest of
       (Inl e, r) \<Rightarrow> Some (Inl e, r) | (Inr latest, r) \<Rightarrow> drain_loop arch mapping head r latest)"
proof -
  define header where "header = take 8 (record_bytes (kind, misc, payload))"
  note h = record_header [OF assms(4) header_def]
  have small: "pe_capacity r < 2 ^ 64" using assms(1) by (simp add: ring_ok_def)
  have dist: "unat (head - pe_tail r) = 8 + length payload + length rest"
    unfolding head assms(3) using head_distance [of "length (record_bytes (kind, misc, payload) @ rest)" p] assms(6) small by (simp add: h(4,5))
  have "ring_holds mapping r p (header @ payload @ rest)" using assms(5) by (simp add: h(4))
  then have holds: "ring_holds mapping r p header" "ring_holds mapping r (p + 8) payload"
    using ring_holds_append h(5) by metis+
  have c1: "copy mapping r (pe_tail r) PERF_EVENT_HEADER_SIZE = Some header"
    using copy_ring [OF assms(1)] ring_holds_bytes [OF holds(1) assms(2)] h(5) by (simp add: PERF_EVENT_HEADER_SIZE_def assms(3))
  have c2: "copy mapping r (pe_tail r + word_of_nat PERF_EVENT_HEADER_SIZE) (length payload) = Some payload"
    using copy_ring [OF assms(1)] ring_holds_bytes [OF holds(2) assms(2) refl] by (simp add: PERF_EVENT_HEADER_SIZE_def assms(3))
  have "pe_tail r \<noteq> head" using dist by auto
  moreover have "8 + length payload \<le> pe_capacity r" using assms(6) h(4,5) by simp
  moreover have tail: "word_of_nat (p + 8 + length payload) = pe_tail r + word_of_nat (8 + length payload)" by (simp add: assms(3))
  ultimately show ?thesis
    unfolding tail by (subst drain_loop.simps)
      (simp add: c1 [unfolded PERF_EVENT_HEADER_SIZE_def] c2 [unfolded PERF_EVENT_HEADER_SIZE_def, simplified] Let_def h(1-3) dist PERF_EVENT_HEADER_SIZE_def
        del: of_nat_add)
qed

lemma drain_loop_records:
  assumes "ring_ok mapping r" "pe_capacity r dvd 2 ^ 64" "pe_tail r = word_of_nat p" "\<forall>x\<in>set recs. record_ok x"
    and "ring_holds mapping r p (concat (map record_bytes recs))" "length (concat (map record_bytes recs)) \<le> pe_capacity r"
    and "head = word_of_nat (p + length (concat (map record_bytes recs)))" "handle_all arch recs r latest = (res, r')"
  shows "\<exists>t. drain_loop arch mapping head r latest = Some (res, r'\<lparr>pe_tail := t\<rparr>) \<and> (\<forall>l. res = Inr l \<longrightarrow> t = head)"
  using assms
proof (induction recs arbitrary: r p latest r')
  case Nil
  then have "drain_loop arch mapping head r latest = Some (res, r'\<lparr>pe_tail := head\<rparr>)" by (subst drain_loop.simps) auto
  then show ?case by blast
next
  case (Cons x recs)
  obtain kind misc payload where x: "x = (kind, misc, payload)" by (cases x)
  let ?rest = "concat (map record_bytes recs)" and ?t = "word_of_nat (p + 8 + length payload) :: u64"
  have ok: "record_ok (kind, misc, payload)" using Cons.prems(4) x by simp
  have len: "length (record_bytes (kind, misc, payload)) = 8 + length payload" by (simp add: record_bytes_def)
  have step: "drain_loop arch mapping head r latest = (case handle_record arch kind misc payload (r\<lparr>pe_tail := ?t\<rparr>) latest of
       (Inl e, r) \<Rightarrow> Some (Inl e, r) | (Inr latest, r) \<Rightarrow> drain_loop arch mapping head r latest)"
    by (rule drain_loop_record [OF Cons.prems(1-3) ok]) (use Cons.prems(5-7) x in simp_all)
  obtain res1 r1 where h: "handle_record arch kind misc payload r latest = (res1, r1)" by force
  have ring: "same_ring r r1" using handle_record_same_ring [OF h] .
  show ?case
  proof (cases res1)
    case (Inl e)
    then show ?thesis using step h Cons.prems(8) by (auto simp: handle_record_tail x)
  next
    case (Inr l)
    let ?r1 = "r1\<lparr>pe_tail := ?t\<rparr>"
    have ok1: "ring_ok mapping ?r1" using Cons.prems(1) ring by (simp add: ring_ok_def same_ring_def)
    have cap1: "pe_capacity ?r1 dvd 2 ^ 64" using Cons.prems(2) ring by (simp add: same_ring_def)
    have tail1: "pe_tail ?r1 = ?t" by simp
    have recs1: "\<forall>x\<in>set recs. record_ok x" using Cons.prems(4) by simp
    have "ring_holds mapping r (p + length (record_bytes (kind, misc, payload))) ?rest"
      using Cons.prems(5) ring_holds_append(2) by (simp add: x)
    then have holds1: "ring_holds mapping ?r1 (p + 8 + length payload) ?rest" using ring len by (simp add: same_ring_def ring_holds_def add.assoc)
    have len1: "length ?rest \<le> pe_capacity ?r1" using Cons.prems(6) ring by (simp add: same_ring_def)
    have head1: "head = word_of_nat (p + 8 + length payload + length ?rest)"
      using Cons.prems(7) len by (simp add: x add.assoc)
    have all1: "handle_all arch recs ?r1 l = (res, r'\<lparr>pe_tail := ?t\<rparr>)"
      using Cons.prems(8) h Inr by (simp add: x handle_all_tail)
    from Cons.IH [OF ok1 cap1 tail1 recs1 holds1 len1 head1 all1]
    obtain t where "drain_loop arch mapping head ?r1 l = Some (res, r'\<lparr>pe_tail := ?t, pe_tail := t\<rparr>)" "\<forall>l. res = Inr l \<longrightarrow> t = head" by blast
    then show ?thesis using step h Inr by (auto simp: handle_record_tail)
  qed
qed

section \<open>A reader over its lifetime\<close>

fun drains :: "Arch \<Rightarrow> byte list list \<Rightarrow> PerfEventReader \<Rightarrow> ((perf_error + RawSample option) list \<times> PerfEventReader) option" where
  "drains arch [] r = Some ([], r)"
| "drains arch (mapping # mappings) r =
     (case drain arch mapping r of
        None \<Rightarrow> None
      | Some (result, r, _) \<Rightarrow> map_option (map_prod (Cons result) id) (drains arch mappings r))"

lemma drains_safe:
  "\<forall>mapping\<in>set mappings. ring_ok mapping r \<Longrightarrow> \<exists>results r'. drains arch mappings r = Some (results, r') \<and> length results = length mappings
     \<and> same_ring r r' \<and> (mappings \<noteq> [] \<longrightarrow> pe_tail r' = word_at (last mappings) 1024)
     \<and> min (2 ^ 64 - 1) (unat (pe_lost r) + length (filter isl results)) \<le> unat (pe_lost r')"
proof (induction mappings arbitrary: r)
  case Nil
  then show ?case by (simp add: same_ring_def)
next
  case (Cons mapping mappings)
  from Cons.prems have "ring_ok mapping r" by simp
  then obtain result r1 where d: "drain arch mapping r = Some (result, r1, word_at mapping 1024)" "pe_tail r1 = word_at mapping 1024" "same_ring r r1"
      "\<And>e. result = Inl e \<Longrightarrow> pe_lost r < - 1 \<longrightarrow> pe_lost r < pe_lost r1"
    by (rule drain_safe [of mapping r arch]) blast
  have lost: "min (2 ^ 64 - 1) (unat (pe_lost r) + (if isl result then 1 else 0)) \<le> unat (pe_lost r1)"
    using d(3,4) by (cases result) (auto simp: same_ring_def word_le_nat_alt word_less_nat_alt unsigned_minus_1_eq_mask mask_eq_exp_minus_1)
  have "\<forall>mapping\<in>set mappings. ring_ok mapping r1" using Cons.prems same_ring_ok [OF d(3)] by simp
  from Cons.IH [OF this] obtain results r' where r': "drains arch mappings r1 = Some (results, r')" "length results = length mappings" "same_ring r1 r'"
      "mappings \<noteq> [] \<longrightarrow> pe_tail r' = word_at (last mappings) 1024"
      "min (2 ^ 64 - 1) (unat (pe_lost r1) + length (filter isl results)) \<le> unat (pe_lost r')" by blast
  have empty: "mappings = [] \<Longrightarrow> r' = r1" using r'(1) by simp
  show ?case
  proof (intro exI conjI)
    show "drains arch (mapping # mappings) r = Some (result # results, r')" using d(1) r'(1) by simp
    show "same_ring r r'" using same_ring_trans [OF d(3) r'(3)] .
    show "mapping # mappings \<noteq> [] \<longrightarrow> pe_tail r' = word_at (last (mapping # mappings)) 1024" using r'(4) d(2) empty by simp
    show "min (2 ^ 64 - 1) (unat (pe_lost r) + length (filter isl (result # results))) \<le> unat (pe_lost r')"
      using lost r'(5) by (auto split: if_splits)
  qed (use r'(2) in simp)
qed

text \<open>
  C19: A reader that was opened never reads outside the mapping it shares with the kernel, whatever bytes it finds there: every
  drain returns, has consumed the ring up to the head it found, and reports it back; each drain that fails is counted as a lost
  sample until the counter is saturated.
\<close>

theorem perf_drain_safe:
  assumes "open_attr fd page (Some mapping) cs = Inr r" "\<forall>m\<in>set mappings. length m = page * 17"
  shows "\<exists>results r'. drains arch mappings r = Some (results, r') \<and> length results = length mappings
    \<and> (mappings \<noteq> [] \<longrightarrow> pe_tail r' = word_at (last mappings) 1024)
    \<and> min (2 ^ 64 - 1) (length (filter isl results)) \<le> unat (pe_lost r')"
proof -
  have r: "pe_length r = page * 17" "0 < pe_capacity r" "pe_offset r + pe_capacity r \<le> pe_length r" "pe_offset r + pe_capacity r < 2 ^ 64" "pe_lost r = 0"
    using assms(1) by (auto simp: open_attr_def Let_def not_less not_le split: if_splits)
  then have "\<forall>m\<in>set mappings. ring_ok m r" using assms(2) by (simp add: ring_ok_def)
  from drains_safe [OF this, of arch] show ?thesis using r(5) by (simp del: split_paired_Ex) blast
qed

text \<open>
  C20: What the kernel wrote into the ring is what the reader handles: where the ring holds a list of records from the reader's
  position to its head, across the end of the buffer and of the 64-bit positions, draining it handles exactly these records in
  order.
\<close>

theorem perf_drain_records:
  assumes "ring_ok mapping r" "pe_capacity r dvd 2 ^ 64" "pe_tail r = word_of_nat p" "\<forall>x\<in>set recs. record_ok x"
    and "ring_holds mapping r p (concat (map record_bytes recs))" "length (concat (map record_bytes recs)) \<le> pe_capacity r"
    and "word_at mapping 1024 = (word_of_nat (p + length (concat (map record_bytes recs))) :: u64)"
    and "drain_batch arch recs r = (result, r')"
  shows "drain arch mapping r = Some (result, r'\<lparr>pe_tail := word_at mapping 1024\<rparr>, word_at mapping 1024)"
proof -
  let ?head = "word_at mapping 1024 :: u64"
  obtain res r1 where h: "handle_all arch recs r None = (res, r1)" by force
  from drain_loop_records [OF assms(1-7) h] obtain t where t: "drain_loop arch mapping ?head r None = Some (res, r1\<lparr>pe_tail := t\<rparr>)"
      "\<forall>l. res = Inr l \<longrightarrow> t = ?head" by blast
  have "length (concat (map record_bytes recs)) < 2 ^ 64" using assms(1,6) by (simp add: ring_ok_def)
  then have "unat (?head - pe_tail r) = length (concat (map record_bytes recs))" unfolding assms(3,7) by (rule head_distance)
  then have "drain arch mapping r = map_option (\<lambda>(result, r).
        let r = (case result of Inl _ \<Rightarrow> r\<lparr>pe_lost := saturating_add (pe_lost r) 1, pe_tail := ?head, pe_pending := None\<rparr> | Inr _ \<Rightarrow> r)
        in (result, r, pe_tail r)) (Some (res, r1\<lparr>pe_tail := t\<rparr>))"
    unfolding drain_def Let_def using assms(6) t(1) by simp
  then show ?thesis using assms(8) h t(2) by (cases res) (auto simp: drain_batch_def)
qed

section \<open>Context switches\<close>

text \<open>The samples that a list of records classifies: taken right before the thread was switched out on the same CPU.\<close>

definition quiet :: "perf_record list \<Rightarrow> bool" where
  "quiet recs \<longleftrightarrow> list_all (\<lambda>(kind, _). kind \<notin> {PERF_RECORD_SAMPLE, PERF_RECORD_SWITCH, PERF_RECORD_LOST, PERF_RECORD_THROTTLE, PERF_RECORD_UNTHROTTLE}) recs"

definition ends_with_sample :: "Arch \<Rightarrow> perf_record list \<Rightarrow> RawSample \<Rightarrow> bool" where
  "ends_with_sample arch recs s \<longleftrightarrow> (\<exists>pre misc bytes mid. recs = pre @ (PERF_RECORD_SAMPLE, misc, bytes) # mid \<and> quiet mid
     \<and> parse_perf_sample arch bytes = Inr (Some s))"

definition classified :: "Arch \<Rightarrow> perf_record list \<Rightarrow> RawSample \<Rightarrow> bool" where
  "classified arch recs s \<longleftrightarrow> (\<exists>before misc bytes post s0 tid time cpu rest.
     recs = before @ (PERF_RECORD_SWITCH, misc, bytes) # post \<and> ends_with_sample arch before s0
     \<and> read_identity bytes = Inr (tid, time, cpu, rest) \<and> switched_out misc tid time cpu s0
     \<and> s = s0\<lparr>rs_source := ContextSwitch (misc AND PERF_RECORD_MISC_SWITCH_OUT_PREEMPT \<noteq> 0)\<rparr>)"

definition history_ok :: "Arch \<Rightarrow> perf_record list \<Rightarrow> PerfEventReader \<Rightarrow> bool" where
  "history_ok arch recs r \<longleftrightarrow> pe_context_switch r \<and> (\<forall>s. pe_pending r = Some s \<longrightarrow> ends_with_sample arch recs s)"

lemma classified_append: "classified arch recs s \<Longrightarrow> classified arch (recs @ post') s"
proof -
  assume "classified arch recs s"
  then obtain before misc bytes post s0 tid time cpu rest where c: "recs = before @ (PERF_RECORD_SWITCH, misc, bytes) # post"
      "ends_with_sample arch before s0" "read_identity bytes = Inr (tid, time, cpu, rest)" "switched_out misc tid time cpu s0"
      "s = s0\<lparr>rs_source := ContextSwitch (misc AND PERF_RECORD_MISC_SWITCH_OUT_PREEMPT \<noteq> 0)\<rparr>"
    unfolding classified_def by blast
  then show ?thesis unfolding classified_def
    by (intro exI [of _ before] exI [of _ misc] exI [of _ bytes] exI [of _ "post @ post'"] exI [of _ s0] exI [of _ tid] exI [of _ time]
        exI [of _ cpu] exI [of _ rest]) simp
qed

lemma classified_snoc:
  "ends_with_sample arch recs s \<Longrightarrow> read_identity bytes = Inr (tid, time, cpu, rest) \<Longrightarrow> switched_out misc tid time cpu s
   \<Longrightarrow> classified arch (recs @ [(PERF_RECORD_SWITCH, misc, bytes)])
      (s\<lparr>rs_source := ContextSwitch (misc AND PERF_RECORD_MISC_SWITCH_OUT_PREEMPT \<noteq> 0)\<rparr>)"
  unfolding classified_def by blast

lemma ends_with_sample_snoc: "parse_perf_sample arch bytes = Inr (Some s) \<Longrightarrow> ends_with_sample arch (recs @ [(PERF_RECORD_SAMPLE, misc, bytes)]) s"
  unfolding ends_with_sample_def quiet_def by (intro exI [of _ recs] exI [of _ misc] exI [of _ bytes] exI [of _ "[]"]) simp

lemma ends_with_sample_quiet: "ends_with_sample arch recs s \<Longrightarrow> quiet [x] \<Longrightarrow> ends_with_sample arch (recs @ [x]) s"
proof -
  assume "ends_with_sample arch recs s" "quiet [x]"
  then obtain pre misc bytes mid where "recs = pre @ (PERF_RECORD_SAMPLE, misc, bytes) # mid" "quiet mid" "parse_perf_sample arch bytes = Inr (Some s)"
    unfolding ends_with_sample_def by blast
  then show ?thesis unfolding ends_with_sample_def
    by (intro exI [of _ pre] exI [of _ misc] exI [of _ bytes] exI [of _ "mid @ [x]"]) (use \<open>quiet [x]\<close> in \<open>simp add: quiet_def\<close>)
qed

lemma handle_record_history:
  assumes "history_ok arch hist r" "\<forall>s. latest = Some s \<longrightarrow> classified arch hist s"
    and "handle_record arch kind misc bytes r latest = (Inr latest', r')"
  shows "history_ok arch (hist @ [(kind, misc, bytes)]) r' \<and> (\<forall>s. latest' = Some s \<longrightarrow> classified arch (hist @ [(kind, misc, bytes)]) s)"
proof -
  have cs: "pe_context_switch r" using assms(1) by (simp add: history_ok_def)
  have old: "\<forall>s. latest = Some s \<longrightarrow> classified arch (hist @ [(kind, misc, bytes)]) s" using assms(2) classified_append by blast
  consider (sample) "kind = PERF_RECORD_SAMPLE" | (switch) "kind = PERF_RECORD_SWITCH" "kind \<noteq> PERF_RECORD_SAMPLE"
    | (other) "kind \<in> {PERF_RECORD_LOST, PERF_RECORD_THROTTLE, PERF_RECORD_UNTHROTTLE}" "kind \<noteq> PERF_RECORD_SAMPLE" "kind \<noteq> PERF_RECORD_SWITCH"
    | (quiet) "kind \<notin> {PERF_RECORD_SAMPLE, PERF_RECORD_SWITCH, PERF_RECORD_LOST, PERF_RECORD_THROTTLE, PERF_RECORD_UNTHROTTLE}"
    by blast
  then show ?thesis
  proof cases
    case sample
    then have "latest' = latest" "\<exists>s. parse_perf_sample arch bytes = Inr s \<and> r' = r\<lparr>pe_pending := s\<rparr>"
      using assms(3) cs by (auto simp: handle_record_def sample_record_def split: sum.splits)
    then show ?thesis using old cs ends_with_sample_snoc sample by (auto simp: history_ok_def)
  next
    case switch
    then obtain tid time cpu rest where i: "read_identity bytes = Inr (tid, time, cpu, rest)" "r' = r\<lparr>pe_pending := None\<rparr>"
        "latest' = (case pe_pending r of Some sample \<Rightarrow> if switched_out misc tid time cpu sample
            then Some (sample\<lparr>rs_source := ContextSwitch (misc AND PERF_RECORD_MISC_SWITCH_OUT_PREEMPT \<noteq> 0)\<rparr>) else latest | None \<Rightarrow> latest)"
      using assms(3) cs by (auto simp: handle_record_def switch_record_def split: sum.splits prod.splits)
    then show ?thesis using old cs assms(1) switch(1) classified_snoc [OF _ i(1)] by (auto simp: history_ok_def split: option.splits if_splits)
  next
    case other
    then have "latest' = latest" "pe_pending r' = None" "pe_context_switch r'"
      using assms(3) cs by (auto simp: handle_record_def lost_record_def Let_def split: sum.splits if_splits)
    then show ?thesis using old by (simp add: history_ok_def)
  next
    case quiet
    then have "latest' = latest" "r' = r" using assms(3) by (auto simp: handle_record_def)
    moreover have "Perf_Ring.quiet [(kind, misc, bytes)]" using quiet by (simp add: quiet_def)
    ultimately show ?thesis using old assms(1) ends_with_sample_quiet by (auto simp: history_ok_def)
  qed
qed

lemma handle_all_history:
  assumes "history_ok arch hist r" "\<forall>s. latest = Some s \<longrightarrow> classified arch hist s" "handle_all arch recs r latest = (Inr latest', r')"
  shows "history_ok arch (hist @ recs) r' \<and> (\<forall>s. latest' = Some s \<longrightarrow> classified arch (hist @ recs) s)"
  using assms
proof (induction recs arbitrary: hist r latest)
  case (Cons x recs)
  obtain kind misc bytes where x: "x = (kind, misc, bytes)" by (cases x)
  obtain l1 r1 where h: "handle_record arch kind misc bytes r latest = (Inr l1, r1)" "handle_all arch recs r1 l1 = (Inr latest', r')"
    using Cons.prems(3) by (auto simp: x split: prod.splits sum.splits)
  from handle_record_history [OF Cons.prems(1,2) h(1)] Cons.IH [OF _ _ h(2), of "hist @ [x]"] show ?case by (simp add: x)
qed simp

fun run_batches :: "Arch \<Rightarrow> perf_record list list \<Rightarrow> PerfEventReader \<Rightarrow> (perf_error + RawSample option) list \<times> PerfEventReader" where
  "run_batches arch [] r = ([], r)"
| "run_batches arch (recs # batches) r =
     (let (result, r) = drain_batch arch recs r; (results, r) = run_batches arch batches r in (result # results, r))"

lemma handle_all_keeps: "handle_all arch recs r latest = (res, r') \<Longrightarrow> pe_context_switch r' = pe_context_switch r"
  by (induction arch recs r latest rule: handle_all.induct) (auto split: prod.splits sum.splits dest: handle_record_keeps(5))

lemma drain_batch_history:
  assumes "history_ok arch hist r" "drain_batch arch recs r = (result, r')"
  shows "history_ok arch (hist @ recs) r' \<and> (\<forall>s. result = Inr (Some s) \<longrightarrow> classified arch (hist @ recs) s)"
proof -
  obtain res r1 where h: "handle_all arch recs r None = (res, r1)" by force
  have cs: "pe_context_switch r1" using handle_all_keeps [OF h] assms(1) by (simp add: history_ok_def)
  show ?thesis
  proof (cases res)
    case (Inl e)
    then show ?thesis using assms(2) h cs by (auto simp: drain_batch_def history_ok_def)
  next
    case (Inr l)
    then show ?thesis using handle_all_history [OF assms(1) _ h [unfolded Inr]] assms(2) h by (auto simp: drain_batch_def)
  qed
qed

lemma run_batches_history:
  "history_ok arch hist r \<Longrightarrow> run_batches arch batches r = (results, r') \<Longrightarrow> i < length batches \<Longrightarrow> results ! i = Inr (Some s)
   \<Longrightarrow> classified arch (hist @ concat (take (Suc i) batches)) s"
proof (induction batches arbitrary: hist r results i)
  case (Cons recs batches)
  obtain result r1 results1 where d: "drain_batch arch recs r = (result, r1)" "run_batches arch batches r1 = (results1, r')" "results = result # results1"
    using Cons.prems(2) by (auto simp: Let_def split: prod.splits)
  note h = drain_batch_history [OF Cons.prems(1) d(1)]
  show ?case
  proof (cases i)
    case 0
    then show ?thesis using Cons.prems(4) d(3) h by simp
  next
    case (Suc j)
    then show ?thesis using Cons.IH [of "hist @ recs" r1 results1 j] Cons.prems(3,4) d(2,3) h by simp
  qed
qed simp


section \<open>The layout of a sample\<close>

text \<open>
  The words of a 64-bit sample as the kernel writes them: the registers of the mask, and the stack with its size and the part
  that was used.
\<close>

primrec register_bytes :: "u64 \<Rightarrow> nat \<Rightarrow> u64 list \<Rightarrow> byte list" where
  "register_bytes regs i [] = []"
| "register_bytes regs i (v # vs) = (if regs AND push_bit i 1 \<noteq> 0 then to_ne_bytes v else []) @ register_bytes regs (Suc i) vs"

primrec zero_outside :: "u64 \<Rightarrow> nat \<Rightarrow> u64 list \<Rightarrow> bool" where
  "zero_outside regs i [] \<longleftrightarrow> True"
| "zero_outside regs i (v # vs) \<longleftrightarrow> (regs AND push_bit i 1 = 0 \<longrightarrow> v = 0) \<and> zero_outside regs (Suc i) vs"

definition sample_bytes :: "Arch \<Rightarrow> i32 \<Rightarrow> i32 \<Rightarrow> u64 \<Rightarrow> u64 \<Rightarrow> u64 list \<Rightarrow> byte list \<Rightarrow> nat \<Rightarrow> byte list" where
  "sample_bytes arch pid tid time cpu values stack used =
     to_ne_bytes pid @ to_ne_bytes tid @ to_ne_bytes time @ to_ne_bytes cpu @ to_ne_bytes (2 :: u64)
     @ register_bytes (PERF_REGS_MASK arch) 0 values @ to_ne_bytes (word_of_nat (length stack) :: u64) @ stack
     @ (if stack = [] then [] else to_ne_bytes (word_of_nat used :: u64))"

lemma cursor_take_prefix:
  "length bs = k \<Longrightarrow> cursor_take k (take n (bs @ rest)) = (if n < k then Inl TruncatedSample else Inr (bs, take (n - k) rest))"
  by (auto simp: cursor_take_def)

lemma cursor_u64_prefix:
  "cursor_u64 (take n (to_ne_bytes w @ rest)) = (if n < 8 then Inl TruncatedSample else Inr (w, take (n - 8) rest))"
  by (simp add: cursor_u64_def cursor_take_prefix from_to_ne_bytes del: take_append)

lemma read_masked_registers_prefix:
  "zero_outside regs i vals \<Longrightarrow> read_masked_registers regs i (length vals) (take n (register_bytes regs i vals @ rest)) =
     (if n < length (register_bytes regs i vals) then Inl TruncatedSample else Inr (vals, take (n - length (register_bytes regs i vals)) rest))"
proof (induction vals arbitrary: i n)
  case (Cons v vs)
  show ?case
  proof (cases "regs AND push_bit i 1 = 0")
    case True
    then show ?thesis using Cons.IH [of "Suc i" n] Cons.prems by (auto simp del: take_append)
  next
    case False
    then show ?thesis
      using Cons.IH [of "Suc i" "n - 8"] Cons.prems by (auto simp: cursor_u64_prefix simp del: take_append)
  qed
qed simp

lemma read_identity_prefix:
  "read_identity (take n (to_ne_bytes (pid :: i32) @ to_ne_bytes tid @ to_ne_bytes time @ to_ne_bytes (cpu :: u64) @ rest)) =
     (if n < 24 then Inl TruncatedSample else Inr (tid, time, ucast cpu, take (n - 24) rest))"
proof -
  have "cursor_take 8 (take n ((to_ne_bytes pid @ to_ne_bytes tid) @ to_ne_bytes time @ to_ne_bytes cpu @ rest))
      = (if n < 8 then Inl TruncatedSample else Inr (to_ne_bytes pid @ to_ne_bytes tid, take (n - 8) (to_ne_bytes time @ to_ne_bytes cpu @ rest)))"
    by (rule cursor_take_prefix) simp
  then show ?thesis
    unfolding append_assoc read_identity_def by (auto simp: cursor_u64_prefix from_to_ne_bytes simp del: take_append)
qed

lemma parse_perf_sample_prefix:
  assumes "length vals = COUNT arch" "zero_outside (PERF_REGS_MASK arch) 0 vals" "length stack < 2 ^ 64" "used \<le> length stack"
  shows "parse_perf_sample arch (take n (sample_bytes arch pid tid time cpu vals stack used)) =
    (if n < length (sample_bytes arch pid tid time cpu vals stack used) then Inl TruncatedSample
     else Inr (Some \<lparr>rs_source = CpuClock, rs_tid = tid, rs_time_ns = time, rs_cpu = Some (ucast cpu),
       rs_registers = \<lparr>regs_values = vals, regs_flags_available = (arch = X86_64), regs_code_pac_mask = None\<rparr>,
       rs_stack = take used stack\<rparr>))"
proof -
  define used_bytes where "used_bytes = (if stack = [] then [] else to_ne_bytes (word_of_nat used :: u64))"
  define regs_bytes where "regs_bytes = register_bytes (PERF_REGS_MASK arch) 0 vals"
  define stack_bytes where "stack_bytes = to_ne_bytes (word_of_nat (length stack) :: u64) @ stack @ used_bytes"
  let ?total = "40 + length regs_bytes + length stack + length used_bytes"
  have len: "unat (word_of_nat (length stack) :: u64) = length stack" "unat (word_of_nat used :: u64) = used"
    using assms(3,4) by (simp_all add: unat_of_nat)
  have zero: "(word_of_nat (length stack) :: u64) = 0 \<longleftrightarrow> stack = []" unfolding word_unat_eq_iff len(1) by simp
  have all: "sample_bytes arch pid tid time cpu vals stack used
      = to_ne_bytes pid @ to_ne_bytes tid @ to_ne_bytes time @ to_ne_bytes cpu @ to_ne_bytes (2 :: u64) @ regs_bytes @ stack_bytes"
    by (simp add: sample_bytes_def regs_bytes_def stack_bytes_def used_bytes_def)
  have regs: "read_masked_registers (PERF_REGS_MASK arch) 0 (COUNT arch) (take k (regs_bytes @ stack_bytes)) =
      (if k < length regs_bytes then Inl TruncatedSample else Inr (vals, take (k - length regs_bytes) stack_bytes))" for k
    using read_masked_registers_prefix [OF assms(2), of k stack_bytes] assms(1) by (simp add: regs_bytes_def del: take_append)
  have stack: "cursor_take (length stack) (take k (stack @ used_bytes)) =
      (if k < length stack then Inl TruncatedSample else Inr (stack, take (k - length stack) used_bytes))" for k
    by (rule cursor_take_prefix) simp
  have size: "cursor_u64 (take k stack_bytes) =
      (if k < 8 then Inl TruncatedSample else Inr (word_of_nat (length stack), take (k - 8) (stack @ used_bytes)))" for k
    unfolding stack_bytes_def by (rule cursor_u64_prefix)
  have used: "and_then (if stack = [] then Inr 0 else and_then (cursor_u64 (take k used_bytes)) (\<lambda>(used, _). Inr (unat used))) f
      = (if k < length used_bytes then Inl TruncatedSample else f used)" for k and f :: "nat \<Rightarrow> perf_error + 'b"
    using cursor_u64_prefix [of k "word_of_nat used" "[]"] cursor_u64_prefix [of 8 "word_of_nat used" "[]"] len(2) assms(4)
    by (cases "k < 8") (auto simp: used_bytes_def)
  have total: "length (sample_bytes arch pid tid time cpu vals stack used) = ?total" by (simp add: all stack_bytes_def)
  note steps = parse_perf_sample_def read_identity_prefix cursor_u64_prefix regs size stack len zero used
  consider "n < 24" | "24 \<le> n" "n < 32" | "32 \<le> n" "n < 32 + length regs_bytes" | "32 + length regs_bytes \<le> n" "n < 40 + length regs_bytes"
    | "40 + length regs_bytes \<le> n" "n < 40 + length regs_bytes + length stack" | "40 + length regs_bytes + length stack \<le> n" by linarith
  then have "parse_perf_sample arch (take n (to_ne_bytes pid @ to_ne_bytes tid @ to_ne_bytes time @ to_ne_bytes cpu
        @ to_ne_bytes (2 :: u64) @ regs_bytes @ stack_bytes)) =
      (if n < ?total then Inl TruncatedSample
       else Inr (Some \<lparr>rs_source = CpuClock, rs_tid = tid, rs_time_ns = time, rs_cpu = Some (ucast cpu),
         rs_registers = \<lparr>regs_values = vals, regs_flags_available = (arch = X86_64), regs_code_pac_mask = None\<rparr>,
         rs_stack = take used stack\<rparr>))"
  proof cases
    case 1
    then have "n < 24" "n < ?total"
      by linarith+
    then show ?thesis using assms(4)
      by (simp add: steps del: take_append take_all take_all_iff)
  next
    case 2
    then have "\<not> n < 24" "n - 24 < 8" "n < ?total"
      by linarith+
    then show ?thesis using assms(4)
      by (simp add: steps del: take_append take_all take_all_iff)
  next
    case 3
    then have "\<not> n < 24" "\<not> n - 24 < 8" "n - 24 - 8 < length regs_bytes" "n < ?total"
      by linarith+
    then show ?thesis using assms(4)
      by (simp add: steps del: take_append take_all take_all_iff)
  next
    case 4
    then have "\<not> n < 24" "\<not> n - 24 < 8" "\<not> n - 24 - 8 < length regs_bytes" "n - 24 - 8 - length regs_bytes < 8" "n < ?total"
      by linarith+
    then show ?thesis using assms(4)
      by (simp add: steps del: take_append take_all take_all_iff)
  next
    case 5
    then have "\<not> n < 24" "\<not> n - 24 < 8" "\<not> n - 24 - 8 < length regs_bytes" "\<not> n - 24 - 8 - length regs_bytes < 8" "n - 24 - 8 - length regs_bytes - 8 < length stack" "n < ?total"
      by linarith+
    then show ?thesis using assms(4)
      by (simp add: steps del: take_append take_all take_all_iff)
  next
    case 6
    then have "\<not> n < 24" "\<not> n - 24 < 8" "\<not> n - 24 - 8 < length regs_bytes" "\<not> n - 24 - 8 - length regs_bytes < 8" "\<not> n - 24 - 8 - length regs_bytes - 8 < length stack" "n - 24 - 8 - length regs_bytes - 8 - length stack < length used_bytes \<longleftrightarrow> n < ?total"
      by linarith+
    then show ?thesis using assms(4)
      by (simp add: steps del: take_append take_all take_all_iff)
  qed
  then show ?thesis unfolding total unfolding all .
qed

text \<open>
  A sample laid out as the kernel writes it is read back field by field: thread, time, CPU, the registers of the mask in
  their places with zero elsewhere, so that the set has the length the protocol requires, and the used part of the stack.
  Cut anywhere, it is refused.
\<close>

theorem perf_sample_roundtrip:
  assumes "length vals = COUNT arch" "zero_outside (PERF_REGS_MASK arch) 0 vals" "length stack < 2 ^ 64" "used \<le> length stack"
    and "bytes = sample_bytes arch pid tid time cpu vals stack used"
  shows "\<exists>s. parse_perf_sample arch bytes = Inr (Some s) \<and> rs_tid s = tid \<and> rs_time_ns s = time \<and> rs_cpu s = Some (ucast cpu)
    \<and> regs_values (rs_registers s) = vals \<and> validate arch (rs_registers s) \<and> rs_stack s = take used stack
    \<and> (\<forall>n<length bytes. parse_perf_sample arch (take n bytes) = Inl TruncatedSample)"
  using parse_perf_sample_prefix [OF assms(1-4), of _ pid tid time cpu] parse_perf_sample_prefix [OF assms(1-4), of "length bytes" pid tid time cpu] assms(1)
  by (simp add: assms(5) validate_def)

section \<open>Register sets of samples\<close>

definition sample_valid :: "Arch \<Rightarrow> RawSample option \<Rightarrow> bool" where
  "sample_valid arch sample = pred_option (\<lambda>s. validate arch (rs_registers s)) sample"

lemma read_masked_registers_length: "read_masked_registers regs i n bytes = Inr (vals, rest) \<Longrightarrow> length vals = n"
  by (induction n arbitrary: i bytes vals rest) (auto simp: and_then_eq_Inr)

lemma parse_perf_sample_valid: "parse_perf_sample arch bytes = Inr sample \<Longrightarrow> sample_valid arch sample"
  by (auto simp: parse_perf_sample_def and_then_eq_Inr sample_valid_def validate_def dest!: read_masked_registers_length split: if_splits)

lemma handle_record_valid:
  assumes "sample_valid arch (pe_pending r)" "sample_valid arch latest" "handle_record arch kind misc bytes r latest = (res, r')"
  shows "sample_valid arch (pe_pending r') \<and> (\<forall>l. res = Inr l \<longrightarrow> sample_valid arch l)"
  using assms parse_perf_sample_valid [of arch bytes]
  by (auto simp: handle_record_def sample_record_def switch_record_def lost_record_def Let_def sample_valid_def
      split: if_splits sum.splits prod.splits option.splits)

lemma drain_loop_valid:
  "sample_valid arch (pe_pending r) \<Longrightarrow> sample_valid arch latest \<Longrightarrow> drain_loop arch mapping head r latest = Some (res, r')
   \<Longrightarrow> sample_valid arch (pe_pending r') \<and> (\<forall>l. res = Inr l \<longrightarrow> sample_valid arch l)"
proof (induction arch mapping head r latest rule: drain_loop.induct)
  case (1 arch mapping head r latest)
  note run = "1.prems"(3) [unfolded drain_loop.simps [of arch mapping head r latest]]
  show ?case
  proof (cases "pe_tail r = head \<or> unat (head - pe_tail r) < PERF_EVENT_HEADER_SIZE")
    case True
    then show ?thesis using run "1.prems"(1,2) by (auto split: if_splits)
  next
    case False
    then obtain header where header: "copy mapping r (pe_tail r) PERF_EVENT_HEADER_SIZE = Some header"
      using run by (auto split: option.splits)
    define size where "size = unat (from_ne_bytes (drop 6 header) :: u16)"
    show ?thesis
    proof (cases "size < PERF_EVENT_HEADER_SIZE \<or> pe_capacity r < size \<or> unat (head - pe_tail r) < size")
      case True
      then show ?thesis using run False header "1.prems"(1,2) by (auto simp: Let_def size_def)
    next
      case fits: False
      then obtain bytes where bytes: "copy mapping r (pe_tail r + word_of_nat PERF_EVENT_HEADER_SIZE) (size - PERF_EVENT_HEADER_SIZE) = Some bytes"
        using run False header by (auto simp: Let_def simp flip: size_def split: option.splits)
      obtain res1 r1 where h: "handle_record arch (from_ne_bytes (take 4 header)) (from_ne_bytes (slice 4 6 header)) bytes
          (r\<lparr>pe_tail := pe_tail r + word_of_nat size\<rparr>) latest = (res1, r1)" by force
      have v: "sample_valid arch (pe_pending r1) \<and> (\<forall>l. res1 = Inr l \<longrightarrow> sample_valid arch l)"
        by (rule handle_record_valid [OF _ "1.prems"(2) h]) (use "1.prems"(1) in simp)
      show ?thesis
      proof (cases res1)
        case (Inl e)
        then show ?thesis using run False header fits bytes h v by (simp add: Let_def flip: size_def) blast
      next
        case (Inr l)
        have "drain_loop arch mapping head r1 l = Some (res, r')"
          using run False header fits bytes h Inr by (simp add: Let_def flip: size_def)
        then show ?thesis
          using "1.IH" [OF _ _ header refl size_def _ bytes h [symmetric] Inr] False fits v Inr by simp
      qed
    qed
  qed
qed

lemma drain_valid:
  assumes "sample_valid arch (pe_pending r)" "drain arch mapping r = Some (res, r', t)"
  shows "sample_valid arch (pe_pending r') \<and> (\<forall>l. res = Inr l \<longrightarrow> sample_valid arch l)"
  using assms drain_loop_valid [OF assms(1), of None]
  by (cases res) (auto simp: drain_def Let_def sample_valid_def split: if_splits sum.splits)

section \<open>A small ring\<close>

text \<open>A throttle record that was written across the end of a ring of eight bytes.\<close>

definition small_ring :: "byte list" where
  "small_ring = replicate 64 0 @ [0, 0, 8, 0, 5, 0, 0, 0] @ replicate 952 0 @ to_ne_bytes (12 :: u64) @ to_ne_bytes (4 :: u64)
     @ to_ne_bytes (64 :: u64) @ to_ne_bytes (8 :: u64) @ replicate 32 0"

definition small_reader :: "u64 \<Rightarrow> PerfEventReader" where
  "small_reader tail = \<lparr>pe_length = 1088, pe_offset = 64, pe_capacity = 8, pe_tail = tail, pe_lost = 0, pe_context_switch = True, pe_pending = None\<rparr>"

lemma small_ring_words: "word_at small_ring 1024 = (12 :: u64)" "word_at small_ring 1040 = (64 :: u64)" "word_at small_ring 1048 = (8 :: u64)"
proof -
  let ?pre = "replicate 64 0 @ [0, 0, 8, 0, 5, 0, 0, 0] @ replicate 952 0 :: byte list"
  have "word_at (?pre @ to_ne_bytes (12 :: u64) @ to_ne_bytes (4 :: u64) @ to_ne_bytes (64 :: u64) @ to_ne_bytes (8 :: u64) @ replicate 32 0) 1024 = (12 :: u64)"
    by (rule word_at_here) simp_all
  then show "word_at small_ring 1024 = (12 :: u64)" by (simp add: small_ring_def)
  have "word_at ((?pre @ to_ne_bytes (12 :: u64) @ to_ne_bytes (4 :: u64)) @ to_ne_bytes (64 :: u64) @ to_ne_bytes (8 :: u64) @ replicate 32 0) 1040 = (64 :: u64)"
    by (rule word_at_here) simp_all
  then show "word_at small_ring 1040 = (64 :: u64)" by (simp add: small_ring_def)
  have "word_at ((?pre @ to_ne_bytes (12 :: u64) @ to_ne_bytes (4 :: u64) @ to_ne_bytes (64 :: u64)) @ to_ne_bytes (8 :: u64) @ replicate 32 0) 1048 = (8 :: u64)"
    by (rule word_at_here) simp_all
  then show "word_at small_ring 1048 = (8 :: u64)" by (simp add: small_ring_def)
qed

lemma small_open: "open_attr True 64 (Some small_ring) True = Inr (small_reader 0)"
  by (simp add: open_attr_def small_ring_words small_reader_def Let_def)

lemma small_length: "length small_ring = 1088" by (simp add: small_ring_def)

theorem perf_drain_safe_witness:
  "\<exists>results r'. drains X86_64 [small_ring] (small_reader 0) = Some (results, r') \<and> length results = 1 \<and> pe_tail r' = 12"
  using perf_drain_safe [OF small_open, of "[small_ring]" X86_64] by (auto simp: small_length small_ring_words)

theorem perf_drain_records_witness:
  "drain X86_64 small_ring (small_reader 4) = Some (Inr None, small_reader 12, 12)"
proof -
  have rec: "record_bytes (PERF_RECORD_THROTTLE, 0, []) = [5, 0, 0, 0, 0, 0, 8, 0]"
    by (simp add: record_bytes_def to_ne_bytes_def PERF_RECORD_THROTTLE_def byte_of_def)
  have "ring_holds small_ring (small_reader 4) 4 (concat (map record_bytes [(PERF_RECORD_THROTTLE, 0, [])]))"
  proof -
    have byte: "small_ring ! (64 + j) = [0, 0, 8, 0, 5, 0, 0, 0] ! j" if "j < 8" for j
    proof -
      have "j \<in> {0, 1, 2, 3, 4, 5, 6, 7}" using that by auto
      then show ?thesis by (auto simp: small_ring_def nth_append)
    qed
    have "small_ring ! (64 + (4 + i) mod 8) = [0, 0, 8, 0, 5, 0, 0, 0] ! ((4 + i) mod 8)" for i by (rule byte) simp
    moreover have "[0, 0, 8, 0, 5, 0, 0, 0] ! ((4 + i) mod 8) = [5, 0, 0, 0, 0, 0, 8, 0 :: byte] ! i" if "i < 8" for i
    proof -
      have "i \<in> {0, 1, 2, 3, 4, 5, 6, 7}" using that by auto
      then show ?thesis by auto
    qed
    ultimately show ?thesis by (simp add: ring_holds_def rec small_reader_def)
  qed
  moreover have "drain_batch X86_64 [(PERF_RECORD_THROTTLE, 0, [])] (small_reader 4) = (Inr None, small_reader 4)"
    by (simp add: drain_batch_def handle_record_def small_reader_def PERF_RECORD_THROTTLE_def PERF_RECORD_SAMPLE_def PERF_RECORD_SWITCH_def)
  ultimately show ?thesis
    using perf_drain_records [of small_ring "small_reader 4" 4 "[(PERF_RECORD_THROTTLE, 0, [])]" X86_64 "Inr None" "small_reader 4"]
    by (simp add: ring_ok_def small_length small_ring_words rec record_ok_def) (simp add: small_reader_def)
qed

lemma zero_outside_zeros: "zero_outside regs i (replicate n 0)"
  by (induction n arbitrary: i) simp_all

theorem perf_sample_roundtrip_witness:
  "\<exists>s. parse_perf_sample X86_64 (sample_bytes X86_64 42 43 100 7 (replicate 24 0) [1, 2, 3] 2) = Inr (Some s) \<and> rs_tid s = 43 \<and> rs_stack s = [1, 2]"
  using perf_sample_roundtrip [of "replicate 24 0" X86_64 "[1, 2, 3]" 2, OF _ zero_outside_zeros _ _ refl, of 42 43 100 7]
  by (auto simp: COUNT_def)


end
