(* ===== verification/Ptrace_Capture.thy ===== *)
theory Ptrace_Capture
  imports Perf_Ring Memory_Text
begin

text \<open>
  Capturing a stopped thread (\<open>src/privileged_helper/process/snapshot/ptrace.rs\<close>, the register layouts of \<open>arch/\<close>,
  \<open>instruction_bytes.rs\<close> and \<open>process/memory.rs\<close>). What the system calls return is a script: one result for each
  \<open>ptrace\<close> request and a list of results for the calls that are repeated when a signal interrupts them. The calls that
  were made are recorded, so that the properties can speak of them. A loop whose results run out has not returned.
\<close>

section \<open>Process memory\<close>

datatype sys_error = Interrupted | Os_error i32

datatype memory_error = PrivacyMode | LengthRange | AddressOverflow | Readv sys_error

definition MAX_READ :: nat where "MAX_READ = 65536"

text \<open>\<open>process_vm_readv\<close> copies a prefix of what was asked for.\<close>

definition read_process_memory :: "bool \<Rightarrow> (u64 \<Rightarrow> nat \<Rightarrow> sys_error + byte list) \<Rightarrow> u64 \<Rightarrow> nat \<Rightarrow> memory_error + byte list" where
  "read_process_memory privacy readv address len =
     (if privacy then Inl PrivacyMode
      else if len < 1 \<or> MAX_READ < len then Inl LengthRange
      else if 2 ^ 64 \<le> unat address + len then Inl AddressOverflow
      else case readv address len of Inl e \<Rightarrow> Inl (Readv e) | Inr bytes \<Rightarrow> Inr (take len bytes))"

definition MAX_BYTES :: nat where "MAX_BYTES = 256"

definition InstructionBytes_empty :: "u64 \<Rightarrow> InstructionBytes" where
  "InstructionBytes_empty address = \<lparr>ib_address = address, ib_bytes = [], ib_error = None\<rparr>"

definition InstructionBytes_capture ::
  "(memory_error \<Rightarrow> rstring) \<Rightarrow> (u64 \<Rightarrow> nat \<Rightarrow> memory_error + byte list) \<Rightarrow> u64 \<Rightarrow> MemoryMap list \<Rightarrow> InstructionBytes"
where
  "InstructionBytes_capture show_error read_memory rip maps =
     (let result = InstructionBytes_empty rip in
      case find (\<lambda>m. contains m rip) maps of
        None \<Rightarrow> result\<lparr>ib_error := Some (lit ''PC is outside the memory mappings.'')\<rparr>
      | Some m \<Rightarrow>
          (let len = min (unat (map_end m - rip)) MAX_BYTES in
           case read_memory rip len of
             Inr bytes \<Rightarrow> result\<lparr>ib_bytes := bytes, ib_error := (if length bytes < len
               then Some (lit ''Only some instruction bytes were read ('' @ show_dec (length bytes) @ lit '' / '' @ show_dec len @ lit '' bytes).'')
               else None)\<rparr>
           | Inl e \<Rightarrow> result\<lparr>ib_error := Some (lit ''Could not read instruction bytes: '' @ show_error e)\<rparr>))"

section \<open>Registers\<close>

record user_regs =
  ur_rax :: u64
  ur_rbx :: u64
  ur_rcx :: u64
  ur_rdx :: u64
  ur_rsi :: u64
  ur_rdi :: u64
  ur_rbp :: u64
  ur_rsp :: u64
  ur_rip :: u64
  ur_eflags :: u64
  ur_r8 :: u64
  ur_r9 :: u64
  ur_r10 :: u64
  ur_r11 :: u64
  ur_r12 :: u64
  ur_r13 :: u64
  ur_r14 :: u64
  ur_r15 :: u64

datatype ptrace_error = Ptrace sys_error | ThreadExited | IncompleteRegisters | StackRead memory_error

text \<open>
  What \<open>PTRACE_GETREGSET\<close> fills in: the number of bytes and the registers; on AArch64 also the result of the request for the
  pointer authentication masks, which may fail.
\<close>

datatype regset = X86_regs nat user_regs | Arm_regs nat "(u64, 34) rarray" "sys_error + nat \<times> u64 \<times> u64"

definition size_of_user_regs :: nat where "size_of_user_regs = 216"

definition x86_registers :: "user_regs \<Rightarrow> RegisterSet" where
  "x86_registers regs = \<lparr>regs_values = [ur_rax regs, ur_rbx regs, ur_rcx regs, ur_rdx regs, ur_rsi regs, ur_rdi regs, ur_rbp regs,
       ur_rsp regs, ur_rip regs, ur_eflags regs] @ replicate 6 0
       @ [ur_r8 regs, ur_r9 regs, ur_r10 regs, ur_r11 regs, ur_r12 regs, ur_r13 regs, ur_r14 regs, ur_r15 regs],
     regs_flags_available = True, regs_code_pac_mask = None\<rparr>"

definition read_registers :: "sys_error + regset \<Rightarrow> ptrace_error + RegisterSet" where
  "read_registers request =
     (case request of
        Inl e \<Rightarrow> Inl (Ptrace e)
      | Inr (X86_regs len regs) \<Rightarrow> if len \<noteq> size_of_user_regs then Inl IncompleteRegisters else Inr (x86_registers regs)
      | Inr (Arm_regs len vals pac) \<Rightarrow>
          if len \<noteq> 34 * 8 then Inl IncompleteRegisters
          else Inr \<lparr>regs_values = elems vals, regs_flags_available = True, regs_code_pac_mask =
            (case pac of Inr (pac_len, _, insn) \<Rightarrow> if pac_len = 2 * 8 then Some insn else None | Inl _ \<Rightarrow> None)\<rparr>)"

section \<open>The attachment\<close>

datatype ptrace_call = Seize | Interrupt | Wait | Getregset | Detach u64

datatype wait_result = Wait_status i32 | Wait_failed sys_error

record PtraceGuard =
  pg_stopped :: bool
  pg_signal :: u64

definition WIFSTOPPED :: "i32 \<Rightarrow> bool" where
  "WIFSTOPPED status \<longleftrightarrow> status AND 0xFF = 0x7F"

definition WSTOPSIG :: "i32 \<Rightarrow> i32" where
  "WSTOPSIG status = signed_drop_bit 8 status AND 0xFF"

text \<open>\<open>wait\<close>: with the guard, the remaining results and the number of calls.\<close>

fun guard_wait :: "wait_result list \<Rightarrow> PtraceGuard \<Rightarrow> ((ptrace_error option \<times> PtraceGuard) \<times> wait_result list \<times> ptrace_call list) option" where
  "guard_wait [] g = None"
| "guard_wait (Wait_failed e # ws) g =
     (if e = Interrupted then map_option (apsnd (apsnd (Cons Wait))) (guard_wait ws g) else Some ((Some (Ptrace e), g), ws, [Wait]))"
| "guard_wait (Wait_status status # ws) g =
     (if \<not> WIFSTOPPED status then Some ((Some ThreadExited, g), ws, [Wait])
      else Some ((None, g\<lparr>pg_stopped := True,
        pg_signal := (if signed_drop_bit 16 status = 0 then scast (WSTOPSIG status) else pg_signal g)\<rparr>), ws, [Wait]))"

text \<open>The loop of \<open>PTRACE_DETACH\<close>: an error other than an interruption is only logged.\<close>

fun detach_loop :: "sys_error option list \<Rightarrow> u64 \<Rightarrow> ptrace_call list option" where
  "detach_loop [] signal = None"
| "detach_loop (r # rs) signal = (if r = Some Interrupted then map_option (Cons (Detach signal)) (detach_loop rs signal) else Some [Detach signal])"

text \<open>\<open>Drop for PtraceGuard\<close>.\<close>

definition guard_drop :: "wait_result list \<Rightarrow> sys_error option list \<Rightarrow> PtraceGuard \<Rightarrow> ptrace_call list option" where
  "guard_drop ws detaches g =
     (if pg_stopped g then detach_loop detaches (pg_signal g)
      else case guard_wait ws g of
        None \<Rightarrow> None
      | Some ((_, g), _, calls) \<Rightarrow>
          map_option (\<lambda>ds. Interrupt # calls @ ds) (if pg_stopped g then detach_loop detaches (pg_signal g) else Some []))"

text \<open>
  \<open>capture_thread_snapshot\<close>, with the guard dropped at every return after the thread was seized. The script: the errors of the
  requests, the waits and detaches, the register set, the clock and the reader of the stack.
\<close>

record ptrace_script =
  ps_seize :: "sys_error option"
  ps_interrupt :: "sys_error option"
  ps_waits :: "wait_result list"
  ps_detaches :: "sys_error option list"
  ps_time :: u64
  ps_regset :: "sys_error + regset"
  ps_memory :: "u64 \<Rightarrow> nat \<Rightarrow> memory_error + byte list"

definition capture_stopped :: "Arch \<Rightarrow> bool \<Rightarrow> i32 \<Rightarrow> MemoryMap list \<Rightarrow> ptrace_script \<Rightarrow> ptrace_error + RawSample" where
  "capture_stopped arch privacy tid maps ps =
     and_then (read_registers (ps_regset ps)) (\<lambda>vals.
     and_then (case sp arch vals of
         None \<Rightarrow> Inl IncompleteRegisters
       | Some address \<Rightarrow>
           if privacy then Inr []
           else case find (\<lambda>m. contains m address) maps of
             Some m \<Rightarrow> (case ps_memory ps address (min (unat (map_end m - address)) (16 * 1024)) of Inl e \<Rightarrow> Inl (StackRead e) | Inr stack \<Rightarrow> Inr stack)
           | None \<Rightarrow> Inr []) (\<lambda>stack.
     Inr \<lparr>rs_source = SampleSource.Ptrace, rs_tid = tid, rs_time_ns = ps_time ps, rs_cpu = None, rs_registers = vals, rs_stack = stack\<rparr>))"

definition capture_thread_snapshot ::
  "Arch \<Rightarrow> bool \<Rightarrow> i32 \<Rightarrow> MemoryMap list \<Rightarrow> ptrace_script \<Rightarrow> ((ptrace_error + RawSample) \<times> ptrace_call list) option"
where
  "capture_thread_snapshot arch privacy tid maps ps =
     (case ps_seize ps of
        Some e \<Rightarrow> Some (Inl (Ptrace e), [Seize])
      | None \<Rightarrow>
          (let g = \<lparr>pg_stopped = False, pg_signal = 0\<rparr> in
           case ps_interrupt ps of
             Some e \<Rightarrow> map_option (\<lambda>calls. (Inl (Ptrace e), [Seize, Interrupt] @ calls)) (guard_drop (ps_waits ps) (ps_detaches ps) g)
           | None \<Rightarrow>
               (case guard_wait (ps_waits ps) g of
                  None \<Rightarrow> None
                | Some ((error, g), ws, calls) \<Rightarrow>
                    let (result, reads) = (case error of Some e \<Rightarrow> (Inl e, []) | None \<Rightarrow> (capture_stopped arch privacy tid maps ps, [Getregset])) in
                    map_option (\<lambda>dropped. (result, [Seize, Interrupt] @ calls @ reads @ dropped)) (guard_drop ws (ps_detaches ps) g))))"

section \<open>The thread is let go\<close>

fun stopped :: "wait_result \<Rightarrow> bool" where
  "stopped (Wait_status status) = WIFSTOPPED status"
| "stopped (Wait_failed e) = False"

text \<open>The signal that a stop was about to deliver; a stop that the tracer asked for carries none.\<close>

fun stop_signal :: "wait_result \<Rightarrow> u64" where
  "stop_signal (Wait_status status) = (if WIFSTOPPED status \<and> signed_drop_bit 16 status = 0 then scast (WSTOPSIG status) else 0)"
| "stop_signal (Wait_failed e) = 0"

lemma guard_wait_spec:
  assumes "\<exists>w\<in>set ws. w \<noteq> Wait_failed Interrupted"
  obtains k w rest where "ws = replicate k (Wait_failed Interrupted) @ w # rest" "w \<noteq> Wait_failed Interrupted"
    "\<exists>error. guard_wait ws \<lparr>pg_stopped = False, pg_signal = 0\<rparr>
       = Some ((error, \<lparr>pg_stopped = stopped w, pg_signal = stop_signal w\<rparr>), rest, replicate (Suc k) Wait)
       \<and> (error = None \<longleftrightarrow> stopped w)"
  using assms
proof (induction ws arbitrary: thesis)
  case (Cons x ws)
  show ?case
  proof (cases "x = Wait_failed Interrupted")
    case True
    then have "\<exists>w\<in>set ws. w \<noteq> Wait_failed Interrupted" using Cons.prems(2) by simp
    then show ?thesis by (rule Cons.IH [rotated]) (rule Cons.prems(1) [of "Suc _"], use True in auto)
  next
    case False
    have "\<exists>error. guard_wait (x # ws) \<lparr>pg_stopped = False, pg_signal = 0\<rparr>
        = Some ((error, \<lparr>pg_stopped = stopped x, pg_signal = stop_signal x\<rparr>), ws, [Wait]) \<and> (error = None \<longleftrightarrow> stopped x)"
      using False by (cases x) auto
    then show ?thesis by (intro Cons.prems(1) [of 0 x ws]) (use False in simp_all)
  qed
qed simp

lemma detach_loop_spec:
  assumes "\<exists>d\<in>set detaches. d \<noteq> Some Interrupted"
  obtains k where "detach_loop detaches signal = Some (replicate (Suc k) (Detach signal))"
  using assms
proof (induction detaches arbitrary: thesis)
  case (Cons d ds)
  show ?case
  proof (cases "d = Some Interrupted")
    case True
    then have "\<exists>d\<in>set ds. d \<noteq> Some Interrupted" using Cons.prems(2) by simp
    then show ?thesis by (rule Cons.IH [rotated]) (rule Cons.prems(1) [of "Suc _"], use True in simp)
  next
    case False
    then show ?thesis by (intro Cons.prems(1) [of 0]) simp
  qed
qed simp

lemma guard_drop_spec:
  assumes "\<exists>w\<in>set ws. w \<noteq> Wait_failed Interrupted" "\<exists>d\<in>set detaches. d \<noteq> Some Interrupted"
  obtains k w rest n where "ws = replicate k (Wait_failed Interrupted) @ w # rest"
    "guard_drop ws detaches \<lparr>pg_stopped = False, pg_signal = 0\<rparr>
       = Some (Interrupt # replicate (Suc k) Wait @ (if stopped w then replicate (Suc n) (Detach (stop_signal w)) else []))"
proof -
  obtain k w rest error where w: "ws = replicate k (Wait_failed Interrupted) @ w # rest"
      "guard_wait ws \<lparr>pg_stopped = False, pg_signal = 0\<rparr>
       = Some ((error, \<lparr>pg_stopped = stopped w, pg_signal = stop_signal w\<rparr>), rest, replicate (Suc k) Wait)"
    by (rule guard_wait_spec [OF assms(1)]) blast
  obtain n where n: "detach_loop detaches (stop_signal w) = Some (replicate (Suc n) (Detach (stop_signal w)))"
    by (rule detach_loop_spec [OF assms(2)])
  then show thesis by (intro that [OF w(1), of n]) (simp add: guard_drop_def w(2))
qed

text \<open>What was waited for: the first stop among the results that were used, if there was one, is undone by the calls.\<close>

definition let_go :: "ptrace_script \<Rightarrow> ptrace_call list \<Rightarrow> bool" where
  "let_go ps calls \<longleftrightarrow>
     (case find stopped (take (count_list calls Wait) (ps_waits ps)) of
        Some w \<Rightarrow> \<exists>pre n. calls = pre @ replicate (Suc n) (Detach (stop_signal w)) \<and> (\<forall>s. Detach s \<notin> set pre)
      | None \<Rightarrow> \<forall>s. Detach s \<notin> set calls)"

lemma count_replicate: "count_list (replicate n x) y = (if x = y then n else 0)"
  by (induction n) auto

lemma find_interrupted: "find stopped (replicate k (Wait_failed Interrupted) @ ws) = find stopped ws"
  by (induction k) simp_all

lemma let_go_one:
  assumes "ps_waits ps = replicate k (Wait_failed Interrupted) @ w # rest" "count_list pre Wait = Suc k" "\<forall>s. Detach s \<notin> set pre"
  shows "let_go ps (pre @ (if stopped w then replicate (Suc n) (Detach (stop_signal w)) else []))"
proof -
  have "count_list (pre @ (if stopped w then replicate (Suc n) (Detach (stop_signal w)) else [])) Wait = Suc k"
    using assms(2) by (simp add: count_replicate)
  moreover have "take (Suc k) (ps_waits ps) = replicate k (Wait_failed Interrupted) @ [w]" by (simp add: assms(1))
  ultimately show ?thesis using assms(3) unfolding let_go_def by (auto simp: find_interrupted)
qed

lemma let_go_two:
  assumes "ps_waits ps = replicate k (Wait_failed Interrupted) @ w # replicate k' (Wait_failed Interrupted) @ w' # rest" "\<not> stopped w"
    and "count_list pre Wait = Suc k + Suc k'" "\<forall>s. Detach s \<notin> set pre"
  shows "let_go ps (pre @ (if stopped w' then replicate (Suc n) (Detach (stop_signal w')) else []))"
proof -
  have "count_list (pre @ (if stopped w' then replicate (Suc n) (Detach (stop_signal w')) else [])) Wait = Suc k + Suc k'"
    using assms(3) by (simp add: count_replicate)
  moreover have "take (Suc k + Suc k') (ps_waits ps) = replicate k (Wait_failed Interrupted) @ w # replicate k' (Wait_failed Interrupted) @ [w']"
    by (simp add: assms(1))
  ultimately show ?thesis using assms(2,4) unfolding let_go_def by (auto simp: find_interrupted)
qed

lemma capture_lets_go:
  assumes "2 \<le> length (filter (\<lambda>w. w \<noteq> Wait_failed Interrupted) (ps_waits ps))" "\<exists>d\<in>set (ps_detaches ps). d \<noteq> Some Interrupted"
  shows "\<exists>result calls. capture_thread_snapshot arch privacy tid maps ps = Some (result, calls) \<and> let_go ps calls
    \<and> ((\<forall>s. Detach s \<notin> set calls) \<longrightarrow> isl result)"
proof (cases "ps_seize ps")
  case (Some e)
  then show ?thesis by (simp add: capture_thread_snapshot_def let_go_def)
next
  case None
  have "filter (\<lambda>w. w \<noteq> Wait_failed Interrupted) (ps_waits ps) \<noteq> []" using assms(1) by auto
  then have some: "\<exists>w\<in>set (ps_waits ps). w \<noteq> Wait_failed Interrupted" by (auto simp: filter_empty_conv)
  show ?thesis
  proof (cases "ps_interrupt ps")
    case (Some e)
    obtain k w rest n where d: "ps_waits ps = replicate k (Wait_failed Interrupted) @ w # rest"
      "guard_drop (ps_waits ps) (ps_detaches ps) \<lparr>pg_stopped = False, pg_signal = 0\<rparr>
       = Some (Interrupt # replicate (Suc k) Wait @ (if stopped w then replicate (Suc n) (Detach (stop_signal w)) else []))"
      by (rule guard_drop_spec [OF some assms(2)])
    have "let_go ps (([Seize, Interrupt, Interrupt] @ replicate (Suc k) Wait) @ (if stopped w then replicate (Suc n) (Detach (stop_signal w)) else []))"
      by (rule let_go_one [OF d(1)]) (simp_all add: count_replicate)
    then show ?thesis using None Some d(2) by (simp add: capture_thread_snapshot_def Let_def)
  next
    case no_error: None
    obtain k w rest error where w: "ps_waits ps = replicate k (Wait_failed Interrupted) @ w # rest" "w \<noteq> Wait_failed Interrupted"
        "guard_wait (ps_waits ps) \<lparr>pg_stopped = False, pg_signal = 0\<rparr>
       = Some ((error, \<lparr>pg_stopped = stopped w, pg_signal = stop_signal w\<rparr>), rest, replicate (Suc k) Wait)" "error = None \<longleftrightarrow> stopped w"
      by (rule guard_wait_spec [OF some]) metis
    show ?thesis
    proof (cases "stopped w")
      case True
      obtain n where n: "detach_loop (ps_detaches ps) (stop_signal w) = Some (replicate (Suc n) (Detach (stop_signal w)))"
        by (rule detach_loop_spec [OF assms(2)])
      have "let_go ps (([Seize, Interrupt] @ replicate (Suc k) Wait @ [Getregset]) @ (if stopped w then replicate (Suc n) (Detach (stop_signal w)) else []))"
        by (rule let_go_one [OF w(1)]) (simp_all add: count_replicate)
      then show ?thesis using None no_error w(3,4) True n by (auto simp: capture_thread_snapshot_def Let_def guard_drop_def)
    next
      case False
      have "\<exists>w\<in>set rest. w \<noteq> Wait_failed Interrupted"
      proof -
        have "filter (\<lambda>w. w \<noteq> Wait_failed Interrupted) rest \<noteq> []" using assms(1) w(1,2) by auto
        then show ?thesis by (auto simp: filter_empty_conv)
      qed
      then obtain k' w' rest' n where d: "rest = replicate k' (Wait_failed Interrupted) @ w' # rest'"
        "guard_drop rest (ps_detaches ps) \<lparr>pg_stopped = False, pg_signal = 0\<rparr>
         = Some (Interrupt # replicate (Suc k') Wait @ (if stopped w' then replicate (Suc n) (Detach (stop_signal w')) else []))"
        by (rule guard_drop_spec [OF _ assms(2)])
      have "let_go ps (([Seize, Interrupt] @ replicate (Suc k) Wait @ [Interrupt] @ replicate (Suc k') Wait)
          @ (if stopped w' then replicate (Suc n) (Detach (stop_signal w')) else []))"
        by (rule let_go_two [OF w(1) [unfolded d(1)] False]) (simp_all add: count_replicate)
      moreover obtain e where e: "error = Some e" using w(4) False by blast
      moreover have "stop_signal w = 0" using False by (cases w) simp_all
      ultimately show ?thesis using None no_error w(3) d(2) False by (simp add: capture_thread_snapshot_def Let_def)
    qed
  qed
qed


section \<open>What a capture holds\<close>

definition regset_for :: "Arch \<Rightarrow> sys_error + regset \<Rightarrow> bool" where
  "regset_for arch request = (case request of Inl _ \<Rightarrow> True | Inr (X86_regs _ _) \<Rightarrow> arch = X86_64 | Inr (Arm_regs _ _ _) \<Rightarrow> arch = Aarch64)"

lemma read_registers_valid:
  assumes "regset_for arch request" "read_registers request = Inr vals"
  shows "validate arch vals"
proof -
  have "length (regs_values vals) = COUNT arch"
    using assms by (auto simp: read_registers_def regset_for_def x86_registers_def COUNT_def split: sum.splits regset.splits if_splits)
  then show ?thesis by (simp add: validate_def)
qed

lemma capture_sample:
  assumes "capture_thread_snapshot arch privacy tid maps ps = Some (Inr sample, calls)" "regset_for arch (ps_regset ps)"
  shows "rs_tid sample = tid" "rs_time_ns sample = ps_time ps" "validate arch (rs_registers sample)" "privacy \<Longrightarrow> rs_stack sample = []"
    "rs_source sample = SampleSource.Ptrace"
proof -
  have c: "capture_stopped arch privacy tid maps ps = Inr sample"
    using assms(1) by (auto simp: capture_thread_snapshot_def Let_def split: option.splits prod.splits)
  then obtain vals where v: "read_registers (ps_regset ps) = Inr vals" "rs_registers sample = vals"
    by (auto simp: capture_stopped_def and_then_eq_Inr)
  show "validate arch (rs_registers sample)" unfolding v(2) by (rule read_registers_valid [OF assms(2) v(1)])
  show "rs_tid sample = tid" "rs_time_ns sample = ps_time ps" "rs_source sample = SampleSource.Ptrace"
    using c by (auto simp: capture_stopped_def and_then_eq_Inr)
  show "rs_stack sample = []" if privacy
    using c that by (auto simp: capture_stopped_def and_then_eq_Inr split: option.splits)
qed

text \<open>A thread with a pending \<open>SIGTERM\<close> whose register request fails after an interrupted wait.\<close>

definition failing_capture :: ptrace_script where
  "failing_capture = \<lparr>ps_seize = None, ps_interrupt = None, ps_waits = [Wait_failed Interrupted, Wait_status 0x0F7F, Wait_status 0x137F],
     ps_detaches = [Some Interrupted, None], ps_time = 5, ps_regset = Inl (Os_error 3), ps_memory = (\<lambda>_ _. Inr [])\<rparr>"


lemma failing_capture_calls:
  "capture_thread_snapshot X86_64 False 7 [] failing_capture =
     Some (Inl (Ptrace (Os_error 3)), [Seize, Interrupt, Wait, Wait, Getregset, Detach 15, Detach 15])"
  by (simp add: capture_thread_snapshot_def failing_capture_def guard_drop_def capture_stopped_def read_registers_def WIFSTOPPED_def WSTOPSIG_def Let_def)

end
