(* ===== verification/Sampler.thy ===== *)
theory Sampler
  imports Ptrace_Capture Btree_Map
begin

text \<open>
  The samples of the threads of a process (\<open>src/privileged_helper/process/snapshot/capture.rs\<close>): perf readers and periodic
  stops of every thread, the latest sample of each, and the mappings the samples were taken under. What one \<open>poll\<close> finds is
  its argument: the threads in \<open>/proc\<close>, what opening a perf event gives, the contents of the rings, the scripts of the
  ptrace calls, the clocks and the texts of errors. \<open>None\<close> is a call that does not return.
\<close>

section \<open>State\<close>

definition PTRACE_INTERVAL :: nat where "PTRACE_INTERVAL = 10000"

definition LiveSample_waiting :: "i32 \<Rightarrow> (u8, 20) rarray option \<Rightarrow> LiveSample" where
  "LiveSample_waiting tid executable_header = \<lparr>ls_tid = tid, ls_executable_header = executable_header, ls_sampled_at = None,
     ls_sample_time_ns = None, ls_sample_age_ms = None, ls_cpu = None, ls_lost_samples = 0, ls_registers = [], ls_raw_registers = None,
     ls_stack_bytes = [], ls_map_epoch = None, ls_context = None, ls_call_stack = [], ls_disassembly = None,
     ls_unwind_stop = lit ''Waiting for sample'', ls_error = None\<rparr>"

record Thread =
  th_start_time :: u64
  th_event :: "PerfEventReader option"
  th_switch_event :: "PerfEventReader option"
  th_setup_error :: "rstring option"
  th_ptrace_error :: "rstring option"
  th_latest :: LiveSample
  th_sampled_ns :: "u64 option"
  th_code_pac_mask :: "u64 option"

text \<open>Threads are keyed by their signed number. An \<open>Instant\<close> is a number of milliseconds.\<close>

record Sampler =
  sa_executable_header :: "(u8, 20) rarray option"
  sa_threads :: "(int \<times> Thread) list"
  sa_next_ptrace :: "nat option"
  sa_context :: MappingSnapshot

definition Sampler_new :: "(u8, 20) rarray option \<Rightarrow> Sampler" where
  "Sampler_new executable_header = \<lparr>sa_executable_header = executable_header, sa_threads = [], sa_next_ptrace = None,
     sa_context = \<lparr>ms_epoch = 0, ms_maps = []\<rparr>\<rparr>"

datatype poll_error = InvalidIdentity | ThreadList

text \<open>The clocks and the memory as \<open>process_sample\<close> finds them for a thread.\<close>

record surroundings =
  su_now :: u64
  su_timestamp :: u64
  su_memory :: "u64 \<Rightarrow> nat \<Rightarrow> memory_error + byte list"

record texts =
  tx_perf :: "perf_error \<Rightarrow> rstring"
  tx_memory :: "memory_error \<Rightarrow> rstring"
  tx_ptrace :: "ptrace_error \<Rightarrow> rstring"

record sweep =
  sw_script :: "int \<Rightarrow> ptrace_script"
  sw_surroundings :: "int \<Rightarrow> surroundings"
  sw_done :: nat
  sw_identity :: bool

record poll_input =
  pi_texts :: texts
  pi_privacy :: bool
  pi_before :: bool
  pi_tids :: "i32 list option"
  pi_stat :: "i32 \<Rightarrow> u64 option"
  pi_open :: "i32 \<Rightarrow> perf_error + PerfEventReader"
  pi_context_switch :: "i32 \<Rightarrow> perf_error + PerfEventReader"
  pi_ring :: "i32 \<Rightarrow> byte list"
  pi_switch_ring :: "i32 \<Rightarrow> byte list"
  pi_surroundings :: "i32 \<Rightarrow> surroundings"
  pi_instant :: nat
  pi_sweep :: sweep
  pi_after :: bool

section \<open>Samples\<close>

definition age_ms :: "u64 \<Rightarrow> u64 \<Rightarrow> u64" where
  "age_ms now time = saturating_sub now time div 1000000"

definition process_sample ::
  "Arch \<Rightarrow> texts \<Rightarrow> surroundings \<Rightarrow> MemoryMap list \<Rightarrow> MappingSnapshot \<Rightarrow> RawSample \<Rightarrow> Thread \<Rightarrow> Thread option"
where
  "process_sample arch tx su maps context sample thread =
     (if (case th_sampled_ns thread of Some time \<Rightarrow> rs_time_ns sample \<le> time | None \<Rightarrow> False) then Some thread
      else
        (let mask = (case regs_code_pac_mask (rs_registers sample) of Some m \<Rightarrow> Some m | None \<Rightarrow> th_code_pac_mask thread);
             r = (rs_registers sample)\<lparr>regs_code_pac_mask := mask\<rparr> in
         case pc arch r of
           None \<Rightarrow> None
         | Some rip \<Rightarrow>
             (let age = age_ms (su_now su) (rs_time_ns sample) in
              Some (thread\<lparr>th_code_pac_mask := mask, th_sampled_ns := Some (rs_time_ns sample),
                th_latest := \<lparr>ls_tid = rs_tid sample, ls_executable_header = ls_executable_header (th_latest thread),
                  ls_sampled_at = Some (saturating_sub (su_timestamp su) age), ls_sample_time_ns = Some (rs_time_ns sample),
                  ls_sample_age_ms = Some age, ls_cpu = rs_cpu sample, ls_lost_samples = ls_lost_samples (th_latest thread),
                  ls_registers = [], ls_raw_registers = Some r, ls_stack_bytes = rs_stack sample, ls_map_epoch = Some (ms_epoch context),
                  ls_context = Some context, ls_call_stack = [],
                  ls_disassembly = Some (InstructionBytes_capture (tx_memory tx) (su_memory su) rip maps),
                  ls_unwind_stop = [], ls_error = ls_error (th_latest thread)\<rparr>\<rparr>))))"

section \<open>Stopping every thread\<close>

text \<open>\<open>format!("{error}; {message}")\<close> where there was an error.\<close>

definition join_error :: "rstring option \<Rightarrow> rstring \<Rightarrow> rstring" where
  "join_error error message = (case error of Some e \<Rightarrow> e @ lit ''; '' @ message | None \<Rightarrow> message)"

definition set_error :: "rstring option \<Rightarrow> Thread \<Rightarrow> Thread" where
  "set_error error thread = thread\<lparr>th_latest := (th_latest thread)\<lparr>ls_error := error\<rparr>\<rparr>"

definition ptrace_thread :: "Arch \<Rightarrow> poll_input \<Rightarrow> MemoryMap list \<Rightarrow> MappingSnapshot \<Rightarrow> int \<Rightarrow> Thread \<Rightarrow> Thread option" where
  "ptrace_thread arch pin maps context tid thread =
     (let thread = set_error (th_setup_error thread) (thread\<lparr>th_ptrace_error := None\<rparr>) in
      case capture_thread_snapshot arch (pi_privacy pin) (word_of_int tid) maps (sw_script (pi_sweep pin) tid) of
        None \<Rightarrow> None
      | Some (Inr sample, _) \<Rightarrow> process_sample arch (pi_texts pin) (sw_surroundings (pi_sweep pin) tid) maps context sample thread
      | Some (Inl error, _) \<Rightarrow>
          (let message = lit ''ptrace sampling: '' @ tx_ptrace (pi_texts pin) error in
           Some (set_error (Some (join_error (ls_error (th_latest thread)) message)) (thread\<lparr>th_ptrace_error := Some message\<rparr>))))"

fun ptrace_threads :: "Arch \<Rightarrow> poll_input \<Rightarrow> MemoryMap list \<Rightarrow> MappingSnapshot \<Rightarrow> (int \<times> Thread) list \<Rightarrow> (int \<times> Thread) list option" where
  "ptrace_threads arch pin maps context [] = Some []"
| "ptrace_threads arch pin maps context ((tid, thread) # threads) =
     (case ptrace_thread arch pin maps context tid thread of
        None \<Rightarrow> None
      | Some thread \<Rightarrow> map_option (Cons (tid, thread)) (ptrace_threads arch pin maps context threads))"

definition capture_ptrace :: "Arch \<Rightarrow> poll_input \<Rightarrow> MemoryMap list \<Rightarrow> Sampler \<Rightarrow> ((poll_error + unit) \<times> Sampler) option" where
  "capture_ptrace arch pin maps s =
     map_option (\<lambda>threads. (if sw_identity (pi_sweep pin) then Inr () else Inl InvalidIdentity,
         s\<lparr>sa_threads := threads, sa_next_ptrace := Some (sw_done (pi_sweep pin) + PTRACE_INTERVAL)\<rparr>))
       (ptrace_threads arch pin maps (sa_context s) (sa_threads s))"

section \<open>Polling\<close>

definition new_thread :: "poll_input \<Rightarrow> (u8, 20) rarray option \<Rightarrow> i32 \<Rightarrow> u64 \<Rightarrow> Thread" where
  "new_thread pin executable_header tid start_time =
     (let latest = LiveSample_waiting tid executable_header;
          error = (case pi_open pin tid of Inr _ \<Rightarrow> None | Inl e \<Rightarrow> Some (tx_perf (pi_texts pin) e));
          error = (case pi_context_switch pin tid of
              Inr _ \<Rightarrow> error
            | Inl e \<Rightarrow> Some (join_error error (lit ''context-switch perf: '' @ tx_perf (pi_texts pin) e))) in
      \<lparr>th_start_time = start_time, th_event = (case pi_open pin tid of Inr event \<Rightarrow> Some event | Inl _ \<Rightarrow> None),
       th_switch_event = (case pi_context_switch pin tid of Inr event \<Rightarrow> Some event | Inl _ \<Rightarrow> None),
       th_setup_error = error, th_ptrace_error = None, th_latest = latest\<lparr>ls_error := error\<rparr>, th_sampled_ns = None, th_code_pac_mask = None\<rparr>)"

text \<open>The newest sample, the lost records and the error as the loop over the two readers carries them.\<close>

record drained =
  dr_newest :: "RawSample option"
  dr_lost :: u64
  dr_error :: "rstring option"

definition drain_event ::
  "Arch \<Rightarrow> texts \<Rightarrow> i32 \<Rightarrow> byte list \<Rightarrow> PerfEventReader option \<Rightarrow> drained \<Rightarrow> (PerfEventReader option \<times> drained) option"
where
  "drain_event arch tx tid ring event d =
     (case event of
        None \<Rightarrow> Some (None, d)
      | Some r \<Rightarrow>
          (case drain arch ring r of
             None \<Rightarrow> None
           | Some (result, r, _) \<Rightarrow>
               (let d = (case result of
                    Inr (Some sample) \<Rightarrow>
                      if rs_tid sample = tid \<and> (case dr_newest d of None \<Rightarrow> True | Some old \<Rightarrow> rs_time_ns old < rs_time_ns sample)
                      then d\<lparr>dr_newest := Some sample\<rparr> else d
                  | Inr None \<Rightarrow> d
                  | Inl e \<Rightarrow> d\<lparr>dr_error := Some (tx_perf tx e)\<rparr>) in
                Some (Some r, d\<lparr>dr_lost := saturating_add (dr_lost d) (pe_lost r)\<rparr>))))"

definition poll_thread ::
  "Arch \<Rightarrow> poll_input \<Rightarrow> MemoryMap list \<Rightarrow> MappingSnapshot \<Rightarrow> i32 \<Rightarrow> Thread \<Rightarrow> Thread option"
where
  "poll_thread arch pin maps context tid thread =
     (let error = (case (th_setup_error thread, th_ptrace_error thread) of
            (Some perf, Some ptrace) \<Rightarrow> Some (perf @ lit ''; '' @ ptrace)
          | (Some perf, None) \<Rightarrow> Some perf
          | (None, ptrace) \<Rightarrow> ptrace);
          d = \<lparr>dr_newest = None, dr_lost = 0, dr_error = error\<rparr> in
      case drain_event arch (pi_texts pin) tid (pi_ring pin tid) (th_event thread) d of
        None \<Rightarrow> None
      | Some (event, d) \<Rightarrow>
          (case drain_event arch (pi_texts pin) tid (pi_switch_ring pin tid) (th_switch_event thread) d of
             None \<Rightarrow> None
           | Some (switch_event, d) \<Rightarrow>
               (let thread = thread\<lparr>th_event := event, th_switch_event := switch_event,
                    th_latest := (th_latest thread)\<lparr>ls_error := dr_error d, ls_lost_samples := dr_lost d\<rparr>\<rparr> in
                case dr_newest d of
                  None \<Rightarrow> Some thread
                | Some sample \<Rightarrow>
                    if (case th_sampled_ns thread of None \<Rightarrow> True | Some time \<Rightarrow> time < rs_time_ns sample)
                    then process_sample arch (pi_texts pin) (pi_surroundings pin tid) maps context sample thread
                    else Some thread)))"

definition find_thread :: "poll_input \<Rightarrow> Sampler \<Rightarrow> i32 \<Rightarrow> u64 \<Rightarrow> Thread" where
  "find_thread pin s tid start_time =
     (case map_of (sa_threads s) (sint tid) of
        Some thread \<Rightarrow> if th_start_time thread \<noteq> start_time then new_thread pin (sa_executable_header s) tid start_time else thread
      | None \<Rightarrow> new_thread pin (sa_executable_header s) tid start_time)"

text \<open>The loop over the threads of the process, with the set of those that are alive.\<close>

fun poll_threads :: "Arch \<Rightarrow> poll_input \<Rightarrow> MemoryMap list \<Rightarrow> i32 list \<Rightarrow> int list \<Rightarrow> Sampler \<Rightarrow> (int list \<times> Sampler) option" where
  "poll_threads arch pin maps [] alive s = Some (alive, s)"
| "poll_threads arch pin maps (tid # tids) alive s =
     (case pi_stat pin tid of
        None \<Rightarrow> poll_threads arch pin maps tids alive s
      | Some start_time \<Rightarrow>
          (case poll_thread arch pin maps (sa_context s) tid (find_thread pin s tid start_time) of
             None \<Rightarrow> None
           | Some thread \<Rightarrow>
               poll_threads arch pin maps tids (sint tid # alive) (s\<lparr>sa_threads := bt_insert (sint tid) thread (sa_threads s)\<rparr>)))"

definition refresh_context :: "MemoryMap list \<Rightarrow> Sampler \<Rightarrow> Sampler" where
  "refresh_context maps s =
     (if ms_maps (sa_context s) \<noteq> maps
      then s\<lparr>sa_context := \<lparr>ms_epoch = ms_epoch (sa_context s) + 1, ms_maps = maps\<rparr>\<rparr> else s)"

definition sampler_poll :: "Arch \<Rightarrow> poll_input \<Rightarrow> MemoryMap list \<Rightarrow> Sampler \<Rightarrow> ((poll_error + unit) \<times> Sampler) option" where
  "sampler_poll arch pin maps s =
     (if \<not> pi_before pin then Some (Inl InvalidIdentity, s)
      else
        (let s = refresh_context maps s in
         case pi_tids pin of
           None \<Rightarrow> Some (Inl ThreadList, s)
         | Some tids \<Rightarrow>
             (case poll_threads arch pin maps tids [] s of
                None \<Rightarrow> None
              | Some (alive, s) \<Rightarrow>
                  (let s = s\<lparr>sa_threads := bt_retain (\<lambda>tid _. tid \<in> set alive) (sa_threads s)\<rparr>;
                       due = (case sa_next_ptrace s of Some deadline \<Rightarrow> deadline \<le> pi_instant pin | None \<Rightarrow> False) in
                   case (if due then capture_ptrace arch pin maps s else Some (Inr (), s)) of
                     None \<Rightarrow> None
                   | Some (Inl e, s) \<Rightarrow> Some (Inl e, s)
                   | Some (Inr _, s) \<Rightarrow> Some (if pi_after pin then Inr () else Inl InvalidIdentity, s)))))"

definition bootstrap :: "Arch \<Rightarrow> poll_input \<Rightarrow> MemoryMap list \<Rightarrow> Sampler \<Rightarrow> ((poll_error + unit) \<times> Sampler) option" where
  "bootstrap arch pin maps s =
     (case sampler_poll arch pin maps (s\<lparr>sa_next_ptrace := None\<rparr>) of
        None \<Rightarrow> None
      | Some (Inl e, s) \<Rightarrow> Some (Inl e, s)
      | Some (Inr _, s) \<Rightarrow> capture_ptrace arch pin maps s)"

text \<open>\<open>mapping_snapshots\<close>: the first context found under each epoch, by epoch.\<close>

definition mapping_snapshots :: "Sampler \<Rightarrow> MappingSnapshot list" where
  "mapping_snapshots s =
     map snd (fold (\<lambda>(_, thread) m. case ls_context (th_latest thread) of
         None \<Rightarrow> m
       | Some context \<Rightarrow> if map_of m (ms_epoch context) = None then bt_insert (ms_epoch context) context m else m) (sa_threads s) [])"

definition latest :: "u64 \<Rightarrow> Sampler \<Rightarrow> LiveSample list" where
  "latest now s = map (\<lambda>(_, thread). (th_latest thread)\<lparr>ls_sample_age_ms := map_option (age_ms now) (th_sampled_ns thread)\<rparr>) (sa_threads s)"

section \<open>Threads\<close>

definition reader_ok :: "Arch \<Rightarrow> nat \<Rightarrow> PerfEventReader \<Rightarrow> bool" where
  "reader_ok arch page r \<longleftrightarrow> pe_length r = page * 17 \<and> 0 < pe_capacity r \<and> pe_offset r + pe_capacity r \<le> pe_length r
     \<and> pe_offset r + pe_capacity r < 2 ^ 64 \<and> sample_valid arch (pe_pending r)"

lemma open_attr_reader_ok: "open_attr fd page mapped cs = Inr r \<Longrightarrow> reader_ok arch page r"
  by (auto simp: open_attr_def reader_ok_def sample_valid_def Let_def not_less not_le split: if_splits option.splits)

lemma reader_ok_drain:
  assumes "reader_ok arch page r" "length mapping = page * 17"
  obtains result r' t where "drain arch mapping r = Some (result, r', t)" "reader_ok arch page r'" "\<And>l. result = Inr l \<Longrightarrow> sample_valid arch l"
proof -
  have "ring_ok mapping r" using assms by (simp add: ring_ok_def reader_ok_def)
  then obtain result r' where d: "drain arch mapping r = Some (result, r', word_at mapping 1024)" "same_ring r r'"
    by (rule drain_safe) blast
  moreover have "sample_valid arch (pe_pending r') \<and> (\<forall>l. result = Inr l \<longrightarrow> sample_valid arch l)"
    using drain_valid [OF _ d(1)] assms(1) by (simp add: reader_ok_def)
  ultimately show thesis using that [of result r'] assms(1) by (simp add: reader_ok_def same_ring_def)
qed

text \<open>A sample belongs to its thread and, once there is one, has its registers and its mappings.\<close>

definition latest_ok :: "Arch \<Rightarrow> int \<Rightarrow> Thread \<Rightarrow> bool" where
  "latest_ok arch tid th \<longleftrightarrow> ls_tid (th_latest th) = word_of_int tid \<and> ls_sample_time_ns (th_latest th) = th_sampled_ns th
     \<and> pred_option (validate arch) (ls_raw_registers (th_latest th))
     \<and> (th_sampled_ns th = None \<longleftrightarrow> ls_context (th_latest th) = None)
     \<and> ls_map_epoch (th_latest th) = map_option ms_epoch (ls_context (th_latest th))"

definition thread_ok :: "Arch \<Rightarrow> nat \<Rightarrow> int \<Rightarrow> Thread \<Rightarrow> bool" where
  "thread_ok arch page tid th \<longleftrightarrow> pred_option (reader_ok arch page) (th_event th) \<and> pred_option (reader_ok arch page) (th_switch_event th)
     \<and> latest_ok arch tid th"

text \<open>Time goes forward: a sample is only replaced by a later one.\<close>

definition newer :: "Thread \<Rightarrow> Thread \<Rightarrow> bool" where
  "newer th th' \<longleftrightarrow> (case th_sampled_ns th of
       None \<Rightarrow> True
     | Some t \<Rightarrow> \<exists>t'. th_sampled_ns th' = Some t' \<and> t \<le> t' \<and> (t' = t \<longrightarrow> ls_raw_registers (th_latest th') = ls_raw_registers (th_latest th)
         \<and> ls_stack_bytes (th_latest th') = ls_stack_bytes (th_latest th) \<and> ls_context (th_latest th') = ls_context (th_latest th)))"

definition thread_step :: "Arch \<Rightarrow> nat \<Rightarrow> MappingSnapshot \<Rightarrow> int \<Rightarrow> Thread \<Rightarrow> Thread \<Rightarrow> bool" where
  "thread_step arch page c tid th th' \<longleftrightarrow> (thread_ok arch page tid th \<longrightarrow> thread_ok arch page tid th') \<and> th_start_time th' = th_start_time th
     \<and> newer th th' \<and> ls_context (th_latest th') \<in> {ls_context (th_latest th), Some c}"

lemma newer_refl: "newer th th" by (simp add: newer_def split: option.split)

lemma newer_trans: "newer a b \<Longrightarrow> newer b c \<Longrightarrow> newer a c"
  by (auto simp: newer_def split: option.splits)

lemma thread_step_trans: "thread_step arch page c tid a b \<Longrightarrow> thread_step arch page c tid b d \<Longrightarrow> thread_step arch page c tid a d"
  using newer_trans by (auto simp: thread_step_def)

lemma set_error_step: "thread_step arch page c tid th (set_error e (th\<lparr>th_ptrace_error := p\<rparr>))"
  by (auto simp: thread_step_def thread_ok_def latest_ok_def newer_def set_error_def split: option.split)

lemma process_sample_step:
  assumes "rs_tid sample = word_of_int tid" "validate arch (rs_registers sample)"
  obtains th' where "process_sample arch tx su maps c sample th = Some th'" "thread_step arch page c tid th th'"
proof (cases "case th_sampled_ns th of Some time \<Rightarrow> rs_time_ns sample \<le> time | None \<Rightarrow> False")
  case True
  then have "process_sample arch tx su maps c sample th = Some th" by (simp add: process_sample_def)
  moreover have "thread_step arch page c tid th th" by (simp add: thread_step_def newer_refl)
  ultimately show thesis by (rule that)
next
  case False
  define mask where "mask = (case regs_code_pac_mask (rs_registers sample) of Some m \<Rightarrow> Some m | None \<Rightarrow> th_code_pac_mask th)"
  define r where "r = (rs_registers sample)\<lparr>regs_code_pac_mask := mask\<rparr>"
  have v: "validate arch r" using assms(2) by (simp add: r_def validate_def)
  obtain rip where rip: "pc arch r = Some rip" using validate_accessors(1) [OF v] by auto
  obtain th' where p: "process_sample arch tx su maps c sample th = Some th'" using False rip
    by (simp add: process_sample_def Let_def flip: mask_def r_def)
  then have th': "th_sampled_ns th' = Some (rs_time_ns sample)" "th_start_time th' = th_start_time th" "th_event th' = th_event th"
      "th_switch_event th' = th_switch_event th" "ls_tid (th_latest th') = rs_tid sample" "ls_sample_time_ns (th_latest th') = Some (rs_time_ns sample)"
      "ls_raw_registers (th_latest th') = Some r" "ls_context (th_latest th') = Some c" "ls_map_epoch (th_latest th') = Some (ms_epoch c)"
    using False rip by (auto simp: process_sample_def Let_def simp flip: mask_def r_def)
  have "newer th th'" using False th'(1) by (auto simp: newer_def split: option.splits)
  then have "thread_step arch page c tid th th'" using th' v assms(1) by (auto simp: thread_step_def thread_ok_def latest_ok_def)
  with p show thesis by (rule that)
qed

text \<open>The inputs of a poll: mappings of 17 pages, register sets of the architecture, and waits that are eventually not interrupted.\<close>

definition script_ok :: "Arch \<Rightarrow> ptrace_script \<Rightarrow> bool" where
  "script_ok arch ps \<longleftrightarrow> regset_for arch (ps_regset ps) \<and> 2 \<le> length (filter (\<lambda>w. w \<noteq> Wait_failed Interrupted) (ps_waits ps))
     \<and> (\<exists>d\<in>set (ps_detaches ps). d \<noteq> Some Interrupted)"

definition input_ok :: "Arch \<Rightarrow> nat \<Rightarrow> poll_input \<Rightarrow> bool" where
  "input_ok arch page pin \<longleftrightarrow> (\<forall>tid. script_ok arch (sw_script (pi_sweep pin) tid))
     \<and> (\<forall>tid. length (pi_ring pin tid) = page * 17 \<and> length (pi_switch_ring pin tid) = page * 17)
     \<and> (\<forall>tid r. pi_open pin tid = Inr r \<or> pi_context_switch pin tid = Inr r \<longrightarrow> reader_ok arch page r)
     \<and> (\<forall>tids. pi_tids pin = Some tids \<longrightarrow> distinct tids)"

lemma capture_returns:
  assumes "script_ok arch ps"
  obtains result calls where "capture_thread_snapshot arch privacy tid maps ps = Some (result, calls)"
    "\<And>sample. result = Inr sample \<Longrightarrow> rs_tid sample = tid \<and> validate arch (rs_registers sample)"
proof -
  from assms obtain result calls where c: "capture_thread_snapshot arch privacy tid maps ps = Some (result, calls)"
    using capture_lets_go [of ps arch privacy tid maps] by (auto simp: script_ok_def)
  then show thesis using that [OF c] capture_sample [of arch privacy tid maps ps] assms by (auto simp: script_ok_def)
qed

lemma ptrace_thread_step:
  assumes "input_ok arch page pin"
  obtains th' where "ptrace_thread arch pin maps c tid th = Some th'" "thread_step arch page c tid th th'"
proof -
  define th1 where "th1 = set_error (th_setup_error th) (th\<lparr>th_ptrace_error := None\<rparr>)"
  have s1: "thread_step arch page c tid th th1" unfolding th1_def by (rule set_error_step)
  have "script_ok arch (sw_script (pi_sweep pin) tid)" using assms by (simp add: input_ok_def)
  then obtain result calls where r: "capture_thread_snapshot arch (pi_privacy pin) (word_of_int tid) maps (sw_script (pi_sweep pin) tid) = Some (result, calls)"
      "\<And>sample. result = Inr sample \<Longrightarrow> rs_tid sample = word_of_int tid \<and> validate arch (rs_registers sample)"
    by (rule capture_returns) blast
  show thesis
  proof (cases result)
    case (Inl e)
    then show thesis using r(1) thread_step_trans [OF s1 set_error_step] that by (simp add: ptrace_thread_def Let_def flip: th1_def)
  next
    case (Inr sample)
    obtain th' where "process_sample arch (pi_texts pin) (sw_surroundings (pi_sweep pin) tid) maps c sample th1 = Some th'" "thread_step arch page c tid th1 th'"
      by (rule process_sample_step [of sample tid arch]) (use r(2) Inr in auto)
    then show thesis using r(1) Inr thread_step_trans [OF s1] that by (simp add: ptrace_thread_def Let_def flip: th1_def)
  qed
qed

definition newest_ok :: "Arch \<Rightarrow> i32 \<Rightarrow> drained \<Rightarrow> bool" where
  "newest_ok arch tid d \<longleftrightarrow> pred_option (\<lambda>s. rs_tid s = tid \<and> validate arch (rs_registers s)) (dr_newest d)"

lemma drain_event_ok:
  assumes "pred_option (reader_ok arch page) event" "length ring = page * 17" "newest_ok arch tid d"
  obtains event' d' where "drain_event arch tx tid ring event d = Some (event', d')" "pred_option (reader_ok arch page) event'" "newest_ok arch tid d'"
proof (cases event)
  case None
  then show thesis using that [of None d] assms(3) by (simp add: drain_event_def)
next
  case (Some r)
  obtain result r' t where d: "drain arch ring r = Some (result, r', t)" "reader_ok arch page r'" "\<And>l. result = Inr l \<Longrightarrow> sample_valid arch l"
    by (rule reader_ok_drain [of arch page r ring]) (use assms Some in auto)
  define d' where "d' = (case result of
      Inr (Some sample) \<Rightarrow> if rs_tid sample = tid \<and> (case dr_newest d of None \<Rightarrow> True | Some old \<Rightarrow> rs_time_ns old < rs_time_ns sample)
        then d\<lparr>dr_newest := Some sample\<rparr> else d
    | Inr None \<Rightarrow> d
    | Inl e \<Rightarrow> d\<lparr>dr_error := Some (tx_perf tx e)\<rparr>)"
  have "newest_ok arch tid d'"
    using assms(3) d(3) by (auto simp: d'_def newest_ok_def sample_valid_def split: sum.split option.split)
  moreover have "drain_event arch tx tid ring event d = Some (Some r', d'\<lparr>dr_lost := saturating_add (dr_lost d') (pe_lost r')\<rparr>)"
    unfolding drain_event_def Some by (simp add: d(1) Let_def flip: d'_def)
  ultimately show thesis using that d(2) by (simp add: newest_ok_def)
qed

lemma poll_thread_step:
  assumes "input_ok arch page pin" "thread_ok arch page (sint tid) th"
  obtains th' where "poll_thread arch pin maps c tid th = Some th'" "thread_step arch page c (sint tid) th th'"
proof -
  define error where "error = (case (th_setup_error th, th_ptrace_error th) of
      (Some perf, Some ptrace) \<Rightarrow> Some (perf @ lit ''; '' @ ptrace) | (Some perf, None) \<Rightarrow> Some perf | (None, ptrace) \<Rightarrow> ptrace)"
  have rings: "length (pi_ring pin tid) = page * 17" "length (pi_switch_ring pin tid) = page * 17" using assms(1) by (simp_all add: input_ok_def)
  have events: "pred_option (reader_ok arch page) (th_event th)" "pred_option (reader_ok arch page) (th_switch_event th)"
    using assms(2) by (simp_all add: thread_ok_def)
  have "newest_ok arch tid \<lparr>dr_newest = None, dr_lost = 0, dr_error = error\<rparr>" by (simp add: newest_ok_def)
  then obtain event d1 where e1: "drain_event arch (pi_texts pin) tid (pi_ring pin tid) (th_event th) \<lparr>dr_newest = None, dr_lost = 0, dr_error = error\<rparr>
      = Some (event, d1)" "pred_option (reader_ok arch page) event" "newest_ok arch tid d1"
    by (rule drain_event_ok [OF events(1) rings(1)]) blast
  obtain switch d2 where e2: "drain_event arch (pi_texts pin) tid (pi_switch_ring pin tid) (th_switch_event th) d1 = Some (switch, d2)"
      "pred_option (reader_ok arch page) switch" "newest_ok arch tid d2"
    by (rule drain_event_ok [OF events(2) rings(2) e1(3)]) blast
  define th1 where "th1 = th\<lparr>th_event := event, th_switch_event := switch,
      th_latest := (th_latest th)\<lparr>ls_error := dr_error d2, ls_lost_samples := dr_lost d2\<rparr>\<rparr>"
  have s1: "thread_step arch page c (sint tid) th th1"
    using e1(2) e2(2) by (auto simp: thread_step_def thread_ok_def latest_ok_def newer_def th1_def split: option.split)
  have poll: "poll_thread arch pin maps c tid th = (case dr_newest d2 of
        None \<Rightarrow> Some th1
      | Some sample \<Rightarrow> if (case th_sampled_ns th1 of None \<Rightarrow> True | Some time \<Rightarrow> time < rs_time_ns sample)
          then process_sample arch (pi_texts pin) (pi_surroundings pin tid) maps c sample th1 else Some th1)"
    unfolding poll_thread_def Let_def error_def [symmetric] e1(1) by (cases "dr_newest d2") (simp_all add: e2(1) th1_def)
  show thesis
  proof (cases "dr_newest d2")
    case None
    then show thesis using poll s1 that by simp
  next
    case (Some sample)
    obtain th' where "process_sample arch (pi_texts pin) (pi_surroundings pin tid) maps c sample th1 = Some th'" "thread_step arch page c (sint tid) th1 th'"
      by (rule process_sample_step [of sample "sint tid" arch]) (use e2(3) Some in \<open>auto simp: newest_ok_def\<close>)
    then show thesis using poll Some s1 thread_step_trans [OF s1] that by (auto split: if_splits)
  qed
qed

lemma new_thread_ok:
  assumes "input_ok arch page pin"
  shows "thread_ok arch page (sint tid) (new_thread pin header tid start_time)" "ls_context (th_latest (new_thread pin header tid start_time)) = None"
    "th_start_time (new_thread pin header tid start_time) = start_time"
proof -
  have r: "pi_open pin tid = Inr r \<Longrightarrow> reader_ok arch page r" "pi_context_switch pin tid = Inr r \<Longrightarrow> reader_ok arch page r" for r
    using assms by (auto simp: input_ok_def)
  then show "thread_ok arch page (sint tid) (new_thread pin header tid start_time)"
    by (auto simp: new_thread_def thread_ok_def latest_ok_def LiveSample_waiting_def Let_def split: sum.split)
  show "ls_context (th_latest (new_thread pin header tid start_time)) = None" "th_start_time (new_thread pin header tid start_time) = start_time"
    by (simp_all add: new_thread_def LiveSample_waiting_def Let_def)
qed

section \<open>The sampler\<close>

definition contexts :: "Sampler \<Rightarrow> MappingSnapshot set" where
  "contexts s = insert (sa_context s) {c. \<exists>(tid, th)\<in>set (sa_threads s). ls_context (th_latest th) = Some c}"

definition sampler_ok :: "Arch \<Rightarrow> nat \<Rightarrow> Sampler \<Rightarrow> bool" where
  "sampler_ok arch page s \<longleftrightarrow> bt_ok (sa_threads s) \<and> (\<forall>(tid, th)\<in>set (sa_threads s). thread_ok arch page tid th \<and> tid \<in> range (sint :: i32 \<Rightarrow> int))"

definition epochs_ok :: "nat \<Rightarrow> Sampler \<Rightarrow> bool" where
  "epochs_ok n s \<longleftrightarrow> inj_on ms_epoch (contexts s) \<and> (\<forall>c\<in>contexts s. ms_epoch c \<le> ms_epoch (sa_context s)) \<and> unat (ms_epoch (sa_context s)) \<le> n"

lemma epochs_ok_mono: "epochs_ok n s \<Longrightarrow> contexts s' \<subseteq> contexts s \<Longrightarrow> sa_context s' = sa_context s \<Longrightarrow> epochs_ok n s'"
  by (auto simp: epochs_ok_def intro: inj_on_subset)

lemma epochs_ok_refresh:
  assumes "epochs_ok n s" "Suc n < 2 ^ 64"
  shows "epochs_ok (Suc n) (refresh_context maps s)"
proof (cases "ms_maps (sa_context s) = maps")
  case True
  then show ?thesis using assms by (simp add: refresh_context_def epochs_ok_def)
next
  case False
  let ?e = "ms_epoch (sa_context s)"
  have n: "unat ?e \<le> n" using assms(1) by (simp add: epochs_ok_def)
  then have e: "unat (?e + 1) = unat ?e + 1" using assms(2) by (simp add: unat_word_ariths)
  define c' where "c' = \<lparr>ms_epoch = ?e + 1, ms_maps = maps\<rparr>"
  have r: "refresh_context maps s = s\<lparr>sa_context := c'\<rparr>" using False by (simp add: refresh_context_def c'_def)
  have sub: "contexts (s\<lparr>sa_context := c'\<rparr>) \<subseteq> insert c' (contexts s)" by (auto simp: contexts_def)
  have less: "unat (ms_epoch c) < unat (?e + 1)" if "c \<in> contexts s" for c
    using assms(1) that e by (auto simp: epochs_ok_def word_le_nat_alt)
  have "inj_on ms_epoch (insert c' (contexts s))"
    using assms(1) less by (fastforce simp: epochs_ok_def c'_def inj_on_insert)
  then have "inj_on ms_epoch (contexts (s\<lparr>sa_context := c'\<rparr>))" using sub by (rule inj_on_subset)
  moreover have "ms_epoch c \<le> ms_epoch c'" if "c \<in> contexts (s\<lparr>sa_context := c'\<rparr>)" for c
    using less sub that by (force simp: c'_def word_le_nat_alt)
  ultimately show ?thesis using n e unfolding r epochs_ok_def by (simp add: c'_def)
qed

lemma contexts_insert:
  "contexts (s\<lparr>sa_threads := bt_insert tid th (sa_threads s)\<rparr>) \<subseteq> contexts s \<union> {c. ls_context (th_latest th) = Some c}"
proof -
  have "set (bt_insert tid th t) \<subseteq> insert (tid, th) (set t)" for t
    by (induction tid th t rule: bt_insert.induct) auto
  then show ?thesis by (force simp: contexts_def)
qed

lemma sampler_ok_insert:
  assumes "sampler_ok arch page s" "thread_ok arch page (sint tid) th"
  shows "sampler_ok arch page (s\<lparr>sa_threads := bt_insert (sint (tid :: i32)) th (sa_threads s)\<rparr>)"
proof -
  have "set (bt_insert k th t) \<subseteq> insert (k, th) (set t)" for k :: int and t
    by (induction k th t rule: bt_insert.induct) auto
  then show ?thesis using assms by (force simp: sampler_ok_def bt.valid_insert)
qed

lemma thread_context: "(tid, th) \<in> set (sa_threads s) \<Longrightarrow> ls_context (th_latest th) = Some c \<Longrightarrow> c \<in> contexts s"
  by (auto simp: contexts_def)

lemma own_context: "sa_context s \<in> contexts s"
  by (simp add: contexts_def)

lemma find_thread_ok:
  assumes "sampler_ok arch page s" "input_ok arch page pin"
  shows "thread_ok arch page (sint tid) (find_thread pin s tid start_time)"
    "ls_context (th_latest (find_thread pin s tid start_time)) = Some c \<Longrightarrow> c \<in> contexts s"
    "th_start_time (find_thread pin s tid start_time) = start_time"
proof -
  consider "find_thread pin s tid start_time = new_thread pin (sa_executable_header s) tid start_time"
    | th where "find_thread pin s tid start_time = th" "(sint tid, th) \<in> set (sa_threads s)" "th_start_time th = start_time"
  proof (cases "map_of (sa_threads s) (sint tid)")
    case (Some th)
    then show thesis
      using that(1) that(2) [of th] map_of_SomeD [OF Some] by (cases "th_start_time th = start_time") (simp_all add: find_thread_def)
  qed (use that(1) in \<open>simp add: find_thread_def\<close>)
  then have "thread_ok arch page (sint tid) (find_thread pin s tid start_time) \<and> th_start_time (find_thread pin s tid start_time) = start_time
      \<and> (\<forall>c. ls_context (th_latest (find_thread pin s tid start_time)) = Some c \<longrightarrow> c \<in> contexts s)"
  proof cases
    case 1
    then show ?thesis using new_thread_ok [OF assms(2)] by simp
  next
    case 2
    then show ?thesis using assms(1) thread_context by (auto simp: sampler_ok_def)
  qed
  then show "thread_ok arch page (sint tid) (find_thread pin s tid start_time)"
    "ls_context (th_latest (find_thread pin s tid start_time)) = Some c \<Longrightarrow> c \<in> contexts s"
    "th_start_time (find_thread pin s tid start_time) = start_time" by blast+
qed

text \<open>What a sequence of updates of the threads keeps of the state before it.\<close>

definition advances :: "Sampler \<Rightarrow> Sampler \<Rightarrow> bool" where
  "advances s s' \<longleftrightarrow> (\<forall>tid th th'. map_of (sa_threads s) tid = Some th \<longrightarrow> map_of (sa_threads s') tid = Some th'
     \<longrightarrow> th_start_time th' = th_start_time th \<longrightarrow> newer th th')"

lemma poll_threads_spec:
  assumes "input_ok arch page pin" "sampler_ok arch page s" "distinct tids"
    and "\<forall>tid\<in>set tids. map_of (sa_threads s) (sint tid) = map_of (sa_threads s0) (sint tid)" "advances s0 s"
  shows "\<exists>alive' s'. poll_threads arch pin maps tids alive s = Some (alive', s') \<and> sampler_ok arch page s' \<and> contexts s' \<subseteq> contexts s
    \<and> sa_context s' = sa_context s \<and> sa_next_ptrace s' = sa_next_ptrace s \<and> advances s0 s'
    \<and> set alive' = set alive \<union> sint ` {tid \<in> set tids. pi_stat pin tid \<noteq> None}
    \<and> fst ` set (sa_threads s') = fst ` set (sa_threads s) \<union> sint ` {tid \<in> set tids. pi_stat pin tid \<noteq> None}"
  using assms(2-)
proof (induction tids arbitrary: s alive)
  case Nil
  then show ?case by simp
next
  case (Cons tid tids)
  show ?case
  proof (cases "pi_stat pin tid")
    case None
    then have "{t \<in> set (tid # tids). pi_stat pin t \<noteq> None} = {t \<in> set tids. pi_stat pin t \<noteq> None}" by auto
    then show ?thesis using Cons.IH [of s alive] Cons.prems None by simp
  next
    case (Some start_time)
    let ?th = "find_thread pin s tid start_time"
    note found = find_thread_ok [OF Cons.prems(1) assms(1), of tid start_time]
    obtain th' where th': "poll_thread arch pin maps (sa_context s) tid ?th = Some th'" "thread_step arch page (sa_context s) (sint tid) ?th th'"
      by (rule poll_thread_step [OF assms(1) found(1)])
    define s1 where "s1 = s\<lparr>sa_threads := bt_insert (sint tid) th' (sa_threads s)\<rparr>"
    have ok1: "sampler_ok arch page s1"
      unfolding s1_def by (rule sampler_ok_insert [OF Cons.prems(1)]) (use th'(2) found(1) in \<open>simp add: thread_step_def\<close>)
    have bt: "map_of (sa_threads s1) = (map_of (sa_threads s))(sint tid \<mapsto> th')"
      using Cons.prems(1) by (simp add: s1_def sampler_ok_def bt.get_insert)
    have "ls_context (th_latest th') = Some c \<Longrightarrow> c \<in> contexts s" for c
      using th'(2) found(2) [of c] own_context [of s] unfolding thread_step_def by auto
    then have sub1: "contexts s1 \<subseteq> contexts s" using contexts_insert [of "sint tid" th' s] by (auto simp: s1_def)
    have "newer th th'" if "map_of (sa_threads s0) (sint tid) = Some th" "th_start_time th' = th_start_time th" for th
    proof -
      have "map_of (sa_threads s) (sint tid) = Some th" using Cons.prems(3) that(1) by simp
      moreover have "th_start_time th = start_time" using that(2) th'(2) found(3) by (simp add: thread_step_def)
      ultimately have "?th = th" by (simp add: find_thread_def)
      then show ?thesis using th'(2) by (simp add: thread_step_def)
    qed
    then have adv1: "advances s0 s1" using Cons.prems(4) by (auto simp: advances_def bt)
    have same1: "\<forall>t\<in>set tids. map_of (sa_threads s1) (sint t) = map_of (sa_threads s0) (sint t)"
    proof
      fix t
      assume t: "t \<in> set tids"
      then have "sint t \<noteq> sint tid" using Cons.prems(2) signed_word_eqI [of t tid] by auto
      then show "map_of (sa_threads s1) (sint t) = map_of (sa_threads s0) (sint t)" using t Cons.prems(3) by (simp add: bt)
    qed
    have keys1: "fst ` set (sa_threads s1) = insert (sint tid) (fst ` set (sa_threads s))" by (simp add: s1_def set_bt_insert)
    have alive: "{t \<in> set (tid # tids). pi_stat pin t \<noteq> None} = insert tid {t \<in> set tids. pi_stat pin t \<noteq> None}" using Some by auto
    have "distinct tids" using Cons.prems(2) by simp
    from Cons.IH [OF ok1 this same1 adv1, of "sint tid # alive"] obtain alive' s' where r:
        "poll_threads arch pin maps tids (sint tid # alive) s1 = Some (alive', s')" "sampler_ok arch page s'" "contexts s' \<subseteq> contexts s1"
        "sa_context s' = sa_context s1" "sa_next_ptrace s' = sa_next_ptrace s1" "advances s0 s'"
        "set alive' = set (sint tid # alive) \<union> sint ` {tid \<in> set tids. pi_stat pin tid \<noteq> None}"
        "fst ` set (sa_threads s') = fst ` set (sa_threads s1) \<union> sint ` {tid \<in> set tids. pi_stat pin tid \<noteq> None}"
      by (elim exE conjE) (rule that; assumption)
    show ?thesis
    proof (intro exI conjI)
      show "poll_threads arch pin maps (tid # tids) alive s = Some (alive', s')" using r(1) Some th'(1) by (simp flip: s1_def)
      show "contexts s' \<subseteq> contexts s" using r(3) sub1 by blast
      show "sa_context s' = sa_context s" "sa_next_ptrace s' = sa_next_ptrace s" using r(4,5) by (simp_all add: s1_def)
      show "set alive' = set alive \<union> sint ` {t \<in> set (tid # tids). pi_stat pin t \<noteq> None}" unfolding alive r(7) by simp
      show "fst ` set (sa_threads s') = fst ` set (sa_threads s) \<union> sint ` {t \<in> set (tid # tids). pi_stat pin t \<noteq> None}"
        unfolding alive r(8) keys1 by simp
    qed (use r(2,6) in simp_all)
  qed
qed

lemma ptrace_threads_spec:
  assumes "input_ok arch page pin"
  shows "\<exists>threads'. ptrace_threads arch pin maps c threads = Some threads' \<and> map fst threads' = map fst threads
    \<and> list_all2 (\<lambda>(tid, th) (tid', th'). tid' = tid \<and> thread_step arch page c tid th th') threads threads'"
proof (induction threads)
  case (Cons x threads)
  obtain tid th where x: "x = (tid, th)" by (cases x)
  obtain th' where "ptrace_thread arch pin maps c tid th = Some th'" "thread_step arch page c tid th th'" by (rule ptrace_thread_step [OF assms])
  then show ?case using Cons.IH by (auto simp: x)
qed simp

lemma list_all2_map_of:
  "list_all2 (\<lambda>(k, v) (k', v'). k' = k \<and> P k v v') xs ys \<Longrightarrow> map_of ys k = Some v' \<Longrightarrow> \<exists>v. map_of xs k = Some v \<and> P k v v'"
  by (induction rule: list_all2_induct) (auto split: if_splits)

lemma list_all2_in:
  "list_all2 (\<lambda>(k, v) (k', v'). k' = k \<and> P k v v') xs ys \<Longrightarrow> (k, v') \<in> set ys \<Longrightarrow> \<exists>v. (k, v) \<in> set xs \<and> P k v v'"
  by (induction rule: list_all2_induct) auto

text \<open>What every call of the sampler gives: it returns, keeps the invariants, and takes no step back.\<close>

definition call_ok :: "Arch \<Rightarrow> nat \<Rightarrow> Sampler \<Rightarrow> Sampler \<Rightarrow> bool" where
  "call_ok arch page s s' \<longleftrightarrow> sampler_ok arch page s' \<and> contexts s' \<subseteq> contexts s \<and> sa_context s' = sa_context s \<and> advances s s'"

lemma advances_refl: "advances s s" by (auto simp: advances_def newer_refl)

lemma capture_ptrace_ok:
  assumes "input_ok arch page pin" "sampler_ok arch page s"
  obtains result s' where "capture_ptrace arch pin maps s = Some (result, s')" "call_ok arch page s s'" "fst ` set (sa_threads s') = fst ` set (sa_threads s)"
    "\<And>tid th'. map_of (sa_threads s') tid = Some th' \<Longrightarrow> \<exists>th. map_of (sa_threads s) tid = Some th \<and> thread_step arch page (sa_context s) tid th th'"
proof -
  from ptrace_threads_spec [OF assms(1), of maps "sa_context s" "sa_threads s"] obtain threads' where t:
      "ptrace_threads arch pin maps (sa_context s) (sa_threads s) = Some threads'" "map fst threads' = map fst (sa_threads s)"
      "list_all2 (\<lambda>(tid, th) (tid', th'). tid' = tid \<and> thread_step arch page (sa_context s) tid th th') (sa_threads s) threads'" by blast
  define s' where "s' = s\<lparr>sa_threads := threads', sa_next_ptrace := Some (sw_done (pi_sweep pin) + PTRACE_INTERVAL)\<rparr>"
  have each: "\<exists>th. (tid, th) \<in> set (sa_threads s) \<and> thread_step arch page (sa_context s) tid th th'" if "(tid, th') \<in> set (sa_threads s')" for tid th'
    using list_all2_in [OF t(3)] that by (simp add: s'_def)
  have look: "\<exists>th. map_of (sa_threads s) tid = Some th \<and> thread_step arch page (sa_context s) tid th th'" if "map_of (sa_threads s') tid = Some th'" for tid th'
    using list_all2_map_of [OF t(3)] that by (simp add: s'_def)
  have "bt_ok (sa_threads s')" using assms(2) t(2) by (simp add: sampler_ok_def bt_ok_def s'_def)
  moreover have "thread_ok arch page tid th' \<and> tid \<in> range (sint :: i32 \<Rightarrow> int)" if "(tid, th') \<in> set (sa_threads s')" for tid th'
    using each [OF that] assms(2) by (auto simp: thread_step_def sampler_ok_def)
  ultimately have ok: "sampler_ok arch page s'" by (auto simp: sampler_ok_def)
  have "c \<in> contexts s" if "(tid, th') \<in> set (sa_threads s')" "ls_context (th_latest th') = Some c" for tid th' c
    using each [OF that(1)] that(2) thread_context own_context [of s] unfolding thread_step_def by fastforce
  then have sub: "contexts s' \<subseteq> contexts s" using own_context [of s] by (auto simp: contexts_def [of s']) (simp add: s'_def)
  have adv: "advances s s'" using look by (force simp: advances_def thread_step_def)
  have keys: "fst ` set (sa_threads s') = fst ` set (sa_threads s)" using t(2) by (simp add: s'_def flip: set_map)
  show thesis
    by (rule that [of "if sw_identity (pi_sweep pin) then Inr () else Inl InvalidIdentity" s'])
      (use t(1) ok sub adv keys look in \<open>simp_all add: capture_ptrace_def call_ok_def s'_def\<close>)
qed

lemma refresh_context_simps [simp]: "sa_threads (refresh_context maps s) = sa_threads s" "sa_next_ptrace (refresh_context maps s) = sa_next_ptrace s"
  by (simp_all add: refresh_context_def)

lemma retain_ok:
  assumes "sampler_ok arch page s" "advances s0 s"
  shows "sampler_ok arch page (s\<lparr>sa_threads := bt_retain P (sa_threads s)\<rparr>)" "contexts (s\<lparr>sa_threads := bt_retain P (sa_threads s)\<rparr>) \<subseteq> contexts s"
    "advances s0 (s\<lparr>sa_threads := bt_retain P (sa_threads s)\<rparr>)"
proof -
  have bt: "bt_ok (sa_threads s)" using assms(1) by (simp add: sampler_ok_def)
  have sub: "set (bt_retain P (sa_threads s)) \<subseteq> set (sa_threads s)" by (auto simp: bt_retain_def)
  show "sampler_ok arch page (s\<lparr>sa_threads := bt_retain P (sa_threads s)\<rparr>)"
    using assms(1) sub bt.valid_retain [OF bt, of P] by (auto simp: sampler_ok_def)
  show "contexts (s\<lparr>sa_threads := bt_retain P (sa_threads s)\<rparr>) \<subseteq> contexts s" using sub by (auto simp: contexts_def)
  show "advances s0 (s\<lparr>sa_threads := bt_retain P (sa_threads s)\<rparr>)"
    using assms(2) by (auto simp: advances_def bt.get_retain [OF bt] split: option.splits if_splits)
qed

lemma sampler_poll_ok:
  assumes "input_ok arch page pin" "sampler_ok arch page s"
  obtains result s' s1 where "sampler_poll arch pin maps s = Some (result, s')" "s1 = s \<or> s1 = refresh_context maps s" "call_ok arch page s1 s'" "advances s s'"
    "result = Inr () \<Longrightarrow> fst ` set (sa_threads s') = sint ` {tid \<in> set (the (pi_tids pin)). pi_stat pin tid \<noteq> None}"
proof (cases "pi_before pin \<and> pi_tids pin \<noteq> None")
  case False
  have "call_ok arch page s s" "call_ok arch page (refresh_context maps s) (refresh_context maps s)" "advances s (refresh_context maps s)"
    using assms(2) by (auto simp: call_ok_def sampler_ok_def advances_def newer_refl)
  then show thesis
    using False that [of "Inl InvalidIdentity" s s] that [of "Inl ThreadList" "refresh_context maps s" "refresh_context maps s"] advances_refl [of s]
    by (cases "pi_before pin") (auto simp: sampler_poll_def Let_def)
next
  case True
  then obtain tids where tids: "pi_tids pin = Some tids" "pi_before pin" by auto
  define s1 where "s1 = refresh_context maps s"
  have ok1: "sampler_ok arch page s1" and adv1: "advances s s1"
    using assms(2) by (auto simp: s1_def sampler_ok_def advances_def newer_refl)
  have same1: "\<forall>tid\<in>set tids. map_of (sa_threads s1) (sint tid) = map_of (sa_threads s) (sint tid)" by (simp add: s1_def)
  have "distinct tids" using assms(1) tids(1) by (simp add: input_ok_def)
  from poll_threads_spec [OF assms(1) ok1 this same1 adv1, of maps "[]"] obtain alive s2 where p:
      "poll_threads arch pin maps tids [] s1 = Some (alive, s2)" "sampler_ok arch page s2" "contexts s2 \<subseteq> contexts s1" "sa_context s2 = sa_context s1"
      "sa_next_ptrace s2 = sa_next_ptrace s1" "advances s s2" "set alive = set [] \<union> sint ` {tid \<in> set tids. pi_stat pin tid \<noteq> None}"
      "fst ` set (sa_threads s2) = fst ` set (sa_threads s1) \<union> sint ` {tid \<in> set tids. pi_stat pin tid \<noteq> None}"
    by (elim exE conjE) (rule that; assumption)
  define s3 where "s3 = s2\<lparr>sa_threads := bt_retain (\<lambda>tid _. tid \<in> set alive) (sa_threads s2)\<rparr>"
  note r = retain_ok [OF p(2,6), of "\<lambda>tid _. tid \<in> set alive", folded s3_def]
  have keys: "fst ` set (sa_threads s3) = sint ` {tid \<in> set tids. pi_stat pin tid \<noteq> None}"
  proof -
    have "fst ` set (sa_threads s3) = {k \<in> fst ` set (sa_threads s2). k \<in> set alive}" by (force simp: s3_def bt_retain_def)
    then show ?thesis using p(7,8) by auto
  qed
  have same: "advances s1 x = advances s x" for x by (simp add: advances_def s1_def)
  have ctx3: "contexts s3 \<subseteq> contexts s1" "sa_context s3 = sa_context s1" using r(2) p(3,4) by (auto simp: s3_def)
  define due where "due = (case sa_next_ptrace s3 of Some deadline \<Rightarrow> deadline \<le> pi_instant pin | None \<Rightarrow> False)"
  have poll: "sampler_poll arch pin maps s = (case (if due then capture_ptrace arch pin maps s3 else Some (Inr (), s3)) of
        None \<Rightarrow> None | Some (Inl e, s) \<Rightarrow> Some (Inl e, s) | Some (Inr _, s) \<Rightarrow> Some (if pi_after pin then Inr () else Inl InvalidIdentity, s))"
    unfolding sampler_poll_def Let_def using tids p(1) by (simp add: due_def s3_def flip: s1_def)
  show thesis
  proof (cases due)
    case False
    then show thesis
      using that [of "if pi_after pin then Inr () else Inl InvalidIdentity" s3 s1] poll r(1,3) ctx3 same keys tids
      by (simp add: call_ok_def s1_def)
  next
    case True
    obtain result s4 where c: "capture_ptrace arch pin maps s3 = Some (result, s4)" "call_ok arch page s3 s4" "fst ` set (sa_threads s4) = fst ` set (sa_threads s3)"
      "\<And>tid th'. map_of (sa_threads s4) tid = Some th' \<Longrightarrow> \<exists>th. map_of (sa_threads s3) tid = Some th \<and> thread_step arch page (sa_context s3) tid th th'"
      by (rule capture_ptrace_ok [OF assms(1) r(1)]) blast
    have "advances s s4" unfolding advances_def
    proof (intro allI impI)
      fix tid th th'
      assume a: "map_of (sa_threads s) tid = Some th" "map_of (sa_threads s4) tid = Some th'" "th_start_time th' = th_start_time th"
      obtain th3 where "map_of (sa_threads s3) tid = Some th3" "thread_step arch page (sa_context s3) tid th3 th'" using c(4) [OF a(2)] by blast
      moreover from this have "newer th th3" using r(3) a(1,3) unfolding advances_def thread_step_def by metis
      ultimately show "newer th th'" using newer_trans unfolding thread_step_def by blast
    qed
    moreover have "call_ok arch page s1 s4" using c(2) ctx3 same calculation by (auto simp: call_ok_def)
    ultimately show thesis
      using that [of "case result of Inl e \<Rightarrow> Inl e | Inr _ \<Rightarrow> if pi_after pin then Inr () else Inl InvalidIdentity" s4 s1] poll True c(1,3) keys tids
      by (cases result) (simp_all add: s1_def)
  qed
qed

section \<open>Runs\<close>

fun sampler_run :: "Arch \<Rightarrow> (bool \<times> poll_input \<times> MemoryMap list) list \<Rightarrow> Sampler \<Rightarrow> Sampler option" where
  "sampler_run arch [] s = Some s"
| "sampler_run arch ((first, pin, maps) # calls) s =
     (case (if first then bootstrap arch pin maps s else sampler_poll arch pin maps s) of
        None \<Rightarrow> None
      | Some (_, s) \<Rightarrow> sampler_run arch calls s)"

lemma epochs_ok_step:
  assumes "s1 = s \<or> s1 = refresh_context maps s" "call_ok arch page s1 s'" "epochs_ok n s" "Suc n < 2 ^ 64"
  shows "epochs_ok (Suc n) s'"
proof -
  have "epochs_ok (Suc n) s1" using assms(1,3,4) epochs_ok_refresh by (auto simp: epochs_ok_def)
  then show ?thesis using assms(2) epochs_ok_mono by (auto simp: call_ok_def)
qed

lemma sampler_run_ok:
  "\<forall>(first, pin, maps)\<in>set calls. input_ok arch page pin \<Longrightarrow> sampler_ok arch page s \<Longrightarrow> epochs_ok n s \<Longrightarrow> n + length calls < 2 ^ 64
   \<Longrightarrow> \<exists>s'. sampler_run arch calls s = Some s' \<and> sampler_ok arch page s' \<and> epochs_ok (n + length calls) s'"
proof (induction calls arbitrary: s n)
  case (Cons x calls)
  obtain first pin maps where x: "x = (first, pin, maps)" by (cases x)
  have pin: "input_ok arch page pin" using Cons.prems(1) x by simp
  have "\<exists>result s'. (if first then bootstrap arch pin maps s else sampler_poll arch pin maps s) = Some (result, s')
      \<and> sampler_ok arch page s' \<and> epochs_ok (Suc n) s'"
  proof -
    let ?s = "if first then s\<lparr>sa_next_ptrace := None\<rparr> else s"
    have s: "sampler_ok arch page ?s" "epochs_ok n ?s" using Cons.prems(2,3) by (auto simp: sampler_ok_def epochs_ok_def contexts_def)
    obtain result s' s1 where p: "sampler_poll arch pin maps ?s = Some (result, s')" "s1 = ?s \<or> s1 = refresh_context maps ?s" "call_ok arch page s1 s'"
      by (rule sampler_poll_ok [OF pin s(1)]) blast
    have e: "epochs_ok (Suc n) s'" by (rule epochs_ok_step [OF p(2,3) s(2)]) (use Cons.prems(4) in simp)
    have ok: "sampler_ok arch page s'" using p(3) by (simp add: call_ok_def)
    show ?thesis
    proof (cases "first \<and> result = Inr ()")
      case True
      obtain result2 s2 where c: "capture_ptrace arch pin maps s' = Some (result2, s2)" "call_ok arch page s' s2" by (rule capture_ptrace_ok [OF pin ok]) blast
      then have "epochs_ok (Suc n) s2" using e epochs_ok_mono by (auto simp: call_ok_def)
      then show ?thesis using True p(1) c by (auto simp: bootstrap_def call_ok_def)
    next
      case False
      then show ?thesis using p(1) e ok by (cases result) (auto simp: bootstrap_def split: if_splits)
    qed
  qed
  then obtain result s' where "(if first then bootstrap arch pin maps s else sampler_poll arch pin maps s) = Some (result, s')"
      "sampler_ok arch page s'" "epochs_ok (Suc n) s'" by blast
  moreover from this Cons.IH [of s' "Suc n"] Cons.prems(1,4)
  obtain s'' where "sampler_run arch calls s' = Some s''" "sampler_ok arch page s''" "epochs_ok (Suc n + length calls) s''" by auto
  ultimately show ?case by (simp add: x)
qed simp

lemma sampler_new_ok: "sampler_ok arch page (Sampler_new header)" "epochs_ok 0 (Sampler_new header)"
  by (simp_all add: sampler_ok_def epochs_ok_def Sampler_new_def contexts_def bt_ok_def)

section \<open>The mappings of the samples\<close>

lemma mapping_snapshots_spec:
  assumes "inj_on ms_epoch (contexts s)"
  shows "set (mapping_snapshots s) = {c. \<exists>(tid, th)\<in>set (sa_threads s). ls_context (th_latest th) = Some c}"
    "distinct (map ms_epoch (mapping_snapshots s))"
proof -
  let ?step = "\<lambda>(_ :: int, thread) m. case ls_context (th_latest thread) of None \<Rightarrow> m
    | Some c \<Rightarrow> if map_of m (ms_epoch c) = None then bt_insert (ms_epoch c) c m else m"
  let ?of = "\<lambda>ts. {(ms_epoch c, c) |c. \<exists>x\<in>set ts. ls_context (th_latest (snd x)) = Some c}"
  have "bt_ok (fold ?step ts m) \<and> set (fold ?step ts m) = set m \<union> ?of ts"
    if "bt_ok m" "set m \<subseteq> (\<lambda>c. (ms_epoch c, c)) ` contexts s" "set ts \<subseteq> set (sa_threads s)" for ts m
    using that
  proof (induction ts arbitrary: m)
    case (Cons x ts)
    obtain tid th where x: "x = (tid, th)" by (cases x)
    have "bt_ok (?step x m) \<and> set (?step x m) = set m \<union> ?of [x]"
    proof (cases "ls_context (th_latest th)")
      case None
      then show ?thesis using Cons.prems(1) by (simp add: x)
    next
      case (Some c)
      have c: "c \<in> contexts s" using thread_context [of tid th s c] Some Cons.prems(3) by (simp add: x)
      show ?thesis
      proof (cases "map_of m (ms_epoch c)")
        case None
        have "set (bt_insert k v t) = insert (k, v) (set t)" if "k \<notin> fst ` set t" for k :: u64 and v :: MappingSnapshot and t
          using that by (induction k v t rule: bt_insert.induct) auto
        then show ?thesis using None Some bt.valid_insert [OF Cons.prems(1)] by (auto simp: x map_of_eq_None_iff)
      next
        case c': (Some c')
        then have "(ms_epoch c, c') \<in> set m" by (rule map_of_SomeD)
        then have "c' \<in> contexts s" "ms_epoch c' = ms_epoch c" using Cons.prems(2) by auto
        then have "c' = c" using inj_onD [OF assms] c by blast
        then show ?thesis using Some c' Cons.prems(1) map_of_SomeD [OF c'] by (auto simp: x)
      qed
    qed
    moreover have "set m \<union> ?of [x] \<subseteq> (\<lambda>c. (ms_epoch c, c)) ` contexts s" using Cons.prems(2,3) thread_context by (auto simp: x)
    ultimately show ?case using Cons.IH [of "?step x m"] Cons.prems(3) by auto
  qed simp
  from this [of "[]" "sa_threads s"] have fold: "bt_ok (fold ?step (sa_threads s) [])" "set (fold ?step (sa_threads s) []) = ?of (sa_threads s)"
    by (simp_all add: bt_ok_def)
  have snap: "mapping_snapshots s = map snd (fold ?step (sa_threads s) [])" by (simp add: mapping_snapshots_def)
  show "set (mapping_snapshots s) = {c. \<exists>(tid, th)\<in>set (sa_threads s). ls_context (th_latest th) = Some c}"
    unfolding snap using fold(2) by force
  have "map ms_epoch (mapping_snapshots s) = map fst (fold ?step (sa_threads s) [])"
    unfolding snap map_map by (rule map_cong) (use fold(2) in auto)
  then show "distinct (map ms_epoch (mapping_snapshots s))" using bt_ok_distinct [OF fold(1)] by simp
qed

lemma latest_tids:
  assumes "sampler_ok arch page s"
  shows "distinct (map ls_tid (latest now s))"
proof -
  have "map ls_tid (latest now s) = map word_of_int (map fst (sa_threads s))"
    using assms by (auto simp: latest_def sampler_ok_def thread_ok_def latest_ok_def)
  moreover have "inj_on (word_of_int :: int \<Rightarrow> i32) (set (map fst (sa_threads s)))"
  proof (rule inj_onI)
    fix a b
    assume "a \<in> set (map fst (sa_threads s))" "b \<in> set (map fst (sa_threads s))" "(word_of_int a :: i32) = word_of_int b"
    moreover from this obtain v w :: i32 where "a = sint v" "b = sint w" using assms by (fastforce simp: sampler_ok_def)
    ultimately show "a = b" by simp
  qed
  moreover have "distinct (map fst (sa_threads s))" using assms bt_ok_distinct by (auto simp: sampler_ok_def)
  ultimately show ?thesis by (metis distinct_map)
qed


text \<open>
  C17: A sample is never replaced by an older one. While a thread lives, a poll leaves it a sample at least as recent as the one
  it had, and with the same time it is the same sample; after a poll that succeeds, the threads of the sampler are those of
  the process.
\<close>

theorem sampler_advances:
  assumes "\<forall>(first, pin, maps)\<in>set calls. input_ok arch page pin" "length calls < 2 ^ 64" "sampler_run arch calls (Sampler_new header) = Some s"
    and "input_ok arch page pin" "sampler_poll arch pin maps s = Some (result, s')"
  shows "(\<forall>tid th th'. map_of (sa_threads s) tid = Some th \<longrightarrow> map_of (sa_threads s') tid = Some th' \<longrightarrow> th_start_time th' = th_start_time th \<longrightarrow> newer th th')
    \<and> (result = Inr () \<longrightarrow> fst ` set (sa_threads s') = sint ` {tid \<in> set (the (pi_tids pin)). pi_stat pin tid \<noteq> None})"
proof -
  have "sampler_ok arch page s" using sampler_run_ok [OF assms(1) sampler_new_ok, of header] assms(2,3) by auto
  then show ?thesis
    by (rule sampler_poll_ok [OF assms(4), of s maps]) (use assms(5) in \<open>auto simp: advances_def\<close>)
qed

section \<open>A process with one thread\<close>

text \<open>Perf events are not permitted, and stopping the thread fails: the thread is listed with its errors.\<close>

definition plain_surroundings :: surroundings where
  "plain_surroundings = \<lparr>su_now = 10, su_timestamp = 20, su_memory = (\<lambda>_ _. Inl PrivacyMode)\<rparr>"

definition plain_input :: poll_input where
  "plain_input = \<lparr>pi_texts = \<lparr>tx_perf = (\<lambda>_. lit ''denied''), tx_memory = (\<lambda>_. []), tx_ptrace = (\<lambda>_. lit ''failed'')\<rparr>, pi_privacy = False,
     pi_before = True, pi_tids = Some [7], pi_stat = (\<lambda>_. Some 3), pi_open = (\<lambda>_. Inl PerfEventOpen), pi_context_switch = (\<lambda>_. Inl PerfEventOpen),
     pi_ring = (\<lambda>_. []), pi_switch_ring = (\<lambda>_. []), pi_surroundings = (\<lambda>_. plain_surroundings), pi_instant = 0,
     pi_sweep = \<lparr>sw_script = (\<lambda>_. failing_capture), sw_surroundings = (\<lambda>_. plain_surroundings), sw_done = 5, sw_identity = True\<rparr>, pi_after = True\<rparr>"

lemma plain_input_ok: "input_ok X86_64 0 plain_input"
  by (simp add: input_ok_def plain_input_def script_ok_def failing_capture_def regset_for_def)


lemma plain_poll: "\<exists>s'. sampler_poll X86_64 plain_input [] (Sampler_new None) = Some (Inr (), s')"
  by (simp add: sampler_poll_def plain_input_def Sampler_new_def refresh_context_def poll_thread_def find_thread_def new_thread_def
      drain_event_def Let_def)

theorem sampler_advances_witness:
  "\<exists>s'. sampler_poll X86_64 plain_input [] (Sampler_new None) = Some (Inr (), s') \<and> fst ` set (sa_threads s') = {7}"
proof -
  obtain s' where p: "sampler_poll X86_64 plain_input [] (Sampler_new None) = Some (Inr (), s')" using plain_poll by blast
  have "\<forall>(first, pin, maps)\<in>set []. input_ok X86_64 0 pin" by simp
  from sampler_advances [OF this _ _ plain_input_ok p, of None] show ?thesis using p by (auto simp: plain_input_def)
qed

end
