(* ===== verification/Pci_Topology.thy ===== *)
theory Pci_Topology
  imports Ipc_Hardware Text Str_Order Hash_Map "HOL-Library.Product_Lexorder" "HOL-Library.Monad_Syntax"
begin

text \<open>
  The PCI topology that the server builds from the sysfs attributes the helper acquired
  (\<open>src/http_server/analysis/hardware/pci.rs\<close> and the sources of
  \<open>src/http_server/analysis/hardware/observation.rs\<close>). A path is its text; two paths are equal when their components
  are. Floating-point numbers are their bits; parsing and rounding arithmetic on them are the argument \<open>fl\<close>.
\<close>

unbundle bit_operations_syntax

section \<open>Paths\<close>

definition slash :: uchar where "slash = ch CHR ''/''"

text \<open>\<open>Path::components\<close>, each as its text: the root, a leading \<open>.\<close>, and the names.\<close>

definition path_components :: "rstring \<Rightarrow> rstring list" where
  "path_components s =
     (let ps = split_char slash s in
      (if s \<noteq> [] \<and> hd s = slash then [[slash]] else if hd ps = lit ''.'' then [lit ''.''] else [])
      @ filter (\<lambda>p. p \<noteq> [] \<and> p \<noteq> lit ''.'') ps)"

text \<open>\<open>Path::join\<close> and \<open>PathBuf::push\<close>.\<close>

definition path_join :: "rstring \<Rightarrow> rstring \<Rightarrow> rstring" where
  "path_join a b =
     (if b \<noteq> [] \<and> hd b = slash then b
      else if a = [] \<or> last a = slash then a @ b else a @ slash # b)"

definition file_name :: "rstring \<Rightarrow> rstring option" where
  "file_name p =
     (let cs = path_components p in
      if cs = [] \<or> last cs \<in> {[slash], lit ''.'', lit ''..''} then None else Some (last cs))"

section \<open>Sources\<close>

record HardwareSources =
  hs_sys :: rstring
  hs_proc :: rstring
  hs_texts :: "(rstring \<times> rstring) list"
  hs_directories :: "(rstring \<times> rstring list) list"
  hs_links :: "(rstring \<times> rstring) list"

definition HardwareSources_at :: "rstring \<Rightarrow> rstring \<Rightarrow> HardwareFiles \<Rightarrow> HardwareSources" where
  "HardwareSources_at sys proc files = \<lparr>hs_sys = sys, hs_proc = proc, hs_texts = hwf_texts files,
     hs_directories = hwf_directories files, hs_links = hwf_links files\<rparr>"

definition HardwareSources_acquired :: "HardwareFiles \<Rightarrow> HardwareSources" where
  "HardwareSources_acquired files = HardwareSources_at (lit ''/sys'') (lit ''/proc'') files"

text \<open>A lookup in one of the maps: the last entry of an equal path.\<close>

definition at_path :: "(rstring \<times> 'v) list \<Rightarrow> rstring \<Rightarrow> 'v option" where
  "at_path entries p = map_of (rev (map (\<lambda>(k, v). (path_components k, v)) entries)) (path_components p)"

definition source_text :: "HardwareSources \<Rightarrow> rstring \<Rightarrow> rstring option" where
  "source_text s p = Option.bind (at_path (hs_texts s) p) (\<lambda>v. if trim v \<noteq> [] then Some (trim v) else None)"

definition source_names :: "HardwareSources \<Rightarrow> rstring \<Rightarrow> rstring list" where
  "source_names s p = (case at_path (hs_directories s) p of Some ns \<Rightarrow> ns | None \<Rightarrow> [])"

definition source_link :: "HardwareSources \<Rightarrow> rstring \<Rightarrow> rstring option" where
  "source_link s p = at_path (hs_links s) p"

definition source_is_dir :: "HardwareSources \<Rightarrow> rstring \<Rightarrow> bool" where
  "source_is_dir s p \<longleftrightarrow> at_path (hs_directories s) p \<noteq> None"

section \<open>Attributes\<close>

text \<open>\<open>trim_start_matches("0x")\<close>.\<close>

fun trim_0x :: "rstring \<Rightarrow> rstring" where
  "trim_0x (a # b # s) = (if a = ch CHR ''0'' \<and> b = ch CHR ''x'' then trim_0x s else a # b # s)"
| "trim_0x s = s"

definition read_sysfs_hex :: "HardwareSources \<Rightarrow> rstring \<Rightarrow> u32 option" where
  "read_sysfs_hex s p = Option.bind (source_text s p) (\<lambda>t. hex_u32 (trim_0x t))"

definition hexdigit_byte :: "byte \<Rightarrow> bool" where
  "hexdigit_byte b \<longleftrightarrow> 48 \<le> b \<and> b \<le> 57 \<or> 97 \<le> b \<and> b \<le> 102 \<or> 65 \<le> b \<and> b \<le> 70"

definition is_function_address :: "rstring \<Rightarrow> bool" where
  "is_function_address name \<longleftrightarrow>
     (let bytes = as_bytes name; n = length bytes in
      12 \<le> n \<and> bytes ! (n - 2) = 0x2E \<and> bytes ! (n - 5) = 0x3A \<and> bytes ! (n - 8) = 0x3A
      \<and> list_all (\<lambda>b. hexdigit_byte b \<or> b = 0x3A \<or> b = 0x2E) bytes)"

definition starts_with :: "rstring \<Rightarrow> rstring \<Rightarrow> bool" where
  "starts_with s p \<longleftrightarrow> take (length p) s = p"

definition is_host_bridge :: "rstring \<Rightarrow> bool" where
  "is_host_bridge name \<longleftrightarrow> starts_with name (lit ''pci'')
     \<and> (let rest = drop 3 name in ch CHR '':'' \<in> set rest \<and> list_all (\<lambda>b. hexdigit_byte b \<or> b = 0x3A) (as_bytes rest))"

record float_ops =
  fl_parse :: "rstring \<Rightarrow> f64 option"
  fl_mul :: "f64 \<Rightarrow> f64 \<Rightarrow> f64"
  fl_div :: "f64 \<Rightarrow> f64 \<Rightarrow> f64"
  fl_of_u32 :: "u32 \<Rightarrow> f64"

text \<open>Comparisons of binary64 numbers on their bits.\<close>

definition f64_is_nan :: "f64 \<Rightarrow> bool" where
  "f64_is_nan x \<longleftrightarrow> 0x7FF0000000000000 < (x AND 0x7FFFFFFFFFFFFFFF)"

text \<open>\<open>f64::total_cmp\<close> compares the bits as signed numbers, those of negative numbers complemented.\<close>

definition total_key :: "f64 \<Rightarrow> int" where
  "total_key x = (if sint x < 0 then sint (x XOR 0x7FFFFFFFFFFFFFFF) else sint x)"

definition f64_le :: "f64 \<Rightarrow> f64 \<Rightarrow> bool" where
  "f64_le x y \<longleftrightarrow> \<not> f64_is_nan x \<and> \<not> f64_is_nan y
     \<and> (total_key x \<le> total_key y \<or> (x AND 0x7FFFFFFFFFFFFFFF) = 0 \<and> (y AND 0x7FFFFFFFFFFFFFFF) = 0)"

definition f64_positive :: "f64 \<Rightarrow> bool" where
  "f64_positive x \<longleftrightarrow> \<not> f64_le x 0 \<and> \<not> f64_is_nan x"

definition read_pcie_link_speed :: "float_ops \<Rightarrow> HardwareSources \<Rightarrow> rstring \<Rightarrow> f64 option" where
  "read_pcie_link_speed fl s p =
     Option.bind (source_text s p) (\<lambda>t.
     case split_whitespace t of
       [] \<Rightarrow> None
     | w # _ \<Rightarrow> Option.bind (fl_parse fl w) (\<lambda>x. if f64_positive x then Some x else None))"

definition read_pcie_link :: "float_ops \<Rightarrow> HardwareSources \<Rightarrow> rstring \<Rightarrow> string \<Rightarrow> PcieLink option" where
  "read_pcie_link fl s dir kind =
     Option.bind (Option.bind (source_text s (path_join dir (lit kind @ lit ''_link_width''))) parse_u32) (\<lambda>width.
     Option.bind (read_pcie_link_speed fl s (path_join dir (lit kind @ lit ''_link_speed''))) (\<lambda>speed.
     if 0 < width then Some \<lparr>link_speed_gts = speed, link_width = width\<rparr> else None))"

definition IORESOURCE_MEM :: u64 where "IORESOURCE_MEM = 0x200"
definition IORESOURCE_PREFETCH :: u64 where "IORESOURCE_PREFETCH = 0x2000"

definition bar_line :: "nat \<times> rstring \<Rightarrow> BarInfo option" where
  "bar_line = (\<lambda>(index, line).
     case those (map (\<lambda>f. hex_u64 (trim_0x f)) (split_whitespace line)) of
       Some [start, stop, flags] \<Rightarrow>
         if start < stop \<and> flags AND IORESOURCE_MEM \<noteq> 0
         then Some \<lparr>bar_index = word_of_nat index, bar_bytes = stop - start + 1, bar_prefetchable = flags AND IORESOURCE_PREFETCH \<noteq> 0\<rparr>
         else None
     | _ \<Rightarrow> None)"

definition read_pci_bar_sizes :: "HardwareSources \<Rightarrow> rstring \<Rightarrow> BarInfo list" where
  "read_pci_bar_sizes s dir =
     (let text = (case source_text s (path_join dir (lit ''resource'')) of Some t \<Rightarrow> t | None \<Rightarrow> []) in
      List.map_filter bar_line (enumerate 0 (take 6 (text_lines text))))"

definition ASPEED :: u32 where "ASPEED = 0x1a03"
definition MATROX :: u32 where "MATROX = 0x102b"
definition NVIDIA :: u32 where "NVIDIA = 0x10de"

definition classify_pci_device :: "HardwareSources \<Rightarrow> rstring \<Rightarrow> u32 \<Rightarrow> u32 option \<Rightarrow> HardwareKind option" where
  "classify_pci_device s dir dev_class vendor =
     (let c = drop_bit 8 dev_class in
      if source_is_dir s (path_join dir (lit ''infiniband'')) \<or> c = 0x0c06 then Some HardwareKind.Rdma
      else if (c = 0x0300 \<or> c = 0x0302) \<and> vendor \<noteq> Some ASPEED \<and> vendor \<noteq> Some MATROX then Some HardwareKind.Gpu
      else if 0x1200 \<le> c \<and> c \<le> 0x12ff then Some HardwareKind.Accelerator
      else if c = 0x0680 \<and> vendor = Some NVIDIA then Some HardwareKind.NvSwitch
      else None)"

section \<open>Nodes\<close>

record PciNode =
  pn_address :: rstring
  pn_parent :: "rstring option"
  pn_role :: HardwareRole
  pn_kind :: "HardwareKind option"
  pn_path :: rstring
  pn_class :: "u32 option"
  pn_vendor_id :: "u32 option"
  pn_device_id :: "u32 option"
  pn_driver :: "rstring option"
  pn_numa_node :: "u32 option"
  pn_link :: "PcieLinkInfo option"
  pn_power_state :: "rstring option"
  pn_runtime_status :: "rstring option"
  pn_iommu_group :: "u32 option"
  pn_bars :: "BarInfo list"

definition node_role :: "rstring \<Rightarrow> HardwareKind option \<Rightarrow> rstring option \<Rightarrow> HardwareRole" where
  "node_role address kind parent =
     (if is_host_bridge address then HardwareRole.HostBridge
      else if kind \<noteq> None then HardwareRole.Endpoint
      else if (case parent of Some p \<Rightarrow> is_host_bridge p | None \<Rightarrow> False) then HardwareRole.RootPort
      else HardwareRole.SwitchPort)"

definition build_pci_node ::
  "float_ops \<Rightarrow> HardwareSources \<Rightarrow> rstring \<Rightarrow> rstring option \<Rightarrow> rstring \<Rightarrow> HardwareKind option \<Rightarrow> PciNode"
where
  "build_pci_node fl s address parent dir kind =
     (let host = is_host_bridge address;
          runtime_status = source_text s (path_join dir (lit ''power/runtime_status''));
          awake = runtime_status \<noteq> Some (lit ''suspended'') in
      \<lparr>pn_address = address, pn_parent = parent, pn_role = node_role address kind parent, pn_kind = kind, pn_path = dir,
       pn_class = (if \<not> host then read_sysfs_hex s (path_join dir (lit ''class'')) else None),
       pn_vendor_id = (if \<not> host then read_sysfs_hex s (path_join dir (lit ''vendor'')) else None),
       pn_device_id = (if \<not> host then read_sysfs_hex s (path_join dir (lit ''device'')) else None),
       pn_driver = Option.bind (source_link s (path_join dir (lit ''driver''))) file_name,
       pn_numa_node = Option.bind (source_text s (path_join dir (lit ''numa_node''))) parse_u32,
       pn_link = (if \<not> host \<and> awake then Some \<lparr>pli_current = read_pcie_link fl s dir ''current'',
         pli_max = read_pcie_link fl s dir ''max''\<rparr> else None),
       pn_power_state = source_text s (path_join dir (lit ''power_state'')),
       pn_runtime_status = runtime_status,
       pn_iommu_group = Option.bind (Option.bind (source_link s (path_join dir (lit ''iommu_group''))) file_name) parse_u32,
       pn_bars = (if kind \<noteq> None then read_pci_bar_sizes s dir else [])\<rparr>)"

section \<open>Chains\<close>

type_synonym pci_chain = "(rstring \<times> rstring) list"

text \<open>The chain from the host bridge, each element with its directory.\<close>

definition chain_step :: "rstring \<Rightarrow> pci_chain \<times> rstring \<Rightarrow> pci_chain \<times> rstring" where
  "chain_step part = (\<lambda>(chain, base).
     let base = path_join base part in
     (if is_host_bridge part then [(part, base)]
      else if chain \<noteq> [] \<and> is_function_address part then chain @ [(part, base)] else chain, base))"

definition device_chain :: "rstring \<Rightarrow> pci_chain" where
  "device_chain dir = fst (fold chain_step (path_components dir) ([], []))"

definition device_of_name :: "HardwareSources \<Rightarrow> rstring \<Rightarrow> rstring \<Rightarrow> (pci_chain \<times> HardwareKind) option" where
  "device_of_name s sys name =
     Option.bind (source_link s (path_join (path_join sys (lit ''bus/pci/devices'')) name)) (\<lambda>dir.
     let dev_class = (case read_sysfs_hex s (path_join dir (lit ''class'')) of Some c \<Rightarrow> c | None \<Rightarrow> 0);
         vendor = read_sysfs_hex s (path_join dir (lit ''vendor'')) in
     Option.bind (classify_pci_device s dir dev_class vendor) (\<lambda>kind.
     let chain = device_chain dir in
     if chain \<noteq> [] \<and> fst (last chain) = name then Some (chain, kind) else None))"

definition device_chains :: "HardwareSources \<Rightarrow> rstring \<Rightarrow> (pci_chain \<times> HardwareKind) list" where
  "device_chains s sys = List.map_filter (device_of_name s sys) (source_names s (path_join sys (lit ''bus/pci/devices'')))"

section \<open>The topology\<close>

type_synonym nodes = "(rstring \<times> PciNode) list \<times> rstring list"

definition insert_node :: "float_ops \<Rightarrow> HardwareSources \<Rightarrow> pci_chain \<times> HardwareKind \<Rightarrow> nat \<Rightarrow> nodes \<Rightarrow> nodes" where
  "insert_node fl s = (\<lambda>(chain, kind) index (nodes, order).
     let (address, dir) = chain ! index;
         endpoint = (index + 1 = length chain) in
     if (case map_of nodes address of Some n \<Rightarrow> \<not> endpoint \<or> pn_kind n \<noteq> None | None \<Rightarrow> False) then (nodes, order)
     else
       (AList.update address (build_pci_node fl s address (if index = 0 then None else Some (fst (chain ! (index - 1)))) dir
          (if endpoint then Some kind else None)) nodes,
        if map_of nodes address = None then order @ [address] else order))"

definition insert_chain :: "float_ops \<Rightarrow> HardwareSources \<Rightarrow> pci_chain \<times> HardwareKind \<Rightarrow> nodes \<Rightarrow> nodes" where
  "insert_chain fl s ck st = fold (insert_node fl s ck) [0..<length (fst ck)] st"

definition topology_nodes :: "float_ops \<Rightarrow> HardwareSources \<Rightarrow> rstring \<Rightarrow> nodes" where
  "topology_nodes fl s sys = fold (insert_chain fl s) (device_chains s sys) ([], [])"

text \<open>The walk to the root; it need not end when the parents form a cycle.\<close>

partial_function (option) depth_from :: "PciNode list \<Rightarrow> rstring option \<Rightarrow> nat \<Rightarrow> nat option" where
  "depth_from all parent n =
     (case parent of
        None \<Rightarrow> Some n
      | Some p \<Rightarrow> depth_from all (Option.bind (find (\<lambda>m. pn_address m = p) all) pn_parent) (Suc n))"

definition read_topology :: "float_ops \<Rightarrow> HardwareSources \<Rightarrow> rstring \<Rightarrow> PciNode list option" where
  "read_topology fl s sys =
     (let (nodes, order) = topology_nodes fl s sys;
          result = List.map_filter (map_of nodes) order in
      map_option (\<lambda>depths. map snd (sort_key (\<lambda>(d, n). (d, pn_address n)) (zip depths result)))
        (those (map (\<lambda>n. depth_from result (pn_parent n) 0) result)))"

definition numa_range :: "rstring \<Rightarrow> usize option" where
  "numa_range item =
     (let (start, stop) = (case split_once (ch CHR ''-'') item of Some p \<Rightarrow> p | None \<Rightarrow> (item, item)) in
      Option.bind (parse_u64 stop) (\<lambda>stop. Option.bind (parse_u64 start) (\<lambda>start. Some (stop + 1 - start))))"

definition online_numa_nodes :: "HardwareSources \<Rightarrow> rstring \<Rightarrow> usize" where
  "online_numa_nodes s sys =
     (case source_text s (path_join sys (lit ''devices/system/node/online'')) of
        None \<Rightarrow> 1
      | Some ranges \<Rightarrow> sum_list (List.map_filter numa_range (split_char (ch CHR '','') ranges)))"

section \<open>Chains start at a host bridge\<close>

definition chain_ok :: "pci_chain \<Rightarrow> bool" where
  "chain_ok c \<longleftrightarrow> (\<forall>i<length c. is_host_bridge (fst (c ! i)) \<longleftrightarrow> i = 0)"

lemma chain_step_ok: "chain_ok c \<Longrightarrow> chain_ok (fst (chain_step part (c, base)))"
  by (auto simp: chain_ok_def chain_step_def Let_def nth_append less_Suc_eq)

lemma device_chain_ok: "chain_ok (device_chain dir)"
proof -
  have "chain_ok (fst (fold chain_step (path_components dir) ([], [])))"
    by (rule fold_invariant [where Q = "\<lambda>_. True"]) (auto simp: chain_step_ok chain_ok_def [of "[]"])
  then show ?thesis by (simp add: device_chain_def)
qed

lemma set_map_filter: "y \<in> set (List.map_filter f xs) \<longleftrightarrow> (\<exists>x\<in>set xs. f x = Some y)"
  by (induction xs) (auto simp: map_filter_simps split: option.splits)

lemma device_chains_ok:
  assumes "(c, k) \<in> set (device_chains s sys)"
  shows "chain_ok c" "c \<noteq> []"
  using assms device_chain_ok
  by (auto simp: device_chains_def set_map_filter device_of_name_def Let_def Option.bind_eq_Some_conv split: if_splits)

section \<open>The nodes of the chains\<close>

text \<open>A node stands for an element of a chain; a kind is that of the chain's device.\<close>

definition node_from :: "(pci_chain \<times> HardwareKind) set \<Rightarrow> PciNode \<Rightarrow> bool" where
  "node_from cks n \<longleftrightarrow> (\<exists>c k i. (c, k) \<in> cks \<and> i < length c \<and> pn_address n = fst (c ! i)
     \<and> pn_parent n = (if i = 0 then None else Some (fst (c ! (i - 1)))) \<and> pn_role n = node_role (pn_address n) (pn_kind n) (pn_parent n)
     \<and> (pn_kind n \<noteq> None \<longrightarrow> Suc i = length c \<and> pn_kind n = Some k))"

definition nodes_ok :: "(pci_chain \<times> HardwareKind) set \<Rightarrow> nodes \<Rightarrow> bool" where
  "nodes_ok cks = (\<lambda>(nodes, order). distinct order \<and> (\<forall>a. a \<in> set order \<longleftrightarrow> map_of nodes a \<noteq> None)
     \<and> (\<forall>a n. map_of nodes a = Some n \<longrightarrow> pn_address n = a \<and> node_from cks n))"

definition has_kind :: "nodes \<Rightarrow> rstring \<Rightarrow> bool" where
  "has_kind st a \<longleftrightarrow> (\<exists>n. map_of (fst st) a = Some n \<and> pn_kind n \<noteq> None)"

definition has_node :: "nodes \<Rightarrow> rstring \<Rightarrow> bool" where
  "has_node st a \<longleftrightarrow> map_of (fst st) a \<noteq> None"

lemma build_pci_node_fields [simp]:
  "pn_address (build_pci_node fl s a p d k) = a" "pn_parent (build_pci_node fl s a p d k) = p"
  "pn_kind (build_pci_node fl s a p d k) = k" "pn_role (build_pci_node fl s a p d k) = node_role a k p"
  by (simp_all add: build_pci_node_def Let_def)

lemma insert_node_ok:
  assumes "nodes_ok cks st" "(c, k) \<in> cks" "i < length c"
  shows "nodes_ok cks (insert_node fl s (c, k) i st)"
proof -
  obtain nodes order where st: "st = (nodes, order)" by (cases st)
  obtain a d where a: "c ! i = (a, d)" by (cases "c ! i")
  let ?n = "build_pci_node fl s a (if i = 0 then None else Some (fst (c ! (i - 1)))) d (if i + 1 = length c then Some k else None)"
  have "node_from cks ?n" unfolding node_from_def
    using assms(2,3) a by (intro exI [of _ c] exI [of _ k] exI [of _ i]) simp
  then show ?thesis using assms(1) a
    by (auto simp: st nodes_ok_def insert_node_def Let_def update_conv' split: option.splits)
qed

lemma insert_node_done:
  assumes "i < length c"
  shows "has_node (insert_node fl s (c, k) i st) (fst (c ! i))"
    "Suc i = length c \<Longrightarrow> has_kind (insert_node fl s (c, k) i st) (fst (c ! i))"
  by (cases st; cases "c ! i"; auto simp: has_node_def has_kind_def insert_node_def Let_def update_conv' split: option.splits)+

lemma insert_node_mono:
  "has_node st a \<Longrightarrow> has_node (insert_node fl s ck i st) a" "has_kind st a \<Longrightarrow> has_kind (insert_node fl s ck i st) a"
  by (cases st; cases ck; cases "fst ck ! i"; auto simp: has_node_def has_kind_def insert_node_def Let_def update_conv' split: option.splits)+

lemma insert_chain_ok:
  assumes "nodes_ok cks st" "(c, k) \<in> cks"
  shows "nodes_ok cks (insert_chain fl s (c, k) st)"
proof -
  have "nodes_ok cks (fold (insert_node fl s (c, k)) [0..<length c] st)"
    by (rule fold_invariant [where Q = "\<lambda>i. i < length c"]) (use assms insert_node_ok in auto)
  then show ?thesis by (simp add: insert_chain_def)
qed

lemma insert_nodes_mono:
  "has_node st a \<Longrightarrow> has_node (fold (insert_node fl s ck) is st) a" "has_kind st a \<Longrightarrow> has_kind (fold (insert_node fl s ck) is st) a"
  by (erule fold_invariant [where Q = "\<lambda>_. True", rotated]; simp add: insert_node_mono)+

lemma insert_chains_mono:
  "has_node st a \<Longrightarrow> has_node (fold (insert_chain fl s) cks st) a" "has_kind st a \<Longrightarrow> has_kind (fold (insert_chain fl s) cks st) a"
  by (erule fold_invariant [where Q = "\<lambda>_. True", rotated]; simp add: insert_chain_def insert_nodes_mono)+

lemma insert_chain_done:
  assumes "i < length c"
  shows "has_node (insert_chain fl s (c, k) st) (fst (c ! i))" "Suc i = length c \<Longrightarrow> has_kind (insert_chain fl s (c, k) st) (fst (c ! i))"
proof -
  let ?ins = "insert_node fl s (c, k)"
  have "[0..<length c] = [0..<i] @ i # [Suc i..<length c]" using assms
    by (metis le_add_diff_inverse less_imp_le_nat upt_add_eq_append upt_conv_Cons zero_le)
  then have eq: "insert_chain fl s (c, k) st = fold ?ins [Suc i..<length c] (?ins i (fold ?ins [0..<i] st))" by (simp add: insert_chain_def)
  show "has_node (insert_chain fl s (c, k) st) (fst (c ! i))" "Suc i = length c \<Longrightarrow> has_kind (insert_chain fl s (c, k) st) (fst (c ! i))"
    unfolding eq using insert_nodes_mono insert_node_done [OF assms] by blast+
qed

lemma topology_nodes_ok:
  "nodes_ok (set (device_chains s sys)) (topology_nodes fl s sys)"
  "(c, k) \<in> set (device_chains s sys) \<Longrightarrow> i < length c \<Longrightarrow> has_node (topology_nodes fl s sys) (fst (c ! i))"
  "(c, k) \<in> set (device_chains s sys) \<Longrightarrow> has_kind (topology_nodes fl s sys) (fst (last c))"
proof -
  let ?fold = "fold (insert_chain fl s)"
  show "nodes_ok (set (device_chains s sys)) (topology_nodes fl s sys)"
    unfolding topology_nodes_def
    by (rule fold_invariant [where Q = "\<lambda>ck. ck \<in> set (device_chains s sys)"]) (auto simp: insert_chain_ok, simp add: nodes_ok_def)
  have all: "(c, k) \<in> set xs \<Longrightarrow> i < length c \<Longrightarrow> has_node (?fold xs st) (fst (c ! i)) \<and> (Suc i = length c \<longrightarrow> has_kind (?fold xs st) (fst (c ! i)))" for xs st i
  proof (induction xs arbitrary: st)
    case (Cons x xs)
    show ?case
    proof (cases "x = (c, k)")
      case True
      then show ?thesis using insert_chain_done [OF Cons.prems(2)] insert_chains_mono by simp
    qed (use Cons in auto)
  qed simp
  show "(c, k) \<in> set (device_chains s sys) \<Longrightarrow> i < length c \<Longrightarrow> has_node (topology_nodes fl s sys) (fst (c ! i))"
    using all by (simp add: topology_nodes_def)
  assume c: "(c, k) \<in> set (device_chains s sys)"
  from device_chains_ok(2) [OF this] have "length c - 1 < length c" "Suc (length c - 1) = length c" "last c = c ! (length c - 1)"
    by (simp_all add: last_conv_nth)
  with all [OF c] show "has_kind (topology_nodes fl s sys) (fst (last c))" by (simp add: topology_nodes_def)
qed

section \<open>The topology is a forest\<close>

text \<open>
  sysfs is a tree in which an address has one place: wherever it occurs in a chain, the addresses above it are the same.
\<close>

definition one_tree :: "(pci_chain \<times> HardwareKind) set \<Rightarrow> bool" where
  "one_tree cks \<longleftrightarrow> (\<forall>c\<in>fst ` cks. \<forall>c'\<in>fst ` cks. \<forall>i<length c. \<forall>j<length c'. fst (c ! i) = fst (c' ! j) \<longrightarrow>
     map fst (take (Suc i) c) = map fst (take (Suc j) c'))"

lemma one_treeD:
  "one_tree cks \<Longrightarrow> (c, k) \<in> cks \<Longrightarrow> (c', k') \<in> cks \<Longrightarrow> i < length c \<Longrightarrow> j < length c' \<Longrightarrow> fst (c ! i) = fst (c' ! j) \<Longrightarrow>
   map fst (take (Suc i) c) = map fst (take (Suc j) c')"
  using imageI [of "(c, k)" cks fst] imageI [of "(c', k')" cks fst] unfolding one_tree_def fst_conv by blast

definition forest :: "PciNode list \<Rightarrow> bool" where
  "forest nodes \<longleftrightarrow> distinct (map pn_address nodes)
     \<and> (\<forall>x<length nodes. case pn_parent (nodes ! x) of None \<Rightarrow> True | Some p \<Rightarrow> \<exists>y<x. pn_address (nodes ! y) = p)"

definition all_nodes :: "float_ops \<Rightarrow> HardwareSources \<Rightarrow> rstring \<Rightarrow> PciNode list" where
  "all_nodes fl s sys = (case topology_nodes fl s sys of (nodes, order) \<Rightarrow> List.map_filter (map_of nodes) order)"

lemma all_nodes_ok:
  shows "distinct (map pn_address (all_nodes fl s sys))"
    "n \<in> set (all_nodes fl s sys) \<Longrightarrow> node_from (set (device_chains s sys)) n"
    "has_node (topology_nodes fl s sys) a \<Longrightarrow> \<exists>n\<in>set (all_nodes fl s sys). pn_address n = a"
    "has_kind (topology_nodes fl s sys) a \<Longrightarrow> \<exists>n\<in>set (all_nodes fl s sys). pn_address n = a \<and> pn_kind n \<noteq> None"
proof -
  obtain nodes order where st: "topology_nodes fl s sys = (nodes, order)" by (cases "topology_nodes fl s sys")
  have ok: "distinct order" "\<And>a. a \<in> set order \<longleftrightarrow> map_of nodes a \<noteq> None"
      "\<And>a n. map_of nodes a = Some n \<Longrightarrow> pn_address n = a \<and> node_from (set (device_chains s sys)) n"
    using topology_nodes_ok(1) [of s sys fl] by (auto simp: st nodes_ok_def)
  have eq: "List.map_filter (map_of nodes) as = map (\<lambda>a. the (map_of nodes a)) as" if "set as \<subseteq> set order" for as
    using that by (induction as) (auto simp: map_filter_simps ok(2))
  have all: "all_nodes fl s sys = map (\<lambda>a. the (map_of nodes a)) order" by (simp add: all_nodes_def st eq)
  have "map pn_address (all_nodes fl s sys) = order"
    unfolding all map_map by (rule map_idI) (use ok(2,3) in force)
  then show "distinct (map pn_address (all_nodes fl s sys))" using ok(1) by simp
  show "n \<in> set (all_nodes fl s sys) \<Longrightarrow> node_from (set (device_chains s sys)) n"
    using ok(2,3) by (force simp: all)
  show "has_node (topology_nodes fl s sys) a \<Longrightarrow> \<exists>n\<in>set (all_nodes fl s sys). pn_address n = a"
    using ok(2) [of a] ok(3) [of a] by (force simp: all has_node_def st)
  show "has_kind (topology_nodes fl s sys) a \<Longrightarrow> \<exists>n\<in>set (all_nodes fl s sys). pn_address n = a \<and> pn_kind n \<noteq> None"
    using ok(2) [of a] ok(3) [of a] by (force simp: all has_kind_def st)
qed

lemma find_address:
  assumes "distinct (map pn_address ns)" "n \<in> set ns"
  shows "find (\<lambda>m. pn_address m = pn_address n) ns = Some n"
  using assms by (induction ns) auto

definition node_at :: "(pci_chain \<times> HardwareKind) set \<Rightarrow> PciNode \<Rightarrow> nat \<Rightarrow> bool" where
  "node_at cks n i \<longleftrightarrow> (\<exists>(c, k)\<in>cks. i < length c \<and> pn_address n = fst (c ! i) \<and> pn_parent n = (if i = 0 then None else Some (fst (c ! (i - 1)))))"

lemma node_atI:
  "(c, k) \<in> cks \<Longrightarrow> i < length c \<Longrightarrow> pn_address n = fst (c ! i) \<Longrightarrow> pn_parent n = (if i = 0 then None else Some (fst (c ! (i - 1))))
   \<Longrightarrow> node_at cks n i"
  unfolding node_at_def by (rule bexI [of _ "(c, k)"]) simp_all

lemma node_from_at: "node_from cks n \<Longrightarrow> \<exists>i. node_at cks n i"
  unfolding node_from_def by (elim exE conjE) (rule exI, rule node_atI; assumption)

lemma node_at_unique:
  assumes "one_tree cks" "node_at cks n i" "node_at cks m j" "pn_address n = pn_address m"
  shows "i = j"
proof -
  obtain c k where c: "(c, k) \<in> cks" "i < length c" "pn_address n = fst (c ! i)" using assms(2) by (auto simp: node_at_def)
  obtain c' k' where c': "(c', k') \<in> cks" "j < length c'" "pn_address m = fst (c' ! j)" using assms(3) by (auto simp: node_at_def)
  have "fst (c ! i) = fst (c' ! j)" using assms(4) c(3) c'(3) by simp
  then have "map fst (take (Suc i) c) = map fst (take (Suc j) c')" using one_treeD [OF assms(1) c(1) c'(1) c(2) c'(2)] by blast
  then have "length (take (Suc i) c) = length (take (Suc j) c')" by (metis length_map)
  then show ?thesis using c c' by simp
qed

text \<open>The parent of a node is the node one step up.\<close>

lemma parent_node:
  assumes "one_tree (set (device_chains s sys))" "n \<in> set (all_nodes fl s sys)" "node_at (set (device_chains s sys)) n (Suc i)"
  obtains m where "m \<in> set (all_nodes fl s sys)" "pn_parent n = Some (pn_address m)" "node_at (set (device_chains s sys)) m i"
    "find (\<lambda>m'. pn_address m' = pn_address m) (all_nodes fl s sys) = Some m"
proof -
  let ?cks = "set (device_chains s sys)"
  obtain c k where c: "(c, k) \<in> ?cks" "Suc i < length c" "pn_parent n = Some (fst (c ! i))" using assms(3) by (auto simp: node_at_def)
  then obtain m where m: "m \<in> set (all_nodes fl s sys)" "pn_address m = fst (c ! i)"
    using all_nodes_ok(3) [OF topology_nodes_ok(2) [OF c(1), of i]] by auto
  obtain j where j: "node_at ?cks m j" using node_from_at [OF all_nodes_ok(2) [OF m(1)]] by blast
  let ?c = "\<lparr>pn_address = fst (c ! i), pn_parent = (if i = 0 then None else Some (fst (c ! (i - 1)))), pn_role = pn_role m, pn_kind = None,
      pn_path = [], pn_class = None, pn_vendor_id = None, pn_device_id = None, pn_driver = None, pn_numa_node = None, pn_link = None,
      pn_power_state = None, pn_runtime_status = None, pn_iommu_group = None, pn_bars = []\<rparr>"
  have "node_at ?cks ?c i" by (rule node_atI [OF c(1)]) (use c(2) in simp_all)
  then have "j = i" using node_at_unique [OF assms(1) j] m(2) by simp
  then show thesis using that m c(3) j find_address [OF all_nodes_ok(1) m(1)] by simp
qed

lemma depth_from_node:
  assumes "one_tree (set (device_chains s sys))"
  shows "n \<in> set (all_nodes fl s sys) \<Longrightarrow> node_at (set (device_chains s sys)) n i \<Longrightarrow>
    depth_from (all_nodes fl s sys) (pn_parent n) k = Some (k + i)"
proof (induction i arbitrary: n k)
  case 0
  then have "pn_parent n = None" by (auto simp: node_at_def)
  then show ?case by (simp add: depth_from.simps)
next
  case (Suc i)
  then obtain m where m: "m \<in> set (all_nodes fl s sys)" "pn_parent n = Some (pn_address m)" "node_at (set (device_chains s sys)) m i"
      "find (\<lambda>m'. pn_address m' = pn_address m) (all_nodes fl s sys) = Some m"
    using parent_node [OF assms] by metis
  then show ?case using Suc.IH [OF m(1,3), of "Suc k"] by (subst depth_from.simps) simp
qed

definition level :: "PciNode list \<Rightarrow> PciNode \<Rightarrow> nat" where
  "level all n = (case depth_from all (pn_parent n) 0 of Some d \<Rightarrow> d | None \<Rightarrow> 0)"

lemma level_node:
  assumes "one_tree (set (device_chains s sys))" "n \<in> set (all_nodes fl s sys)" "node_at (set (device_chains s sys)) n i"
  shows "level (all_nodes fl s sys) n = i" "depth_from (all_nodes fl s sys) (pn_parent n) 0 = Some i"
  using depth_from_node [OF assms, of 0] by (simp_all add: level_def)

lemma insort_key_map: "insort_key f (g x) (map g ys) = map g (insort_key (\<lambda>x. f (g x)) x ys)"
  by (induction ys) simp_all

lemma sort_key_map: "sort_key f (map g xs) = map g (sort_key (\<lambda>x. f (g x)) xs)"
  by (induction xs) (simp_all add: insort_key_map)

text \<open>The result: the nodes, sorted by their distance from the root and their address.\<close>

lemma read_topology_eq:
  assumes "one_tree (set (device_chains s sys))"
  shows "read_topology fl s sys =
    Some (sort_key (\<lambda>n. (level (all_nodes fl s sys) n, pn_address n)) (all_nodes fl s sys))"
proof -
  let ?ns = "all_nodes fl s sys" let ?level = "level ?ns"
  have "depth_from ?ns (pn_parent n) 0 = Some (?level n)" if "n \<in> set ?ns" for n
    using level_node [OF assms that] node_from_at [OF all_nodes_ok(2) [OF that]] by metis
  then have depths: "map (\<lambda>n. depth_from ?ns (pn_parent n) 0) ?ns = map (\<lambda>n. Some (?level n)) ?ns" by simp
  have those: "those (map (\<lambda>n. Some (f n)) xs) = Some (map f xs)" for f :: "PciNode \<Rightarrow> nat" and xs by (induction xs) simp_all
  have zip: "zip (map ?level ?ns) ?ns = map (\<lambda>n. (?level n, n)) ?ns" by (simp add: zip_map1 zip_same_conv_map)
  have sort: "map snd (sort_key (\<lambda>(d, n). (d, pn_address n)) (map (\<lambda>n. (?level n, n)) ?ns)) = sort_key (\<lambda>n. (?level n, pn_address n)) ?ns"
    by (simp add: sort_key_map comp_def)
  obtain nodes order where st: "topology_nodes fl s sys = (nodes, order)" by (cases "topology_nodes fl s sys")
  then have ns: "List.map_filter (map_of nodes) order = ?ns" by (simp add: all_nodes_def)
  show ?thesis
    unfolding read_topology_def Let_def st prod.case ns depths those option.map zip sort by simp
qed

lemma sorted_before:
  assumes "sorted (map f xs)" "x < length xs" "m \<in> set xs" "f m < f (xs ! x)"
  shows "\<exists>y<x. xs ! y = m"
proof -
  obtain y where y: "y < length xs" "xs ! y = m" using assms(3) by (auto simp: in_set_conv_nth)
  have "y < x"
  proof (rule ccontr)
    assume "\<not> y < x"
    then have "f (xs ! x) \<le> f (xs ! y)" using sorted_nth_mono [OF assms(1), of x y] y(1) by simp
    then show False using assms(4) y(2) by simp
  qed
  then show ?thesis using y(2) by blast
qed

text \<open>Every node but a host bridge has a parent before it.\<close>

lemma topology_sorted:
  assumes "one_tree (set (device_chains s sys))" "read_topology fl s sys = Some nodes"
  shows "set nodes = set (all_nodes fl s sys)" "forest nodes"
proof -
  let ?ns = "all_nodes fl s sys" and ?key = "\<lambda>n. (level (all_nodes fl s sys) n, pn_address n)"
  have nodes: "nodes = sort_key ?key ?ns" using assms read_topology_eq by simp
  then show set: "set nodes = set ?ns" by simp
  have "mset (map pn_address nodes) = mset (map pn_address ?ns)" by (simp add: nodes)
  then have "distinct (map pn_address nodes)" using all_nodes_ok(1) mset_eq_imp_distinct_iff by blast
  moreover have "case pn_parent (nodes ! x) of None \<Rightarrow> True | Some p \<Rightarrow> \<exists>y<x. pn_address (nodes ! y) = p" if x: "x < length nodes" for x
  proof (cases "pn_parent (nodes ! x)")
    case (Some p)
    let ?n = "nodes ! x"
    have n: "?n \<in> set ?ns" using x set nth_mem by blast
    then obtain i where i: "node_at (set (device_chains s sys)) ?n i" using node_from_at [OF all_nodes_ok(2)] by blast
    then obtain j where j: "i = Suc j" using Some by (cases i) (auto simp: node_at_def)
    obtain m where m: "m \<in> set ?ns" "pn_parent ?n = Some (pn_address m)" "node_at (set (device_chains s sys)) m j"
      by (rule parent_node [OF assms(1) n i [unfolded j]])
    have "?key m < ?key ?n"
      using level_node(1) [OF assms(1) m(1,3)] level_node(1) [OF assms(1) n i] j by (simp add: less_prod_def)
    then have "\<exists>y<x. nodes ! y = m"
      using sorted_before [of ?key nodes x m] x m(1) set nodes by simp
    then show ?thesis using Some m(2) by auto
  qed simp
  ultimately show "forest nodes" by (simp add: forest_def)
qed

lemma topology_shape:
  assumes "one_tree (set (device_chains s sys))"
  shows "\<exists>nodes. read_topology fl s sys = Some nodes \<and> forest nodes
    \<and> pn_address ` set nodes = (\<Union>(c, k)\<in>set (device_chains s sys). fst ` set c)
    \<and> (\<forall>n\<in>set nodes. (pn_parent n = None \<longleftrightarrow> is_host_bridge (pn_address n))
         \<and> pn_role n = node_role (pn_address n) (pn_kind n) (pn_parent n)
         \<and> (pn_kind n \<noteq> None \<longleftrightarrow> (\<exists>(c, k)\<in>set (device_chains s sys). fst (last c) = pn_address n))
         \<and> (\<forall>kind. pn_kind n = Some kind \<longrightarrow> (\<exists>c. (c, kind) \<in> set (device_chains s sys) \<and> fst (last c) = pn_address n)))"
proof -
  let ?cks = "set (device_chains s sys)"
  obtain nodes where nodes: "read_topology fl s sys = Some nodes" using read_topology_eq [OF assms] by blast
  note sorted = topology_sorted [OF assms nodes]
  have origin: "node_from ?cks n" if "n \<in> set nodes" for n using all_nodes_ok(2) that sorted(1) by blast
  have sub: "pn_address ` set nodes \<subseteq> (\<Union>(c, k)\<in>?cks. fst ` set c)"
  proof
    fix a assume "a \<in> pn_address ` set nodes"
    then obtain n where n: "n \<in> set nodes" "a = pn_address n" by blast
    from origin [OF n(1)] obtain c k i where c: "(c, k) \<in> ?cks" "i < length c" "a = fst (c ! i)" unfolding node_from_def n(2) by blast
    then have "a \<in> fst ` set c" by simp
    then show "a \<in> (\<Union>(c, k)\<in>?cks. fst ` set c)" using c(1) by blast
  qed
  have sup: "(\<Union>(c, k)\<in>?cks. fst ` set c) \<subseteq> pn_address ` set nodes"
  proof
    fix a assume "a \<in> (\<Union>(c, k)\<in>?cks. fst ` set c)"
    then obtain c k x where c: "(c, k) \<in> ?cks" "x \<in> set c" "a = fst x" by auto
    then obtain i where "i < length c" "c ! i = x" by (auto simp: in_set_conv_nth)
    then have "\<exists>n\<in>set nodes. pn_address n = a"
      using all_nodes_ok(3) [OF topology_nodes_ok(2) [OF c(1), of i], of fl] c(3) sorted(1) by simp
    then show "a \<in> pn_address ` set nodes" by blast
  qed
  have fields: "(pn_parent n = None \<longleftrightarrow> is_host_bridge (pn_address n)) \<and> pn_role n = node_role (pn_address n) (pn_kind n) (pn_parent n)
      \<and> (\<forall>kind. pn_kind n = Some kind \<longrightarrow> (\<exists>c. (c, kind) \<in> ?cks \<and> fst (last c) = pn_address n))" if n: "n \<in> set nodes" for n
  proof -
    from origin [OF n] obtain c k i where c: "(c, k) \<in> ?cks" "i < length c" "pn_address n = fst (c ! i)"
        "pn_parent n = (if i = 0 then None else Some (fst (c ! (i - 1))))" "pn_role n = node_role (pn_address n) (pn_kind n) (pn_parent n)"
        "pn_kind n \<noteq> None \<longrightarrow> Suc i = length c \<and> pn_kind n = Some k" unfolding node_from_def by blast
    have "is_host_bridge (fst (c ! i)) \<longleftrightarrow> i = 0" using device_chains_ok(1) [OF c(1)] c(2) by (simp add: chain_ok_def)
    moreover have "fst (last c) = pn_address n" if "pn_kind n \<noteq> None"
      using c(2,3,6) that by (metis diff_Suc_1 last_conv_nth length_0_conv nat.distinct(1))
    ultimately show ?thesis using c by auto
  qed
  have kinds: "pn_kind n \<noteq> None" if n: "n \<in> set nodes" and ck: "(c, k) \<in> ?cks" "fst (last c) = pn_address n" for n c k
  proof -
    obtain m where m: "m \<in> set nodes" "pn_address m = pn_address n" "pn_kind m \<noteq> None"
      using all_nodes_ok(4) [OF topology_nodes_ok(3) [OF ck(1)], of fl] ck(2) sorted(1) by auto
    have "m = n" using sorted(2) m(1,2) n unfolding forest_def distinct_map by (blast dest: inj_onD)
    then show ?thesis using m(3) by simp
  qed
  have kind_iff: "pn_kind n \<noteq> None \<longleftrightarrow> (\<exists>(c, k)\<in>?cks. fst (last c) = pn_address n)" if n: "n \<in> set nodes" for n
  proof
    assume "pn_kind n \<noteq> None"
    then obtain kind where "pn_kind n = Some kind" by blast
    then obtain c where "(c, kind) \<in> ?cks" "fst (last c) = pn_address n" using fields [OF n] by blast
    then show "\<exists>(c, k)\<in>?cks. fst (last c) = pn_address n" by blast
  next
    assume "\<exists>(c, k)\<in>?cks. fst (last c) = pn_address n"
    then obtain c k where "(c, k) \<in> ?cks" "fst (last c) = pn_address n" by blast
    then show "pn_kind n \<noteq> None" by (rule kinds [OF n])
  qed
  show ?thesis
    by (rule exI [of _ nodes], intro conjI ballI nodes sorted(2) equalityI sub sup kind_iff) (use fields in blast)+
qed

text \<open>
  C34: the topology read from sysfs is a forest under host bridges. When an address has one place in sysfs, reading
  returns; every node occurs once, after its parent; the nodes are exactly the devices of interest and the bridges above
  them; host bridges, and no others, have no parent; and a node has a kind exactly when it is one of the devices.
\<close>

theorem topology_forest:
  assumes "one_tree (set (device_chains s sys))"
  shows "\<exists>nodes. read_topology fl s sys = Some nodes \<and> forest nodes
    \<and> pn_address ` set nodes = (\<Union>(c, k)\<in>set (device_chains s sys). fst ` set c)
    \<and> (\<forall>n\<in>set nodes. (pn_parent n = None \<longleftrightarrow> is_host_bridge (pn_address n))
         \<and> pn_role n = node_role (pn_address n) (pn_kind n) (pn_parent n)
         \<and> (pn_kind n \<noteq> None \<longleftrightarrow> (\<exists>(c, k)\<in>set (device_chains s sys). fst (last c) = pn_address n))
         \<and> (\<forall>kind. pn_kind n = Some kind \<longrightarrow> (\<exists>c. (c, kind) \<in> set (device_chains s sys) \<and> fst (last c) = pn_address n)))"
  by (rule topology_shape [OF assms])

text \<open>A graphics card under a root port.\<close>

definition sample_sources :: HardwareSources where
  "sample_sources = HardwareSources_acquired \<lparr>hwf_truncated = False,
     hwf_texts = [(lit ''/sys/d/pci0000:00/0000:00:01.0/0000:01:00.0/class'', lit ''0x030000''),
       (lit ''/sys/d/pci0000:00/0000:00:01.0/0000:01:00.0/vendor'', lit ''0x10de'')],
     hwf_directories = [(lit ''/sys/bus/pci/devices'', [lit ''0000:01:00.0''])],
     hwf_links = [(lit ''/sys/bus/pci/devices/0000:01:00.0'', lit ''/sys/d/pci0000:00/0000:00:01.0/0000:01:00.0''),
       (lit ''/sys/dev/char/226:128'', lit ''/sys/d/pci0000:00/0000:00:01.0/0000:01:00.0/drm/renderD128'')]\<rparr>"

definition sample_chain :: pci_chain where
  "sample_chain = [(lit ''pci0000:00'', lit ''/sys/d/pci0000:00''), (lit ''0000:00:01.0'', lit ''/sys/d/pci0000:00/0000:00:01.0''),
     (lit ''0000:01:00.0'', lit ''/sys/d/pci0000:00/0000:00:01.0/0000:01:00.0'')]"

lemma one_tree_single:
  assumes "distinct (map fst c)"
  shows "one_tree {(c, k)}"
proof -
  have "i = j" if "i < length c" "j < length c" "fst (c ! i) = fst (c ! j)" for i j
    using nth_eq_iff_index_eq [OF assms, of i j] that by simp
  then show ?thesis by (fastforce simp: one_tree_def)
qed

lemma sample_components:
  "path_components (lit ''/sys/d/pci0000:00/0000:00:01.0/0000:01:00.0'') =
     [lit ''/'', lit ''sys'', lit ''d'', lit ''pci0000:00'', lit ''0000:00:01.0'', lit ''0000:01:00.0'']"
  by (simp add: path_components_def lit_map_ch slash_def)

lemma sample_addresses:
  "is_host_bridge (lit ''pci0000:00'')" "is_function_address (lit ''0000:00:01.0'')" "is_function_address (lit ''0000:01:00.0'')"
  "\<not> is_host_bridge (lit ''0000:00:01.0'')" "\<not> is_host_bridge (lit ''0000:01:00.0'')" "\<not> is_host_bridge (lit ''/'')"
  "\<not> is_host_bridge (lit ''sys'')" "\<not> is_host_bridge (lit ''d'')"
  by (simp_all add: is_host_bridge_def is_function_address_def starts_with_def lit_map_ch as_bytes_def utf8_char_def byte_of_def hexdigit_byte_def Let_def)

lemma sample_device_chain: "device_chain (lit ''/sys/d/pci0000:00/0000:00:01.0/0000:01:00.0'') = sample_chain"
  unfolding device_chain_def sample_components
  by (simp add: chain_step_def Let_def sample_addresses sample_chain_def) (simp add: path_join_def lit_map_ch slash_def)

lemma sample_lookups:
  "source_names sample_sources (lit ''/sys/bus/pci/devices'') = [lit ''0000:01:00.0'']"
  "source_link sample_sources (lit ''/sys/bus/pci/devices/0000:01:00.0'') = Some (lit ''/sys/d/pci0000:00/0000:00:01.0/0000:01:00.0'')"
  "source_text sample_sources (lit ''/sys/d/pci0000:00/0000:00:01.0/0000:01:00.0/class'') = Some (lit ''0x030000'')"
  "source_text sample_sources (lit ''/sys/d/pci0000:00/0000:00:01.0/0000:01:00.0/vendor'') = Some (lit ''0x10de'')"
  "\<not> source_is_dir sample_sources (lit ''/sys/d/pci0000:00/0000:00:01.0/0000:01:00.0/infiniband'')"
  by (simp_all add: source_names_def source_link_def source_text_def source_is_dir_def sample_sources_def HardwareSources_acquired_def
      HardwareSources_at_def at_path_def path_components_def lit_map_ch slash_def trim_def trim_start_def trim_end_def is_whitespace_def)

lemma sample_joins:
  "path_join (lit ''/sys/bus/pci/devices'') (lit ''0000:01:00.0'') = lit ''/sys/bus/pci/devices/0000:01:00.0''"
  "path_join (lit ''/sys'') (lit ''bus/pci/devices'') = lit ''/sys/bus/pci/devices''"
  "path_join (lit ''/sys/d/pci0000:00/0000:00:01.0/0000:01:00.0'') (lit ''class'') = lit ''/sys/d/pci0000:00/0000:00:01.0/0000:01:00.0/class''"
  "path_join (lit ''/sys/d/pci0000:00/0000:00:01.0/0000:01:00.0'') (lit ''vendor'') = lit ''/sys/d/pci0000:00/0000:00:01.0/0000:01:00.0/vendor''"
  "path_join (lit ''/sys/d/pci0000:00/0000:00:01.0/0000:01:00.0'') (lit ''infiniband'') = lit ''/sys/d/pci0000:00/0000:00:01.0/0000:01:00.0/infiniband''"
  by (simp_all add: path_join_def lit_map_ch slash_def)

lemma sample_hex: "hex_u32 (trim_0x (lit ''0x030000'')) = Some 0x030000" "hex_u32 (trim_0x (lit ''0x10de'')) = Some 0x10de"
  by (simp_all add: lit_map_ch hex_u32_def parse_unsigned_def to_digit_def)

lemma sample_device_chains: "device_chains sample_sources (lit ''/sys'') = [(sample_chain, HardwareKind.Gpu)]"
proof -
  have "classify_pci_device sample_sources (lit ''/sys/d/pci0000:00/0000:00:01.0/0000:01:00.0'') 0x030000 (Some 0x10de) = Some HardwareKind.Gpu"
    by (simp add: classify_pci_device_def sample_joins(5) sample_lookups(5) ASPEED_def MATROX_def)
  then have "device_of_name sample_sources (lit ''/sys'') (lit ''0000:01:00.0'') = Some (sample_chain, HardwareKind.Gpu)"
    by (simp add: device_of_name_def sample_joins sample_lookups read_sysfs_hex_def sample_hex sample_device_chain Let_def)
       (simp add: sample_chain_def)
  then show ?thesis by (simp add: device_chains_def sample_joins(2) sample_lookups(1) map_filter_simps)
qed

definition sample_floats :: float_ops where
  "sample_floats = \<lparr>fl_parse = (\<lambda>_. None), fl_mul = (\<lambda>x y. x), fl_div = (\<lambda>x y. x), fl_of_u32 = ucast\<rparr>"

lemma sample_one_tree: "one_tree (set (device_chains sample_sources (lit ''/sys'')))"
  unfolding sample_device_chains list.set
  by (rule one_tree_single) (simp add: sample_chain_def lit_map_ch)

theorem topology_forest_witness:
  "\<exists>nodes. read_topology sample_floats sample_sources (lit ''/sys'') = Some nodes \<and> forest nodes
     \<and> pn_address ` set nodes = {lit ''pci0000:00'', lit ''0000:00:01.0'', lit ''0000:01:00.0''}"
  using topology_forest [OF sample_one_tree, of sample_floats] by (auto simp: sample_device_chains sample_chain_def)

end
