(* ===== verification/Hardware_Paths.thy ===== *)
theory Hardware_Paths
  imports Pci_Topology
begin

text \<open>
  The PCIe paths between the devices of a topology (\<open>src/http_server/analysis/hardware/paths.rs\<close>). A slice out of
  range and a cycle of parents, where the code panics or does not return, are \<open>None\<close>; the theorem shows that a topology
  gives neither.
\<close>

section \<open>Bandwidth\<close>

definition bandwidth :: "float_ops \<Rightarrow> PcieLink \<Rightarrow> f64" where
  "bandwidth fl l =
     (let encoding = (if f64_le (link_speed_gts l) 0x4014000000000000 then 0x3FE999999999999A
            else fl_div fl 0x4060000000000000 0x4060400000000000) in
      fl_div fl (fl_mul fl (fl_mul fl (link_speed_gts l) encoding) (fl_of_u32 fl (link_width l))) 0x4020000000000000)"

text \<open>\<open>min_by\<close>: the first of the smallest.\<close>

fun min_link :: "float_ops \<Rightarrow> PcieLink list \<Rightarrow> PcieLink option" where
  "min_link fl [] = None"
| "min_link fl (l # ls) =
     Some (fold (\<lambda>x best. if total_key (bandwidth fl x) < total_key (bandwidth fl best) then x else best) ls l)"

section \<open>Paths\<close>

definition address_map :: "PciNode list \<Rightarrow> rstring \<Rightarrow> PciNode option" where
  "address_map nodes = map_of (rev (map (\<lambda>n. (pn_address n, n)) nodes))"

text \<open>\<open>chain\<close>: from the root down to the node.\<close>

partial_function (option) root_chain :: "(rstring \<Rightarrow> PciNode option) \<Rightarrow> PciNode \<Rightarrow> PciNode list option" where
  "root_chain lookup n =
     (case Option.bind (pn_parent n) lookup of
        None \<Rightarrow> Some [n]
      | Some parent \<Rightarrow> Option.bind (root_chain lookup parent) (\<lambda>c. Some (c @ [n])))"

definition checked_slice :: "nat \<Rightarrow> nat \<Rightarrow> 'a list \<Rightarrow> 'a list option" where
  "checked_slice a b xs = (if a \<le> b \<and> b \<le> length xs then Some (drop a (take b xs)) else None)"

definition numa_of :: "usize \<Rightarrow> PciNode \<Rightarrow> u32 option" where
  "numa_of numa_nodes n = (case pn_numa_node n of Some x \<Rightarrow> Some x | None \<Rightarrow> if numa_nodes \<le> 1 then Some 0 else None)"

text \<open>The switch a port belongs to: its upstream port.\<close>

definition switch_of :: "(rstring \<Rightarrow> PciNode option) \<Rightarrow> PciNode \<Rightarrow> rstring" where
  "switch_of lookup n =
     (case Option.bind (pn_parent n) lookup of
        Some p \<Rightarrow> if pn_role p = HardwareRole.SwitchPort then pn_address p else pn_address n
      | None \<Rightarrow> pn_address n)"

definition switches_of :: "(rstring \<Rightarrow> PciNode option) \<Rightarrow> PciNode list \<Rightarrow> rstring list" where
  "switches_of lookup ns =
     fold (\<lambda>n switches. if pn_role n \<noteq> HardwareRole.SwitchPort then switches
       else if switch_of lookup n \<in> set switches then switches else switches @ [switch_of lookup n]) ns []"

definition common_prefix :: "PciNode list \<Rightarrow> PciNode list \<Rightarrow> nat" where
  "common_prefix ca cb = length (takeWhile (\<lambda>(x, y). pn_address x = pn_address y) (zip ca cb))"

definition path_class_of ::
  "(rstring \<Rightarrow> PciNode option) \<Rightarrow> usize \<Rightarrow> PciNode \<Rightarrow> PciNode \<Rightarrow> PciNode list \<Rightarrow> PciNode list \<Rightarrow> nat \<Rightarrow> PathClass option"
where
  "path_class_of lookup numa_nodes a b ca cb common =
     (if common = 0 then
        Some (if numa_of numa_nodes a \<noteq> None \<and> numa_of numa_nodes a = numa_of numa_nodes b then PathClass.Node else PathClass.Sys)
      else if pn_role (ca ! (common - 1)) = HardwareRole.HostBridge then Some PathClass.Phb
      else Option.bind (checked_slice (common - 1) (length ca - 1) ca) (\<lambda>sa.
           Option.bind (checked_slice common (length cb - 1) cb) (\<lambda>sb.
           Some (if length (switches_of lookup (sa @ sb)) \<le> 1 then PathClass.Pix else PathClass.Pxb))))"

definition hardware_path ::
  "float_ops \<Rightarrow> (rstring \<Rightarrow> PciNode option) \<Rightarrow> usize \<Rightarrow> PciNode \<times> PciNode \<Rightarrow> HardwarePath option"
where
  "hardware_path fl lookup numa_nodes = (\<lambda>(a, b).
     Option.bind (root_chain lookup a) (\<lambda>ca.
     Option.bind (root_chain lookup b) (\<lambda>cb.
     let common = common_prefix ca cb;
         up = drop (max common 1) ca; down = drop (max common 1) cb in
     Option.bind (checked_slice (common - 1) (length ca - 1) ca) (\<lambda>rising.
     Option.bind (checked_slice common (length cb - 1) cb) (\<lambda>falling.
     Option.bind (path_class_of lookup numa_nodes a b ca cb common) (\<lambda>path_class.
     Some \<lparr>path_id = pn_address a @ ch CHR ''/'' # pn_address b, path_a = pn_address a, path_b = pn_address b,
       path_class = path_class, path_via = map pn_address (rev rising) @ map pn_address falling,
       path_bottleneck = min_link fl (List.map_filter (\<lambda>n. Option.bind (pn_link n) pli_current) (up @ down))\<rparr>))))))"

fun pairs :: "'a list \<Rightarrow> ('a \<times> 'a) list" where
  "pairs [] = []"
| "pairs (a # bs) = map (Pair a) bs @ pairs bs"

definition endpoints_of :: "PciNode list \<Rightarrow> PciNode list" where
  "endpoints_of nodes = filter (\<lambda>n. pn_role n = HardwareRole.Endpoint) nodes"

definition build_hardware_paths :: "float_ops \<Rightarrow> PciNode list \<Rightarrow> usize \<Rightarrow> HardwarePath list option" where
  "build_hardware_paths fl nodes numa_nodes =
     those (map (hardware_path fl (address_map nodes) numa_nodes) (pairs (endpoints_of nodes)))"

section \<open>Chains in a forest\<close>

lemma address_map_forest:
  assumes "forest nodes" "n \<in> set nodes"
  shows "address_map nodes (pn_address n) = Some n"
proof -
  have "map fst (rev (map (\<lambda>n. (pn_address n, n)) nodes)) = rev (map pn_address nodes)" by (simp add: rev_map comp_def)
  then have "distinct (map fst (rev (map (\<lambda>n. (pn_address n, n)) nodes)))"
    using assms(1) by (simp add: forest_def)
  then show ?thesis unfolding address_map_def using assms(2) by (intro map_of_is_SomeI) auto
qed

lemma forest_position:
  assumes "forest nodes" "x < length nodes" "y < length nodes" "pn_address (nodes ! x) = pn_address (nodes ! y)"
  shows "x = y"
  using assms nth_eq_iff_index_eq [of "map pn_address nodes" x y] by (simp add: forest_def)

text \<open>A chain as positions in the list: from a root, each the parent of the next.\<close>

inductive is_chain :: "PciNode list \<Rightarrow> nat list \<Rightarrow> bool" for nodes where
  chain_root: "x < length nodes \<Longrightarrow> pn_parent (nodes ! x) = None \<Longrightarrow> is_chain nodes [x]"
| chain_child: "is_chain nodes ps \<Longrightarrow> last ps < x \<Longrightarrow> x < length nodes \<Longrightarrow>
    pn_parent (nodes ! x) = Some (pn_address (nodes ! last ps)) \<Longrightarrow> is_chain nodes (ps @ [x])"

lemma is_chain_facts:
  assumes "is_chain nodes ps"
  shows "ps \<noteq> [] \<and> sorted_wrt (<) ps \<and> (\<forall>p\<in>set ps. p \<le> last ps \<and> p < length nodes)"
  using assms by (induction rule: is_chain.induct) (auto simp: sorted_wrt_append)

lemma is_chain_prefix:
  assumes "is_chain nodes (ps @ qs)" "ps \<noteq> []"
  shows "is_chain nodes ps"
  using assms
proof (induction "ps @ qs" arbitrary: qs rule: is_chain.induct)
  case (chain_root x)
  then have "ps = [x]" by (cases ps) auto
  then show ?case using chain_root(1,2) by (simp add: is_chain.chain_root)
next
  case (chain_child rs x)
  show ?case
  proof (cases qs rule: rev_cases)
    case Nil
    then show ?thesis using chain_child by (metis append_Nil2 is_chain.chain_child)
  next
    case (snoc zs z)
    then show ?thesis using chain_child by simp
  qed
qed

lemma is_chain_unique:
  assumes "forest nodes" "is_chain nodes ps" "is_chain nodes qs" "last ps = last qs"
  shows "ps = qs"
  using assms(2-4)
proof (induction arbitrary: qs rule: is_chain.induct)
  case (chain_root x)
  show ?case
  proof (rule is_chain.cases [OF chain_root(3)])
    fix y
    assume "qs = [y]"
    then show "[x] = qs" using chain_root(4) by simp
  next
    fix rs y
    assume "qs = rs @ [y]" "pn_parent (nodes ! y) = Some (pn_address (nodes ! last rs))"
    then show "[x] = qs" using chain_root(2,4) by simp
  qed
next
  case (chain_child ps x)
  show ?case
  proof (rule is_chain.cases [OF chain_child(6)])
    fix y
    assume "qs = [y]" "pn_parent (nodes ! y) = None"
    then show "ps @ [x] = qs" using chain_child(4,7) by simp
  next
    fix rs y
    assume c: "qs = rs @ [y]" "is_chain nodes rs" "last rs < y" "y < length nodes"
      "pn_parent (nodes ! y) = Some (pn_address (nodes ! last rs))"
    then have "x = y" using chain_child(7) by simp
    moreover have "last ps = last rs"
      using forest_position [OF assms(1), of "last ps" "last rs"] chain_child(2-4) c(3-5) \<open>x = y\<close> by simp
    ultimately show "ps @ [x] = qs" using chain_child(5) c(1,2) by simp
  qed
qed

lemma root_chain_forest:
  assumes "forest nodes" "x < length nodes"
  shows "\<exists>ps. root_chain (address_map nodes) (nodes ! x) = Some (map ((!) nodes) ps) \<and> is_chain nodes ps \<and> last ps = x"
  using assms(2)
proof (induction x rule: less_induct)
  case (less x)
  show ?case
  proof (cases "pn_parent (nodes ! x)")
    case None
    then show ?thesis using less.prems
      by (intro exI [of _ "[x]"]) (simp add: chain_root root_chain.simps [of _ "nodes ! x"])
  next
    case (Some p)
    then obtain y where y: "y < x" "pn_address (nodes ! y) = p" using assms(1) less.prems by (fastforce simp: forest_def)
    then obtain ps where ps: "root_chain (address_map nodes) (nodes ! y) = Some (map ((!) nodes) ps)" "is_chain nodes ps" "last ps = y"
      using less by force
    have "address_map nodes p = Some (nodes ! y)" using address_map_forest [OF assms(1), of "nodes ! y"] y less.prems by simp
    then have "root_chain (address_map nodes) (nodes ! x) = Some (map ((!) nodes) (ps @ [x]))"
      using Some ps(1) by (simp add: root_chain.simps [of _ "nodes ! x"])
    moreover have "is_chain nodes (ps @ [x])" using ps y Some less.prems by (intro chain_child) auto
    ultimately show ?thesis by (intro exI [of _ "ps @ [x]"]) simp
  qed
qed

text \<open>Two chains: what they share, and two branches with nothing in common.\<close>

lemma chains_fork:
  assumes "forest nodes" "is_chain nodes pa" "is_chain nodes pb" "last pa < last pb"
  shows "\<exists>c xs ys. pa = c @ xs \<and> pb = c @ ys \<and> ys \<noteq> [] \<and> set xs \<inter> set ys = {} \<and> (c = [] \<longrightarrow> xs \<noteq> [])"
proof -
  obtain c xs ys where f: "pa = c @ xs" "pb = c @ ys" "xs = [] \<or> ys = [] \<or> hd xs \<noteq> hd ys"
    using longest_common_prefix [of pa pb] by blast
  note fa = is_chain_facts [OF assms(2)] and fb = is_chain_facts [OF assms(3)]
  have ys: "ys \<noteq> []"
  proof
    assume "ys = []"
    then have "pb = c" using f by simp
    then have "last pb \<in> set pa" using f fb last_in_set [of pb] by auto
    then show False using fa assms(4) by fastforce
  qed
  have apart: "False" if p: "p \<in> set xs" "p \<in> set ys" for p
  proof -
    obtain x1 x2 where sx: "xs = x1 @ p # x2" using split_list [OF p(1)] by blast
    obtain y1 y2 where sy: "ys = y1 @ p # y2" using split_list [OF p(2)] by blast
    note sp = sx sy
    have "is_chain nodes (c @ x1 @ [p])" "is_chain nodes (c @ y1 @ [p])"
      using is_chain_prefix [of nodes "c @ x1 @ [p]" x2] is_chain_prefix [of nodes "c @ y1 @ [p]" y2] assms(2,3) f sp by simp_all
    then have "c @ x1 @ [p] = c @ y1 @ [p]" by (intro is_chain_unique [OF assms(1)]) simp_all
    then have "hd xs = hd ys" using sp by (cases x1) auto
    then show False using f(3) sp by simp
  qed
  have "c = [] \<longrightarrow> xs \<noteq> []" using f(1) fa by auto
  moreover have "set xs \<inter> set ys = {}" using apart by blast
  ultimately show ?thesis using f(1,2) ys by (intro exI [of _ c] exI [of _ xs] exI [of _ ys] conjI)
qed

lemma common_prefix_fork:
  assumes "forest nodes" "\<forall>p\<in>set (c @ xs) \<union> set (c @ ys). p < length nodes" "set xs \<inter> set ys = {}"
  shows "common_prefix (map ((!) nodes) (c @ xs)) (map ((!) nodes) (c @ ys)) = length c"
proof -
  have zip: "zip (map ((!) nodes) (c @ xs)) (map ((!) nodes) (c @ ys)) =
      map (\<lambda>p. (nodes ! p, nodes ! p)) c @ zip (map ((!) nodes) xs) (map ((!) nodes) ys)"
    by (simp add: zip_map_map zip_same_conv_map)
  have "takeWhile (\<lambda>(x, y). pn_address x = pn_address y) (zip (map ((!) nodes) xs) (map ((!) nodes) ys)) = []"
  proof (cases xs; cases ys)
    fix x xs' y ys'
    assume e: "xs = x # xs'" "ys = y # ys'"
    then have "x \<noteq> y" "x < length nodes" "y < length nodes" using assms(2,3) by auto
    then have "pn_address (nodes ! x) \<noteq> pn_address (nodes ! y)" using forest_position [OF assms(1)] by blast
    then show ?thesis using e by simp
  qed simp_all
  then show ?thesis unfolding common_prefix_def zip by (subst takeWhile_append2) auto
qed

section \<open>The way between two nodes\<close>

text \<open>Neighbours: a node and its parent, or two roots.\<close>

definition neighbours :: "PciNode \<Rightarrow> PciNode \<Rightarrow> bool" where
  "neighbours x y \<longleftrightarrow> pn_parent x = Some (pn_address y) \<or> pn_parent y = Some (pn_address x) \<or> pn_parent x = None \<and> pn_parent y = None"

definition child_at :: "PciNode list \<Rightarrow> nat \<Rightarrow> nat \<Rightarrow> bool" where
  "child_at nodes p q \<longleftrightarrow> pn_parent (nodes ! q) = Some (pn_address (nodes ! p))"

definition root_at :: "PciNode list \<Rightarrow> nat \<Rightarrow> bool" where
  "root_at nodes p \<longleftrightarrow> pn_parent (nodes ! p) = None"

lemma chain_links:
  assumes "is_chain nodes ps"
  shows "successively (child_at nodes) ps" "filter (root_at nodes) ps = [hd ps]" "root_at nodes (hd ps)"
proof -
  have "successively (child_at nodes) ps \<and> filter (root_at nodes) ps = [hd ps] \<and> root_at nodes (hd ps)"
    using assms
  proof (induction rule: is_chain.induct)
    case (chain_child ps x)
    then show ?case using is_chain_facts [OF chain_child(1)] by (simp add: successively_append_iff child_at_def root_at_def)
  qed (simp add: root_at_def)
  then show "successively (child_at nodes) ps" "filter (root_at nodes) ps = [hd ps]" "root_at nodes (hd ps)" by blast+
qed

lemma child_in_tail:
  assumes "successively (child_at nodes) ps" "p \<in> set (tl ps)"
  shows "\<exists>q\<in>set ps. child_at nodes q p"
proof -
  obtain us vs where "tl ps = us @ p # vs" using split_list [OF assms(2)] by blast
  then have ps: "ps = (hd ps # us) @ p # vs" using assms(2) by (cases ps) auto
  then have "child_at nodes (last (hd ps # us)) p"
    using assms(1) by (metis list.distinct(1) list.sel(1) successively_append_iff)
  moreover have "last (hd ps # us) \<in> set ps" using ps by (metis UnCI last_in_set list.distinct(1) set_append)
  ultimately show ?thesis by blast
qed

definition route :: "nat list \<Rightarrow> nat list \<Rightarrow> nat list \<Rightarrow> nat list" where
  "route c xs ys = rev (drop (length c - 1) (c @ xs)) @ ys"

lemma route_simps [simp]: "route [] xs ys = rev xs @ ys" "route (c @ [t]) xs ys = rev xs @ t # ys"
  by (simp_all add: route_def)

lemma successively_route:
  assumes "successively (child_at nodes) (t # xs)" "successively (child_at nodes) (t # ys)"
  shows "successively (\<lambda>p q. neighbours (nodes ! p) (nodes ! q)) (rev xs @ t # ys)"
proof -
  have "successively (\<lambda>p q. neighbours (nodes ! p) (nodes ! q)) (rev (t # xs))"
    unfolding successively_rev by (rule successively_mono [OF assms(1)]) (auto simp: child_at_def neighbours_def)
  moreover have "successively (\<lambda>p q. neighbours (nodes ! p) (nodes ! q)) (t # ys)"
    by (rule successively_mono [OF assms(2)]) (auto simp: child_at_def neighbours_def)
  ultimately show ?thesis by (simp add: successively_append_iff)
qed

lemma route_ok:
  assumes chains: "is_chain nodes (c @ xs)" "is_chain nodes (c @ ys)"
    and apart: "set xs \<inter> set ys = {}" "ys \<noteq> []" "c = [] \<longrightarrow> xs \<noteq> []"
  shows "distinct (route c xs ys)"
    and "successively (\<lambda>p q. neighbours (nodes ! p) (nodes ! q)) (route c xs ys)"
    and "length (filter (root_at nodes) (route c xs ys)) = (if c = [] then 2 else if length c = 1 then 1 else 0)"
proof -
  have distinct: "distinct (c @ xs)" "distinct (c @ ys)"
    using is_chain_facts [OF chains(1)] is_chain_facts [OF chains(2)] strict_sorted_iff by blast+
  note lx = chain_links [OF chains(1)] and ly = chain_links [OF chains(2)]
  show "distinct (route c xs ys)"
    using distinct apart(1) by (cases c rule: rev_cases) (simp_all add: Int_commute)
  show "successively (\<lambda>p q. neighbours (nodes ! p) (nodes ! q)) (route c xs ys)"
  proof (cases c rule: rev_cases)
    case Nil
    obtain x xs' where xs: "xs = x # xs'" using apart(3) Nil by (cases xs) auto
    obtain y ys' where ys: "ys = y # ys'" using apart(2) by (cases ys) auto
    have "root_at nodes x" "root_at nodes y" using lx(3) ly(3) Nil xs ys by simp_all
    then have "neighbours (nodes ! x) (nodes ! y)" by (simp add: root_at_def neighbours_def)
    moreover have "successively (\<lambda>p q. neighbours (nodes ! p) (nodes ! q)) (rev xs' @ x # [])"
      by (rule successively_route) (use lx(1) Nil xs in simp_all)
    moreover have "successively (\<lambda>p q. neighbours (nodes ! p) (nodes ! q)) (rev [] @ y # ys')"
      by (rule successively_route) (use ly(1) Nil ys in simp_all)
    ultimately show ?thesis using Nil xs ys by (simp add: successively_append_iff)
  next
    case (snoc c' t)
    have "successively (child_at nodes) (t # xs)" "successively (child_at nodes) (t # ys)"
      using lx(1) ly(1) snoc by (simp_all add: successively_append_iff)
    then show ?thesis using successively_route snoc by simp
  qed
  show "length (filter (root_at nodes) (route c xs ys)) = (if c = [] then 2 else if length c = 1 then 1 else 0)"
  proof (cases c rule: rev_cases)
    case Nil
    have "length (filter (root_at nodes) xs) = 1" "length (filter (root_at nodes) ys) = 1" using lx(2) ly(2) Nil by simp_all
    then show ?thesis using Nil by (simp flip: rev_filter)
  next
    case (snoc c' t)
    have c: "filter (root_at nodes) c = [hd c]" using is_chain_prefix [OF chains(1)] snoc chain_links(2) by blast
    have "filter (root_at nodes) xs = []" "filter (root_at nodes) ys = []" using lx(2) ly(2) c unfolding filter_append by simp_all
    moreover have "root_at nodes t \<longleftrightarrow> c' = []"
    proof (cases "c' = []")
      case True
      then show ?thesis using c snoc by (simp split: if_splits)
    next
      case False
      then have "filter (root_at nodes) c' = [hd c']"
        using is_chain_prefix [of nodes c' "[t] @ xs"] chains(1) snoc chain_links(2) by simp
      then show ?thesis using c False snoc by (simp split: if_splits)
    qed
    ultimately show ?thesis using snoc by (simp flip: rev_filter)
  qed
qed

lemma route_climbed:
  assumes "forest nodes" and chains: "is_chain nodes (c @ xs)" "is_chain nodes (c @ ys)" and p: "p \<in> set (route c xs ys)"
  shows "(\<exists>q\<in>set (route c xs ys). child_at nodes q p) \<longleftrightarrow>
     p \<in> set (drop (max (length c) 1) (c @ xs)) \<union> set (drop (max (length c) 1) (c @ ys))"
proof (cases c rule: rev_cases)
  case Nil
  have "\<exists>q\<in>set xs \<union> set ys. child_at nodes q p" if t: "p \<in> set (tl xs) \<union> set (tl ys)"
    using child_in_tail [of nodes xs p] child_in_tail [of nodes ys p] chain_links(1) [OF chains(1)] chain_links(1) [OF chains(2)] Nil t by auto
  moreover have "p \<in> set (tl xs) \<union> set (tl ys)" if q: "child_at nodes q p" for q
  proof (rule ccontr)
    assume "p \<notin> set (tl xs) \<union> set (tl ys)"
    then have "p = hd xs \<or> p = hd ys" using p Nil by (cases xs; cases ys) auto
    then have "root_at nodes p" using chain_links(3) [OF chains(1)] chain_links(3) [OF chains(2)] Nil by auto
    then show False using q by (simp add: root_at_def child_at_def)
  qed
  ultimately show ?thesis using Nil by (auto simp: drop_Suc)
next
  case (snoc c' t)
  have links: "successively (child_at nodes) (t # xs)" "successively (child_at nodes) (t # ys)"
    using chain_links(1) [OF chains(1)] chain_links(1) [OF chains(2)] snoc by (simp_all add: successively_append_iff)
  have "\<exists>q\<in>set (route c xs ys). child_at nodes q p" if t: "p \<in> set xs \<union> set ys"
    using child_in_tail [OF links(1), of p] child_in_tail [OF links(2), of p] snoc t by auto
  moreover have "p \<in> set xs \<union> set ys" if q: "q \<in> set (route c xs ys)" "child_at nodes q p" for q
  proof (rule ccontr)
    assume "p \<notin> set xs \<union> set ys"
    then have t: "p = t" using p snoc by simp
    show False
    proof (cases "c' = []")
      case True
      then have "root_at nodes t" using chain_links(3) [OF chains(1)] snoc by simp
      then show False using q(2) t by (simp add: root_at_def child_at_def)
    next
      case False
      have "child_at nodes (last c') t" using chain_links(1) [OF chains(1)] snoc False by (simp add: successively_append_iff)
      then have "pn_address (nodes ! last c') = pn_address (nodes ! q)" using q(2) t by (simp add: child_at_def)
      moreover have inner: "last c' \<in> set c'" using False by simp
      moreover have bounds: "\<forall>p\<in>set (c @ xs). p < length nodes" "\<forall>p\<in>set (c @ ys). p < length nodes"
        using is_chain_facts [OF chains(1)] is_chain_facts [OF chains(2)] by blast+
      moreover have "q \<in> set (c @ xs) \<union> set (c @ ys)" using q(1) snoc by auto
      ultimately have "last c' = q"
        using forest_position [OF assms(1), of "last c'" q] snoc by auto
      moreover have "distinct (c @ xs)" "distinct (c @ ys)"
        using is_chain_facts [OF chains(1)] is_chain_facts [OF chains(2)] strict_sorted_iff by blast+
      ultimately show False using q(1) inner snoc by (auto simp: disjoint_iff)
    qed
  qed
  ultimately show ?thesis using snoc by auto
qed

section \<open>Correctness of the paths\<close>

lemma switches_of_set:
  "set (switches_of lookup ns) = switch_of lookup ` {n \<in> set ns. pn_role n = HardwareRole.SwitchPort} \<and> distinct (switches_of lookup ns)"
  unfolding switches_of_def by (induction ns rule: rev_induct) auto

lemma min_link_first:
  "case min_link fl ls of None \<Rightarrow> ls = []
   | Some l \<Rightarrow> l \<in> set ls \<and> (\<forall>x\<in>set ls. total_key (bandwidth fl l) \<le> total_key (bandwidth fl x))"
proof (cases ls)
  case (Cons l xs)
  define best where "best = fold (\<lambda>x best. if total_key (bandwidth fl x) < total_key (bandwidth fl best) then x else best) xs l"
  have "best \<in> set (l # xs) \<and> (\<forall>x\<in>set (l # xs). total_key (bandwidth fl best) \<le> total_key (bandwidth fl x))"
    unfolding best_def by (induction xs rule: rev_induct) auto
  then show ?thesis using Cons by (simp add: best_def)
qed simp

definition class_for :: "PciNode list \<Rightarrow> usize \<Rightarrow> PciNode \<Rightarrow> PciNode \<Rightarrow> PciNode list \<Rightarrow> PathClass" where
  "class_for nodes numa_nodes a b ns =
     (let roots = length (filter (\<lambda>n. pn_parent n = None) ns) in
      if roots = 2 then
        (if numa_of numa_nodes a \<noteq> None \<and> numa_of numa_nodes a = numa_of numa_nodes b then PathClass.Node else PathClass.Sys)
      else if roots = 1 then PathClass.Phb
      else if card (switch_of (address_map nodes) ` {n \<in> set ns. pn_role n = HardwareRole.SwitchPort}) \<le> 1 then PathClass.Pix
      else PathClass.Pxb)"

text \<open>The links on the way: those of the nodes whose parent is on it.\<close>

definition links_on :: "PciNode list \<Rightarrow> PcieLink set" where
  "links_on ns = {l. \<exists>n\<in>set ns. (\<exists>m\<in>set ns. pn_parent n = Some (pn_address m)) \<and> Option.bind (pn_link n) pli_current = Some l}"

definition path_for :: "float_ops \<Rightarrow> PciNode list \<Rightarrow> usize \<Rightarrow> PciNode \<times> PciNode \<Rightarrow> HardwarePath \<Rightarrow> bool" where
  "path_for fl nodes numa_nodes = (\<lambda>(a, b) p.
     path_a p = pn_address a \<and> path_b p = pn_address b
     \<and> (\<exists>ns. ns \<noteq> [] \<and> hd ns = a \<and> last ns = b \<and> map pn_address ns = path_a p # path_via p @ [path_b p]
          \<and> set ns \<subseteq> set nodes \<and> distinct ns \<and> successively neighbours ns
          \<and> path_class p = class_for nodes numa_nodes a b ns
          \<and> (case path_bottleneck p of None \<Rightarrow> links_on ns = {}
             | Some l \<Rightarrow> l \<in> links_on ns \<and> (\<forall>x\<in>links_on ns. total_key (bandwidth fl l) \<le> total_key (bandwidth fl x)))))"

lemma route_ends:
  assumes "last (c @ xs) = i" "c @ xs \<noteq> []" "last ys = j" "ys \<noteq> []"
  shows "route c xs ys = i # rev (drop (length c - 1) (butlast (c @ xs))) @ butlast ys @ [j]"
proof -
  have "c @ xs = butlast (c @ xs) @ [i]" using assms(1,2) append_butlast_last_id by metis
  moreover have "length c - 1 \<le> length (butlast (c @ xs))" by (cases xs) auto
  ultimately have "drop (length c - 1) (c @ xs) = drop (length c - 1) (butlast (c @ xs)) @ [i]"
    by (metis (no_types, lifting) append_Nil2 diff_is_0_eq drop0 drop_append)
  moreover have "ys = butlast ys @ [j]" using assms(3,4) append_butlast_last_id by metis
  ultimately show ?thesis by (simp add: route_def)
qed

lemma checked_slice_map: "checked_slice a b (map f xs) = map_option (map f) (checked_slice a b xs)"
  by (simp add: checked_slice_def drop_map take_map)

lemma checked_slice_rest: "ys \<noteq> [] \<Longrightarrow> checked_slice (length c) (length (c @ ys) - 1) (c @ ys) = Some (butlast ys)"
  by (cases ys rule: rev_cases) (simp_all add: checked_slice_def)

lemma checked_slice_top: "checked_slice (length c - 1) (length (c @ xs) - 1) (c @ xs) = Some (drop (length c - 1) (butlast (c @ xs)))"
  by (simp add: checked_slice_def butlast_conv_take)

lemma path_class_route:
  assumes chains: "is_chain nodes (c @ xs)" "is_chain nodes (c @ ys)"
    and apart: "set xs \<inter> set ys = {}" "ys \<noteq> []" "c = [] \<longrightarrow> xs \<noteq> []"
    and bridges: "\<forall>n\<in>set nodes. pn_role n = HardwareRole.HostBridge \<longleftrightarrow> pn_parent n = None"
    and w: "route c xs ys = i # mid @ [j]"
    and ends: "pn_role (nodes ! i) \<noteq> HardwareRole.SwitchPort" "pn_role (nodes ! j) \<noteq> HardwareRole.SwitchPort"
    and inner: "checked_slice (length c - 1) (length ca - 1) ca = Some sa" "checked_slice (length c) (length cb - 1) cb = Some sb"
      "set sa \<union> set sb = set (map ((!) nodes) mid)" "ca = map ((!) nodes) (c @ xs)"
  shows "path_class_of (address_map nodes) numa_nodes (nodes ! i) (nodes ! j) ca cb (length c)
     = Some (class_for nodes numa_nodes (nodes ! i) (nodes ! j) (map ((!) nodes) (i # mid @ [j])))"
proof -
  let ?w = "i # mid @ [j]"
  let ?ns = "map ((!) nodes) ?w"
  have "filter (\<lambda>n. pn_parent n = None) ?ns = map ((!) nodes) (filter (root_at nodes) ?w)"
    unfolding filter_map comp_def by (rule arg_cong, rule filter_cong) (simp_all add: root_at_def)
  then have count: "length (filter (\<lambda>n. pn_parent n = None) ?ns) = (if c = [] then 2 else if length c = 1 then 1 else 0)"
    using route_ok(3) [OF chains apart] unfolding w by simp
  show ?thesis
  proof (cases c rule: rev_cases)
    case Nil
    then show ?thesis unfolding class_for_def count by (simp add: path_class_of_def)
  next
    case (snoc c' t)
    have top: "ca ! (length c - 1) = nodes ! t" using snoc by (simp add: inner(4) nth_append)
    have "t < length nodes" using is_chain_facts [OF chains(1)] snoc by auto
    then have role: "pn_role (ca ! (length c - 1)) = HardwareRole.HostBridge \<longleftrightarrow> root_at nodes t"
      unfolding top root_at_def using bridges nth_mem by blast
    have "root_at nodes t \<longleftrightarrow> c' = []"
    proof
      assume t: "root_at nodes t"
      then have "filter (root_at nodes) (route c xs ys) \<noteq> []" using snoc by (simp add: filter_empty_conv)
      then show "c' = []" using route_ok(3) [OF chains apart] snoc by (simp split: if_splits)
    next
      assume "c' = []"
      then show "root_at nodes t" using chain_links(3) [OF chains(1)] snoc by simp
    qed
    moreover have "length (switches_of (address_map nodes) (sa @ sb))
        = card (switch_of (address_map nodes) ` {n \<in> set ?ns. pn_role n = HardwareRole.SwitchPort})"
    proof -
      have "{n \<in> set ?ns. pn_role n = HardwareRole.SwitchPort} = {n \<in> set (sa @ sb). pn_role n = HardwareRole.SwitchPort}"
        using ends inner(3) by auto
      then show ?thesis using switches_of_set [of "address_map nodes" "sa @ sb"] distinct_card by metis
    qed
    ultimately show ?thesis
      unfolding class_for_def count path_class_of_def role inner(1,2) Option.bind.bind_lunit using snoc by simp
  qed
qed

lemma links_route:
  assumes forest: "forest nodes" and chains: "is_chain nodes (c @ xs)" "is_chain nodes (c @ ys)" and "ys \<noteq> []"
  shows "set (List.map_filter (\<lambda>n. Option.bind (pn_link n) pli_current)
     (drop (max (length c) 1) (map ((!) nodes) (c @ xs)) @ drop (max (length c) 1) (map ((!) nodes) (c @ ys))))
     = links_on (map ((!) nodes) (route c xs ys))"
proof -
  let ?below = "set (drop (max (length c) 1) (c @ xs)) \<union> set (drop (max (length c) 1) (c @ ys))"
  have "?below \<subseteq> set (route c xs ys)" by (cases c rule: rev_cases) (auto dest: in_set_dropD)
  then have below: "{p \<in> set (route c xs ys). \<exists>q\<in>set (route c xs ys). child_at nodes q p} = ?below"
    using route_climbed [OF forest chains] by blast
  have "links_on (map ((!) nodes) (route c xs ys)) =
      {l. \<exists>p\<in>{p \<in> set (route c xs ys). \<exists>q\<in>set (route c xs ys). child_at nodes q p}. Option.bind (pn_link (nodes ! p)) pli_current = Some l}"
    by (auto simp: links_on_def child_at_def)
  also have "\<dots> = {l. \<exists>p\<in>?below. Option.bind (pn_link (nodes ! p)) pli_current = Some l}" unfolding below by (rule refl)
  finally have links: "l \<in> links_on (map ((!) nodes) (route c xs ys)) \<longleftrightarrow>
      (\<exists>p\<in>?below. Option.bind (pn_link (nodes ! p)) pli_current = Some l)" for l by blast
  have nodes: "set (drop (max (length c) 1) (map ((!) nodes) (c @ xs)) @ drop (max (length c) 1) (map ((!) nodes) (c @ ys)))
      = (!) nodes ` ?below"
    by (simp only: drop_map set_append set_map image_Un)
  show ?thesis by (rule set_eqI) (simp only: set_map_filter nodes links bex_simps)
qed

lemma hardware_path_ok:
  assumes forest: "forest nodes" and ij: "i < j" "j < length nodes"
    and roots: "\<forall>n\<in>set nodes. pn_role n = HardwareRole.HostBridge \<longleftrightarrow> pn_parent n = None"
    and ends: "pn_role (nodes ! i) \<noteq> HardwareRole.SwitchPort" "pn_role (nodes ! j) \<noteq> HardwareRole.SwitchPort"
  shows "\<exists>p. hardware_path fl (address_map nodes) numa_nodes (nodes ! i, nodes ! j) = Some p
     \<and> path_for fl nodes numa_nodes (nodes ! i, nodes ! j) p"
proof -
  let ?L = "address_map nodes"
  obtain pa where pa: "root_chain ?L (nodes ! i) = Some (map ((!) nodes) pa)" "is_chain nodes pa" "last pa = i"
    using root_chain_forest [OF forest, of i] ij by auto
  obtain pb where pb: "root_chain ?L (nodes ! j) = Some (map ((!) nodes) pb)" "is_chain nodes pb" "last pb = j"
    using root_chain_forest [OF forest, of j] ij by auto
  obtain c xs ys where f: "pa = c @ xs" "pb = c @ ys" "ys \<noteq> []" "set xs \<inter> set ys = {}" "c = [] \<longrightarrow> xs \<noteq> []"
    using chains_fork [OF forest pa(2) pb(2)] pa(3) pb(3) ij(1) by auto
  note chains = pa(2) [unfolded f] pb(2) [unfolded f]
  note facts = is_chain_facts [OF chains(1)] is_chain_facts [OF chains(2)]
  define w where "w = route c xs ys"
  define mid where "mid = rev (drop (length c - 1) (butlast (c @ xs))) @ butlast ys"
  have w: "w = i # mid @ [j]"
    unfolding w_def mid_def using route_ends [of c xs i ys j] pa(3) pb(3) f facts by simp
  have bounds: "\<forall>p\<in>set w. p < length nodes"
  proof
    fix p
    assume "p \<in> set w"
    then have "p \<in> set (c @ xs) \<union> set (c @ ys)" unfolding w_def route_def by (auto dest: in_set_dropD)
    then show "p < length nodes" using facts by blast
  qed
  have common: "common_prefix (map ((!) nodes) pa) (map ((!) nodes) pb) = length c"
    unfolding f(1,2) by (rule common_prefix_fork [OF forest]) (use facts f(4) in auto)
  let ?ns = "map ((!) nodes) w"
  have rising: "checked_slice (length c - 1) (length (map ((!) nodes) pa) - 1) (map ((!) nodes) pa)
      = Some (map ((!) nodes) (drop (length c - 1) (butlast (c @ xs))))"
    unfolding f(1) checked_slice_map length_map checked_slice_top by simp
  have falling: "checked_slice (length c) (length (map ((!) nodes) pb) - 1) (map ((!) nodes) pb) = Some (map ((!) nodes) (butlast ys))"
    unfolding f(2) checked_slice_map length_map checked_slice_rest [OF f(3)] by simp
  have cls: "path_class_of ?L numa_nodes (nodes ! i) (nodes ! j) (map ((!) nodes) pa) (map ((!) nodes) pb) (length c)
      = Some (class_for nodes numa_nodes (nodes ! i) (nodes ! j) ?ns)"
    using path_class_route [OF chains f(4,3,5) roots, of i mid j] ends facts(1) rising falling f(1,2) w bounds
    by (simp add: w_def mid_def rev_map)
  define links where "links = List.map_filter (\<lambda>n. Option.bind (pn_link n) pli_current)
     (drop (max (length c) 1) (map ((!) nodes) pa) @ drop (max (length c) 1) (map ((!) nodes) pb))"
  have links: "set links = links_on ?ns"
    unfolding links_def f(1,2) w_def by (rule links_route [OF forest chains f(3)])
  define p where "p = \<lparr>path_id = pn_address (nodes ! i) @ ch CHR ''/'' # pn_address (nodes ! j), path_a = pn_address (nodes ! i),
     path_b = pn_address (nodes ! j), path_class = class_for nodes numa_nodes (nodes ! i) (nodes ! j) ?ns,
     path_via = map pn_address (map ((!) nodes) mid), path_bottleneck = min_link fl links\<rparr>"
  have "hardware_path fl ?L numa_nodes (nodes ! i, nodes ! j) = Some p"
    unfolding hardware_path_def prod.case pa(1) pb(1) Option.bind.bind_lunit Let_def common rising falling cls
    by (simp add: p_def mid_def links_def rev_map)
  moreover have "path_for fl nodes numa_nodes (nodes ! i, nodes ! j) p"
  proof -
    have "distinct ?ns"
      using route_ok(1) [OF chains f(4,3,5)] bounds forest_position [OF forest]
      by (force simp: distinct_map inj_on_def w_def)
    moreover have "successively neighbours ?ns"
      using route_ok(2) [OF chains f(4,3,5)] by (simp add: successively_map w_def)
    moreover have "set ?ns \<subseteq> set nodes" using bounds by auto
    moreover have "case min_link fl links of None \<Rightarrow> links_on ?ns = {}
             | Some l \<Rightarrow> l \<in> links_on ?ns \<and> (\<forall>x\<in>links_on ?ns. total_key (bandwidth fl l) \<le> total_key (bandwidth fl x))"
      using min_link_first [where fl = fl and ls = links] unfolding links [symmetric] by (simp split: option.splits)
    ultimately show ?thesis unfolding path_for_def prod.case
      by (intro conjI exI [of _ ?ns]) (simp_all add: p_def w)
  qed
  ultimately show ?thesis by blast
qed

lemma pairs_in_order:
  "(a, b) \<in> set (pairs (filter P xs)) \<Longrightarrow> \<exists>i j. i < j \<and> j < length xs \<and> a = xs ! i \<and> b = xs ! j \<and> P a \<and> P b"
proof (induction xs)
  case (Cons x xs)
  show ?case
  proof (cases "P x \<and> a = x \<and> b \<in> set (filter P xs)")
    case True
    then obtain j where "j < length xs" "xs ! j = b" "P b" by (auto simp: in_set_conv_nth)
    then show ?thesis using True by (intro exI [of _ 0] exI [of _ "Suc j"]) auto
  next
    case False
    then have "(a, b) \<in> set (pairs (filter P xs))" using Cons.prems by (auto split: if_splits)
    then obtain i j where "i < j" "j < length xs" "a = xs ! i" "b = xs ! j" "P a" "P b" using Cons.IH by blast
    then show ?thesis by (intro exI [of _ "Suc i"] exI [of _ "Suc j"]) auto
  qed
qed simp

lemma those_map_all:
  "(\<And>x. x \<in> set xs \<Longrightarrow> \<exists>y. f x = Some y \<and> Q x y) \<Longrightarrow> \<exists>ys. those (map f xs) = Some ys \<and> list_all2 Q xs ys"
proof (induction xs)
  case (Cons x xs)
  then obtain y ys where "f x = Some y" "Q x y" "those (map f xs) = Some ys" "list_all2 Q xs ys" by force
  then show ?case by simp
qed simp

lemma hardware_paths_ok:
  assumes "forest nodes" "\<forall>n\<in>set nodes. pn_role n = HardwareRole.HostBridge \<longleftrightarrow> pn_parent n = None"
  shows "\<exists>paths. build_hardware_paths fl nodes numa_nodes = Some paths
     \<and> list_all2 (path_for fl nodes numa_nodes) (pairs (endpoints_of nodes)) paths"
  unfolding build_hardware_paths_def
proof (rule those_map_all)
  fix ab
  assume "ab \<in> set (pairs (endpoints_of nodes))"
  then have "(fst ab, snd ab) \<in> set (pairs (filter (\<lambda>n. pn_role n = HardwareRole.Endpoint) nodes))"
    by (simp add: endpoints_of_def)
  from pairs_in_order [OF this] obtain i j where ij: "i < j" "j < length nodes" "ab = (nodes ! i, nodes ! j)"
      "pn_role (nodes ! i) = HardwareRole.Endpoint" "pn_role (nodes ! j) = HardwareRole.Endpoint"
    by (metis prod.collapse)
  then show "\<exists>p. hardware_path fl (address_map nodes) numa_nodes ab = Some p \<and> path_for fl nodes numa_nodes ab p"
    using hardware_path_ok [OF assms(1) ij(1,2) assms(2)] by simp
qed

text \<open>
  C35: the paths between the endpoints of a topology. For a forest whose parentless nodes are the host bridges, the
  computation neither panics nor loops and gives one path for each pair of endpoints, in order. The names it lists, with
  the two ends, are those of different nodes, each a neighbour of the next. The class says whether the way goes between
  two host bridges (of one known NUMA node or not), through one, or below all of them and then over at most one switch or
  more. The bottleneck is a slowest of the known links on the way.
\<close>

theorem hardware_paths_walk:
  assumes "forest nodes" "\<forall>n\<in>set nodes. pn_role n = HardwareRole.HostBridge \<longleftrightarrow> pn_parent n = None"
  shows "\<exists>paths. build_hardware_paths fl nodes numa_nodes = Some paths
     \<and> list_all2 (path_for fl nodes numa_nodes) (pairs (endpoints_of nodes)) paths"
  by (rule hardware_paths_ok [OF assms])

text \<open>Two graphics cards on one bus under a root port.\<close>

definition sample_node :: "string \<Rightarrow> string option \<Rightarrow> HardwareRole \<Rightarrow> PciNode" where
  "sample_node address parent role = \<lparr>pn_address = lit address, pn_parent = map_option lit parent, pn_role = role, pn_kind = None,
     pn_path = [], pn_class = None, pn_vendor_id = None, pn_device_id = None, pn_driver = None, pn_numa_node = None, pn_link = None,
     pn_power_state = None, pn_runtime_status = None, pn_iommu_group = None, pn_bars = []\<rparr>"

definition sample_nodes :: "PciNode list" where
  "sample_nodes = [sample_node ''pci0000:00'' None HardwareRole.HostBridge,
     sample_node ''0000:00:01.0'' (Some ''pci0000:00'') HardwareRole.RootPort,
     sample_node ''0000:01:00.0'' (Some ''0000:00:01.0'') HardwareRole.Endpoint,
     sample_node ''0000:01:00.1'' (Some ''0000:00:01.0'') HardwareRole.Endpoint]"

lemma sample_forest: "forest sample_nodes"
proof -
  have "distinct (map pn_address sample_nodes)" by (simp add: sample_nodes_def sample_node_def lit_map_ch)
  moreover have "\<forall>x<length sample_nodes. case pn_parent (sample_nodes ! x) of None \<Rightarrow> True
      | Some p \<Rightarrow> \<exists>y<x. pn_address (sample_nodes ! y) = p"
  proof (intro allI impI)
    fix x
    assume "x < length sample_nodes"
    then have "x \<in> {0, 1, 2, 3}" by (auto simp: sample_nodes_def)
    then show "case pn_parent (sample_nodes ! x) of None \<Rightarrow> True | Some p \<Rightarrow> \<exists>y<x. pn_address (sample_nodes ! y) = p"
      by (auto simp: sample_nodes_def sample_node_def intro!: exI [of _ "if x = 1 then 0 else 1 :: nat"])
  qed
  ultimately show ?thesis by (simp add: forest_def)
qed

lemma sample_bridges: "\<forall>n\<in>set sample_nodes. pn_role n = HardwareRole.HostBridge \<longleftrightarrow> pn_parent n = None"
  by (simp add: sample_nodes_def sample_node_def)

theorem hardware_paths_walk_witness:
  "\<exists>p. build_hardware_paths sample_floats sample_nodes 1 = Some [p]
     \<and> path_for sample_floats sample_nodes 1 (sample_nodes ! 2, sample_nodes ! 3) p"
proof -
  have "pairs (endpoints_of sample_nodes) = [(sample_nodes ! 2, sample_nodes ! 3)]"
    by (simp add: endpoints_of_def sample_nodes_def sample_node_def)
  then show ?thesis
    using hardware_paths_walk [OF sample_forest sample_bridges, of sample_floats 1] by (auto simp: list_all2_Cons1)
qed

text \<open>The two steps together: on the topology read from sysfs the paths are computed.\<close>

theorem topology_paths:
  assumes "one_tree (set (device_chains s sys))"
  shows "\<exists>nodes paths. read_topology fl s sys = Some nodes \<and> build_hardware_paths fl nodes numa_nodes = Some paths
     \<and> list_all2 (path_for fl nodes numa_nodes) (pairs (endpoints_of nodes)) paths"
proof -
  obtain nodes where n: "read_topology fl s sys = Some nodes" "forest nodes"
      "\<forall>n\<in>set nodes. (pn_parent n = None \<longleftrightarrow> is_host_bridge (pn_address n)) \<and> pn_role n = node_role (pn_address n) (pn_kind n) (pn_parent n)"
    using topology_shape [OF assms, of fl] by (elim exE conjE) (metis (no_types, lifting))
  have "pn_role n = HardwareRole.HostBridge \<longleftrightarrow> pn_parent n = None" if m: "n \<in> set nodes" for n
    using n(3) m by (simp add: node_role_def)
  then show ?thesis using n(1) hardware_paths_ok [OF n(2), of fl numa_nodes] by blast
qed

end
