(* ===== verification/Socket_Tables.thy ===== *)
theory Socket_Tables
  imports Socket_Names Hash_Map Netlink Kernel_Records Memory_Text Procfs
begin

text \<open>
  What the helper learns of sockets (\<open>src/privileged_helper/process/sockets.rs\<close>,
  \<open>src/privileged_helper/process/socket_metadata.rs\<close>): the kernel's tables under \<open>/proc/PID/net\<close>, the answers of
  \<open>NETLINK_SOCK_DIAG\<close> for UNIX sockets, and the options of a duplicated descriptor. What a file holds and what a
  system call returns are arguments. The shown lemmas print the kernel's formats and read them back.
\<close>

unbundle bit_operations_syntax

section \<open>Tables\<close>

definition TABLE_LIMIT :: nat where "TABLE_LIMIT = 4 * 1024 * 1024"

datatype 'e table_error = OpenFailed 'e | TableTooLarge

text \<open>\<open>content\<close> is the outcome of opening and reading the file.\<close>

definition read_socket_table :: "'e + byte list \<Rightarrow> 'e table_error + rstring" where
  "read_socket_table content =
     (case content of
        Inl e \<Rightarrow> Inl (OpenFailed e)
      | Inr content \<Rightarrow>
          (let bytes = take (TABLE_LIMIT + 1) content in
           if length bytes \<le> TABLE_LIMIT then Inr (from_utf8_lossy bytes) else Inl TableTooLarge))"

datatype address_error = MissingPort | InvalidIpEncoding | InvalidIpAddress | InvalidNumber

definition hex_u16 :: "rstring \<Rightarrow> u16 option" where
  "hex_u16 s = map_option word_of_nat (parse_unsigned 16 16 s)"

text \<open>\<open>u32::from_str_radix(s, 16)?.to_le_bytes()\<close>.\<close>

definition address_word :: "rstring \<Rightarrow> address_error + byte list" where
  "address_word s = ok_or (map_option (\<lambda>n. le_bytes 4 (unat n)) (hex_u32 s)) InvalidNumber"

definition is_ascii_hexdigit :: "uchar \<Rightarrow> bool" where
  "is_ascii_hexdigit c \<longleftrightarrow> to_digit 16 c \<noteq> None"

text \<open>\<open>SocketAddr::new\<close>.\<close>

fun SocketAddr_new :: "IpAddr \<Rightarrow> u16 \<Rightarrow> SocketAddr" where
  "SocketAddr_new (V4 ip) port = SocketV4 ip port"
| "SocketAddr_new (V6 ip) port = SocketV6 ip port 0 0"

text \<open>The address part: one word, or four.\<close>

definition parse_address :: "rstring \<Rightarrow> address_error + IpAddr" where
  "parse_address ip =
     (if \<not> list_all is_ascii_hexdigit ip then Inl InvalidIpEncoding
      else if length ip = 8 then and_then (address_word ip) (\<lambda>bytes. Inr (V4 (array_of bytes)))
      else if length ip = 32 then
        and_then (address_word (take 8 ip)) (\<lambda>a.
        and_then (address_word (take 8 (drop 8 ip))) (\<lambda>b.
        and_then (address_word (take 8 (drop 16 ip))) (\<lambda>c.
        and_then (address_word (take 8 (drop 24 ip))) (\<lambda>d.
        let ip = array_of (a @ b @ c @ d) in
        Inr (case to_ipv4_mapped ip of Some v4 \<Rightarrow> V4 v4 | None \<Rightarrow> V6 ip)))))
      else Inl InvalidIpAddress)"

definition parse_procfs_socket_address :: "rstring \<Rightarrow> address_error + SocketAddr" where
  "parse_procfs_socket_address text =
     and_then (ok_or (split_once (ch CHR '':'') text) MissingPort) (\<lambda>(ip, port).
     and_then (parse_address ip) (\<lambda>ip.
     and_then (ok_or (hex_u16 port) InvalidNumber) (\<lambda>port.
     Inr (SocketAddr_new ip port))))"

definition ok :: "'e + 'a \<Rightarrow> 'a option" where
  "ok r = (case r of Inl _ \<Rightarrow> None | Inr x \<Rightarrow> Some x)"

definition column :: "rstring list \<Rightarrow> nat \<Rightarrow> rstring option" where
  "column f i = (if i < length f then Some (f ! i) else None)"

definition inet_entry :: "SocketProtocol \<Rightarrow> rstring \<Rightarrow> (u64 \<times> SocketInfo) option" where
  "inet_entry protocol line =
     (let f = split_whitespace line in
      Option.bind (Option.bind (column f 9) parse_u64) (\<lambda>inode.
      if inode = 0 then None else
      Option.bind (Option.bind (column f 3) hex_u32) (\<lambda>state.
      Option.bind (Option.bind (column f 1) (\<lambda>a. ok (parse_procfs_socket_address a))) (\<lambda>local.
      Option.bind (Option.bind (column f 2) (\<lambda>a. ok (parse_procfs_socket_address a))) (\<lambda>remote.
      Some (inode, \<lparr>si_protocol = protocol, si_state = Some (SocketState_inet state), si_local = Some local,
        si_remote = Some remote, si_path = None, si_peer_inode = None\<rparr>))))))"

definition parse_inet_socket_table :: "rstring \<Rightarrow> SocketProtocol \<Rightarrow> (u64 \<times> SocketInfo) list" where
  "parse_inet_socket_table text protocol =
     hash_map (List.map_filter (inet_entry protocol) (drop 1 (text_lines text)))"

text \<open>The seven columns before the path; the last may be followed by nothing.\<close>

definition unix_entry :: "rstring \<Rightarrow> (u64 \<times> SocketInfo) option" where
  "unix_entry line =
     Option.bind (ok (take_columns 7 (trim line))) (\<lambda>(f, rest).
     Option.bind (hex_u32 (f ! 4)) (\<lambda>socket_type.
     Option.bind (hex_u32 (f ! 5)) (\<lambda>state.
     Option.bind (hex_u32 (f ! 3)) (\<lambda>flags.
     Option.bind (parse_u64 (f ! 6)) (\<lambda>inode.
     Some (inode, \<lparr>si_protocol = SocketProtocol.Unix (SocketType_from_code socket_type),
       si_state = Some (SocketState_unix_proc state (flags AND 0x10000 \<noteq> 0)), si_local = None, si_remote = None,
       si_path = (if rest = [] then None else Some rest), si_peer_inode = None\<rparr>))))))"

definition parse_unix_socket_table :: "rstring \<Rightarrow> (u64 \<times> SocketInfo) list" where
  "parse_unix_socket_table text = hash_map (List.map_filter unix_entry (drop 1 (text_lines text)))"

text \<open>The tables of the other kinds: the columns of the inode and of the protocol, by the name of the table.\<close>

definition SOCK_RAW_columns :: "rstring list \<Rightarrow> u32 \<Rightarrow> (nat \<times> u32 \<times> SocketType option \<times> u32) option" where
  "SOCK_RAW_columns f family =
     Option.bind (Option.bind (column f 1) (split_once (ch CHR '':''))) (\<lambda>(_, protocol).
     Option.bind (hex_u32 protocol) (\<lambda>protocol. Some (9, family, Some SocketType.Raw, protocol)))"

definition other_columns :: "rstring list \<Rightarrow> string \<Rightarrow> (nat \<times> u32 \<times> SocketType option \<times> u32) option" where
  "other_columns f name =
     (if name = ''netlink'' then
        Option.bind (Option.bind (column f 1) parse_u32) (\<lambda>protocol. Some (9, AF_NETLINK, None, protocol))
      else if name = ''raw'' then SOCK_RAW_columns f AF_INET
      else if name = ''raw6'' then SOCK_RAW_columns f AF_INET6
      else if name = ''packet'' then
        Option.bind (Option.bind (column f 2) parse_u32) (\<lambda>socket_type.
        Option.bind (Option.bind (column f 3) hex_u32) (\<lambda>protocol.
        Some (8, AF_PACKET, Some (SocketType_from_code socket_type), protocol)))
      else None)"

definition other_entry :: "string \<Rightarrow> rstring \<Rightarrow> (u64 \<times> SocketInfo) option" where
  "other_entry name line =
     (let f = split_whitespace line in
      Option.bind (other_columns f name) (\<lambda>(index, family, socket_type, protocol).
      Option.bind (Option.bind (column f index) parse_u64) (\<lambda>inode.
      if inode = 0 then None
      else Some (inode, \<lparr>si_protocol = SocketProtocol.Other family socket_type protocol, si_state = None,
        si_local = None, si_remote = None, si_path = None, si_peer_inode = None\<rparr>))))"

definition parse_table :: "rstring \<Rightarrow> string \<Rightarrow> (u64 \<times> SocketInfo) list" where
  "parse_table text name = hash_map (List.map_filter (other_entry name) (drop 1 (text_lines text)))"

text \<open>\<open>HashMap::extend\<close>.\<close>

definition map_extend :: "('k \<times> 'v) list \<Rightarrow> ('k \<times> 'v) list \<Rightarrow> ('k \<times> 'v) list" where
  "map_extend m new = fold (\<lambda>(k, v) m. AList.update k v m) new m"

text \<open>\<open>net\<close> gives the outcome of reading \<open>/proc/PID/net/name\<close>.\<close>

definition additional_sockets :: "(string \<Rightarrow> 'e + byte list) \<Rightarrow> (u64 \<times> SocketInfo) list" where
  "additional_sockets net =
     fold (\<lambda>name result.
       case read_socket_table (net name) of
         Inr text \<Rightarrow> map_extend result (parse_table text name)
       | Inl _ \<Rightarrow> result)
     [''netlink'', ''raw'', ''raw6'', ''packet''] []"

section \<open>UNIX diagnostics\<close>

datatype diag_error = InvalidDiagMessage | Attribute netlink_error

text \<open>\<open>replace('\\0', "\\\\0")\<close>.\<close>

definition escape_nul :: "rstring \<Rightarrow> rstring" where
  "escape_nul s = concat (map (\<lambda>c. if code_point c = 0 then [ch (CHR 0x5C), ch CHR ''0''] else [c]) s)"

definition unix_name :: "byte list \<Rightarrow> rstring" where
  "unix_name data =
     (if hd data = 0 then ch (CHR 0x40) # escape_nul (from_utf8_lossy (tl data))
      else from_utf8_lossy (if last data = 0 then butlast data else data))"

definition diag_attribute :: "u16 \<times> byte list \<Rightarrow> SocketInfo \<Rightarrow> netlink_error + SocketInfo" where
  "diag_attribute = (\<lambda>(kind, data) info.
     and_then (if kind = 2 then
         and_then (Netlink.u32_at data 0) (\<lambda>inode.
         Inr (info\<lparr>si_peer_inode := if inode \<noteq> 0 then Some (ucast inode) else None\<rparr>))
       else Inr info) (\<lambda>info.
     Inr (if kind = 0 \<and> data \<noteq> [] then info\<lparr>si_path := Some (unix_name data)\<rparr> else info)))"

fun diag_attributes :: "(u16 \<times> byte list) list \<Rightarrow> SocketInfo \<Rightarrow> netlink_error + SocketInfo" where
  "diag_attributes [] info = Inr info"
| "diag_attributes (a # as) info = and_then (diag_attribute a info) (diag_attributes as)"

definition parse_unix_diag_message :: "byte list \<Rightarrow> diag_error + u64 \<times> SocketInfo" where
  "parse_unix_diag_message bytes =
     (if 16 \<le> length bytes \<and> bytes ! 0 = ucast AF_UNIX then
        (case and_then (parse_netlink_attributes (drop 16 bytes)) (\<lambda>as.
           and_then (diag_attributes as \<lparr>si_protocol = SocketProtocol.Unix (SocketType_from_code (ucast (bytes ! 1))),
             si_state = Some (SocketState_unix_diag (ucast (bytes ! 2))), si_local = None, si_remote = None,
             si_path = None, si_peer_inode = None\<rparr>) (\<lambda>info.
           and_then (Netlink.u32_at bytes 4) (\<lambda>inode. Inr (ucast inode, info)))) of
           Inl e \<Rightarrow> Inl (Attribute e)
         | Inr r \<Rightarrow> Inr r)
      else Inl InvalidDiagMessage)"

text \<open>The request: \<open>struct unix_diag_req\<close> with every state and \<open>SHOW_NAME | SHOW_PEER\<close>.\<close>

definition unix_diag_payload :: "byte list" where
  "unix_diag_payload = [ucast AF_UNIX, 0, 0, 0] @ to_ne_bytes (- 1 :: u32) @ replicate 4 0 @ to_ne_bytes (5 :: u32) @ replicate 8 0"

definition unix_diag_request :: NetlinkDumpRequest where
  "unix_diag_request = \<lparr>message_type = 20, reply_type = 20, sequence = 1, payload = unix_diag_payload\<rparr>"

text \<open>\<open>dump\<close> is what the dump of \<open>unix_diag_request\<close> on the namespace's socket returns.\<close>

datatype 'e peers_error = DumpError 'e | MessageError diag_error

fun insert_replies :: "byte list list \<Rightarrow> (u64 \<times> SocketInfo) list \<Rightarrow> 'e peers_error + (u64 \<times> SocketInfo) list" where
  "insert_replies [] result = Inr result"
| "insert_replies (body # replies) result =
     (case parse_unix_diag_message body of
        Inl e \<Rightarrow> Inl (MessageError e)
      | Inr (inode, info) \<Rightarrow> insert_replies replies (AList.update inode info result))"

definition collect_unix_socket_peers ::
  "(NetlinkDumpRequest \<Rightarrow> 'e + byte list list) \<Rightarrow> 'e peers_error + (u64 \<times> SocketInfo) list"
where
  "collect_unix_socket_peers dump =
     (case dump unix_diag_request of
        Inl e \<Rightarrow> Inl (DumpError e)
      | Inr replies \<Rightarrow> insert_replies replies [])"

section \<open>Descriptor metadata\<close>

definition EPERM :: nat where "EPERM = 1"
definition EACCES :: nat where "EACCES = 13"
definition ENOSYS :: nat where "ENOSYS = 38"
definition ENOTCONN :: nat where "ENOTCONN = 107"
definition SO_TYPE :: nat where "SO_TYPE = 3"
definition SO_ACCEPTCONN :: nat where "SO_ACCEPTCONN = 30"
definition SO_PROTOCOL :: nat where "SO_PROTOCOL = 38"
definition SO_DOMAIN :: nat where "SO_DOMAIN = 39"
definition S_IFMT :: u32 where "S_IFMT = 0xF000"
definition S_IFSOCK :: u32 where "S_IFSOCK = 0xC000"

record SocketMetadata =
  sm_protocol :: "SocketProtocol option"
  sm_connection_status :: SocketConnectionStatus

definition has_observation :: "SocketMetadata \<Rightarrow> bool" where
  "has_observation m \<longleftrightarrow> sm_protocol m \<noteq> None \<or> sm_connection_status m \<noteq> SocketConnectionStatus.Unknown"

definition metadata_status :: "bool option \<Rightarrow> nat option \<Rightarrow> SocketConnectionStatus" where
  "metadata_status accepting peer_error =
     (if accepting = Some True then SocketConnectionStatus.Listening
      else if peer_error = None then SocketConnectionStatus.PeerPresent
      else if accepting = Some False \<and> peer_error = Some ENOTCONN then SocketConnectionStatus.Unconnected
      else SocketConnectionStatus.Unknown)"

text \<open>A reader; \<open>rd_pidfd\<close> tells whether the descriptor of the process is open.\<close>

record SocketMetadataReader =
  rd_process_id :: ProcessId
  rd_pidfd :: bool
  rd_unavailable :: "nat option"

definition SocketMetadataReader_new :: "ProcessId \<Rightarrow> SocketMetadataReader" where
  "SocketMetadataReader_new process_id = \<lparr>rd_process_id = process_id, rd_pidfd = False, rd_unavailable = None\<rparr>"

record file_stat =
  fs_mode :: u32
  fs_dev :: u64
  fs_ino :: u64

text \<open>
  What the system answers during one call of \<open>read\<close>: the three readings of \<open>/proc/PID/stat\<close>, and the outcome of each
  system call, an errno on the left. \<open>getsockopt\<close> reports a value and the length written.
\<close>

record socket_calls =
  sc_stat_first :: "stat_error + Stat"
  sc_pidfd_open :: "nat + unit"
  sc_stat_opened :: "stat_error + Stat"
  sc_pidfd_getfd :: "nat + unit"
  sc_fstat :: "nat + file_stat"
  sc_getsockopt :: "nat \<Rightarrow> nat + i32 \<times> nat"
  sc_getpeername :: "nat + unit"
  sc_stat_last :: "stat_error + Stat"

datatype metadata_error =
    Unavailable nat
  | IdentityError identity_error
  | SyscallFailed nat
  | MetadataStat nat
  | IdentityChanged

definition syscall_error :: "nat \<Rightarrow> SocketMetadataReader \<Rightarrow> metadata_error \<times> SocketMetadataReader" where
  "syscall_error errno r =
     (SyscallFailed errno, if errno = EPERM \<or> errno = EACCES \<or> errno = ENOSYS then r\<lparr>rd_unavailable := Some errno\<rparr> else r)"

text \<open>\<open>option\<close>: a value of the right length that is not negative.\<close>

definition socket_option :: "socket_calls \<Rightarrow> nat \<Rightarrow> u32 option" where
  "socket_option calls name =
     (case sc_getsockopt calls name of
        Inl _ \<Rightarrow> None
      | Inr (v, len) \<Rightarrow> if len = 4 \<and> 0 \<le> sint v then Some v else None)"

definition observed_metadata :: "socket_calls \<Rightarrow> SocketMetadata" where
  "observed_metadata calls = \<lparr>sm_protocol =
       (case (socket_option calls SO_DOMAIN, socket_option calls SO_TYPE, socket_option calls SO_PROTOCOL) of
          (Some domain, Some socket_type, Some protocol) \<Rightarrow> Some (SocketProtocol_from_codes domain socket_type protocol)
        | _ \<Rightarrow> None),
     sm_connection_status = metadata_status (map_option (\<lambda>v. v \<noteq> 0) (socket_option calls SO_ACCEPTCONN))
       (case sc_getpeername calls of Inr _ \<Rightarrow> None | Inl errno \<Rightarrow> Some errno)\<rparr>"

text \<open>The part of \<open>read\<close> after the descriptor of the process is open.\<close>

definition read_duplicate ::
  "socket_calls \<Rightarrow> u64 \<Rightarrow> u64 \<Rightarrow> SocketMetadataReader \<Rightarrow> (metadata_error + SocketMetadata) \<times> SocketMetadataReader"
where
  "read_duplicate calls device inode r =
     (case sc_pidfd_getfd calls of
        Inl errno \<Rightarrow> (case syscall_error errno r of (e, r) \<Rightarrow> (Inl e, r))
      | Inr _ \<Rightarrow>
          (case sc_fstat calls of
             Inl errno \<Rightarrow> (Inl (MetadataStat errno), r)
           | Inr stat \<Rightarrow>
               if fs_mode stat AND S_IFMT = S_IFSOCK \<and> fs_dev stat = device \<and> fs_ino stat = inode then
                 (case validate_process_identity (sc_stat_last calls) (rd_process_id r) of
                    Inl e \<Rightarrow> (Inl (IdentityError e), r)
                  | Inr _ \<Rightarrow> (Inr (observed_metadata calls), r))
               else (Inl IdentityChanged, r)))"

definition read_metadata ::
  "socket_calls \<Rightarrow> u64 \<Rightarrow> u64 \<Rightarrow> SocketMetadataReader \<Rightarrow> (metadata_error + SocketMetadata) \<times> SocketMetadataReader"
where
  "read_metadata calls device inode r =
     (case rd_unavailable r of
        Some reason \<Rightarrow> (Inl (Unavailable reason), r)
      | None \<Rightarrow>
          (case validate_process_identity (sc_stat_first calls) (rd_process_id r) of
             Inl e \<Rightarrow> (Inl (IdentityError e), r)
           | Inr _ \<Rightarrow>
               if rd_pidfd r then read_duplicate calls device inode r
               else
                 (case sc_pidfd_open calls of
                    Inl errno \<Rightarrow> (case syscall_error errno r of (e, r) \<Rightarrow> (Inl e, r))
                  | Inr _ \<Rightarrow>
                      (let r = r\<lparr>rd_pidfd := True\<rparr> in
                       case validate_process_identity (sc_stat_opened calls) (rd_process_id r) of
                         Inl e \<Rightarrow> (Inl (IdentityError e), r)
                       | Inr _ \<Rightarrow> read_duplicate calls device inode r))))"

section \<open>The kernel's columns\<close>

text \<open>\<open>%0kX\<close> for a number of at most \<open>k\<close> digits.\<close>

definition upper_digit :: "nat \<Rightarrow> uchar" where
  "upper_digit d = chr (if d < 10 then 48 + d else 55 + d)"

primrec upper_hex :: "nat \<Rightarrow> nat \<Rightarrow> rstring" where
  "upper_hex 0 n = []"
| "upper_hex (Suc k) n = upper_hex k (n div 16) @ [upper_digit (n mod 16)]"

lemma length_upper_hex [simp]: "length (upper_hex k n) = k"
  by (induction k arbitrary: n) simp_all

lemma to_digit_upper [simp]: "d < 16 \<Longrightarrow> to_digit 16 (upper_digit d) = Some d"
  by (auto simp: to_digit_def upper_digit_def)

lemma digits_value_upper: "digits_value 16 acc (upper_hex k n) = Some (acc * 16 ^ k + n mod 16 ^ k)"
proof (induction k arbitrary: n)
  case (Suc k)
  have "n mod (16 * 16 ^ k) = 16 * (n div 16 mod 16 ^ k) + n mod 16" by (rule mod_mult2_eq)
  then show ?case by (simp add: Suc digits_value_append algebra_simps)
qed simp

lemma parse_upper_hex:
  assumes "0 < k" "n < 16 ^ k" "n < 2 ^ w"
  shows "parse_unsigned w 16 (upper_hex k n) = Some n"
proof -
  have "upper_hex k n \<noteq> []" using assms(1) length_upper_hex [of k n] by (metis length_0_conv less_not_refl)
  then show ?thesis using assms digits_value_upper [of 0 k n] by (intro parse_unsigned_digits) simp_all
qed

lemma upper_hex_digit: "c \<in> set (upper_hex k n) \<Longrightarrow> \<exists>d. to_digit 16 c = Some d"
  by (rule digits_value_digits [OF digits_value_upper])

lemma upper_hex_chars:
  "list_all is_ascii_hexdigit (upper_hex k n)" "ch CHR '':'' \<notin> set (upper_hex k n)" "0 < k \<Longrightarrow> is_word (upper_hex k n)"
proof -
  show "list_all is_ascii_hexdigit (upper_hex k n)"
    using upper_hex_digit by (fastforce simp: list_all_iff is_ascii_hexdigit_def)
  show "ch CHR '':'' \<notin> set (upper_hex k n)" using upper_hex_digit to_digit_alnum by blast
  have "\<not> is_whitespace c" if "c \<in> set (upper_hex k n)" for c using upper_hex_digit [OF that] to_digit_alnum by blast
  moreover have "upper_hex k n \<noteq> []" if "0 < k" using that length_upper_hex [of k n] by (metis length_0_conv less_not_refl)
  ultimately show "0 < k \<Longrightarrow> is_word (upper_hex k n)" by (simp add: is_word_def list_all_iff)
qed

lemma hex_u32_upper: "n < 2 ^ 32 \<Longrightarrow> hex_u32 (upper_hex 8 n) = Some (word_of_nat n)"
  by (simp add: hex_u32_def parse_upper_hex)

lemma hex_u16_upper: "hex_u16 (upper_hex 4 (unat port)) = Some port"
  using unat_less_pow [of port] by (simp add: hex_u16_def parse_upper_hex)

text \<open>Columns, each after some spaces, with a space between two of them.\<close>

fun spaced :: "(nat \<times> rstring) list \<Rightarrow> rstring" where
  "spaced [] = []"
| "spaced [(n, w)] = replicate n (ch CHR '' '') @ w"
| "spaced ((n, w) # cs) = replicate n (ch CHR '' '') @ w @ ch CHR '' '' # spaced cs"

definition words :: "(nat \<times> rstring) list \<Rightarrow> bool" where
  "words cs \<longleftrightarrow> list_all (\<lambda>c. is_word (snd c)) cs"

lemma split_whitespace_gap [simp]:
  "split_whitespace (replicate n (ch CHR '' '') @ s) = split_whitespace s"
  "split_whitespace (replicate n (ch CHR '' '')) = []"
proof -
  show *: "split_whitespace (replicate n (ch CHR '' '') @ s) = split_whitespace s" for s by (induction n) simp_all
  show "split_whitespace (replicate n (ch CHR '' '')) = []" using * [of "[]"] by simp
qed

lemma split_word_spaces: "is_word w \<Longrightarrow> split_whitespace (w @ replicate m (ch CHR '' '')) = [w]"
  by (cases m) (simp_all add: split_whitespace_last split_whitespace_word)

lemma split_spaced: "words cs \<Longrightarrow> split_whitespace (spaced cs @ replicate m (ch CHR '' '')) = map snd cs"
  by (induction cs rule: spaced.induct) (simp_all add: words_def split_word_spaces split_whitespace_word)

lemma spaced_chars: "words cs \<Longrightarrow> c \<in> set (spaced cs) \<Longrightarrow> c = ch CHR '' '' \<or> \<not> is_whitespace c"
  by (induction cs rule: spaced.induct) (auto simp: words_def is_word_def list_all_iff)

lemma space_line:
  assumes "\<forall>c\<in>set s. c = ch CHR '' '' \<or> \<not> is_whitespace c"
  shows "is_line s"
proof -
  have "is_whitespace (ch (CHR 0x0A))" "is_whitespace (ch (CHR 0x0D))" by (simp_all add: is_whitespace_def)
  then have "ch (CHR 0x0A) \<notin> set s" "ch (CHR 0x0D) \<notin> set s" using assms by auto
  then show ?thesis by (metis is_line_def last_in_set)
qed

lemma spaced_line: "words cs \<Longrightarrow> is_line (spaced cs @ replicate m (ch CHR '' ''))"
  by (rule space_line) (auto dest: spaced_chars)

lemma take_spaced:
  assumes "words cs"
  shows "take_columns (length cs) (trim_start (spaced cs @ ch CHR '' '' # rest)) =
    Inr (map snd cs, trim_start (ch CHR '' '' # rest))"
  using assms
proof (induction cs rule: spaced.induct)
  case (2 n w)
  then show ?case by (simp add: words_def take_columns_word del: take_columns.simps(2))
next
  case (3 n w c cs)
  then have "is_word w" "words (c # cs)" by (simp_all add: words_def)
  with 3(1) show ?case by (simp add: take_columns_word del: take_columns.simps(2))
qed simp

lemma take_spaced_last:
  assumes "words cs" "cs \<noteq> []"
  shows "take_columns (length cs) (trim_start (spaced cs)) = Inr (map snd cs, [])"
  using assms
proof (induction cs rule: spaced.induct)
  case (2 n w)
  then show ?case using trim_start_word [of w "[]"] by (simp add: words_def take_columns_last del: take_columns.simps(2))
next
  case (3 n w c cs)
  then have "is_word w" "words (c # cs)" by (simp_all add: words_def)
  with 3(1) show ?case by (simp add: take_columns_word del: take_columns.simps(2))
qed simp

section \<open>Addresses\<close>

fun proc_ip :: "IpAddr \<Rightarrow> rstring" where
  "proc_ip (V4 ip) = upper_hex 8 (le_value (elems ip))"
| "proc_ip (V6 ip) = concat (map (\<lambda>i. upper_hex 8 (le_value (take 4 (drop i (elems ip))))) [0, 4, 8, 12])"

definition proc_address :: "SocketAddr \<Rightarrow> rstring" where
  "proc_address a = proc_ip (socket_ip a) @ ch CHR '':'' # upper_hex 4 (unat (socket_port a))"

text \<open>What the table cannot carry or the reader removes: an IPv4-mapped address, a flow label and a scope.\<close>

fun canonical_ip :: "IpAddr \<Rightarrow> IpAddr" where
  "canonical_ip (V4 ip) = V4 ip"
| "canonical_ip (V6 ip) = (case to_ipv4_mapped ip of Some v4 \<Rightarrow> V4 v4 | None \<Rightarrow> V6 ip)"

definition canonical :: "SocketAddr \<Rightarrow> SocketAddr" where
  "canonical a = SocketAddr_new (canonical_ip (socket_ip a)) (socket_port a)"

lemma address_word_upper:
  assumes "length b = 4"
  shows "address_word (upper_hex 8 (le_value b)) = Inr b"
proof -
  have "le_value b < 2 ^ 32" using le_value_less [of b] assms by simp
  then show ?thesis
    using assms le_bytes_le_value [of b] by (simp add: address_word_def hex_u32_upper unat_word_of_nat)
qed

lemma parse_address_proc: "parse_address (proc_ip ip) = Inr (canonical_ip ip)"
proof (cases ip)
  case (V4 a)
  then show ?thesis by (simp add: parse_address_def upper_hex_chars address_word_upper)
next
  case (V6 a)
  have "elems a = take 4 (elems a) @ take 4 (drop 4 (elems a)) @ take 4 (drop 8 (elems a)) @ take 4 (drop 12 (elems a))"
    by (rule nth_equalityI) (simp_all add: nth_append)
  then have "array_of (take 4 (elems a) @ take 4 (drop 4 (elems a)) @ take 4 (drop 8 (elems a)) @ take 4 (drop 12 (elems a))) = a"
    by (metis array_of_elems)
  then show ?thesis using V6
    by (simp add: parse_address_def upper_hex_chars address_word_upper)
qed

lemma proc_ip_chars: "ch CHR '':'' \<notin> set (proc_ip ip)" "list_all is_ascii_hexdigit (proc_ip ip)" "proc_ip ip \<noteq> []"
proof -
  show "ch CHR '':'' \<notin> set (proc_ip ip)" "list_all is_ascii_hexdigit (proc_ip ip)"
    by (cases ip; simp add: upper_hex_chars)+
  have "length (proc_ip ip) \<noteq> 0" by (cases ip) simp_all
  then show "proc_ip ip \<noteq> []" by simp
qed

lemma parse_proc_address: "parse_procfs_socket_address (proc_address a) = Inr (canonical a)"
  by (simp add: parse_procfs_socket_address_def proc_address_def proc_ip_chars parse_address_proc hex_u16_upper canonical_def)

lemma proc_address_word: "is_word (proc_address a)"
proof -
  have "is_word (proc_ip (socket_ip a))"
    using proc_ip_chars(2,3) [of "socket_ip a"] to_digit_alnum
    by (fastforce simp: is_word_def list_all_iff is_ascii_hexdigit_def)
  then show ?thesis unfolding proc_address_def by (intro is_word_append) (simp_all add: upper_hex_chars)
qed

section \<open>Rows\<close>

text \<open>
  A row of \<open>/proc/net/tcp\<close> and the like: its number, the two addresses, the state, five columns the reader skips,
  the inode, and further columns. \<open>gaps\<close> are the widths of the alignment and \<open>m\<close> that of the filler at the end.
\<close>

record inet_row =
  ir_number :: rstring
  ir_local :: SocketAddr
  ir_remote :: SocketAddr
  ir_state :: byte
  ir_skipped :: "rstring list"
  ir_inode :: u64
  ir_more :: "rstring list"

definition inet_columns :: "inet_row \<Rightarrow> rstring list" where
  "inet_columns r = [ir_number r, proc_address (ir_local r), proc_address (ir_remote r), upper_hex 2 (unat (ir_state r))]
     @ ir_skipped r @ show_dec (unat (ir_inode r)) # ir_more r"

definition inet_row_ok :: "inet_row \<Rightarrow> bool" where
  "inet_row_ok r \<longleftrightarrow> is_word (ir_number r) \<and> length (ir_skipped r) = 5 \<and> list_all is_word (ir_skipped r) \<and> list_all is_word (ir_more r)"

definition aligned_line :: "(nat \<Rightarrow> nat) \<Rightarrow> nat \<Rightarrow> rstring list \<Rightarrow> rstring" where
  "aligned_line gaps m ws = spaced (map (\<lambda>(i, w). (gaps i, w)) (enumerate 0 ws)) @ replicate m (ch CHR '' '')"

definition inet_info :: "SocketProtocol \<Rightarrow> inet_row \<Rightarrow> SocketInfo" where
  "inet_info protocol r = \<lparr>si_protocol = protocol, si_state = Some (SocketState_inet (ucast (ir_state r))),
     si_local = Some (canonical (ir_local r)), si_remote = Some (canonical (ir_remote r)), si_path = None, si_peer_inode = None\<rparr>"

lemma aligned_words:
  assumes "list_all is_word ws"
  shows "split_whitespace (aligned_line gaps m ws) = ws" "is_line (aligned_line gaps m ws)"
proof -
  let ?cs = "map (\<lambda>(i, w). (gaps i, w)) (enumerate 0 ws)"
  have snd: "map snd ?cs = ws" by (simp add: comp_def case_prod_beta map_snd_enumerate)
  have "list_all is_word (map snd ?cs)" using assms by (simp only: snd)
  then have "words ?cs" by (simp add: words_def list_all_iff)
  then show "split_whitespace (aligned_line gaps m ws) = ws" "is_line (aligned_line gaps m ws)"
    unfolding aligned_line_def using split_spaced spaced_line snd by auto
qed

lemma hex_u32_small:
  assumes "0 < k" "unat (b :: 'a::len word) < 16 ^ k" "LENGTH('a) \<le> 32"
  shows "hex_u32 (upper_hex k (unat b)) = Some (ucast b)"
proof -
  have "unat b < 2 ^ 32" by (rule less_le_trans [OF unat_less_pow power_increasing [OF assms(3)]]) simp
  then have "parse_unsigned 32 16 (upper_hex k (unat b)) = Some (unat b)" using assms by (intro parse_upper_hex)
  then show ?thesis by (simp add: hex_u32_def)
qed

lemma hex_u32_state: "hex_u32 (upper_hex 2 (unat (b :: byte))) = Some (ucast b)"
  using unat_less_pow [of b] by (intro hex_u32_small) simp_all

lemma inet_columns_at:
  assumes "inet_row_ok r"
  shows "column (inet_columns r) 1 = Some (proc_address (ir_local r))" "column (inet_columns r) 2 = Some (proc_address (ir_remote r))"
    "column (inet_columns r) 3 = Some (upper_hex 2 (unat (ir_state r)))" "column (inet_columns r) 9 = Some (show_dec (unat (ir_inode r)))"
  using assms by (simp_all add: column_def inet_columns_def inet_row_ok_def nth_append nth_Cons')

lemma inet_columns_words: "inet_row_ok r \<Longrightarrow> list_all is_word (inet_columns r)"
  by (simp add: inet_row_ok_def inet_columns_def proc_address_word upper_hex_chars)

lemma inet_entry_row:
  assumes "inet_row_ok r"
  shows "inet_entry protocol (aligned_line gaps m (inet_columns r)) =
    (if ir_inode r = 0 then None else Some (ir_inode r, inet_info protocol r))"
  using aligned_words(1) [OF inet_columns_words [OF assms], of gaps m] inet_columns_at [OF assms]
  by (simp add: inet_entry_def ok_def parse_proc_address hex_u32_state inet_info_def)

lemma map_filter_rows:
  "(\<And>r. r \<in> set rows \<Longrightarrow> f (g r) = (if P r then None else Some (h r))) \<Longrightarrow>
   List.map_filter f (map g rows) = map h (filter (\<lambda>r. \<not> P r) rows)"
  by (induction rows) (simp_all add: map_filter_simps)

section \<open>UNIX rows\<close>

text \<open>A row of \<open>/proc/net/unix\<close>: the address of the socket, references, protocol, flags, type, state, inode and the path.\<close>

record unix_row =
  ur_number :: rstring
  ur_references :: rstring
  ur_protocol :: rstring
  ur_flags :: u32
  ur_type :: u16
  ur_state :: byte
  ur_inode :: u64
  ur_path :: "rstring option"

definition unix_columns :: "unix_row \<Rightarrow> rstring list" where
  "unix_columns r = [ur_number r, ur_references r, ur_protocol r, upper_hex 8 (unat (ur_flags r)), upper_hex 4 (unat (ur_type r)),
     upper_hex 2 (unat (ur_state r)), show_dec (unat (ur_inode r))]"

definition unix_line :: "(nat \<Rightarrow> nat) \<Rightarrow> unix_row \<Rightarrow> rstring" where
  "unix_line gaps r = aligned_line gaps 0 (unix_columns r) @ (case ur_path r of None \<Rightarrow> [] | Some p \<Rightarrow> ch CHR '' '' # p)"

text \<open>A path the format can carry: without a line feed and without outer whitespace.\<close>

definition unix_row_ok :: "unix_row \<Rightarrow> bool" where
  "unix_row_ok r \<longleftrightarrow> is_word (ur_number r) \<and> is_word (ur_references r) \<and> is_word (ur_protocol r)
     \<and> (case ur_path r of None \<Rightarrow> True
        | Some p \<Rightarrow> p \<noteq> [] \<and> \<not> is_whitespace (hd p) \<and> \<not> is_whitespace (last p) \<and> ch (CHR 0x0A) \<notin> set p)"

definition unix_info :: "unix_row \<Rightarrow> SocketInfo" where
  "unix_info r = \<lparr>si_protocol = SocketProtocol.Unix (SocketType_from_code (ucast (ur_type r))),
     si_state = Some (SocketState_unix_proc (ucast (ur_state r)) (ur_flags r AND 0x10000 \<noteq> 0)),
     si_local = None, si_remote = None, si_path = ur_path r, si_peer_inode = None\<rparr>"

lemma unix_columns_words: "unix_row_ok r \<Longrightarrow> list_all is_word (unix_columns r)"
  by (simp add: unix_row_ok_def unix_columns_def upper_hex_chars)

lemma aligned_take:
  assumes "list_all is_word ws" "ws \<noteq> []"
  shows "take_columns (length ws) (trim_start (aligned_line gaps 0 ws @ ch CHR '' '' # rest)) = Inr (ws, trim_start rest)"
    "take_columns (length ws) (trim_start (aligned_line gaps 0 ws)) = Inr (ws, [])"
proof -
  let ?cs = "map (\<lambda>(i, w). (gaps i, w)) (enumerate 0 ws)"
  have snd: "map snd ?cs = ws" by (simp add: comp_def case_prod_beta map_snd_enumerate)
  have "list_all is_word (map snd ?cs)" using assms by (simp only: snd)
  then have w: "words ?cs" "?cs \<noteq> []" "length ?cs = length ws" using assms(2) by (simp_all add: words_def list_all_iff enumerate_eq_zip)
  show "take_columns (length ws) (trim_start (aligned_line gaps 0 ws @ ch CHR '' '' # rest)) = Inr (ws, trim_start rest)"
    "take_columns (length ws) (trim_start (aligned_line gaps 0 ws)) = Inr (ws, [])"
    using take_spaced [OF w(1), of rest] take_spaced_last [OF w(1,2)] by (simp_all only: aligned_line_def snd w(3)) simp_all
qed

lemma trim_last:
  assumes "s \<noteq> []" "\<not> is_whitespace (last s)"
  shows "trim s = trim_start s"
proof -
  have split: "s = takeWhile is_whitespace s @ trim_start s" by (simp add: trim_start_def)
  have "trim_start s \<noteq> []" using assms unfolding trim_start_def dropWhile_eq_Nil_conv by auto
  then have "last (trim_start s) = last s" using split by (metis last_appendR)
  moreover from \<open>trim_start s \<noteq> []\<close> have "\<not> is_whitespace (hd (trim_start s))"
    unfolding trim_start_def by (metis hd_dropWhile)
  ultimately have "trim (trim_start s) = trim_start s" using \<open>trim_start s \<noteq> []\<close> assms(2) by (intro trim_id) simp_all
  moreover have "trim (trim_start s) = trim s" by (simp add: trim_def trim_start_def dropWhile_idem)
  ultimately show ?thesis by simp
qed

lemma spaced_last: "words cs \<Longrightarrow> cs \<noteq> [] \<Longrightarrow> spaced cs \<noteq> [] \<and> \<not> is_whitespace (last (spaced cs))"
  by (induction cs rule: spaced.induct) (auto simp: words_def is_word_def list_all_iff)

lemma unix_line_take:
  assumes "unix_row_ok r"
  shows "take_columns 7 (trim (unix_line gaps r)) = Inr (unix_columns r, case ur_path r of None \<Rightarrow> [] | Some p \<Rightarrow> p)"
proof -
  note ws = unix_columns_words [OF assms]
  have n: "length (unix_columns r) = 7" "unix_columns r \<noteq> []" by (simp_all add: unix_columns_def)
  let ?cs = "map (\<lambda>(i, w). (gaps i, w)) (enumerate 0 (unix_columns r))"
  have snd: "map snd ?cs = unix_columns r" by (simp add: comp_def case_prod_beta map_snd_enumerate)
  have "list_all is_word (map snd ?cs)" using ws by (simp only: snd)
  then have "words ?cs" "?cs \<noteq> []" by (simp_all add: words_def list_all_iff enumerate_eq_zip unix_columns_def)
  then have a: "aligned_line gaps 0 (unix_columns r) \<noteq> []" "\<not> is_whitespace (last (aligned_line gaps 0 (unix_columns r)))"
    using spaced_last [of ?cs] by (simp_all add: aligned_line_def)
  show ?thesis
  proof (cases "ur_path r")
    case None
    then show ?thesis using aligned_take(2) [OF ws n(2), of gaps] a by (simp add: unix_line_def trim_last n(1))
  next
    case (Some p)
    then have p: "p \<noteq> []" "\<not> is_whitespace (hd p)" "\<not> is_whitespace (last p)" using assms by (simp_all add: unix_row_ok_def)
    then have "trim (unix_line gaps r) = trim_start (unix_line gaps r)" by (intro trim_last) (simp_all add: unix_line_def Some)
    then show ?thesis using aligned_take(1) [OF ws n(2), of gaps p] p Some
      by (simp add: unix_line_def n(1) trim_start_path)
  qed
qed

lemma unix_entry_row:
  assumes "unix_row_ok r"
  shows "unix_entry (unix_line gaps r) = Some (ur_inode r, unix_info r)"
proof -
  have "hex_u32 (upper_hex 4 (unat (ur_type r))) = Some (ucast (ur_type r))" "hex_u32 (upper_hex 8 (unat (ur_flags r))) = Some (ur_flags r)"
    using unat_less_pow [of "ur_type r"] unat_less_pow [of "ur_flags r"] by (simp_all add: hex_u32_small)
  moreover have "(if (case ur_path r of None \<Rightarrow> [] | Some p \<Rightarrow> p) = [] then None
      else Some (case ur_path r of None \<Rightarrow> [] | Some p \<Rightarrow> p)) = ur_path r"
    using assms by (auto simp: unix_row_ok_def split: option.splits)
  ultimately show ?thesis
    unfolding unix_entry_def unix_line_take [OF assms]
    by (simp add: ok_def unix_columns_def hex_u32_state unix_info_def)
qed

lemma unix_line_is_line: "unix_row_ok r \<Longrightarrow> is_line (unix_line gaps r)"
  using aligned_words(2) [OF unix_columns_words, of r gaps 0]
  by (cases "ur_path r") (auto simp: unix_line_def is_line_def unix_row_ok_def is_whitespace_def)

section \<open>Whole tables\<close>

text \<open>
  The tables of IPv4 and IPv6 sockets are read back. For rows in the kernel's format, under any header and with any
  alignment, the table that is read maps the inode of every row to its state and addresses, where an IPv4-mapped
  address is an IPv4 address. A row without an inode is left out, and of two rows with one inode the later one counts.
\<close>

theorem inet_table_read:
  assumes "is_line header" "list_all inet_row_ok rows"
  shows "parse_inet_socket_table (unlines (header # map (\<lambda>r. aligned_line (gaps r) (fill r) (inet_columns r)) rows)) protocol =
    hash_map (map (\<lambda>r. (ir_inode r, inet_info protocol r)) (filter (\<lambda>r. ir_inode r \<noteq> 0) rows))"
proof -
  let ?line = "\<lambda>r. aligned_line (gaps r) (fill r) (inet_columns r)"
  have "list_all is_line (header # map ?line rows)"
    using assms aligned_words(2) [OF inet_columns_words] by (simp add: list_all_iff)
  moreover have "List.map_filter (inet_entry protocol) (map ?line rows) =
      map (\<lambda>r. (ir_inode r, inet_info protocol r)) (filter (\<lambda>r. ir_inode r \<noteq> 0) rows)"
    using assms(2) inet_entry_row by (intro map_filter_rows) (simp add: list_all_iff)
  ultimately show ?thesis by (simp add: parse_inet_socket_table_def text_lines_unlines)
qed

definition sample_inet_rows :: "inet_row list" where
  "sample_inet_rows = [
     \<lparr>ir_number = lit ''0:'', ir_local = SocketV4 (array_of [127, 0, 0, 1]) 8080, ir_remote = SocketV4 (array_of [127, 0, 0, 2]) 80,
      ir_state = 254, ir_skipped = [lit ''0:0'', lit ''0:0'', lit ''0'', lit ''0'', lit ''0''], ir_inode = 77, ir_more = []\<rparr>,
     \<lparr>ir_number = lit ''1:'', ir_local = SocketV4 (array_of [0, 0, 0, 0]) 0, ir_remote = SocketV4 (array_of [0, 0, 0, 0]) 0,
      ir_state = 10, ir_skipped = [lit ''0:0'', lit ''0:0'', lit ''0'', lit ''0'', lit ''0''], ir_inode = 0, ir_more = [lit ''x'']\<rparr>]"

lemma sample_inet_rows_ok: "is_line (lit ''sl'')" "list_all inet_row_ok sample_inet_rows"
  by (simp_all add: is_line_def lit_map_ch sample_inet_rows_def inet_row_ok_def is_word_def is_whitespace_def)

theorem inet_table_read_witness:
  "parse_inet_socket_table (unlines (lit ''sl'' # map (\<lambda>r. aligned_line (\<lambda>_. 2) 3 (inet_columns r)) sample_inet_rows)) (SocketProtocol.Tcp AddressFamily.Ipv4) =
     hash_map (map (\<lambda>r. (ir_inode r, inet_info (SocketProtocol.Tcp AddressFamily.Ipv4) r)) (filter (\<lambda>r. ir_inode r \<noteq> 0) sample_inet_rows))"
  using inet_table_read [OF sample_inet_rows_ok, of "\<lambda>_ _. 2" "\<lambda>_. 3" "SocketProtocol.Tcp AddressFamily.Ipv4"] by simp

text \<open>The same for UNIX sockets, with a path that may contain spaces.\<close>

theorem unix_table_read:
  assumes "is_line header" "list_all unix_row_ok rows"
  shows "parse_unix_socket_table (unlines (header # map (\<lambda>r. unix_line (gaps r) r) rows)) =
    hash_map (map (\<lambda>r. (ur_inode r, unix_info r)) rows)"
proof -
  let ?line = "\<lambda>r. unix_line (gaps r) r"
  have "list_all is_line (header # map ?line rows)" using assms unix_line_is_line by (simp add: list_all_iff)
  moreover have "List.map_filter unix_entry (map ?line rows) = map (\<lambda>r. (ur_inode r, unix_info r)) (filter (\<lambda>r. \<not> False) rows)"
    using assms(2) unix_entry_row by (intro map_filter_rows) (simp add: list_all_iff)
  ultimately show ?thesis by (simp add: parse_unix_socket_table_def text_lines_unlines)
qed

section \<open>Diagnostic messages\<close>

text \<open>A UNIX socket as the kernel reports it: \<open>struct unix_diag_msg\<close>, its name and its peer as attributes, and others.\<close>

datatype socket_name = Unnamed | Pathname rstring | Abstract rstring

record unix_socket =
  us_type :: byte
  us_state :: byte
  us_inode :: u32
  us_cookie :: "byte list"
  us_name :: socket_name
  us_peer :: "u32 option"
  us_more :: "(u16 \<times> byte list) list"

fun name_bytes :: "socket_name \<Rightarrow> byte list" where
  "name_bytes Unnamed = []"
| "name_bytes (Pathname p) = as_bytes p @ [0]"
| "name_bytes (Abstract p) = 0 # as_bytes p"

fun shown_name :: "socket_name \<Rightarrow> rstring option" where
  "shown_name Unnamed = None"
| "shown_name (Pathname p) = Some p"
| "shown_name (Abstract p) = Some (ch (CHR 0x40) # escape_nul p)"

definition unix_attributes :: "unix_socket \<Rightarrow> (u16 \<times> byte list) list" where
  "unix_attributes s = (if us_name s = Unnamed then [] else [(0, name_bytes (us_name s))])
     @ (case us_peer s of None \<Rightarrow> [] | Some peer \<Rightarrow> [(2, to_ne_bytes peer)]) @ us_more s"

definition unix_diag_msg :: "unix_socket \<Rightarrow> byte list" where
  "unix_diag_msg s = [1, us_type s, us_state s, 0] @ to_ne_bytes (us_inode s) @ us_cookie s"

definition unix_socket_ok :: "unix_socket \<Rightarrow> bool" where
  "unix_socket_ok s \<longleftrightarrow> length (us_cookie s) = 8 \<and> us_peer s \<noteq> Some 0
     \<and> (case us_name s of Pathname p \<Rightarrow> p \<noteq> [] \<and> code_point (hd p) \<noteq> 0 | _ \<Rightarrow> True)
     \<and> list_all attribute_fits (unix_attributes s)
     \<and> list_all (\<lambda>(kind, _). kind AND 0x3fff \<noteq> 0 \<and> kind AND 0x3fff \<noteq> 2) (us_more s)"

definition diag_info :: "unix_socket \<Rightarrow> SocketInfo" where
  "diag_info s = \<lparr>si_protocol = SocketProtocol.Unix (SocketType_from_code (ucast (us_type s))),
     si_state = Some (SocketState_unix_diag (ucast (us_state s))), si_local = None, si_remote = None,
     si_path = shown_name (us_name s), si_peer_inode = map_option ucast (us_peer s)\<rparr>"

lemma byte_of_zero: "n < 256 \<Longrightarrow> byte_of n = 0 \<longleftrightarrow> n = 0"
  by (metis unat_byte_of unat_0 unat_eq_zero)

lemma utf8_first:
  assumes "code_point c \<noteq> 0"
  shows "hd (utf8_char c) \<noteq> 0"
proof -
  have "code_point c < 0x110000" using code_point_scalar [of c] by (auto simp: is_scalar_def)
  then show ?thesis using assms by (auto simp: utf8_char_def Let_def byte_of_zero less_mult_imp_div_less)
qed

lemma diag_attributes_others:
  "list_all (\<lambda>(kind, _). kind \<noteq> 0 \<and> kind \<noteq> 2) as \<Longrightarrow> diag_attributes as info = Inr info"
  by (induction as) (auto simp: diag_attribute_def)

lemma unix_name_shown:
  assumes "n \<noteq> Unnamed" "case n of Pathname p \<Rightarrow> p \<noteq> [] \<and> code_point (hd p) \<noteq> 0 | _ \<Rightarrow> True"
  shows "name_bytes n \<noteq> []" "Some (unix_name (name_bytes n)) = shown_name n"
proof -
  show "name_bytes n \<noteq> []" using assms by (cases n) simp_all
  show "Some (unix_name (name_bytes n)) = shown_name n"
  proof (cases n)
    case (Pathname p)
    then obtain c q where p: "p = c # q" "code_point c \<noteq> 0" using assms(2) by (cases p) auto
    then have "hd (as_bytes p @ [0]) \<noteq> 0" using utf8_first [of c] utf8_char_nonempty [of c] by (simp add: as_bytes_def)
    then show ?thesis by (simp add: Pathname unix_name_def)
  qed (use assms in \<open>simp_all add: unix_name_def\<close>)
qed

text \<open>The message of a socket is read back: its type and state, its name, and its peer, whatever other attributes follow.\<close>

theorem unix_diag_read:
  assumes "unix_socket_ok s"
  shows "parse_unix_diag_message (unix_diag_msg s @ concat (map attribute (unix_attributes s))) = Inr (ucast (us_inode s), diag_info s)"
proof -
  let ?bytes = "unix_diag_msg s @ concat (map attribute (unix_attributes s))"
  let ?masked = "map (\<lambda>(kind, data). (kind AND 0x3fff, data))"
  have len: "length (unix_diag_msg s) = 16" using assms by (simp add: unix_diag_msg_def unix_socket_ok_def)
  have "(word_at ?bytes 4 :: u32) = us_inode s"
    unfolding unix_diag_msg_def append_assoc by (rule word_at_here) simp_all
  then have inode: "Netlink.u32_at ?bytes 4 = Inr (us_inode s)" using len by (simp add: u32_at_word)
  have "parse_netlink_attributes (drop 16 ?bytes) = Inr (?masked (unix_attributes s))"
    using attributes_parsed [of "unix_attributes s" "[]"] assms len
    by (simp add: parse_netlink_attributes_def unix_socket_ok_def attributes_from.simps [of "[]"])
  moreover have "diag_attributes (?masked (us_more s)) info = Inr info" for info
    using assms by (intro diag_attributes_others) (auto simp: unix_socket_ok_def list_all_iff)
  moreover have "Netlink.u32_at (to_ne_bytes peer) 0 = Inr peer" for peer
    using word_at_here [of "[]" 0 peer "[]"] by (simp add: u32_at_word)
  moreover have "us_name s \<noteq> Unnamed \<Longrightarrow> name_bytes (us_name s) \<noteq> [] \<and> Some (unix_name (name_bytes (us_name s))) = shown_name (us_name s)"
    using unix_name_shown [of "us_name s"] assms by (simp add: unix_socket_ok_def)
  moreover have "us_peer s = Some peer \<Longrightarrow> peer \<noteq> 0" for peer using assms by (auto simp: unix_socket_ok_def)
  ultimately show ?thesis
    using inode len
    by (cases "us_peer s")
       (auto simp: parse_unix_diag_message_def diag_info_def unix_attributes_def diag_attribute_def unix_diag_msg_def AF_UNIX_def nth_append and_then_def split: if_splits)
qed

section \<open>Metadata\<close>

text \<open>A call that changes a reader: it opens the descriptor of the process, or learns that metadata is unavailable.\<close>

lemma read_duplicate_ok:
  "read_duplicate calls device inode r = (Inr m, r') \<Longrightarrow>
   r' = r \<and> m = observed_metadata calls \<and> validate_process_identity (sc_stat_last calls) (rd_process_id r) = Inr ()
   \<and> (\<exists>stat. sc_fstat calls = Inr stat \<and> fs_mode stat AND S_IFMT = S_IFSOCK \<and> fs_dev stat = device \<and> fs_ino stat = inode)"
  by (auto simp: read_duplicate_def syscall_error_def split: sum.splits if_splits)

lemma read_duplicate_process: "read_duplicate calls device inode r = (res, r') \<Longrightarrow> rd_process_id r' = rd_process_id r"
  by (auto simp: read_duplicate_def syscall_error_def split: sum.splits if_splits)

lemma read_metadata_ok:
  assumes "read_metadata calls device inode r = (Inr m, r')"
  obtains r0 where "rd_process_id r0 = rd_process_id r" "read_duplicate calls device inode r0 = (Inr m, r')"
    "validate_process_identity (sc_stat_first calls) (rd_process_id r) = Inr ()"
proof (cases "rd_pidfd r")
  case True
  then show thesis using assms by (intro that [of r]) (auto simp: read_metadata_def split: option.splits sum.splits)
next
  case False
  then show thesis using assms
    by (intro that [of "r\<lparr>rd_pidfd := True\<rparr>"]) (auto simp: read_metadata_def syscall_error_def Let_def split: option.splits sum.splits)
qed

text \<open>What is published of a socket, in terms of what the system answered.\<close>

definition metadata_evidence :: "socket_calls \<Rightarrow> SocketMetadata \<Rightarrow> bool" where
  "metadata_evidence calls m \<longleftrightarrow>
     (\<forall>protocol. sm_protocol m = Some protocol \<longrightarrow> (\<exists>domain socket_type code. protocol = SocketProtocol_from_codes domain socket_type code
        \<and> socket_option calls SO_DOMAIN = Some domain \<and> socket_option calls SO_TYPE = Some socket_type
        \<and> socket_option calls SO_PROTOCOL = Some code))
     \<and> (case sm_connection_status m of
          SocketConnectionStatus.Listening \<Rightarrow> \<exists>v. socket_option calls SO_ACCEPTCONN = Some v \<and> v \<noteq> 0
        | SocketConnectionStatus.PeerPresent \<Rightarrow> sc_getpeername calls = Inr ()
        | SocketConnectionStatus.Unconnected \<Rightarrow> socket_option calls SO_ACCEPTCONN = Some 0 \<and> sc_getpeername calls = Inl ENOTCONN
        | SocketConnectionStatus.Unknown \<Rightarrow> sc_getpeername calls \<noteq> Inr ())"

lemma observed_metadata_evidence: "metadata_evidence calls (observed_metadata calls)"
  by (auto simp: metadata_evidence_def observed_metadata_def metadata_status_def split: option.splits sum.splits if_splits)

text \<open>
  C33: metadata is only published of the right process and socket. When a reading succeeds, the process was the one the
  reader was made for both before and after the calls, and the duplicated descriptor was a socket with the expected device
  and inode; the kind is published only if all three options could be read, and a status other than unknown only on
  positive evidence. Once a call was refused, every later reading fails, whatever the system would answer.
\<close>

theorem metadata_verified:
  assumes "read_metadata calls device inode r = (res, r')"
  shows "(res = Inr m \<longrightarrow>
      validate_process_identity (sc_stat_first calls) (rd_process_id r) = Inr ()
      \<and> validate_process_identity (sc_stat_last calls) (rd_process_id r) = Inr ()
      \<and> (\<exists>stat. sc_fstat calls = Inr stat \<and> fs_mode stat AND S_IFMT = S_IFSOCK \<and> fs_dev stat = device \<and> fs_ino stat = inode)
      \<and> metadata_evidence calls m)
    \<and> (rd_unavailable r' = Some errno \<longrightarrow> read_metadata calls' device' inode' r' = (Inl (Unavailable errno), r'))"
proof (intro conjI impI)
  show "read_metadata calls' device' inode' r' = (Inl (Unavailable errno), r')" if "rd_unavailable r' = Some errno"
    using that by (simp add: read_metadata_def)
next
  assume "res = Inr m"
  with assms obtain r0 where r0: "rd_process_id r0 = rd_process_id r" "read_duplicate calls device inode r0 = (Inr m, r')"
      "validate_process_identity (sc_stat_first calls) (rd_process_id r) = Inr ()"
    by (auto elim: read_metadata_ok)
  then show "validate_process_identity (sc_stat_first calls) (rd_process_id r) = Inr ()"
    "validate_process_identity (sc_stat_last calls) (rd_process_id r) = Inr ()"
    "\<exists>stat. sc_fstat calls = Inr stat \<and> fs_mode stat AND S_IFMT = S_IFSOCK \<and> fs_dev stat = device \<and> fs_ino stat = inode"
    "metadata_evidence calls m"
    using read_duplicate_ok [OF r0(2)] observed_metadata_evidence [of calls] by simp_all
qed

text \<open>A connected TCP socket, read by a new reader.\<close>

definition sample_metadata_stat :: Stat where
  "sample_metadata_stat = \<lparr>stat_pid = 7, stat_parent_pid = 1, stat_name = lit ''srv'', stat_state = lit ''S'', stat_ticks = 0,
     stat_start_time = 500, stat_minor_faults = 0, stat_major_faults = 0, stat_priority = 20, stat_nice = 0, stat_thread_count = 1,
     stat_vms = 0, stat_rss = 0, stat_cpu = 0, stat_policy = 0\<rparr>"

definition sample_socket_calls :: socket_calls where
  "sample_socket_calls = \<lparr>sc_stat_first = Inr sample_metadata_stat, sc_pidfd_open = Inr (), sc_stat_opened = Inr sample_metadata_stat,
     sc_pidfd_getfd = Inr (), sc_fstat = Inr \<lparr>fs_mode = 0xC1FF, fs_dev = 8, fs_ino = 77\<rparr>,
     sc_getsockopt = (\<lambda>name. Inr (if name = SO_ACCEPTCONN then 0 else if name = SO_DOMAIN then 2 else if name = SO_TYPE then 1 else 6, 4)),
     sc_getpeername = Inr (), sc_stat_last = Inr sample_metadata_stat\<rparr>"

lemma sample_metadata_read:
  "read_metadata sample_socket_calls 8 77 (SocketMetadataReader_new \<lparr>pid_pid = 7, pid_start_time_ticks = 500\<rparr>) =
     (Inr \<lparr>sm_protocol = Some (SocketProtocol.Tcp AddressFamily.Ipv4), sm_connection_status = SocketConnectionStatus.PeerPresent\<rparr>,
      \<lparr>rd_process_id = \<lparr>pid_pid = 7, pid_start_time_ticks = 500\<rparr>, rd_pidfd = True, rd_unavailable = None\<rparr>)"
  by (simp add: read_metadata_def read_duplicate_def SocketMetadataReader_new_def sample_socket_calls_def sample_metadata_stat_def
      validate_process_identity_def lit_eq_iff observed_metadata_def metadata_status_def socket_option_def S_IFMT_def S_IFSOCK_def
      SO_ACCEPTCONN_def SO_DOMAIN_def SO_TYPE_def SO_PROTOCOL_def SocketProtocol_from_codes_def AF_INET_def SOCK_STREAM_def IPPROTO_TCP_def)

theorem metadata_verified_witness:
  "metadata_evidence sample_socket_calls
     \<lparr>sm_protocol = Some (SocketProtocol.Tcp AddressFamily.Ipv4), sm_connection_status = SocketConnectionStatus.PeerPresent\<rparr>"
  using metadata_verified [OF sample_metadata_read] by simp

end
