(* ===== verification/Descriptor_Scan.thy ===== *)
theory Descriptor_Scan
  imports Socket_Tables
begin

text \<open>
  The file descriptors of a process: their acquisition by the helper (\<open>src/privileged_helper/process/fds.rs\<close>) and
  the peers and holders the server derives from them (\<open>src/http_server/analysis/descriptors.rs\<close>). What the files under
  \<open>/proc\<close> hold is an argument, and so is the clock: at every point where the code compares it with the deadline, a
  function tells whether the deadline has passed. Maps are iterated in an order that is an argument as well.
\<close>

unbundle bit_operations_syntax

section \<open>Descriptors under \<open>/proc\<close>\<close>

text \<open>An entry of \<open>/proc/PID/fd\<close>: its name, its link (or an errno), what \<open>stat\<close> tells of the target, and \<open>fdinfo\<close>.\<close>

record target_meta =
  tm_is_fifo :: bool
  tm_dev :: u64
  tm_ino :: u64

record fd_view =
  fv_name :: "byte list"
  fv_link :: "nat + byte list"
  fv_meta :: "target_meta option"
  fv_info :: "read_error + byte list"

definition strip_prefix :: "rstring \<Rightarrow> rstring \<Rightarrow> rstring option" where
  "strip_prefix p s = (if take (length p) s = p then Some (drop (length p) s) else None)"

definition parse_link_inode :: "rstring \<Rightarrow> rstring \<Rightarrow> u64 option" where
  "parse_link_inode link start =
     Option.bind (strip_prefix start link) (\<lambda>s.
     if s \<noteq> [] \<and> last s = ch CHR '']'' then parse_u64 (butlast s) else None)"

definition identify_descriptor_resource :: "target_meta option \<Rightarrow> rstring \<Rightarrow> bool \<Rightarrow> Key option" where
  "identify_descriptor_resource meta link fifo =
     (case parse_link_inode link (lit ''socket:['') of
        Some inode \<Rightarrow> Some \<lparr>fk_kind = FdKind.Socket, fk_device = 0, fk_inode = inode\<rparr>
      | None \<Rightarrow>
          (case parse_link_inode link (lit ''pipe:['') of
             Some inode \<Rightarrow> Some \<lparr>fk_kind = FdKind.Pipe, fk_device = 0, fk_inode = inode\<rparr>
           | None \<Rightarrow>
               if fifo then Option.bind meta (\<lambda>meta.
                 if tm_is_fifo meta then Some \<lparr>fk_kind = FdKind.Fifo, fk_device = tm_dev meta, fk_inode = tm_ino meta\<rparr> else None)
               else None))"

definition octal_u32 :: "rstring \<Rightarrow> u32 option" where
  "octal_u32 s = map_option word_of_nat (parse_unsigned 32 8 s)"

definition read_descriptor_access_mode :: "fd_view \<Rightarrow> u32 option" where
  "read_descriptor_access_mode v =
     (case read_procfs_text (fv_info v) of
        Inl _ \<Rightarrow> None
      | Inr text \<Rightarrow>
          Option.bind (Option.bind (procfs_fields text (lit ''flags'')) octal_u32) (\<lambda>flags.
          if flags AND O_PATH \<noteq> 0 then None else Some (flags AND O_ACCMODE)))"

definition descriptor_access_from_mode :: "u32 option \<Rightarrow> FdAccess" where
  "descriptor_access_from_mode mode = FdAccess_from_mode mode"

definition entry_fd :: "fd_view \<Rightarrow> u32 option" where
  "entry_fd v = Option.bind (from_utf8 (fv_name v)) parse_u32"

definition permission_denied :: "nat \<Rightarrow> bool" where
  "permission_denied errno \<longleftrightarrow> errno = EPERM \<or> errno = EACCES"

section \<open>Owners\<close>

text \<open>A process during the scan: its stat before and after its descriptors are read, and their directory (or an errno).\<close>

record process_view =
  pv_stat :: "stat_error + Stat"
  pv_dir :: "nat + fd_view list"
  pv_stat_after :: "stat_error + Stat"

record scan_state =
  ss_denied :: nat
  ss_count :: nat
  ss_matches :: nat

definition SCAN_LIMIT :: nat where "SCAN_LIMIT = 100000"
definition OWNER_LIMIT :: nat where "OWNER_LIMIT = 8192"

definition owner_of :: "ProcessId \<Rightarrow> rstring \<Rightarrow> u32 \<Rightarrow> u32 option \<Rightarrow> Owner" where
  "owner_of process_id name fd mode = \<lparr>own_endpoint = \<lparr>ep_process_id = process_id, ep_name = name, ep_fd = fd,
     ep_access = descriptor_access_from_mode mode, ep_relation = []\<rparr>, own_mode = mode\<rparr>"

text \<open>
  The loop over a directory. \<open>late i\<close> is the comparison with the deadline at the \<open>i\<close>th entry; the result also tells
  whether the whole scan stops.
\<close>

fun scan_entries ::
  "Key set \<Rightarrow> bool \<Rightarrow> ProcessId \<Rightarrow> rstring \<Rightarrow> (nat \<Rightarrow> bool) \<Rightarrow> nat \<Rightarrow> fd_view list \<Rightarrow> scan_state \<Rightarrow> (Key \<times> Owner) list
   \<Rightarrow> bool \<times> scan_state \<times> (Key \<times> Owner) list"
where
  "scan_entries keys fifo process_id name late i [] s found = (False, s, found)"
| "scan_entries keys fifo process_id name late i (v # vs) s found =
     (let s = s\<lparr>ss_count := Suc (ss_count s)\<rparr> in
      if SCAN_LIMIT < ss_count s \<or> OWNER_LIMIT \<le> ss_matches s \<or> late i then (True, s, found)
      else case entry_fd v of
        None \<Rightarrow> scan_entries keys fifo process_id name late (Suc i) vs s found
      | Some fd \<Rightarrow>
          (case fv_link v of
             Inl errno \<Rightarrow> scan_entries keys fifo process_id name late (Suc i) vs
               (if permission_denied errno then s\<lparr>ss_denied := Suc (ss_denied s)\<rparr> else s) found
           | Inr bytes \<Rightarrow>
               (case identify_descriptor_resource (fv_meta v) (from_utf8_lossy bytes) fifo of
                  None \<Rightarrow> scan_entries keys fifo process_id name late (Suc i) vs s found
                | Some key \<Rightarrow>
                    if key \<in> keys then
                      scan_entries keys fifo process_id name late (Suc i) vs (s\<lparr>ss_matches := Suc (ss_matches s)\<rparr>)
                        (found @ [(key, owner_of process_id name fd (read_descriptor_access_mode v))])
                    else scan_entries keys fifo process_id name late (Suc i) vs s found)))"

definition push_owner :: "Key \<times> Owner \<Rightarrow> (Key \<times> Owner list) list \<Rightarrow> (Key \<times> Owner list) list" where
  "push_owner = (\<lambda>(key, owner) m. AList.update key ((case map_of m key of Some os \<Rightarrow> os | None \<Rightarrow> []) @ [owner]) m)"

definition time_limit_warning :: rstring where
  "time_limit_warning = lit ''The PID/FD scan reached its 3-second limit. The peer list is incomplete.''"

definition count_limit_warning :: rstring where
  "count_limit_warning = lit ''The PID/FD scan reached its count or time limit. The peer list is incomplete.''"

text \<open>The loop over the processes; \<open>late_at\<close> compares the clock before a process, \<open>late\<close> before an entry.\<close>

fun scan_processes ::
  "Key set \<Rightarrow> bool \<Rightarrow> (i32 \<Rightarrow> process_view) \<Rightarrow> (i32 \<Rightarrow> bool) \<Rightarrow> (i32 \<Rightarrow> nat \<Rightarrow> bool) \<Rightarrow> i32 list \<Rightarrow> scan_state \<Rightarrow> rstring list
   \<Rightarrow> (Key \<times> Owner list) list \<Rightarrow> scan_state \<times> rstring list \<times> (Key \<times> Owner list) list"
where
  "scan_processes keys fifo view late_at late [] s warnings result = (s, warnings, result)"
| "scan_processes keys fifo view late_at late (pid # pids) s warnings result =
     (if late_at pid then (s, warnings @ [time_limit_warning], result)
      else case pv_stat (view pid) of
        Inl _ \<Rightarrow> scan_processes keys fifo view late_at late pids s warnings result
      | Inr stat \<Rightarrow>
          (let process_id = \<lparr>pid_pid = pid, pid_start_time_ticks = stat_start_time stat\<rparr> in
           case pv_dir (view pid) of
             Inl errno \<Rightarrow> scan_processes keys fifo view late_at late pids
               (if permission_denied errno then s\<lparr>ss_denied := Suc (ss_denied s)\<rparr> else s) warnings result
           | Inr vs \<Rightarrow>
               (case scan_entries keys fifo process_id (stat_name stat) (late pid) 0 vs s [] of (stop, s, found) \<Rightarrow>
                  if stop then (s, warnings @ [count_limit_warning], result)
                  else scan_processes keys fifo view late_at late pids s warnings
                    (case validate_process_identity (pv_stat_after (view pid)) process_id of
                       Inr _ \<Rightarrow> fold push_owner found result
                     | Inl _ \<Rightarrow> result))))"

text \<open>The numbers among the names in \<open>/proc\<close>, in order.\<close>

definition process_numbers :: "byte list list \<Rightarrow> i32 list" where
  "process_numbers names = sort_key sint (List.map_filter (\<lambda>name. Option.bind (from_utf8 name) parse_i32) names)"

definition collect_descriptor_owners ::
  "nat + byte list list \<Rightarrow> (i32 \<Rightarrow> process_view) \<Rightarrow> (i32 \<Rightarrow> bool) \<Rightarrow> (i32 \<Rightarrow> nat \<Rightarrow> bool) \<Rightarrow> Key set \<Rightarrow> rstring list
   \<Rightarrow> nat + (Key \<times> Owner list) list \<times> rstring list"
where
  "collect_descriptor_owners proc view late_at late keys warnings =
     (case proc of
        Inl errno \<Rightarrow> Inl errno
      | Inr names \<Rightarrow>
          (case scan_processes keys (\<exists>k\<in>keys. fk_kind k = FdKind.Fifo) view late_at late (process_numbers names)
                  \<lparr>ss_denied = 0, ss_count = 0, ss_matches = 0\<rparr> warnings [] of (s, warnings, result) \<Rightarrow>
           Inr (result, warnings @ (if 0 < ss_denied s then
             [lit ''Access was denied for '' @ show_dec (ss_denied s) @ lit '' processes/FDs. Some peers may be missing.''] else []))))"

section \<open>Sockets of a process\<close>

text \<open>
  The outcome of reading \<open>/proc/PID/net/name\<close>, with an error's text on the left, and of the diagnostics of the
  process's namespace.
\<close>

record net_view =
  nv_table :: "string \<Rightarrow> rstring + byte list"
  nv_peers :: "rstring + (u64 \<times> SocketInfo) list"

definition table_error_text :: "i32 \<Rightarrow> string \<Rightarrow> rstring table_error \<Rightarrow> rstring" where
  "table_error_text pid name e =
     (case e of
        OpenFailed text \<Rightarrow> text
      | TableTooLarge \<Rightarrow> lit ''/proc/'' @ show_int (sint pid) @ lit ''/net/'' @ lit name @ lit '': 4 MiB limit exceeded'')"

definition table_kinds :: "(string \<times> SocketProtocol) list" where
  "table_kinds = [(''tcp'', SocketProtocol.Tcp AddressFamily.Ipv4), (''tcp6'', SocketProtocol.Tcp AddressFamily.Ipv6),
     (''udp'', SocketProtocol.Udp AddressFamily.Ipv4), (''udp6'', SocketProtocol.Udp AddressFamily.Ipv6),
     (''unix'', SocketProtocol.Unix (SocketType.Unknown 0))]"

fun read_tables ::
  "i32 \<Rightarrow> net_view \<Rightarrow> (string \<times> SocketProtocol) list \<Rightarrow> (u64 \<times> SocketInfo) list \<Rightarrow> rstring list
   \<Rightarrow> (u64 \<times> SocketInfo) list \<times> rstring list"
where
  "read_tables pid net [] result warnings = (result, warnings)"
| "read_tables pid net ((file, protocol) # files) result warnings =
     (case read_socket_table (nv_table net file) of
        Inr text \<Rightarrow> read_tables pid net files
          (map_extend result (if file = ''unix'' then parse_unix_socket_table text else parse_inet_socket_table text protocol)) warnings
      | Inl e \<Rightarrow> read_tables pid net files result
          (warnings @ [lit ''Could not read connection information from '' @ lit file @ lit '': '' @ table_error_text pid file e]))"

definition is_unix :: "SocketProtocol \<Rightarrow> bool" where
  "is_unix p = (case p of SocketProtocol.Unix _ \<Rightarrow> True | _ \<Rightarrow> False)"

definition socket_table ::
  "i32 \<Rightarrow> net_view \<Rightarrow> u64 set \<Rightarrow> rstring list \<Rightarrow> (u64 \<times> SocketInfo) list \<times> rstring list"
where
  "socket_table pid net unix_needed warnings =
     (case read_tables pid net table_kinds (map_extend [] (additional_sockets (nv_table net))) warnings of (result, warnings) \<Rightarrow>
      if \<exists>inode\<in>unix_needed. case map_of result inode of Some s \<Rightarrow> is_unix (si_protocol s) | None \<Rightarrow> False then
        (case nv_peers net of
           Inr diag \<Rightarrow> (map_extend result diag, warnings)
         | Inl e \<Rightarrow> (result, warnings @ [lit ''Could not identify UNIX socket peers for PID '' @ show_int (sint pid) @ lit '': '' @ e]))
      else (result, warnings))"

type_synonym inet_key = "bool \<times> SocketAddr \<times> SocketAddr"

definition connected_socket_key :: "SocketInfo \<Rightarrow> inet_key option" where
  "connected_socket_key info =
     (if \<not> is_tcp_or_udp (si_protocol info) then None
      else Option.bind (si_local info) (\<lambda>local.
           Option.bind (si_remote info) (\<lambda>remote.
           if si_state info = Some SocketState.Listen \<or> socket_port remote = 0 \<or> is_unspecified (socket_ip remote) then None
           else Some (is_tcp (si_protocol info), local, remote))))"

section \<open>The descriptors of a process\<close>

definition ENTRY_SCAN_LIMIT :: nat where "ENTRY_SCAN_LIMIT = 16384"
definition ENTRY_LIMIT :: nat where "ENTRY_LIMIT = 4096"

definition descriptor_entry :: "u32 \<Rightarrow> rstring \<Rightarrow> Key \<Rightarrow> fd_view \<Rightarrow> FileDescriptorInfo" where
  "descriptor_entry fd link key v =
     (let mode = read_descriptor_access_mode v in
      \<lparr>fdi_fd = fd, fdi_kind = fk_kind key, fdi_inode = fk_inode key, fdi_target = link,
       fdi_access = descriptor_access_from_mode mode, fdi_protocol = None, fdi_state = None,
       fdi_connection_status = (if fk_kind key = FdKind.Socket then Some SocketConnectionStatus.Unknown else None),
       fdi_local = None, fdi_remote = None, fdi_path = None, fdi_peer_inode = None, fdi_peers = [], fdi_holders = [],
       fdi_note = [], fdi_key = key, fdi_mode = mode,
       fdi_socket_device = (if fk_kind key = FdKind.Socket then map_option tm_dev (fv_meta v) else None)\<rparr>)"

text \<open>The loop over the directory: the entries, how many links could not be read, and whether it was cut short.\<close>

fun read_entries ::
  "(nat \<Rightarrow> bool) \<Rightarrow> nat \<Rightarrow> fd_view list \<Rightarrow> FileDescriptorInfo list \<Rightarrow> nat \<Rightarrow> FileDescriptorInfo list \<times> nat \<times> bool"
where
  "read_entries late index [] entries omitted = (entries, omitted, False)"
| "read_entries late index (v # vs) entries omitted =
     (if ENTRY_SCAN_LIMIT \<le> index \<or> ENTRY_LIMIT \<le> length entries \<or> late index then (entries, omitted, True)
      else case entry_fd v of
        None \<Rightarrow> read_entries late (Suc index) vs entries omitted
      | Some fd \<Rightarrow>
          (case fv_link v of
             Inl _ \<Rightarrow> read_entries late (Suc index) vs entries (Suc omitted)
           | Inr bytes \<Rightarrow>
               (let link = from_utf8_lossy bytes in
                case identify_descriptor_resource (fv_meta v) link True of
                  None \<Rightarrow> read_entries late (Suc index) vs entries omitted
                | Some key \<Rightarrow> read_entries late (Suc index) vs (entries @ [descriptor_entry fd link key v]) omitted)))"

text \<open>
  One reading of metadata for every device and inode that has given no observation yet; \<open>calls fd\<close> is what the system
  answers for a descriptor.
\<close>

fun read_all_metadata ::
  "(u32 \<Rightarrow> bool) \<Rightarrow> (u32 \<Rightarrow> socket_calls) \<Rightarrow> FileDescriptorInfo list \<Rightarrow> SocketMetadataReader
   \<Rightarrow> ((u64 \<times> u64) \<times> SocketMetadata) list \<Rightarrow> ((u64 \<times> u64) \<times> SocketMetadata) list \<times> bool"
where
  "read_all_metadata late calls [] reader metadata = (metadata, False)"
| "read_all_metadata late calls (e # es) reader metadata =
     (if fdi_kind e \<noteq> FdKind.Socket then read_all_metadata late calls es reader metadata
      else if late (fdi_fd e) then (metadata, True)
      else case fdi_socket_device e of
        None \<Rightarrow> read_all_metadata late calls es reader metadata
      | Some device \<Rightarrow>
          (let key = (device, fk_inode (fdi_key e)) in
           if map_of metadata key = None then
             (case read_metadata (calls (fdi_fd e)) device (fk_inode (fdi_key e)) reader of
                (Inr observed, reader) \<Rightarrow> read_all_metadata late calls es reader
                  (if has_observation observed then AList.update key observed metadata else metadata)
              | (Inl _, reader) \<Rightarrow> read_all_metadata late calls es reader metadata)
           else read_all_metadata late calls es reader metadata))"

text \<open>A kind that was observed replaces one that a table left open, and stands in for a missing table entry.\<close>

definition is_open_kind :: "SocketProtocol \<Rightarrow> bool" where
  "is_open_kind p = (case p of SocketProtocol.Other _ None _ \<Rightarrow> True | _ \<Rightarrow> False)"

definition apply_observed :: "u64 \<Rightarrow> SocketMetadata \<Rightarrow> (u64 \<times> SocketInfo) list \<Rightarrow> (u64 \<times> SocketInfo) list" where
  "apply_observed inode observed sockets =
     (case sm_protocol observed of
        None \<Rightarrow> sockets
      | Some protocol \<Rightarrow>
          (case map_of sockets inode of
             Some info \<Rightarrow> if is_open_kind (si_protocol info) then AList.update inode (info\<lparr>si_protocol := protocol\<rparr>) sockets else sockets
           | None \<Rightarrow> AList.update inode \<lparr>si_protocol = protocol, si_state = None, si_local = None, si_remote = None,
               si_path = None, si_peer_inode = None\<rparr> sockets))"

definition entry_status ::
  "(u64 \<times> SocketInfo) list \<Rightarrow> ((u64 \<times> u64) \<times> SocketMetadata) list \<Rightarrow> FileDescriptorInfo \<Rightarrow> SocketConnectionStatus"
where
  "entry_status sockets metadata e =
     (let observed = (case Option.bind (fdi_socket_device e) (\<lambda>device. map_of metadata (device, fk_inode (fdi_key e))) of
            Some m \<Rightarrow> sm_connection_status m | None \<Rightarrow> SocketConnectionStatus.Unknown) in
      case map_of sockets (fk_inode (fdi_key e)) of Some info \<Rightarrow> connection_status info observed | None \<Rightarrow> observed)"

definition with_status ::
  "(u64 \<times> SocketInfo) list \<Rightarrow> ((u64 \<times> u64) \<times> SocketMetadata) list \<Rightarrow> FileDescriptorInfo \<Rightarrow> FileDescriptorInfo"
where
  "with_status sockets metadata e =
     (if fdi_kind e = FdKind.Socket then e\<lparr>fdi_connection_status := Some (entry_status sockets metadata e)\<rparr> else e)"

text \<open>The inodes of the connected sockets with an address tuple, in the order of the map.\<close>

definition with_key :: "(u64 \<times> SocketInfo) list \<Rightarrow> inet_key \<Rightarrow> u64 list" where
  "with_key sockets key = map fst (filter (\<lambda>(_, info). connected_socket_key info = Some key) sockets)"

definition peers_of :: "(u64 \<times> SocketInfo) list \<Rightarrow> u64 \<Rightarrow> SocketInfo \<Rightarrow> u64 list" where
  "peers_of sockets inode info =
     (case si_peer_inode info of
        Some peer \<Rightarrow> [peer]
      | None \<Rightarrow>
          (case connected_socket_key info of
             Some (tcp, local, remote) \<Rightarrow> filter (\<lambda>i. i \<noteq> inode) (with_key sockets (tcp, remote, local))
           | None \<Rightarrow> []))"

definition socket_key :: "u64 \<Rightarrow> Key" where
  "socket_key inode = \<lparr>fk_kind = FdKind.Socket, fk_device = 0, fk_inode = inode\<rparr>"

definition entry_socket :: "(u64 \<times> SocketInfo) list \<Rightarrow> FileDescriptorInfo \<Rightarrow> SocketInfo option" where
  "entry_socket sockets e = (if fdi_kind e = FdKind.Socket then map_of sockets (fk_inode (fdi_key e)) else None)"

definition with_socket :: "(u64 \<times> SocketInfo) list \<Rightarrow> FileDescriptorInfo \<Rightarrow> FileDescriptorInfo" where
  "with_socket sockets e =
     (case entry_socket sockets e of
        None \<Rightarrow> e
      | Some info \<Rightarrow> e\<lparr>fdi_protocol := Some (si_protocol info), fdi_state := si_state info,
          fdi_local := map_option InetAddress_from (si_local info), fdi_remote := map_option InetAddress_from (si_remote info),
          fdi_path := si_path info,
          fdi_peer_inode := (case si_peer_inode info of Some p \<Rightarrow> Some p | None \<Rightarrow> fdi_peer_inode e)\<rparr>)"

definition entry_peer_keys :: "(u64 \<times> SocketInfo) list \<Rightarrow> (u64 \<times> SocketInfo) list \<Rightarrow> FileDescriptorInfo \<Rightarrow> (u32 \<times> Key list) option" where
  "entry_peer_keys sockets iterated e =
     map_option (\<lambda>info. (fdi_fd e, map socket_key (peers_of iterated (fk_inode (fdi_key e)) info))) (entry_socket sockets e)"

definition count_text :: "string \<Rightarrow> nat \<Rightarrow> string \<Rightarrow> rstring list" where
  "count_text before n after = (if 0 < n then [lit before @ show_dec n @ lit after] else [])"

text \<open>What the system answers during one collection.\<close>

record descriptor_world =
  dw_stat_first :: "stat_error + Stat"
  dw_dir :: "nat + fd_view list"
  dw_late_entry :: "nat \<Rightarrow> bool"
  dw_net :: net_view
  dw_late_metadata :: "u32 \<Rightarrow> bool"
  dw_calls :: "u32 \<Rightarrow> socket_calls"
  dw_proc :: "nat + byte list list"
  dw_view :: "i32 \<Rightarrow> process_view"
  dw_late_process :: "i32 \<Rightarrow> bool"
  dw_late_owner :: "i32 \<Rightarrow> nat \<Rightarrow> bool"
  dw_stat_last :: "stat_error + Stat"
  dw_captured_at :: u64

text \<open>The orders in which maps are iterated.\<close>

record map_orders =
  mo_metadata :: "(u64 \<times> u64) list \<Rightarrow> (u64 \<times> u64) list"
  mo_sockets :: "u64 list \<Rightarrow> u64 list"
  mo_owners :: "Key list \<Rightarrow> Key list"
  mo_peers :: "u32 list \<Rightarrow> u32 list"

datatype descriptors_error = NotTheProcess identity_error | DirectoryError nat

definition sorted_entries :: "descriptor_world \<Rightarrow> fd_view list \<Rightarrow> FileDescriptorInfo list \<times> rstring list" where
  "sorted_entries w vs =
     (case read_entries (dw_late_entry w) 0 vs [] 0 of (entries, omitted, truncated) \<Rightarrow>
        (sort_key fdi_fd entries,
         (if truncated then [lit ''The FD limit was reached. Showing partial results.''] else [])
         @ count_text ''Could not read '' omitted '' FDs because they closed or access was denied.''))"

text \<open>The sockets after metadata was applied, the metadata, and the warnings.\<close>

definition scanned_sockets ::
  "descriptor_world \<Rightarrow> map_orders \<Rightarrow> ProcessId \<Rightarrow> FileDescriptorInfo list \<Rightarrow> rstring list
   \<Rightarrow> (u64 \<times> SocketInfo) list \<times> ((u64 \<times> u64) \<times> SocketMetadata) list \<times> rstring list"
where
  "scanned_sockets w orders process_id entries warnings =
     (let needed = set (map (\<lambda>e. fk_inode (fdi_key e)) (filter (\<lambda>e. fdi_kind e = FdKind.Socket) entries)) in
      case (if needed = {} then ([], warnings) else socket_table (pid_pid process_id) (dw_net w) needed warnings) of (sockets, warnings) \<Rightarrow>
      (case read_all_metadata (dw_late_metadata w) (dw_calls w) entries (SocketMetadataReader_new process_id) [] of (metadata, truncated) \<Rightarrow>
         (fold (\<lambda>((_, inode), observed). apply_observed inode observed) (reordered (mo_metadata orders) metadata) sockets,
          metadata,
          warnings @ (if truncated then [lit ''Socket metadata scan time limit reached. Showing partial results.''] else []))))"

definition status_warnings :: "(u64 \<times> SocketInfo) list \<Rightarrow> ((u64 \<times> u64) \<times> SocketMetadata) list \<Rightarrow> FileDescriptorInfo list \<Rightarrow> rstring list" where
  "status_warnings sockets metadata entries =
     (let es = filter (\<lambda>e. fdi_kind e = FdKind.Socket) entries in
      count_text ''Socket type unavailable for '' (length (filter (\<lambda>e. map_of sockets (fk_inode (fdi_key e)) = None) es))
        '' FDs (closed, unsupported, or access denied).''
      @ count_text ''Socket connection status unavailable for ''
        (length (filter (\<lambda>e. entry_status sockets metadata e = SocketConnectionStatus.Unknown) es))
        '' FDs (closed, unobserved, unsupported, or access denied).'')"

definition collect_file_descriptors ::
  "descriptor_world \<Rightarrow> map_orders \<Rightarrow> ProcessId \<Rightarrow> descriptors_error + FileDescriptors"
where
  "collect_file_descriptors w orders process_id =
     (case validate_process_identity (dw_stat_first w) process_id of
        Inl e \<Rightarrow> Inl (NotTheProcess e)
      | Inr _ \<Rightarrow>
          (case dw_dir w of
             Inl errno \<Rightarrow> Inl (DirectoryError errno)
           | Inr vs \<Rightarrow>
               (case sorted_entries w vs of (entries, warnings) \<Rightarrow>
               case scanned_sockets w orders process_id entries warnings of (sockets, metadata, warnings) \<Rightarrow>
               (let warnings = warnings @ status_warnings sockets metadata entries;
                    entries = map (with_status sockets metadata) entries;
                    peer_keys = hash_map (List.map_filter (entry_peer_keys sockets (reordered (mo_sockets orders) sockets)) entries);
                    keys = fdi_key ` set entries \<union> (\<Union>(_, ks)\<in>set peer_keys. set ks) in
                case (if keys = {} then Inr ([], warnings)
                      else collect_descriptor_owners (dw_proc w) (dw_view w) (dw_late_process w) (dw_late_owner w) keys warnings) of
                  Inl errno \<Rightarrow> Inl (DirectoryError errno)
                | Inr (owners, warnings) \<Rightarrow>
                    (case validate_process_identity (dw_stat_last w) process_id of
                       Inl e \<Rightarrow> Inl (NotTheProcess e)
                     | Inr _ \<Rightarrow> Inr \<lparr>fds_process_id = process_id, fds_captured_at = dw_captured_at w,
                         fds_entries = map (with_socket sockets) entries, fds_warnings = warnings,
                         fds_raw_fd_owners = reordered (mo_owners orders) owners,
                         fds_raw_peer_keys = reordered (mo_peers orders) peer_keys\<rparr>)))))"

section \<open>Peers and holders\<close>

definition pipe_opposite :: "u32 option \<Rightarrow> u32 option \<Rightarrow> bool" where
  "pipe_opposite a b \<longleftrightarrow>
     a = Some 0 \<and> b \<in> {Some 1, Some 2} \<or> a = Some 1 \<and> b \<in> {Some 0, Some 2} \<or> a = Some 2 \<and> b \<in> {Some 0, Some 1, Some 2}"

definition PEER_LIMIT :: nat where "PEER_LIMIT = 64"

text \<open>An owner of the same resource becomes a peer or a holder.\<close>

definition add_owner :: "Owner \<Rightarrow> FileDescriptorInfo \<Rightarrow> FileDescriptorInfo" where
  "add_owner owner e =
     (if fdi_kind e \<noteq> FdKind.Socket \<and> pipe_opposite (fdi_mode e) (own_mode owner) then
        e\<lparr>fdi_peers := fdi_peers e @ [(own_endpoint owner)\<lparr>ep_relation :=
            FdAccess_text (ep_access (own_endpoint owner)) @ lit '' end of the same pipe''\<rparr>]\<rparr>
      else e\<lparr>fdi_holders := fdi_holders e @ [(own_endpoint owner)\<lparr>ep_relation :=
            (if fdi_kind e = FdKind.Socket then lit ''Holder of the same socket'' else lit ''Same pipe, same or unknown direction'')\<rparr>]\<rparr>)"

fun add_owners :: "ProcessId \<Rightarrow> Owner list \<Rightarrow> FileDescriptorInfo \<Rightarrow> FileDescriptorInfo" where
  "add_owners process_id [] e = e"
| "add_owners process_id (owner # owners) e =
     (if ep_process_id (own_endpoint owner) = process_id \<and> ep_fd (own_endpoint owner) = fdi_fd e then add_owners process_id owners e
      else (let e = add_owner owner e in
            if PEER_LIMIT \<le> length (fdi_peers e) + length (fdi_holders e)
            then e\<lparr>fdi_note := lit ''Showing up to 64 peer/shared FDs.''\<rparr> else add_owners process_id owners e))"

fun add_peers :: "Owner list \<Rightarrow> FileDescriptorInfo \<Rightarrow> FileDescriptorInfo" where
  "add_peers [] e = e"
| "add_peers (owner # owners) e =
     (if PEER_LIMIT \<le> length (fdi_peers e) then e\<lparr>fdi_note := lit ''Showing up to 64 peer FDs.''\<rparr>
      else add_peers owners (e\<lparr>fdi_peers := fdi_peers e @ [(own_endpoint owner)\<lparr>ep_relation :=
        (if fdi_peer_inode e \<noteq> None then lit ''UNIX peer'' else lit ''Reversed address/port match (candidate)'')\<rparr>]\<rparr>))"

definition empty_note :: "FileDescriptorInfo \<Rightarrow> FileDescriptorInfo" where
  "empty_note e =
     (if fdi_peers e = [] \<and> fdi_note e = [] then
        e\<lparr>fdi_note := (if fdi_state e = Some SocketState.Listen then lit ''Listening (no peer PID)''
          else lit ''Peer PID unknown (remote, unconnected, exited, unobserved, or access denied)'')\<rparr>
      else e)"

definition resolve_entry ::
  "ProcessId \<Rightarrow> (Key \<times> Owner list) list \<Rightarrow> (u32 \<times> Key list) list \<Rightarrow> FileDescriptorInfo \<Rightarrow> FileDescriptorInfo"
where
  "resolve_entry process_id owners peer_keys e =
     (let e = (case map_of owners (fdi_key e) of Some found \<Rightarrow> add_owners process_id found e | None \<Rightarrow> e);
          e = fold (\<lambda>key e. case map_of owners key of Some found \<Rightarrow> add_peers found e | None \<Rightarrow> e)
                (case map_of peer_keys (fdi_fd e) of Some ks \<Rightarrow> ks | None \<Rightarrow> []) e in
      empty_note e)"

definition resolve_descriptor_relations :: "FileDescriptors \<Rightarrow> FileDescriptors" where
  "resolve_descriptor_relations d =
     d\<lparr>fds_raw_fd_owners := [], fds_raw_peer_keys := [],
       fds_entries := map (resolve_entry (fds_process_id d) (hash_map (fds_raw_fd_owners d)) (hash_map (fds_raw_peer_keys d)))
         (fds_entries d)\<rparr>"

section \<open>What the scan reports\<close>

lemma identify_without_fifo:
  "identify_descriptor_resource meta link fifo = Some key \<Longrightarrow> identify_descriptor_resource meta link True = Some key"
  by (auto simp: identify_descriptor_resource_def split: option.splits if_splits)

text \<open>A descriptor of the directory that refers to a wanted resource, as an owner.\<close>

definition fd_seen :: "Key set \<Rightarrow> ProcessId \<Rightarrow> rstring \<Rightarrow> fd_view list \<Rightarrow> Key \<Rightarrow> Owner \<Rightarrow> bool" where
  "fd_seen keys process_id name vs key owner \<longleftrightarrow> key \<in> keys \<and>
     (\<exists>v\<in>set vs. \<exists>fd bytes. entry_fd v = Some fd \<and> fv_link v = Inr bytes
        \<and> identify_descriptor_resource (fv_meta v) (from_utf8_lossy bytes) True = Some key
        \<and> owner = owner_of process_id name fd (read_descriptor_access_mode v))"

lemma fd_seen_Cons: "fd_seen keys process_id name vs key owner \<Longrightarrow> fd_seen keys process_id name (v # vs) key owner"
  by (auto simp: fd_seen_def)

lemma scan_entries_found:
  assumes "scan_entries keys fifo process_id name late i vs s found = (stop, s', found')"
  shows "\<exists>new. found' = found @ new \<and> (\<forall>(key, owner)\<in>set new. fd_seen keys process_id name vs key owner)
    \<and> ss_matches s' = ss_matches s + length new \<and> (ss_matches s \<le> OWNER_LIMIT \<longrightarrow> ss_matches s' \<le> OWNER_LIMIT)"
  using assms
proof (induction vs arbitrary: i s found)
  case (Cons v vs)
  have skip: ?case if "scan_entries keys fifo process_id name late (Suc i) vs s0 found = (stop, s', found')"
      "ss_matches s0 = ss_matches s" for s0
    using Cons.IH [OF that(1)] that(2) by (fastforce intro: fd_seen_Cons)
  let ?s = "s\<lparr>ss_count := Suc (ss_count s)\<rparr>"
  show ?case
  proof (cases "SCAN_LIMIT < ss_count ?s \<or> OWNER_LIMIT \<le> ss_matches ?s \<or> late i")
    case True
    then show ?thesis using Cons.prems by (auto simp: Let_def)
  next
    case False
    then have go: "ss_matches s < OWNER_LIMIT" by simp
    show ?thesis
    proof (cases "entry_fd v")
      case None
      then show ?thesis using Cons.prems False by (intro skip [of ?s]) (simp_all add: Let_def)
    next
      case fd: (Some fd)
      show ?thesis
      proof (cases "fv_link v")
        case (Inl errno)
        then show ?thesis using Cons.prems False fd
          by (intro skip [of "if permission_denied errno then ?s\<lparr>ss_denied := Suc (ss_denied ?s)\<rparr> else ?s"]) (simp_all add: Let_def)
      next
        case (Inr bytes)
        show ?thesis
        proof (cases "\<exists>key\<in>keys. identify_descriptor_resource (fv_meta v) (from_utf8_lossy bytes) fifo = Some key")
          case None: False
          then show ?thesis using Cons.prems False fd Inr
            by (intro skip [of ?s]) (auto simp: Let_def split: option.splits if_splits)
        next
          case True
          then obtain key where key: "key \<in> keys" "identify_descriptor_resource (fv_meta v) (from_utf8_lossy bytes) fifo = Some key" by blast
          let ?o = "owner_of process_id name fd (read_descriptor_access_mode v)"
          have "scan_entries keys fifo process_id name late (Suc i) vs (?s\<lparr>ss_matches := Suc (ss_matches ?s)\<rparr>)
              (found @ [(key, ?o)]) = (stop, s', found')"
            using Cons.prems False fd Inr key by (simp add: Let_def)
          from Cons.IH [OF this] obtain new where new: "found' = (found @ [(key, ?o)]) @ new"
              "\<forall>(key, owner)\<in>set new. fd_seen keys process_id name vs key owner" "ss_matches s' = Suc (ss_matches s) + length new"
              "Suc (ss_matches s) \<le> OWNER_LIMIT \<longrightarrow> ss_matches s' \<le> OWNER_LIMIT"
            by auto
          have "fd_seen keys process_id name (v # vs) key ?o"
            using key fd Inr identify_without_fifo by (auto simp: fd_seen_def)
          then show ?thesis using new go fd_seen_Cons by (intro exI [of _ "(key, ?o) # new"]) auto
        qed
      qed
    qed
  qed
qed simp

section \<open>The owners\<close>

definition owner_pairs :: "(Key \<times> Owner list) list \<Rightarrow> (Key \<times> Owner) set" where
  "owner_pairs m = {(key, owner). \<exists>os. (key, os) \<in> set m \<and> owner \<in> set os}"

definition owner_total :: "(Key \<times> Owner list) list \<Rightarrow> nat" where
  "owner_total m = sum_list (map (length \<circ> snd) m)"

lemma set_update: "set (AList.update k v m) \<subseteq> insert (k, v) (set m)"
  by (induction m) auto

lemma owner_pairs_push: "owner_pairs (push_owner (key, owner) m) \<subseteq> insert (key, owner) (owner_pairs m)"
  using set_update [of key "(case map_of m key of Some os \<Rightarrow> os | None \<Rightarrow> []) @ [owner]" m]
  by (fastforce simp: owner_pairs_def push_owner_def dest: map_of_SomeD split: option.splits)

lemma owner_total_update:
  "owner_total (AList.update k v m) + (case map_of m k of Some os \<Rightarrow> length os | None \<Rightarrow> 0) = owner_total m + length v"
  by (induction m) (auto simp: owner_total_def split: option.splits)

lemma owner_total_push: "owner_total (push_owner (key, owner) m) = Suc (owner_total m)"
  using owner_total_update [of key "(case map_of m key of Some os \<Rightarrow> os | None \<Rightarrow> []) @ [owner]" m]
  by (simp add: push_owner_def split: option.splits)

lemma push_owners:
  "owner_pairs (fold push_owner found m) \<subseteq> set found \<union> owner_pairs m" "owner_total (fold push_owner found m) = length found + owner_total m"
  "distinct (map fst m) \<Longrightarrow> distinct (map fst (fold push_owner found m))"
proof -
  show "owner_pairs (fold push_owner found m) \<subseteq> set found \<union> owner_pairs m" for m
    using owner_pairs_push by (induction found arbitrary: m) fastforce+
  show "owner_total (fold push_owner found m) = length found + owner_total m" for m
    by (induction found arbitrary: m) (auto simp: owner_total_push)
  show "distinct (map fst m) \<Longrightarrow> distinct (map fst (fold push_owner found m))" for m
    by (induction found arbitrary: m) (auto simp: push_owner_def distinct_update)
qed

text \<open>An owner was seen in the directory of a process that was the same before and after.\<close>

definition owner_seen :: "(i32 \<Rightarrow> process_view) \<Rightarrow> Key set \<Rightarrow> Key \<Rightarrow> Owner \<Rightarrow> bool" where
  "owner_seen view keys key owner \<longleftrightarrow> (\<exists>pid stat vs. pv_stat (view pid) = Inr stat \<and> pv_dir (view pid) = Inr vs
     \<and> fd_seen keys \<lparr>pid_pid = pid, pid_start_time_ticks = stat_start_time stat\<rparr> (stat_name stat) vs key owner
     \<and> validate_process_identity (pv_stat_after (view pid)) \<lparr>pid_pid = pid, pid_start_time_ticks = stat_start_time stat\<rparr> = Inr ())"

definition owners_ok :: "(i32 \<Rightarrow> process_view) \<Rightarrow> Key set \<Rightarrow> (Key \<times> Owner list) list \<Rightarrow> bool" where
  "owners_ok view keys m \<longleftrightarrow> distinct (map fst m) \<and> (\<forall>(key, owner)\<in>owner_pairs m. owner_seen view keys key owner)"

lemma owners_ok_push:
  assumes "owners_ok view keys m" "\<forall>(key, owner)\<in>set found. owner_seen view keys key owner"
  shows "owners_ok view keys (fold push_owner found m)"
  using assms push_owners(1) [of found m] push_owners(3) [of m found] unfolding owners_ok_def by blast

lemma scan_processes_ok:
  assumes "scan_processes keys fifo view late_at late pids s warnings m = (s', warnings', m')"
    "owners_ok view keys m" "owner_total m \<le> ss_matches s" "ss_matches s \<le> OWNER_LIMIT"
  shows "owners_ok view keys m' \<and> owner_total m' \<le> OWNER_LIMIT"
  using assms
proof (induction pids arbitrary: s m)
  case (Cons pid pids)
  note prems = Cons.prems
  show ?case
  proof (cases "late_at pid")
    case True
    then show ?thesis using prems by auto
  next
    case go: False
    show ?thesis
    proof (cases "pv_stat (view pid)")
      case (Inl e)
      then show ?thesis using prems go by (intro Cons.IH [of s m]) simp_all
    next
      case stat: (Inr stat)
      show ?thesis
      proof (cases "pv_dir (view pid)")
        case (Inl errno)
        then show ?thesis using prems go stat
          by (intro Cons.IH [of "if permission_denied errno then s\<lparr>ss_denied := Suc (ss_denied s)\<rparr> else s" m]) (simp_all add: Let_def)
      next
        case vs: (Inr vs)
        let ?id = "\<lparr>pid_pid = pid, pid_start_time_ticks = stat_start_time stat\<rparr>"
        obtain stop s1 found where scan: "scan_entries keys fifo ?id (stat_name stat) (late pid) 0 vs s [] = (stop, s1, found)"
          by (metis prod_cases3)
        from scan_entries_found [OF scan] have found: "\<forall>(key, owner)\<in>set found. fd_seen keys ?id (stat_name stat) vs key owner"
            "ss_matches s1 = ss_matches s + length found" "ss_matches s1 \<le> OWNER_LIMIT"
          using prems(4) by auto
        show ?thesis
        proof (cases stop)
          case True
          then show ?thesis using prems go stat vs scan by (auto simp: Let_def)
        next
          case False
          let ?m = "case validate_process_identity (pv_stat_after (view pid)) ?id of Inr _ \<Rightarrow> fold push_owner found m | Inl _ \<Rightarrow> m"
          have cont: "scan_processes keys fifo view late_at late pids s1 warnings ?m = (s', warnings', m')"
            using prems(1) go stat vs scan False by (simp add: Let_def)
          have "owners_ok view keys ?m \<and> owner_total ?m \<le> ss_matches s1"
          proof (cases "validate_process_identity (pv_stat_after (view pid)) ?id")
            case (Inr u)
            then have "\<forall>(key, owner)\<in>set found. owner_seen view keys key owner"
              using found(1) stat vs by (fastforce simp: owner_seen_def)
            then show ?thesis using Inr prems(2,3) found(2) owners_ok_push push_owners(2) [of found m] by simp
          qed (use prems(2,3) found(2) in simp)
          then show ?thesis using Cons.IH [OF cont] found(3) by blast
        qed
      qed
    qed
  qed
qed auto

lemma collect_owners_ok:
  assumes "collect_descriptor_owners proc view late_at late keys warnings = Inr (m, warnings')"
  shows "owners_ok view keys m \<and> owner_total m \<le> OWNER_LIMIT"
proof -
  obtain names s w where "proc = Inr names" and "scan_processes keys (\<exists>k\<in>keys. fk_kind k = FdKind.Fifo) view late_at late
      (process_numbers names) \<lparr>ss_denied = 0, ss_count = 0, ss_matches = 0\<rparr> warnings [] = (s, w, m)"
    using assms by (auto simp: collect_descriptor_owners_def split: sum.splits prod.splits)
  then show ?thesis by (intro scan_processes_ok) (auto simp: owners_ok_def owner_pairs_def owner_total_def)
qed

section \<open>The entries\<close>

text \<open>An entry as the directory showed it, before sockets are looked up.\<close>

definition entry_seen :: "fd_view list \<Rightarrow> FileDescriptorInfo \<Rightarrow> bool" where
  "entry_seen vs e \<longleftrightarrow> (\<exists>v\<in>set vs. \<exists>fd bytes key. entry_fd v = Some fd \<and> fv_link v = Inr bytes
     \<and> identify_descriptor_resource (fv_meta v) (from_utf8_lossy bytes) True = Some key
     \<and> e = descriptor_entry fd (from_utf8_lossy bytes) key v)"

lemma read_entries_seen:
  assumes "read_entries late index vs entries omitted = (entries', omitted', truncated)"
  shows "\<exists>new. entries' = entries @ new \<and> (\<forall>e\<in>set new. entry_seen vs e) \<and> subseq (map fdi_fd new) (List.map_filter entry_fd vs)
    \<and> (length entries \<le> ENTRY_LIMIT \<longrightarrow> length entries' \<le> ENTRY_LIMIT)"
  using assms
proof (induction vs arbitrary: index entries omitted)
  case (Cons v vs)
  have weaken: "entry_seen vs e \<Longrightarrow> entry_seen (v # vs) e" for e by (auto simp: entry_seen_def)
  have skip: ?case if "read_entries late (Suc index) vs entries n = (entries', omitted', truncated)" for n
  proof -
    from Cons.IH [OF that] obtain new where new: "entries' = entries @ new" "\<forall>e\<in>set new. entry_seen vs e"
        "subseq (map fdi_fd new) (List.map_filter entry_fd vs)" "length entries \<le> ENTRY_LIMIT \<longrightarrow> length entries' \<le> ENTRY_LIMIT" by blast
    then show ?thesis using weaken
      by (intro exI [of _ new]) (auto simp: map_filter_simps split: option.splits)
  qed
  show ?case
  proof (cases "ENTRY_SCAN_LIMIT \<le> index \<or> ENTRY_LIMIT \<le> length entries \<or> late index")
    case True
    then show ?thesis using Cons.prems by auto
  next
    case False
    then have room: "length entries < ENTRY_LIMIT" by simp
    show ?thesis
    proof (cases "\<exists>fd bytes key. entry_fd v = Some fd \<and> fv_link v = Inr bytes
        \<and> identify_descriptor_resource (fv_meta v) (from_utf8_lossy bytes) True = Some key")
      case None: False
      then have "\<exists>n. read_entries late (Suc index) vs entries n = (entries', omitted', truncated)" using Cons.prems False
        by (cases "entry_fd v"; cases "fv_link v") (auto simp: Let_def split: option.splits)
      then show ?thesis using skip by blast
    next
      case True
      then obtain fd bytes key where v: "entry_fd v = Some fd" "fv_link v = Inr bytes"
          "identify_descriptor_resource (fv_meta v) (from_utf8_lossy bytes) True = Some key" by blast
      let ?e = "descriptor_entry fd (from_utf8_lossy bytes) key v"
      have "read_entries late (Suc index) vs (entries @ [?e]) omitted = (entries', omitted', truncated)"
        using Cons.prems False v by (simp add: Let_def)
      from Cons.IH [OF this] obtain new where new: "entries' = (entries @ [?e]) @ new" "\<forall>e\<in>set new. entry_seen vs e"
          "subseq (map fdi_fd new) (List.map_filter entry_fd vs)" "length (entries @ [?e]) \<le> ENTRY_LIMIT \<longrightarrow> length entries' \<le> ENTRY_LIMIT"
        by blast
      have "entry_seen (v # vs) ?e" using v by (auto simp: entry_seen_def)
      moreover have "fdi_fd ?e = fd" by (simp add: descriptor_entry_def Let_def)
      ultimately show ?thesis using new room weaken v(1)
        by (intro exI [of _ "?e # new"]) (auto simp: map_filter_simps)
    qed
  qed
qed simp

lemma subseq_distinct: "subseq xs ys \<Longrightarrow> distinct ys \<Longrightarrow> distinct xs"
  by (induction rule: list_emb.induct) (auto elim: list_emb_set)

lemma sorted_entries_seen:
  assumes "sorted_entries w vs = (entries, warnings)"
  shows "\<forall>e\<in>set entries. entry_seen vs e" "length entries \<le> ENTRY_LIMIT" "sorted (map fdi_fd entries)"
    "distinct (List.map_filter entry_fd vs) \<Longrightarrow> distinct (map fdi_fd entries)"
proof -
  obtain es omitted truncated where r: "read_entries (dw_late_entry w) 0 vs [] 0 = (es, omitted, truncated)" and e: "entries = sort_key fdi_fd es"
    using assms by (auto simp: sorted_entries_def split: prod.splits)
  from read_entries_seen [OF r] show "\<forall>e\<in>set entries. entry_seen vs e" "length entries \<le> ENTRY_LIMIT" by (auto simp: e)
  show "sorted (map fdi_fd entries)" by (simp add: e)
  assume "distinct (List.map_filter entry_fd vs)"
  then have "distinct (map fdi_fd es)" using read_entries_seen [OF r] by (auto intro: subseq_distinct)
  then show "distinct (map fdi_fd entries)"
    unfolding e by (metis mset_eq_imp_distinct_iff mset_map mset_sort)
qed

lemma with_status_fields [simp]:
  "fdi_fd (with_status sockets metadata e) = fdi_fd e" "fdi_kind (with_status sockets metadata e) = fdi_kind e"
  "fdi_key (with_status sockets metadata e) = fdi_key e" "fdi_mode (with_status sockets metadata e) = fdi_mode e"
  "fdi_peers (with_status sockets metadata e) = fdi_peers e" "fdi_holders (with_status sockets metadata e) = fdi_holders e"
  "fdi_target (with_status sockets metadata e) = fdi_target e" "entry_socket sockets' (with_status sockets metadata e) = entry_socket sockets' e"
  by (simp_all add: with_status_def entry_socket_def)

lemma with_socket_fields [simp]:
  "fdi_fd (with_socket sockets e) = fdi_fd e" "fdi_kind (with_socket sockets e) = fdi_kind e"
  "fdi_key (with_socket sockets e) = fdi_key e" "fdi_mode (with_socket sockets e) = fdi_mode e"
  "fdi_peers (with_socket sockets e) = fdi_peers e" "fdi_holders (with_socket sockets e) = fdi_holders e"
  "fdi_target (with_socket sockets e) = fdi_target e" "fdi_connection_status (with_socket sockets e) = fdi_connection_status e"
  by (simp_all add: with_socket_def split: option.splits)

section \<open>Resolving\<close>

definition same_fields :: "FileDescriptorInfo \<Rightarrow> FileDescriptorInfo \<Rightarrow> bool" where
  "same_fields e f \<longleftrightarrow> fdi_fd f = fdi_fd e \<and> fdi_key f = fdi_key e \<and> fdi_kind f = fdi_kind e \<and> fdi_mode f = fdi_mode e
     \<and> fdi_state f = fdi_state e \<and> fdi_peer_inode f = fdi_peer_inode e"

text \<open>An endpoint in the list of peers or holders, up to the text of the relation.\<close>

definition shows_owner :: "Endpoint \<Rightarrow> Owner \<Rightarrow> bool" where
  "shows_owner p owner \<longleftrightarrow> p = (own_endpoint owner)\<lparr>ep_relation := ep_relation p\<rparr>"

definition is_self :: "ProcessId \<Rightarrow> u32 \<Rightarrow> Owner \<Rightarrow> bool" where
  "is_self process_id fd owner \<longleftrightarrow> ep_process_id (own_endpoint owner) = process_id \<and> ep_fd (own_endpoint owner) = fd"

lemma shows_owner_update [simp]: "shows_owner ((own_endpoint owner)\<lparr>ep_relation := text\<rparr>) owner"
  by (simp add: shows_owner_def)

lemma same_fields_refl [simp]: "same_fields e e"
  by (simp add: same_fields_def)

lemma same_fields_trans: "same_fields e f \<Longrightarrow> same_fields f g \<Longrightarrow> same_fields e g"
  by (simp add: same_fields_def)

lemma same_fields_update [simp]:
  "same_fields e (f\<lparr>fdi_peers := ps\<rparr>) = same_fields e f" "same_fields e (f\<lparr>fdi_holders := ps\<rparr>) = same_fields e f"
  "same_fields e (f\<lparr>fdi_note := t\<rparr>) = same_fields e f"
  by (simp_all add: same_fields_def)

lemma add_owner_same [simp]: "same_fields e (add_owner owner e)"
  by (simp add: add_owner_def)

lemma add_owner_lists:
  "p \<in> set (fdi_peers (add_owner owner e)) \<Longrightarrow> p \<in> set (fdi_peers e)
     \<or> fdi_kind e \<noteq> FdKind.Socket \<and> pipe_opposite (fdi_mode e) (own_mode owner) \<and> shows_owner p owner"
  "h \<in> set (fdi_holders (add_owner owner e)) \<Longrightarrow> h \<in> set (fdi_holders e) \<or> shows_owner h owner"
  "length (fdi_peers (add_owner owner e)) + length (fdi_holders (add_owner owner e)) = Suc (length (fdi_peers e) + length (fdi_holders e))"
  "\<exists>p\<in>set (fdi_peers (add_owner owner e)) \<union> set (fdi_holders (add_owner owner e)). shows_owner p owner"
  "set (fdi_peers e) \<subseteq> set (fdi_peers (add_owner owner e))" "set (fdi_holders e) \<subseteq> set (fdi_holders (add_owner owner e))"
  by (auto simp: add_owner_def split: if_splits)

text \<open>What every step keeps, the loop keeps.\<close>

lemma add_owners_induct:
  assumes "P e" "\<And>f owner. P f \<Longrightarrow> owner \<in> set owners \<Longrightarrow> \<not> is_self process_id (fdi_fd f) owner \<Longrightarrow> P (add_owner owner f)"
    "\<And>f t. P f \<Longrightarrow> P (f\<lparr>fdi_note := t\<rparr>)"
  shows "P (add_owners process_id owners e)"
  using assms
proof (induction owners arbitrary: e)
  case (Cons owner owners)
  show ?case
  proof (cases "is_self process_id (fdi_fd e) owner")
    case True
    then show ?thesis using Cons by (simp add: is_self_def)
  next
    case False
    then have "P (add_owner owner e)" using Cons.prems by simp
    moreover from this have "P (add_owners process_id owners (add_owner owner e))" using Cons by simp
    ultimately show ?thesis using False Cons.prems(3) [of "add_owner owner e"] by (auto simp: is_self_def Let_def)
  qed
qed simp

definition owners_listed :: "ProcessId \<Rightarrow> Owner list \<Rightarrow> FileDescriptorInfo \<Rightarrow> FileDescriptorInfo \<Rightarrow> bool" where
  "owners_listed process_id owners e f \<longleftrightarrow> same_fields e f
     \<and> (\<forall>p\<in>set (fdi_peers f). p \<in> set (fdi_peers e) \<or> (\<exists>owner\<in>set owners. fdi_kind e \<noteq> FdKind.Socket
          \<and> pipe_opposite (fdi_mode e) (own_mode owner) \<and> shows_owner p owner \<and> \<not> is_self process_id (fdi_fd e) owner))
     \<and> (\<forall>h\<in>set (fdi_holders f). h \<in> set (fdi_holders e)
          \<or> (\<exists>owner\<in>set owners. shows_owner h owner \<and> \<not> is_self process_id (fdi_fd e) owner))"

lemma add_owners_listed: "owners_listed process_id owners e (add_owners process_id owners e)"
proof (rule add_owners_induct)
  fix f owner
  assume f: "owners_listed process_id owners e f" "owner \<in> set owners" "\<not> is_self process_id (fdi_fd f) owner"
  then have same: "same_fields e f" by (simp add: owners_listed_def)
  then have "fdi_kind f = fdi_kind e" "fdi_mode f = fdi_mode e" "fdi_fd f = fdi_fd e" by (simp_all add: same_fields_def)
  then show "owners_listed process_id owners e (add_owner owner f)"
    using f same_fields_trans [OF same add_owner_same [of f owner]] add_owner_lists(1,2) [of _ owner f] unfolding owners_listed_def by metis
qed (simp_all add: owners_listed_def)

lemma add_owners_mono:
  "set (fdi_peers e) \<union> set (fdi_holders e) \<subseteq> set (fdi_peers (add_owners process_id owners e)) \<union> set (fdi_holders (add_owners process_id owners e))"
  using add_owner_lists(5,6) by (rule_tac add_owners_induct) (auto, blast+)

lemma add_owners_bound:
  assumes "length (fdi_peers e) + length (fdi_holders e) < PEER_LIMIT"
  shows "length (fdi_peers (add_owners process_id owners e)) + length (fdi_holders (add_owners process_id owners e)) \<le> PEER_LIMIT"
  using assms
proof (induction owners arbitrary: e)
  case (Cons owner owners)
  then show ?case using add_owner_lists(3) [of owner e] by (auto simp: Let_def)
qed simp

text \<open>Without reaching the limit, every owner but the descriptor itself is listed.\<close>

lemma add_owners_complete:
  assumes "length (fdi_peers (add_owners process_id owners e)) + length (fdi_holders (add_owners process_id owners e)) < PEER_LIMIT"
    "owner \<in> set owners" "\<not> is_self process_id (fdi_fd e) owner"
  shows "\<exists>p\<in>set (fdi_peers (add_owners process_id owners e)) \<union> set (fdi_holders (add_owners process_id owners e)). shows_owner p owner"
  using assms
proof (induction owners arbitrary: e)
  case (Cons x owners)
  show ?case
  proof (cases "is_self process_id (fdi_fd e) x")
    case True
    then show ?thesis using Cons by (auto simp: is_self_def)
  next
    case False
    then have go: "add_owners process_id (x # owners) e = add_owners process_id owners (add_owner x e)"
      using Cons.prems(1) by (auto simp: is_self_def Let_def split: if_splits)
    have fd: "fdi_fd (add_owner x e) = fdi_fd e" using add_owner_same [of e x] by (simp add: same_fields_def)
    show ?thesis
    proof (cases "owner = x")
      case True
      then show ?thesis using add_owner_lists(4) [of x e] add_owners_mono [of "add_owner x e" process_id owners] go by auto
    next
      case False
      then show ?thesis using Cons.IH [of "add_owner x e"] Cons.prems go fd by simp
    qed
  qed
qed simp

lemma add_peers_all:
  "same_fields e (add_peers owners e) \<and> fdi_holders (add_peers owners e) = fdi_holders e
   \<and> prefix (fdi_peers e) (fdi_peers (add_peers owners e))
   \<and> (\<forall>p\<in>set (fdi_peers (add_peers owners e)). p \<in> set (fdi_peers e) \<or> (\<exists>owner\<in>set owners. shows_owner p owner))
   \<and> (length (fdi_peers e) \<le> PEER_LIMIT \<longrightarrow> length (fdi_peers (add_peers owners e)) \<le> PEER_LIMIT)"
proof (induction owners arbitrary: e)
  case (Cons owner owners)
  define e1 where "e1 = e\<lparr>fdi_peers := fdi_peers e @ [(own_endpoint owner)\<lparr>ep_relation :=
        (if fdi_peer_inode e \<noteq> None then lit ''UNIX peer'' else lit ''Reversed address/port match (candidate)'')\<rparr>]\<rparr>"
  have e1: "same_fields e e1" "fdi_holders e1 = fdi_holders e" "prefix (fdi_peers e) (fdi_peers e1)"
      "\<forall>q\<in>set (fdi_peers e1). q \<in> set (fdi_peers e) \<or> shows_owner q owner" "length (fdi_peers e1) = Suc (length (fdi_peers e))"
    by (auto simp: e1_def)
  show ?case
  proof (cases "PEER_LIMIT \<le> length (fdi_peers e)")
    case False
    then have "add_peers (owner # owners) e = add_peers owners e1" by (simp add: e1_def)
    moreover have "length (fdi_peers e1) \<le> PEER_LIMIT" using False e1(5) by simp
    ultimately show ?thesis using Cons.IH [of e1] e1 same_fields_trans [OF e1(1)] prefix_order.trans [OF e1(3)] by auto
  qed auto
qed simp

lemmas add_peers_same = add_peers_all [THEN conjunct1]
lemmas add_peers_listed = add_peers_all [THEN conjunct2]

text \<open>The peers of an entry: ends of the same pipe, or descriptors of a socket that is the other end.\<close>

definition other_end :: "(u64 \<times> SocketInfo) list \<Rightarrow> u64 \<Rightarrow> SocketInfo \<Rightarrow> u64 \<Rightarrow> bool" where
  "other_end sockets inode info i \<longleftrightarrow>
     (case si_peer_inode info of
        Some peer \<Rightarrow> i = peer
      | None \<Rightarrow> i \<noteq> inode \<and> (\<exists>other tcp local remote. map_of sockets i = Some other
          \<and> connected_socket_key info = Some (tcp, local, remote) \<and> connected_socket_key other = Some (tcp, remote, local)))"

definition peer_seen :: "(i32 \<Rightarrow> process_view) \<Rightarrow> (u64 \<times> SocketInfo) list \<Rightarrow> ProcessId \<Rightarrow> FileDescriptorInfo \<Rightarrow> Owner \<Rightarrow> bool" where
  "peer_seen view sockets process_id e owner \<longleftrightarrow>
     (if fdi_kind e = FdKind.Socket then
        \<exists>info i. map_of sockets (fk_inode (fdi_key e)) = Some info \<and> other_end sockets (fk_inode (fdi_key e)) info i
          \<and> owner_seen view UNIV (socket_key i) owner
      else owner_seen view UNIV (fdi_key e) owner \<and> pipe_opposite (fdi_mode e) (own_mode owner) \<and> \<not> is_self process_id (fdi_fd e) owner)"

text \<open>The sockets that a collection works with.\<close>

definition collected_sockets :: "descriptor_world \<Rightarrow> map_orders \<Rightarrow> ProcessId \<Rightarrow> (u64 \<times> SocketInfo) list" where
  "collected_sockets w orders process_id =
     (case dw_dir w of
        Inl _ \<Rightarrow> []
      | Inr vs \<Rightarrow> (case sorted_entries w vs of (entries, warnings) \<Rightarrow> fst (scanned_sockets w orders process_id entries warnings)))"

lemma reordered_entries: "set (reordered order m) \<subseteq> {(k, v). map_of m k = Some v}"
  by (auto simp: reordered_def List.map_filter_def split: option.splits)

lemma hash_map_entry: "(k, v) \<in> set (hash_map kvs) \<Longrightarrow> map_of (rev kvs) k = Some v"
  using hash_map_keys [of kvs] by (simp add: flip: hash_map_lookup)

lemma hash_map_consistent:
  assumes "map_of (hash_map kvs) k = Some v"
  shows "(k, v) \<in> set kvs"
  using map_of_SomeD [of "rev kvs"] assms by (simp add: hash_map_lookup)

lemma hash_map_reordered: "map_of (hash_map (reordered order m)) k = Some v \<Longrightarrow> map_of m k = Some v"
  using subsetD [OF reordered_entries hash_map_consistent] by fastforce

lemma peers_of_other_end:
  "i \<in> set (peers_of (reordered order sockets) inode info) \<Longrightarrow> other_end sockets inode info i"
  using reordered_entries [of order sockets]
  by (fastforce simp: peers_of_def other_end_def with_key_def split: option.splits)

text \<open>The parts of a successful collection.\<close>

lemma collect_cases:
  assumes "collect_file_descriptors w orders process_id = Inr d"
  obtains vs entries warnings sockets metadata peer_keys owners where
    "dw_dir w = Inr vs" "sorted_entries w vs = (entries, warnings)" "sockets = collected_sockets w orders process_id"
    "validate_process_identity (dw_stat_first w) process_id = Inr ()" "validate_process_identity (dw_stat_last w) process_id = Inr ()"
    "fds_process_id d = process_id" "fds_entries d = map (\<lambda>e. with_socket sockets (with_status sockets metadata e)) entries"
    "peer_keys = hash_map (List.map_filter (entry_peer_keys sockets (reordered (mo_sockets orders) sockets)) entries)"
    "fds_raw_peer_keys d = reordered (mo_peers orders) peer_keys"
    "\<exists>keys. owners_ok (dw_view w) keys owners \<and> owner_total owners \<le> OWNER_LIMIT" "fds_raw_fd_owners d = reordered (mo_owners orders) owners"
proof -
  obtain vs where vs: "dw_dir w = Inr vs" using assms by (auto simp: collect_file_descriptors_def split: sum.splits)
  obtain entries warnings where es: "sorted_entries w vs = (entries, warnings)" by (metis surj_pair)
  obtain sockets metadata warnings1 where sc: "scanned_sockets w orders process_id entries warnings = (sockets, metadata, warnings1)" by (metis prod_cases3)
  have sockets: "sockets = collected_sockets w orders process_id" by (simp add: collected_sockets_def vs es sc)
  have "entry_peer_keys sockets r (with_status sockets metadata e) = entry_peer_keys sockets r e" for r e
    by (simp add: entry_peer_keys_def)
  then have pk: "List.map_filter (entry_peer_keys sockets r) (map (with_status sockets metadata) entries) = List.map_filter (entry_peer_keys sockets r) entries" for r
    by (induction entries) (simp_all add: map_filter_simps split: option.split)
  have none: "owners_ok (dw_view w) keys [] \<and> owner_total [] \<le> OWNER_LIMIT" for keys
    by (simp add: owners_ok_def owner_pairs_def owner_total_def)
  show thesis
    using assms unfolding collect_file_descriptors_def vs es sc sum.case prod.case Let_def pk
    by (auto simp: comp_def none split: sum.splits if_splits
        intro!: that [OF vs es sockets, of metadata] dest: collect_owners_ok)
qed

text \<open>The loop over the peers of an entry.\<close>

definition add_all_peers :: "(Key \<times> Owner list) list \<Rightarrow> Key list \<Rightarrow> FileDescriptorInfo \<Rightarrow> FileDescriptorInfo" where
  "add_all_peers owners ks e = fold (\<lambda>key e. case map_of owners key of Some found \<Rightarrow> add_peers found e | None \<Rightarrow> e) ks e"

lemma add_all_peers_listed:
  "same_fields e (add_all_peers owners ks e) \<and> fdi_holders (add_all_peers owners ks e) = fdi_holders e
   \<and> prefix (fdi_peers e) (fdi_peers (add_all_peers owners ks e))
   \<and> (\<forall>p\<in>set (fdi_peers (add_all_peers owners ks e)). p \<in> set (fdi_peers e)
        \<or> (\<exists>key\<in>set ks. \<exists>os. map_of owners key = Some os \<and> (\<exists>owner\<in>set os. shows_owner p owner)))
   \<and> (length (fdi_peers e) \<le> PEER_LIMIT \<longrightarrow> length (fdi_peers (add_all_peers owners ks e)) \<le> PEER_LIMIT)"
proof (induction ks arbitrary: e)
  case (Cons key ks)
  show ?case
  proof (cases "map_of owners key")
    case None
    then show ?thesis using Cons.IH [of e] by (auto simp: add_all_peers_def)
  next
    case (Some found)
    then have "add_all_peers owners (key # ks) e = add_all_peers owners ks (add_peers found e)" by (simp add: add_all_peers_def)
    then show ?thesis
      using Cons.IH [of "add_peers found e"] add_peers_listed [where owners = found and e = e]
        same_fields_trans [OF add_peers_same [where owners = found and e = e]] Some
      by (auto intro: prefix_order.trans)
  qed
qed (simp add: add_all_peers_def)

lemma empty_note_fields [simp]:
  "same_fields e (empty_note f) = same_fields e f" "fdi_peers (empty_note e) = fdi_peers e" "fdi_holders (empty_note e) = fdi_holders e"
  by (simp_all add: empty_note_def)

lemma empty_note_shown: "fdi_peers (empty_note e) = [] \<Longrightarrow> fdi_note (empty_note e) \<noteq> []"
  by (auto simp: empty_note_def lit_map_ch)

lemma resolve_entry_listed:
  assumes "fdi_peers e = []" "fdi_holders e = []"
    and os: "os = (case map_of owners (fdi_key e) of Some os \<Rightarrow> os | None \<Rightarrow> [])"
    and ks: "ks = (case map_of peer_keys (fdi_fd e) of Some ks \<Rightarrow> ks | None \<Rightarrow> [])"
    and r: "r = resolve_entry process_id owners peer_keys e"
  shows "same_fields e r" "length (fdi_peers r) \<le> PEER_LIMIT" "length (fdi_holders r) \<le> PEER_LIMIT"
    "\<forall>h\<in>set (fdi_holders r). \<exists>owner\<in>set os. shows_owner h owner \<and> \<not> is_self process_id (fdi_fd e) owner"
    "\<forall>p\<in>set (fdi_peers r). (\<exists>owner\<in>set os. fdi_kind e \<noteq> FdKind.Socket \<and> pipe_opposite (fdi_mode e) (own_mode owner)
        \<and> shows_owner p owner \<and> \<not> is_self process_id (fdi_fd e) owner)
      \<or> (\<exists>key\<in>set ks. \<exists>os. map_of owners key = Some os \<and> (\<exists>owner\<in>set os. shows_owner p owner))"
    "\<forall>owner\<in>set os. is_self process_id (fdi_fd e) owner \<or> PEER_LIMIT \<le> length (fdi_peers r) + length (fdi_holders r)
      \<or> (\<exists>p\<in>set (fdi_peers r) \<union> set (fdi_holders r). shows_owner p owner)"
    "fdi_peers r = [] \<Longrightarrow> fdi_note r \<noteq> []"
proof -
  let ?a = "add_owners process_id os e"
  let ?b = "add_all_peers owners ks ?a"
  have first: "(case map_of owners (fdi_key e) of Some found \<Rightarrow> add_owners process_id found e | None \<Rightarrow> e) = ?a"
    by (simp add: os split: option.splits)
  have a: "owners_listed process_id os e ?a" by (rule add_owners_listed)
  then have same: "same_fields e ?a" by (simp add: owners_listed_def)
  then have "fdi_fd ?a = fdi_fd e" by (simp add: same_fields_def)
  then have rb: "r = empty_note ?b" by (simp add: r resolve_entry_def Let_def first add_all_peers_def ks)
  note b = add_all_peers_listed [of ?a owners ks]
  have bound: "length (fdi_peers ?a) + length (fdi_holders ?a) \<le> PEER_LIMIT"
    by (rule add_owners_bound) (simp add: assms PEER_LIMIT_def)
  show "same_fields e r" using same_fields_trans [OF same] b by (simp add: rb)
  show "length (fdi_peers r) \<le> PEER_LIMIT" "length (fdi_holders r) \<le> PEER_LIMIT" using b bound by (simp_all add: rb)
  show "\<forall>h\<in>set (fdi_holders r). \<exists>owner\<in>set os. shows_owner h owner \<and> \<not> is_self process_id (fdi_fd e) owner"
    using a b assms(2) by (auto simp: rb owners_listed_def)
  show "\<forall>p\<in>set (fdi_peers r). (\<exists>owner\<in>set os. fdi_kind e \<noteq> FdKind.Socket \<and> pipe_opposite (fdi_mode e) (own_mode owner)
        \<and> shows_owner p owner \<and> \<not> is_self process_id (fdi_fd e) owner)
      \<or> (\<exists>key\<in>set ks. \<exists>os. map_of owners key = Some os \<and> (\<exists>owner\<in>set os. shows_owner p owner))"
    using a b assms(1) unfolding rb owners_listed_def empty_note_fields by fastforce
  show "fdi_peers r = [] \<Longrightarrow> fdi_note r \<noteq> []" unfolding rb by (rule empty_note_shown)
  show "\<forall>owner\<in>set os. is_self process_id (fdi_fd e) owner \<or> PEER_LIMIT \<le> length (fdi_peers r) + length (fdi_holders r)
      \<or> (\<exists>p\<in>set (fdi_peers r) \<union> set (fdi_holders r). shows_owner p owner)"
  proof
    fix owner assume o: "owner \<in> set os"
    show "is_self process_id (fdi_fd e) owner \<or> PEER_LIMIT \<le> length (fdi_peers r) + length (fdi_holders r)
      \<or> (\<exists>p\<in>set (fdi_peers r) \<union> set (fdi_holders r). shows_owner p owner)"
    proof (cases "PEER_LIMIT \<le> length (fdi_peers ?a) + length (fdi_holders ?a)")
      case True
      have "length (fdi_peers ?a) \<le> length (fdi_peers ?b)" using b prefix_length_le by blast
      then show ?thesis using True b by (simp add: rb)
    next
      case False
      then have "\<not> is_self process_id (fdi_fd e) owner \<Longrightarrow> \<exists>p\<in>set (fdi_peers ?a) \<union> set (fdi_holders ?a). shows_owner p owner"
        using add_owners_complete [of process_id os e owner] o by simp
      moreover have "set (fdi_peers ?a) \<subseteq> set (fdi_peers r)" "set (fdi_holders ?a) = set (fdi_holders r)"
        using b set_mono_prefix [of "fdi_peers ?a" "fdi_peers ?b"] by (simp_all add: rb)
      ultimately show ?thesis by (cases "is_self process_id (fdi_fd e) owner") auto
    qed
  qed
qed

section \<open>The descriptors of a process, explained\<close>

lemma owner_seen_UNIV: "owner_seen view keys key owner \<Longrightarrow> owner_seen view UNIV key owner"
  by (fastforce simp: owner_seen_def fd_seen_def)


lemma map_filter_entry:
  assumes "(k, v) \<in> set (List.map_filter f xs)"
  obtains x where "x \<in> set xs" "f x = Some (k, v)"
  using assms by (auto simp: List.map_filter_def)

lemma peer_keys_other:
  assumes es: "sorted_entries w vs = (entries, warnings)" "distinct (List.map_filter entry_fd vs)" and e1: "e1 \<in> set entries"
    and pk: "peer_keys = hash_map (List.map_filter (entry_peer_keys sockets (reordered order sockets)) entries)"
    and ks: "map_of (hash_map (reordered order' peer_keys)) (fdi_fd e1) = Some ks" and key: "key \<in> set ks"
  shows "fdi_kind e1 = FdKind.Socket \<and> (\<exists>info i. map_of sockets (fk_inode (fdi_key e1)) = Some info
      \<and> key = socket_key i \<and> other_end sockets (fk_inode (fdi_key e1)) info i)"
proof -
  have "map_of peer_keys (fdi_fd e1) = Some ks" using ks by (rule hash_map_reordered)
  then have "(fdi_fd e1, ks) \<in> set (List.map_filter (entry_peer_keys sockets (reordered order sockets)) entries)"
    unfolding pk by (rule hash_map_consistent)
  then obtain e2 where e2: "e2 \<in> set entries" "entry_peer_keys sockets (reordered order sockets) e2 = Some (fdi_fd e1, ks)"
    by (rule map_filter_entry)
  then have "fdi_fd e2 = fdi_fd e1" by (auto simp: entry_peer_keys_def)
  then have "e2 = e1" using sorted_entries_seen(4) [OF es] e1 e2(1) by (auto simp: distinct_map dest: inj_onD)
  with e2(2) key show ?thesis
    by (auto simp: entry_peer_keys_def entry_socket_def split: if_splits) (use peers_of_other_end in blast)
qed

lemma raw_owner_seen:
  assumes "owners_ok view keys owners" "map_of (hash_map (reordered order owners)) key = Some v" "owner \<in> set v"
  shows "owner_seen view UNIV key owner"
proof -
  have "map_of owners key = Some v" using reordered_entries hash_map_consistent [OF assms(2)] by blast
  then show ?thesis
    using assms(1,3) map_of_SomeD owner_seen_UNIV by (fastforce simp: owners_ok_def owner_pairs_def)
qed

lemma raw_owner_entry:
  assumes "(key, v) \<in> set (reordered order owners)"
  shows "map_of (hash_map (reordered order owners)) key = Some v"
proof -
  have "key \<in> fst ` set (reordered order owners)" using assms by force
  then obtain v' where v': "map_of (hash_map (reordered order owners)) key = Some v'"
    unfolding hash_map_lookup by (metis map_of_eq_None_iff not_None_eq set_rev)
  have "map_of owners key = Some v'" "map_of owners key = Some v"
    using reordered_entries hash_map_consistent [OF v'] assms by blast+
  then show ?thesis using v' by simp
qed


text \<open>A pipe between two processes: process 7 reads from it, process 8 writes to it.\<close>

definition pipe_view :: "string \<Rightarrow> string \<Rightarrow> fd_view" where
  "pipe_view fd flags = \<lparr>fv_name = as_bytes (lit fd), fv_link = Inr (as_bytes (lit ''pipe:[9]'')), fv_meta = None,
     fv_info = Inr (as_bytes (lit ''flags: '' @ lit flags))\<rparr>"

definition sample_descriptor_world :: descriptor_world where
  "sample_descriptor_world = \<lparr>dw_stat_first = Inr sample_metadata_stat, dw_dir = Inr [pipe_view ''3'' ''00''],
     dw_late_entry = (\<lambda>_. False), dw_net = \<lparr>nv_table = (\<lambda>_. Inl []), nv_peers = Inl []\<rparr>, dw_late_metadata = (\<lambda>_. False),
     dw_calls = (\<lambda>_. sample_socket_calls), dw_proc = Inr [as_bytes (lit ''8'')],
     dw_view = (\<lambda>_. \<lparr>pv_stat = Inr (sample_metadata_stat\<lparr>stat_name := lit ''wr''\<rparr>), pv_dir = Inr [pipe_view ''4'' ''01''],
       pv_stat_after = Inr sample_metadata_stat\<rparr>),
     dw_late_process = (\<lambda>_. False), dw_late_owner = (\<lambda>_ _. False), dw_stat_last = Inr sample_metadata_stat, dw_captured_at = 0\<rparr>"

definition sample_orders :: map_orders where
  "sample_orders = \<lparr>mo_metadata = id, mo_sockets = id, mo_owners = id, mo_peers = id\<rparr>"

lemma read_text_back: "length (as_bytes s) \<le> MAX_TEXT \<Longrightarrow> read_procfs_text (Inr (as_bytes s)) = Inr s"
  by (simp add: read_procfs_text_def)

lemma flags_text: "read_procfs_text (Inr (as_bytes (lit ''flags: '' @ lit [CHR ''0'', c]))) = Inr (lit ''flags: '' @ lit [CHR ''0'', c])"
proof (rule read_text_back)
  have "length (utf8_char c) \<le> 4" for c by (simp add: utf8_char_def Let_def)
  then have "length (as_bytes s) \<le> 4 * length s" for s by (induction s) (simp_all add: as_bytes_def add_mono)
  from this [of "lit ''flags: '' @ lit [CHR ''0'', c]"]
  show "length (as_bytes (lit ''flags: '' @ lit [CHR ''0'', c])) \<le> MAX_TEXT" by (simp add: lit_map_ch MAX_TEXT_def)
qed

lemma pipe_view_fields:
  "entry_fd (pipe_view ''3'' fl) = Some 3" "entry_fd (pipe_view ''4'' fl) = Some 4"
  "fv_link (pipe_view f fl) = Inr (as_bytes (lit ''pipe:[9]''))" "fv_meta (pipe_view f fl) = None"
  by (simp_all add: pipe_view_def entry_fd_def lit_map_ch parse_u32_def parse_unsigned_def to_digit_def)

lemma pipe_view_mode:
  "read_descriptor_access_mode (pipe_view f ''00'') = Some 0" "read_descriptor_access_mode (pipe_view f ''01'') = Some 1"
  unfolding pipe_view_def read_descriptor_access_mode_def fd_view.simps flags_text sum.case
  by (simp_all add: lit_map_ch procfs_fields_def text_lines_def strip_cr_def map_filter_simps trim_def trim_start_def trim_end_def
      is_whitespace_def octal_u32_def parse_unsigned_def to_digit_def O_PATH_def O_ACCMODE_def)

lemma pipe_key: "identify_descriptor_resource None (lit ''pipe:[9]'') fifo = Some \<lparr>fk_kind = FdKind.Pipe, fk_device = 0, fk_inode = 9\<rparr>"
  by (simp add: identify_descriptor_resource_def parse_link_inode_def strip_prefix_def lit_map_ch parse_u64_def parse_unsigned_def to_digit_def)

definition sample_entry :: FileDescriptorInfo where
  "sample_entry = descriptor_entry 3 (lit ''pipe:[9]'') \<lparr>fk_kind = FdKind.Pipe, fk_device = 0, fk_inode = 9\<rparr> (pipe_view ''3'' ''00'')"

definition sample_owner :: Owner where
  "sample_owner = owner_of \<lparr>pid_pid = 8, pid_start_time_ticks = 500\<rparr> (lit ''wr'') 4 (Some 1)"

definition sample_descriptors :: FileDescriptors where
  "sample_descriptors = \<lparr>fds_process_id = \<lparr>pid_pid = 7, pid_start_time_ticks = 500\<rparr>, fds_captured_at = 0, fds_entries = [sample_entry],
     fds_warnings = [], fds_raw_fd_owners = [(\<lparr>fk_kind = FdKind.Pipe, fk_device = 0, fk_inode = 9\<rparr>, [sample_owner])],
     fds_raw_peer_keys = []\<rparr>"

lemma sample_entry_fields: "fdi_kind sample_entry = FdKind.Pipe" "fdi_key sample_entry = \<lparr>fk_kind = FdKind.Pipe, fk_device = 0, fk_inode = 9\<rparr>"
  "fdi_fd sample_entry = 3" "fdi_mode sample_entry = Some 0" "fdi_peers sample_entry = []" "fdi_holders sample_entry = []"
  by (simp_all add: sample_entry_def descriptor_entry_def Let_def pipe_view_mode)

lemma sample_sorted: "sorted_entries sample_descriptor_world [pipe_view ''3'' ''00''] = ([sample_entry], [])"
  by (simp add: sorted_entries_def sample_descriptor_world_def pipe_view_fields pipe_key sample_entry_def count_text_def
      ENTRY_SCAN_LIMIT_def ENTRY_LIMIT_def)

lemma sample_sockets: "scanned_sockets sample_descriptor_world sample_orders process_id [sample_entry] [] = ([], [], [])"
  by (simp add: scanned_sockets_def sample_entry_fields reordered_def map_filter_simps sample_orders_def)

lemma sample_owners:
  "collect_descriptor_owners (Inr [as_bytes (lit ''8'')]) (dw_view sample_descriptor_world) (\<lambda>_. False) (\<lambda>_ _. False)
     {\<lparr>fk_kind = FdKind.Pipe, fk_device = 0, fk_inode = 9\<rparr>} [] =
   Inr ([(\<lparr>fk_kind = FdKind.Pipe, fk_device = 0, fk_inode = 9\<rparr>, [sample_owner])], [])"
proof -
  have pids: "process_numbers [as_bytes (lit ''8'')] = [8]"
    by (simp add: process_numbers_def map_filter_simps lit_map_ch parse_i32_def parse_signed_def parse_unsigned_def to_digit_def)
  show ?thesis
    by (simp add: collect_descriptor_owners_def pids sample_descriptor_world_def sample_metadata_stat_def pipe_view_fields pipe_view_mode pipe_key SCAN_LIMIT_def OWNER_LIMIT_def
        validate_process_identity_def lit_eq_iff push_owner_def sample_owner_def)
qed

lemma sample_collected: "collect_file_descriptors sample_descriptor_world sample_orders \<lparr>pid_pid = 7, pid_start_time_ticks = 500\<rparr> = Inr sample_descriptors"
proof -
  let ?w = sample_descriptor_world
  have w: "dw_dir ?w = Inr [pipe_view ''3'' ''00'']" "dw_proc ?w = Inr [as_bytes (lit ''8'')]" "dw_late_process ?w = (\<lambda>_. False)"
    "dw_late_owner ?w = (\<lambda>_ _. False)" "dw_captured_at ?w = 0" "dw_stat_first ?w = Inr sample_metadata_stat" "dw_stat_last ?w = Inr sample_metadata_stat"
    by (simp_all add: sample_descriptor_world_def)
  have orders: "mo_owners sample_orders = id" "mo_peers sample_orders = id" by (simp_all add: sample_orders_def)
  have ok: "validate_process_identity (Inr sample_metadata_stat) \<lparr>pid_pid = 7, pid_start_time_ticks = 500\<rparr> = Inr ()"
    by (simp add: sample_metadata_stat_def validate_process_identity_def lit_eq_iff)
  have e: "with_status [] [] sample_entry = sample_entry" "with_socket [] sample_entry = sample_entry" "entry_peer_keys [] r sample_entry = None"
      "status_warnings [] [] [sample_entry] = []" for r
    by (simp_all add: with_status_def with_socket_def entry_peer_keys_def entry_socket_def status_warnings_def count_text_def sample_entry_fields)
  show ?thesis
    by (simp add: collect_file_descriptors_def w ok sample_sorted sample_sockets e map_filter_simps hash_map_def sample_owners sample_entry_fields
        sample_descriptors_def reordered_def orders)
qed


lemma sample_resolved:
  "fds_entries (resolve_descriptor_relations sample_descriptors) = [sample_entry\<lparr>fdi_peers := [(own_endpoint sample_owner)\<lparr>ep_relation := lit ''write end of the same pipe''\<rparr>]\<rparr>]"
proof -
  have own: "own_mode sample_owner = Some 1" "ep_process_id (own_endpoint sample_owner) \<noteq> \<lparr>pid_pid = 7, pid_start_time_ticks = 500\<rparr>"
      "ep_access (own_endpoint sample_owner) = FdAccess.Write"
    by (simp_all add: sample_owner_def owner_of_def descriptor_access_from_mode_def FdAccess_from_mode_def)
  show ?thesis
    using own by (simp add: resolve_descriptor_relations_def sample_descriptors_def resolve_entry_def hash_map_def sample_entry_fields
        add_owner_def pipe_opposite_def PEER_LIMIT_def empty_note_def FdAccess_text_def lit_map_ch)
qed


end
