(* ===== verification/Rdma_Names.thy ===== *)
theory Rdma_Names
  imports Socket_Names Bytes
begin

text \<open>
  Kernel codes of RDMA resources with their texts, GIDs, and connection manager addresses (\<open>src/ipc/rdma.rs\<close>).
\<close>

section \<open>Codes\<close>

definition RdmaQpType_from_code :: "u8 \<Rightarrow> RdmaQpType" where
  "RdmaQpType_from_code code =
     (if code = 0 then RdmaQpType.Smi else if code = 1 then RdmaQpType.Gsi else if code = 2 then RdmaQpType.Rc
      else if code = 3 then RdmaQpType.Uc else if code = 4 then RdmaQpType.Ud else if code = 5 then RdmaQpType.RawIpv6
      else if code = 6 then RdmaQpType.RawEthertype else if code = 8 then RdmaQpType.RawPacket else if code = 9 then RdmaQpType.XrcIni
      else if code = 10 then RdmaQpType.XrcTgt else if code = 0xff then RdmaQpType.Driver else RdmaQpType.Unknown code)"

definition is_connected :: "RdmaQpType \<Rightarrow> bool" where
  "is_connected t \<longleftrightarrow> t \<in> {RdmaQpType.Rc, RdmaQpType.Uc, RdmaQpType.XrcIni, RdmaQpType.XrcTgt}"

fun RdmaQpType_text :: "RdmaQpType \<Rightarrow> rstring" where
  "RdmaQpType_text RdmaQpType.Smi = lit ''SMI''"
| "RdmaQpType_text RdmaQpType.Gsi = lit ''GSI''"
| "RdmaQpType_text RdmaQpType.Rc = lit ''RC''"
| "RdmaQpType_text RdmaQpType.Uc = lit ''UC''"
| "RdmaQpType_text RdmaQpType.Ud = lit ''UD''"
| "RdmaQpType_text RdmaQpType.RawIpv6 = lit ''RAW_IPV6''"
| "RdmaQpType_text RdmaQpType.RawEthertype = lit ''RAW_ETHERTYPE''"
| "RdmaQpType_text RdmaQpType.RawPacket = lit ''RAW_PACKET''"
| "RdmaQpType_text RdmaQpType.XrcIni = lit ''XRC_INI''"
| "RdmaQpType_text RdmaQpType.XrcTgt = lit ''XRC_TGT''"
| "RdmaQpType_text RdmaQpType.Driver = lit ''DRIVER''"
| "RdmaQpType_text (RdmaQpType.Unknown code) = lit ''TYPE '' @ show_dec (unat code)"

definition RdmaQpState_from_code :: "u8 \<Rightarrow> RdmaQpState" where
  "RdmaQpState_from_code code =
     (if code = 0 then RdmaQpState.Reset else if code = 1 then RdmaQpState.Init else if code = 2 then RdmaQpState.Rtr
      else if code = 3 then RdmaQpState.Rts else if code = 4 then RdmaQpState.Sqd else if code = 5 then RdmaQpState.Sqe
      else if code = 6 then RdmaQpState.Err else RdmaQpState.Unknown code)"

fun RdmaQpState_text :: "RdmaQpState \<Rightarrow> rstring" where
  "RdmaQpState_text RdmaQpState.Reset = lit ''RESET''"
| "RdmaQpState_text RdmaQpState.Init = lit ''INIT''"
| "RdmaQpState_text RdmaQpState.Rtr = lit ''RTR''"
| "RdmaQpState_text RdmaQpState.Rts = lit ''RTS''"
| "RdmaQpState_text RdmaQpState.Sqd = lit ''SQD''"
| "RdmaQpState_text RdmaQpState.Sqe = lit ''SQE''"
| "RdmaQpState_text RdmaQpState.Err = lit ''ERR''"
| "RdmaQpState_text (RdmaQpState.Unknown code) = lit ''STATE '' @ show_dec (unat code)"

definition RdmaCmState_from_code :: "u8 \<Rightarrow> RdmaCmState" where
  "RdmaCmState_from_code code =
     (if code = 0 then RdmaCmState.Idle else if code = 1 then RdmaCmState.AddrQuery else if code = 2 then RdmaCmState.AddrResolved
      else if code = 3 then RdmaCmState.RouteQuery else if code = 4 then RdmaCmState.RouteResolved
      else if code = 5 then RdmaCmState.Connect else if code = 6 then RdmaCmState.Disconnect else if code = 7 then RdmaCmState.AddrBound
      else if code = 8 then RdmaCmState.Listen else if code = 9 then RdmaCmState.DeviceRemoval
      else if code = 10 then RdmaCmState.Destroying else RdmaCmState.Unknown code)"

fun RdmaCmState_text :: "RdmaCmState \<Rightarrow> rstring" where
  "RdmaCmState_text RdmaCmState.Idle = lit ''IDLE''"
| "RdmaCmState_text RdmaCmState.AddrQuery = lit ''ADDR_QUERY''"
| "RdmaCmState_text RdmaCmState.AddrResolved = lit ''ADDR_RESOLVED''"
| "RdmaCmState_text RdmaCmState.RouteQuery = lit ''ROUTE_QUERY''"
| "RdmaCmState_text RdmaCmState.RouteResolved = lit ''ROUTE_RESOLVED''"
| "RdmaCmState_text RdmaCmState.Connect = lit ''CONNECT''"
| "RdmaCmState_text RdmaCmState.Disconnect = lit ''DISCONNECT''"
| "RdmaCmState_text RdmaCmState.AddrBound = lit ''ADDR_BOUND''"
| "RdmaCmState_text RdmaCmState.Listen = lit ''LISTEN''"
| "RdmaCmState_text RdmaCmState.DeviceRemoval = lit ''DEVICE_REMOVAL''"
| "RdmaCmState_text RdmaCmState.Destroying = lit ''DESTROYING''"
| "RdmaCmState_text (RdmaCmState.Unknown code) = lit ''STATE '' @ show_dec (unat code)"

definition RdmaPortSpace_from_code :: "u32 \<Rightarrow> RdmaPortSpace" where
  "RdmaPortSpace_from_code code =
     (if code = 0x0002 then RdmaPortSpace.Ipoib else if code = 0x0106 then RdmaPortSpace.Tcp
      else if code = 0x0111 then RdmaPortSpace.Udp else if code = 0x013f then RdmaPortSpace.Ib else RdmaPortSpace.Unknown code)"

text \<open>\<open>{:0k x}\<close>: at least \<open>k\<close> hexadecimal digits.\<close>

definition hex_at_least :: "nat \<Rightarrow> nat \<Rightarrow> rstring" where
  "hex_at_least k n = replicate (k - length (show_hex n)) (from_digit 0) @ show_hex n"

fun RdmaPortSpace_text :: "RdmaPortSpace \<Rightarrow> rstring" where
  "RdmaPortSpace_text RdmaPortSpace.Ipoib = lit ''IPOIB''"
| "RdmaPortSpace_text RdmaPortSpace.Tcp = lit ''TCP''"
| "RdmaPortSpace_text RdmaPortSpace.Udp = lit ''UDP''"
| "RdmaPortSpace_text RdmaPortSpace.Ib = lit ''IB''"
| "RdmaPortSpace_text (RdmaPortSpace.Unknown code) = lit ''PS 0x'' @ hex_at_least 4 (unat code)"

section \<open>GIDs\<close>

definition IbGid_from_slice :: "byte list \<Rightarrow> IbGid option" where
  "IbGid_from_slice bytes = (if length bytes = 16 \<and> bytes \<noteq> replicate 16 0 then Some (IbGid (array_of bytes)) else None)"

text \<open>A group of four hexadecimal digits, as two bytes in network order.\<close>

definition gid_group :: "rstring \<Rightarrow> byte list option" where
  "gid_group g = (if length (as_bytes g) \<noteq> 4 then None else map_option (\<lambda>n. [byte_of (n div 256), byte_of n]) (parse_unsigned 16 16 g))"

definition IbGid_parse :: "rstring \<Rightarrow> IbGid option" where
  "IbGid_parse text =
     (let groups = split_char (ch CHR '':'') (trim text) in
      if length groups \<noteq> 8 then None
      else Option.bind (those (map gid_group groups)) (\<lambda>bs. IbGid_from_slice (concat bs)))"

fun gid_texts :: "byte list \<Rightarrow> rstring list" where
  "gid_texts (a # b # bs) = (hex_at_least 2 (unat a) @ hex_at_least 2 (unat b)) # gid_texts bs"
| "gid_texts _ = []"

definition IbGid_text :: "IbGid \<Rightarrow> rstring" where
  "IbGid_text gid = joined (lit '':'') (gid_texts (elems (gid_bytes gid)))"

section \<open>Addresses\<close>

definition AF_IB :: u16 where "AF_IB = 27"

text \<open>\<open>from_be_bytes\<close>.\<close>

definition be_word :: "byte list \<Rightarrow> 'a::len word" where
  "be_word bytes = from_ne_bytes (rev bytes)"

definition RdmaAddress_decode :: "byte list \<Rightarrow> RdmaAddress option" where
  "RdmaAddress_decode bytes =
     Option.bind (get_slice 0 2 bytes) (\<lambda>f.
     let family = from_ne_bytes f :: u16; port = map_option be_word (get_slice 2 4 bytes) :: u16 option in
     if family = 0 then None
     else if family = ucast AF_INET then
       Option.bind (get_slice 4 8 bytes) (\<lambda>ip. Option.bind port (\<lambda>port. Some (RdmaAddress.Inet (V4 (array_of ip)) port)))
     else if family = ucast AF_INET6 then
       Option.bind (get_slice 8 24 bytes) (\<lambda>b.
       let ip = array_of b in
       Option.bind port (\<lambda>port. Some (RdmaAddress.Inet (case to_ipv4_mapped ip of Some v4 \<Rightarrow> V4 v4 | None \<Rightarrow> V6 ip) port)))
     else if family = AF_IB then
       Option.bind port (\<lambda>pkey.
       Option.bind (Option.bind (get_slice 8 24 bytes) IbGid_from_slice) (\<lambda>gid.
       Option.bind (get_slice 24 32 bytes) (\<lambda>service. Some (RdmaAddress.Ib gid (be_word service) pkey))))
     else Some (RdmaAddress.Unknown family))"

definition RdmaAddress_ip :: "RdmaAddress \<Rightarrow> IpAddr option" where
  "RdmaAddress_ip a = (case a of RdmaAddress.Inet ip _ \<Rightarrow> Some ip | _ \<Rightarrow> None)"

fun RdmaAddress_text :: "RdmaAddress \<Rightarrow> rstring" where
  "RdmaAddress_text (RdmaAddress.Inet ip port) =
     SocketAddr_text (case ip of V4 a \<Rightarrow> SocketV4 a port | V6 a \<Rightarrow> SocketV6 a port 0 0)"
| "RdmaAddress_text (RdmaAddress.Ib gid service_id pkey) = IbGid_text gid @ lit '' SID 0x'' @ hex_at_least 16 (unat service_id)"
| "RdmaAddress_text (RdmaAddress.Unknown family) = lit ''AF '' @ show_dec (unat family)"

section \<open>A GID is read back\<close>

lemma hex_at_least_byte:
  assumes "n < 256"
  shows "length (hex_at_least 2 n) = 2" "digits_value 16 acc (hex_at_least 2 n) = Some (acc * 256 + n)"
proof -
  have "n div 16 < 16" using assms by (simp add: div_less_iff_less_mult)
  then have parts: "show_hex n = (if n < 16 then [from_digit n] else [from_digit (n div 16), from_digit (n mod 16)])"
    by (subst show_radix.simps, subst show_radix.simps) auto
  then show "length (hex_at_least 2 n) = 2" by (simp add: hex_at_least_def)
  show "digits_value 16 acc (hex_at_least 2 n) = Some (acc * 256 + n)"
    using \<open>n div 16 < 16\<close> unfolding hex_at_least_def parts by (simp add: numeral_2_eq_2)
qed

lemma hex_digits_bytes:
  assumes "\<And>c. c \<in> set s \<Longrightarrow> \<exists>d. to_digit 16 c = Some d"
  shows "length (as_bytes s) = length s"
proof -
  have one: "length (utf8_char c) = 1" if "to_digit 16 c = Some d" for c d
    using that by (auto simp: to_digit_def utf8_char_def Let_def split: if_splits)
  show ?thesis using assms one by (induction s) (fastforce simp: as_bytes_def)+
qed

lemma gid_group_text:
  fixes a b :: byte
  shows "gid_group (hex_at_least 2 (unat a) @ hex_at_least 2 (unat b)) = Some [a, b]"
    and "c \<in> set (hex_at_least 2 (unat a) @ hex_at_least 2 (unat b)) \<Longrightarrow> \<exists>d. to_digit 16 c = Some d"
proof -
  let ?g = "hex_at_least 2 (unat a) @ hex_at_least 2 (unat b)"
  have bytes: "unat a < 256" "unat b < 256" using unat_less_pow [of a] unat_less_pow [of b] by simp_all
  have digits: "digits_value 16 0 ?g = Some (unat a * 256 + unat b)"
    using hex_at_least_byte(2) [OF bytes(1)] hex_at_least_byte(2) [OF bytes(2)] by (simp add: digits_value_append)
  then show chars: "c \<in> set ?g \<Longrightarrow> \<exists>d. to_digit 16 c = Some d" for c by (rule digits_value_digits)
  have "length ?g = 4" using hex_at_least_byte(1) bytes by simp
  moreover have "length (as_bytes ?g) = length ?g"
    using chars by (rule hex_digits_bytes)
  moreover have "parse_unsigned 16 16 ?g = Some (unat a * 256 + unat b)"
  proof (rule parse_unsigned_digits [OF _ digits])
    show "?g \<noteq> []" using \<open>length ?g = 4\<close> by auto
    have "x * 256 + y < 2 ^ 16" if "x < 256" "y < 256" for x y :: nat using that by simp
    then show "unat a * 256 + unat b < 2 ^ 16" using bytes by blast
  qed
  moreover have "byte_of ((unat a * 256 + unat b) div 256) = a" using bytes by (simp add: byte_of_def)
  moreover have "byte_of (unat a * 256 + unat b) = b"
  proof (rule word_unat_eq_iff [THEN iffD2])
    have "(unat a * 256 + unat b) mod 256 = unat b" using bytes(2) by (metis mod_less mod_mult_self3)
    then show "unat (byte_of (unat a * 256 + unat b)) = unat b" unfolding byte_of_def unat_of_nat by simp
  qed
  ultimately show "gid_group ?g = Some [a, b]" by (simp add: gid_group_def)
qed

text \<open>The groups of an even number of bytes.\<close>

lemma gid_texts_back:
  "even (length bs) \<Longrightarrow> \<exists>gs. those (map gid_group (gid_texts bs)) = Some gs \<and> concat gs = bs"
  by (induction bs rule: gid_texts.induct) (auto simp: gid_group_text(1))

lemma gid_texts_chars: "g \<in> set (gid_texts bs) \<Longrightarrow> g \<noteq> [] \<and> (\<forall>c\<in>set g. \<exists>d. to_digit 16 c = Some d)"
proof (induction bs rule: gid_texts.induct)
  case (1 a b bs)
  have "hex_at_least 2 (unat a) \<noteq> []" using hex_at_least_byte(1) [of "unat a"] unat_less_pow [of a] by auto
  then show ?case using 1 gid_group_text(2) [of _ a b] by auto
qed simp_all

lemma length_gid_texts: "length (gid_texts bs) = length bs div 2"
  by (induction bs rule: gid_texts.induct) simp_all

lemma split_joined:
  "ss \<noteq> [] \<Longrightarrow> (\<And>s. s \<in> set ss \<Longrightarrow> c \<notin> set s) \<Longrightarrow> split_char c (joined [c] ss) = ss"
proof (induction "[c]" ss rule: joined.induct)
  case (3 s t ss)
  then show ?case by (simp add: split_char_append)
qed (simp_all add: split_char_absent)

lemma joined_chars: "d \<in> set (joined [c] ss) \<Longrightarrow> d = c \<or> (\<exists>s\<in>set ss. d \<in> set s)"
  by (induction "[c]" ss rule: joined.induct) auto

lemma trim_solid: "list_all (\<lambda>c. \<not> is_whitespace c) s \<Longrightarrow> trim s = s"
proof -
  have drop: "list_all (\<lambda>c. \<not> is_whitespace c) s \<Longrightarrow> dropWhile is_whitespace s = s" for s by (cases s) simp_all
  assume "list_all (\<lambda>c. \<not> is_whitespace c) s"
  then show ?thesis using drop [of s] drop [of "rev s"] by (simp add: trim_def trim_start_def trim_end_def)
qed

lemma colon_not_space: "\<not> is_whitespace (ch CHR '':'')"
  by (simp add: is_whitespace_def)

text \<open>A GID that is assigned is read back from its text.\<close>

theorem gid_read_back:
  assumes "elems (gid_bytes gid) \<noteq> replicate 16 0"
  shows "IbGid_parse (IbGid_text gid) = Some gid"
proof -
  let ?bs = "elems (gid_bytes gid)" and ?c = "ch CHR '':''"
  have len: "length ?bs = 16" by simp
  have digit: "\<not> is_whitespace c \<and> c \<noteq> ?c" if "to_digit 16 c = Some d" for c d using to_digit_alnum [OF that] by blast
  have sep: "lit '':'' = [?c]" by (simp add: lit_map_ch)
  have ne: "gid_texts ?bs \<noteq> []" using length_gid_texts [of ?bs] len by auto
  have "list_all (\<lambda>c. \<not> is_whitespace c) (joined [?c] (gid_texts ?bs))"
    using joined_chars gid_texts_chars digit unfolding list_all_iff by (metis colon_not_space)
  then have "split_char ?c (trim (IbGid_text gid)) = gid_texts ?bs"
    unfolding IbGid_text_def sep using gid_texts_chars digit by (subst trim_solid) (simp_all, intro split_joined ne, blast)
  moreover obtain gs where "those (map gid_group (gid_texts ?bs)) = Some gs" "concat gs = ?bs"
    using gid_texts_back [of ?bs] len by auto
  moreover have "IbGid_from_slice ?bs = Some gid" using assms by (cases gid) (simp add: IbGid_from_slice_def)
  ultimately show ?thesis using len by (simp add: IbGid_parse_def length_gid_texts)
qed

end
