(* ===== verification/Rdma_Relations.thy ===== *)
theory Rdma_Relations
  imports Rdma_Names Netlink Kernel_Records Str_Order Hash_Map
begin

text \<open>
  The RDMA observation of the helper (\<open>src/privileged_helper/system/rdma\<close>): queue pairs and connection manager IDs
  from netlink dumps (\<open>nldev.rs\<close>), the neighbors of IPoIB interfaces (\<open>src/privileged_helper/system/ipoib.rs\<close>), and the
  relations between queue pairs (\<open>relations.rs\<close>, \<open>observation.rs\<close>). What a dump returns is an argument; the texts of
  errors are one as well.
\<close>

unbundle bit_operations_syntax

section \<open>Resources\<close>

definition RDMA_NL_NLDEV :: u16 where "RDMA_NL_NLDEV = 5"
definition CMD_GET :: u16 where "CMD_GET = 1"
definition CMD_RES_QP_GET :: u16 where "CMD_RES_QP_GET = 10"
definition CMD_RES_CM_ID_GET :: u16 where "CMD_RES_CM_ID_GET = 11"
definition DEV_INDEX :: u16 where "DEV_INDEX = 1"
definition DEV_NAME :: u16 where "DEV_NAME = 2"
definition PORT_INDEX :: u16 where "PORT_INDEX = 3"
definition RES_QP :: u16 where "RES_QP = 19"
definition RES_QP_ENTRY :: u16 where "RES_QP_ENTRY = 20"
definition RES_LQPN :: u16 where "RES_LQPN = 21"
definition RES_RQPN :: u16 where "RES_RQPN = 22"
definition RES_TYPE :: u16 where "RES_TYPE = 26"
definition RES_STATE :: u16 where "RES_STATE = 27"
definition RES_PID :: u16 where "RES_PID = 28"
definition RES_KERN_NAME :: u16 where "RES_KERN_NAME = 29"
definition RES_CM_ID :: u16 where "RES_CM_ID = 30"
definition RES_CM_ID_ENTRY :: u16 where "RES_CM_ID_ENTRY = 31"
definition RES_PS :: u16 where "RES_PS = 32"
definition RES_SRC_ADDR :: u16 where "RES_SRC_ADDR = 33"
definition RES_DST_ADDR :: u16 where "RES_DST_ADDR = 34"
definition RES_CM_IDN :: u16 where "RES_CM_IDN = 63"
definition QUEUE_PAIR_LIMIT :: nat where "QUEUE_PAIR_LIMIT = 4096"

lemmas rdma_attributes = DEV_INDEX_def DEV_NAME_def PORT_INDEX_def RES_QP_def RES_QP_ENTRY_def RES_LQPN_def RES_RQPN_def
  RES_TYPE_def RES_STATE_def RES_PID_def RES_KERN_NAME_def RES_CM_ID_def RES_CM_ID_ENTRY_def RES_PS_def RES_SRC_ADDR_def
  RES_DST_ADDR_def RES_CM_IDN_def

datatype ResourceOwner = Process u32 | Kernel rstring | Unknown

record QueuePairEntry =
  qpe_device :: rstring
  qpe_port :: "u32 option"
  qpe_qpn :: u32
  qpe_remote_qpn :: "u32 option"
  qpe_qp_type :: RdmaQpType
  qpe_state :: RdmaQpState
  qpe_owner :: ResourceOwner

record CmIdEntry =
  cme_device :: rstring
  cme_id :: "u32 option"
  cme_qpn :: "u32 option"
  cme_state :: RdmaCmState
  cme_port_space :: RdmaPortSpace
  cme_source :: "RdmaAddress option"
  cme_destination :: "RdmaAddress option"
  cme_owner :: ResourceOwner

record NldevResources =
  nr_queue_pairs :: "QueuePairEntry list"
  nr_cm_ids :: "CmIdEntry list"
  nr_errors :: "rstring list"
  nr_truncated :: bool

datatype rdma_error =
    Netlink netlink_error
  | ShortRdmaAttribute
  | NoDeviceName
  | NoQpn
  | NoType
  | NoState
  | NoPortSpace
  | NoDeviceIndex
  | ShortNeighbor

definition message_type_of :: "u16 \<Rightarrow> u16" where
  "message_type_of command = push_bit 10 RDMA_NL_NLDEV + command"

definition decode_attribute_string :: "byte list \<Rightarrow> rstring" where
  "decode_attribute_string data = from_utf8_lossy (takeWhile (\<lambda>b. b \<noteq> 0) data)"

definition netlink_result :: "netlink_error + 'a \<Rightarrow> rdma_error + 'a" where
  "netlink_result r = (case r of Inl e \<Rightarrow> Inl (Netlink e) | Inr x \<Rightarrow> Inr x)"

definition parse_u32_attribute :: "byte list \<Rightarrow> rdma_error + u32" where
  "parse_u32_attribute data = netlink_result (Netlink.u32_at data 0)"

definition parse_u8_attribute :: "byte list \<Rightarrow> rdma_error + u8" where
  "parse_u8_attribute data = (case data of b # _ \<Rightarrow> Inr b | [] \<Rightarrow> Inl ShortRdmaAttribute)"

definition parse_resource_owner :: "u32 option \<Rightarrow> rstring option \<Rightarrow> ResourceOwner" where
  "parse_resource_owner pid owner_name =
     (case owner_name of
        Some name \<Rightarrow> Kernel name
      | None \<Rightarrow> (case pid of Some pid \<Rightarrow> if pid \<noteq> 0 then Process pid else Unknown | None \<Rightarrow> Unknown))"

text \<open>The loop over attributes, with the variables it sets as a state.\<close>

fun each_attribute :: "(u16 \<times> byte list \<Rightarrow> 's \<Rightarrow> rdma_error + 's) \<Rightarrow> (u16 \<times> byte list) list \<Rightarrow> 's \<Rightarrow> rdma_error + 's" where
  "each_attribute step [] s = Inr s"
| "each_attribute step (a # as) s = and_then (step a s) (each_attribute step as)"

record entries_state =
  es_device :: "rstring option"
  es_found :: "byte list list"
  es_flat :: bool

definition entries_step :: "u16 \<Rightarrow> u16 \<Rightarrow> u16 \<times> byte list \<Rightarrow> entries_state \<Rightarrow> rdma_error + entries_state" where
  "entries_step table entry = (\<lambda>(kind, data) s.
     if kind = DEV_NAME then Inr (s\<lparr>es_device := Some (decode_attribute_string data)\<rparr>)
     else if kind = RES_LQPN \<or> kind = RES_PS then Inr (s\<lparr>es_flat := True\<rparr>)
     else if kind = table then
       and_then (netlink_result (parse_netlink_attributes data)) (\<lambda>as.
       Inr (s\<lparr>es_found := es_found s @ map snd (filter (\<lambda>a. fst a = entry) as)\<rparr>))
     else Inr s)"

definition parse_resource_entries :: "byte list \<Rightarrow> u16 \<Rightarrow> u16 \<Rightarrow> rdma_error + rstring \<times> byte list list" where
  "parse_resource_entries body table entry =
     and_then (netlink_result (parse_netlink_attributes body)) (\<lambda>as.
     and_then (each_attribute (entries_step table entry) as \<lparr>es_device = None, es_found = [], es_flat = False\<rparr>) (\<lambda>s.
     case es_device s of
       None \<Rightarrow> Inl NoDeviceName
     | Some device \<Rightarrow> Inr (device, es_found s @ (if es_flat s then [body] else []))))"

record resource_state =
  rs_port :: "u32 option"
  rs_id :: "u32 option"
  rs_qpn :: "u32 option"
  rs_remote_qpn :: "u32 option"
  rs_type :: "u8 option"
  rs_state :: "u8 option"
  rs_space :: "u32 option"
  rs_source :: "RdmaAddress option"
  rs_destination :: "RdmaAddress option"
  rs_pid :: "u32 option"
  rs_kernel :: "rstring option"

definition resource_start :: resource_state where
  "resource_start = \<lparr>rs_port = None, rs_id = None, rs_qpn = None, rs_remote_qpn = None, rs_type = None, rs_state = None,
     rs_space = None, rs_source = None, rs_destination = None, rs_pid = None, rs_kernel = None\<rparr>"

definition queue_pair_step :: "u16 \<times> byte list \<Rightarrow> resource_state \<Rightarrow> rdma_error + resource_state" where
  "queue_pair_step = (\<lambda>(kind, data) s.
     if kind = PORT_INDEX then and_then (parse_u32_attribute data) (\<lambda>x. Inr (s\<lparr>rs_port := Some x\<rparr>))
     else if kind = RES_LQPN then and_then (parse_u32_attribute data) (\<lambda>x. Inr (s\<lparr>rs_qpn := Some x\<rparr>))
     else if kind = RES_RQPN then and_then (parse_u32_attribute data) (\<lambda>x. Inr (s\<lparr>rs_remote_qpn := Some x\<rparr>))
     else if kind = RES_TYPE then and_then (parse_u8_attribute data) (\<lambda>x. Inr (s\<lparr>rs_type := Some x\<rparr>))
     else if kind = RES_STATE then and_then (parse_u8_attribute data) (\<lambda>x. Inr (s\<lparr>rs_state := Some x\<rparr>))
     else if kind = RES_PID then and_then (parse_u32_attribute data) (\<lambda>x. Inr (s\<lparr>rs_pid := Some x\<rparr>))
     else if kind = RES_KERN_NAME then Inr (s\<lparr>rs_kernel := Some (decode_attribute_string data)\<rparr>)
     else Inr s)"

definition non_zero :: "u32 option \<Rightarrow> u32 option" where
  "non_zero x = (case x of Some n \<Rightarrow> if n \<noteq> 0 then Some n else None | None \<Rightarrow> None)"

definition parse_queue_pair :: "rstring \<Rightarrow> byte list \<Rightarrow> rdma_error + QueuePairEntry" where
  "parse_queue_pair device data =
     and_then (netlink_result (parse_netlink_attributes data)) (\<lambda>as.
     and_then (each_attribute queue_pair_step as resource_start) (\<lambda>s.
     and_then (ok_or (rs_qpn s) NoQpn) (\<lambda>qpn.
     and_then (ok_or (rs_type s) NoType) (\<lambda>qp_type.
     and_then (ok_or (rs_state s) NoState) (\<lambda>state.
     Inr \<lparr>qpe_device = device, qpe_port = non_zero (rs_port s), qpe_qpn = qpn, qpe_remote_qpn = non_zero (rs_remote_qpn s),
       qpe_qp_type = RdmaQpType_from_code qp_type, qpe_state = RdmaQpState_from_code state,
       qpe_owner = parse_resource_owner (rs_pid s) (rs_kernel s)\<rparr>)))))"

definition cm_id_step :: "u16 \<times> byte list \<Rightarrow> resource_state \<Rightarrow> rdma_error + resource_state" where
  "cm_id_step = (\<lambda>(kind, data) s.
     if kind = RES_PID then and_then (parse_u32_attribute data) (\<lambda>x. Inr (s\<lparr>rs_pid := Some x\<rparr>))
     else if kind = RES_KERN_NAME then Inr (s\<lparr>rs_kernel := Some (decode_attribute_string data)\<rparr>)
     else if kind = RES_CM_IDN then and_then (parse_u32_attribute data) (\<lambda>x. Inr (s\<lparr>rs_id := Some x\<rparr>))
     else if kind = RES_LQPN then and_then (parse_u32_attribute data) (\<lambda>x. Inr (s\<lparr>rs_qpn := Some x\<rparr>))
     else if kind = RES_STATE then and_then (parse_u8_attribute data) (\<lambda>x. Inr (s\<lparr>rs_state := Some x\<rparr>))
     else if kind = RES_PS then and_then (parse_u32_attribute data) (\<lambda>x. Inr (s\<lparr>rs_space := Some x\<rparr>))
     else if kind = RES_SRC_ADDR then Inr (s\<lparr>rs_source := RdmaAddress_decode data\<rparr>)
     else if kind = RES_DST_ADDR then Inr (s\<lparr>rs_destination := RdmaAddress_decode data\<rparr>)
     else Inr s)"

definition parse_cm_id :: "rstring \<Rightarrow> byte list \<Rightarrow> rdma_error + CmIdEntry" where
  "parse_cm_id device data =
     and_then (netlink_result (parse_netlink_attributes data)) (\<lambda>as.
     and_then (each_attribute cm_id_step as resource_start) (\<lambda>s.
     and_then (ok_or (rs_state s) NoState) (\<lambda>state.
     and_then (ok_or (rs_space s) NoPortSpace) (\<lambda>port_space.
     Inr \<lparr>cme_device = device, cme_id = rs_id s, cme_qpn = rs_qpn s, cme_state = RdmaCmState_from_code state,
       cme_port_space = RdmaPortSpace_from_code port_space, cme_source = rs_source s, cme_destination = rs_destination s,
       cme_owner = parse_resource_owner (rs_pid s) (rs_kernel s)\<rparr>))))"

definition device_step :: "u16 \<times> byte list \<Rightarrow> u32 option \<times> rstring option \<Rightarrow> rdma_error + u32 option \<times> rstring option" where
  "device_step = (\<lambda>(kind, data) (index, name).
     if kind = DEV_INDEX then and_then (parse_u32_attribute data) (\<lambda>x. Inr (Some x, name))
     else if kind = DEV_NAME then Inr (index, Some (decode_attribute_string data))
     else Inr (index, name))"

definition parse_device :: "byte list \<Rightarrow> rdma_error + u32 \<times> rstring" where
  "parse_device body =
     and_then (netlink_result (parse_netlink_attributes body)) (\<lambda>as.
     and_then (each_attribute device_step as (None, None)) (\<lambda>(index, name).
     and_then (ok_or index NoDeviceIndex) (\<lambda>index.
     and_then (ok_or name NoDeviceName) (\<lambda>name. Inr (index, name)))))"

fun each_result :: "('a \<Rightarrow> 'e + 'b) \<Rightarrow> 'a list \<Rightarrow> 'e + 'b list" where
  "each_result f [] = Inr []"
| "each_result f (x # xs) = and_then (f x) (\<lambda>y. and_then (each_result f xs) (\<lambda>ys. Inr (y # ys)))"

text \<open>A failure keeps what was pushed before it.\<close>

fun push_queue_pairs :: "rstring \<Rightarrow> byte list list \<Rightarrow> NldevResources \<Rightarrow> rdma_error option \<times> NldevResources" where
  "push_queue_pairs device [] r = (None, r)"
| "push_queue_pairs device (data # list) r =
     (if QUEUE_PAIR_LIMIT \<le> length (nr_queue_pairs r) then (None, r\<lparr>nr_truncated := True\<rparr>)
      else case parse_queue_pair device data of
        Inl e \<Rightarrow> (Some e, r)
      | Inr entry \<Rightarrow> push_queue_pairs device list (r\<lparr>nr_queue_pairs := nr_queue_pairs r @ [entry]\<rparr>))"

fun push_cm_ids :: "rstring \<Rightarrow> byte list list \<Rightarrow> NldevResources \<Rightarrow> rdma_error option \<times> NldevResources" where
  "push_cm_ids device [] r = (None, r)"
| "push_cm_ids device (data # list) r =
     (case parse_cm_id device data of
        Inl e \<Rightarrow> (Some e, r)
      | Inr entry \<Rightarrow> push_cm_ids device list (r\<lparr>nr_cm_ids := nr_cm_ids r @ [entry]\<rparr>))"

fun parse_resource_replies :: "byte list list \<Rightarrow> u16 \<Rightarrow> NldevResources \<Rightarrow> rdma_error option \<times> NldevResources" where
  "parse_resource_replies [] command r = (None, r)"
| "parse_resource_replies (body # replies) command r =
     (let qp = (command = CMD_RES_QP_GET) in
      case parse_resource_entries body (if qp then RES_QP else RES_CM_ID) (if qp then RES_QP_ENTRY else RES_CM_ID_ENTRY) of
        Inl e \<Rightarrow> (Some e, r)
      | Inr (device, list) \<Rightarrow>
          (case (if qp then push_queue_pairs device list r else push_cm_ids device list r) of
             (Some e, r) \<Rightarrow> (Some e, r)
           | (None, r) \<Rightarrow> parse_resource_replies replies command r))"

definition EOPNOTSUPP :: int where "EOPNOTSUPP = 95"

text \<open>The errno of an error, where it is an \<open>io::Error\<close>.\<close>

definition unsupported :: "rdma_error \<Rightarrow> bool" where
  "unsupported e =
     (case e of
        Netlink (System code) \<Rightarrow> code = EOPNOTSUPP
      | Netlink (DumpFailed code) \<Rightarrow> code = EOPNOTSUPP
      | Netlink (KernelError code) \<Rightarrow> code = EOPNOTSUPP
      | _ \<Rightarrow> False)"

text \<open>
  \<open>dump\<close> is the outcome of \<open>collect_netlink_dump\<close> for a request, \<open>late\<close> the comparison with the deadline after a failed
  dump, \<open>texts\<close> the text of an error.
\<close>

record rdma_world =
  rw_open :: "netlink_error + unit"
  rw_dump :: "NetlinkDumpRequest \<Rightarrow> netlink_error + byte list list"
  rw_late :: "u32 \<Rightarrow> bool"
  rw_text :: "rdma_error \<Rightarrow> rstring"

definition device_payload :: "u32 \<Rightarrow> byte list" where
  "device_payload index = to_ne_bytes (8 :: u16) @ to_ne_bytes DEV_INDEX @ to_ne_bytes index"

fun dump_commands ::
  "rdma_world \<Rightarrow> u32 \<Rightarrow> rstring \<Rightarrow> u16 list \<Rightarrow> u32 \<Rightarrow> NldevResources \<Rightarrow> rdma_error + u32 \<times> NldevResources"
where
  "dump_commands w index name [] number r = Inr (number, r)"
| "dump_commands w index name (command # commands) number r =
     (let number = number + 1;
          request = \<lparr>message_type = message_type_of command, reply_type = message_type_of command, sequence = number,
            payload = device_payload index\<rparr> in
      case (case rw_dump w request of Inl e \<Rightarrow> (Some (Netlink e), r) | Inr replies \<Rightarrow> parse_resource_replies replies command r) of
        (None, r) \<Rightarrow> dump_commands w index name commands number r
      | (Some e, r) \<Rightarrow>
          if rw_late w number then Inl e
          else dump_commands w index name commands number
            (if unsupported e then r else r\<lparr>nr_errors := nr_errors r @ [name @ lit '': '' @ rw_text w e]\<rparr>))"

fun dump_devices :: "rdma_world \<Rightarrow> (u32 \<times> rstring) list \<Rightarrow> u32 \<Rightarrow> NldevResources \<Rightarrow> rdma_error + NldevResources" where
  "dump_devices w [] number r = Inr r"
| "dump_devices w ((index, name) # devices) number r =
     and_then (dump_commands w index name [CMD_RES_QP_GET, CMD_RES_CM_ID_GET] number r) (\<lambda>(number, r). dump_devices w devices number r)"

definition read_resources :: "rdma_world \<Rightarrow> rdma_error + NldevResources" where
  "read_resources w =
     and_then (netlink_result (rw_open w)) (\<lambda>_.
     and_then (netlink_result (rw_dump w \<lparr>message_type = message_type_of CMD_GET, reply_type = message_type_of CMD_GET,
       sequence = 1, payload = []\<rparr>)) (\<lambda>replies.
     and_then (each_result parse_device replies) (\<lambda>devices.
     dump_devices w (sort_key snd devices) 1 \<lparr>nr_queue_pairs = [], nr_cm_ids = [], nr_errors = [], nr_truncated = False\<rparr>)))"

section \<open>Neighbors\<close>

definition RTM_NEWNEIGH :: u16 where "RTM_NEWNEIGH = 28"
definition RTM_GETNEIGH :: u16 where "RTM_GETNEIGH = 30"
definition NDA_DST :: u16 where "NDA_DST = 1"
definition NDA_LLADDR :: u16 where "NDA_LLADDR = 2"
definition NUD_INCOMPLETE :: u16 where "NUD_INCOMPLETE = 1"
definition NUD_FAILED :: u16 where "NUD_FAILED = 0x20"
definition IPOIB_HARDWARE_ADDRESS :: nat where "IPOIB_HARDWARE_ADDRESS = 20"

definition format_gid :: "byte list \<Rightarrow> rstring" where
  "format_gid bytes = joined (lit '':'') (gid_texts bytes)"

definition neighbor_step :: "u16 \<times> byte list \<Rightarrow> IpAddr option \<times> rstring option \<Rightarrow> IpAddr option \<times> rstring option" where
  "neighbor_step = (\<lambda>(kind, data) (destination, gid).
     if kind = NDA_DST then
       (if length data = 4 then Some (V4 (array_of data))
        else if length data = 16 then
          (let ip = array_of data in Some (case to_ipv4_mapped ip of Some v4 \<Rightarrow> V4 v4 | None \<Rightarrow> V6 ip))
        else None, gid)
     else if kind = NDA_LLADDR \<and> length data = IPOIB_HARDWARE_ADDRESS \<and> drop 4 data \<noteq> replicate 16 0 then
       (destination, Some (format_gid (drop 4 data)))
     else (destination, gid))"

definition parse_neighbor :: "byte list \<Rightarrow> rdma_error + (IpAddr \<times> rstring) option" where
  "parse_neighbor body =
     (if length body < 12 then Inl ShortNeighbor
      else if (word_at body 8 :: u16) AND (NUD_INCOMPLETE OR NUD_FAILED) \<noteq> 0 then Inr None
      else and_then (netlink_result (parse_netlink_attributes (drop 12 body))) (\<lambda>as.
        case fold neighbor_step as (None, None) of
          (Some destination, Some gid) \<Rightarrow> Inr (Some (destination, gid))
        | _ \<Rightarrow> Inr None))"

text \<open>An address seen with two GIDs has none.\<close>

definition add_neighbor :: "(IpAddr \<times> rstring) option \<Rightarrow> (IpAddr \<times> rstring option) list \<Rightarrow> (IpAddr \<times> rstring option) list" where
  "add_neighbor n found =
     (case n of
        None \<Rightarrow> found
      | Some (ip, gid) \<Rightarrow>
          (case map_of found ip of
             None \<Rightarrow> AList.update ip (Some gid) found
           | Some known \<Rightarrow> if known \<noteq> Some gid then AList.update ip None found else found))"

definition neighbor_request :: NetlinkDumpRequest where
  "neighbor_request = \<lparr>message_type = RTM_GETNEIGH, reply_type = RTM_NEWNEIGH, sequence = 1, payload = replicate 12 0\<rparr>"

definition ipoib_gids :: "netlink_error + unit \<Rightarrow> (NetlinkDumpRequest \<Rightarrow> netlink_error + byte list list) \<Rightarrow> rdma_error + (IpAddr \<times> rstring) list" where
  "ipoib_gids opened dump =
     and_then (netlink_result opened) (\<lambda>_.
     and_then (netlink_result (dump neighbor_request)) (\<lambda>replies.
     and_then (each_result parse_neighbor replies) (\<lambda>ns.
     Inr (List.map_filter (\<lambda>(ip, gid). map_option (Pair ip) gid) (fold add_neighbor ns [])))))"

section \<open>Ports\<close>

text \<open>A directory of sysfs: the names under a path and the content of a file, where they can be read.\<close>

record sysfs_view =
  sv_names :: "rstring \<Rightarrow> byte list list"
  sv_file :: "rstring \<Rightarrow> rstring option"

definition read_sysfs_text :: "sysfs_view \<Rightarrow> rstring \<Rightarrow> rstring option" where
  "read_sysfs_text v path = Option.bind (sv_file v path) (\<lambda>text. if trim text \<noteq> [] then Some (trim text) else None)"

definition list_directory_names :: "sysfs_view \<Rightarrow> rstring \<Rightarrow> rstring list" where
  "list_directory_names v path = sort (map from_utf8_lossy (sv_names v path))"

definition sub_path :: "rstring \<Rightarrow> rstring \<Rightarrow> rstring" where
  "sub_path a b = a @ ch CHR ''/'' # b"

text \<open>What follows the first occurrence of a text.\<close>

fun after_text :: "rstring \<Rightarrow> rstring \<Rightarrow> rstring option" where
  "after_text sep [] = (if sep = [] then Some [] else None)"
| "after_text sep (c # cs) = (if take (length sep) (c # cs) = sep then Some (drop (length sep) (c # cs)) else after_text sep cs)"

fun trim_hex_marks :: "rstring \<Rightarrow> rstring" where
  "trim_hex_marks (a # b # s) = (if a = ch CHR ''0'' \<and> b = ch CHR ''x'' then trim_hex_marks s else a # b # s)"
| "trim_hex_marks s = s"

definition read_port :: "sysfs_view \<Rightarrow> rstring \<Rightarrow> rstring \<Rightarrow> u32 \<Rightarrow> RdmaPortInfo" where
  "read_port v ports device port =
     (let path = sub_path ports (show_dec (unat port)) in
      \<lparr>port_device = device, port_port = port, port_link_layer = read_sysfs_text v (sub_path path (lit ''link_layer'')),
       port_state = map_option (\<lambda>s. case after_text (lit '': '') s of Some name \<Rightarrow> name | None \<Rightarrow> s)
         (read_sysfs_text v (sub_path path (lit ''state''))),
       port_lid = non_zero (Option.bind (read_sysfs_text v (sub_path path (lit ''lid''))) (\<lambda>s. hex_u32 (trim_hex_marks s))),
       port_gid = Option.bind (read_sysfs_text v (sub_path path (lit ''gids/0''))) IbGid_parse,
       port_rate = read_sysfs_text v (sub_path path (lit ''rate''))\<rparr>)"

definition list_rdma_devices :: "sysfs_view \<Rightarrow> rstring \<Rightarrow> rstring list" where
  "list_rdma_devices v root = list_directory_names v root"

definition read_rdma_ports :: "sysfs_view \<Rightarrow> rstring \<Rightarrow> RdmaPortInfo list" where
  "read_rdma_ports v root = concat (map (\<lambda>device.
     let ports = sub_path (sub_path root device) (lit ''ports'') in
     map (read_port v ports device) (sort (List.map_filter parse_u32 (list_directory_names v ports)))) (list_rdma_devices v root))"

section \<open>Relations\<close>

record Qp_end =
  qe_entry :: QueuePairEntry
  qe_cm :: "CmIdEntry option"
  qe_remote_gid :: "IbGid option"

definition end_id :: "Qp_end \<Rightarrow> rstring" where
  "end_id e =
     (case qpe_port (qe_entry e) of
        Some port \<Rightarrow> lit ''rdma:'' @ qpe_device (qe_entry e) @ lit ''/'' @ show_dec (unat port) @ lit '':'' @ show_dec (unat (qpe_qpn (qe_entry e)))
      | None \<Rightarrow> lit ''rdma:'' @ qpe_device (qe_entry e) @ lit '':'' @ show_dec (unat (qpe_qpn (qe_entry e))))"

definition resolve_rdma_owner :: "(i32 \<Rightarrow> ProcessId option) \<Rightarrow> ResourceOwner \<Rightarrow> RdmaEndpointOwner" where
  "resolve_rdma_owner processes owner =
     (case owner of
        Kernel name \<Rightarrow> RdmaEndpointOwner.Kernel name
      | Process pid \<Rightarrow> (case processes pid of Some process_id \<Rightarrow> RdmaEndpointOwner.Process process_id
          | None \<Rightarrow> RdmaEndpointOwner.Unknown (Some pid))
      | Unknown \<Rightarrow> RdmaEndpointOwner.Unknown None)"

definition build_rdma_endpoint :: "(i32 \<Rightarrow> ProcessId option) \<Rightarrow> QueuePairEntry \<Rightarrow> RdmaEndpoint" where
  "build_rdma_endpoint processes entry = \<lparr>re_owner = resolve_rdma_owner processes (qpe_owner entry), re_device = qpe_device entry,
     re_port = qpe_port entry, re_qpn = qpe_qpn entry, re_qp_type = qpe_qp_type entry, re_state = qpe_state entry\<rparr>"

type_synonym port_gids = "(rstring \<times> u32) \<Rightarrow> IbGid option"

definition local_gid :: "port_gids \<Rightarrow> Qp_end \<Rightarrow> IbGid option" where
  "local_gid gids e = Option.bind (qpe_port (qe_entry e)) (\<lambda>port. gids (qpe_device (qe_entry e), port))"

definition gid_match :: "port_gids \<Rightarrow> Qp_end \<Rightarrow> Qp_end \<Rightarrow> bool option" where
  "gid_match gids from_end to_end =
     (case (qe_remote_gid from_end, local_gid gids to_end) of (Some remote, Some local) \<Rightarrow> Some (remote = local) | _ \<Rightarrow> None)"

definition cm_match :: "Qp_end \<Rightarrow> Qp_end \<Rightarrow> bool option" where
  "cm_match a b =
     (case (qe_cm a, qe_cm b) of
        (Some x, Some y) \<Rightarrow>
          (case (cme_source x, cme_destination x, cme_source y, cme_destination y) of
             (Some xs, Some xd, Some ys, Some yd) \<Rightarrow> Some (xs = yd \<and> xd = ys)
           | _ \<Rightarrow> None)
      | _ \<Rightarrow> None)"

definition same_connection :: "port_gids \<Rightarrow> Qp_end \<Rightarrow> Qp_end \<Rightarrow> bool" where
  "same_connection gids a b =
     (let evidence = [gid_match gids a b, gid_match gids b a, cm_match a b] in
      if Some False \<in> set evidence then False
      else qpe_device (qe_entry a) = qpe_device (qe_entry b) \<or> Some True \<in> set evidence)"

definition format_rdma_relation_label :: "Qp_end \<Rightarrow> Qp_end option \<Rightarrow> rstring" where
  "format_rdma_relation_label e peer =
     lit ''RDMA '' @ RdmaQpType_text (qpe_qp_type (qe_entry e)) @ lit '' QP '' @ show_dec (unat (qpe_qpn (qe_entry e)))
     @ (case peer of
          Some p \<Rightarrow> lit '' '' @ [chr 0x2194] @ lit '' QP '' @ show_dec (unat (qpe_qpn (qe_entry p)))
        | None \<Rightarrow> (case qpe_remote_qpn (qe_entry e) of
            Some remote \<Rightarrow> lit '' '' @ [chr 0x2192] @ lit '' QP '' @ show_dec (unat remote)
          | None \<Rightarrow> []))
     @ (if peer = None then
          (case Option.bind (qe_cm e) cme_destination of
             Some destination \<Rightarrow> lit '' '' @ RdmaAddress_text destination
           | None \<Rightarrow> (case qe_remote_gid e of Some gid \<Rightarrow> lit '' '' @ IbGid_text gid | None \<Rightarrow> []))
        else [])"

definition port_gid_map :: "RdmaPortInfo list \<Rightarrow> port_gids" where
  "port_gid_map ports = map_of (rev (List.map_filter (\<lambda>p. map_option (Pair (port_device p, port_port p)) (port_gid p)) ports))"

text \<open>The first CM ID of a queue pair.\<close>

definition cm_of :: "CmIdEntry list \<Rightarrow> rstring \<times> u32 \<Rightarrow> CmIdEntry option" where
  "cm_of cms = map_of (List.map_filter (\<lambda>cm. map_option (\<lambda>qpn. ((cme_device cm, qpn), cm)) (cme_qpn cm)) cms)"

definition qp_end_of :: "CmIdEntry list \<Rightarrow> (IpAddr \<Rightarrow> IbGid option) \<Rightarrow> QueuePairEntry \<Rightarrow> Qp_end" where
  "qp_end_of cms neighbors entry =
     (let cm = cm_of cms (qpe_device entry, qpe_qpn entry) in
      \<lparr>qe_entry = entry, qe_cm = cm, qe_remote_gid = Option.bind cm (\<lambda>cm. Option.bind (cme_destination cm) (\<lambda>d.
        case d of RdmaAddress.Ib gid _ _ \<Rightarrow> Some gid | _ \<Rightarrow> Option.bind (RdmaAddress_ip d) neighbors))\<rparr>)"

definition with_qpn :: "Qp_end list \<Rightarrow> u32 \<Rightarrow> nat list" where
  "with_qpn es qpn = filter (\<lambda>j. is_connected (qpe_qp_type (qe_entry (es ! j))) \<and> qpe_remote_qpn (qe_entry (es ! j)) \<noteq> None
     \<and> qpe_qpn (qe_entry (es ! j)) = qpn) [0..<length es]"

definition peer_of :: "port_gids \<Rightarrow> Qp_end list \<Rightarrow> nat \<Rightarrow> nat option" where
  "peer_of gids es i =
     (let a = es ! i in
      if \<not> is_connected (qpe_qp_type (qe_entry a)) then None
      else Option.bind (qpe_remote_qpn (qe_entry a)) (\<lambda>remote.
        case filter (\<lambda>b. b \<noteq> i \<and> qpe_remote_qpn (qe_entry (es ! b)) = Some (qpe_qpn (qe_entry a)) \<and> same_connection gids a (es ! b))
               (with_qpn es remote) of
          [b] \<Rightarrow> Some b
        | _ \<Rightarrow> None))"

definition mutual_peer :: "port_gids \<Rightarrow> Qp_end list \<Rightarrow> nat \<Rightarrow> nat option" where
  "mutual_peer gids es i = (case peer_of gids es i of Some b \<Rightarrow> if peer_of gids es b = Some i then Some b else None | None \<Rightarrow> None)"

text \<open>The ends of the relation for an index, in the order of their identifiers.\<close>

definition ordered_ends :: "port_gids \<Rightarrow> Qp_end list \<Rightarrow> nat \<Rightarrow> nat \<times> nat option" where
  "ordered_ends gids es i =
     (case mutual_peer gids es i of
        Some b \<Rightarrow> if end_id (es ! b) < end_id (es ! i) then (b, Some i) else (i, Some b)
      | None \<Rightarrow> (i, None))"

definition cm_info :: "(i32 \<Rightarrow> ProcessId option) \<Rightarrow> CmIdEntry \<Rightarrow> RdmaCmInfo" where
  "cm_info processes cm = \<lparr>cm_id = cme_id cm, cm_owner = resolve_rdma_owner processes (cme_owner cm), cm_state = cme_state cm,
     cm_port_space = cme_port_space cm, cm_source = cme_source cm, cm_destination = cme_destination cm\<rparr>"

definition rdma_relation :: "(i32 \<Rightarrow> ProcessId option) \<Rightarrow> Qp_end \<Rightarrow> Qp_end option \<Rightarrow> RdmaRelation" where
  "rdma_relation processes first second =
     \<lparr>rr_id = (case second of Some peer \<Rightarrow> end_id first @ lit ''/'' @ end_id peer | None \<Rightarrow> end_id first),
      rr_endpoint = build_rdma_endpoint processes (qe_entry first),
      rr_peer = map_option (\<lambda>p. build_rdma_endpoint processes (qe_entry p)) second,
      rr_remote_qpn = qpe_remote_qpn (qe_entry first), rr_cm = map_option (cm_info processes) (qe_cm first),
      rr_remote_gid = qe_remote_gid first, rr_remote_hostname = None, rr_label = format_rdma_relation_label first second\<rparr>"

definition emit_relation ::
  "(i32 \<Rightarrow> ProcessId option) \<Rightarrow> port_gids \<Rightarrow> Qp_end list \<Rightarrow> nat \<Rightarrow> nat set \<times> RdmaRelation list \<Rightarrow> nat set \<times> RdmaRelation list"
where
  "emit_relation processes gids es i = (\<lambda>(emitted, result).
     if i \<in> emitted then (emitted, result)
     else (case ordered_ends gids es i of (first, second) \<Rightarrow>
       (emitted \<union> {first} \<union> set_option second, result @ [rdma_relation processes (es ! first) (map_option ((!) es) second)])))"

definition qp_ends :: "NldevResources \<Rightarrow> (IpAddr \<Rightarrow> IbGid option) \<Rightarrow> Qp_end list" where
  "qp_ends resources neighbors = map (qp_end_of (nr_cm_ids resources) neighbors) (nr_queue_pairs resources)"

definition build_rdma_relations ::
  "NldevResources \<Rightarrow> RdmaPortInfo list \<Rightarrow> (IpAddr \<Rightarrow> IbGid option) \<Rightarrow> (i32 \<Rightarrow> ProcessId option) \<Rightarrow> RdmaRelation list"
where
  "build_rdma_relations resources ports neighbors processes =
     (let es = qp_ends resources neighbors in
      snd (fold (emit_relation processes (port_gid_map ports) es) [0..<length es] ({}, [])))"

section \<open>The observation\<close>

record RdmaObservation =
  ro_ports :: "RdmaPortInfo list"
  ro_relations :: "RdmaRelation list"
  ro_warnings :: "rstring list"

definition limit_warning :: rstring where
  "limit_warning = lit ''RDMA queue pair limit of '' @ show_dec QUEUE_PAIR_LIMIT @ lit '' reached. Some queue pairs are missing.''"

definition has_ip_destination :: "CmIdEntry \<Rightarrow> bool" where
  "has_ip_destination cm \<longleftrightarrow> Option.bind (cme_destination cm) RdmaAddress_ip \<noteq> None"

text \<open>\<open>neighbors\<close> is the outcome of \<open>ipoib_gids\<close>.\<close>

definition collect_rdma_observation ::
  "sysfs_view \<Rightarrow> rstring \<Rightarrow> rdma_world \<Rightarrow> rdma_error + (IpAddr \<times> rstring) list \<Rightarrow> (i32 \<Rightarrow> ProcessId option) \<Rightarrow> RdmaObservation"
where
  "collect_rdma_observation view sys w neighbors processes =
     (let root = sub_path sys (lit ''class/infiniband''); ports = read_rdma_ports view root in
      if list_rdma_devices view root = [] then \<lparr>ro_ports = [], ro_relations = [], ro_warnings = []\<rparr>
      else case read_resources w of
        Inl e \<Rightarrow> \<lparr>ro_ports = ports, ro_relations = [], ro_warnings = [lit ''RDMA: '' @ rw_text w e]\<rparr>
      | Inr resources \<Rightarrow>
          (let warnings = map (\<lambda>e. lit ''RDMA: '' @ e) (nr_errors resources)
                 @ (if nr_truncated resources then [limit_warning] else []);
               asked = list_ex has_ip_destination (nr_cm_ids resources);
               found = (if asked then neighbors else Inr []);
               gids = (case found of Inr ns \<Rightarrow> map_of (List.map_filter (\<lambda>(ip, gid). map_option (Pair ip) (IbGid_parse gid)) ns) | Inl _ \<Rightarrow> Map.empty) in
           \<lparr>ro_ports = ports, ro_relations = build_rdma_relations resources ports gids processes,
            ro_warnings = warnings @ (case found of Inl e \<Rightarrow> [lit ''RDMA remote GIDs unavailable: '' @ rw_text w e] | Inr _ \<Rightarrow> [])\<rparr>))"

section \<open>Every queue pair is in one relation\<close>

text \<open>Two queue pairs that could be the ends of one connection.\<close>

definition could_match :: "port_gids \<Rightarrow> Qp_end list \<Rightarrow> nat \<Rightarrow> nat \<Rightarrow> bool" where
  "could_match gids es i j \<longleftrightarrow> i < length es \<and> j < length es \<and> i \<noteq> j
     \<and> is_connected (qpe_qp_type (qe_entry (es ! i))) \<and> is_connected (qpe_qp_type (qe_entry (es ! j)))
     \<and> qpe_remote_qpn (qe_entry (es ! i)) = Some (qpe_qpn (qe_entry (es ! j)))
     \<and> qpe_remote_qpn (qe_entry (es ! j)) = Some (qpe_qpn (qe_entry (es ! i)))
     \<and> same_connection gids (es ! i) (es ! j)"

definition only_match :: "port_gids \<Rightarrow> Qp_end list \<Rightarrow> nat \<Rightarrow> nat \<Rightarrow> bool" where
  "only_match gids es i j \<longleftrightarrow> (\<forall>k. could_match gids es i k \<longleftrightarrow> k = j)"

lemma peer_of_iff:
  assumes "i < length es"
  shows "peer_of gids es i = Some j \<longleftrightarrow> only_match gids es i j"
proof (cases "is_connected (qpe_qp_type (qe_entry (es ! i)))")
  case True
  show ?thesis
  proof (cases "qpe_remote_qpn (qe_entry (es ! i))")
    case None
    then show ?thesis by (simp add: peer_of_def only_match_def could_match_def Let_def)
  next
    case (Some r)
    let ?P = "\<lambda>b. (b \<noteq> i \<and> qpe_remote_qpn (qe_entry (es ! b)) = Some (qpe_qpn (qe_entry (es ! i))) \<and> same_connection gids (es ! i) (es ! b))
       \<and> is_connected (qpe_qp_type (qe_entry (es ! b))) \<and> qpe_remote_qpn (qe_entry (es ! b)) \<noteq> None \<and> qpe_qpn (qe_entry (es ! b)) = r"
    have single: "(case xs of [b] \<Rightarrow> Some b | _ \<Rightarrow> None) = Some j \<longleftrightarrow> xs = [j]" for xs :: "nat list"
      by (auto split: list.splits)
    have "peer_of gids es i = Some j \<longleftrightarrow> filter ?P [0..<length es] = [j]"
      using True Some by (simp add: peer_of_def with_qpn_def single conj_commute Let_def)
    also have "\<dots> \<longleftrightarrow> only_match gids es i j"
      unfolding filter_upt_only only_match_def using True Some assms by (intro all_cong1) (auto simp: could_match_def)
    finally show ?thesis .
  qed
qed (simp add: peer_of_def only_match_def could_match_def)

lemma mutual_peer_iff:
  assumes "i < length es"
  shows "mutual_peer gids es i = Some j \<longleftrightarrow> only_match gids es i j \<and> only_match gids es j i"
proof -
  have "j < length es" if "only_match gids es i j" using that by (auto simp: only_match_def could_match_def)
  then show ?thesis using peer_of_iff [of j es gids i] peer_of_iff [OF assms, of gids j]
    by (auto simp: mutual_peer_def split: option.splits if_splits)
qed

lemma mutual_peer_sym:
  assumes "i < length es" "mutual_peer gids es i = Some j"
  shows "j < length es" "i \<noteq> j" "mutual_peer gids es j = Some i"
proof -
  have m: "only_match gids es i j" "only_match gids es j i" using assms(2) mutual_peer_iff [OF assms(1)] by blast+
  then show j: "j < length es" and "i \<noteq> j" by (auto simp: only_match_def could_match_def)
  show "mutual_peer gids es j = Some i" using m mutual_peer_iff [OF j] by blast
qed

text \<open>The indices that start a relation: those without a partner before them.\<close>

definition starts :: "port_gids \<Rightarrow> Qp_end list \<Rightarrow> nat \<Rightarrow> bool" where
  "starts gids es i \<longleftrightarrow> (case mutual_peer gids es i of Some j \<Rightarrow> i < j | None \<Rightarrow> True)"

definition relation_of :: "(i32 \<Rightarrow> ProcessId option) \<Rightarrow> Qp_end list \<Rightarrow> nat \<times> nat option \<Rightarrow> RdmaRelation" where
  "relation_of processes es = (\<lambda>(i, p). rdma_relation processes (es ! i) (map_option ((!) es) p))"

lemma emit_relations:
  assumes "k \<le> length es"
  shows "fold (emit_relation processes gids es) [0..<k] ({}, []) =
    ({x. \<exists>j<k. x = j \<or> mutual_peer gids es j = Some x},
     map (relation_of processes es) (map (ordered_ends gids es) (filter (starts gids es) [0..<k])))"
  using assms
proof (induction k)
  case (Suc k)
  let ?E = "{x. \<exists>j<k. x = j \<or> mutual_peer gids es j = Some x}"
  have emitted: "k \<in> ?E \<longleftrightarrow> \<not> starts gids es k"
  proof
    assume "k \<in> ?E"
    then obtain j where "j < k" "mutual_peer gids es j = Some k" by auto
    then have "mutual_peer gids es k = Some j" using mutual_peer_sym(3) Suc.prems by simp
    then show "\<not> starts gids es k" using \<open>j < k\<close> by (simp add: starts_def)
  next
    assume "\<not> starts gids es k"
    then obtain j where j: "mutual_peer gids es k = Some j" "\<not> k < j" by (auto simp: starts_def split: option.splits)
    then have "j < k" "mutual_peer gids es j = Some k" using mutual_peer_sym [of k es gids j] Suc.prems by auto
    then show "k \<in> ?E" by auto
  qed
  have members: "?E \<union> {fst (ordered_ends gids es k)} \<union> set_option (snd (ordered_ends gids es k)) =
      {x. \<exists>j<Suc k. x = j \<or> mutual_peer gids es j = Some x}"
    by (auto simp: ordered_ends_def less_Suc_eq split: option.splits)
  have skip: "?E = {x. \<exists>j<Suc k. x = j \<or> mutual_peer gids es j = Some x}" if k: "k \<in> ?E"
  proof -
    obtain j where "j < k" "mutual_peer gids es j = Some k" using k by auto
    then have "mutual_peer gids es k = Some j" using mutual_peer_sym(3) Suc.prems by simp
    then show ?thesis using k \<open>j < k\<close> by (auto simp: less_Suc_eq)
  qed
  have "fold (emit_relation processes gids es) [0..<Suc k] ({}, []) =
      emit_relation processes gids es k (fold (emit_relation processes gids es) [0..<k] ({}, []))" by simp
  also have "\<dots> = emit_relation processes gids es k (?E, map (relation_of processes es) (map (ordered_ends gids es) (filter (starts gids es) [0..<k])))"
    using Suc by simp
  also have "\<dots> = ({x. \<exists>j<Suc k. x = j \<or> mutual_peer gids es j = Some x},
     map (relation_of processes es) (map (ordered_ends gids es) (filter (starts gids es) [0..<Suc k])))"
  proof (cases "starts gids es k")
    case True
    then show ?thesis using emitted members
      by (simp add: emit_relation_def relation_of_def case_prod_beta)
  next
    case False
    then have "k \<in> ?E" using emitted by blast
    then show ?thesis using False skip unfolding emit_relation_def by (simp only: prod.case if_True) simp
  qed
  finally show ?case .
qed simp

definition members :: "nat \<times> nat option \<Rightarrow> nat set" where
  "members e = insert (fst e) (set_option (snd e))"

lemma ordered_ends_members: "x \<in> members (ordered_ends gids es i) \<longleftrightarrow> x = i \<or> mutual_peer gids es i = Some x"
  by (auto simp: ordered_ends_def members_def split: option.splits)

lemma starts_unique:
  assumes "x < length es"
  shows "\<exists>!i. i < length es \<and> starts gids es i \<and> x \<in> members (ordered_ends gids es i)"
proof (cases "starts gids es x")
  case True
  show ?thesis
  proof (rule ex1I [of _ x])
    show "x < length es \<and> starts gids es x \<and> x \<in> members (ordered_ends gids es x)"
      using True assms by (simp add: ordered_ends_members)
  next
    fix i
    assume i: "i < length es \<and> starts gids es i \<and> x \<in> members (ordered_ends gids es i)"
    show "i = x"
    proof (rule ccontr)
      assume "i \<noteq> x"
      then have "mutual_peer gids es i = Some x" using i by (auto simp: ordered_ends_members)
      then show False using mutual_peer_sym(3) [of i es gids x] i True by (simp add: starts_def)
    qed
  qed
next
  case False
  then obtain j where j: "mutual_peer gids es x = Some j" "\<not> x < j" by (auto simp: starts_def split: option.splits)
  note sym = mutual_peer_sym [OF assms j(1)]
  show ?thesis
  proof (rule ex1I [of _ j])
    show "j < length es \<and> starts gids es j \<and> x \<in> members (ordered_ends gids es j)"
      using sym j(2) by (simp add: ordered_ends_members starts_def)
  next
    fix i
    assume i: "i < length es \<and> starts gids es i \<and> x \<in> members (ordered_ends gids es i)"
    then have "i \<noteq> x" using False by blast
    then have "mutual_peer gids es i = Some x" using i by (auto simp: ordered_ends_members)
    then have "mutual_peer gids es x = Some i" using mutual_peer_sym(3) i by blast
    then show "i = j" using j(1) by simp
  qed
qed

text \<open>
  C39: every queue pair is in exactly one relation. The relations are those of a list of ends in which every queue pair that
  was dumped occurs once. Two queue pairs share a relation exactly when each is the only one that could be the other end
  of the first: another queue pair of a connected type, each naming the other's number, with no address that contradicts
  and, on different devices, one that agrees. All other queue pairs have a relation of their own.
\<close>

theorem rdma_relations_partition:
  shows "\<exists>ends. build_rdma_relations resources ports neighbors processes = map (relation_of processes (qp_ends resources neighbors)) ends
    \<and> distinct ends
    \<and> (\<forall>x. (\<exists>!e. e \<in> set ends \<and> x \<in> members e) \<longleftrightarrow> x < length (nr_queue_pairs resources))
    \<and> (\<forall>i j. (\<exists>e\<in>set ends. i \<noteq> j \<and> i \<in> members e \<and> j \<in> members e) \<longleftrightarrow>
         only_match (port_gid_map ports) (qp_ends resources neighbors) i j \<and> only_match (port_gid_map ports) (qp_ends resources neighbors) j i)"
proof -
  let ?es = "qp_ends resources neighbors" and ?gids = "port_gid_map ports"
  let ?starts = "filter (starts ?gids ?es) [0..<length ?es]"
  let ?ends = "map (ordered_ends ?gids ?es) ?starts"
  have n: "length ?es = length (nr_queue_pairs resources)" by (simp add: qp_ends_def)
  have start: "i < length ?es \<and> starts ?gids ?es i" if "i \<in> set ?starts" for i using that by simp
  have inj: "i = j" if "i \<in> set ?starts" "j \<in> set ?starts" "ordered_ends ?gids ?es i = ordered_ends ?gids ?es j" for i j
    using starts_unique [of i ?es ?gids] start [OF that(1)] start [OF that(2)] that(3) by (metis ordered_ends_members)
  have dist: "distinct ?ends" using inj by (auto simp: distinct_map inj_on_def)
  have one: "(\<exists>!e. e \<in> set ?ends \<and> x \<in> members e) \<longleftrightarrow> x < length ?es" for x
  proof
    assume "x < length ?es"
    from starts_unique [OF this, of ?gids] obtain i where
      i: "i < length ?es \<and> starts ?gids ?es i \<and> x \<in> members (ordered_ends ?gids ?es i)"
      and u: "\<And>k. k < length ?es \<and> starts ?gids ?es k \<and> x \<in> members (ordered_ends ?gids ?es k) \<Longrightarrow> k = i"
      by (elim ex1E) blast
    show "\<exists>!e. e \<in> set ?ends \<and> x \<in> members e"
    proof (rule ex1I [of _ "ordered_ends ?gids ?es i"])
      show "ordered_ends ?gids ?es i \<in> set ?ends \<and> x \<in> members (ordered_ends ?gids ?es i)" using i by simp
    next
      fix e
      assume e: "e \<in> set ?ends \<and> x \<in> members e"
      then obtain k where "k \<in> set ?starts" "e = ordered_ends ?gids ?es k" by auto
      then show "e = ordered_ends ?gids ?es i" using u [of k] e start by blast
    qed
  next
    assume "\<exists>!e. e \<in> set ?ends \<and> x \<in> members e"
    then obtain i where "i < length ?es" "x \<in> members (ordered_ends ?gids ?es i)" by auto
    then show "x < length ?es" using mutual_peer_sym(1) by (auto simp: ordered_ends_members)
  qed
  have pair: "(\<exists>e\<in>set ?ends. i \<noteq> j \<and> i \<in> members e \<and> j \<in> members e) \<longleftrightarrow> only_match ?gids ?es i j \<and> only_match ?gids ?es j i" for i j
  proof
    assume "\<exists>e\<in>set ?ends. i \<noteq> j \<and> i \<in> members e \<and> j \<in> members e"
    then obtain k where k: "k < length ?es" "i \<noteq> j" "i \<in> members (ordered_ends ?gids ?es k)" "j \<in> members (ordered_ends ?gids ?es k)" by auto
    then have "i = k \<and> mutual_peer ?gids ?es k = Some j \<or> j = k \<and> mutual_peer ?gids ?es k = Some i"
      by (auto simp: ordered_ends_members)
    then show "only_match ?gids ?es i j \<and> only_match ?gids ?es j i" using mutual_peer_iff [OF k(1)] by blast
  next
    assume m: "only_match ?gids ?es i j \<and> only_match ?gids ?es j i"
    then have ij: "i < length ?es" "j < length ?es" "i \<noteq> j" by (auto simp: only_match_def could_match_def)
    then have "mutual_peer ?gids ?es i = Some j" "mutual_peer ?gids ?es j = Some i" using m mutual_peer_iff by blast+
    then have "\<exists>k. k < length ?es \<and> starts ?gids ?es k \<and> i \<in> members (ordered_ends ?gids ?es k) \<and> j \<in> members (ordered_ends ?gids ?es k)"
      using ij by (intro exI [of _ "min i j"]) (auto simp: ordered_ends_members starts_def min_def)
    then show "\<exists>e\<in>set ?ends. i \<noteq> j \<and> i \<in> members e \<and> j \<in> members e" using ij(3) by auto
  qed
  have eq: "build_rdma_relations resources ports neighbors processes = map (relation_of processes ?es) ?ends"
    using emit_relations [of "length ?es" ?es processes ?gids] by (simp add: build_rdma_relations_def Let_def)
  show ?thesis unfolding n [symmetric] by (rule exI [of _ ?ends]) (intro conjI allI eq dist one pair)
qed

section \<open>Identifiers\<close>

definition entry_key :: "QueuePairEntry \<Rightarrow> rstring \<times> u32 option \<times> u32" where
  "entry_key q = (qpe_device q, qpe_port q, qpe_qpn q)"

definition plain_name :: "rstring \<Rightarrow> bool" where
  "plain_name s \<longleftrightarrow> ch CHR '':'' \<notin> set s \<and> ch CHR ''/'' \<notin> set s"

definition id_tail :: "rstring \<Rightarrow> bool" where
  "id_tail r \<longleftrightarrow> r = [] \<or> hd r = ch CHR ''/''"

lemma append_marked:
  assumes "x \<notin> set a" "x \<notin> set b" "r = [] \<or> hd r = x" "r' = [] \<or> hd r' = x" "a @ r = b @ r'"
  shows "a = b" "r = r'"
proof -
  have "takeWhile (\<lambda>c. c \<noteq> x) (a @ r) = a" using assms(1,3) by (cases r) (auto simp: takeWhile_append)
  moreover have "takeWhile (\<lambda>c. c \<noteq> x) (b @ r') = b" using assms(2,4) by (cases r') (auto simp: takeWhile_append)
  ultimately show "a = b" using assms(5) by simp
  then show "r = r'" using assms(5) by simp
qed

definition port_text :: "u32 option \<Rightarrow> rstring" where
  "port_text port = (case port of Some p \<Rightarrow> ch CHR ''/'' # show_dec (unat p) | None \<Rightarrow> [])"

lemma end_id_text:
  "end_id e = lit ''rdma:'' @ (qpe_device (qe_entry e) @ port_text (qpe_port (qe_entry e))) @ ch CHR '':'' # show_dec (unat (qpe_qpn (qe_entry e)))"
  by (simp add: end_id_def port_text_def lit_map_ch split: option.splits)

lemma dec_chars: "c \<in> set (show_dec n) \<Longrightarrow> c \<noteq> ch CHR '':'' \<and> c \<noteq> ch CHR ''/''"
proof -
  assume c: "c \<in> set (show_dec n)"
  then obtain d where "to_digit 10 c = Some d" using show_radix_chars [of 10 c n] by auto
  then show ?thesis by (auto simp: to_digit_def Let_def split: if_splits)
qed

lemma dec_inj: "show_dec (unat x) = show_dec (unat y) \<Longrightarrow> x = (y :: u32)"
proof -
  assume *: "show_dec (unat x) = show_dec (unat y)"
  have "digits_value 10 0 (show_dec k) = Some k" for k by (rule digits_value_show) simp_all
  from this [of "unat x"] this [of "unat y"] have "unat x = unat y" unfolding * by simp
  then show "x = y" by (rule word_unat_eq_iff [THEN iffD2])
qed

lemma port_text_inj: "port_text a = port_text b \<Longrightarrow> a = b"
  by (auto simp: port_text_def dec_inj split: option.splits)

lemma end_id_key:
  assumes "plain_name (qpe_device (qe_entry a))" "plain_name (qpe_device (qe_entry b))" "id_tail r" "id_tail r'"
    and "end_id a @ r = end_id b @ r'"
  shows "entry_key (qe_entry a) = entry_key (qe_entry b)"
proof -
  let ?head = "\<lambda>e. qpe_device (qe_entry e) @ port_text (qpe_port (qe_entry e))"
  have no_colon: "ch CHR '':'' \<notin> set (?head e)" if "plain_name (qpe_device (qe_entry e))" for e
    using that dec_chars by (auto simp: plain_name_def port_text_def ch_def split: option.splits)
  have eq: "?head a @ ch CHR '':'' # show_dec (unat (qpe_qpn (qe_entry a))) @ r =
      ?head b @ ch CHR '':'' # show_dec (unat (qpe_qpn (qe_entry b))) @ r'"
    using assms(5) unfolding end_id_text by simp
  have heads: "?head a = ?head b"
    by (rule append_marked(1) [OF no_colon [OF assms(1)] no_colon [OF assms(2)] _ _ eq]) simp_all
  have tails: "show_dec (unat (qpe_qpn (qe_entry a))) @ r = show_dec (unat (qpe_qpn (qe_entry b))) @ r'"
    using eq heads by simp
  have "show_dec (unat (qpe_qpn (qe_entry a))) = show_dec (unat (qpe_qpn (qe_entry b)))"
    by (rule append_marked(1) [OF _ _ _ _ tails, of "ch CHR ''/''"]) (use dec_chars assms(3,4) in \<open>auto simp: id_tail_def\<close>)
  moreover have port: "port_text x = [] \<or> hd (port_text x) = ch CHR ''/''" for x by (simp add: port_text_def split: option.splits)
  have slash: "ch CHR ''/'' \<notin> set (qpe_device (qe_entry a))" "ch CHR ''/'' \<notin> set (qpe_device (qe_entry b))"
    using assms(1,2) by (simp_all add: plain_name_def)
  note append_marked [OF slash port port heads]
  ultimately show ?thesis using port_text_inj dec_inj by (simp add: entry_key_def)
qed

text \<open>
  C40: no two relations have the same identifier, provided the device names have no colon or slash and no two queue pairs
  agree in device, port and number: the updates that a browser receives name relations by their identifiers.
\<close>

theorem rdma_ids_distinct:
  assumes "\<forall>q\<in>set (nr_queue_pairs resources). plain_name (qpe_device q)" "distinct (map entry_key (nr_queue_pairs resources))"
  shows "distinct (map rr_id (build_rdma_relations resources ports neighbors processes))"
proof -
  let ?es = "qp_ends resources neighbors" and ?gids = "port_gid_map ports"
  let ?starts = "filter (starts ?gids ?es) [0..<length ?es]"
  let ?id = "\<lambda>i. rr_id (relation_of processes ?es (ordered_ends ?gids ?es i))"
  have entries: "map qe_entry ?es = nr_queue_pairs resources"
    by (simp add: qp_ends_def qp_end_of_def comp_def Let_def)
  have entry: "qe_entry (?es ! i) = nr_queue_pairs resources ! i" if "i < length ?es" for i
    using that by (metis entries nth_map)
  have n: "length ?es = length (nr_queue_pairs resources)" by (simp add: qp_ends_def)
  have first: "fst (ordered_ends ?gids ?es i) \<in> members (ordered_ends ?gids ?es i)" for i by (simp add: members_def)
  have bound: "fst (ordered_ends ?gids ?es i) < length ?es" if "i < length ?es" for i
    using first [of i] mutual_peer_sym(1) [OF that] that by (auto simp: ordered_ends_members)
  have "i = j" if i: "i \<in> set ?starts" and j: "j \<in> set ?starts" and id: "?id i = ?id j" for i j
  proof -
    let ?x = "fst (ordered_ends ?gids ?es i)" and ?y = "fst (ordered_ends ?gids ?es j)"
    have tail: "\<exists>r. ?id k = end_id (?es ! fst (ordered_ends ?gids ?es k)) @ r \<and> id_tail r" for k
      by (auto simp: relation_of_def rdma_relation_def id_tail_def lit_map_ch split: prod.splits option.splits)
    obtain r r' where "id_tail r" "id_tail r'" "end_id (?es ! ?x) @ r = end_id (?es ! ?y) @ r'"
      using tail [of i] tail [of j] id by metis
    moreover have xy: "?x < length ?es" "?y < length ?es" using bound i j by simp_all
    ultimately have "entry_key (nr_queue_pairs resources ! ?x) = entry_key (nr_queue_pairs resources ! ?y)"
      using end_id_key [of "?es ! ?x" "?es ! ?y" r r'] assms(1) entry n by simp
    then have "?x = ?y" using assms(2) xy n nth_eq_iff_index_eq [of "map entry_key (nr_queue_pairs resources)" ?x ?y] by simp
    then show "i = j" using starts_unique [OF xy(1), of ?gids] first [of i] first [of j] i j
      by (auto elim!: ex1E)
  qed
  then have "distinct (map ?id ?starts)" by (auto simp: distinct_map inj_on_def)
  moreover have "build_rdma_relations resources ports neighbors processes =
      map (relation_of processes ?es) (map (ordered_ends ?gids ?es) ?starts)"
    using emit_relations [of "length ?es" ?es processes ?gids] by (simp add: build_rdma_relations_def Let_def)
  ultimately show ?thesis by (simp add: comp_def)
qed

text \<open>Two ends of a loop-back connection.\<close>

definition sample_qp :: "u32 \<Rightarrow> u32 \<Rightarrow> QueuePairEntry" where
  "sample_qp qpn remote = \<lparr>qpe_device = lit ''mlx5'', qpe_port = Some 1, qpe_qpn = qpn, qpe_remote_qpn = Some remote,
     qpe_qp_type = RdmaQpType.Rc, qpe_state = RdmaQpState.Rts, qpe_owner = Unknown\<rparr>"

definition sample_resources :: NldevResources where
  "sample_resources = \<lparr>nr_queue_pairs = [sample_qp 7 8, sample_qp 8 7], nr_cm_ids = [], nr_errors = [], nr_truncated = False\<rparr>"

theorem rdma_ids_distinct_witness:
  "distinct (map rr_id (build_rdma_relations sample_resources [] Map.empty Map.empty))"
  by (rule rdma_ids_distinct) (simp_all add: sample_resources_def sample_qp_def plain_name_def lit_map_ch entry_key_def)

end
