(* ===== verification/System_Scan.thy ===== *)
theory System_Scan
  imports Descriptor_Scan Rdma_Relations Ipc_Acquisition Fd_Relations System_Monitor
begin

text \<open>
  The system snapshot of the helper (\<open>src/privileged_helper/system/snapshot.rs\<close>): processes with their mappings, the
  descriptors that may connect them, socket tables of every network namespace, and the observations added at the end. What
  \<open>/proc\<close> shows of a process is an argument, and so are the comparisons with the deadlines and the orders of maps.
\<close>

unbundle bit_operations_syntax

section \<open>Descriptors\<close>

definition DeviceId_from_stat :: "u64 \<Rightarrow> DeviceId" where
  "DeviceId_from_stat device =
     \<lparr>dev_major = ucast (drop_bit 8 (device AND 0xfff00) OR drop_bit 32 (device AND 0xfffff00000000000)),
      dev_minor = ucast ((device AND 0xff) OR drop_bit 12 (device AND 0x00000ffffff00000))\<rparr>"

datatype file_kind = SocketFile | FifoFile | CharDevice | OtherFile

record fd_meta =
  fm_kind :: file_kind
  fm_dev :: u64
  fm_ino :: u64
  fm_rdev :: u64

text \<open>An entry of \<open>/proc/PID/fd\<close>: its name, what \<open>stat\<close> tells of its target (or an errno), and \<open>fdinfo\<close>.\<close>

record fd_entry =
  fe_name :: "byte list"
  fe_meta :: "nat + fd_meta"
  fe_info :: "read_error + byte list"

record system_scan =
  st_processes :: "ProcessSnapshot list"
  st_warnings :: "rstring list"
  st_inspected_processes :: usize
  st_inspected_fds :: usize
  st_owners :: "(IpcIdentity \<times> FdEndpoint list) list"
  st_infos :: "(u64 \<times> SocketInfo) list"
  st_inode_ns :: "(u64 \<times> u64 \<times> u64) list"
  st_namespaces :: "(u64 \<times> u64) set"
  st_network_namespaces :: "(ProcessId \<times> u64 \<times> u64) list"
  st_denied :: nat
  st_metadata :: "(IpcIdentity \<times> SocketMetadata) list"
  st_truncated :: bool
  st_device_handles :: "(ProcessId \<times> u32 \<times> u64) list"

definition FD_LIMIT :: usize where "FD_LIMIT = 100000"
definition MAPS_LIMIT :: nat where "MAPS_LIMIT = 4096"

definition fd_number :: "fd_entry \<Rightarrow> u32 option" where
  "fd_number f = parse_u32 (from_utf8_lossy (fe_name f))"

definition fd_flags :: "fd_entry \<Rightarrow> u32" where
  "fd_flags f =
     (case read_procfs_text (fe_info f) of
        Inl _ \<Rightarrow> - 1
      | Inr text \<Rightarrow> (case Option.bind (procfs_fields text (lit ''flags'')) octal_u32 of Some flags \<Rightarrow> flags | None \<Rightarrow> - 1))"

definition fd_resource :: "FdKind \<Rightarrow> fd_meta \<Rightarrow> IpcIdentity" where
  "fd_resource fd_kind meta = \<lparr>ipcid_kind = (if fd_kind = FdKind.Pipe then IpcKind.Pipe else IpcKind.Socket),
     ipcid_device = DeviceId_from_stat (fm_dev meta), ipcid_inode = fm_ino meta\<rparr>"

definition fd_endpoint :: "ProcessId \<Rightarrow> u32 \<Rightarrow> FdKind \<Rightarrow> fd_meta \<Rightarrow> u32 \<Rightarrow> FdEndpoint" where
  "fd_endpoint process_id number fd_kind meta flags =
     \<lparr>fde_process_id = process_id, fde_fd = number, fde_fd_count = 1, fde_resource = fd_resource fd_kind meta, fde_kind = fd_kind,
      fde_access = FdAccess_from_flags flags,
      fde_connection_status = (if fd_kind = FdKind.Socket then Some SocketConnectionStatus.Unknown else None)\<rparr>"

definition kind_of :: "fd_meta \<Rightarrow> FdKind option" where
  "kind_of meta = (case fm_kind meta of SocketFile \<Rightarrow> Some FdKind.Socket | FifoFile \<Rightarrow> Some FdKind.Pipe | _ \<Rightarrow> None)"

text \<open>Metadata is read for a socket that has none yet.\<close>

definition observe_socket ::
  "(u32 \<Rightarrow> socket_calls) \<Rightarrow> u32 \<Rightarrow> FdKind \<Rightarrow> fd_meta \<Rightarrow> SocketMetadataReader \<Rightarrow> system_scan \<Rightarrow> SocketMetadataReader \<times> system_scan"
where
  "observe_socket calls number fd_kind meta reader s =
     (if fd_kind = FdKind.Socket \<and> map_of (st_metadata s) (fd_resource fd_kind meta) = None then
        (case read_metadata (calls number) (fm_dev meta) (fm_ino meta) reader of
           (Inr observed, reader) \<Rightarrow> (reader, if has_observation observed
             then s\<lparr>st_metadata := AList.update (fd_resource fd_kind meta) observed (st_metadata s)\<rparr> else s)
         | (Inl _, reader) \<Rightarrow> (reader, s))
      else (reader, s))"

fun scan_fds ::
  "ProcessId \<Rightarrow> (nat \<Rightarrow> bool) \<Rightarrow> (u32 \<Rightarrow> socket_calls) \<Rightarrow> nat \<Rightarrow> fd_entry list \<Rightarrow> SocketMetadataReader \<Rightarrow> system_scan
   \<Rightarrow> FdEndpoint list \<Rightarrow> system_scan \<times> FdEndpoint list"
where
  "scan_fds process_id late calls i [] reader s endpoints = (s, endpoints)"
| "scan_fds process_id late calls i (f # fs) reader s endpoints =
     (if FD_LIMIT \<le> st_inspected_fds s \<or> late i then (s\<lparr>st_truncated := True\<rparr>, endpoints)
      else
        (let s = s\<lparr>st_inspected_fds := st_inspected_fds s + 1\<rparr> in
         case fd_number f of
           None \<Rightarrow> scan_fds process_id late calls (Suc i) fs reader s endpoints
         | Some number \<Rightarrow>
             (case fe_meta f of
                Inl errno \<Rightarrow> scan_fds process_id late calls (Suc i) fs reader
                  (if permission_denied errno then s\<lparr>st_denied := Suc (st_denied s)\<rparr> else s) endpoints
              | Inr meta \<Rightarrow>
                  (case kind_of meta of
                     None \<Rightarrow> scan_fds process_id late calls (Suc i) fs reader
                       (if fm_kind meta = CharDevice
                        then s\<lparr>st_device_handles := st_device_handles s @ [(process_id, number, fm_rdev meta)]\<rparr> else s) endpoints
                   | Some fd_kind \<Rightarrow>
                       (case observe_socket calls number fd_kind meta reader s of (reader, s) \<Rightarrow>
                          scan_fds process_id late calls (Suc i) fs reader s
                            (endpoints @ [fd_endpoint process_id number fd_kind meta (fd_flags f)]))))))"

section \<open>Owners\<close>

text \<open>The descriptors of a process with the same resource and access are one endpoint.\<close>

definition same_holder :: "FdEndpoint \<Rightarrow> FdEndpoint \<Rightarrow> bool" where
  "same_holder p e \<longleftrightarrow> fde_process_id e = fde_process_id p \<and> fde_access e = fde_access p"

fun merge_into :: "FdEndpoint \<Rightarrow> FdEndpoint list \<Rightarrow> FdEndpoint list" where
  "merge_into p [] = [p]"
| "merge_into p (e # es) =
     (if same_holder p e then e\<lparr>fde_fd := min (fde_fd e) (fde_fd p), fde_fd_count := fde_fd_count e + 1\<rparr> # es
      else e # merge_into p es)"

definition merge_owner :: "FdEndpoint \<Rightarrow> (IpcIdentity \<times> FdEndpoint list) list \<Rightarrow> (IpcIdentity \<times> FdEndpoint list) list" where
  "merge_owner p owners =
     AList.update (fde_resource p) (merge_into p (case map_of owners (fde_resource p) of Some es \<Rightarrow> es | None \<Rightarrow> [])) owners"

section \<open>Processes\<close>

text \<open>What the system shows of a process during the scan.\<close>

record process_scan =
  pc_late :: bool
  pc_epoch :: u64
  pc_maps :: "rstring + MemoryMap list"
  pc_namespace :: "(u64 \<times> u64) option"
  pc_opened :: "rstring option"
  pc_net :: net_view
  pc_dir :: "nat + fd_entry list"
  pc_late_fd :: "nat \<Rightarrow> bool"
  pc_calls :: "u32 \<Rightarrow> socket_calls"
  pc_stat_after :: "stat_error + Stat"

definition process_from_summary :: "ProcessSummary \<Rightarrow> ProcessId option \<Rightarrow> ProcessSnapshot" where
  "process_from_summary summary parent_id =
     \<lparr>psnap_identity = psum_identity summary, psnap_parent_id = parent_id, psnap_name = psum_name summary,
      psnap_command_line = psum_command_line summary, psnap_uid = psum_uid summary, psnap_username = psum_username summary,
      psnap_euid = psum_euid summary, psnap_effective_username = psum_effective_username summary,
      psnap_maps = [], psnap_maps_epoch = 0, psnap_maps_error = None\<rparr>"

definition parent_of :: "(i32 \<Rightarrow> ProcessId option) \<Rightarrow> ProcessSummary \<Rightarrow> ProcessId option" where
  "parent_of identities summary =
     (case identities (psum_parent_pid summary) of
        Some parent \<Rightarrow> if parent \<noteq> psum_identity summary then Some parent else None
      | None \<Rightarrow> None)"

definition read_maps :: "process_scan \<Rightarrow> ProcessSnapshot \<Rightarrow> ProcessSnapshot \<times> bool" where
  "read_maps view n =
     (let n = n\<lparr>psnap_maps_epoch := pc_epoch view\<rparr> in
      case pc_maps view of
        Inr m \<Rightarrow> (n\<lparr>psnap_maps := take MAPS_LIMIT m\<rparr>, MAPS_LIMIT < length m)
      | Inl e \<Rightarrow> (n\<lparr>psnap_maps_error := Some e\<rparr>, False))"

text \<open>The socket tables of a namespace that was not seen before.\<close>

definition read_namespace_table ::
  "net_view \<Rightarrow> u64 \<times> u64 \<Rightarrow> string \<times> SocketProtocol \<Rightarrow> system_scan \<Rightarrow> system_scan"
where
  "read_namespace_table net ns = (\<lambda>(file, protocol) s.
     (case read_socket_table (nv_table net file) of
        Inr text \<Rightarrow>
          (let table = (if file = ''unix'' then parse_unix_socket_table text else parse_inet_socket_table text protocol) in
           s\<lparr>st_inode_ns := fold (\<lambda>(inode, _). AList.update inode ns) table (st_inode_ns s), st_infos := map_extend (st_infos s) table\<rparr>)
      | Inl _ \<Rightarrow> s))"

definition scan_namespace :: "process_scan \<Rightarrow> ProcessId \<Rightarrow> system_scan \<Rightarrow> system_scan" where
  "scan_namespace view process_id s =
     (case pc_namespace view of
        None \<Rightarrow> s
      | Some ns \<Rightarrow>
          if ns \<in> st_namespaces s then s
          else
            (let s = s\<lparr>st_namespaces := insert ns (st_namespaces s)\<rparr>;
                 s = (case pc_opened view of
                   None \<Rightarrow> s\<lparr>st_network_namespaces := st_network_namespaces s @ [(process_id, ns)]\<rparr>
                 | Some e \<Rightarrow> s\<lparr>st_warnings := st_warnings s @
                     [lit ''UNIX peer namespace for PID '' @ show_int (sint (pid_pid process_id)) @ lit '': '' @ e]\<rparr>);
                 s = fold (read_namespace_table (pc_net view) ns) table_kinds s in
             s\<lparr>st_infos := map_extend (st_infos s) (additional_sockets (nv_table (pc_net view)))\<rparr>))"

definition scan_directory :: "process_scan \<Rightarrow> ProcessId \<Rightarrow> system_scan \<Rightarrow> system_scan \<times> FdEndpoint list" where
  "scan_directory view process_id s =
     (case pc_dir view of
        Inr fs \<Rightarrow> scan_fds process_id (pc_late_fd view) (pc_calls view) 0 fs (SocketMetadataReader_new process_id)
          (s\<lparr>st_inspected_processes := st_inspected_processes s + 1\<rparr>) []
      | Inl errno \<Rightarrow> (if permission_denied errno then s\<lparr>st_denied := Suc (st_denied s)\<rparr> else s, []))"

definition scan_process ::
  "(ProcessId \<Rightarrow> process_scan) \<Rightarrow> (i32 \<Rightarrow> ProcessId option) \<Rightarrow> ProcessSummary \<Rightarrow> system_scan \<Rightarrow> system_scan"
where
  "scan_process views identities summary s =
     (let n = process_from_summary summary (parent_of identities summary);
          process_id = psum_identity summary;
          view = views process_id in
      if pc_late view then
        s\<lparr>st_truncated := True, st_processes := st_processes s
            @ [n\<lparr>psnap_maps_error := Some (lit ''Scan time limit reached. Retrying on the next update.'')\<rparr>]\<rparr>
      else
        (case read_maps view n of (n, clipped) \<Rightarrow>
         case scan_directory view process_id (scan_namespace view process_id (s\<lparr>st_truncated := st_truncated s \<or> clipped\<rparr>)) of
           (s, endpoints) \<Rightarrow>
             (case validate_process_identity (pc_stat_after view) process_id of
                Inl _ \<Rightarrow> s
              | Inr _ \<Rightarrow> s\<lparr>st_owners := fold merge_owner endpoints (st_owners s), st_processes := st_processes s @ [n]\<rparr>)))"

definition scan_start :: "rstring list \<Rightarrow> system_scan" where
  "scan_start warnings = \<lparr>st_processes = [], st_warnings = warnings, st_inspected_processes = 0, st_inspected_fds = 0,
     st_owners = [], st_infos = [], st_inode_ns = [], st_namespaces = {}, st_network_namespaces = [], st_denied = 0,
     st_metadata = [], st_truncated = False, st_device_handles = []\<rparr>"

definition identity_map :: "ProcessSummary list \<Rightarrow> i32 \<Rightarrow> ProcessId option" where
  "identity_map summaries = map_of (rev (map (\<lambda>s. (pid_pid (psum_identity s), psum_identity s)) summaries))"

definition scan_all :: "(ProcessId \<Rightarrow> process_scan) \<Rightarrow> ProcessSummary list \<Rightarrow> rstring list \<Rightarrow> system_scan" where
  "scan_all views summaries warnings = fold (scan_process views (identity_map summaries)) summaries (scan_start warnings)"

section \<open>The observations added at the end\<close>

text \<open>\<open>peers\<close> gives what a namespace answers, and \<open>late\<close> compares with the deadline before a namespace is asked.\<close>

fun scan_peers ::
  "(nat \<Rightarrow> bool) \<Rightarrow> (ProcessId \<Rightarrow> rstring + (u64 \<times> SocketInfo) list) \<Rightarrow> nat \<Rightarrow> (ProcessId \<times> u64 \<times> u64) list
   \<Rightarrow> (u64 \<times> SocketInfo) list \<Rightarrow> rstring list \<Rightarrow> (u64 \<times> SocketInfo) list \<times> rstring list"
where
  "scan_peers late peers i [] infos warnings = (infos, warnings)"
| "scan_peers late peers i ((holder, device, inode) # ns) infos warnings =
     (if late i then
        (infos, warnings @ [lit ''UNIX peer namespace scan reached its 500ms limit. Some peers may be missing.''])
      else case peers holder of
        Inr diag \<Rightarrow> scan_peers late peers (Suc i) ns (map_extend infos diag) warnings
      | Inl e \<Rightarrow> scan_peers late peers (Suc i) ns infos (warnings @
          [lit ''UNIX peer for PID '' @ show_int (sint (pid_pid holder)) @ lit '' / namespace ('' @ show_dec (unat device) @ lit '', ''
             @ show_dec (unat inode) @ lit ''): '' @ e]))"

text \<open>The path of an interface is its name read as UTF-8.\<close>

definition has_ipoib_interface :: "sysfs_view \<Rightarrow> rstring \<Rightarrow> bool" where
  "has_ipoib_interface view sys =
     (let root = sub_path sys (lit ''class/net'') in
      list_ex (\<lambda>name. case sv_file view (sub_path (sub_path root (from_utf8_lossy name)) (lit ''type'')) of
          Some text \<Rightarrow> trim text = lit ''32'' | None \<Rightarrow> False) (sv_names view root))"

text \<open>What the system answers after the processes were scanned, and the orders in which maps are iterated.\<close>

record system_world =
  sw_captured_at :: u64
  sw_hardware :: HardwareFiles
  sw_processes :: "rstring + ProcessSummary list"
  sw_view :: "ProcessId \<Rightarrow> process_scan"
  sw_late_peer :: "nat \<Rightarrow> bool"
  sw_peers :: "ProcessId \<Rightarrow> rstring + (u64 \<times> SocketInfo) list"
  sw_hostname :: "IpAddr \<Rightarrow> rstring option"
  sw_sysfs :: sysfs_view
  sw_sys :: rstring
  sw_own_namespace :: "(u64 \<times> u64) option"
  sw_neighbors :: "rdma_error + (IpAddr \<times> rstring) list"
  sw_rdma :: rdma_world
  sw_rdma_neighbors :: "rdma_error + (IpAddr \<times> rstring) list"
  sw_rdma_hostname :: "IpAddr \<Rightarrow> rstring option"
  sw_metadata_order :: "IpcIdentity list \<Rightarrow> IpcIdentity list"
  sw_owner_order :: "IpcIdentity list \<Rightarrow> IpcIdentity list"
  sw_ip_order :: "IpAddr list \<Rightarrow> IpAddr list"
  sw_socket_order :: "u64 list \<Rightarrow> u64 list"

definition add_remote_gids :: "system_world \<Rightarrow> SystemSnapshot \<Rightarrow> SystemSnapshot" where
  "add_remote_gids w s =
     (if \<not> has_ipoib_interface (sw_sysfs w) (sw_sys w) then s
      else case sw_own_namespace w of
        None \<Rightarrow> s
      | Some own \<Rightarrow>
          (case sw_neighbors w of
             Inl e \<Rightarrow> s\<lparr>sys_warnings := sys_warnings s @ [lit ''IPoIB neighbors unavailable: '' @ rw_text (sw_rdma w) e]\<rparr>
           | Inr neighbors \<Rightarrow> s\<lparr>sys_raw_neighbors := Some \<lparr>nbr_entries = neighbors, nbr_namespace = own\<rparr>\<rparr>))"

definition with_hostname :: "(IpAddr \<Rightarrow> rstring option) \<Rightarrow> RdmaRelation \<Rightarrow> RdmaRelation" where
  "with_hostname lookup r =
     (if rr_peer r = None then
        r\<lparr>rr_remote_hostname := Option.bind (rr_cm r) (\<lambda>cm. Option.bind (cm_destination cm) (\<lambda>a. Option.bind (RdmaAddress_ip a) lookup))\<rparr>
      else r)"

definition remote_ips :: "(u64 \<times> SocketInfo) list \<Rightarrow> IpAddr list" where
  "remote_ips infos = remdups (List.map_filter (\<lambda>(_, info). map_option socket_ip (si_remote info)) infos)"

text \<open>The sockets of the tables and of the diagnostics, then the kinds that descriptors showed, with the warnings.\<close>

definition scanned_infos :: "system_world \<Rightarrow> system_scan \<Rightarrow> (u64 \<times> SocketInfo) list \<times> rstring list" where
  "scanned_infos w st =
     (case scan_peers (sw_late_peer w) (sw_peers w) 0 (st_network_namespaces st) (st_infos st) (st_warnings st) of (infos, warnings) \<Rightarrow>
        (fold (\<lambda>(resource, observed). apply_observed (ipcid_inode resource) observed)
           (reordered (sw_metadata_order w) (st_metadata st)) infos, warnings))"

definition scanned_snapshot :: "system_world \<Rightarrow> SystemSnapshot \<Rightarrow> system_scan \<Rightarrow> SystemSnapshot" where
  "scanned_snapshot w result st =
     (case scanned_infos w st of (infos, warnings) \<Rightarrow>
        result\<lparr>sys_processes := st_processes st, sys_warnings := warnings,
          sys_inspected_processes := st_inspected_processes st, sys_inspected_fds := st_inspected_fds st,
          sys_raw_owners := reordered (sw_owner_order w) (st_owners st),
          sys_raw_sockets := reordered (sw_socket_order w) infos,
          sys_raw_namespaces := reordered (sw_socket_order w) (st_inode_ns st),
          sys_raw_connections := map (\<lambda>(resource, observed). (resource, sm_connection_status observed))
            (reordered (sw_metadata_order w) (st_metadata st)),
          sys_raw_device_handles := st_device_handles st,
          sys_raw_hostnames := List.map_filter (\<lambda>ip. map_option (Pair ip) (sw_hostname w ip)) (sw_ip_order w (remote_ips infos))\<rparr>)"

definition add_rdma :: "system_world \<Rightarrow> SystemSnapshot \<Rightarrow> SystemSnapshot" where
  "add_rdma w s =
     (let pids = map_of (rev (map (\<lambda>p. (pid_pid (psnap_identity p), psnap_identity p)) (sys_processes s)));
          observed = collect_rdma_observation (sw_sysfs w) (sw_sys w) (sw_rdma w) (sw_rdma_neighbors w) pids in
      s\<lparr>sys_rdma_ports := ro_ports observed, sys_rdma_relations := map (with_hostname (sw_rdma_hostname w)) (ro_relations observed),
        sys_warnings := sys_warnings s @ ro_warnings observed\<rparr>)"

definition limit_warnings :: "system_scan \<Rightarrow> rstring list" where
  "limit_warnings st =
     (if 0 < st_denied st then [lit ''Access denied for '' @ show_dec (st_denied st) @ lit '' processes/FDs''] else [])
     @ (if st_truncated st
        then [lit ''Scan, mapping, or connection limit reached. Some process or FD information is missing.''] else [])"

definition collect_system_snapshot :: "system_world \<Rightarrow> SystemSnapshot" where
  "collect_system_snapshot w =
     (let result = SystemSnapshot_default\<lparr>sys_captured_at := sw_captured_at w, sys_raw_hardware := sw_hardware w,
            sys_warnings := (if hwf_truncated (sw_hardware w) then [lit ''Hardware acquisition size limit reached''] else [])\<rparr> in
      case sw_processes w of
        Inl e \<Rightarrow> result\<lparr>sys_warnings := sys_warnings result @ [e]\<rparr>
      | Inr summaries \<Rightarrow>
          (let st = scan_all (sw_view w) summaries (sys_warnings result);
               s = add_rdma w (add_remote_gids w (scanned_snapshot w result st)) in
           s\<lparr>sys_warnings := sys_warnings s @ limit_warnings st\<rparr>))"

section \<open>Owners are groups\<close>

definition hold :: "FdEndpoint \<Rightarrow> ProcessId \<times> FdAccess" where
  "hold e = (fde_process_id e, fde_access e)"

definition merged :: "FdEndpoint \<Rightarrow> FdEndpoint list \<Rightarrow> bool" where
  "merged e gs \<longleftrightarrow> gs \<noteq> [] \<and> fde_fd e = Min (fde_fd ` set gs) \<and> fde_fd_count e = of_nat (length gs)"

text \<open>The list of a resource has one endpoint for every process and access among the endpoints seen.\<close>

definition list_ok :: "IpcIdentity \<Rightarrow> FdEndpoint list \<Rightarrow> FdEndpoint list \<Rightarrow> bool" where
  "list_ok r ps es \<longleftrightarrow> distinct (map hold es)
     \<and> (\<forall>e\<in>set es. fde_resource e = r \<and> merged e (filter (\<lambda>q. fde_resource q = r \<and> hold q = hold e) ps))
     \<and> (\<forall>q\<in>set ps. fde_resource q = r \<longrightarrow> hold q \<in> hold ` set es)"

definition owners_at :: "(IpcIdentity \<times> FdEndpoint list) list \<Rightarrow> IpcIdentity \<Rightarrow> FdEndpoint list" where
  "owners_at owners r = (case map_of owners r of Some es \<Rightarrow> es | None \<Rightarrow> [])"

definition grouped :: "FdEndpoint list \<Rightarrow> (IpcIdentity \<times> FdEndpoint list) list \<Rightarrow> bool" where
  "grouped ps owners \<longleftrightarrow> distinct (map fst owners) \<and> (\<forall>r. list_ok r ps (owners_at owners r))"

lemma same_holder_iff: "same_holder p e \<longleftrightarrow> hold e = hold p"
  by (simp add: same_holder_def hold_def)

lemma hold_update [simp]: "hold (e\<lparr>fde_fd := a, fde_fd_count := b\<rparr>) = hold e"
  by (simp add: hold_def)

lemma merge_into_holders:
  "map hold (merge_into p es) = (if hold p \<in> hold ` set es then map hold es else map hold es @ [hold p])"
  by (induction es) (auto simp: same_holder_iff)

lemma merge_into_member:
  "distinct (map hold es) \<Longrightarrow> e' \<in> set (merge_into p es) \<Longrightarrow>
     e' \<in> set es \<and> hold e' \<noteq> hold p
     \<or> (\<exists>e\<in>set es. hold e = hold p \<and> e' = e\<lparr>fde_fd := min (fde_fd e) (fde_fd p), fde_fd_count := fde_fd_count e + 1\<rparr>)
     \<or> e' = p \<and> hold p \<notin> hold ` set es"
proof (induction es)
  case Nil
  then show ?case by simp
next
  case (Cons e es)
  then have "hold e \<notin> hold ` set es" by simp
  then have "hold e \<noteq> hold p" if "hold e' = hold p" "e' \<in> set es" using that by (metis imageI)
  with Cons show ?case by (auto simp: same_holder_iff split: if_splits)
qed

lemma merged_step:
  "merged e gs \<Longrightarrow> fde_fd_count p = 1
     \<Longrightarrow> merged (e\<lparr>fde_fd := min (fde_fd e) (fde_fd p), fde_fd_count := fde_fd_count e + 1\<rparr>) (gs @ [p])"
  by (simp add: merged_def min.commute)

lemma list_ok_other: "list_ok r ps es \<Longrightarrow> fde_resource p \<noteq> r \<Longrightarrow> list_ok r (ps @ [p]) es"
  by (simp add: list_ok_def)

lemma list_ok_merge:
  assumes ok: "list_ok r ps es" and p: "fde_resource p = r" "fde_fd_count p = 1"
  shows "list_ok r (ps @ [p]) (merge_into p es)"
proof -
  have d: "distinct (map hold es)" using ok by (simp add: list_ok_def)
  have members: "fde_resource e' = r \<and> merged e' (filter (\<lambda>q. fde_resource q = r \<and> hold q = hold e') (ps @ [p]))"
    if e': "e' \<in> set (merge_into p es)" for e'
    using merge_into_member [OF d e']
  proof (elim disjE)
    assume "e' \<in> set es \<and> hold e' \<noteq> hold p"
    then show ?thesis using ok by (auto simp: list_ok_def)
  next
    assume "\<exists>e\<in>set es. hold e = hold p \<and> e' = e\<lparr>fde_fd := min (fde_fd e) (fde_fd p), fde_fd_count := fde_fd_count e + 1\<rparr>"
    then obtain e where e: "e \<in> set es" "hold e = hold p"
        "e' = e\<lparr>fde_fd := min (fde_fd e) (fde_fd p), fde_fd_count := fde_fd_count e + 1\<rparr>" by blast
    then have "fde_resource e = r" "merged e (filter (\<lambda>q. fde_resource q = r \<and> hold q = hold p) ps)"
      using ok by (auto simp: list_ok_def)
    with merged_step [OF this(2) p(2)] show ?thesis using e p by simp
  next
    assume new: "e' = p \<and> hold p \<notin> hold ` set es"
    moreover have "\<forall>q\<in>set ps. fde_resource q = r \<longrightarrow> hold q \<in> hold ` set es" using ok by (simp add: list_ok_def)
    ultimately have "filter (\<lambda>q. fde_resource q = r \<and> hold q = hold p) ps = []"
      unfolding filter_empty_conv by metis
    then show ?thesis using new p by (simp add: merged_def)
  qed
  have holders: "hold ` set (merge_into p es) = insert (hold p) (hold ` set es)"
    using arg_cong [OF merge_into_holders, of set p es] by (auto split: if_splits)
  show ?thesis using ok members unfolding list_ok_def holders merge_into_holders by auto
qed

lemma grouped_merge:
  assumes "grouped ps owners" "fde_fd_count p = 1"
  shows "grouped (ps @ [p]) (merge_owner p owners)"
proof -
  have at: "owners_at (merge_owner p owners) r =
      (if r = fde_resource p then merge_into p (owners_at owners r) else owners_at owners r)" for r
    by (simp add: owners_at_def merge_owner_def update_conv')
  have "distinct (map fst (merge_owner p owners))"
    using assms(1) by (simp add: grouped_def merge_owner_def distinct_update)
  moreover have "list_ok r (ps @ [p]) (owners_at (merge_owner p owners) r)" for r
    unfolding at using assms(1) list_ok_merge [OF _ _ assms(2)] list_ok_other
    by (cases "r = fde_resource p") (simp_all add: grouped_def)
  ultimately show ?thesis by (simp add: grouped_def)
qed

lemma grouped_all:
  "grouped ps owners \<Longrightarrow> \<forall>p\<in>set new. fde_fd_count p = 1 \<Longrightarrow> grouped (ps @ new) (fold merge_owner new owners)"
proof (induction new arbitrary: ps owners)
  case Nil
  then show ?case by simp
next
  case (Cons p new)
  from Cons.IH [OF grouped_merge [OF Cons.prems(1)]] Cons.prems(2) show ?case by simp
qed

lemma grouped_start: "grouped [] []"
  by (simp add: grouped_def list_ok_def owners_at_def)

text \<open>An entry of the owners, and an observed endpoint it stands for.\<close>

lemma grouped_entry:
  assumes "grouped ps owners" "(r, es) \<in> set owners" "e \<in> set es"
  obtains q where "q \<in> set ps" "end_key q = end_key e" "fde_resource q = r" "hold q = hold e"
proof -
  define gs where "gs = filter (\<lambda>q. fde_resource q = r \<and> hold q = hold e) ps"
  have "map_of owners r = Some es" using assms(1,2) by (simp add: grouped_def)
  then have "list_ok r ps es" using assms(1) by (auto simp: grouped_def owners_at_def dest: spec [of _ r])
  then have "merged e gs" using assms(3) by (simp add: list_ok_def gs_def)
  then have "fde_fd e = Min (fde_fd ` set gs)" "set gs \<noteq> {}" by (simp_all add: merged_def)
  then have "fde_fd e \<in> fde_fd ` set gs" by simp
  then obtain q where "q \<in> set gs" "fde_fd q = fde_fd e" by force
  then show thesis by (intro that [of q]) (simp_all add: gs_def end_key_def hold_def)
qed

lemma distinct_groups:
  assumes "distinct (map fst m)" "\<And>r es. (r, es) \<in> set m \<Longrightarrow> distinct (map f es)"
    and "\<And>r es r' es' x y. (r, es) \<in> set m \<Longrightarrow> (r', es') \<in> set m \<Longrightarrow> x \<in> set es \<Longrightarrow> y \<in> set es' \<Longrightarrow> f x = f y \<Longrightarrow> r = r'"
  shows "distinct (map f (concat (map snd m)))"
  using assms
proof (induction m)
  case Nil
  then show ?case by simp
next
  case (Cons entry m)
  obtain r es where entry: "entry = (r, es)" by (cases entry)
  have "distinct (map f (concat (map snd m)))"
  proof (rule Cons.IH)
    show "r1 = r2" if "(r1, es1) \<in> set m" "(r2, es2) \<in> set m" "x \<in> set es1" "y \<in> set es2" "f x = f y" for r1 es1 r2 es2 x y
      by (rule Cons.prems(3) [of r1 es1 r2 es2 x y]) (use that in simp_all)
  qed (use Cons.prems(1,2) in auto)
  moreover have "f x \<noteq> f y" if "x \<in> set es" "(r', es') \<in> set m" "y \<in> set es'" for x y r' es'
  proof
    assume "f x = f y"
    from Cons.prems(3) [of r es r' es' x y] that this have "r = r'" by (simp add: entry)
    with Cons.prems(1) that(2) show False by (force simp: entry)
  qed
  moreover have "distinct (map f es)" by (rule Cons.prems(2) [of r]) (simp add: entry)
  ultimately show ?case by (fastforce simp: entry)
qed

lemma grouped_keys:
  assumes g: "grouped ps owners" and d: "distinct (map end_key ps)"
  shows "distinct (owner_keys owners)"
  unfolding owner_keys_def
proof (rule distinct_groups)
  show "distinct (map fst owners)" using g by (simp add: grouped_def)
  have same: "q = q'" if "q \<in> set ps" "q' \<in> set ps" "end_key q = end_key q'" for q q'
    using d that by (auto simp: distinct_map dest: inj_onD)
  fix r es assume entry: "(r, es) \<in> set owners"
  then have "owners_at owners r = es" using g by (simp add: grouped_def owners_at_def)
  then have dh: "distinct (map hold es)" using g by (auto simp: grouped_def list_ok_def)
  have "inj_on end_key (set es)"
  proof (rule inj_onI)
    fix e e' assume e: "e \<in> set es" "e' \<in> set es" "end_key e = end_key e'"
    obtain q where q: "q \<in> set ps" "end_key q = end_key e" "hold q = hold e" using grouped_entry [OF g entry e(1)] by metis
    obtain q' where q': "q' \<in> set ps" "end_key q' = end_key e'" "hold q' = hold e'" using grouped_entry [OF g entry e(2)] by metis
    have "hold e = hold e'" using same [OF q(1) q'(1)] q q' e(3) by simp
    with dh e show "e = e'" by (auto simp: distinct_map dest: inj_onD)
  qed
  with dh show "distinct (map end_key es)" by (simp add: distinct_map)
  fix r' es' e e' assume e: "(r', es') \<in> set owners" "e \<in> set es" "e' \<in> set es'" "end_key e = end_key e'"
  obtain q where q: "q \<in> set ps" "end_key q = end_key e" "fde_resource q = r" using grouped_entry [OF g entry e(2)] by metis
  obtain q' where q': "q' \<in> set ps" "end_key q' = end_key e'" "fde_resource q' = r'" using grouped_entry [OF g e(1,3)] by metis
  show "r = r'" using same [OF q(1) q'(1)] q q' e(4) by simp
qed

end
