(* ===== verification/Scan_Coverage.thy ===== *)
theory Scan_Coverage
  imports System_Scan
begin

text \<open>
  What a snapshot of the system contains (\<open>src/privileged_helper/system/snapshot.rs\<close>): the limits of a scan, and how
  the descriptors that were observed reach the relations that are built from the snapshot
  (\<open>src/http_server/analysis/relations.rs\<close>).
\<close>

section \<open>The descriptors of a directory\<close>

text \<open>The endpoint of a directory entry, and of all the entries of a process whose identity still holds.\<close>

definition observed_fd :: "ProcessId \<Rightarrow> fd_entry \<Rightarrow> FdEndpoint option" where
  "observed_fd process_id f =
     Option.bind (fd_number f) (\<lambda>number. case fe_meta f of
         Inl _ \<Rightarrow> None
       | Inr meta \<Rightarrow> map_option (\<lambda>fd_kind. fd_endpoint process_id number fd_kind meta (fd_flags f)) (kind_of meta))"

definition entries_of :: "process_scan \<Rightarrow> fd_entry list" where
  "entries_of view = (case pc_dir view of Inr fs \<Rightarrow> fs | Inl _ \<Rightarrow> [])"

definition process_endpoints :: "(ProcessId \<Rightarrow> process_scan) \<Rightarrow> ProcessId \<Rightarrow> FdEndpoint list" where
  "process_endpoints views process_id =
     (case validate_process_identity (pc_stat_after (views process_id)) process_id of
        Inr _ \<Rightarrow> List.map_filter (observed_fd process_id) (entries_of (views process_id))
      | Inl _ \<Rightarrow> [])"

lemma observed_fd_fields:
  assumes "observed_fd process_id f = Some p"
  shows "fde_process_id p = process_id" "fde_fd_count p = 1" "fd_number f = Some (fde_fd p)"
  using assms by (cases "fe_meta f"; auto simp: observed_fd_def fd_endpoint_def bind_eq_Some_conv)+

lemma observe_socket_keeps:
  "observe_socket calls number fd_kind meta reader s = (reader', s') \<Longrightarrow>
     st_owners s' = st_owners s \<and> st_processes s' = st_processes s \<and> st_inspected_fds s' = st_inspected_fds s
     \<and> st_inspected_processes s' = st_inspected_processes s \<and> st_truncated s' = st_truncated s"
  by (auto simp: observe_socket_def split: if_splits prod.splits sum.splits)

text \<open>The part of the state that the descriptors do not change.\<close>

definition scan_kept :: "system_scan \<Rightarrow> system_scan \<Rightarrow> bool" where
  "scan_kept s s' \<longleftrightarrow> st_owners s' = st_owners s \<and> st_processes s' = st_processes s
     \<and> st_inspected_processes s' = st_inspected_processes s \<and> (st_truncated s \<longrightarrow> st_truncated s')
     \<and> (st_inspected_fds s \<le> FD_LIMIT \<longrightarrow> st_inspected_fds s' \<le> FD_LIMIT)"

lemma scan_fds_spec:
  assumes "scan_fds process_id late calls i fs reader s endpoints = (s', es)"
  shows "scan_kept s s' \<and> (\<exists>k. es = endpoints @ List.map_filter (observed_fd process_id) (take k fs)
           \<and> (\<not> st_truncated s' \<longrightarrow> length fs \<le> k))"
  using assms
proof (induction process_id late calls i fs reader s endpoints rule: scan_fds.induct)
  case (1 process_id late calls i reader s endpoints)
  then show ?case by (auto simp: scan_kept_def List.map_filter_def)
next
  case (2 process_id late calls i f fs reader s endpoints)
  show ?case
  proof (cases "FD_LIMIT \<le> st_inspected_fds s \<or> late i")
    case True
    then have "s' = s\<lparr>st_truncated := True\<rparr>" "es = endpoints" using "2.prems" by auto
    then show ?thesis by (auto simp: scan_kept_def List.map_filter_def intro: exI [of _ 0])
  next
    case False
    define s1 where "s1 = s\<lparr>st_inspected_fds := st_inspected_fds s + 1\<rparr>"
    have below: "st_inspected_fds s + 1 \<le> FD_LIMIT" using False by (simp add: inc_le not_le)
    have step: ?thesis
      if run: "scan_fds process_id late calls (Suc i) fs reader' s2 endpoints' = (s', es)"
        and ih: "scan_kept s2 s' \<and> (\<exists>k. es = endpoints' @ List.map_filter (observed_fd process_id) (take k fs)
           \<and> (\<not> st_truncated s' \<longrightarrow> length fs \<le> k))"
        and kept: "st_owners s2 = st_owners s" "st_processes s2 = st_processes s" "st_truncated s2 = st_truncated s"
          "st_inspected_processes s2 = st_inspected_processes s" "st_inspected_fds s2 = st_inspected_fds s + 1"
        and new: "endpoints' = endpoints @ (case observed_fd process_id f of Some p \<Rightarrow> [p] | None \<Rightarrow> [])"
      for reader' s2 endpoints'
    proof -
      obtain k where k: "es = endpoints' @ List.map_filter (observed_fd process_id) (take k fs)"
          "\<not> st_truncated s' \<longrightarrow> length fs \<le> k" using ih by blast
      have "scan_kept s s'" using ih kept below by (simp add: scan_kept_def)
      moreover have "es = endpoints @ List.map_filter (observed_fd process_id) (take (Suc k) (f # fs))"
        unfolding k(1) new by (cases "observed_fd process_id f") (simp_all add: List.map_filter_def)
      ultimately show ?thesis using k(2) by (metis Suc_le_mono length_Cons)
    qed
    show ?thesis
    proof (cases "fd_number f")
      case None
      then have run: "scan_fds process_id late calls (Suc i) fs reader s1 endpoints = (s', es)"
        using "2.prems" False None by (simp add: Let_def s1_def)
      show ?thesis
        by (rule step [OF run "2.IH"(1) [OF False s1_def None run]]) (simp_all add: s1_def observed_fd_def None)
    next
      case number: (Some number)
      show ?thesis
      proof (cases "fe_meta f")
        case (Inl errno)
        define s2 where "s2 = (if permission_denied errno then s1\<lparr>st_denied := Suc (st_denied s1)\<rparr> else s1)"
        have run: "scan_fds process_id late calls (Suc i) fs reader s2 endpoints = (s', es)"
          using "2.prems" False number Inl
          by (cases "permission_denied errno") (simp_all add: Let_def s1_def s2_def)
        show ?thesis
          by (rule step [OF run "2.IH"(2) [OF False s1_def number Inl run [unfolded s2_def], folded s2_def]])
            (simp_all add: s1_def s2_def observed_fd_def number Inl)
      next
        case (Inr meta)
        show ?thesis
        proof (cases "kind_of meta")
          case None
          define s2 where "s2 = (if fm_kind meta = CharDevice
              then s1\<lparr>st_device_handles := st_device_handles s1 @ [(process_id, number, fm_rdev meta)]\<rparr> else s1)"
          have run: "scan_fds process_id late calls (Suc i) fs reader s2 endpoints = (s', es)"
            using "2.prems" False number Inr None
            by (cases "fm_kind meta = CharDevice") (simp_all add: Let_def s1_def s2_def)
          show ?thesis
            by (rule step [OF run "2.IH"(3) [OF False s1_def number Inr None run [unfolded s2_def], folded s2_def]])
              (simp_all add: s1_def s2_def observed_fd_def number Inr None)
        next
          case (Some fd_kind)
          obtain reader' s2 where seen: "observe_socket calls number fd_kind meta reader s1 = (reader', s2)" by fastforce
          have run: "scan_fds process_id late calls (Suc i) fs reader' s2
              (endpoints @ [fd_endpoint process_id number fd_kind meta (fd_flags f)]) = (s', es)"
            using "2.prems" False number Inr Some seen by (simp add: Let_def s1_def)
          show ?thesis
            by (rule step [OF run "2.IH"(4) [OF False s1_def number Inr Some seen [symmetric] run]])
              (use observe_socket_keeps [OF seen] in \<open>simp_all add: s1_def observed_fd_def number Inr Some\<close>)
        qed
      qed
    qed
  qed
qed

section \<open>The processes\<close>

lemma namespace_table_kept: "scan_kept s (read_namespace_table net ns entry s)"
  by (cases entry) (auto simp: read_namespace_table_def scan_kept_def Let_def split: sum.splits)

lemma namespace_tables_kept: "scan_kept s (fold (read_namespace_table net ns) entries s)"
proof (induction entries arbitrary: s)
  case Nil
  then show ?case by (simp add: scan_kept_def)
next
  case (Cons e es)
  from Cons.IH [of "read_namespace_table net ns e s"] namespace_table_kept [of s net ns e] show ?case
    by (auto simp: scan_kept_def)
qed

lemma scan_namespace_kept: "scan_kept s (scan_namespace view process_id s)"
proof (cases "pc_namespace view")
  case None
  then show ?thesis by (simp add: scan_namespace_def scan_kept_def)
next
  case (Some ns)
  have "scan_kept s (s1\<lparr>st_infos := i\<rparr>)" if "scan_kept s0 s1" "scan_kept s s0" for s0 s1 i
    using that by (auto simp: scan_kept_def)
  from this [OF namespace_tables_kept] Some show ?thesis
    by (auto simp: scan_namespace_def Let_def scan_kept_def split: option.split)
qed

lemma scan_directory_spec:
  assumes "scan_directory view process_id s = (s', es)"
  shows "st_owners s' = st_owners s \<and> st_processes s' = st_processes s \<and> (st_truncated s \<longrightarrow> st_truncated s')
     \<and> (st_inspected_fds s \<le> FD_LIMIT \<longrightarrow> st_inspected_fds s' \<le> FD_LIMIT)"
    "\<exists>k. es = List.map_filter (observed_fd process_id) (take k (entries_of view))
       \<and> (\<not> st_truncated s' \<longrightarrow> length (entries_of view) \<le> k)"
proof -
  have "st_owners s' = st_owners s \<and> st_processes s' = st_processes s \<and> (st_truncated s \<longrightarrow> st_truncated s')
     \<and> (st_inspected_fds s \<le> FD_LIMIT \<longrightarrow> st_inspected_fds s' \<le> FD_LIMIT)
     \<and> (\<exists>k. es = List.map_filter (observed_fd process_id) (take k (entries_of view))
       \<and> (\<not> st_truncated s' \<longrightarrow> length (entries_of view) \<le> k))"
  proof (cases "pc_dir view")
    case (Inl errno)
    then show ?thesis using assms by (auto simp: scan_directory_def entries_of_def List.map_filter_def)
  next
    case (Inr fs)
    then have "scan_fds process_id (pc_late_fd view) (pc_calls view) 0 fs (SocketMetadataReader_new process_id)
        (s\<lparr>st_inspected_processes := st_inspected_processes s + 1\<rparr>) [] = (s', es)"
      using assms by (simp add: scan_directory_def)
    from scan_fds_spec [OF this] Inr show ?thesis by (simp add: scan_kept_def entries_of_def)
  qed
  then show "st_owners s' = st_owners s \<and> st_processes s' = st_processes s \<and> (st_truncated s \<longrightarrow> st_truncated s')
     \<and> (st_inspected_fds s \<le> FD_LIMIT \<longrightarrow> st_inspected_fds s' \<le> FD_LIMIT)"
    "\<exists>k. es = List.map_filter (observed_fd process_id) (take k (entries_of view))
       \<and> (\<not> st_truncated s' \<longrightarrow> length (entries_of view) \<le> k)" by blast+
qed

text \<open>What one process adds: endpoints for its owners and, if it is still the same process, itself.\<close>

lemma scan_process_spec:
  assumes s': "s' = scan_process views identities x s"
  obtains k where
    "st_owners s' = fold merge_owner (take k (process_endpoints views (psum_identity x))) (st_owners s)"
    "\<not> st_truncated s' \<Longrightarrow> \<not> st_truncated s \<and> length (process_endpoints views (psum_identity x)) \<le> k"
    "st_inspected_fds s \<le> FD_LIMIT \<Longrightarrow> st_inspected_fds s' \<le> FD_LIMIT"
    "st_processes s' = st_processes s
     \<or> (\<exists>n. st_processes s' = st_processes s @ [n] \<and> psnap_identity n = psum_identity x \<and> length (psnap_maps n) \<le> MAPS_LIMIT)"
proof -
  define view where "view = views (psum_identity x)"
  define n where "n = process_from_summary x (parent_of identities x)"
  have n: "psnap_identity n = psum_identity x" "psnap_maps n = []" by (simp_all add: n_def process_from_summary_def)
  show thesis
  proof (cases "pc_late view")
    case True
    then show thesis
      using that [of 0] n unfolding s' scan_process_def Let_def view_def [symmetric] n_def [symmetric] by simp
  next
    case False
    obtain n' clipped where maps: "read_maps view n = (n', clipped)" by fastforce
    then have n': "psnap_identity n' = psum_identity x" "length (psnap_maps n') \<le> MAPS_LIMIT"
      using n by (auto simp: read_maps_def Let_def split: sum.splits)
    define s0 where "s0 = s\<lparr>st_truncated := st_truncated s \<or> clipped\<rparr>"
    obtain s1 es where scan: "scan_directory view (psum_identity x) (scan_namespace view (psum_identity x) s0) = (s1, es)" by fastforce
    have s0: "st_owners s0 = st_owners s" "st_processes s0 = st_processes s" "st_inspected_fds s0 = st_inspected_fds s"
        "st_truncated s \<longrightarrow> st_truncated s0" by (simp_all add: s0_def)
    have kept: "st_owners s1 = st_owners s" "st_processes s1 = st_processes s" "\<not> st_truncated s1 \<longrightarrow> \<not> st_truncated s"
        "st_inspected_fds s \<le> FD_LIMIT \<longrightarrow> st_inspected_fds s1 \<le> FD_LIMIT"
      using scan_directory_spec(1) [OF scan] scan_namespace_kept [of s0 view "psum_identity x"] s0 by (auto simp: scan_kept_def)
    obtain k where k: "es = List.map_filter (observed_fd (psum_identity x)) (take k (entries_of view))"
        "\<not> st_truncated s1 \<longrightarrow> length (entries_of view) \<le> k" using scan_directory_spec(2) [OF scan] by blast
    have run: "s' = (case validate_process_identity (pc_stat_after view) (psum_identity x) of Inl _ \<Rightarrow> s1
        | Inr _ \<Rightarrow> s1\<lparr>st_owners := fold merge_owner es (st_owners s1), st_processes := st_processes s1 @ [n']\<rparr>)"
      using False maps scan unfolding s' scan_process_def Let_def view_def [symmetric] n_def [symmetric] by (simp add: s0_def)
    show thesis
    proof (cases "validate_process_identity (pc_stat_after view) (psum_identity x)")
      case (Inl e)
      then show thesis using that [of 0] kept run by (simp add: process_endpoints_def view_def)
    next
      case (Inr u)
      define whole where "whole = List.map_filter (observed_fd (psum_identity x)) (entries_of view)"
      have whole: "process_endpoints views (psum_identity x) = whole" using Inr by (simp add: process_endpoints_def view_def whole_def)
      have "whole = es @ List.map_filter (observed_fd (psum_identity x)) (drop k (entries_of view))"
        unfolding whole_def k(1) List.map_filter_def by (metis append_take_drop_id filter_append map_append)
      then have es: "es = take (length es) whole" by simp
      have all: "length whole \<le> length es" if "\<not> st_truncated s1" using k that by (simp add: whole_def)
      show thesis
        by (rule that [of "length es"]) (use es [symmetric] all kept run Inr n' in \<open>auto simp: whole\<close>)
    qed
  qed
qed

text \<open>The endpoints of the processes scanned so far, with a prefix of each directory.\<close>

definition scan_ok :: "(ProcessId \<Rightarrow> process_scan) \<Rightarrow> ProcessSummary list \<Rightarrow> FdEndpoint list \<Rightarrow> system_scan \<Rightarrow> bool" where
  "scan_ok views xs ps s \<longleftrightarrow>
     grouped ps (st_owners s)
     \<and> (\<forall>p\<in>set ps. \<exists>x\<in>set xs. p \<in> set (process_endpoints views (psum_identity x)))
     \<and> (\<not> st_truncated s \<longrightarrow> (\<forall>x\<in>set xs. set (process_endpoints views (psum_identity x)) \<subseteq> set ps))
     \<and> (distinct (map psum_identity xs)
        \<and> (\<forall>x\<in>set xs. distinct (map end_key (process_endpoints views (psum_identity x)))) \<longrightarrow> distinct (map end_key ps))
     \<and> st_inspected_fds s \<le> FD_LIMIT
     \<and> (\<forall>n\<in>set (st_processes s). psnap_identity n \<in> psum_identity ` set xs \<and> length (psnap_maps n) \<le> MAPS_LIMIT)
     \<and> length (st_processes s) \<le> length xs"

lemma process_endpoints_fields:
  assumes "p \<in> set (process_endpoints views process_id)"
  shows "fde_process_id p = process_id" "fde_fd_count p = 1"
  using assms by (auto simp: process_endpoints_def List.map_filter_def observed_fd_fields split: sum.splits)

lemma scan_ok_step:
  assumes ok: "scan_ok views xs ps s" and s': "s' = scan_process views identities x s"
  shows "\<exists>ps'. scan_ok views (xs @ [x]) ps' s'"
proof -
  obtain k where k:
      "st_owners s' = fold merge_owner (take k (process_endpoints views (psum_identity x))) (st_owners s)"
      "\<not> st_truncated s' \<Longrightarrow> \<not> st_truncated s \<and> length (process_endpoints views (psum_identity x)) \<le> k"
      "st_inspected_fds s \<le> FD_LIMIT \<Longrightarrow> st_inspected_fds s' \<le> FD_LIMIT"
      "st_processes s' = st_processes s
       \<or> (\<exists>n. st_processes s' = st_processes s @ [n] \<and> psnap_identity n = psum_identity x \<and> length (psnap_maps n) \<le> MAPS_LIMIT)"
    using scan_process_spec [OF s'] by metis
  define new where "new = take k (process_endpoints views (psum_identity x))"
  have new: "p \<in> set (process_endpoints views (psum_identity x))" if "p \<in> set new" for p
    using that in_set_takeD unfolding new_def by metis
  have one: "\<forall>p\<in>set new. fde_fd_count p = 1" using new process_endpoints_fields by blast
  have "grouped (ps @ new) (st_owners s')"
    using grouped_all [OF _ one] ok unfolding k(1) new_def [symmetric] by (simp add: scan_ok_def)
  moreover have "\<forall>p\<in>set (ps @ new). \<exists>y\<in>set (xs @ [x]). p \<in> set (process_endpoints views (psum_identity y))"
    using ok new by (auto simp: scan_ok_def)
  moreover have "\<forall>y\<in>set (xs @ [x]). set (process_endpoints views (psum_identity y)) \<subseteq> set (ps @ new)" if "\<not> st_truncated s'"
    using ok k(2) [OF that] by (auto simp: scan_ok_def new_def)
  moreover have "distinct (map end_key (ps @ new))"
    if d: "distinct (map psum_identity (xs @ [x]))"
      "\<forall>y\<in>set (xs @ [x]). distinct (map end_key (process_endpoints views (psum_identity y)))"
  proof -
    have "distinct (map end_key new)" using d(2) unfolding new_def take_map [symmetric] by (simp add: distinct_take)
    moreover have "distinct (map end_key ps)" using ok d by (simp add: scan_ok_def)
    moreover have "end_key p \<noteq> end_key q" if pq: "p \<in> set ps" "q \<in> set new" for p q
    proof -
      obtain y where y: "y \<in> set xs" "p \<in> set (process_endpoints views (psum_identity y))" using ok pq(1) unfolding scan_ok_def by blast
      have "psum_identity x \<notin> psum_identity ` set xs" using d(1) by simp
      then have "psum_identity y \<noteq> psum_identity x" using y(1) by (metis imageI)
      then show ?thesis using process_endpoints_fields(1) [OF y(2)] process_endpoints_fields(1) [OF new [OF pq(2)]]
        by (simp add: end_key_def)
    qed
    ultimately show ?thesis by fastforce
  qed
  moreover have "st_inspected_fds s' \<le> FD_LIMIT" using ok k(3) by (simp add: scan_ok_def)
  moreover have "\<forall>n\<in>set (st_processes s'). psnap_identity n \<in> psum_identity ` set (xs @ [x]) \<and> length (psnap_maps n) \<le> MAPS_LIMIT"
      "length (st_processes s') \<le> length (xs @ [x])"
    using ok k(4) by (auto simp: scan_ok_def)
  ultimately show ?thesis unfolding scan_ok_def by blast
qed

lemma scan_ok_all:
  "scan_ok views done ps s \<Longrightarrow> \<exists>ps'. scan_ok views (done @ xs) ps' (fold (scan_process views identities) xs s)"
proof (induction xs arbitrary: "done" ps s)
  case Nil
  then show ?case by auto
next
  case (Cons x xs)
  obtain ps' where "scan_ok views (done @ [x]) ps' (scan_process views identities x s)"
    using scan_ok_step [OF Cons.prems refl] by blast
  from Cons.IH [OF this] show ?case by simp
qed

lemma scan_all_ok: "\<exists>ps. scan_ok views summaries ps (scan_all views summaries warnings)"
proof -
  have "scan_ok views [] [] (scan_start warnings)" by (simp add: scan_ok_def scan_start_def grouped_start FD_LIMIT_def)
  from scan_ok_all [OF this] show ?thesis by (simp add: scan_all_def)
qed

section \<open>The snapshot\<close>

definition scan_limit_text :: rstring where
  "scan_limit_text = lit ''Scan, mapping, or connection limit reached. Some process or FD information is missing.''"

lemma collected:
  assumes "sw_processes w = Inr xs" "s = collect_system_snapshot w"
  obtains warnings where "sys_processes s = st_processes (scan_all (sw_view w) xs warnings)"
    "sys_inspected_fds s = st_inspected_fds (scan_all (sw_view w) xs warnings)"
    "sys_raw_owners s = reordered (sw_owner_order w) (st_owners (scan_all (sw_view w) xs warnings))"
    "sys_fd_relations s = []"
    "st_truncated (scan_all (sw_view w) xs warnings) \<longrightarrow> scan_limit_text \<in> set (sys_warnings s)"
proof -
  define warnings where "warnings = (if hwf_truncated (sw_hardware w) then [lit ''Hardware acquisition size limit reached''] else [])"
  define st where "st = scan_all (sw_view w) xs warnings"
  define s0 where "s0 = SystemSnapshot_default\<lparr>sys_captured_at := sw_captured_at w, sys_raw_hardware := sw_hardware w, sys_warnings := warnings\<rparr>"
  define s1 where "s1 = scanned_snapshot w s0 st"
  have s1: "sys_processes s1 = st_processes st" "sys_inspected_fds s1 = st_inspected_fds st"
      "sys_raw_owners s1 = reordered (sw_owner_order w) (st_owners st)" "sys_fd_relations s1 = []"
    by (simp_all add: s1_def scanned_snapshot_def s0_def SystemSnapshot_default_def split: prod.split)
  have gids: "sys_processes (add_remote_gids w t) = sys_processes t" "sys_inspected_fds (add_remote_gids w t) = sys_inspected_fds t"
      "sys_raw_owners (add_remote_gids w t) = sys_raw_owners t" "sys_fd_relations (add_remote_gids w t) = sys_fd_relations t" for t
    by (simp_all add: add_remote_gids_def split: option.split sum.split)
  have s: "s = (add_rdma w (add_remote_gids w s1))\<lparr>sys_warnings := sys_warnings (add_rdma w (add_remote_gids w s1)) @ limit_warnings st\<rparr>"
    by (simp add: assms collect_system_snapshot_def Let_def s1_def s0_def st_def warnings_def)
  have "sys_processes s = st_processes st" "sys_inspected_fds s = st_inspected_fds st"
      "sys_raw_owners s = reordered (sw_owner_order w) (st_owners st)" "sys_fd_relations s = []"
      "st_truncated st \<longrightarrow> scan_limit_text \<in> set (sys_warnings s)"
    using gids s1 by (simp_all add: s add_rdma_def Let_def limit_warnings_def scan_limit_text_def)
  then show thesis by (intro that [of warnings]) (simp_all add: st_def)
qed

text \<open>
  C38: A snapshot stays within the limits of the scan: at most 100000 directory entries were inspected, no process has more
  than 4096 mappings, and the processes are among the listed ones, each kept at most as often as it was listed.
\<close>

theorem snapshot_within_limits:
  "sys_inspected_fds (collect_system_snapshot w) \<le> 100000
   \<and> list_all (\<lambda>n. length (psnap_maps n) \<le> 4096) (sys_processes (collect_system_snapshot w))
   \<and> (case sw_processes w of
        Inl _ \<Rightarrow> sys_processes (collect_system_snapshot w) = []
      | Inr xs \<Rightarrow> length (sys_processes (collect_system_snapshot w)) \<le> length xs
          \<and> list_all (\<lambda>n. psnap_identity n \<in> set (map psum_identity xs)) (sys_processes (collect_system_snapshot w)))"
proof (cases "sw_processes w")
  case (Inl e)
  then show ?thesis by (simp add: collect_system_snapshot_def Let_def SystemSnapshot_default_def)
next
  case (Inr xs)
  obtain warnings where c: "sys_processes (collect_system_snapshot w) = st_processes (scan_all (sw_view w) xs warnings)"
      "sys_inspected_fds (collect_system_snapshot w) = st_inspected_fds (scan_all (sw_view w) xs warnings)"
    using collected [OF Inr refl] by metis
  from scan_all_ok [of "sw_view w" xs warnings] show ?thesis
    by (auto simp: c Inr scan_ok_def list_all_iff FD_LIMIT_def MAPS_LIMIT_def)
qed

lemma owner_keys_mset: "mset (owner_keys m) = (\<Sum>x\<in>#mset m. mset (map end_key (snd x)))"
  unfolding owner_keys_def by (induction m) simp_all

lemma owner_keys_reordered:
  assumes "distinct (map fst m)" "\<And>ks. mset (order ks) = mset ks"
  shows "mset (owner_keys (reordered order m)) = mset (owner_keys m)"
  unfolding owner_keys_mset reordered_mset [of m order, OF assms(1) assms(2)] by (rule refl)

lemma map_filter_member: "y \<in> set (List.map_filter f xs) \<Longrightarrow> \<exists>x\<in>set xs. f x = Some y"
  by (auto simp: List.map_filter_def)

lemma observed_keys_distinct:
  "distinct (List.map_filter fd_number fs) \<Longrightarrow> distinct (map end_key (List.map_filter (observed_fd process_id) fs))"
proof (induction fs)
  case Nil
  then show ?case by (simp add: List.map_filter_def)
next
  case (Cons f fs)
  have known: "fde_fd p \<in> set (List.map_filter fd_number fs)" if p: "p \<in> set (List.map_filter (observed_fd process_id) fs)" for p
  proof -
    obtain g where "g \<in> set fs" "observed_fd process_id g = Some p" using map_filter_member [OF p] by blast
    with observed_fd_fields(3) [OF this(2)] show ?thesis by (force simp: List.map_filter_def image_iff)
  qed
  have rest: "distinct (List.map_filter fd_number fs)"
    using Cons.prems by (auto simp: List.map_filter_simps split: option.splits)
  show ?case
  proof (cases "observed_fd process_id f")
    case None
    then show ?thesis using Cons.IH [OF rest] by (simp add: List.map_filter_simps)
  next
    case (Some p)
    have "fde_fd p \<notin> set (List.map_filter fd_number fs)"
      using Cons.prems observed_fd_fields(3) [OF Some] by (simp add: List.map_filter_simps)
    then have "end_key p \<notin> end_key ` set (List.map_filter (observed_fd process_id) fs)" using known by (auto simp: end_key_def)
    then show ?thesis using Some Cons.IH [OF rest] by (simp add: List.map_filter_simps)
  qed
qed

text \<open>The endpoint that stands for an observed one in the owners.\<close>

lemma grouped_stands_for:
  assumes g: "grouped ps owners" and p: "p \<in> set ps"
  obtains q where "q \<in> set ps" "end_key q \<in> set (owner_keys owners)" "hold q = hold p" "fde_resource q = fde_resource p"
    "fde_fd q \<le> fde_fd p"
proof -
  define r where "r = fde_resource p"
  have ok: "list_ok r ps (owners_at owners r)" using g by (simp add: grouped_def)
  then have "hold p \<in> hold ` set (owners_at owners r)" using p by (auto simp: list_ok_def r_def)
  then obtain e where e: "e \<in> set (owners_at owners r)" "hold e = hold p" by (metis imageE)
  then obtain es where "map_of owners r = Some es" "e \<in> set es" by (cases "map_of owners r") (auto simp: owners_at_def)
  then have entry: "(r, es) \<in> set owners" "e \<in> set es" by (auto dest: map_of_SomeD)
  define gs where "gs = filter (\<lambda>q. fde_resource q = r \<and> hold q = hold e) ps"
  have "fde_fd e = Min (fde_fd ` set gs)" using ok e(1) by (simp add: list_ok_def merged_def gs_def)
  moreover have "fde_fd p \<in> fde_fd ` set gs" using p e(2) by (simp add: gs_def r_def)
  ultimately have le: "fde_fd e \<le> fde_fd p" by simp
  obtain q where q: "q \<in> set ps" "end_key q = end_key e" "fde_resource q = r" "hold q = hold e"
    using grouped_entry [OF g entry] by metis
  have "end_key e \<in> set (owner_keys owners)" using entry by (force simp: owner_keys_def)
  then show thesis using q le e(2) by (intro that [of q]) (simp_all add: r_def end_key_def)
qed

text \<open>
  C36: From the descriptors in \<open>/proc\<close> to the relations: for a scan of distinct processes whose directories list a number
  once, the relations built from the snapshot have distinct identifiers and stay within their limit; and if neither the
  scan nor the construction reports a limit, every socket and every pipe end of a process that kept its identity is an end
  of a relation, by the lowest descriptor that its process has of the same resource with the same access.
\<close>

theorem descriptors_reach_relations:
  assumes "sw_processes w = Inr xs" "distinct (map psum_identity xs)"
    and "\<And>x. x \<in> set xs \<Longrightarrow> distinct (List.map_filter fd_number (entries_of (sw_view w (psum_identity x))))"
    and "\<And>ks. mset (sw_owner_order w ks) = mset ks" "\<And>ks. mset (by_owner ks) = mset ks"
    and "build_ipc_relations by_owner by_socket (collect_system_snapshot w) = (truncated, s')"
  shows "distinct (map rel_id (sys_fd_relations s')) \<and> length (sys_fd_relations s') \<le> 20064
    \<and> (\<not> truncated \<and> scan_limit_text \<notin> set (sys_warnings (collect_system_snapshot w)) \<longrightarrow>
        (\<forall>x\<in>set xs. \<forall>p\<in>set (process_endpoints (sw_view w) (psum_identity x)).
           \<exists>q\<in>set (process_endpoints (sw_view w) (psum_identity x)).
             fde_resource q = fde_resource p \<and> fde_access q = fde_access p \<and> fde_fd q \<le> fde_fd p
             \<and> (\<exists>r\<in>set (sys_fd_relations s').
                  end_key (rel_endpoint r) = end_key q \<or> (\<exists>e. rel_peer r = Some e \<and> end_key e = end_key q))))"
proof -
  obtain warnings where c:
      "sys_raw_owners (collect_system_snapshot w) = reordered (sw_owner_order w) (st_owners (scan_all (sw_view w) xs warnings))"
      "sys_fd_relations (collect_system_snapshot w) = []"
      "st_truncated (scan_all (sw_view w) xs warnings) \<longrightarrow> scan_limit_text \<in> set (sys_warnings (collect_system_snapshot w))"
    using collected [OF assms(1) refl] by metis
  define st where "st = scan_all (sw_view w) xs warnings"
  obtain ps where ok: "scan_ok (sw_view w) xs ps st" using scan_all_ok unfolding st_def by blast
  have "distinct (map end_key (process_endpoints (sw_view w) (psum_identity x)))" if "x \<in> set xs" for x
    using observed_keys_distinct [OF assms(3) [OF that]] by (simp add: process_endpoints_def split: sum.split)
  then have keys: "distinct (map end_key ps)" using ok assms(2) by (simp add: scan_ok_def)
  have g: "grouped ps (st_owners st)" using ok by (simp add: scan_ok_def)
  then have fst: "distinct (map fst (st_owners st))" by (simp add: grouped_def)
  note same = owner_keys_reordered [OF fst assms(4)]
  have "distinct (owner_keys (sys_raw_owners (collect_system_snapshot w)))"
    using mset_eq_imp_distinct_iff [OF same] grouped_keys [OF g keys] by (simp add: c(1) st_def)
  moreover have "distinct (map fst (sys_raw_owners (collect_system_snapshot w)))"
    using reordered_map_of(2) [of "st_owners st" "sw_owner_order w", OF fst assms(4)] by (simp add: c(1) st_def)
  ultimately have r: "distinct (map rel_id (sys_fd_relations s')) \<and> length (sys_fd_relations s') \<le> 20064
    \<and> (\<not> truncated \<longrightarrow> (\<forall>k\<in>set (owner_keys (st_owners st)). \<exists>r\<in>set (sys_fd_relations s').
         end_key (rel_endpoint r) = k \<or> (\<exists>p. rel_peer r = Some p \<and> end_key p = k)))"
    using relations_numbered [OF _ _ c(2) assms(5,6)] mset_eq_setD [OF same] by (simp add: c(1) st_def)
  have found: "\<exists>q\<in>set (process_endpoints (sw_view w) (psum_identity x)). fde_resource q = fde_resource p
      \<and> fde_access q = fde_access p \<and> fde_fd q \<le> fde_fd p \<and> end_key q \<in> set (owner_keys (st_owners st))"
    if "\<not> st_truncated st" and x: "x \<in> set xs" and p: "p \<in> set (process_endpoints (sw_view w) (psum_identity x))" for x p
  proof -
    have "p \<in> set ps" using ok that by (auto simp: scan_ok_def)
    then obtain q where q: "q \<in> set ps" "end_key q \<in> set (owner_keys (st_owners st))" "hold q = hold p"
        "fde_resource q = fde_resource p" "fde_fd q \<le> fde_fd p" using grouped_stands_for [OF g] by metis
    have "\<forall>p\<in>set ps. \<exists>y\<in>set xs. p \<in> set (process_endpoints (sw_view w) (psum_identity y))" using ok by (simp add: scan_ok_def)
    with q(1) obtain y where "y \<in> set xs" and y: "q \<in> set (process_endpoints (sw_view w) (psum_identity y))" by blast
    have "psum_identity y = psum_identity x"
      using process_endpoints_fields(1) [OF y] process_endpoints_fields(1) [OF p] q(3) by (simp add: hold_def)
    with y q show ?thesis by (intro bexI [of _ q]) (simp_all add: hold_def)
  qed
  show ?thesis
  proof (intro conjI impI ballI)
    show "distinct (map rel_id (sys_fd_relations s'))" "length (sys_fd_relations s') \<le> 20064" using r by simp_all
    fix x p assume none: "\<not> truncated \<and> scan_limit_text \<notin> set (sys_warnings (collect_system_snapshot w))"
      and xp: "x \<in> set xs" "p \<in> set (process_endpoints (sw_view w) (psum_identity x))"
    then have "\<not> st_truncated st" using c(3) by (auto simp: st_def)
    from found [OF this xp] none r
    show "\<exists>q\<in>set (process_endpoints (sw_view w) (psum_identity x)).
        fde_resource q = fde_resource p \<and> fde_access q = fde_access p \<and> fde_fd q \<le> fde_fd p
        \<and> (\<exists>r\<in>set (sys_fd_relations s').
             end_key (rel_endpoint r) = end_key q \<or> (\<exists>e. rel_peer r = Some e \<and> end_key e = end_key q))" by metis
  qed
qed

section \<open>A pipe between two processes\<close>

definition scanned_fd :: "string \<Rightarrow> string \<Rightarrow> fd_entry" where
  "scanned_fd number flags = \<lparr>fe_name = as_bytes (lit number),
     fe_meta = Inr \<lparr>fm_kind = FifoFile, fm_dev = 14, fm_ino = 99, fm_rdev = 0\<rparr>, fe_info = Inr (as_bytes (lit ''flags: '' @ lit flags))\<rparr>"

definition scanned_summary :: "i32 \<Rightarrow> ProcessSummary" where
  "scanned_summary pid = \<lparr>psum_identity = \<lparr>pid_pid = pid, pid_start_time_ticks = 7\<rparr>, psum_parent_pid = 1, psum_name = lit ''demo'',
     psum_executable = None, psum_command_line = None, psum_uid = None, psum_username = None, psum_euid = None,
     psum_effective_username = None, psum_state = lit ''S'', psum_started_at = None, psum_cpu_percent = None, psum_rss_bytes = 0,
     psum_thread_count = 1, psum_raw_ticks = 0, psum_raw_measured_ns = 0\<rparr>"

text \<open>Process 10 writes to the pipe, process 11 reads from it.\<close>

definition scanned_view :: "ProcessId \<Rightarrow> process_scan" where
  "scanned_view p = \<lparr>pc_late = False, pc_epoch = 0, pc_maps = Inr [], pc_namespace = None, pc_opened = None,
     pc_net = \<lparr>nv_table = (\<lambda>_. Inl []), nv_peers = Inl []\<rparr>,
     pc_dir = Inr [if pid_pid p = 10 then scanned_fd ''1'' ''01'' else scanned_fd ''0'' ''00''],
     pc_late_fd = (\<lambda>_. False), pc_calls = (\<lambda>_. sample_socket_calls), pc_stat_after = Inr (sample_metadata_stat\<lparr>stat_start_time := 7\<rparr>)\<rparr>"

definition scanned_world :: system_world where
  "scanned_world = \<lparr>sw_captured_at = 0, sw_hardware = \<lparr>hwf_truncated = False, hwf_texts = [], hwf_directories = [], hwf_links = []\<rparr>,
     sw_processes = Inr [scanned_summary 10, scanned_summary 11], sw_view = scanned_view, sw_late_peer = (\<lambda>_. False),
     sw_peers = (\<lambda>_. Inl []), sw_hostname = (\<lambda>_. None), sw_sysfs = \<lparr>sv_names = (\<lambda>_. []), sv_file = (\<lambda>_. None)\<rparr>, sw_sys = [],
     sw_own_namespace = None, sw_neighbors = Inr [],
     sw_rdma = \<lparr>rw_open = Inr (), rw_dump = (\<lambda>_. Inr []), rw_late = (\<lambda>_. False), rw_text = (\<lambda>_. [])\<rparr>,
     sw_rdma_neighbors = Inr [], sw_rdma_hostname = (\<lambda>_. None), sw_metadata_order = id, sw_owner_order = id, sw_ip_order = id,
     sw_socket_order = id\<rparr>"

lemma scanned_fd_number:
  "fd_number (scanned_fd ''1'' fl) = Some 1" "fd_number (scanned_fd ''0'' fl) = Some 0"
  by (simp_all add: scanned_fd_def fd_number_def lit_map_ch parse_u32_def parse_unsigned_def to_digit_def)

lemma scanned_fd_flags: "fd_flags (scanned_fd n ''00'') = 0" "fd_flags (scanned_fd n ''01'') = 1"
  unfolding scanned_fd_def fd_flags_def fd_entry.simps flags_text sum.case
  by (simp_all add: lit_map_ch procfs_fields_def text_lines_def strip_cr_def map_filter_simps trim_def trim_start_def trim_end_def
      is_whitespace_def octal_u32_def parse_unsigned_def to_digit_def)

lemma scanned_fd_meta [simp]: "fe_meta (scanned_fd n fl) = Inr \<lparr>fm_kind = FifoFile, fm_dev = 14, fm_ino = 99, fm_rdev = 0\<rparr>"
  by (simp add: scanned_fd_def)

lemma scanned_ends:
  "observed_fd \<lparr>pid_pid = 10, pid_start_time_ticks = 7\<rparr> (scanned_fd ''1'' ''01'') = Some (pipe_end 10 1 FdAccess.Write)"
  "observed_fd \<lparr>pid_pid = 11, pid_start_time_ticks = 7\<rparr> (scanned_fd ''0'' ''00'') = Some (pipe_end 11 0 FdAccess.Read)"
  by (simp_all add: observed_fd_def scanned_fd_number scanned_fd_flags fd_endpoint_def fd_resource_def kind_of_def pipe_end_def
      DeviceId_from_stat_def FdAccess_from_flags_def FdAccess_from_mode_def O_PATH_def O_ACCMODE_def)

lemma scanned_view_fields: "pc_stat_after (scanned_view p) = Inr (sample_metadata_stat\<lparr>stat_start_time := 7\<rparr>)"
  by (simp add: scanned_view_def)

lemma scanned_views:
  "entries_of (scanned_view \<lparr>pid_pid = 10, pid_start_time_ticks = 7\<rparr>) = [scanned_fd ''1'' ''01'']"
  "entries_of (scanned_view \<lparr>pid_pid = 11, pid_start_time_ticks = 7\<rparr>) = [scanned_fd ''0'' ''00'']"
  by (simp_all add: entries_of_def scanned_view_def)

lemma scanned_identity:
  "validate_process_identity (Inr (sample_metadata_stat\<lparr>stat_start_time := 7\<rparr>)) \<lparr>pid_pid = 10, pid_start_time_ticks = 7\<rparr> = Inr ()"
  "validate_process_identity (Inr (sample_metadata_stat\<lparr>stat_start_time := 7\<rparr>)) \<lparr>pid_pid = 11, pid_start_time_ticks = 7\<rparr> = Inr ()"
  by (simp_all add: validate_process_identity_def sample_metadata_stat_def lit_map_ch)

lemma scanned_owners:
  "st_owners (scan_all scanned_view [scanned_summary 10, scanned_summary 11] warnings) =
     [(fde_resource (pipe_end 10 1 FdAccess.Write), [pipe_end 10 1 FdAccess.Write, pipe_end 11 0 FdAccess.Read])]"
  "\<not> st_truncated (scan_all scanned_view [scanned_summary 10, scanned_summary 11] warnings)"
  "st_denied (scan_all scanned_view [scanned_summary 10, scanned_summary 11] warnings) = 0"
  "st_warnings (scan_all scanned_view [scanned_summary 10, scanned_summary 11] warnings) = warnings"
  "st_network_namespaces (scan_all scanned_view [scanned_summary 10, scanned_summary 11] warnings) = []"
proof -
  have e: "fd_endpoint \<lparr>pid_pid = 10, pid_start_time_ticks = 7\<rparr> 1 FdKind.Pipe \<lparr>fm_kind = FifoFile, fm_dev = 14, fm_ino = 99, fm_rdev = 0\<rparr> 1
        = pipe_end 10 1 FdAccess.Write"
      "fd_endpoint \<lparr>pid_pid = 11, pid_start_time_ticks = 7\<rparr> 0 FdKind.Pipe \<lparr>fm_kind = FifoFile, fm_dev = 14, fm_ino = 99, fm_rdev = 0\<rparr> 0
        = pipe_end 11 0 FdAccess.Read"
    using scanned_ends by (simp_all add: observed_fd_def scanned_fd_number scanned_fd_flags kind_of_def)
  have fds: "scan_fds \<lparr>pid_pid = 10, pid_start_time_ticks = 7\<rparr> (\<lambda>_. False) c i [scanned_fd ''1'' ''01''] reader s []
        = (s\<lparr>st_inspected_fds := st_inspected_fds s + 1\<rparr>, [pipe_end 10 1 FdAccess.Write])"
      "scan_fds \<lparr>pid_pid = 11, pid_start_time_ticks = 7\<rparr> (\<lambda>_. False) c i [scanned_fd ''0'' ''00''] reader s []
        = (s\<lparr>st_inspected_fds := st_inspected_fds s + 1\<rparr>, [pipe_end 11 0 FdAccess.Read])"
    if "st_inspected_fds s < FD_LIMIT" for c i reader s
    using that by (simp_all add: scanned_fd_number scanned_fd_flags kind_of_def observe_socket_def e Let_def not_le)
  show "st_owners (scan_all scanned_view [scanned_summary 10, scanned_summary 11] warnings) =
     [(fde_resource (pipe_end 10 1 FdAccess.Write), [pipe_end 10 1 FdAccess.Write, pipe_end 11 0 FdAccess.Read])]"
     "\<not> st_truncated (scan_all scanned_view [scanned_summary 10, scanned_summary 11] warnings)"
     "st_denied (scan_all scanned_view [scanned_summary 10, scanned_summary 11] warnings) = 0"
     "st_warnings (scan_all scanned_view [scanned_summary 10, scanned_summary 11] warnings) = warnings"
     "st_network_namespaces (scan_all scanned_view [scanned_summary 10, scanned_summary 11] warnings) = []"
    by (simp_all del: scan_fds.simps add: fds scanned_identity scan_all_def scan_process_def scan_start_def scanned_view_def scanned_summary_def Let_def read_maps_def
        scan_namespace_def scan_directory_def merge_owner_def same_holder_def FD_LIMIT_def MAPS_LIMIT_def
        process_from_summary_def)
qed

lemma scanned_snapshot_fields:
  "sys_raw_owners (collect_system_snapshot scanned_world) =
     [(fde_resource (pipe_end 10 1 FdAccess.Write), [pipe_end 10 1 FdAccess.Write, pipe_end 11 0 FdAccess.Read])]"
  "sys_fd_relations (collect_system_snapshot scanned_world) = []" "sys_raw_neighbors (collect_system_snapshot scanned_world) = None"
  "scan_limit_text \<notin> set (sys_warnings (collect_system_snapshot scanned_world))"
proof -
  have w: "sw_processes scanned_world = Inr [scanned_summary 10, scanned_summary 11]" "sw_view scanned_world = scanned_view"
      "sw_owner_order scanned_world = id" "sw_sysfs scanned_world = \<lparr>sv_names = (\<lambda>_. []), sv_file = (\<lambda>_. None)\<rparr>"
      "\<not> hwf_truncated (sw_hardware scanned_world)"
    by (simp_all add: scanned_world_def)
  have quiet: "add_remote_gids scanned_world s = s" "sys_warnings (add_rdma scanned_world s) = sys_warnings s"
      "sys_raw_neighbors (add_rdma scanned_world s) = sys_raw_neighbors s" for s
    by (simp_all add: add_remote_gids_def has_ipoib_interface_def w add_rdma_def Let_def collect_rdma_observation_def
        list_rdma_devices_def list_directory_names_def)
  show "sys_raw_owners (collect_system_snapshot scanned_world) =
     [(fde_resource (pipe_end 10 1 FdAccess.Write), [pipe_end 10 1 FdAccess.Write, pipe_end 11 0 FdAccess.Read])]"
    "sys_fd_relations (collect_system_snapshot scanned_world) = []"
    using collected [OF w(1) refl] by (auto simp: w scanned_owners reordered_def map_filter_simps)
  show "sys_raw_neighbors (collect_system_snapshot scanned_world) = None"
    "scan_limit_text \<notin> set (sys_warnings (collect_system_snapshot scanned_world))"
    by (simp_all add: collect_system_snapshot_def Let_def w quiet limit_warnings_def scanned_owners scanned_snapshot_def
        scanned_infos_def SystemSnapshot_default_def split: prod.split)
qed

lemma scanned_relations:
  "sys_fd_relations (snd (build_ipc_relations id id (collect_system_snapshot scanned_world)))
     = [pair_relation None (pipe_end 10 1 FdAccess.Write) pipe_match]"
  "\<not> fst (build_ipc_relations id id (collect_system_snapshot scanned_world))"
proof -
  have "prepared_owners id infos metadata (sys_raw_owners (collect_system_snapshot scanned_world)) =
     [(fde_resource (pipe_end 10 1 FdAccess.Write), [pipe_end 10 1 FdAccess.Write, pipe_end 11 0 FdAccess.Read])]" for infos metadata
    by (simp add: scanned_snapshot_fields prepared_owners_def hash_map_def reordered_def set_status_def endpoint_order_def
        less_eq_prod_def map_filter_simps)
  note prepared = this
  show "sys_fd_relations (snd (build_ipc_relations id id (collect_system_snapshot scanned_world)))
      = [pair_relation None (pipe_end 10 1 FdAccess.Write) pipe_match]"
      "\<not> fst (build_ipc_relations id id (collect_system_snapshot scanned_world))"
    unfolding build_ipc_relations_def Let_def scanned_snapshot_fields(2,3) prepared pipe_relate_owners by simp_all
qed

text \<open>The reading end of process 11 is covered by the relation that was built.\<close>

theorem descriptors_reach_relations_witness:
  "distinct (map rel_id (sys_fd_relations (snd (build_ipc_relations id id (collect_system_snapshot scanned_world)))))
   \<and> (\<exists>q\<in>{pipe_end 11 0 FdAccess.Read}. \<exists>r\<in>set (sys_fd_relations (snd (build_ipc_relations id id (collect_system_snapshot scanned_world)))).
        end_key (rel_endpoint r) = end_key q \<or> (\<exists>e. rel_peer r = Some e \<and> end_key e = end_key q))"
proof -
  let ?b = "build_ipc_relations id id (collect_system_snapshot scanned_world)"
  have ids: "psum_identity (scanned_summary n) = \<lparr>pid_pid = n, pid_start_time_ticks = 7\<rparr>" for n by (simp add: scanned_summary_def)
  have w: "sw_processes scanned_world = Inr [scanned_summary 10, scanned_summary 11]" "sw_view scanned_world = scanned_view"
      "sw_owner_order scanned_world = id" by (simp_all add: scanned_world_def)
  have "process_endpoints scanned_view \<lparr>pid_pid = 11, pid_start_time_ticks = 7\<rparr> = [pipe_end 11 0 FdAccess.Read]"
    by (simp add: process_endpoints_def scanned_views scanned_ends map_filter_simps scanned_view_fields scanned_identity)
  moreover have "distinct (List.map_filter fd_number (entries_of (scanned_view (psum_identity x))))"
    if "x \<in> set [scanned_summary 10, scanned_summary 11]" for x
    using that by (auto simp: ids scanned_views scanned_fd_number map_filter_simps)
  moreover have "?b = (False, snd ?b)" using scanned_relations(2) by (simp add: prod_eq_iff)
  ultimately show ?thesis
    using descriptors_reach_relations [of scanned_world "[scanned_summary 10, scanned_summary 11]" id id False "snd ?b"]
      scanned_snapshot_fields(4)
    by (simp add: w ids)
qed

end
