(* ===== verification/Device_Views.thy ===== *)
theory Device_Views
  imports Hardware_Paths Scan_Coverage
begin

text \<open>
  The devices of the hardware view and the processes that hold them
  (\<open>src/http_server/analysis/hardware/devices.rs\<close>, \<open>handles.rs\<close> and \<open>observation.rs\<close>), and the observation that
  \<open>src/http_server/processing.rs\<close> makes of a captured snapshot from all analyses. The orders of maps are arguments.
\<close>

section \<open>Devices\<close>

text \<open>\<open>Key: value\<close> lines of \<open>/proc/driver/nvidia/gpus/<address>/information\<close>.\<close>

definition nvidia_information :: "HardwareSources \<Rightarrow> rstring \<Rightarrow> rstring \<Rightarrow> (rstring \<times> rstring) list" where
  "nvidia_information s proc address =
     (let text = (case source_text s (path_join (path_join (path_join proc (lit ''driver/nvidia/gpus'')) address) (lit ''information'')) of
          Some t \<Rightarrow> t | None \<Rightarrow> []) in
      List.map_filter (\<lambda>line. map_option (\<lambda>(key, v). (trim key, trim v)) (split_once (ch CHR '':'') line)) (text_lines text))"

definition shorten_pci_address :: "rstring \<Rightarrow> rstring" where
  "shorten_pci_address address = (case strip_prefix (lit ''0000:'') address of Some rest \<Rightarrow> rest | None \<Rightarrow> address)"

definition padded_hex :: "u32 option \<Rightarrow> nat \<Rightarrow> rstring option" where
  "padded_hex v width = map_option (\<lambda>n. lit ''0x'' @ hex_at_least width (unat n)) v"

text \<open>\<open>trim_start_matches("pci")\<close>.\<close>

fun trim_pci :: "rstring \<Rightarrow> rstring" where
  "trim_pci (a # b # c # s) = (if [a, b, c] = lit ''pci'' then trim_pci s else a # b # c # s)"
| "trim_pci s = s"

definition gpu_vendor_text :: "u32 option \<Rightarrow> rstring" where
  "gpu_vendor_text vendor =
     (if vendor = Some 0x10de then lit ''nvidia'' else if vendor = Some 0x1002 then lit ''amd''
      else if vendor = Some 0x8086 then lit ''intel''
      else case padded_hex vendor 4 of Some text \<Rightarrow> text | None \<Rightarrow> [])"

definition build_gpu :: "HardwareSources \<Rightarrow> PciNode \<Rightarrow> rstring \<Rightarrow> GpuInfo" where
  "build_gpu s node proc =
     (let info = nvidia_information s proc (pn_address node); field = (\<lambda>key. map_of info (lit key)) in
      \<lparr>gpu_vendor = gpu_vendor_text (pn_vendor_id node), gpu_model = field ''Model'', gpu_uuid = field ''GPU UUID'',
       gpu_minor = Option.bind (field ''Device Minor'') parse_u32,
       gpu_drm = filter (\<lambda>n. ch CHR ''-'' \<notin> set n)
         (filter (\<lambda>n. starts_with n (lit ''card'') \<or> starts_with n (lit ''renderD''))
           (source_names s (path_join (pn_path node) (lit ''drm''))))\<rparr>)"

definition rdma_devices_of :: "HardwareSources \<Rightarrow> PciNode \<Rightarrow> RdmaDeviceInfo list" where
  "rdma_devices_of s node =
     (let root = path_join (pn_path node) (lit ''infiniband'') in
      map (\<lambda>name. let dir = path_join root name in
          \<lparr>rdi_name = name, rdi_hca_type = source_text s (path_join dir (lit ''hca_type'')),
           rdi_fw_ver = source_text s (path_join dir (lit ''fw_ver''))\<rparr>) (source_names s root))"

definition device_label :: "PciNode \<Rightarrow> GpuInfo option \<Rightarrow> RdmaDeviceInfo list \<Rightarrow> rstring" where
  "device_label node gpu rdma =
     (let short = shorten_pci_address (pn_address node) in
      case pn_role node of
        HardwareRole.HostBridge \<Rightarrow> lit ''Host bridge '' @ trim_pci (pn_address node)
      | HardwareRole.RootPort \<Rightarrow> lit ''Root port '' @ short
      | HardwareRole.SwitchPort \<Rightarrow> lit ''Switch port '' @ short
      | HardwareRole.Endpoint \<Rightarrow>
          (case pn_kind node of
             Some HardwareKind.Gpu \<Rightarrow> (case Option.bind gpu gpu_model of Some model \<Rightarrow> model | None \<Rightarrow> lit ''GPU '' @ short)
           | Some HardwareKind.Rdma \<Rightarrow>
               if rdma \<noteq> [] then joined (lit '', '') (map rdi_name rdma) else lit ''RDMA NIC '' @ short
           | Some HardwareKind.Accelerator \<Rightarrow> lit ''Accelerator '' @ short
           | Some HardwareKind.NvSwitch \<Rightarrow> lit ''NVSwitch '' @ short
           | None \<Rightarrow> short))"

definition build_hardware_device :: "HardwareSources \<Rightarrow> rstring \<Rightarrow> PciNode \<Rightarrow> HardwareDevice" where
  "build_hardware_device s proc node =
     (let gpu = (if pn_kind node = Some HardwareKind.Gpu then Some (build_gpu s node proc) else None);
          rdma = rdma_devices_of s node in
      \<lparr>hw_address = pn_address node, hw_parent = pn_parent node, hw_role = pn_role node, hw_kind = pn_kind node,
       hw_label = device_label node gpu rdma, hw_class = padded_hex (pn_class node) 6,
       hw_vendor_id = padded_hex (pn_vendor_id node) 4, hw_device_id = padded_hex (pn_device_id node) 4,
       hw_driver = pn_driver node, hw_numa_node = pn_numa_node node, hw_link = pn_link node,
       hw_power_state = pn_power_state node, hw_runtime_status = pn_runtime_status node,
       hw_iommu_group = pn_iommu_group node, hw_bars = pn_bars node, hw_gpu = gpu, hw_rdma = rdma,
       hw_netdevs = (if pn_role node = HardwareRole.Endpoint then source_names s (path_join (pn_path node) (lit ''net'')) else [])\<rparr>)"

section \<open>The hardware observation\<close>

record HardwareObservation =
  ho_devices :: "HardwareDevice list"
  ho_paths :: "HardwarePath list"

text \<open>\<open>None\<close>: the analysis panics or does not return.\<close>

definition HardwareObservation_observe :: "float_ops \<Rightarrow> HardwareSources \<Rightarrow> HardwareObservation option" where
  "HardwareObservation_observe fl s =
     Option.bind (read_topology fl s (hs_sys s)) (\<lambda>nodes.
     map_option (\<lambda>paths. \<lparr>ho_devices = map (build_hardware_device s (hs_proc s)) nodes, ho_paths = paths\<rparr>)
       (build_hardware_paths fl nodes (online_numa_nodes s (hs_sys s))))"

section \<open>Handles\<close>

record DeviceHandleCollector =
  dc_sources :: HardwareSources
  dc_devices :: "rstring set"
  dc_nvidia_major :: "u32 option"
  dc_nvidia_minors :: "u32 \<Rightarrow> rstring option"
  dc_resolved :: "(u64 \<times> (DeviceHandleKind \<times> rstring) option) list"
  dc_handles :: "((ProcessId \<times> DeviceHandleKind \<times> rstring) \<times> u32 \<times> usize) list"

text \<open>The innermost PCI function in a sysfs device path.\<close>

definition function_address :: "rstring \<Rightarrow> rstring option" where
  "function_address path =
     find (\<lambda>part. 12 \<le> length (as_bytes part) \<and> as_bytes part ! (length (as_bytes part) - 2) = 0x2E) (rev (path_components path))"

definition nvidia_major_line :: "rstring \<Rightarrow> u32 option" where
  "nvidia_major_line line =
     Option.bind (split_once (ch CHR '' '') (trim line)) (\<lambda>(major, name).
     if name = lit ''nvidia'' \<or> name = lit ''nvidia-frontend'' then parse_u32 major else None)"

definition first_some :: "('a \<Rightarrow> 'b option) \<Rightarrow> 'a list \<Rightarrow> 'b option" where
  "first_some f xs = (case List.map_filter f xs of [] \<Rightarrow> None | y # _ \<Rightarrow> Some y)"

definition DeviceHandleCollector_new ::
  "HardwareSources \<Rightarrow> rstring set \<Rightarrow> (u32 \<Rightarrow> rstring option) \<Rightarrow> DeviceHandleCollector"
where
  "DeviceHandleCollector_new s devices gpu_minors =
     \<lparr>dc_sources = s, dc_devices = devices,
      dc_nvidia_major = Option.bind (source_text s (path_join (hs_proc s) (lit ''devices''))) (\<lambda>text.
        first_some nvidia_major_line (text_lines text)),
      dc_nvidia_minors = gpu_minors, dc_resolved = [], dc_handles = []\<rparr>"

text \<open>\<open>str::contains\<close> of a text.\<close>

fun contains_text :: "rstring \<Rightarrow> rstring \<Rightarrow> bool" where
  "contains_text needle [] \<longleftrightarrow> needle = []"
| "contains_text needle (c # cs) \<longleftrightarrow> starts_with (c # cs) needle \<or> contains_text needle cs"

definition handle_kind :: "rstring \<Rightarrow> DeviceHandleKind option" where
  "handle_kind text =
     (if contains_text (lit ''/drm/renderD'') text then Some DeviceHandleKind.DrmRender
      else if contains_text (lit ''/drm/card'') text then Some DeviceHandleKind.DrmCard
      else if contains_text (lit ''/infiniband_verbs/'') text then Some DeviceHandleKind.Uverbs
      else if contains_text (lit ''/infiniband_mad/'') text then Some DeviceHandleKind.Umad
      else if contains_text (lit ''/accel/'') text then Some DeviceHandleKind.Accel
      else None)"

definition resolve :: "DeviceHandleCollector \<Rightarrow> u64 \<Rightarrow> (DeviceHandleKind \<times> rstring) option" where
  "resolve c rdev =
     (let major = dev_major (DeviceId_from_stat rdev); minor = dev_minor (DeviceId_from_stat rdev) in
      if Some major = dc_nvidia_major c then map_option (Pair DeviceHandleKind.Nvidia) (dc_nvidia_minors c minor)
      else
        Option.bind (source_link (dc_sources c) (path_join (hs_sys (dc_sources c))
          (lit ''dev/char/'' @ show_dec (unat major) @ lit '':'' @ show_dec (unat minor)))) (\<lambda>path.
        Option.bind (handle_kind path) (\<lambda>handle. map_option (Pair handle) (function_address path))))"

definition resolve_listed :: "DeviceHandleCollector \<Rightarrow> u64 \<Rightarrow> (DeviceHandleKind \<times> rstring) option" where
  "resolve_listed c rdev = Option.bind (resolve c rdev) (\<lambda>(handle, d). if d \<in> dc_devices c then Some (handle, d) else None)"

definition add_handle ::
  "ProcessId \<times> DeviceHandleKind \<times> rstring \<Rightarrow> u32 \<Rightarrow> ((ProcessId \<times> DeviceHandleKind \<times> rstring) \<times> u32 \<times> usize) list
   \<Rightarrow> ((ProcessId \<times> DeviceHandleKind \<times> rstring) \<times> u32 \<times> usize) list"
where
  "add_handle key fd handles =
     (case map_of handles key of
        Some (lowest, number) \<Rightarrow> AList.update key (min lowest fd, number + 1) handles
      | None \<Rightarrow> AList.update key (fd, 1) handles)"

definition observe_handle :: "ProcessId \<Rightarrow> u32 \<Rightarrow> u64 \<Rightarrow> DeviceHandleCollector \<Rightarrow> DeviceHandleCollector" where
  "observe_handle process_id fd rdev c =
     (let c = (if map_of (dc_resolved c) rdev = None
               then c\<lparr>dc_resolved := AList.update rdev (resolve_listed c rdev) (dc_resolved c)\<rparr> else c) in
      case map_of (dc_resolved c) rdev of
        Some (Some (handle, device)) \<Rightarrow> c\<lparr>dc_handles := add_handle (process_id, handle, device) fd (dc_handles c)\<rparr>
      | _ \<Rightarrow> c)"

fun handle_kind_text :: "DeviceHandleKind \<Rightarrow> rstring" where
  "handle_kind_text DeviceHandleKind.Nvidia = lit ''nvidia''"
| "handle_kind_text DeviceHandleKind.DrmRender = lit ''drm_render''"
| "handle_kind_text DeviceHandleKind.DrmCard = lit ''drm_card''"
| "handle_kind_text DeviceHandleKind.Uverbs = lit ''uverbs''"
| "handle_kind_text DeviceHandleKind.Umad = lit ''umad''"
| "handle_kind_text DeviceHandleKind.Accel = lit ''accel''"

definition handle_id :: "ProcessId \<times> DeviceHandleKind \<times> rstring \<Rightarrow> rstring" where
  "handle_id = (\<lambda>(process_id, handle, device).
     show_int (sint (pid_pid process_id)) @ ch CHR '':'' # show_dec (unat (pid_start_time_ticks process_id)) @ ch CHR '':'' #
       handle_kind_text handle @ ch CHR '':'' # device)"

definition handle_of :: "(ProcessId \<times> DeviceHandleKind \<times> rstring) \<times> u32 \<times> usize \<Rightarrow> DeviceHandle" where
  "handle_of = (\<lambda>((process_id, handle, device), fd, number).
     \<lparr>dh_id = handle_id (process_id, handle, device), dh_process_id = process_id, dh_device = device, dh_kind = handle,
      dh_fd = fd, dh_fd_count = number\<rparr>)"

definition finish_handles ::
  "((ProcessId \<times> DeviceHandleKind \<times> rstring) list \<Rightarrow> (ProcessId \<times> DeviceHandleKind \<times> rstring) list)
   \<Rightarrow> ProcessId set \<Rightarrow> DeviceHandleCollector \<Rightarrow> DeviceHandle list"
where
  "finish_handles order live c =
     sort_key dh_id (map handle_of (filter (\<lambda>((process_id, _), _). process_id \<in> live) (reordered order (dc_handles c))))"

definition observation_handles :: "HardwareObservation \<Rightarrow> HardwareSources \<Rightarrow> DeviceHandleCollector" where
  "observation_handles obs s =
     DeviceHandleCollector_new s (hw_address ` set (ho_devices obs))
       (map_of (rev (List.map_filter (\<lambda>d. map_option (\<lambda>minor. (minor, hw_address d)) (Option.bind (hw_gpu d) gpu_minor)) (ho_devices obs))))"

section \<open>The interpreted snapshot\<close>

record analysis_orders =
  ao_owner :: "IpcIdentity list \<Rightarrow> IpcIdentity list"
  ao_socket :: "u64 list \<Rightarrow> u64 list"
  ao_handle :: "(ProcessId \<times> DeviceHandleKind \<times> rstring) list \<Rightarrow> (ProcessId \<times> DeviceHandleKind \<times> rstring) list"

definition relation_hostname :: "(IpAddr \<times> rstring) list \<Rightarrow> FdRelation \<Rightarrow> FdRelation" where
  "relation_hostname hostnames r =
     (case rel_socket r of
        Some s \<Rightarrow> if ske_network_peer s
          then r\<lparr>rel_socket := Some (s\<lparr>ske_remote_hostname := Option.bind (ske_remote s) (\<lambda>a. map_of hostnames (inet_ip a))\<rparr>)\<rparr> else r
      | None \<Rightarrow> r)"

definition scan_limit_warning :: rstring where
  "scan_limit_warning = lit ''Scan, mapping, or connection limit reached. Some process or FD information is missing.''"

definition observe_handles :: "(ProcessId \<times> u32 \<times> u64) list \<Rightarrow> DeviceHandleCollector \<Rightarrow> DeviceHandleCollector" where
  "observe_handles = fold (\<lambda>(process_id, fd, rdev). observe_handle process_id fd rdev)"

definition interpret_snapshot :: "float_ops \<Rightarrow> analysis_orders \<Rightarrow> SystemSnapshot \<Rightarrow> SystemSnapshot option" where
  "interpret_snapshot fl orders s =
     (case build_ipc_relations (ao_owner orders) (ao_socket orders) s of (truncated, s) \<Rightarrow>
      (let s = (if truncated then s\<lparr>sys_warnings := sys_warnings s @ [scan_limit_warning]\<rparr> else s);
           sources = HardwareSources_acquired (sys_raw_hardware s) in
       map_option (\<lambda>hardware.
         let handles = observe_handles (sys_raw_device_handles s) (observation_handles hardware sources);
             live = psnap_identity ` set (sys_processes s) in
         s\<lparr>sys_raw_hardware := \<lparr>hwf_truncated = False, hwf_texts = [], hwf_directories = [], hwf_links = []\<rparr>,
           sys_raw_device_handles := [], sys_raw_hostnames := [],
           sys_device_handles := finish_handles (ao_handle orders) live handles,
           sys_hardware_devices := ho_devices hardware, sys_hardware_paths := ho_paths hardware,
           sys_fd_relations := map (relation_hostname (hash_map (sys_raw_hostnames s))) (sys_fd_relations s)\<rparr>)
         (HardwareObservation_observe fl sources)))"

section \<open>Handles are groups\<close>

text \<open>What a captured descriptor counts for.\<close>

definition handle_key ::
  "DeviceHandleCollector \<Rightarrow> ProcessId \<times> u32 \<times> u64 \<Rightarrow> (ProcessId \<times> DeviceHandleKind \<times> rstring) option"
where
  "handle_key c = (\<lambda>(process_id, fd, rdev). map_option (Pair process_id) (resolve_listed c rdev))"

definition handle_group ::
  "DeviceHandleCollector \<Rightarrow> (ProcessId \<times> u32 \<times> u64) list \<Rightarrow> ProcessId \<times> DeviceHandleKind \<times> rstring \<Rightarrow> u32 list"
where
  "handle_group c xs key = map (\<lambda>(_, fd, _). fd) (filter (\<lambda>x. handle_key c x = Some key) xs)"

definition grouped_value :: "u32 list \<Rightarrow> (u32 \<times> usize) option" where
  "grouped_value fds = (if fds = [] then None else Some (Min (set fds), of_nat (length fds)))"

definition handles_ok :: "DeviceHandleCollector \<Rightarrow> (ProcessId \<times> u32 \<times> u64) list \<Rightarrow> DeviceHandleCollector \<Rightarrow> bool" where
  "handles_ok c0 xs c \<longleftrightarrow> resolve_listed c = resolve_listed c0
     \<and> (\<forall>rdev v. map_of (dc_resolved c) rdev = Some v \<longrightarrow> v = resolve_listed c0 rdev)
     \<and> distinct (map fst (dc_handles c))
     \<and> (\<forall>key. map_of (dc_handles c) key = grouped_value (handle_group c0 xs key))"

lemma resolve_listed_cached [simp]:
  "resolve_listed (c\<lparr>dc_resolved := m\<rparr>) = resolve_listed c" "resolve_listed (c\<lparr>dc_handles := h\<rparr>) = resolve_listed c"
  by (simp_all add: fun_eq_iff resolve_listed_def resolve_def Let_def)

lemma grouped_value_step:
  "grouped_value (fds @ [fd]) = Some (case grouped_value fds of Some (lowest, number) \<Rightarrow> (min lowest fd, number + 1) | None \<Rightarrow> (fd, 1))"
  by (simp add: grouped_value_def min.commute)

lemma add_handle_lookup:
  "map_of (add_handle key fd handles) k =
     (if k = key then Some (case map_of handles key of Some (lowest, number) \<Rightarrow> (min lowest fd, number + 1) | None \<Rightarrow> (fd, 1))
      else map_of handles k)"
  by (auto simp: add_handle_def update_conv' split: option.split)

lemma add_handle_distinct: "distinct (map fst handles) \<Longrightarrow> distinct (map fst (add_handle key fd handles))"
  by (auto simp: add_handle_def distinct_update split: option.split)

lemma observe_handle_ok:
  assumes ok: "handles_ok c0 xs c"
  shows "handles_ok c0 (xs @ [(process_id, fd, rdev)]) (observe_handle process_id fd rdev c)"
proof -
  define c1 where "c1 = (if map_of (dc_resolved c) rdev = None
      then c\<lparr>dc_resolved := AList.update rdev (resolve_listed c rdev) (dc_resolved c)\<rparr> else c)"
  have c1: "map_of (dc_resolved c1) rdev = Some (resolve_listed c0 rdev)"
      "\<forall>r v. map_of (dc_resolved c1) r = Some v \<longrightarrow> v = resolve_listed c0 r" "dc_handles c1 = dc_handles c"
      "resolve_listed c1 = resolve_listed c0"
    using ok by (auto simp: c1_def handles_ok_def update_conv')
  have new: "handle_group c0 (xs @ [(process_id, fd, rdev)]) key =
      handle_group c0 xs key @ (if map_option (Pair process_id) (resolve_listed c0 rdev) = Some key then [fd] else [])" for key
    by (simp add: handle_group_def handle_key_def)
  show ?thesis
  proof (cases "resolve_listed c0 rdev")
    case None
    then have "observe_handle process_id fd rdev c = c1"
      unfolding observe_handle_def Let_def c1_def [symmetric] by (simp add: c1)
    then show ?thesis using ok c1 by (simp add: handles_ok_def new None)
  next
    case (Some target)
    obtain handle device where target: "target = (handle, device)" by (cases target)
    have run: "observe_handle process_id fd rdev c = c1\<lparr>dc_handles := add_handle (process_id, handle, device) fd (dc_handles c)\<rparr>"
      unfolding observe_handle_def Let_def c1_def [symmetric] by (simp add: c1 Some target)
    show ?thesis unfolding run using ok c1
      by (auto simp: handles_ok_def new Some target add_handle_lookup add_handle_distinct grouped_value_step)
  qed
qed

lemma observe_handles_ok: "handles_ok c0 xs c \<Longrightarrow> handles_ok c0 (xs @ new) (observe_handles new c)"
proof (induction new arbitrary: xs c)
  case Nil
  then show ?case by (simp add: observe_handles_def)
next
  case (Cons x new)
  obtain process_id fd rdev where x: "x = (process_id, fd, rdev)" by (cases x)
  from Cons.IH [OF observe_handle_ok [OF Cons.prems]] show ?case by (simp add: observe_handles_def x)
qed

lemma collector_start: "dc_handles c = [] \<Longrightarrow> dc_resolved c = [] \<Longrightarrow> handles_ok c [] c"
  by (simp add: handles_ok_def handle_group_def grouped_value_def)

section \<open>Identifiers of handles\<close>

lemma handle_kind_text_inj: "handle_kind_text a = handle_kind_text b \<Longrightarrow> a = b"
  by (cases a; cases b) (simp_all add: lit_map_ch)

lemma handle_kind_text_colon: "ch CHR '':'' \<notin> set (handle_kind_text a)"
  by (cases a) (simp_all add: lit_map_ch)

lemma show_dec_colon: "ch CHR '':'' \<notin> set (show_dec n)"
  using show_int_ends(2) [of "int n"] by (simp add: show_int_def)

lemma handle_id_inj: "handle_id k = handle_id l \<Longrightarrow> k = l"
proof -
  assume eq: "handle_id k = handle_id l"
  obtain p h d q i e where kl: "k = (p, h, d)" "l = (q, i, e)" by (metis prod.exhaust)
  have 1: "show_int (sint (pid_pid p)) = show_int (sint (pid_pid q))
      \<and> show_dec (unat (pid_start_time_ticks p)) @ ch CHR '':'' # handle_kind_text h @ ch CHR '':'' # d
        = show_dec (unat (pid_start_time_ticks q)) @ ch CHR '':'' # handle_kind_text i @ ch CHR '':'' # e"
    using eq unfolding kl handle_id_def prod.case by (rule append_separator_eq [OF show_int_ends(2) show_int_ends(2)])
  have 2: "show_dec (unat (pid_start_time_ticks p)) = show_dec (unat (pid_start_time_ticks q))
      \<and> handle_kind_text h @ ch CHR '':'' # d = handle_kind_text i @ ch CHR '':'' # e"
    using 1 by (intro append_separator_eq [OF show_dec_colon show_dec_colon]) (rule conjunct2)
  have 3: "handle_kind_text h = handle_kind_text i \<and> d = e"
    using 2 by (intro append_separator_eq [OF handle_kind_text_colon handle_kind_text_colon]) (rule conjunct2)
  have "sint (pid_pid p) = sint (pid_pid q)" using 1 show_int_inj by blast
  moreover have "unat (pid_start_time_ticks p) = unat (pid_start_time_ticks q)" using 2 show_dec_inj by blast
  ultimately have "pid_pid p = pid_pid q" "pid_start_time_ticks p = pid_start_time_ticks q"
    by (simp_all add: signed_word_eqI flip: word_unat_eq_iff)
  then have "p = q" by (intro ProcessId.equality) simp_all
  then show ?thesis using 3 handle_kind_text_inj by (simp add: kl)
qed

section \<open>What the interpretation reports\<close>

text \<open>The handle of a group of captured descriptors.\<close>

definition reports :: "DeviceHandleCollector \<Rightarrow> ProcessId set \<Rightarrow> (ProcessId \<times> u32 \<times> u64) list \<Rightarrow> DeviceHandle \<Rightarrow> bool" where
  "reports c live xs h \<longleftrightarrow>
     (let key = (dh_process_id h, dh_kind h, dh_device h); fds = handle_group c xs key in
      dh_process_id h \<in> live \<and> dh_id h = handle_id key \<and> fds \<noteq> [] \<and> dh_fd h = Min (set fds) \<and> dh_fd_count h = of_nat (length fds))"

lemma finish_handles_spec:
  assumes ok: "handles_ok c0 xs c" and order: "\<And>ks. mset (order ks) = mset ks"
  shows "sorted (map dh_id (finish_handles order live c))" "distinct (map dh_id (finish_handles order live c))"
    "h \<in> set (finish_handles order live c) \<longleftrightarrow> reports c0 live xs h"
proof -
  have d: "distinct (map fst (dc_handles c))" using ok by (simp add: handles_ok_def)
  have re: "distinct (map fst (reordered order (dc_handles c)))" "set (reordered order (dc_handles c)) = set (dc_handles c)"
    using reordered_map_of(2,3) [of "dc_handles c" order, OF d order] by simp_all
  have ids: "dh_id (handle_of x) = handle_id (fst x)" for x by (cases x) (auto simp: handle_of_def split: prod.split)
  show "sorted (map dh_id (finish_handles order live c))" by (simp add: finish_handles_def)
  define ys where "ys = map handle_of (filter (\<lambda>((p, _), _). p \<in> live) (reordered order (dc_handles c)))"
  have "distinct (map handle_id (map fst (reordered order (dc_handles c))))"
    unfolding distinct_map [of handle_id] using re(1) handle_id_inj by (auto intro: inj_onI)
  then have "distinct (map dh_id ys)" by (simp add: ys_def comp_def ids distinct_map_filter)
  moreover have "mset (map dh_id (sort_key dh_id ys)) = mset (map dh_id ys)" by simp
  ultimately have "distinct (map dh_id (sort_key dh_id ys))" using mset_eq_imp_distinct_iff by blast
  then show "distinct (map dh_id (finish_handles order live c))" by (simp add: finish_handles_def ys_def)
  have entry: "(key, v) \<in> set (dc_handles c) \<longleftrightarrow> grouped_value (handle_group c0 xs key) = Some v" for key v
  proof -
    have "map_of (dc_handles c) key = grouped_value (handle_group c0 xs key)" using ok unfolding handles_ok_def by blast
    then show ?thesis using map_of_eq_Some_iff [OF d, of key v] by simp
  qed
  show "h \<in> set (finish_handles order live c) \<longleftrightarrow> reports c0 live xs h"
  proof
    assume "h \<in> set (finish_handles order live c)"
    then obtain p k v fd n where h: "((p, k, v), fd, n) \<in> set (dc_handles c)" "p \<in> live" "h = handle_of ((p, k, v), fd, n)"
      by (auto simp: finish_handles_def re(2))
    then show "reports c0 live xs h" using entry [of "(p, k, v)" "(fd, n)"]
      by (auto simp: reports_def handle_of_def Let_def grouped_value_def split: if_splits)
  next
    assume r: "reports c0 live xs h"
    define key where "key = (dh_process_id h, dh_kind h, dh_device h)"
    have "(key, dh_fd h, dh_fd_count h) \<in> set (dc_handles c)"
      using r entry [of key "(dh_fd h, dh_fd_count h)"] by (simp add: reports_def Let_def key_def grouped_value_def)
    moreover have "h = handle_of (key, dh_fd h, dh_fd_count h)"
      using r by (simp add: reports_def Let_def handle_of_def key_def)
    moreover have "dh_process_id h \<in> live" using r by (simp add: reports_def Let_def)
    ultimately show "h \<in> set (finish_handles order live c)"
      by (auto simp: finish_handles_def re(2) key_def intro!: image_eqI)
  qed
qed

lemma observation_addresses:
  assumes "one_tree (set (device_chains s (hs_sys s)))"
  obtains hardware where "HardwareObservation_observe fl s = Some hardware" "distinct (map hw_address (ho_devices hardware))"
    "hw_address ` set (ho_devices hardware) = (\<Union>(c, k)\<in>set (device_chains s (hs_sys s)). fst ` set c)"
proof -
  obtain nodes paths where n: "read_topology fl s (hs_sys s) = Some nodes"
      "build_hardware_paths fl nodes (online_numa_nodes s (hs_sys s)) = Some paths"
    using topology_paths [OF assms] by metis
  have "forest nodes" "pn_address ` set nodes = (\<Union>(c, k)\<in>set (device_chains s (hs_sys s)). fst ` set c)"
    using topology_shape [OF assms, of fl] n(1) by (elim exE conjE; simp)+
  then have "distinct (map pn_address nodes)" "pn_address ` set nodes = (\<Union>(c, k)\<in>set (device_chains s (hs_sys s)). fst ` set c)"
    by (simp_all add: forest_def)
  then show thesis
    using that [of "\<lparr>ho_devices = map (build_hardware_device s (hs_proc s)) nodes, ho_paths = paths\<rparr>"] n
    by (simp add: HardwareObservation_observe_def comp_def build_hardware_device_def Let_def image_image)
qed

lemma collector_new_start: "handles_ok (observation_handles obs s) [] (observation_handles obs s)"
  by (rule collector_start) (simp_all add: observation_handles_def DeviceHandleCollector_new_def)

lemma reports_listed:
  assumes "reports c live xs h"
  shows "dh_device h \<in> dc_devices c \<and> dh_process_id h \<in> live"
proof -
  have "handle_group c xs (dh_process_id h, dh_kind h, dh_device h) \<noteq> []" "dh_process_id h \<in> live"
    using assms by (simp_all add: reports_def Let_def)
  then obtain x where "handle_key c x = Some (dh_process_id h, dh_kind h, dh_device h)"
    by (auto simp: handle_group_def filter_empty_conv)
  then have "resolve_listed c (snd (snd x)) = Some (dh_kind h, dh_device h)"
    by (cases x) (auto simp: handle_key_def)
  then show ?thesis using \<open>dh_process_id h \<in> live\<close>
    by (auto simp: resolve_listed_def bind_eq_Some_conv split: if_splits)
qed

lemma build_ipc_relations_keeps:
  assumes "build_ipc_relations by_owner by_socket s = (truncated, t)"
  shows "sys_processes t = sys_processes s" "sys_raw_hardware t = sys_raw_hardware s"
    "sys_raw_device_handles t = sys_raw_device_handles s" "sys_raw_owners t = []" "sys_raw_sockets t = []"
    "sys_raw_namespaces t = []" "sys_raw_connections t = []" "sys_raw_neighbors t = None"
  using assms by (auto simp: build_ipc_relations_def Let_def)

text \<open>Nothing that only the analyses need is left in a snapshot.\<close>

definition raw_fields_empty :: "SystemSnapshot \<Rightarrow> bool" where
  "raw_fields_empty t \<longleftrightarrow> sys_raw_owners t = [] \<and> sys_raw_sockets t = [] \<and> sys_raw_namespaces t = [] \<and> sys_raw_connections t = []
     \<and> sys_raw_device_handles t = [] \<and> sys_raw_neighbors t = None \<and> sys_raw_hostnames t = []
     \<and> sys_raw_hardware t = \<lparr>hwf_truncated = False, hwf_texts = [], hwf_directories = [], hwf_links = []\<rparr>"

text \<open>
  C37: When an address has one place in the captured sysfs, a snapshot is interpreted: the analyses return, the captured raw
  data is gone, devices have the distinct addresses of the topology, and the device handles, sorted by distinct identifiers, are exactly the
  groups of captured descriptors by listed process, kind and listed device, each with its lowest number and its count.
\<close>

theorem snapshot_interpreted:
  assumes "one_tree (set (device_chains (HardwareSources_acquired (sys_raw_hardware s)) (lit ''/sys'')))"
    and "\<And>ks. mset (ao_handle orders ks) = mset ks"
  shows "\<exists>t. interpret_snapshot fl orders s = Some t \<and> raw_fields_empty t \<and> sys_processes t = sys_processes s
    \<and> distinct (map hw_address (sys_hardware_devices t))
    \<and> hw_address ` set (sys_hardware_devices t) =
        (\<Union>(c, k)\<in>set (device_chains (HardwareSources_acquired (sys_raw_hardware s)) (lit ''/sys'')). fst ` set c)
    \<and> sorted (map dh_id (sys_device_handles t)) \<and> distinct (map dh_id (sys_device_handles t))
    \<and> (\<forall>h. h \<in> set (sys_device_handles t) \<longleftrightarrow>
         reports (observation_handles \<lparr>ho_devices = sys_hardware_devices t, ho_paths = sys_hardware_paths t\<rparr>
             (HardwareSources_acquired (sys_raw_hardware s)))
           (psnap_identity ` set (sys_processes s)) (sys_raw_device_handles s) h)
    \<and> (\<forall>h\<in>set (sys_device_handles t). dh_device h \<in> hw_address ` set (sys_hardware_devices t)
         \<and> dh_process_id h \<in> psnap_identity ` set (sys_processes s))"
proof -
  let ?src = "HardwareSources_acquired (sys_raw_hardware s)"
  obtain truncated s1 where built: "build_ipc_relations (ao_owner orders) (ao_socket orders) s = (truncated, s1)" by fastforce
  note kept = build_ipc_relations_keeps [OF built]
  have sys: "hs_sys ?src = lit ''/sys''" by (simp add: HardwareSources_acquired_def HardwareSources_at_def)
  obtain hardware where hw: "HardwareObservation_observe fl ?src = Some hardware" "distinct (map hw_address (ho_devices hardware))"
      "hw_address ` set (ho_devices hardware) = (\<Union>(c, k)\<in>set (device_chains ?src (lit ''/sys'')). fst ` set c)"
    using observation_addresses [of ?src fl] assms(1) by (auto simp: sys)
  define c0 where "c0 = observation_handles hardware ?src"
  define live where "live = psnap_identity ` set (sys_processes s)"
  define hs where "hs = finish_handles (ao_handle orders) live (observe_handles (sys_raw_device_handles s) c0)"
  have "handles_ok c0 (sys_raw_device_handles s) (observe_handles (sys_raw_device_handles s) c0)"
    using observe_handles_ok [OF collector_new_start] by (simp add: c0_def)
  note spec = finish_handles_spec [where order = "ao_handle orders" and live = live, OF this assms(2), folded hs_def]
  define t where "t = the (interpret_snapshot fl orders s)"
  have t: "interpret_snapshot fl orders s = Some t" "raw_fields_empty t" "sys_processes t = sys_processes s"
      "sys_hardware_devices t = ho_devices hardware" "sys_hardware_paths t = ho_paths hardware" "sys_device_handles t = hs"
    using hw(1) kept by (cases truncated;
        simp add: t_def interpret_snapshot_def built Let_def raw_fields_empty_def hs_def live_def c0_def)+
  have obs: "\<lparr>ho_devices = sys_hardware_devices t, ho_paths = sys_hardware_paths t\<rparr> = hardware" by (simp add: t)
  have "\<forall>h. h \<in> set (sys_device_handles t) \<longleftrightarrow>
      reports (observation_handles \<lparr>ho_devices = sys_hardware_devices t, ho_paths = sys_hardware_paths t\<rparr> ?src)
        (psnap_identity ` set (sys_processes s)) (sys_raw_device_handles s) h"
    unfolding obs using spec(3) by (simp add: t c0_def live_def)
  moreover have "\<forall>h\<in>set hs. dh_device h \<in> hw_address ` set (ho_devices hardware) \<and> dh_process_id h \<in> live"
    using reports_listed [of c0] spec(3) by (auto simp: c0_def observation_handles_def DeviceHandleCollector_new_def)
  ultimately show ?thesis using t hw(2,3) spec(1,2) by (intro exI [of _ t] conjI) (simp_all add: live_def)
qed

text \<open>A process holds the render node of the graphics card twice.\<close>

definition holder_id :: ProcessId where "holder_id = \<lparr>pid_pid = 7, pid_start_time_ticks = 500\<rparr>"

definition render_snapshot :: SystemSnapshot where
  "render_snapshot = SystemSnapshot_default\<lparr>
     sys_raw_hardware := \<lparr>hwf_truncated = False, hwf_texts = hs_texts sample_sources, hwf_directories = hs_directories sample_sources,
       hwf_links = hs_links sample_sources\<rparr>,
     sys_processes := [process_from_summary (scanned_summary 7\<lparr>psum_identity := holder_id\<rparr>) None],
     sys_raw_device_handles := [(holder_id, 5, 0xe280), (holder_id, 3, 0xe280)]\<rparr>"

lemma render_sources: "HardwareSources_acquired (sys_raw_hardware render_snapshot) = sample_sources"
  by (simp add: render_snapshot_def sample_sources_def HardwareSources_acquired_def HardwareSources_at_def)

lemma render_link:
  "source_link sample_sources (path_join (lit ''/sys'') (lit ''dev/char/'' @ show_dec 226 @ lit '':'' @ show_dec 128))
     = Some (lit ''/sys/d/pci0000:00/0000:00:01.0/0000:01:00.0/drm/renderD128'')"
proof -
  have digits: "show_dec 226 = lit ''226''" "show_dec 128 = lit ''128''"
    by (simp_all add: show_radix.simps [of 10] from_digit_def lit_def ch_def)
  have "path_join (lit ''/sys'') (lit ''dev/char/'' @ show_dec 226 @ lit '':'' @ show_dec 128) = lit ''/sys/dev/char/226:128''"
    unfolding digits by (simp add: path_join_def lit_map_ch slash_def)
  then show ?thesis
    by (simp add: source_link_def sample_sources_def HardwareSources_acquired_def HardwareSources_at_def at_path_def
        path_components_def lit_map_ch slash_def)
qed

lemma render_kind:
  "handle_kind (lit ''/sys/d/pci0000:00/0000:00:01.0/0000:01:00.0/drm/renderD128'') = Some DeviceHandleKind.DrmRender"
  "function_address (lit ''/sys/d/pci0000:00/0000:00:01.0/0000:01:00.0/drm/renderD128'') = Some (lit ''0000:01:00.0'')"
proof -
  show "handle_kind (lit ''/sys/d/pci0000:00/0000:00:01.0/0000:01:00.0/drm/renderD128'') = Some DeviceHandleKind.DrmRender"
    by (simp add: handle_kind_def lit_map_ch starts_with_def)
  have "path_components (lit ''/sys/d/pci0000:00/0000:00:01.0/0000:01:00.0/drm/renderD128'') =
     [lit ''/'', lit ''sys'', lit ''d'', lit ''pci0000:00'', lit ''0000:00:01.0'', lit ''0000:01:00.0'', lit ''drm'', lit ''renderD128'']"
    by (simp add: path_components_def lit_map_ch slash_def)
  then show "function_address (lit ''/sys/d/pci0000:00/0000:00:01.0/0000:01:00.0/drm/renderD128'') = Some (lit ''0000:01:00.0'')"
    by (simp add: function_address_def) (simp add: lit_map_ch as_bytes_def utf8_char_def byte_of_def Let_def)
qed

lemma render_device: "dev_major (DeviceId_from_stat 0xe280) = 226" "dev_minor (DeviceId_from_stat 0xe280) = 128"
  by (simp_all add: DeviceId_from_stat_def)

lemma render_resolved:
  assumes "lit ''0000:01:00.0'' \<in> hw_address ` set (ho_devices obs)"
  shows "resolve_listed (observation_handles obs sample_sources) 0xe280 = Some (DeviceHandleKind.DrmRender, lit ''0000:01:00.0'')"
proof -
  have "source_text sample_sources (path_join (hs_proc sample_sources) (lit ''devices'')) = None"
    by (simp add: source_text_def sample_sources_def HardwareSources_acquired_def HardwareSources_at_def at_path_def
        path_components_def path_join_def lit_map_ch slash_def)
  moreover have "hs_sys sample_sources = lit ''/sys''"
    by (simp add: sample_sources_def HardwareSources_acquired_def HardwareSources_at_def)
  ultimately show ?thesis
    using assms by (simp add: resolve_listed_def resolve_def observation_handles_def DeviceHandleCollector_new_def render_device
        render_link render_kind Let_def)
qed

theorem snapshot_interpreted_witness:
  "\<exists>t. interpret_snapshot sample_floats \<lparr>ao_owner = id, ao_socket = id, ao_handle = id\<rparr> render_snapshot = Some t
     \<and> \<lparr>dh_id = handle_id (holder_id, DeviceHandleKind.DrmRender, lit ''0000:01:00.0''), dh_process_id = holder_id,
         dh_device = lit ''0000:01:00.0'', dh_kind = DeviceHandleKind.DrmRender, dh_fd = 3, dh_fd_count = 2\<rparr>
       \<in> set (sys_device_handles t)"
proof -
  let ?h = "\<lparr>dh_id = handle_id (holder_id, DeviceHandleKind.DrmRender, lit ''0000:01:00.0''), dh_process_id = holder_id,
         dh_device = lit ''0000:01:00.0'', dh_kind = DeviceHandleKind.DrmRender, dh_fd = 3, dh_fd_count = 2\<rparr>"
  obtain t where t: "interpret_snapshot sample_floats \<lparr>ao_owner = id, ao_socket = id, ao_handle = id\<rparr> render_snapshot = Some t"
      "hw_address ` set (sys_hardware_devices t) = (\<Union>(c, k)\<in>set (device_chains sample_sources (lit ''/sys'')). fst ` set c)"
      "?h \<in> set (sys_device_handles t) \<longleftrightarrow>
        reports (observation_handles \<lparr>ho_devices = sys_hardware_devices t, ho_paths = sys_hardware_paths t\<rparr> sample_sources)
          (psnap_identity ` set (sys_processes render_snapshot)) (sys_raw_device_handles render_snapshot) ?h"
    using snapshot_interpreted [of render_snapshot "\<lparr>ao_owner = id, ao_socket = id, ao_handle = id\<rparr>" sample_floats]
    unfolding render_sources by (auto simp: sample_one_tree)
  let ?c = "observation_handles \<lparr>ho_devices = sys_hardware_devices t, ho_paths = sys_hardware_paths t\<rparr> sample_sources"
  have r: "resolve_listed ?c 0xe280 = Some (DeviceHandleKind.DrmRender, lit ''0000:01:00.0'')"
    by (rule render_resolved) (simp add: t(2) sample_device_chains sample_chain_def)
  have "reports ?c (psnap_identity ` set (sys_processes render_snapshot)) (sys_raw_device_handles render_snapshot) ?h"
    using r by (simp add: reports_def handle_group_def handle_key_def render_snapshot_def process_from_summary_def Let_def)
  with t(1,3) show ?thesis by blast
qed

end
