(* ===== verification/Spec2Isabelle.thy ===== *)
theory Spec2Isabelle
  imports Ipc_Properties Helper_Replies Process_Properties Delivery Netlink Unwind Host_Registry Activity Correlate
    Monitor_Client Fd_Relations Sampler Device_Views
begin

text \<open>
  A verification development for procinsh, a monitor that shows the processes, descriptors, memory and hardware of a
  Linux system in the browser.

  \<^bold>\<open>The program.\<close> A privileged helper (\<open>src/privileged_helper\<close>) reads the kernel: procfs, netlink, ptrace and BPF
  programs. An unprivileged HTTP server (\<open>src/http_server\<close>) asks it for snapshots over one Unix socket, with the binary
  protocol of \<open>src/ipc\<close>, analyses what it gets and delivers it to browsers. Several servers can be joined: agents connect
  to a hub, which registers the hosts and correlates the connections between them.

  \<^bold>\<open>The library.\<close> \<open>Prelude\<close> has the fixed-width integers, \<open>Result\<close> as a sum, the \<open>?\<close> operator and the collections of
  theorems. \<open>Rust_String\<close>, \<open>Text\<close>, \<open>Str_Order\<close>, \<open>Net_Addr\<close>, \<open>Bytes\<close> and \<open>Btree_Map\<close> model what the program uses of
  Rust's standard library: strings and their UTF-8, integer parsing and printing, trimming and splitting, the order of
  strings, network addresses, slices of bytes, ordered maps (\<open>key_table\<close> is the contract of a map with distinct keys);
  \<open>Hash_Map\<close> has hash maps, whose order of iteration is an argument.

  \<^bold>\<open>The protocol\<close> (\<open>src/ipc\<close>).
  \<^item> \<open>Codec\<close> is \<open>ipc/codec.rs\<close>: the bounded encoder, the decoder, and one \<open>wire\<close> value for every \<open>Wire\<close>
    implementation. The locale \<open>wire_codec\<close> states what a codec promises (round trip, canonical encodings, rejection of
    truncated and extended messages, size limit) and is interpreted for requests, responses and the identity of the helper.
  \<^item> \<open>Ipc_Identity\<close>, \<open>Ipc_Memory\<close>, \<open>Ipc_Sockets\<close>, \<open>Ipc_Process\<close>, \<open>Ipc_Registers\<close>, \<open>Ipc_Hardware\<close>, \<open>Ipc_Rdma\<close>,
    \<open>Ipc_Elf\<close>, \<open>Ipc_Activity\<close>, \<open>Ipc_Acquisition\<close>, \<open>Ipc_System\<close> and \<open>Ipc_Schema\<close> hold the message types, in the order of
    their fields and tags, with their codecs. \<open>Wire_Size\<close> counts the bytes of an encoding.
  \<^item> \<open>Transport\<close> is \<open>ipc/transport.rs\<close>: frames over a socket that moves any number of bytes per call, with deadlines.
    A schedule is the list of what each call of the kernel does; a transfer that runs out of schedule has not returned.
    Delivery is proved for every schedule that makes progress before the deadline.
  \<^item> \<open>Socket_Names\<close> has the kernel codes of sockets and their texts; \<open>Kernel_Records\<close> the records of the BPF programs.
  \<^item> \<open>Ipc_Properties\<close> collects the properties of the protocol.

  \<^bold>\<open>The helper\<close> (\<open>src/privileged_helper\<close>).
  \<^item> \<open>Viewer_Slots\<close> is the contract of the two monitors, interpreted in \<open>Process_Monitor\<close> and \<open>System_Monitor\<close>, which
    model \<open>process/monitoring/service.rs\<close>, \<open>sampling.rs\<close> and \<open>system/service.rs\<close>.
  \<^item> \<open>Helper_Service\<close> is \<open>helper_service.rs\<close>: sessions with leases, dispatch of every request and the serving loop.
    \<open>Helper_Invariants\<close> and \<open>Helper_Properties\<close> show that over every interleaving of requests, expiry, stops and
    published values registrations and sessions stay in step; \<open>Helper_Replies\<close> what a reply guarantees.
  \<^item> \<open>Procfs\<close>, \<open>Memory_Text\<close> and \<open>Mapped_Elf\<close> are the parsers of \<open>/proc\<close> and the reading of mapped files;
    \<open>Process_Properties\<close> relates them to the formats the kernel writes.
  \<^item> \<open>Netlink\<close> is \<open>netlink.rs\<close>, \<open>Unwind\<close> is \<open>process/snapshot/unwind_fp.rs\<close>.
  \<^item> \<open>Perf_Ring\<close>, \<open>Ptrace_Capture\<close> and \<open>Sampler\<close> are the other files of \<open>process/snapshot\<close>: the ring that a perf event is read
    from, one capture of a stopped thread with the guard that lets it go, and the sampler that keeps the latest sample of
    every thread with the mappings it was taken under.
  \<^item> \<open>Socket_Tables\<close> and \<open>Descriptor_Scan\<close> are \<open>process/sockets.rs\<close>, \<open>process/socket_metadata.rs\<close> and
    \<open>process/fds.rs\<close>: the socket tables, the metadata of a descriptor read through a verified duplicate, the descriptors
    of a process with the owners of what they name; and the peers that \<open>http_server/analysis/descriptors.rs\<close> derives.
  \<^item> \<open>Rdma_Names\<close> and \<open>Rdma_Relations\<close> are \<open>ipc/rdma.rs\<close>, \<open>system/rdma\<close> and \<open>system/ipoib.rs\<close>: the resources the kernel
    dumps and the relations between queue pairs.
  \<^item> \<open>System_Scan\<close> is \<open>system/snapshot.rs\<close>, the scan of all processes; \<open>Scan_Coverage\<close> shows that what it observes reaches
    the relations that the server builds.

  \<^bold>\<open>The server\<close> (\<open>src/http_server\<close>).
  \<^item> \<open>Monitor_Client\<close> is \<open>client.rs\<close>. Its step relation joins the client's queue and worker with the serving loop of the
    helper, so that the properties are about the two programs together.
  \<^item> \<open>Delivery\<close> is \<open>delivery.rs\<close>: full and delta messages, and that applying them rebuilds every snapshot.
  \<^item> \<open>Agent_Link\<close>, \<open>Host_Wire\<close>, \<open>Host_Registry\<close> and \<open>Correlate\<close> are \<open>hosts/\<close>: requests over an agent link, the frames
    of a link, the table of hosts under concurrent connections, and the links between hosts.
  \<^item> \<open>Activity\<close> and \<open>Fd_Relations\<close> are \<open>analysis/activity.rs\<close> and \<open>analysis/relations.rs\<close>.
  \<^item> \<open>Pci_Topology\<close> and \<open>Hardware_Paths\<close> are \<open>analysis/hardware/{observation,pci,paths}.rs\<close>: the forest of PCI devices and
    the path between every two of interest. \<open>Device_Views\<close> is \<open>devices.rs\<close>, \<open>handles.rs\<close> and the interpretation of a
    captured snapshot by all analyses (\<open>processing.rs\<close>): devices with their labels, and the processes that hold them.

  \<^bold>\<open>Bounds and fuel.\<close> Loops over data are structural recursions. Loops that wait for the kernel take the list of its
  answers and return \<open>None\<close> when the list ends first; the properties that say that such a loop returns state how long
  and how timely the list has to be. Machine integers are words, and additions that saturate or fail do so in the model.
  Clocks are natural numbers of milliseconds or nanoseconds. Iteration orders of hash maps are parameters.

  \<^bold>\<open>Not modelled.\<close> System calls, the file system, threads, the async runtime, JSON and compression libraries, and the
  libraries for ELF, DWARF, symbols and disassembly are parameters or left out. So are start-up, routing and sandboxing,
  and the conversion of snapshots to JSON.
\<close>

end
